(* ===== verification/LuaPrelude.thy ===== *)
theory LuaPrelude
  imports Complex_Main "HOL-Library.Word" "HOL-Library.Log_Nat"
begin

text \<open>
  Shared vocabulary of the development: the machine types of the 32-bit build (Code::Blocks
  project with the 32-bit edition of TDM-GCC: \<open>int\<close>, \<open>long\<close>, \<open>size_t\<close> and pointers are
  32 bits wide), the outcome of a C function (a value, a Lua error raised by longjmp, or
  undefined behaviour of C), and the generic lemmas on lists, naturals and words that the
  component theories share.
\<close>

unbundle bit_operations_syntax

named_theorems c_simps \<open>unfolding rules of the C-level helper definitions\<close>
named_theorems res_simps \<open>rules that evaluate the outcome monad\<close>

type_synonym u8 = "8 word"
type_synonym u32 = "32 word"
type_synonym u64 = "64 word"
type_synonym bytes = "u8 list"

section \<open>Outcomes of C code\<close>

text \<open>
  \<open>LuaError\<close> is an error raised with \<open>luaG_runerror\<close>, \<open>luaL_error\<close> or \<open>luaD_throw\<close> (a
  longjmp), \<open>Undefined\<close> is a step for which C gives no meaning (an out-of-bounds access, a
  conversion out of range), \<open>NoFuel\<close> marks an exhausted loop bound.
\<close>

datatype error = LuaError string | MemError | SyntaxError string | Undefined string | NoFuel

type_synonym 'a res = "error + 'a"

abbreviation Ok :: "'a \<Rightarrow> 'a res" where "Ok \<equiv> Inr"
abbreviation Fail :: "error \<Rightarrow> 'a res" where "Fail \<equiv> Inl"

definition rbind :: "'a res \<Rightarrow> ('a \<Rightarrow> 'b res) \<Rightarrow> 'b res" where
  "rbind r f = (case r of Inl e \<Rightarrow> Inl e | Inr x \<Rightarrow> f x)"

lemma rbind_simps [simp, res_simps]:
  "rbind (Ok x) f = f x"
  "rbind (Fail e) f = Fail e"
  by (simp_all add: rbind_def)

lemma rbind_Ok_iff [res_simps]:
  "rbind r f = Ok y \<longleftrightarrow> (\<exists>x. r = Ok x \<and> f x = Ok y)"
  by (cases r) auto

lemma rbind_OkE:
  assumes "rbind r f = Ok y"
  obtains x where "r = Ok x" and "f x = Ok y"
  using assms by (auto simp: rbind_Ok_iff)

lemma rbind_assoc: "rbind (rbind r f) g = rbind r (\<lambda>x. rbind (f x) g)"
  by (cases r) simp_all

lemma rbind_cong [fundef_cong]:
  "r = r' \<Longrightarrow> (\<And>x. r' = Ok x \<Longrightarrow> f x = g x) \<Longrightarrow> rbind r f = rbind r' g"
  by (cases r') simp_all

text \<open>A \<open>for\<close> loop over the elements of a list, with the loop variables as its state.\<close>

primrec foldM :: "('a \<Rightarrow> 's \<Rightarrow> 's res) \<Rightarrow> 'a list \<Rightarrow> 's \<Rightarrow> 's res" where
  "foldM f [] s = Ok s"
| "foldM f (x # xs) s = rbind (f x s) (foldM f xs)"

lemma foldM_append [simp]: "foldM f (xs @ ys) s = rbind (foldM f xs s) (foldM f ys)"
  by (induction xs arbitrary: s) (simp_all add: rbind_def split: sum.split)

lemma foldM_invariant:
  assumes "I [] s"
    and "\<And>pre x s. x \<in> set xs \<Longrightarrow> I pre s \<Longrightarrow> (\<exists>post. xs = pre @ x # post) \<Longrightarrow> \<exists>s'. f x s = Ok s' \<and> I (pre @ [x]) s'"
  shows "\<exists>s'. foldM f xs s = Ok s' \<and> I xs s'"
  using assms
proof (induction xs rule: rev_induct)
  case (snoc x xs)
  then obtain s1 where s1: "foldM f xs s = Ok s1" "I xs s1" by fastforce
  moreover obtain s2 where "f x s1 = Ok s2" "I (xs @ [x]) s2"
    using snoc.prems(2) [of x xs s1] s1(2) by auto
  ultimately show ?case by simp
qed simp

section \<open>Lists\<close>

text \<open>An array access of C: defined inside the bounds only.\<close>

definition aget :: "'a list \<Rightarrow> nat \<Rightarrow> 'a res" where
  "aget xs i = (if i < length xs then Ok (xs ! i) else Fail (Undefined ''read out of bounds''))"

definition aset :: "'a list \<Rightarrow> nat \<Rightarrow> 'a \<Rightarrow> 'a list res" where
  "aset xs i v = (if i < length xs then Ok (xs[i := v]) else Fail (Undefined ''write out of bounds''))"

lemma aget_in [simp]: "i < length xs \<Longrightarrow> aget xs i = Ok (xs ! i)"
  by (simp add: aget_def)

lemma aset_in [simp]: "i < length xs \<Longrightarrow> aset xs i v = Ok (xs[i := v])"
  by (simp add: aset_def)

lemma aget_Ok_iff: "aget xs i = Ok v \<longleftrightarrow> i < length xs \<and> v = xs ! i"
  by (auto simp: aget_def)

lemma aset_Ok_iff: "aset xs i v = Ok ys \<longleftrightarrow> i < length xs \<and> ys = xs[i := v]"
  by (auto simp: aset_def)

section \<open>Naturals\<close>

lemma div_less_2_cases:
  fixes n c :: nat
  assumes "n < 2 * c"
  obtains (low) "n div c = 0" "n mod c = n" | (high) "n div c = 1" "n = c + n mod c"
proof (cases "n < c")
  case True
  then show ?thesis using low by simp
next
  case False
  then have "n div c = Suc ((n - c) div c)"
    using assms by (subst le_div_geq) auto
  moreover have "(n - c) div c = 0"
    using assms False by simp
  ultimately have "n div c = 1" by simp
  moreover from this have "n = c + n mod c"
    by (metis div_mult_mod_eq mult_1)
  ultimately show ?thesis using high by blast
qed

lemma floorlog2_le: "n < 2 ^ k \<Longrightarrow> floorlog 2 n \<le> k"
proof (cases "n = 0")
  case False
  assume "n < 2 ^ k"
  moreover have "2 ^ (floorlog 2 n - 1) \<le> n"
    using False floorlog_bounds [of n 2] by simp
  ultimately have "(2::nat) ^ (floorlog 2 n - 1) < 2 ^ k"
    by (rule order.strict_trans1 [rotated])
  then have "floorlog 2 n - 1 < k"
    by simp
  then show ?thesis by simp
qed (simp add: floorlog_def)

lemma floorlog2_eqI:
  assumes "2 ^ k \<le> n" and "n < 2 ^ Suc k"
  shows "floorlog 2 n = Suc k"
proof (rule antisym)
  show "floorlog 2 n \<le> Suc k"
    by (rule floorlog2_le) fact
  have "0 < n"
    using assms(1) by (metis gr0I leD zero_less_numeral zero_less_power)
  then have "n < 2 ^ floorlog 2 n"
    using floorlog_bounds [of n 2] by simp
  with assms(1) have "(2::nat) ^ k < 2 ^ floorlog 2 n"
    by (rule order.strict_trans1)
  then show "Suc k \<le> floorlog 2 n"
    by simp
qed

lemma floorlog2_upper: "n < 2 ^ floorlog 2 n"
  using floorlog_bounds [of n 2] by (cases "n = 0") (simp_all add: floorlog_def)

lemma floorlog2_lower: "0 < n \<Longrightarrow> 2 ^ (floorlog 2 n - 1) \<le> n"
  using floorlog_bounds [of n 2] by simp

lemma floorlog2_div: "0 < x div 2 ^ k \<Longrightarrow> floorlog 2 x = floorlog 2 (x div 2 ^ k) + k"
proof (induction k arbitrary: x)
  case (Suc k)
  have "x div 2 ^ Suc k = x div 2 div 2 ^ k" by (simp add: div_mult2_eq)
  with Suc.prems have pos: "0 < x div 2 div 2 ^ k" by simp
  then have "0 < x" by (metis div_0 gr0I)
  then have "floorlog 2 x = floorlog 2 (x div 2) + 1"
    by (subst compute_floorlog) simp
  with Suc.IH [OF pos] show ?case by (simp add: div_mult2_eq)
qed simp

section \<open>Words\<close>

lemma unat_u8: "unat (x :: u8) < 256"
proof -
  have "(unat x :: nat) < 2 ^ LENGTH(8)" by (rule unsigned_less)
  then show ?thesis by simp
qed

section \<open>Outcomes\<close>

text \<open>The outcome is a value with \<open>P\<close>.\<close>

definition yields :: "'a res \<Rightarrow> ('a \<Rightarrow> bool) \<Rightarrow> bool" where
  "yields r P \<longleftrightarrow> (\<exists>x. r = Ok x \<and> P x)"

lemma yields_Ok [simp]: "yields (Ok x) P \<longleftrightarrow> P x"
  by (simp add: yields_def)

lemma yields_bind: "yields r P \<Longrightarrow> (\<And>x. P x \<Longrightarrow> yields (f x) Q) \<Longrightarrow> yields (rbind r f) Q"
  by (auto simp: yields_def)

lemma yields_mono: "yields r P \<Longrightarrow> (\<And>x. P x \<Longrightarrow> Q x) \<Longrightarrow> yields r Q"
  by (auto simp: yields_def)

end
