(* ===== verification/LuaNumber.thy ===== *)
theory LuaNumber
  imports LuaPrelude
begin

text \<open>
  \<open>lua_Number\<close> (luaconf.h): the C type \<open>double\<close>, kept as its 64-bit representation, because
  the program reads that representation (the union of \<open>lua_number2int\<close>, the union \<open>BitNum\<close>
  of profibit.c, the \<open>memcpy\<close> of \<open>hashnum\<close>, the bytes that ldump.c writes). The arithmetic is
  IEEE 754 binary64 with rounding to nearest, ties to even, computed exactly on integers: every
  finite double is a multiple of \<open>2^(-1074)\<close>, and \<open>dbl_units\<close> is that multiple. The lemmas show
  that the encoding is monotone and injective up to the sign of zero, that rounding a
  representable value returns it, and that the conversions between \<open>int\<close> and \<open>double\<close> are
  inverse to each other, the Pentium trick of \<open>lua_number2int\<close> included.
\<close>

type_synonym lua_Number = "64 word"

section \<open>Representation\<close>

definition dbl_sign :: "lua_Number \<Rightarrow> bool" where
  "dbl_sign d \<longleftrightarrow> bit d 63"

definition dbl_mag :: "lua_Number \<Rightarrow> nat" where
  "dbl_mag d = unat (take_bit 63 d)"

definition dbl_pack :: "bool \<Rightarrow> nat \<Rightarrow> lua_Number" where
  "dbl_pack s m = of_nat ((if s then 2 ^ 63 else 0) + m)"

text \<open>The magnitude (exponent and fraction fields) of infinity; beyond it are the NaNs.\<close>

definition inf_mag :: nat where
  "inf_mag = 2047 * 2 ^ 52"

definition dbl_isnan :: "lua_Number \<Rightarrow> bool" where
  "dbl_isnan d \<longleftrightarrow> inf_mag < dbl_mag d"

definition dbl_isinf :: "lua_Number \<Rightarrow> bool" where
  "dbl_isinf d \<longleftrightarrow> dbl_mag d = inf_mag"

text \<open>The value of a magnitude in units of \<open>2^(-1074)\<close>.\<close>

definition units :: "nat \<Rightarrow> nat" where
  "units m = (if m div 2 ^ 52 = 0 then m mod 2 ^ 52
              else (2 ^ 52 + m mod 2 ^ 52) * 2 ^ (m div 2 ^ 52 - 1))"

definition dbl_units :: "lua_Number \<Rightarrow> int" where
  "dbl_units d = (if dbl_sign d then - int (units (dbl_mag d)) else int (units (dbl_mag d)))"

text \<open>The number 1.0 in these units.\<close>

definition scale :: nat where
  "scale = 2 ^ 1074"

lemma scale_pos [simp]: "0 < scale"
  by (simp add: scale_def)

lemma scale_neq_0 [simp]: "scale \<noteq> 0"
  by (simp add: scale_def)

section \<open>Rounding\<close>

text \<open>
  The magnitude nearest to \<open>num / den\<close> units. With \<open>k\<close> the number of bits that do not fit into
  53, the significand is the quotient by \<open>den * 2^k\<close>, rounded to even on ties; a carry out of
  the significand moves into the exponent field by itself, and what is too large is infinity.
\<close>

definition round_ratio :: "nat \<Rightarrow> nat \<Rightarrow> nat" where
  "round_ratio num den =
     (let k = floorlog 2 (num div den) - 53;
          d = den * 2 ^ k;
          q = num div d;
          r = num mod d;
          q' = (if d < 2 * r \<or> (2 * r = d \<and> odd q) then q + 1 else q)
      in min (k * 2 ^ 52 + q') inf_mag)"

definition dbl_round :: "int \<Rightarrow> lua_Number" where
  "dbl_round u = dbl_pack (u < 0) (round_ratio (nat \<bar>u\<bar>) 1)"

section \<open>Arithmetic and comparison (the luai_num macros)\<close>

definition quiet_nan :: "lua_Number" where
  "quiet_nan = 0xFFF8000000000000"

definition dbl_neg :: "lua_Number \<Rightarrow> lua_Number" where
  "dbl_neg d = d XOR 0x8000000000000000"

definition dbl_add :: "lua_Number \<Rightarrow> lua_Number \<Rightarrow> lua_Number" where
  "dbl_add a b =
     (if dbl_isnan a then a OR 0x0008000000000000
      else if dbl_isnan b then b OR 0x0008000000000000
      else if dbl_isinf a \<and> dbl_isinf b then (if dbl_sign a = dbl_sign b then a else quiet_nan)
      else if dbl_isinf a then a
      else if dbl_isinf b then b
      else let u = dbl_units a + dbl_units b
           in if u = 0 then dbl_pack (dbl_sign a \<and> dbl_sign b) 0 else dbl_round u)"

definition luai_numeq :: "lua_Number \<Rightarrow> lua_Number \<Rightarrow> bool" where
  "luai_numeq a b \<longleftrightarrow> \<not> dbl_isnan a \<and> \<not> dbl_isnan b \<and> dbl_units a = dbl_units b"

definition luai_numlt :: "lua_Number \<Rightarrow> lua_Number \<Rightarrow> bool" where
  "luai_numlt a b \<longleftrightarrow> \<not> dbl_isnan a \<and> \<not> dbl_isnan b \<and> dbl_units a < dbl_units b"

definition luai_numisnan :: "lua_Number \<Rightarrow> bool" where
  "luai_numisnan a \<longleftrightarrow> \<not> luai_numeq a a"

section \<open>Conversions\<close>

text \<open>\<open>cast_num\<close> of an integer, and the cast of a double to \<open>unsigned char\<close> (truncation; C gives
  no meaning to a value that does not fit).\<close>

definition cast_num :: "int \<Rightarrow> lua_Number" where
  "cast_num i = dbl_round (i * int scale)"

definition dbl_trunc :: "lua_Number \<Rightarrow> int" where
  "dbl_trunc d = sgn (dbl_units d) * (\<bar>dbl_units d\<bar> div int scale)"

definition cast_uchar :: "lua_Number \<Rightarrow> u8 res" where
  "cast_uchar d =
     (if \<not> dbl_isnan d \<and> \<not> dbl_isinf d \<and> 0 \<le> dbl_trunc d \<and> dbl_trunc d \<le> 255
      then Ok (word_of_int (dbl_trunc d))
      else Fail (Undefined ''double out of the range of unsigned char''))"

text \<open>The constant 6755399441055744.0, that is \<open>2^52 + 2^51\<close>, and the conversion built on it.\<close>

definition magic_double :: "lua_Number" where
  "magic_double = 0x4338000000000000"

definition lua_number2int :: "lua_Number \<Rightarrow> u32" where
  "lua_number2int d = ucast (dbl_add d magic_double)"

abbreviation lua_number2integer :: "lua_Number \<Rightarrow> u32" where
  "lua_number2integer \<equiv> lua_number2int"

section \<open>The encoding\<close>

lemma dbl_mag_less: "dbl_mag d < 2 ^ 63"
proof -
  have "unat (take_bit 63 d) = take_bit 63 (unat d)"
    by (simp add: unsigned_take_bit_eq)
  also have "\<dots> < 2 ^ 63"
    by (rule take_bit_nat_less_exp)
  finally show ?thesis
    by (simp add: dbl_mag_def)
qed

lemma dbl_mag_of_nat: "dbl_mag (of_nat n) = n mod 2 ^ 63"
proof -
  have "take_bit 63 (n mod 2 ^ 64) = n mod 2 ^ 63"
    by (simp add: take_bit_eq_mod mod_mod_cancel)
  then show ?thesis
    by (simp add: dbl_mag_def unsigned_take_bit_eq unat_of_nat)
qed

lemma dbl_sign_of_nat: "dbl_sign (of_nat n) \<longleftrightarrow> odd (n div 2 ^ 63)"
  unfolding dbl_sign_def by (subst bit_of_nat_iff) (simp add: bit_iff_odd)

lemma dbl_mag_pack [simp]: "m < 2 ^ 63 \<Longrightarrow> dbl_mag (dbl_pack s m) = m"
  unfolding dbl_pack_def dbl_mag_of_nat by (cases s) simp_all

lemma dbl_sign_pack [simp]: "m < 2 ^ 63 \<Longrightarrow> dbl_sign (dbl_pack s m) = s"
  unfolding dbl_pack_def dbl_sign_of_nat by (cases s) simp_all

lemma dbl_pack_mag [simp]: "dbl_pack (dbl_sign d) (dbl_mag d) = d"
proof -
  have "unat d = (if dbl_sign d then 2 ^ 63 else 0) + dbl_mag d"
  proof -
    have b: "unat d < 2 ^ 64" using unsigned_less [of d] by simp
    have m: "dbl_mag d = unat d mod 2 ^ 63" and s: "dbl_sign d \<longleftrightarrow> odd (unat d div 2 ^ 63)"
      using dbl_mag_of_nat [of "unat d"] dbl_sign_of_nat [of "unat d"] by simp_all
    show ?thesis
      unfolding m s by (rule div_less_2_cases [of "unat d" "2 ^ 63"]) (use b in simp_all)
  qed
  then show ?thesis
    unfolding dbl_pack_def by (metis of_nat_unat ucast_id)
qed

lemma units_small: "m < 2 ^ 53 \<Longrightarrow> units m = m"
proof -
  assume m: "m < 2 ^ 53"
  show ?thesis
    unfolding units_def by (rule div_less_2_cases [of m "2 ^ 52", rotated]) (use \<open>m < 2 ^ 53\<close> in simp_all)
qed

text \<open>The magnitude of a significand \<open>q\<close> shifted by \<open>k\<close> bits.\<close>

lemma units_shift:
  assumes "2 ^ 52 \<le> q" and "q \<le> 2 ^ 53"
  shows "units (k * 2 ^ 52 + q) = q * 2 ^ k"
proof (cases "q = 2 ^ 53")
  case True
  have "k * 2 ^ 52 + q = (k + 2) * 2 ^ 52" by (simp add: True)
  then show ?thesis unfolding units_def by (simp add: True)
next
  case False
  with assms have q: "q < 2 ^ 53" by simp
  define f where "f = q - 2 ^ 52"
  have f: "f < 2 ^ 52" and q_eq: "q = 2 ^ 52 + f" using assms q by (simp_all add: f_def)
  have "k * 2 ^ 52 + q = (k + 1) * 2 ^ 52 + f" by (simp add: q_eq)
  moreover have "((k + 1) * 2 ^ 52 + f) div 2 ^ 52 = k + 1" and "((k + 1) * 2 ^ 52 + f) mod 2 ^ 52 = f"
    using f by (simp_all only: div_mult_self3 mod_mult_self3) simp_all
  ultimately show ?thesis by (simp add: units_def q_eq)
qed

lemma mag_cases:
  obtains (small) "m < 2 ^ 53" "units m = m"
  | (large) k q where "m = k * 2 ^ 52 + q" "2 ^ 52 \<le> q" "q < 2 ^ 53" "units m = q * 2 ^ k" "0 < k"
proof (cases "m < 2 ^ 53")
  case True
  then show ?thesis using that(1) units_small by blast
next
  case False
  define k where "k = m div 2 ^ 52 - 1"
  define q where "q = 2 ^ 52 + m mod 2 ^ 52"
  have "2 \<le> m div 2 ^ 52" using False by (simp add: div_le_mono less_eq_div_iff_mult_less_eq)
  then have "m = k * 2 ^ 52 + q" and k: "0 < k"
    using div_mult_mod_eq [of m "2 ^ 52"] by (auto simp: k_def q_def algebra_simps diff_mult_distrib)
  moreover have "2 ^ 52 \<le> q" "q < 2 ^ 53"
    by (auto simp: q_def)
  ultimately show ?thesis using that(2) units_shift by (metis less_imp_le)
qed

lemma units_step: "units m < units (Suc m)"
proof (cases m rule: mag_cases)
  case small
  then show ?thesis
    using units_small [of "Suc m"] units_shift [of "Suc m" 0] by (cases "Suc m < 2 ^ 53") auto
next
  case (large k q)
  then have "units (Suc m) = Suc q * 2 ^ k"
    using units_shift [of "Suc q" k] by simp
  with large show ?thesis by simp
qed

lemma units_strict_mono: "m < m' \<Longrightarrow> units m < units m'"
  by (rule lift_Suc_mono_less [of units, OF units_step])

lemma units_less_iff [simp]: "units m < units m' \<longleftrightarrow> m < m'"
  by (metis linorder_neqE_nat order_less_imp_not_less units_strict_mono)

lemma units_eq_iff [simp]: "units m = units m' \<longleftrightarrow> m = m'"
  by (metis nat_neq_iff units_less_iff)

lemma units_0 [simp]: "units 0 = 0"
  by (simp add: units_def)

lemma units_eq_0_iff [simp]: "units m = 0 \<longleftrightarrow> m = 0"
  using units_eq_iff [of m 0] by simp

lemma units_gr_0_iff [simp]: "0 < units m \<longleftrightarrow> 0 < m"
  using units_less_iff [of 0 m] by simp

text \<open>Two doubles have the same value exactly if they are the same, or both are zero.\<close>

lemma dbl_units_eq_iff:
  "dbl_units a = dbl_units b \<longleftrightarrow> a = b \<or> (dbl_mag a = 0 \<and> dbl_mag b = 0)"
proof
  assume eq: "dbl_units a = dbl_units b"
  show "a = b \<or> (dbl_mag a = 0 \<and> dbl_mag b = 0)"
  proof (cases "dbl_sign a = dbl_sign b")
    case True
    with eq have "units (dbl_mag a) = units (dbl_mag b)"
      unfolding dbl_units_def by (cases "dbl_sign b") simp_all
    then have "dbl_pack (dbl_sign a) (dbl_mag a) = dbl_pack (dbl_sign b) (dbl_mag b)"
      using True by simp
    then show ?thesis by simp
  next
    case False
    with eq have "int (units (dbl_mag a)) + int (units (dbl_mag b)) = 0"
      unfolding dbl_units_def by (cases "dbl_sign b") simp_all
    then have "units (dbl_mag a) = 0 \<and> units (dbl_mag b) = 0" by linarith
    then show ?thesis by simp
  qed
next
  assume "a = b \<or> (dbl_mag a = 0 \<and> dbl_mag b = 0)"
  then show "dbl_units a = dbl_units b" by (auto simp: dbl_units_def)
qed

section \<open>Rounding of representable values\<close>

lemma round_exact:
  assumes q: "2 ^ 52 \<le> q" "q < 2 ^ 53" and den: "0 < den"
    and num: "q * (den * 2 ^ k) \<le> num" "num < (q + 1) * (den * 2 ^ k)"
    and r: "2 * (num - q * (den * 2 ^ k)) < den * 2 ^ k"
    and inf: "k * 2 ^ 52 + q < inf_mag"
  shows "round_ratio num den = k * 2 ^ 52 + q"
proof -
  let ?d = "den * 2 ^ k"
  have d: "0 < ?d" using den by simp
  have quo: "num div ?d = q"
    using num d by (simp add: div_nat_eqI mult.commute)
  have rem: "num mod ?d = num - q * ?d"
    by (simp add: minus_div_mult_eq_mod [symmetric] quo)
  have "2 ^ 52 * (den * 2 ^ k) \<le> num" and "num < 2 ^ 53 * (den * 2 ^ k)"
    using num mult_le_mono1 [OF q(1), of ?d] mult_le_mono1 [of "q + 1" "2 ^ 53" ?d] q(2) by linarith+
  then have "2 ^ (52 + k) \<le> num div den" and "num div den < 2 ^ Suc (52 + k)"
    using den by (simp_all add: less_eq_div_iff_mult_less_eq div_less_iff_less_mult power_add ac_simps)
  then have "floorlog 2 (num div den) = Suc (52 + k)"
    by (rule floorlog2_eqI)
  then have k: "floorlog 2 (num div den) - 53 = k" by simp
  show ?thesis
    unfolding round_ratio_def k Let_def quo rem using r inf by simp
qed

text \<open>Rounding is the identity on the finite values of the format.\<close>

lemma round_small: "n < 2 ^ 53 \<Longrightarrow> round_ratio n (Suc 0) = n"
proof -
  assume n: "n < 2 ^ 53"
  then have "floorlog 2 n - 53 = 0"
    using floorlog2_le by fastforce
  with n show ?thesis
    by (simp add: round_ratio_def Let_def inf_mag_def)
qed

lemma round_units [simp]: "m < inf_mag \<Longrightarrow> round_ratio (units m) (Suc 0) = m"
proof (cases m rule: mag_cases)
  case small
  then show ?thesis by (simp add: round_small)
next
  case (large k q)
  assume "m < inf_mag"
  then show ?thesis
    using large round_exact [of q 1 k "units m"] by simp
qed

lemma dbl_round_units: "\<not> dbl_isnan d \<Longrightarrow> \<not> dbl_isinf d \<Longrightarrow> dbl_units d \<noteq> 0 \<Longrightarrow> dbl_round (dbl_units d) = d"
proof -
  assume "\<not> dbl_isnan d" "\<not> dbl_isinf d" and nz: "dbl_units d \<noteq> 0"
  then have m: "dbl_mag d < inf_mag" by (simp add: dbl_isnan_def dbl_isinf_def)
  have "nat \<bar>dbl_units d\<bar> = units (dbl_mag d)" by (simp add: dbl_units_def)
  moreover have "(dbl_units d < 0) = dbl_sign d"
    using nz by (auto simp: dbl_units_def split: if_splits)
  ultimately show ?thesis using m by (simp add: dbl_round_def)
qed

section \<open>Integers as doubles\<close>

lemma units_of_nat:
  assumes "0 < n" and "n < 2 ^ 53"
  obtains m where "m < inf_mag" and "units m = n * scale"
proof -
  define j where "j = 53 - floorlog 2 n"
  have le: "floorlog 2 n \<le> 53" using assms(2) by (rule floorlog2_le)
  have pos: "0 < floorlog 2 n" using assms(1) by (simp add: floorlog_def)
  have e: "(2::nat) ^ (floorlog 2 n - 1) * 2 ^ j = 2 ^ 52" "(2::nat) ^ floorlog 2 n * 2 ^ j = 2 ^ 53"
    using le pos by (simp_all add: j_def power_add [symmetric])
  have q: "2 ^ 52 \<le> n * 2 ^ j" "n * 2 ^ j < 2 ^ 53"
    unfolding e [symmetric] using floorlog2_lower [OF assms(1)] floorlog2_upper [of n] by simp_all
  have j: "j \<le> 53" by (simp add: j_def)
  have "units ((1074 - j) * 2 ^ 52 + n * 2 ^ j) = n * 2 ^ j * 2 ^ (1074 - j)"
    using q by (intro units_shift) simp_all
  also have "\<dots> = n * 2 ^ (j + (1074 - j))"
    by (simp only: mult.assoc power_add)
  also have "\<dots> = n * scale"
    using j by (simp add: scale_def)
  finally have u: "units ((1074 - j) * 2 ^ 52 + n * 2 ^ j) = n * scale" .
  have "(1074 - j) * 2 ^ 52 \<le> 1074 * 2 ^ (52::nat)" by (rule mult_le_mono1) simp
  then have "(1074 - j) * 2 ^ 52 + n * 2 ^ j < inf_mag"
    unfolding inf_mag_def using add_le_less_mono [OF _ q(2)] by fastforce
  with u show ?thesis by (rule that [rotated])
qed

lemma inf_mag_less: "m < inf_mag \<Longrightarrow> m < 2 ^ 63"
  by (simp add: inf_mag_def)

lemma cast_num_mag:
  assumes "\<bar>i\<bar> < 2 ^ 53"
  shows "dbl_mag (cast_num i) < inf_mag" and "dbl_units (cast_num i) = i * int scale"
proof -
  have "dbl_mag (cast_num i) < inf_mag \<and> dbl_units (cast_num i) = i * int scale"
  proof (cases "i = 0")
    case True
    then show ?thesis
      by (simp add: cast_num_def dbl_round_def round_small dbl_units_def inf_mag_def)
  next
    case False
    then obtain m where m: "m < inf_mag" "units m = nat \<bar>i\<bar> * scale"
      using units_of_nat [of "nat \<bar>i\<bar>"] assms by (auto simp: nat_less_iff)
    have "nat \<bar>i * int scale\<bar> = units m"
      by (simp add: m(2) abs_mult nat_mult_distrib)
    then have c: "cast_num i = dbl_pack (i < 0) m"
      using m(1) by (simp add: cast_num_def dbl_round_def mult_less_0_iff)
    have "dbl_units (dbl_pack (i < 0) m) = i * int scale"
      using inf_mag_less [OF m(1)] by (simp add: dbl_units_def m(2))
    then show ?thesis using m(1) c inf_mag_less [OF m(1)] by simp
  qed
  then show "dbl_mag (cast_num i) < inf_mag" and "dbl_units (cast_num i) = i * int scale" by simp_all
qed

lemma cast_num_finite [simp]:
  "\<bar>i\<bar> < 2 ^ 53 \<Longrightarrow> \<not> dbl_isnan (cast_num i)" "\<bar>i\<bar> < 2 ^ 53 \<Longrightarrow> \<not> dbl_isinf (cast_num i)"
  using cast_num_mag(1) [of i] by (simp_all add: dbl_isnan_def dbl_isinf_def)

lemma cast_num_eq_iff:
  "\<bar>i\<bar> < 2 ^ 53 \<Longrightarrow> \<bar>j\<bar> < 2 ^ 53 \<Longrightarrow> luai_numeq (cast_num i) (cast_num j) \<longleftrightarrow> i = j"
  by (simp add: luai_numeq_def cast_num_mag(2))

lemma cast_num_less_iff:
  "\<bar>i\<bar> < 2 ^ 53 \<Longrightarrow> \<bar>j\<bar> < 2 ^ 53 \<Longrightarrow> luai_numlt (cast_num i) (cast_num j) \<longleftrightarrow> i < j"
  by (simp add: luai_numlt_def cast_num_mag(2))

lemma dbl_trunc_cast_num: "\<bar>i\<bar> < 2 ^ 53 \<Longrightarrow> dbl_trunc (cast_num i) = i"
  by (simp add: dbl_trunc_def cast_num_mag(2) sgn_mult abs_mult mult_sgn_abs)

section \<open>The Pentium conversion\<close>

text \<open>The integer nearest to \<open>u\<close> units, ties to even.\<close>

definition units_round :: "int \<Rightarrow> int" where
  "units_round u =
     (let q = u div int scale; r = u mod int scale
      in if int scale < 2 * r \<or> (2 * r = int scale \<and> odd q) then q + 1 else q)"

lemma units_round_int [simp]: "units_round (i * int scale) = i"
  by (simp add: units_round_def)

lemma units_round_shift: "even c \<Longrightarrow> units_round (u + c * int scale) = units_round u + c"
  unfolding units_round_def Let_def by simp

lemma magic_double_units:
  "dbl_units magic_double = 3 * 2 ^ 51 * int scale" "\<not> dbl_isnan magic_double" "\<not> dbl_isinf magic_double"
proof -
  have m: "dbl_mag magic_double = 1074 * 2 ^ 52 + 3 * 2 ^ 51"
    by (simp add: dbl_mag_def magic_double_def)
  have "\<not> dbl_sign magic_double"
    by (simp add: dbl_sign_def magic_double_def)
  moreover have "units (1074 * 2 ^ 52 + 3 * 2 ^ 51) = 3 * 2 ^ 51 * scale"
    unfolding scale_def by (rule units_shift) simp_all
  ultimately show "dbl_units magic_double = 3 * 2 ^ 51 * int scale"
    unfolding dbl_units_def m by simp
  show "\<not> dbl_isnan magic_double" "\<not> dbl_isinf magic_double"
    unfolding dbl_isnan_def dbl_isinf_def m inf_mag_def by simp_all
qed

lemma round_ratio_binade:
  assumes "2 ^ 52 * scale \<le> u" and "u < 2 ^ 53 * scale"
  shows "int (round_ratio u (Suc 0)) = 1074 * 2 ^ 52 + units_round (int u)"
proof -
  have "2 ^ (52 + 1074) \<le> u" and "u < 2 ^ Suc (52 + 1074)"
    using assms unfolding scale_def power_add [symmetric] by simp_all
  then have "floorlog 2 u = Suc (52 + 1074)"
    by (rule floorlog2_eqI)
  then have k: "floorlog 2 (u div Suc 0) - 53 = 1074" by simp
  define q where "q = u div scale"
  have q: "q < 2 ^ 53" using assms(2) by (simp add: q_def less_mult_imp_div_less)
  show ?thesis
    unfolding round_ratio_def k Let_def scale_def [symmetric] units_round_def
    using q by (simp add: inf_mag_def q_def zdiv_int [symmetric] zmod_int [symmetric])
qed

lemma ucast_pack: "ucast (dbl_pack False m) = (of_nat m :: u32)"
proof -
  have "(of_nat (m mod 2 ^ 64) :: u32) = of_nat m"
    by (rule word_of_nat_eq_iff [THEN iffD2]) (simp add: take_bit_eq_mod mod_mod_cancel)
  then show ?thesis
    unfolding dbl_pack_def by (simp add: unsigned_of_nat take_bit_eq_mod)
qed

lemma lua_number2int_round:
  assumes "\<not> dbl_isnan d" and "\<bar>dbl_units d\<bar> < 2 ^ 51 * int scale"
  shows "lua_number2int d = word_of_int (units_round (dbl_units d))"
proof -
  let ?u = "dbl_units d" and ?m = "3 * 2 ^ 51 * int scale"
  have fin: "\<not> dbl_isinf d"
  proof
    assume "dbl_isinf d"
    then have "\<bar>?u\<bar> = int (units inf_mag)" by (simp add: dbl_units_def dbl_isinf_def)
    also have "units inf_mag = 2 ^ 52 * 2 ^ 2046"
      unfolding inf_mag_def using units_shift [of "2 ^ 52" 2046] by simp
    finally show False using assms(2) unfolding scale_def by simp
  qed
  have lo: "2 ^ 52 * int scale \<le> ?u + ?m" and hi: "?u + ?m < 2 ^ 53 * int scale"
    using assms(2) by (auto simp: abs_less_iff)
  have pos: "0 < ?u + ?m" using lo by (rule less_le_trans [rotated]) simp
  have "dbl_add d magic_double = dbl_round (?u + ?m)"
    using assms(1) fin magic_double_units pos by (simp add: dbl_add_def Let_def)
  also have "\<dots> = dbl_pack False (round_ratio (nat (?u + ?m)) (Suc 0))"
    using pos by (simp add: dbl_round_def)
  finally have add: "lua_number2int d = of_nat (round_ratio (nat (?u + ?m)) (Suc 0))"
    by (simp add: lua_number2int_def ucast_pack)
  have "int (round_ratio (nat (?u + ?m)) (Suc 0)) = 1074 * 2 ^ 52 + units_round (?u + ?m)"
    using round_ratio_binade [of "nat (?u + ?m)"] lo hi pos by (simp add: nat_less_iff le_nat_iff)
  also have "\<dots> = units_round ?u + 2 ^ 32 * (1074 * 2 ^ 20 + 3 * 2 ^ 19)"
    using units_round_shift [of "3 * 2 ^ 51" ?u] by simp
  finally have "int (round_ratio (nat (?u + ?m)) (Suc 0)) = units_round ?u + 2 ^ 32 * (1074 * 2 ^ 20 + 3 * 2 ^ 19)" .
  then have "(of_int (int (round_ratio (nat (?u + ?m)) (Suc 0))) :: u32)
      = of_int (units_round ?u) + 2 ^ 32 * of_int (1074 * 2 ^ 20 + 3 * 2 ^ 19)"
    by (simp only: of_int_add of_int_mult of_int_power of_int_numeral)
  then show ?thesis unfolding add by simp
qed

lemma lua_number2int_cast_num:
  "\<bar>i\<bar> < 2 ^ 51 \<Longrightarrow> lua_number2int (cast_num i) = word_of_int i"
  by (subst lua_number2int_round) (simp_all add: cast_num_mag(2) abs_mult)

lemma lua_number2int_signed [simp]:
  "lua_number2int (cast_num (sint (w :: u32))) = w"
proof -
  have "\<bar>sint w\<bar> \<le> 2 ^ 31"
    using sint_greater_eq [of w] sint_less [of w] by simp
  then show ?thesis by (simp add: lua_number2int_cast_num)
qed

lemma lua_number2int_unsigned [simp]:
  "lua_number2int (cast_num (uint (w :: u32))) = w"
proof -
  have "uint w < 2 ^ 32" using uint_lt2p [of w] by simp
  then show ?thesis by (simp add: lua_number2int_cast_num)
qed

end
