(* ===== verification/LuaObject.thy ===== *)
theory LuaObject
  imports LuaNumber "HOL-Library.Char_ord"
begin

text \<open>
  Lua values and the generic functions over them (lobject.h, lobject.c): tagged values, raw
  equality, the floating point byte, the base-2 logarithm by table, the conversion of strings
  to numbers (with the binary constants this project adds), and the printable form of a chunk
  name. A string is its contents: strings are interned, so pointer equality is equality of
  contents. A collectable object other than a string is its 32-bit address.
\<close>

section \<open>Tagged values\<close>

datatype TValue =
    VNil
  | VBool bool
  | VLight u32
  | VNum lua_Number
  | VStr string
  | VTable u32
  | VFun u32
  | VUser u32
  | VThread u32
  | VDead TValue

text \<open>The type tags of lua.h; a dead key is \<open>LUA_TDEADKEY\<close>, that is \<open>LAST_TAG + 3\<close>.\<close>

fun ttype :: "TValue \<Rightarrow> int" where
  "ttype VNil = 0"
| "ttype (VBool _) = 1"
| "ttype (VLight _) = 2"
| "ttype (VNum _) = 3"
| "ttype (VStr _) = 4"
| "ttype (VTable _) = 5"
| "ttype (VFun _) = 6"
| "ttype (VUser _) = 7"
| "ttype (VThread _) = 8"
| "ttype (VDead _) = 11"

definition iscollectable :: "TValue \<Rightarrow> bool" where
  "iscollectable v \<longleftrightarrow> ttype v \<ge> 4"

definition l_isfalse :: "TValue \<Rightarrow> bool" where
  "l_isfalse v \<longleftrightarrow> v = VNil \<or> v = VBool False"

fun luaO_rawequalObj :: "TValue \<Rightarrow> TValue \<Rightarrow> bool" where
  "luaO_rawequalObj (VNum a) (VNum b) = luai_numeq a b"
| "luaO_rawequalObj v w = (v = w)"

section \<open>The floating point byte and the logarithm\<close>

text \<open>\<open>(eeeeexxx)\<close>: the value is \<open>xxx\<close> if \<open>eeeee = 0\<close> and \<open>1xxx * 2^(eeeee - 1)\<close> otherwise.
The argument is an \<open>unsigned int\<close>; the increment wraps.\<close>

function int2fb_loop :: "nat \<Rightarrow> nat \<Rightarrow> nat \<times> nat" where
  "int2fb_loop x e = (if 16 \<le> x then int2fb_loop (((x + 1) mod 2 ^ 32) div 2) (e + 1) else (x, e))"
  by pat_completeness auto
termination
proof (relation "measure fst")
  fix x e :: nat
  assume "16 \<le> x"
  have "(x + 1) mod 2 ^ 32 \<le> x + 1" by (rule mod_less_eq_dividend)
  with \<open>16 \<le> x\<close> show "((((x + 1) mod 2 ^ 32) div 2, e + 1), (x, e)) \<in> measure fst" by simp
qed simp

definition luaO_int2fb :: "nat \<Rightarrow> nat" where
  "luaO_int2fb x0 = (let (x, e) = int2fb_loop x0 0 in if x < 8 then x else (e + 1) * 8 + (x - 8))"

definition luaO_fb2int :: "nat \<Rightarrow> nat" where
  "luaO_fb2int x = (let e = (x div 8) mod 32 in if e = 0 then x else (x mod 8 + 8) * 2 ^ (e - 1))"

definition log_2_table :: "nat list" where
  "log_2_table =
    [0,1,2,2,3,3,3,3,4,4,4,4,4,4,4,4,5,5,5,5,5,5,5,5,5,5,5,5,5,5,5,5,
     6,6,6,6,6,6,6,6,6,6,6,6,6,6,6,6,6,6,6,6,6,6,6,6,6,6,6,6,6,6,6,6,
     7,7,7,7,7,7,7,7,7,7,7,7,7,7,7,7,7,7,7,7,7,7,7,7,7,7,7,7,7,7,7,7,
     7,7,7,7,7,7,7,7,7,7,7,7,7,7,7,7,7,7,7,7,7,7,7,7,7,7,7,7,7,7,7,7,
     8,8,8,8,8,8,8,8,8,8,8,8,8,8,8,8,8,8,8,8,8,8,8,8,8,8,8,8,8,8,8,8,
     8,8,8,8,8,8,8,8,8,8,8,8,8,8,8,8,8,8,8,8,8,8,8,8,8,8,8,8,8,8,8,8,
     8,8,8,8,8,8,8,8,8,8,8,8,8,8,8,8,8,8,8,8,8,8,8,8,8,8,8,8,8,8,8,8,
     8,8,8,8,8,8,8,8,8,8,8,8,8,8,8,8,8,8,8,8,8,8,8,8,8,8,8,8,8,8,8,8]"

fun log2_loop :: "nat \<Rightarrow> int \<Rightarrow> int" where
  "log2_loop x l = (if 256 \<le> x then log2_loop (x div 256) (l + 8) else l + int (log_2_table ! x))"

declare int2fb_loop.simps [simp del] log2_loop.simps [simp del]

definition luaO_log2 :: "nat \<Rightarrow> int" where
  "luaO_log2 x = log2_loop x (-1)"

definition ceillog2 :: "nat \<Rightarrow> int" where
  "ceillog2 x = luaO_log2 (nat ((int x - 1) mod 2 ^ 32)) + 1"

section \<open>Strings to numbers\<close>

text \<open>The functions of the C library that the conversion uses, in the C locale: \<open>isspace\<close>,
\<open>isdigit\<close>, \<open>strtod\<close> (C89: decimal notation only) and \<open>strtoul\<close> with 32-bit \<open>long\<close>. Each
conversion returns the value and the unread rest, or \<open>None\<close> if nothing was converted.\<close>

definition cstr :: "string \<Rightarrow> string" where
  "cstr s = takeWhile (\<lambda>c. c \<noteq> CHR 0x00) s"

definition isspace :: "char \<Rightarrow> bool" where
  "isspace c \<longleftrightarrow> (let n = of_char c :: nat in n = 32 \<or> (9 \<le> n \<and> n \<le> 13))"

definition isdigit :: "char \<Rightarrow> bool" where
  "isdigit c \<longleftrightarrow> (let n = of_char c :: nat in 48 \<le> n \<and> n \<le> 57)"

definition digit_in :: "nat \<Rightarrow> char \<Rightarrow> nat option" where
  "digit_in base c =
     (let n = of_char c :: nat;
          d = (if 48 \<le> n \<and> n \<le> 57 then n - 48
               else if 97 \<le> n \<and> n \<le> 122 then n - 87
               else if 65 \<le> n \<and> n \<le> 90 then n - 55 else base)
      in if d < base then Some d else None)"

definition digits_value :: "nat \<Rightarrow> string \<Rightarrow> nat" where
  "digits_value base ds = fold (\<lambda>c a. a * base + the (digit_in base c)) ds 0"

fun opt_sign :: "string \<Rightarrow> bool \<times> string" where
  "opt_sign (c # s) = (if c = CHR ''-'' then (True, s) else if c = CHR ''+'' then (False, s) else (False, c # s))"
| "opt_sign [] = (False, [])"

definition decimal_value :: "bool \<Rightarrow> nat \<Rightarrow> int \<Rightarrow> lua_Number" where
  "decimal_value neg m e =
     dbl_pack neg (if 0 \<le> e then round_ratio (m * 10 ^ nat e * scale) 1
                   else round_ratio (m * scale) (10 ^ nat (- e)))"

definition opt_exponent :: "string \<Rightarrow> int \<times> string" where
  "opt_exponent s =
     (case s of
        c # r \<Rightarrow>
          if c = CHR ''e'' \<or> c = CHR ''E'' then
            (let (neg, r') = opt_sign r; ds = takeWhile isdigit r'
             in if ds = [] then (0, s)
                else (let v = int (digits_value 10 ds) in (if neg then - v else v, dropWhile isdigit r')))
          else (0, s)
      | [] \<Rightarrow> (0, s))"

definition strtod :: "string \<Rightarrow> (lua_Number \<times> string) option" where
  "strtod s =
     (let (neg, s1) = opt_sign (dropWhile isspace s);
          ip = takeWhile isdigit s1; s2 = dropWhile isdigit s1;
          (fp, s3) = (case s2 of
                        c # r \<Rightarrow> if c = CHR ''.'' then (takeWhile isdigit r, dropWhile isdigit r) else ([], s2)
                      | [] \<Rightarrow> ([], s2))
      in if ip = [] \<and> fp = [] then None
         else (let (e, s4) = opt_exponent s3
               in Some (decimal_value neg (digits_value 10 (ip @ fp)) (e - int (length fp)), s4)))"

definition skip_0x :: "nat \<Rightarrow> string \<Rightarrow> string" where
  "skip_0x base s =
     (case s of
        z # x # d # r \<Rightarrow>
          if base = 16 \<and> z = CHR ''0'' \<and> (x = CHR ''x'' \<or> x = CHR ''X'') \<and> digit_in base d \<noteq> None then d # r else s
      | _ \<Rightarrow> s)"

definition strtoul :: "nat \<Rightarrow> string \<Rightarrow> (nat \<times> string) option" where
  "strtoul base s =
     (let (neg, s1) = opt_sign (dropWhile isspace s);
          isd = (\<lambda>c. digit_in base c \<noteq> None);
          s2 = skip_0x base s1;
          ds = takeWhile isd s2; v = digits_value base ds
      in if ds = [] then None
         else Some (if 2 ^ 32 \<le> v then 2 ^ 32 - 1 else if neg then (2 ^ 32 - v) mod 2 ^ 32 else v,
                    dropWhile isd s2))"

text \<open>\<open>luaO_str2d\<close>. An unsuccessful \<open>strtoul\<close> yields 0 and leaves the end pointer at its
argument.\<close>

definition starts_with :: "char set \<Rightarrow> string \<Rightarrow> bool" where
  "starts_with cs s \<longleftrightarrow> (case s of [] \<Rightarrow> False | c # _ \<Rightarrow> c \<in> cs)"

definition luaO_str2d :: "string \<Rightarrow> lua_Number option" where
  "luaO_str2d s0 =
     (let s = cstr s0 in
      case strtod s of
        None \<Rightarrow> None
      | Some (r0, e0) \<Rightarrow>
          let (r1, e1) =
                (if starts_with {CHR ''x'', CHR ''X''} e0
                 then (case strtoul 16 s of None \<Rightarrow> (cast_num 0, s) | Some (v, e) \<Rightarrow> (cast_num (int v), e))
                 else (r0, e0));
              (r2, e2) =
                (if starts_with {CHR ''b'', CHR ''B''} e1
                 then (case strtoul 2 (tl e1) of None \<Rightarrow> (cast_num 0, tl e1) | Some (v, e) \<Rightarrow> (cast_num (int v), e))
                 else (r1, e1))
          in if dropWhile isspace e2 = [] then Some r2 else None)"

section \<open>Chunk names\<close>

definition luaO_chunkid :: "string \<Rightarrow> nat \<Rightarrow> string" where
  "luaO_chunkid source bufflen =
     (if starts_with {CHR ''=''} source then take (bufflen - 1) (tl source)
      else if starts_with {CHR ''@''} source then
        (let src = tl source; n = bufflen - 8; l = length src
         in if n < l then ''...'' @ drop (l - n) src else src)
      else
        (let line = takeWhile (\<lambda>c. c \<noteq> CHR 0x0A \<and> c \<noteq> CHR 0x0D) source;
             len = min (length line) (bufflen - 17)
         in ''[string '' @ [CHR 0x22] @
            (if len < length source then take len source @ ''...'' else source) @ [CHR 0x22] @ '']''))"

section \<open>Properties of the generic functions\<close>

lemma luaO_rawequalObj_refl: "luaO_rawequalObj v v \<longleftrightarrow> (\<forall>n. v = VNum n \<longrightarrow> \<not> luai_numisnan n)"
  by (cases v) (auto simp: luai_numisnan_def)

lemma luai_numeq_sym: "luai_numeq a b = luai_numeq b a"
  by (auto simp: luai_numeq_def)

lemma luaO_rawequalObj_sym: "luaO_rawequalObj v w = luaO_rawequalObj w v"
  by (cases v; cases w) (auto simp: luai_numeq_sym)

lemma luaO_rawequalObj_trans:
  "luaO_rawequalObj u v \<Longrightarrow> luaO_rawequalObj v w \<Longrightarrow> luaO_rawequalObj u w"
  by (cases u; cases v; cases w) (auto simp: luai_numeq_def)

lemma int2fb_loop_bounds:
  assumes "x < 2 ^ 32 - 1" and "int2fb_loop x e = (x', e')"
  shows "\<exists>k. e' = e + k \<and> x \<le> x' * 2 ^ k \<and> (x' - 1) * 2 ^ k < x + (if x = 0 then 1 else 0) \<and> x' < 16 \<and> (8 \<le> x \<longrightarrow> 8 \<le> x')
     \<and> (0 < k \<longrightarrow> 2 ^ k * 8 \<le> x + 2 ^ k)"
  using assms
proof (induction x e rule: int2fb_loop.induct)
  case (1 x e)
  show ?case
  proof (cases "16 \<le> x")
    case False
    with "1.prems" show ?thesis by (auto simp: int2fb_loop.simps [of x e])
  next
    case True
    define y where "y = (x + 1) div 2"
    have m: "((x + 1) mod 2 ^ 32) div 2 = y"
      using "1.prems"(1) by (simp add: y_def)
    have y: "x \<le> 2 * y" "2 * y \<le> x + 1" "8 \<le> y" "y < x" using True by (auto simp: y_def)
    have r: "int2fb_loop y (e + 1) = (x', e')"
      using "1.prems"(2) True m by (simp add: int2fb_loop.simps [of x e])
    then obtain k where k: "e' = e + 1 + k" "y \<le> x' * 2 ^ k" "(x' - 1) * 2 ^ k < y" "x' < 16" "8 \<le> x'"
      using "1.IH" [OF True] y "1.prems"(1) m by (auto split: if_splits)
    have "e' = e + (k + 1) \<and> x \<le> x' * 2 ^ (k + 1) \<and> (x' - 1) * 2 ^ (k + 1) < x"
    proof (intro conjI)
      have "(x' - 1) * 2 ^ (k + 1) + 2 \<le> 2 * y" using k(3) by simp
      then show "(x' - 1) * 2 ^ (k + 1) < x" using y by linarith
    qed (use k y in auto)
    moreover have "2 ^ (k + 1) * 8 \<le> x + 2 ^ (k + 1)"
      using calculation k(5) mult_le_mono1 [of 7 "x' - 1" "2 ^ (k + 1)"] by linarith
    ultimately show ?thesis using k True by (intro exI [of _ "k + 1"]) auto
  qed
qed

lemma log_2_table_runs:
  "log_2_table = replicate 1 0 @ replicate 1 1 @ replicate 2 2 @ replicate 4 3 @ replicate 8 4 @ replicate 16 5
     @ replicate 32 6 @ replicate 64 7 @ replicate 128 8"
  by (simp add: log_2_table_def numeral_eq_Suc)

lemma nth_replicate_append: "(replicate n v @ ys) ! i = (if i < n then v else ys ! (i - n))"
  by (simp add: nth_append)

lemma luaO_log2_table:
  assumes "x < 256" shows "log_2_table ! x = floorlog 2 x"
proof (cases "x = 0")
  case True
  then show ?thesis by (simp add: log_2_table_def floorlog_def)
next
  case False
  define k where "k = floorlog 2 x - 1"
  have lo: "2 ^ k \<le> x" and hi: "x < 2 ^ Suc k" and fl: "floorlog 2 x = Suc k"
    using False floorlog2_lower [of x] floorlog2_upper [of x] by (simp_all add: k_def floorlog_def)
  have "(2::nat) ^ k < 2 ^ 8" using lo assms by simp
  then have "k < 8" by (simp only: power_strict_increasing_iff) 
  then have "k \<in> {0, 1, 2, 3, 4, 5, 6, 7}" by auto
  with lo hi show ?thesis
    unfolding fl log_2_table_runs nth_replicate_append by (elim insertE emptyE) auto
qed

lemma log2_loop_eq: "log2_loop x l = l + int (floorlog 2 x)"
proof (induction x l rule: log2_loop.induct)
  case (1 x l)
  show ?case
  proof (cases "256 \<le> x")
    case False
    then show ?thesis by (simp add: log2_loop.simps [of x l] luaO_log2_table)
  next
    case True
    have "0 < x div 2 ^ 8" using True by (simp add: div_greater_zero_iff)
    then have "floorlog 2 x = floorlog 2 (x div 256) + 8"
      using floorlog2_div [of x 8] by simp
    with 1 True show ?thesis by (simp add: log2_loop.simps [of x l])
  qed
qed

lemma luaO_log2_eq: "luaO_log2 x = int (floorlog 2 x) - 1"
  by (simp add: luaO_log2_def log2_loop_eq)

lemma ceillog2_bounds:
  assumes "0 < x" and "x \<le> 2 ^ 32"
  shows "0 \<le> ceillog2 x" and "x \<le> 2 ^ nat (ceillog2 x)" and "1 < x \<Longrightarrow> 2 ^ (nat (ceillog2 x) - 1) < x"
proof -
  have "(int x - 1) mod 2 ^ 32 = int (x - 1)" using assms by (simp add: of_nat_diff)
  then have c: "ceillog2 x = int (floorlog 2 (x - 1))" by (simp add: ceillog2_def luaO_log2_eq)
  then show "0 \<le> ceillog2 x" by simp
  show "x \<le> 2 ^ nat (ceillog2 x)" using floorlog2_upper [of "x - 1"] by (simp add: c)
  show "2 ^ (nat (ceillog2 x) - 1) < x" if "1 < x"
    using floorlog2_lower [of "x - 1"] that by (simp add: c)
qed

lemma luaO_chunkid_length:
  assumes "17 \<le> bufflen"
  shows "length (luaO_chunkid source bufflen) < bufflen"
  using assms by (auto simp: luaO_chunkid_def Let_def)

lemma luaO_int2fb_bounds:
  assumes "x < 2 ^ 31"
  shows "luaO_int2fb x < 256"
    and "x \<le> luaO_fb2int (luaO_int2fb x)"
    and "7 * luaO_fb2int (luaO_int2fb x) \<le> 8 * x"
proof -
  obtain x' e where l: "int2fb_loop x 0 = (x', e)" by fastforce
  have "luaO_int2fb x < 256 \<and> x \<le> luaO_fb2int (luaO_int2fb x) \<and> 7 * luaO_fb2int (luaO_int2fb x) \<le> 8 * x"
  proof (cases "x < 8")
    case True
    then show ?thesis
      by (simp add: luaO_int2fb_def luaO_fb2int_def int2fb_loop.simps [of x 0])
  next
    case False
    with int2fb_loop_bounds [OF _ l] assms
    have b: "x \<le> x' * 2 ^ e" "(x' - 1) * 2 ^ e < x" "x' < 16" "8 \<le> x'"
      by (auto split: if_splits)
    have "7 * 2 ^ e \<le> (x' - 1) * 2 ^ e" using b(4) by (intro mult_le_mono1) simp
    from this b(2) have "7 * 2 ^ e < x" by (rule le_less_trans)
    with assms have "2 ^ e < (2::nat) ^ 29" by simp
    then have e: "e < 29" by (simp only: power_strict_increasing_iff)
    have fb: "luaO_int2fb x = (e + 1) * 8 + (x' - 8)"
      using l b(4) by (simp add: luaO_int2fb_def)
    have "luaO_fb2int ((e + 1) * 8 + (x' - 8)) = x' * 2 ^ e"
    proof -
      have "((e + 1) * 8 + (x' - 8)) div 8 = e + 1" "((e + 1) * 8 + (x' - 8)) mod 8 = x' - 8"
        using b(3,4) by (simp_all add: le_mod_geq)
      then show ?thesis unfolding luaO_fb2int_def Let_def using b(4) e by simp
    qed
    moreover have "7 * (x' * 2 ^ e) \<le> 8 * x"
    proof -
      have "x' * 2 ^ e < x + 2 ^ e" using b(2,4) by (simp add: diff_mult_distrib)
      moreover have "7 * 2 ^ e < x"
        using \<open>7 * 2 ^ e \<le> (x' - 1) * 2 ^ e\<close> b(2) by (rule le_less_trans)
      ultimately show ?thesis by linarith
    qed
    ultimately show ?thesis unfolding fb using b e by simp
  qed
  then show "luaO_int2fb x < 256" "x \<le> luaO_fb2int (luaO_int2fb x)" "7 * luaO_fb2int (luaO_int2fb x) \<le> 8 * x"
    by simp_all
qed

section \<open>Binary constants\<close>

lemma digit_in_2: "digit_in 2 CHR ''0'' = Some 0" "digit_in 2 CHR ''1'' = Some 1"
  by (simp_all add: digit_in_def)

lemma digits_value_snoc: "digits_value b (ds @ [c]) = digits_value b ds * b + the (digit_in b c)"
  by (simp add: digits_value_def)

lemma digits_value_2_bound:
  "set ds \<subseteq> {CHR ''0'', CHR ''1''} \<Longrightarrow> digits_value 2 ds < 2 ^ length ds"
proof (induction ds rule: rev_induct)
  case (snoc c ds)
  then have "the (digit_in 2 c) \<le> 1" by (auto simp: digit_in_2)
  with snoc show ?case by (simp add: digits_value_snoc)
qed (simp add: digits_value_def)

lemma skip_0x_2: "skip_0x 2 s = s"
  by (simp add: skip_0x_def split: list.split)

lemma strtoul_2:
  assumes "set ds \<subseteq> {CHR ''0'', CHR ''1''}" and "ds \<noteq> []"
  shows "strtoul 2 ds = Some (if 2 ^ 32 \<le> digits_value 2 ds then 2 ^ 32 - 1 else digits_value 2 ds, [])"
proof -
  obtain c r where ds: "ds = c # r" and c: "c \<in> {CHR ''0'', CHR ''1''}"
    using assms by (cases ds) auto
  have "dropWhile isspace ds = ds" and "opt_sign ds = (False, ds)"
    using c by (auto simp: ds isspace_def)
  moreover have "\<forall>x\<in>set ds. digit_in 2 x \<noteq> None"
    using assms(1) by (auto simp: digit_in_2)
  then have tw: "takeWhile (\<lambda>c. digit_in 2 c \<noteq> None) ds = ds" and dw: "dropWhile (\<lambda>c. digit_in 2 c \<noteq> None) ds = []"
    by (simp_all add: takeWhile_eq_all_conv)
  ultimately show ?thesis
    using assms(2) by (simp only: strtoul_def Let_def prod.case skip_0x_2 tw dw if_False)
qed

lemma strtod_0b: "strtod (CHR ''0'' # CHR ''b'' # s) = Some (dbl_pack False 0, CHR ''b'' # s)"
  by (simp add: strtod_def isspace_def isdigit_def opt_exponent_def decimal_value_def digits_value_def
      digit_in_def round_ratio_def Let_def floorlog_def inf_mag_def)

lemma luaO_str2d_binary:
  assumes "set ds \<subseteq> {CHR ''0'', CHR ''1''}" and "ds \<noteq> []" and "length ds \<le> 32"
  shows "luaO_str2d (''0b'' @ ds) = Some (cast_num (int (digits_value 2 ds)))"
proof -
  have "cstr (''0b'' @ ds) = ''0b'' @ ds"
    using assms(1) by (auto simp: cstr_def takeWhile_eq_all_conv)
  moreover have "digits_value 2 ds < 2 ^ 32"
  proof -
    have "(2::nat) ^ length ds \<le> 2 ^ 32" using assms(3) by (intro power_increasing) simp_all
    then show ?thesis using digits_value_2_bound [OF assms(1)] by (rule less_le_trans [rotated])
  qed
  ultimately show ?thesis
    using strtoul_2 [OF assms(1,2)] by (simp add: luaO_str2d_def strtod_0b starts_with_def)
qed

section \<open>Exported properties\<close>

lemma strtod_digits_b:
  assumes "p \<noteq> []" "\<forall>c\<in>set p. isdigit c"
  shows "\<exists>v. strtod (p @ CHR ''b'' # s) = Some (v, CHR ''b'' # s)"
proof -
  obtain c r where p: "p = c # r" using assms(1) by (cases p) auto
  have c: "isdigit c" using assms(2) p by simp
  have ns: "\<not> isspace c" using c by (auto simp: isdigit_def isspace_def Let_def)
  have sg: "opt_sign (c # t) = (False, c # t)" for t
    using c by (auto simp: isdigit_def Let_def)
  have tw: "takeWhile isdigit (p @ CHR ''b'' # s) = p" "dropWhile isdigit (p @ CHR ''b'' # s) = CHR ''b'' # s"
    using assms(2) by (simp_all add: takeWhile_append2 dropWhile_append2 isdigit_def)
  have "dropWhile isspace (p @ CHR ''b'' # s) = p @ CHR ''b'' # s" "opt_sign (p @ CHR ''b'' # s) = (False, p @ CHR ''b'' # s)"
    using ns sg by (simp_all add: p)
  then show ?thesis
    unfolding strtod_def Let_def by (simp add: tw assms(1) opt_exponent_def)
qed

text \<open>a binary constant of up to 32 digits reads as the number that its digits denote; the
decimal digits before the letter \<open>b\<close> (of which the constant has only a zero) do not matter.\<close>

theorem luaO_str2d_reads_binary:
  assumes "p \<noteq> []" and "\<forall>c\<in>set p. isdigit c"
    and "ds \<noteq> []" and "set ds \<subseteq> {CHR ''0'', CHR ''1''}" and "length ds \<le> 32"
  shows "luaO_str2d (p @ CHR ''b'' # ds) = Some (cast_num (int (digits_value 2 ds)))"
proof -
  have "\<forall>c\<in>set p. c \<noteq> CHR 0x00" using assms(2) by (auto simp: isdigit_def)
  then have "cstr (p @ CHR ''b'' # ds) = p @ CHR ''b'' # ds"
    using assms(4) by (auto simp: cstr_def takeWhile_eq_all_conv)
  moreover obtain v where "strtod (p @ CHR ''b'' # ds) = Some (v, CHR ''b'' # ds)"
    using strtod_digits_b [OF assms(1,2)] by blast
  moreover have "digits_value 2 ds < 2 ^ 32"
  proof -
    have "(2::nat) ^ length ds \<le> 2 ^ 32" using assms(5) by (intro power_increasing) simp_all
    then show ?thesis using digits_value_2_bound [OF assms(4)] by (rule less_le_trans [rotated])
  qed
  ultimately show ?thesis
    using strtoul_2 [OF assms(4,3)] by (simp add: luaO_str2d_def starts_with_def)
qed

theorem luaO_str2d_reads_binary_witness:
  "luaO_str2d ''7b101'' = Some (cast_num 5) \<and> luaO_str2d ''0b101'' = Some (cast_num 5)"
  using luaO_str2d_reads_binary [of "''7''" "''101''"] luaO_str2d_reads_binary [of "''0''" "''101''"]
  by (simp add: isdigit_def digits_value_def digit_in_def)

text \<open>the floating point byte of a size fits a byte and stands for a size that is at least the
given one and exceeds it by at most an eighth.\<close>

theorem luaO_int2fb_sound:
  assumes "x < 2 ^ 31"
  shows "luaO_int2fb x < 256 \<and> x \<le> luaO_fb2int (luaO_int2fb x) \<and> 7 * luaO_fb2int (luaO_int2fb x) \<le> 8 * x"
  using luaO_int2fb_bounds [OF assms] by blast

theorem luaO_int2fb_sound_witness: "(1000 :: nat) \<le> luaO_fb2int (luaO_int2fb 1000)"
  using luaO_int2fb_sound [of 1000] by simp

text \<open>the logarithm by table is exact: \<open>luaO_log2 x\<close> is the largest \<open>k\<close> with \<open>2 ^ k \<le> x\<close> (and -1
for 0), and \<open>ceillog2 x\<close> is the smallest \<open>k\<close> with \<open>x \<le> 2 ^ k\<close>.\<close>

theorem luaO_log2_exact:
  assumes "0 < x" and "x \<le> 2 ^ 32 - 1"
  shows "luaO_log2 0 = - 1 \<and> 0 \<le> luaO_log2 x \<and> 2 ^ nat (luaO_log2 x) \<le> x \<and> x < 2 ^ (nat (luaO_log2 x) + 1) \<and>
    x \<le> 2 ^ nat (ceillog2 x) \<and> (1 < x \<longrightarrow> 2 ^ (nat (ceillog2 x) - 1) < x)"
proof -
  have p: "0 < floorlog 2 x" using assms by (metis floorlog2_upper gr0I less_one not_less power_0)
  have "2 ^ (floorlog 2 x - 1) \<le> x" by (rule floorlog2_lower) fact
  moreover have "x < 2 ^ floorlog 2 x" by (rule floorlog2_upper)
  moreover have "nat (luaO_log2 x) = floorlog 2 x - 1" "0 \<le> luaO_log2 x" "luaO_log2 0 = - 1"
    using p by (simp_all add: luaO_log2_eq nat_diff_distrib' floorlog_def [of _ 0])
  ultimately show ?thesis
    using p ceillog2_bounds [of x] assms by simp
qed

theorem luaO_log2_exact_witness: "(2::nat) ^ nat (luaO_log2 1000) \<le> 1000"
  using luaO_log2_exact [of 1000] by simp

text \<open>the printable name of a chunk, with its terminator, fits the buffer.\<close>

theorem luaO_chunkid_fits:
  assumes "17 \<le> bufflen"
  shows "length (luaO_chunkid source bufflen) < bufflen"
  by (rule luaO_chunkid_length [OF assms])

theorem luaO_chunkid_fits_witness: "length (luaO_chunkid ''@C:/scripts/simulation/unit/input.lua'' 20) < 20"
  using luaO_chunkid_fits [of 20 "''@C:/scripts/simulation/unit/input.lua''"] by simp

end
