(* ===== verification/LuaFrame.thy ===== *)
theory LuaFrame
  imports LuaObject
begin

text \<open>
  The stack frame of a C function and the access functions of lapi.c and lauxlib.c that read
  it: the frame is the list of values between \<open>L->base\<close> and \<open>L->top\<close>. A C function of a
  library (\<open>lua_CFunction\<close>) takes the frame with its arguments, pushes its results and returns
  their number. Error messages carry the text that \<open>luaL_typerror\<close> builds; the position and
  function name that \<open>luaL_argerror\<close> adds from debug information are left out.
\<close>

type_synonym frame = "TValue list"

definition index2adr :: "frame \<Rightarrow> int \<Rightarrow> TValue option res" where
  "index2adr S idx =
     (if 0 < idx then Ok (if nat idx \<le> length S then Some (S ! (nat idx - 1)) else None)
      else if idx < 0 \<and> nat (- idx) \<le> length S then Ok (Some (S ! (length S - nat (- idx))))
      else Fail (Undefined ''invalid stack index''))"

definition lua_gettop :: "frame \<Rightarrow> nat" where
  "lua_gettop S = length S"

definition lua_settop :: "frame \<Rightarrow> int \<Rightarrow> frame res" where
  "lua_settop S idx =
     (if 0 \<le> idx then Ok (take (nat idx) S @ replicate (nat idx - length S) VNil)
      else if nat (- (idx + 1)) \<le> length S then Ok (take (length S - nat (- (idx + 1))) S)
      else Fail (Undefined ''stack underflow''))"

definition lua_pop :: "frame \<Rightarrow> nat \<Rightarrow> frame res" where
  "lua_pop S n = lua_settop S (- int n - 1)"

text \<open>\<open>LUA_TNONE\<close> is \<open>-1\<close>.\<close>

definition lua_type :: "frame \<Rightarrow> int \<Rightarrow> int res" where
  "lua_type S idx = rbind (index2adr S idx) (\<lambda>o1. Ok (case o1 of None \<Rightarrow> - 1 | Some v \<Rightarrow> ttype v))"

definition luaV_tonumber :: "TValue \<Rightarrow> lua_Number option" where
  "luaV_tonumber v = (case v of VNum n \<Rightarrow> Some n | VStr s \<Rightarrow> luaO_str2d s | _ \<Rightarrow> None)"

definition lua_isnumber :: "frame \<Rightarrow> int \<Rightarrow> bool res" where
  "lua_isnumber S idx =
     rbind (index2adr S idx) (\<lambda>o1. Ok (case o1 of None \<Rightarrow> False | Some v \<Rightarrow> luaV_tonumber v \<noteq> None))"

definition lua_isstring :: "frame \<Rightarrow> int \<Rightarrow> bool res" where
  "lua_isstring S idx = rbind (lua_type S idx) (\<lambda>t. Ok (t = 4 \<or> t = 3))"

definition lua_tonumber :: "frame \<Rightarrow> int \<Rightarrow> lua_Number res" where
  "lua_tonumber S idx =
     rbind (index2adr S idx) (\<lambda>o1. Ok (case o1 of None \<Rightarrow> 0
       | Some v \<Rightarrow> (case luaV_tonumber v of Some n \<Rightarrow> n | None \<Rightarrow> 0)))"

definition lua_tointeger :: "frame \<Rightarrow> int \<Rightarrow> u32 res" where
  "lua_tointeger S idx =
     rbind (index2adr S idx) (\<lambda>o1. Ok (case o1 of None \<Rightarrow> 0
       | Some v \<Rightarrow> (case luaV_tonumber v of Some n \<Rightarrow> lua_number2integer n | None \<Rightarrow> 0)))"

definition lua_toboolean :: "frame \<Rightarrow> int \<Rightarrow> bool res" where
  "lua_toboolean S idx =
     rbind (index2adr S idx) (\<lambda>o1. Ok (case o1 of None \<Rightarrow> False | Some v \<Rightarrow> \<not> l_isfalse v))"

section \<open>Push functions\<close>

definition lua_pushnil :: "frame \<Rightarrow> frame" where "lua_pushnil S = S @ [VNil]"
definition lua_pushnumber :: "frame \<Rightarrow> lua_Number \<Rightarrow> frame" where "lua_pushnumber S n = S @ [VNum n]"
definition lua_pushinteger :: "frame \<Rightarrow> int \<Rightarrow> frame" where "lua_pushinteger S n = S @ [VNum (cast_num n)]"
definition lua_pushlstring :: "frame \<Rightarrow> string \<Rightarrow> frame" where "lua_pushlstring S s = S @ [VStr s]"
definition lua_pushstring :: "frame \<Rightarrow> string \<Rightarrow> frame" where "lua_pushstring S s = S @ [VStr (cstr s)]"
definition lua_pushboolean :: "frame \<Rightarrow> bool \<Rightarrow> frame" where "lua_pushboolean S b = S @ [VBool b]"

section \<open>Argument checks of lauxlib.c\<close>

definition lua_typename :: "int \<Rightarrow> string" where
  "lua_typename t =
     (if t = - 1 then ''no value''
      else [''nil'', ''boolean'', ''userdata'', ''number'', ''string'', ''table'', ''function'', ''userdata'', ''thread''] ! nat t)"

definition luaL_typerror :: "frame \<Rightarrow> int \<Rightarrow> string \<Rightarrow> 'a res" where
  "luaL_typerror S narg tname =
     rbind (lua_type S narg) (\<lambda>t. Fail (LuaError (tname @ '' expected, got '' @ lua_typename t)))"

definition luaL_checkinteger :: "frame \<Rightarrow> int \<Rightarrow> u32 res" where
  "luaL_checkinteger S narg =
     rbind (lua_tointeger S narg) (\<lambda>d. rbind (lua_isnumber S narg) (\<lambda>isnum.
       if d = 0 \<and> \<not> isnum then luaL_typerror S narg ''number'' else Ok d))"

definition luaL_checknumber :: "frame \<Rightarrow> int \<Rightarrow> lua_Number res" where
  "luaL_checknumber S narg =
     rbind (lua_tonumber S narg) (\<lambda>d. rbind (lua_isnumber S narg) (\<lambda>isnum.
       if luai_numeq d 0 \<and> \<not> isnum then luaL_typerror S narg ''number'' else Ok d))"

section \<open>Lemmas\<close>

named_theorems api_simps \<open>evaluation of the access functions on a given frame\<close>

lemma index2adr_pos [api_simps]:
  "0 < idx \<Longrightarrow> index2adr S idx = Ok (if nat idx \<le> length S then Some (S ! (nat idx - 1)) else None)"
  by (simp add: index2adr_def)

lemma lua_pop_append [api_simps]: "n \<le> length S \<Longrightarrow> lua_pop S n = Ok (take (length S - n) S)"
  by (simp add: lua_pop_def lua_settop_def)

lemma index2adr_pos_Ok: "0 < idx \<Longrightarrow> \<exists>v. index2adr S idx = Ok v"
  by (simp add: index2adr_def)

lemma lua_tonumber_num [api_simps]:
  "0 < idx \<Longrightarrow> nat idx \<le> length S \<Longrightarrow> S ! (nat idx - 1) = VNum n \<Longrightarrow> lua_tonumber S idx = Ok n"
  by (simp add: lua_tonumber_def index2adr_def luaV_tonumber_def)

lemma lua_isnumber_num [api_simps]:
  "0 < idx \<Longrightarrow> nat idx \<le> length S \<Longrightarrow> S ! (nat idx - 1) = VNum n \<Longrightarrow> lua_isnumber S idx = Ok True"
  by (simp add: lua_isnumber_def index2adr_def luaV_tonumber_def)

lemma luaL_checkinteger_num [api_simps]:
  "0 < idx \<Longrightarrow> nat idx \<le> length S \<Longrightarrow> S ! (nat idx - 1) = VNum n
   \<Longrightarrow> luaL_checkinteger S idx = Ok (lua_number2integer n)"
  by (simp add: luaL_checkinteger_def lua_tointeger_def lua_isnumber_def index2adr_def luaV_tonumber_def)

end
