(* ===== verification/ProfiBit.thy ===== *)
theory ProfiBit
  imports LuaFrame
begin

text \<open>
  profibit.c, the library \<open>probit\<close>: bit operations on the 32-bit words that numbers convert
  to. \<open>barg\<close> reads an argument by adding \<open>2^52 + 2^51\<close> and taking the low half of the sum's
  representation; \<open>bret\<close> is the macro \<open>BRET\<close>. A shift by 32 or more has no meaning in C, and
  neither has the negation of the smallest \<open>int\<close>; both are undefined outcomes here. The lemmas
  show what each function computes on integral arguments, the algebra of the operations, and
  that the printed forms read back as the value.
\<close>

section \<open>Arguments and results\<close>

definition barg :: "frame \<Rightarrow> int \<Rightarrow> u32 res" where
  "barg S idx =
     rbind (lua_tonumber S idx) (\<lambda>n.
       let b = ucast (dbl_add n magic_double) :: u32 in
       rbind (lua_isnumber S idx) (\<lambda>isnum.
         if b = 0 \<and> \<not> isnum then luaL_typerror S idx ''number'' else Ok b))"

definition bret :: "frame \<Rightarrow> u32 \<Rightarrow> (frame \<times> int) res" where
  "bret S b = Ok (lua_pushnumber S (cast_num (sint b)), 1)"

section \<open>The operations\<close>

definition bit_tobit :: "frame \<Rightarrow> (frame \<times> int) res" where
  "bit_tobit S = rbind (barg S 1) (bret S)"

definition bit_bnot :: "frame \<Rightarrow> (frame \<times> int) res" where
  "bit_bnot S = rbind (barg S 1) (\<lambda>b. bret S (NOT b))"

text \<open>\<open>BIT_OP\<close>: the arguments from the last down to the second.\<close>

fun bit_op_loop :: "(u32 \<Rightarrow> u32 \<Rightarrow> u32) \<Rightarrow> frame \<Rightarrow> nat \<Rightarrow> u32 \<Rightarrow> u32 res" where
  "bit_op_loop f S i b =
     (if 1 < i then rbind (barg S (int i)) (\<lambda>x. bit_op_loop f S (i - 1) (f b x)) else Ok b)"

declare bit_op_loop.simps [simp del]

definition bit_op :: "(u32 \<Rightarrow> u32 \<Rightarrow> u32) \<Rightarrow> frame \<Rightarrow> (frame \<times> int) res" where
  "bit_op f S = rbind (barg S 1) (\<lambda>b. rbind (bit_op_loop f S (lua_gettop S) b) (bret S))"

definition bit_band :: "frame \<Rightarrow> (frame \<times> int) res" where "bit_band = bit_op (AND)"
definition bit_bor :: "frame \<Rightarrow> (frame \<times> int) res" where "bit_bor = bit_op (OR)"
definition bit_bxor :: "frame \<Rightarrow> (frame \<times> int) res" where "bit_bxor = bit_op (XOR)"

text \<open>The shifts of C on \<open>uint32_t\<close> (and \<open>int32_t\<close> for the arithmetic one).\<close>

definition c_shl :: "u32 \<Rightarrow> nat \<Rightarrow> u32 res" where
  "c_shl b n = (if n < 32 then Ok (push_bit n b) else Fail (Undefined ''shift too far''))"

definition c_shr :: "u32 \<Rightarrow> nat \<Rightarrow> u32 res" where
  "c_shr b n = (if n < 32 then Ok (drop_bit n b) else Fail (Undefined ''shift too far''))"

definition bshl :: "u32 \<Rightarrow> nat \<Rightarrow> u32 res" where "bshl b n = c_shl b n"
definition bshr :: "u32 \<Rightarrow> nat \<Rightarrow> u32 res" where "bshr b n = c_shr b n"
definition bsar :: "u32 \<Rightarrow> nat \<Rightarrow> u32 res" where
  "bsar b n = (if n < 32 then Ok (signed_drop_bit n b) else Fail (Undefined ''shift too far''))"
definition brol :: "u32 \<Rightarrow> nat \<Rightarrow> u32 res" where
  "brol b n = rbind (c_shl b n) (\<lambda>x. rbind (c_shr b (32 - n)) (\<lambda>y. Ok (x OR y)))"
definition bror :: "u32 \<Rightarrow> nat \<Rightarrow> u32 res" where
  "bror b n = rbind (c_shl b (32 - n)) (\<lambda>x. rbind (c_shr b n) (\<lambda>y. Ok (x OR y)))"

definition bit_sh :: "(u32 \<Rightarrow> nat \<Rightarrow> u32 res) \<Rightarrow> frame \<Rightarrow> (frame \<times> int) res" where
  "bit_sh fn S = rbind (barg S 1) (\<lambda>b. rbind (barg S 2) (\<lambda>n. rbind (fn b (unat (n AND 31))) (bret S)))"

definition bit_lshift :: "frame \<Rightarrow> (frame \<times> int) res" where "bit_lshift = bit_sh bshl"
definition bit_rshift :: "frame \<Rightarrow> (frame \<times> int) res" where "bit_rshift = bit_sh bshr"
definition bit_arshift :: "frame \<Rightarrow> (frame \<times> int) res" where "bit_arshift = bit_sh bsar"
definition bit_rol :: "frame \<Rightarrow> (frame \<times> int) res" where "bit_rol = bit_sh brol"
definition bit_ror :: "frame \<Rightarrow> (frame \<times> int) res" where "bit_ror = bit_sh bror"

definition bswap :: "u32 \<Rightarrow> u32" where
  "bswap b = (drop_bit 24 b) OR ((drop_bit 8 b) AND 0xff00) OR (push_bit 8 (b AND 0xff00)) OR (push_bit 24 b)"

definition bit_bswap :: "frame \<Rightarrow> (frame \<times> int) res" where
  "bit_bswap S = rbind (barg S 1) (\<lambda>b. bret S (bswap b))"

text \<open>The digit loops fill the buffer from its end; \<open>digit_loop\<close> is the buffer after \<open>i\<close> digits.\<close>

fun digit_loop :: "string \<Rightarrow> nat \<Rightarrow> u32 \<Rightarrow> nat \<Rightarrow> string" where
  "digit_loop digits w b 0 = []"
| "digit_loop digits w b (Suc i) =
     digit_loop digits w (drop_bit w b) i @ [digits ! unat (b AND (push_bit w 1 - 1))]"

definition lua_isnone :: "frame \<Rightarrow> int \<Rightarrow> bool res" where
  "lua_isnone S idx = rbind (lua_type S idx) (\<lambda>t. Ok (t = - 1))"

definition opt_digits :: "frame \<Rightarrow> int \<Rightarrow> int res" where
  "opt_digits S dflt =
     rbind (lua_isnone S 2) (\<lambda>none. if none then Ok dflt else rbind (barg S 2) (\<lambda>n. Ok (sint n)))"

definition bit_tohex :: "frame \<Rightarrow> (frame \<times> int) res" where
  "bit_tohex S =
     rbind (barg S 1) (\<lambda>b. rbind (opt_digits S 2) (\<lambda>n0.
       if n0 = - (2 ^ 31) then Fail (Undefined ''signed overflow'')
       else let (n1, digits) = (if n0 < 0 then (- n0, ''0123456789ABCDEF'') else (n0, ''0123456789abcdef''));
                n = (if 8 < n1 then 8 else n1)
            in Ok (lua_pushlstring S (digit_loop digits 4 b (nat n)), 1)))"

text \<open>A negative count is not excluded by \<open>bit_tobin\<close>: the length passed on is then a huge
\<open>size_t\<close>, and the string hash reads far outside the buffer.\<close>

definition bit_tobin :: "frame \<Rightarrow> (frame \<times> int) res" where
  "bit_tobin S =
     rbind (barg S 1) (\<lambda>b. rbind (opt_digits S 8) (\<lambda>n0.
       let n = (if 32 < n0 then 32 else n0)
       in if n < 0 then Fail (Undefined ''read outside buf'')
          else Ok (lua_pushlstring S (digit_loop ''01'' 1 b (nat n)), 1)))"

definition bit_funcs :: "(string \<times> (frame \<Rightarrow> (frame \<times> int) res)) list" where
  "bit_funcs =
    [(''tobit'', bit_tobit), (''bnot'', bit_bnot), (''band'', bit_band), (''bor'', bit_bor),
     (''bxor'', bit_bxor), (''lshift'', bit_lshift), (''rshift'', bit_rshift), (''arshift'', bit_arshift),
     (''rol'', bit_rol), (''ror'', bit_ror), (''bswap'', bit_bswap), (''tohex'', bit_tohex), (''tobin'', bit_tobin)]"

section \<open>Integral arguments\<close>

definition int_frame :: "int list \<Rightarrow> frame" where
  "int_frame is = map (\<lambda>i. VNum (cast_num i)) is"

abbreviation small_int :: "int \<Rightarrow> bool" where
  "small_int i \<equiv> \<bar>i\<bar> < 2 ^ 51"

lemma length_int_frame [simp]: "length (int_frame is) = length is"
  by (simp add: int_frame_def)

lemma barg_number2int:
  "0 < idx \<Longrightarrow> nat idx \<le> length S \<Longrightarrow> S ! (nat idx - 1) = VNum n \<Longrightarrow> barg S idx = Ok (lua_number2int n)"
  by (simp add: barg_def api_simps lua_number2int_def)

lemma barg_int:
  assumes "n < length is" and "small_int (is ! n)"
  shows "barg (int_frame is) (int (Suc n)) = Ok (word_of_int (is ! n))"
proof -
  have "nat (int (Suc n)) = Suc n" by simp
  then show ?thesis
    using assms by (subst barg_number2int) (auto simp: int_frame_def lua_number2int_cast_num)
qed

lemma barg_int_1 [simp]:
  "is \<noteq> [] \<Longrightarrow> small_int (hd is) \<Longrightarrow> barg (int_frame is) 1 = Ok (word_of_int (hd is))"
  using barg_int [of 0 "is"] by (simp add: hd_conv_nth)

lemma barg_int_2 [simp]:
  "small_int j \<Longrightarrow> barg (int_frame (i # j # is)) 2 = Ok (word_of_int j)"
  using barg_int [of 1 "i # j # is"] by simp

lemma barg_zero_magic: "ucast (dbl_add 0 magic_double) = (0 :: u32)"
  using lua_number2int_round [of 0] scale_pos
  by (simp add: lua_number2int_def dbl_isnan_def dbl_mag_def dbl_units_def units_round_def)

lemma barg_absent: "length S < nat idx \<Longrightarrow> 0 < idx
   \<Longrightarrow> barg S idx = Fail (LuaError ''number expected, got no value'')"
  by (simp add: barg_def lua_tonumber_def lua_isnumber_def index2adr_def luaL_typerror_def lua_type_def
      lua_typename_def barg_zero_magic)

lemma bit_op_loop_ints:
  assumes "\<forall>i\<in>set is. small_int i" and "n \<le> length is"
  shows "bit_op_loop f (int_frame is) n b = Ok (foldl f b (rev (map word_of_int (take (n - 1) (tl is)))))"
  using assms(2)
proof (induction n arbitrary: b)
  case 0
  then show ?case by (simp add: bit_op_loop.simps)
next
  case (Suc n)
  show ?case
  proof (cases "n = 0")
    case True
    then show ?thesis by (simp add: bit_op_loop.simps)
  next
    case False
    then obtain m where n: "n = Suc m" by (cases n) auto
    have nth: "is ! n = tl is ! m" using Suc.prems n by (cases "is") simp_all
    have "take n (tl is) = take m (tl is) @ [tl is ! m]"
      using Suc.prems n by (simp add: take_Suc_conv_app_nth)
    moreover have "small_int (is ! n)" using Suc.prems assms(1) by simp
    then have "barg (int_frame is) (int (Suc n)) = Ok (word_of_int (is ! n))"
      using Suc.prems by (intro barg_int) simp_all
    ultimately show ?thesis
      using Suc n nth by (subst bit_op_loop.simps) (simp del: of_nat_Suc)
  qed
qed

lemma bit_op_ints:
  assumes "\<forall>i\<in>set is. small_int i" and "is \<noteq> []"
  shows "bit_op f (int_frame is) =
    bret (int_frame is) (foldl f (word_of_int (hd is)) (rev (map word_of_int (tl is))))"
  using assms by (simp add: bit_op_def bit_op_loop_ints lua_gettop_def)

lemma foldl_rev_ac:
  assumes ac: "\<And>x y. f x y = f y x" "\<And>x y z. f (f x y) z = f x (f y z)" and unit: "\<And>x. f x e = x"
  shows "foldl f b (rev xs) = f b (foldr f xs e)"
proof (induction xs arbitrary: b)
  case (Cons x xs)
  have "foldl f b (rev (x # xs)) = f (f b (foldr f xs e)) x" by (simp add: Cons)
  also have "\<dots> = f b (f x (foldr f xs e))" by (metis ac)
  finally show ?case by simp
qed (simp add: unit)

lemma bit_op_ints_foldr:
  fixes f :: "u32 \<Rightarrow> u32 \<Rightarrow> u32"
  assumes ac: "\<And>x y. f x y = f y x" "\<And>x y z. f (f x y) z = f x (f y z)" and unit: "\<And>x. f x e = x"
    and "\<forall>i\<in>set is. small_int i" and "is \<noteq> []"
  shows "bit_op f (int_frame is) = bret (int_frame is) (foldr f (map word_of_int is) e)"
proof -
  have "foldl f (word_of_int (hd is)) (rev (map word_of_int (tl is))) = foldr f (map word_of_int is) e"
    using assms(5) by (cases "is") (simp_all add: foldl_rev_ac [of f, OF ac unit])
  then show ?thesis
    using bit_op_ints [of "is" f] assms(4,5) by simp
qed

section \<open>Digits\<close>

lemma digits_value_loop:
  assumes digs: "\<And>k. k < 2 ^ w \<Longrightarrow> digit_in (2 ^ w) (digits ! k) = Some k" and w: "0 < w" "w < 32"
  shows "digits_value (2 ^ w) (digit_loop digits w b n) = unat b mod 2 ^ (w * n)"
proof (induction n arbitrary: b)
  case (Suc n)
  have m: "push_bit w 1 - 1 = (mask w :: u32)" by (simp add: mask_eq_exp_minus_1 push_bit_eq_mult)
  have low: "unat (b AND (push_bit w 1 - 1)) = unat b mod 2 ^ w"
    unfolding m take_bit_eq_mask [symmetric] unsigned_take_bit_eq by (rule take_bit_eq_mod)
  have high: "unat (drop_bit w b) = unat b div 2 ^ w"
    by (simp only: unat_drop_bit_eq) (rule drop_bit_eq_div)
  have "digits_value (2 ^ w) (digit_loop digits w b (Suc n))
      = (unat b div 2 ^ w mod 2 ^ (w * n)) * 2 ^ w + unat b mod 2 ^ w"
    using digs [of "unat b mod 2 ^ w"]
    by (simp only: digit_loop.simps digits_value_snoc Suc low high) simp
  also have "\<dots> = unat b mod (2 ^ w * 2 ^ (w * n))"
    by (simp add: mod_mult2_eq mult.commute)
  finally show ?case by (simp add: power_add)
qed (simp add: digits_value_def)

lemma length_digit_loop [simp]: "length (digit_loop digits w b n) = n"
  by (induction n arbitrary: b) simp_all

lemma set_digit_loop_bin: "set (digit_loop ''01'' 1 b n) \<subseteq> {CHR ''0'', CHR ''1''}"
proof (induction n arbitrary: b)
  case (Suc n)
  have "unat (b AND 1) = 0 \<or> unat (b AND 1) = 1"
    by (cases "even b") (simp_all add: and_one_eq odd_iff_mod_2_eq_one even_iff_mod_2_eq_zero)
  with Suc show ?case by auto
qed simp

lemma digit_in_hex:
  assumes "k < 16"
  shows "digit_in 16 (''0123456789abcdef'' ! k) = Some k" and "digit_in 16 (''0123456789ABCDEF'' ! k) = Some k"
proof -
  have "k \<in> {..<16}" using assms by simp
  also have "{..<16} = {0,1,2,3,4,5,6,7,8,9,10,11,12,13,14,15::nat}"
    by (auto simp: numeral_eq_Suc less_Suc_eq)
  finally show "digit_in 16 (''0123456789abcdef'' ! k) = Some k" "digit_in 16 (''0123456789ABCDEF'' ! k) = Some k"
    by (elim insertE emptyE; simp add: digit_in_def)+
qed

lemma digit_in_bin: "k < 2 \<Longrightarrow> digit_in 2 (''01'' ! k) = Some k"
  by (cases k) (auto simp: digit_in_2)

section \<open>Rotations and byte order\<close>

lemma rotate_bits:
  fixes b :: u32
  assumes "0 < n" "n < 32"
  shows "push_bit n b OR drop_bit (32 - n) b = word_rotl n b"
proof (rule bit_word_eqI)
  fix k assume "k < LENGTH(32)"
  then have k: "k < 32" by simp
  show "bit (push_bit n b OR drop_bit (32 - n) b) k = bit (word_rotl n b) k"
  proof (cases "n \<le> k")
    case True
    then have "(k + (32 - n)) mod 32 = k - n" using k assms by (simp add: mod_if)
    moreover have "\<not> bit b (32 - n + k)"
      using True assms by (auto dest!: bit_imp_le_length)
    ultimately show ?thesis
      using True k assms by (simp add: bit_simps)
  next
    case False
    then have "(k + (32 - n)) mod 32 = 32 - n + k" using k assms by simp
    then show ?thesis using k assms False by (simp add: bit_simps)
  qed
qed

lemma brol_rotl: "0 < n \<Longrightarrow> n < 32 \<Longrightarrow> brol b n = Ok (word_rotl n b)"
  by (simp add: brol_def c_shl_def c_shr_def rotate_bits)

lemma bror_rotr:
  assumes "0 < n" "n < 32" shows "bror b n = Ok (word_rotr n b)"
proof -
  have "push_bit (32 - n) b OR drop_bit n b = word_rotl (32 - n) b"
    using rotate_bits [of "32 - n" b] assms by simp
  also have "\<dots> = word_rotr n b"
    using assms by (simp add: word_rotl_eq_word_rotr)
  finally show ?thesis
    using assms by (simp add: bror_def c_shl_def c_shr_def)
qed

lemma byte_mask: "(0xff00 :: u32) = push_bit 8 (mask 8)"
  by (simp add: mask_eq_exp_minus_1)

lemma bswap_byte:
  assumes "k < 4"
  shows "(ucast (drop_bit (8 * k) (bswap b)) :: u8) = ucast (drop_bit (8 * (3 - k)) b)"
proof (rule bit_word_eqI)
  fix j assume "j < LENGTH(8)"
  then have j: "j < 8" by simp
  have "k = 0 \<or> k = 1 \<or> k = 2 \<or> k = 3" using assms by auto
  moreover have "\<not> bit b i" if "32 \<le> i" for i using that by (auto dest: bit_imp_le_length)
  ultimately show "bit (ucast (drop_bit (8 * k) (bswap b)) :: u8) j = bit (ucast (drop_bit (8 * (3 - k)) b) :: u8) j"
    using j unfolding bswap_def byte_mask by (elim disjE) (simp_all add: bit_simps)
qed

lemma sint_word_of_int: "sint (word_of_int i :: u32) = (i + 2 ^ 31) mod 2 ^ 32 - 2 ^ 31"
  by (simp add: sint_sbintrunc' signed_take_bit_eq_take_bit_shift take_bit_eq_mod)

lemma unat_word_of_int_mod:
  assumes "n \<le> 32"
  shows "unat (word_of_int i :: u32) mod 2 ^ n = nat (i mod 2 ^ n)"
proof -
  have "int (unat (word_of_int i :: u32) mod 2 ^ n) = i mod 2 ^ 32 mod 2 ^ n"
    by (simp add: zmod_int uint_word_of_int)
  also have "\<dots> = i mod 2 ^ n"
    by (rule mod_mod_cancel) (rule le_imp_power_dvd, rule assms)
  finally show ?thesis by (simp add: eq_nat_nat_iff flip: nat_int)
qed

lemma unat_and_31: "unat ((word_of_int n :: u32) AND 31) = nat (n mod 32)"
proof -
  have "(31 :: u32) = mask 5" by (simp add: mask_eq_exp_minus_1)
  then have "unat ((word_of_int n :: u32) AND 31) = unat (take_bit 5 (word_of_int n :: u32))"
    by (simp add: take_bit_eq_mask)
  also have "\<dots> = unat (word_of_int n :: u32) mod 2 ^ 5"
    unfolding unsigned_take_bit_eq by (rule take_bit_eq_mod)
  also have "\<dots> = nat (n mod 32)"
    using unat_word_of_int_mod [of 5 n] by simp
  finally show ?thesis .
qed

text \<open>\<open>probit.tobit\<close> of an integer below \<open>2^51\<close> in magnitude pushes exactly one result, the
integer reduced to the signed 32-bit range by wrap-around.\<close>

theorem bit_tobit_wraps:
  assumes "\<bar>i\<bar> < 2 ^ 51"
  shows "bit_tobit (int_frame [i]) = Ok (int_frame [i, (i + 2 ^ 31) mod 2 ^ 32 - 2 ^ 31], 1)"
  using assms by (simp add: bit_tobit_def bret_def lua_pushnumber_def sint_word_of_int int_frame_def [of "[_, _]"])
    (simp add: int_frame_def)

theorem bit_tobit_wraps_witness:
  "bit_tobit (int_frame [2 ^ 32 - 1]) = Ok (int_frame [2 ^ 32 - 1, - 1], 1)"
  using bit_tobit_wraps [of "2 ^ 32 - 1"] by simp

text \<open>on any number of integral arguments \<open>band\<close>, \<open>bor\<close> and \<open>bxor\<close> push the bitwise
combination of all of them, although the loop of the code runs from the last argument down.\<close>

theorem bit_logic_ints:
  assumes "\<forall>i\<in>set is. \<bar>i\<bar> < 2 ^ 51" and "is \<noteq> []"
  shows "bit_band (int_frame is) = bret (int_frame is) (foldr (AND) (map word_of_int is) (- 1))
       \<and> bit_bor (int_frame is) = bret (int_frame is) (foldr (OR) (map word_of_int is) 0)
       \<and> bit_bxor (int_frame is) = bret (int_frame is) (foldr (XOR) (map word_of_int is) 0)"
  unfolding bit_band_def bit_bor_def bit_bxor_def
  using assms by (intro conjI bit_op_ints_foldr) (simp_all add: ac_simps)

theorem bit_logic_ints_witness:
  "bit_band (int_frame [12, 10]) = bret (int_frame [12, 10]) 8"
  using bit_logic_ints [of "[12, 10]"] by simp

text \<open>\<open>rol\<close> and \<open>ror\<close> rotate the 32-bit word by the count modulo 32, and are undefined
(a shift of a 32-bit value by 32) exactly when that is zero.\<close>

theorem bit_rotations:
  assumes "\<bar>i\<bar> < 2 ^ 51" and "\<bar>n\<bar> < 2 ^ 51"
  shows "bit_rol (int_frame [i, n]) =
           (if n mod 32 = 0 then Fail (Undefined ''shift too far'')
            else bret (int_frame [i, n]) (word_rotl (nat (n mod 32)) (word_of_int i)))
       \<and> bit_ror (int_frame [i, n]) =
           (if n mod 32 = 0 then Fail (Undefined ''shift too far'')
            else bret (int_frame [i, n]) (word_rotr (nat (n mod 32)) (word_of_int i)))"
proof -
  have "nat (n mod 32) < 32" by (simp add: nat_less_iff)
  moreover have "0 < nat (n mod 32) \<longleftrightarrow> n mod 32 \<noteq> 0"
    using pos_mod_sign [of 32 n] by linarith
  moreover have "brol b 0 = Fail (Undefined ''shift too far'')" "bror b 0 = Fail (Undefined ''shift too far'')" for b
    by (simp_all add: brol_def bror_def c_shl_def c_shr_def)
  ultimately show ?thesis
    using assms by (simp add: bit_rol_def bit_ror_def bit_sh_def unat_and_31 brol_rotl bror_rotr)
qed

theorem bit_rotations_witness:
  "bit_rol (int_frame [1, 0]) = Fail (Undefined ''shift too far'')
   \<and> bit_rol (int_frame [1, 4]) = bret (int_frame [1, 4]) (word_rotl 4 1)"
  using bit_rotations [of 1 0] bit_rotations [of 1 4] by simp

text \<open>\<open>bswap\<close> reverses the four bytes of the word.\<close>

theorem bit_bswap_reverses:
  assumes "\<bar>i\<bar> < 2 ^ 51"
  shows "\<exists>b. bit_bswap (int_frame [i]) = bret (int_frame [i]) b
     \<and> (\<forall>k<4. (ucast (drop_bit (8 * k) b) :: u8) = ucast (drop_bit (8 * (3 - k)) (word_of_int i :: u32)))"
  using assms by (intro exI [of _ "bswap (word_of_int i)"]) (simp add: bit_bswap_def bswap_byte)

theorem bit_bswap_reverses_witness:
  "\<exists>b. bit_bswap (int_frame [0x12345678]) = bret (int_frame [0x12345678]) b
     \<and> (\<forall>k<4. (ucast (drop_bit (8 * k) b) :: u8) = ucast (drop_bit (8 * (3 - k)) (0x12345678 :: u32)))"
  using bit_bswap_reverses [of "0x12345678"] by simp

lemma opt_digits_two [simp]:
  "\<bar>n\<bar> < 2 ^ 51 \<Longrightarrow> opt_digits (int_frame [i, n]) d = Ok (sint (word_of_int n :: u32))"
  by (simp add: opt_digits_def lua_isnone_def lua_type_def api_simps) (simp add: int_frame_def)

lemma opt_digits_one [simp]: "opt_digits (int_frame [i]) d = Ok d"
  by (simp add: opt_digits_def lua_isnone_def lua_type_def api_simps)

text \<open>the digits that \<open>tobin\<close> prints for a count between 1 and 32 read back, as a binary
constant of this Lua, as the argument modulo that power of two.\<close>

theorem bit_tobin_reads_back:
  assumes "\<bar>i\<bar> < 2 ^ 51" and "0 < n" and "n \<le> 32"
  shows "\<exists>s. bit_tobin (int_frame [i, int n]) = Ok (int_frame [i, int n] @ [VStr s], 1) \<and> length s = n
     \<and> luaO_str2d (''0b'' @ s) = Some (cast_num (i mod 2 ^ n))"
proof -
  let ?s = "digit_loop ''01'' 1 (word_of_int i) n"
  have "digits_value (2 ^ 1) ?s = unat (word_of_int i :: u32) mod 2 ^ (1 * n)"
    by (rule digits_value_loop) (simp_all add: digit_in_bin)
  then have v: "int (digits_value 2 ?s) = i mod 2 ^ n"
    using unat_word_of_int_mod [OF assms(3), of i] by simp
  have "?s \<noteq> []" using assms(2) by (metis length_digit_loop length_0_conv less_irrefl)
  then have "luaO_str2d (''0b'' @ ?s) = Some (cast_num (i mod 2 ^ n))"
    using luaO_str2d_binary [OF set_digit_loop_bin, of "word_of_int i" n] assms(3) unfolding v by simp
  moreover have "bit_tobin (int_frame [i, int n]) = Ok (int_frame [i, int n] @ [VStr ?s], 1)"
    using assms sint_word_of_int [of "int n"] by (simp add: bit_tobin_def lua_pushlstring_def)
  ultimately show ?thesis by (intro exI [of _ ?s]) simp
qed

theorem bit_tobin_reads_back_witness:
  "\<exists>s. bit_tobin (int_frame [10, 4]) = Ok (int_frame [10, 4] @ [VStr s], 1) \<and> length s = 4
     \<and> luaO_str2d (''0b'' @ s) = Some (cast_num 10)"
  using bit_tobin_reads_back [of 10 4] by simp

lemma strtoul_16:
  assumes "\<forall>c\<in>set ds. digit_in 16 c \<noteq> None" and "ds \<noteq> []" and "digits_value 16 ds < 2 ^ 32"
  shows "strtoul 16 (''0x'' @ ds) = Some (digits_value 16 ds, [])"
proof -
  obtain c r where ds: "ds = c # r" using assms(2) by (cases ds) auto
  have "skip_0x 16 (''0x'' @ ds) = ds"
    using assms(1) by (simp add: skip_0x_def ds)
  moreover have "takeWhile (\<lambda>c. digit_in 16 c \<noteq> None) ds = ds" "dropWhile (\<lambda>c. digit_in 16 c \<noteq> None) ds = []"
    using assms(1) by (simp_all add: takeWhile_eq_all_conv)
  moreover have "opt_sign (dropWhile isspace (''0x'' @ ds)) = (False, ''0x'' @ ds)"
    by (simp add: isspace_def)
  ultimately show ?thesis
    using assms(2,3) by (simp only: strtoul_def Let_def prod.case if_False not_le [symmetric])
qed

lemma strtod_0x: "strtod (CHR ''0'' # CHR ''x'' # s) = Some (dbl_pack False 0, CHR ''x'' # s)"
  by (simp add: strtod_def isspace_def isdigit_def opt_exponent_def decimal_value_def digits_value_def
      digit_in_def round_ratio_def Let_def floorlog_def inf_mag_def)

lemma digit_in_nz: "digit_in b c \<noteq> None \<Longrightarrow> c \<noteq> CHR 0x00"
  by (auto simp: digit_in_def)

lemma luaO_str2d_hex:
  assumes "\<forall>c\<in>set ds. digit_in 16 c \<noteq> None" and "ds \<noteq> []" and "digits_value 16 ds < 2 ^ 32"
  shows "luaO_str2d (''0x'' @ ds) = Some (cast_num (int (digits_value 16 ds)))"
proof -
  have "cstr (''0x'' @ ds) = ''0x'' @ ds"
    using assms(1) digit_in_nz [of 16] by (auto simp: cstr_def takeWhile_eq_all_conv)
  then show ?thesis
    using strtoul_16 [OF assms] by (simp add: luaO_str2d_def strtod_0x starts_with_def)
qed

lemma set_digit_loop:
  assumes "\<And>k. k < 2 ^ w \<Longrightarrow> digits ! k \<in> A" and "0 < w" "w < 32"
  shows "set (digit_loop digits w b n) \<subseteq> A"
proof (induction n arbitrary: b)
  case (Suc n)
  have m: "push_bit w 1 - 1 = (mask w :: u32)" by (simp add: mask_eq_exp_minus_1 push_bit_eq_mult)
  have "unat (b AND (push_bit w 1 - 1)) = unat b mod 2 ^ w"
    unfolding m take_bit_eq_mask [symmetric] unsigned_take_bit_eq by (rule take_bit_eq_mod)
  then have "digits ! unat (b AND (push_bit w 1 - 1)) \<in> A"
    using assms(1) by simp
  with Suc show ?case by simp
qed simp

text \<open>C39: \<open>tohex\<close> prints as many hexadecimal digits as the magnitude of the count says, and they
read back, as a hexadecimal constant, as the argument modulo that power of 16; a negative count
selects upper case.\<close>

theorem bit_tohex_reads_back:
  assumes "\<bar>i\<bar> < 2 ^ 51" and "0 < \<bar>n\<bar>" and "\<bar>n\<bar> \<le> 8"
  shows "\<exists>s. bit_tohex (int_frame [i, n]) = Ok (int_frame [i, n] @ [VStr s], 1) \<and> length s = nat \<bar>n\<bar>
     \<and> luaO_str2d (''0x'' @ s) = Some (cast_num (i mod 16 ^ nat \<bar>n\<bar>))
     \<and> set s \<subseteq> set (if n < 0 then ''0123456789ABCDEF'' else ''0123456789abcdef'')"
proof -
  define digits where "digits = (if n < 0 then ''0123456789ABCDEF'' else ''0123456789abcdef'')"
  define m where "m = nat \<bar>n\<bar>"
  have m: "0 < m" "m \<le> 8" using assms(2,3) by (simp_all add: m_def)
  let ?s = "digit_loop digits 4 (word_of_int i) m"
  have dig: "digit_in (2 ^ 4) (digits ! k) = Some k" if "k < 2 ^ 4" for k
    using that digit_in_hex [of k] by (simp add: digits_def)
  have "digits_value (2 ^ 4) ?s = unat (word_of_int i :: u32) mod 2 ^ (4 * m)"
    by (rule digits_value_loop) (use dig in simp_all)
  then have v: "digits_value 16 ?s = nat (i mod 2 ^ (4 * m))"
    using unat_word_of_int_mod [of "4 * m" i] m by simp
  have p: "(2::int) ^ (4 * m) = 16 ^ m" by (simp add: power_mult)
  have "(16::int) ^ m \<le> 16 ^ 8" using m by (intro power_increasing) simp_all
  then have "(16::int) ^ m \<le> 2 ^ 32" by simp
  then have lt: "i mod 16 ^ m < 2 ^ 32" by (rule less_le_trans [rotated]) (simp add: pos_mod_bound)
  have "?s \<noteq> []" using m by (metis length_digit_loop length_0_conv less_irrefl)
  moreover have "set ?s \<subseteq> {c. digit_in 16 c \<noteq> None}"
    by (rule set_digit_loop) (use dig in auto)
  ultimately have "luaO_str2d (''0x'' @ ?s) = Some (cast_num (i mod 16 ^ m))"
    using luaO_str2d_hex [of ?s] lt by (auto simp: v p nat_less_iff)
  moreover have "bit_tohex (int_frame [i, n]) = Ok (int_frame [i, n] @ [VStr ?s], 1)"
    using assms m by (auto simp: bit_tohex_def sint_word_of_int lua_pushlstring_def digits_def m_def Let_def)
  moreover have "set ?s \<subseteq> set digits"
    by (rule set_digit_loop) (auto simp: digits_def intro!: nth_mem)
  ultimately show ?thesis by (intro exI [of _ ?s]) (simp add: digits_def m_def)
qed

theorem bit_tohex_reads_back_witness:
  "\<exists>s. bit_tohex (int_frame [255, - 2]) = Ok (int_frame [255, - 2] @ [VStr s], 1) \<and> length s = 2
     \<and> luaO_str2d (''0x'' @ s) = Some (cast_num 255) \<and> set s \<subseteq> set ''0123456789ABCDEF''"
  using bit_tohex_reads_back [of 255 "- 2"] by simp

end
