(* ===== verification/LuaString.thy ===== *)
theory LuaString
  imports LuaObject "HOL-Library.Multiset"
begin

text \<open>
  lstring.c: the hash of a string and the string table, in which every string is kept once.
  A bucket is the list of string objects chained through \<open>gch.next\<close>; an object is its address,
  its contents and its hash. Marks of the garbage collector are not modelled: no string is dead.
  The lemmas show that the table keeps its invariant (each object in the bucket of its hash, no
  two objects with the same contents) under interning and resizing, so that equality of
  addresses is equality of contents, which the value model of LuaObject relies on.
\<close>

section \<open>The hash\<close>

text \<open>\<open>step = s + 1\<close> with \<open>s = l >> 5\<close>; the loop index \<open>l1\<close> runs down in steps.\<close>

function hash_loop :: "string \<Rightarrow> nat \<Rightarrow> nat \<Rightarrow> u32 \<Rightarrow> u32" where
  "hash_loop str s l1 h =
     (if s + 1 \<le> l1
      then hash_loop str s (l1 - (s + 1)) (h XOR (push_bit 5 h + drop_bit 2 h + of_char (str ! (l1 - 1))))
      else h)"
  by pat_completeness auto
termination
  by (relation "measure (\<lambda>(str, s, l1, h). l1)") auto

declare hash_loop.simps [simp del]

definition luaS_hash :: "string \<Rightarrow> u32" where
  "luaS_hash str = (let l = length str in hash_loop str (l div 32) l (of_nat l))"

text \<open>\<open>lmod(s, size)\<close>, for a size that is a power of two.\<close>

definition lmod :: "u32 \<Rightarrow> nat \<Rightarrow> nat" where
  "lmod s sz = unat (s AND (of_nat sz - 1))"

lemma lmod_mod: "k < 32 \<Longrightarrow> lmod s (2 ^ k) = unat s mod 2 ^ k"
proof -
  have "(of_nat (2 ^ k) - 1 :: u32) = mask k" by (simp add: mask_eq_exp_minus_1)
  then have "lmod s (2 ^ k) = unat (take_bit k s)"
    by (simp add: lmod_def take_bit_eq_mask)
  then show ?thesis
    unfolding unsigned_take_bit_eq by (simp only: take_bit_eq_mod)
qed

lemma lmod_less: "k < 32 \<Longrightarrow> lmod s (2 ^ k) < 2 ^ k"
  by (simp add: lmod_mod)

section \<open>The string table\<close>

record TString =
  ts_addr :: u32
  ts_str :: string
  ts_hash :: u32

record stringtable =
  st_hash :: "TString list list"
  st_nuse :: nat

definition st_size :: "stringtable \<Rightarrow> nat" where
  "st_size tb = length (st_hash tb)"

definition st_push :: "nat \<Rightarrow> TString list list \<Rightarrow> TString \<Rightarrow> TString list list" where
  "st_push newsize newhash p = (let h1 = lmod (ts_hash p) newsize in newhash[h1 := p # newhash ! h1])"

definition luaS_resize :: "stringtable \<Rightarrow> nat \<Rightarrow> stringtable" where
  "luaS_resize tb newsize =
     tb\<lparr>st_hash := fold (\<lambda>bucket newhash. fold (\<lambda>p nh. st_push newsize nh p) bucket newhash)
                     (st_hash tb) (replicate newsize [])\<rparr>"

definition MAX_INT :: nat where
  "MAX_INT = 2 ^ 31 - 3"

text \<open>\<open>newlstr\<close>; \<open>addr\<close> is the block that the allocator returns. The object is
\<open>sizeof(TString) + l + 1\<close> bytes; \<open>sizeof(TString)\<close> is 16.\<close>

definition newlstr :: "u32 \<Rightarrow> stringtable \<Rightarrow> string \<Rightarrow> u32 \<Rightarrow> (stringtable \<times> TString) res" where
  "newlstr addr tb str h =
     (if 2 ^ 32 - 3 - 16 < length str + 1 then Fail (LuaError ''memory allocation error: block too big'')
      else
        (let ts = \<lparr>ts_addr = addr, ts_str = str, ts_hash = h\<rparr>;
             i = lmod h (st_size tb);
             tb1 = tb\<lparr>st_hash := (st_hash tb)[i := ts # st_hash tb ! i], st_nuse := st_nuse tb + 1\<rparr>
         in Ok (if st_size tb1 < st_nuse tb1 \<and> st_size tb1 \<le> MAX_INT div 2
                then luaS_resize tb1 (st_size tb1 * 2) else tb1, ts)))"

definition luaS_newlstr :: "u32 \<Rightarrow> stringtable \<Rightarrow> string \<Rightarrow> (stringtable \<times> TString) res" where
  "luaS_newlstr addr tb str =
     (let h = luaS_hash str in
      case find (\<lambda>ts. length (ts_str ts) = length str \<and> ts_str ts = str) (st_hash tb ! lmod h (st_size tb)) of
        Some ts \<Rightarrow> Ok (tb, ts)
      | None \<Rightarrow> newlstr addr tb str h)"

section \<open>The invariant\<close>

definition st_objects :: "stringtable \<Rightarrow> TString multiset" where
  "st_objects tb = mset (concat (st_hash tb))"

definition st_inv :: "stringtable \<Rightarrow> bool" where
  "st_inv tb \<longleftrightarrow>
     (\<exists>k<31. st_size tb = 2 ^ k) \<and>
     st_nuse tb = size (st_objects tb) \<and>
     distinct (map ts_str (concat (st_hash tb))) \<and>
     (\<forall>i < st_size tb. \<forall>p\<in>set (st_hash tb ! i). lmod (ts_hash p) (st_size tb) = i \<and> ts_hash p = luaS_hash (ts_str p))"

lemma mset_concat_push:
  "i < length xs \<Longrightarrow> mset (concat (xs[i := p # xs ! i])) = add_mset p (mset (concat xs))"
proof (induction xs arbitrary: i)
  case (Cons x xs)
  then show ?case by (cases i) (auto simp: union_commute)
qed simp

lemma length_st_push [simp]: "length (st_push n nh p) = length nh"
  by (simp add: st_push_def Let_def)

lemma st_push_fold_mset:
  assumes "length nh = 2 ^ k" "k < 32"
  shows "mset (concat (fold (\<lambda>p nh. st_push (2 ^ k) nh p) ps nh)) = mset (concat nh) + mset ps
    \<and> length (fold (\<lambda>p nh. st_push (2 ^ k) nh p) ps nh) = 2 ^ k"
  using assms(1)
proof (induction ps arbitrary: nh)
  case (Cons p ps)
  have "mset (concat (st_push (2 ^ k) nh p)) = add_mset p (mset (concat nh))"
    using Cons.prems lmod_less [OF assms(2)] by (simp add: st_push_def Let_def mset_concat_push)
  then show ?case using Cons.IH [of "st_push (2 ^ k) nh p"] Cons.prems by simp
qed simp

lemma st_push_bucket:
  assumes "length nh = 2 ^ k" "k < 32" "\<forall>i<2 ^ k. \<forall>q\<in>set (nh ! i). lmod (ts_hash q) (2 ^ k) = i"
  shows "\<forall>i<2 ^ k. \<forall>q\<in>set (st_push (2 ^ k) nh p ! i). lmod (ts_hash q) (2 ^ k) = i"
  using assms lmod_less [OF assms(2)] by (auto simp: st_push_def Let_def nth_list_update)

lemma st_push_fold_bucket:
  assumes "length nh = 2 ^ k" "k < 32" "\<forall>i<2 ^ k. \<forall>q\<in>set (nh ! i). lmod (ts_hash q) (2 ^ k) = i"
  shows "\<forall>i<2 ^ k. \<forall>q\<in>set (fold (\<lambda>p nh. st_push (2 ^ k) nh p) ps nh ! i). lmod (ts_hash q) (2 ^ k) = i"
  using assms(1,3)
proof (induction ps arbitrary: nh)
  case (Cons p ps)
  show ?case
    using Cons.IH [of "st_push (2 ^ k) nh p"] st_push_bucket [OF Cons.prems(1) assms(2) Cons.prems(2)] Cons.prems(1)
    by simp
qed simp

lemma resize_folds:
  fixes bs :: "TString list list"
  assumes "k < 32" "length nh = 2 ^ k" "\<forall>i<2 ^ k. \<forall>q\<in>set (nh ! i). lmod (ts_hash q) (2 ^ k) = i"
  defines "r \<equiv> fold (\<lambda>bucket nh. fold (\<lambda>p nh. st_push (2 ^ k) nh p) bucket nh) bs nh"
  shows "length r = 2 ^ k \<and> mset (concat r) = mset (concat nh) + mset (concat bs)
    \<and> (\<forall>i<2 ^ k. \<forall>q\<in>set (r ! i). lmod (ts_hash q) (2 ^ k) = i)"
  unfolding r_def using assms(2,3)
proof (induction bs arbitrary: nh)
  case (Cons b bs)
  let ?nh = "fold (\<lambda>p nh. st_push (2 ^ k) nh p) b nh"
  have "length ?nh = 2 ^ k" "mset (concat ?nh) = mset (concat nh) + mset b"
    using st_push_fold_mset [OF Cons.prems(1) assms(1)] by simp_all
  moreover have "\<forall>i<2 ^ k. \<forall>q\<in>set (?nh ! i). lmod (ts_hash q) (2 ^ k) = i"
    by (rule st_push_fold_bucket [OF Cons.prems(1) assms(1) Cons.prems(2)])
  ultimately show ?case using Cons.IH [of ?nh] by (simp add: ac_simps)
qed simp

lemma luaS_resize_objects:
  assumes "k < 32"
  shows "st_objects (luaS_resize tb (2 ^ k)) = st_objects tb" "st_size (luaS_resize tb (2 ^ k)) = 2 ^ k"
    "\<forall>i<2 ^ k. \<forall>q\<in>set (st_hash (luaS_resize tb (2 ^ k)) ! i). lmod (ts_hash q) (2 ^ k) = i"
  using resize_folds [OF assms, of "replicate (2 ^ k) []" "st_hash tb"]
  by (simp_all add: luaS_resize_def st_objects_def st_size_def)

lemma st_inv_distinct_iff:
  "mset (concat xs) = mset (concat ys) \<Longrightarrow>
   distinct (map ts_str (concat xs)) = distinct (map ts_str (concat ys))"
  by (metis mset_map mset_eq_imp_distinct_iff)

lemma in_bucket_iff: "p \<in># st_objects tb \<longleftrightarrow> (\<exists>i < st_size tb. p \<in> set (st_hash tb ! i))"
  by (auto simp: st_objects_def st_size_def in_set_conv_nth) (metis in_set_conv_nth)+

lemma luaS_resize_inv:
  assumes inv: "st_inv tb" and k: "k < 31"
  shows "st_inv (luaS_resize tb (2 ^ k))"
proof -
  let ?r = "luaS_resize tb (2 ^ k)"
  have k32: "k < 32" using k by simp
  note o = luaS_resize_objects [OF k32, of tb]
  have "distinct (map ts_str (concat (st_hash ?r)))"
    using inv o(1) st_inv_distinct_iff [of "st_hash ?r" "st_hash tb"] by (simp add: st_inv_def st_objects_def)
  moreover have "st_nuse ?r = st_nuse tb" by (simp add: luaS_resize_def)
  moreover have "ts_hash p = luaS_hash (ts_str p)" if "i < 2 ^ k" "p \<in> set (st_hash ?r ! i)" for i p
  proof -
    have "p \<in># st_objects tb" using that o by (auto simp: in_bucket_iff [of p ?r] simp flip: o(1))
    then show ?thesis using inv by (auto simp: in_bucket_iff st_inv_def)
  qed
  ultimately show ?thesis
    using inv o k by (auto simp: st_inv_def)
qed

section \<open>Interning\<close>

lemma luaS_find:
  assumes inv: "st_inv tb"
  shows "find (\<lambda>ts. length (ts_str ts) = length s \<and> ts_str ts = s) (st_hash tb ! lmod (luaS_hash s) (st_size tb)) = Some ts
     \<Longrightarrow> ts \<in># st_objects tb \<and> ts_str ts = s"
    and "find (\<lambda>ts. length (ts_str ts) = length s \<and> ts_str ts = s) (st_hash tb ! lmod (luaS_hash s) (st_size tb)) = None
     \<Longrightarrow> \<forall>t\<in># st_objects tb. ts_str t \<noteq> s"
proof -
  have lt: "lmod (luaS_hash s) (st_size tb) < st_size tb"
    using inv lmod_less by (auto simp: st_inv_def)
  show "ts \<in># st_objects tb \<and> ts_str ts = s"
    if "find (\<lambda>ts. length (ts_str ts) = length s \<and> ts_str ts = s) (st_hash tb ! lmod (luaS_hash s) (st_size tb)) = Some ts"
    using that lt by (auto simp: find_Some_iff in_bucket_iff intro!: exI [of _ "lmod (luaS_hash s) (st_size tb)"])
  show "\<forall>t\<in># st_objects tb. ts_str t \<noteq> s"
    if "find (\<lambda>ts. length (ts_str ts) = length s \<and> ts_str ts = s) (st_hash tb ! lmod (luaS_hash s) (st_size tb)) = None"
    using that inv by (fastforce simp: find_None_iff in_bucket_iff st_inv_def)
qed

lemma st_unique:
  assumes "st_inv tb" "t \<in># st_objects tb" "t' \<in># st_objects tb" "ts_str t = ts_str t'"
  shows "t = t'"
proof -
  have "inj_on ts_str (set (concat (st_hash tb)))"
    using assms(1) by (simp add: st_inv_def distinct_map)
  then show ?thesis using assms(2-4) by (auto simp: st_objects_def dest: inj_onD)
qed

definition st_insert :: "stringtable \<Rightarrow> TString \<Rightarrow> stringtable" where
  "st_insert tb ts = (let i = lmod (ts_hash ts) (st_size tb) in
     tb\<lparr>st_hash := (st_hash tb)[i := ts # st_hash tb ! i], st_nuse := st_nuse tb + 1\<rparr>)"

lemma st_insert_inv:
  assumes inv: "st_inv tb" and new: "\<forall>t\<in># st_objects tb. ts_str t \<noteq> ts_str ts" and h: "ts_hash ts = luaS_hash (ts_str ts)"
  shows "st_inv (st_insert tb ts)" "st_objects (st_insert tb ts) = add_mset ts (st_objects tb)" 
    "st_size (st_insert tb ts) = st_size tb"
proof -
  let ?i = "lmod (ts_hash ts) (st_size tb)" and ?tb = "st_insert tb ts"
  have lt: "?i < length (st_hash tb)"
    using inv lmod_less by (auto simp: st_inv_def st_size_def)
  have m: "mset (concat (st_hash ?tb)) = add_mset ts (mset (concat (st_hash tb)))"
    by (simp add: st_insert_def Let_def mset_concat_push [OF lt])
  then show o: "st_objects ?tb = add_mset ts (st_objects tb)" by (simp add: st_objects_def)
  show sz: "st_size ?tb = st_size tb" by (simp add: st_insert_def Let_def st_size_def)
  have "mset (map ts_str (concat (st_hash ?tb))) = mset (ts_str ts # map ts_str (concat (st_hash tb)))"
    using m by (simp add: mset_map)
  moreover have "distinct (ts_str ts # map ts_str (concat (st_hash tb)))"
    using inv new unfolding st_inv_def st_objects_def by (metis (no_types, lifting) distinct.simps(2) imageE list.set_map set_mset_mset)
  ultimately have "distinct (map ts_str (concat (st_hash ?tb)))"
    using mset_eq_imp_distinct_iff by blast
  moreover have "\<forall>i < st_size tb. \<forall>p\<in>set (st_hash ?tb ! i). lmod (ts_hash p) (st_size tb) = i \<and> ts_hash p = luaS_hash (ts_str p)"
    using inv h lt by (auto simp: st_insert_def Let_def nth_list_update st_inv_def) metis
  moreover have "st_nuse ?tb = size (st_objects ?tb)"
    using inv by (simp add: o st_inv_def) (simp add: st_insert_def Let_def)
  ultimately show "st_inv ?tb" using inv unfolding st_inv_def sz by blast
qed

lemma newlstr_inv:
  assumes inv: "st_inv tb" and new: "\<forall>t\<in># st_objects tb. ts_str t \<noteq> s"
    and r: "newlstr addr tb s (luaS_hash s) = Ok (tb', ts)"
  shows "st_inv tb' \<and> st_objects tb' = add_mset ts (st_objects tb) \<and> ts_str ts = s \<and> ts_addr ts = addr"
proof -
  define t0 where "t0 = \<lparr>ts_addr = addr, ts_str = s, ts_hash = luaS_hash s\<rparr>"
  let ?tb1 = "st_insert tb t0"
  have i: "st_inv ?tb1" "st_objects ?tb1 = add_mset t0 (st_objects tb)"
    using st_insert_inv [OF inv, of t0] new by (simp_all add: t0_def)
  have ts: "ts = t0"
    and tb': "tb' = (if st_size ?tb1 < st_nuse ?tb1 \<and> st_size ?tb1 \<le> MAX_INT div 2 then luaS_resize ?tb1 (st_size ?tb1 * 2) else ?tb1)"
    using r by (auto simp: newlstr_def Let_def st_insert_def t0_def split: if_splits)
  have "st_inv tb' \<and> st_objects tb' = st_objects ?tb1"
  proof (cases "st_size ?tb1 < st_nuse ?tb1 \<and> st_size ?tb1 \<le> MAX_INT div 2")
    case True
    obtain k where k: "st_size ?tb1 = 2 ^ k" using i(1) by (auto simp: st_inv_def)
    have "(2::nat) ^ k < 2 ^ 30" using True k by (simp add: MAX_INT_def)
    then have "Suc k < 31" by (simp only: power_strict_increasing_iff)
    with True k i(1) show ?thesis
      using luaS_resize_inv [of ?tb1 "Suc k"] luaS_resize_objects(1) [of "Suc k" ?tb1] by (simp add: tb' mult.commute)
  next
    case False
    then show ?thesis using i(1) by (simp only: tb' if_False)
  qed
  then show ?thesis using i(2) ts by (simp add: t0_def)
qed

text \<open>C38: interning returns an object with the given contents that is in the table afterwards and
is the only one there with these contents; the table keeps its invariant and every object it
had. A string that is already there is returned as it is, without allocation.\<close>

theorem luaS_newlstr_interns:
  assumes "st_inv tb" and "luaS_newlstr addr tb s = Ok (tb', ts)"
  shows "st_inv tb' \<and> ts_str ts = s \<and> ts \<in># st_objects tb' \<and> st_objects tb \<subseteq># st_objects tb'
    \<and> (\<forall>t\<in># st_objects tb'. ts_str t = s \<longrightarrow> t = ts)
    \<and> ((\<exists>t\<in># st_objects tb. ts_str t = s) \<longrightarrow> tb' = tb \<and> ts \<in># st_objects tb)"
proof (cases "find (\<lambda>ts. length (ts_str ts) = length s \<and> ts_str ts = s) (st_hash tb ! lmod (luaS_hash s) (st_size tb))")
  case None
  then have new: "\<forall>t\<in># st_objects tb. ts_str t \<noteq> s" by (rule luaS_find(2) [OF assms(1)])
  have "newlstr addr tb s (luaS_hash s) = Ok (tb', ts)"
    using assms(2) None by (simp add: luaS_newlstr_def Let_def)
  then have "st_inv tb' \<and> st_objects tb' = add_mset ts (st_objects tb) \<and> ts_str ts = s"
    using newlstr_inv [OF assms(1) new] by simp
  then show ?thesis using new by (auto simp: subset_mset.le_iff_add)
next
  case (Some t)
  then have "tb' = tb" "ts = t" using assms(2) by (simp_all add: luaS_newlstr_def Let_def)
  with luaS_find(1) [OF assms(1) Some] assms(1) show ?thesis using st_unique by blast
qed

definition empty_strt :: stringtable where
  "empty_strt = \<lparr>st_hash = replicate 32 [], st_nuse = 0\<rparr>"

lemma empty_strt_inv: "st_inv empty_strt"
  by (auto simp: st_inv_def empty_strt_def st_size_def st_objects_def concat_replicate_trivial intro: exI [of _ 5])

theorem luaS_newlstr_interns_witness:
  "\<exists>tb ts. luaS_newlstr 4096 empty_strt ''gInputName'' = Ok (tb, ts) \<and> st_inv tb
     \<and> ts \<in># st_objects tb \<and> ts_str ts = ''gInputName''"
proof -
  have "find P (st_hash empty_strt ! lmod (luaS_hash ''gInputName'') (st_size empty_strt)) = None" for P
  proof -
    have "lmod (luaS_hash ''gInputName'') 32 < 32" using lmod_less [of 5] by simp
    then show ?thesis by (simp add: empty_strt_def st_size_def)
  qed
  then obtain tb ts where "luaS_newlstr 4096 empty_strt ''gInputName'' = Ok (tb, ts)"
    by (auto simp: luaS_newlstr_def newlstr_def Let_def)
  with luaS_newlstr_interns [OF empty_strt_inv this] show ?thesis by blast
qed

end
