(* ===== verification/LuaTable.thy ===== *)
theory LuaTable
  imports LuaString
begin

text \<open>
  ltable.c: Lua tables, with an array part and a hash part. The hash part is a chained scatter
  table with Brent's variation: \<open>t_node\<close> is the node vector, the pointers into it
  (\<open>gnext\<close>, \<open>lastfree\<close>, main positions) are indices. \<open>luaH_get\<close> and its relatives return
  the place of the value, a \<open>slot\<close> (a pointer into one of the two vectors in the code), or
  \<open>None\<close> for \<open>luaO_nilobject\<close>. The shared \<open>dummynode\<close> of tables without a hash part is the flag
  \<open>t_isdummy\<close> with a vector of one empty node. Walks along a chain are bounded by the number of
  nodes; insertions that grow the table call each other, \<open>newkey\<close> has the depth of that
  recursion as its first argument. Allocation succeeds whenever the size is representable.
\<close>

section \<open>Data\<close>

record Node =
  i_val :: TValue
  i_key :: TValue
  i_next :: "nat option"

record Table =
  t_flags :: u8
  t_lsizenode :: nat
  t_metatable :: u32
  t_array :: "TValue list"
  t_sizearray :: nat
  t_node :: "Node list"
  t_isdummy :: bool
  t_lastfree :: int

datatype slot = InArray nat | InNode nat

definition MAXBITS :: nat where "MAXBITS = 26"
definition MAXASIZE :: nat where "MAXASIZE = 2 ^ MAXBITS"

definition sizenode :: "Table \<Rightarrow> nat" where
  "sizenode t = 2 ^ t_lsizenode t"

definition empty_node :: Node where
  "empty_node = \<lparr>i_val = VNil, i_key = VNil, i_next = None\<rparr>"

definition slot_val :: "Table \<Rightarrow> slot \<Rightarrow> TValue" where
  "slot_val t s = (case s of InArray i \<Rightarrow> t_array t ! i | InNode i \<Rightarrow> i_val (t_node t ! i))"

definition slot_set :: "Table \<Rightarrow> slot \<Rightarrow> TValue \<Rightarrow> Table" where
  "slot_set t s v =
     (case s of InArray i \<Rightarrow> t\<lparr>t_array := (t_array t)[i := v]\<rparr>
      | InNode i \<Rightarrow> t\<lparr>t_node := (t_node t)[i := (t_node t ! i)\<lparr>i_val := v\<rparr>]\<rparr>)"

definition upd_node :: "Table \<Rightarrow> nat \<Rightarrow> (Node \<Rightarrow> Node) \<Rightarrow> Table" where
  "upd_node t i f = t\<lparr>t_node := (t_node t)[i := f (t_node t ! i)]\<rparr>"

section \<open>Main positions\<close>

definition hashmod :: "Table \<Rightarrow> u32 \<Rightarrow> nat" where
  "hashmod t n = unat n mod ((sizenode t - 1) OR 1)"

definition hashpow2 :: "Table \<Rightarrow> u32 \<Rightarrow> nat" where
  "hashpow2 t n = lmod n (sizenode t)"

text \<open>The two 32-bit halves of the double are added.\<close>

definition hashnum :: "Table \<Rightarrow> lua_Number \<Rightarrow> nat" where
  "hashnum t n =
     (if luai_numeq n (cast_num 0) then 0
      else hashmod t (ucast n + ucast (drop_bit 32 n)))"

text \<open>The address of a collectable object. Nil and dead keys have none that the callers use:
they never ask for the main position of such a key.\<close>

fun gcvalue :: "TValue \<Rightarrow> u32" where
  "gcvalue (VTable p) = p"
| "gcvalue (VFun p) = p"
| "gcvalue (VUser p) = p"
| "gcvalue (VThread p) = p"
| "gcvalue _ = 0"

definition mainposition :: "Table \<Rightarrow> TValue \<Rightarrow> nat" where
  "mainposition t key =
     (case key of
        VNum n \<Rightarrow> hashnum t n
      | VStr s \<Rightarrow> hashpow2 t (luaS_hash s)
      | VBool b \<Rightarrow> hashpow2 t (if b then 1 else 0)
      | VLight p \<Rightarrow> hashmod t p
      | _ \<Rightarrow> hashmod t (gcvalue key))"

definition arrayindex :: "TValue \<Rightarrow> int" where
  "arrayindex key =
     (case key of
        VNum n \<Rightarrow> (let k = sint (lua_number2int n) in if luai_numeq (cast_num k) n then k else - 1)
      | _ \<Rightarrow> - 1)"

section \<open>Lookup\<close>

fun chain_find :: "Node list \<Rightarrow> (Node \<Rightarrow> bool) \<Rightarrow> nat \<Rightarrow> nat \<Rightarrow> nat option res" where
  "chain_find ns P 0 n = Fail NoFuel"
| "chain_find ns P (Suc f) n =
     (if P (ns ! n) then Ok (Some n)
      else case i_next (ns ! n) of None \<Rightarrow> Ok None | Some m \<Rightarrow> chain_find ns P f m)"

definition chain_slot :: "Table \<Rightarrow> (Node \<Rightarrow> bool) \<Rightarrow> nat \<Rightarrow> slot option res" where
  "chain_slot t P n =
     rbind (chain_find (t_node t) P (length (t_node t)) n) (\<lambda>r. Ok (map_option InNode r))"

definition luaH_getnum :: "Table \<Rightarrow> int \<Rightarrow> slot option res" where
  "luaH_getnum t key =
     (if (key - 1) mod 2 ^ 32 < int (t_sizearray t) then Ok (Some (InArray (nat ((key - 1) mod 2 ^ 32))))
      else
        (let nk = cast_num key
         in chain_slot t (\<lambda>n. case i_key n of VNum m \<Rightarrow> luai_numeq m nk | _ \<Rightarrow> False) (hashnum t nk)))"

definition luaH_getstr :: "Table \<Rightarrow> string \<Rightarrow> slot option res" where
  "luaH_getstr t key =
     chain_slot t (\<lambda>n. case i_key n of VStr s \<Rightarrow> s = key | _ \<Rightarrow> False) (hashpow2 t (luaS_hash key))"

definition luaH_get_any :: "Table \<Rightarrow> TValue \<Rightarrow> slot option res" where
  "luaH_get_any t key = chain_slot t (\<lambda>n. luaO_rawequalObj (i_key n) key) (mainposition t key)"

definition luaH_get :: "Table \<Rightarrow> TValue \<Rightarrow> slot option res" where
  "luaH_get t key =
     (case key of
        VNil \<Rightarrow> Ok None
      | VStr s \<Rightarrow> luaH_getstr t s
      | VNum n \<Rightarrow>
          (let k = sint (lua_number2int n)
           in if luai_numeq (cast_num k) n then luaH_getnum t k else luaH_get_any t key)
      | _ \<Rightarrow> luaH_get_any t key)"

section \<open>Traversal\<close>

text \<open>The key of a dead entry is recognised by its address.\<close>

definition is_dead_of :: "TValue \<Rightarrow> TValue \<Rightarrow> bool" where
  "is_dead_of k key \<longleftrightarrow> iscollectable key \<and> (case k of VDead k' \<Rightarrow> k' = key | _ \<Rightarrow> False)"

definition findindex :: "Table \<Rightarrow> TValue \<Rightarrow> int res" where
  "findindex t key =
     (if key = VNil then Ok (- 1)
      else
        (let i = arrayindex key in
         if 0 < i \<and> i \<le> int (t_sizearray t) then Ok (i - 1)
         else rbind (chain_find (t_node t) (\<lambda>n. luaO_rawequalObj (i_key n) key \<or> is_dead_of (i_key n) key)
                       (length (t_node t)) (mainposition t key))
                (\<lambda>r. case r of None \<Rightarrow> Fail (LuaError ''invalid key to 'next' '')
                   | Some n \<Rightarrow> Ok (int n + int (t_sizearray t)))))"

fun next_array :: "Table \<Rightarrow> nat list \<Rightarrow> (TValue \<times> TValue) option" where
  "next_array t [] = None"
| "next_array t (i # is) =
     (if t_array t ! i \<noteq> VNil then Some (VNum (cast_num (int i + 1)), t_array t ! i) else next_array t is)"

fun next_node :: "Table \<Rightarrow> nat list \<Rightarrow> (TValue \<times> TValue) option" where
  "next_node t [] = None"
| "next_node t (i # is) =
     (if i_val (t_node t ! i) \<noteq> VNil then Some (i_key (t_node t ! i), i_val (t_node t ! i)) else next_node t is)"

definition luaH_next :: "Table \<Rightarrow> TValue \<Rightarrow> (TValue \<times> TValue) option res" where
  "luaH_next t key =
     rbind (findindex t key) (\<lambda>i0.
       let i = nat (i0 + 1) in
       Ok (case next_array t [i..<t_sizearray t] of
             Some kv \<Rightarrow> Some kv
           | None \<Rightarrow> next_node t [max i (t_sizearray t) - t_sizearray t..<sizenode t]))"

section \<open>Sizes\<close>

text \<open>The loop of \<open>computesizes\<close>; \<open>i\<close>, \<open>a\<close>, \<open>na\<close> and \<open>n\<close> are the variables of the code,
\<open>twotoi\<close> is \<open>2 ^ i\<close>.\<close>

function computesizes_loop :: "nat list \<Rightarrow> nat \<Rightarrow> nat \<Rightarrow> nat \<Rightarrow> nat \<Rightarrow> nat \<Rightarrow> (nat \<times> nat) res" where
  "computesizes_loop nums narray i a na n =
     (if 2 ^ i div 2 < narray then
        rbind (aget nums i) (\<lambda>c.
          let (a', na', n') =
                (if 0 < c then
                   (if 2 ^ i div 2 < a + c then (a + c, a + c, 2 ^ i) else (a + c, na, n))
                 else (a, na, n))
          in if a' = narray then Ok (n', na') else computesizes_loop nums narray (Suc i) a' na' n')
      else Ok (n, na))"
  by pat_completeness auto
termination
  by (relation "measure (\<lambda>(nums, narray, i, a, na, n). length nums - i)") (auto simp: aget_def rbind_def split: if_splits)

declare computesizes_loop.simps [simp del]

text \<open>Returns the new size of the array part and the number of elements that go there.\<close>

definition computesizes :: "nat list \<Rightarrow> nat \<Rightarrow> (nat \<times> nat) res" where
  "computesizes nums narray = computesizes_loop nums narray 0 0 0 0"

definition countint :: "TValue \<Rightarrow> nat list \<Rightarrow> (nat list \<times> nat) res" where
  "countint key nums =
     (let k = arrayindex key in
      if 0 < k \<and> k \<le> int MAXASIZE then
        (let b = nat (ceillog2 (nat k)) in
         rbind (aget nums b) (\<lambda>c. rbind (aset nums b (c + 1)) (\<lambda>nums'. Ok (nums', 1))))
      else Ok (nums, 0))"

definition count_used :: "TValue list \<Rightarrow> nat \<Rightarrow> nat \<Rightarrow> nat" where
  "count_used array i hi = length (filter (\<lambda>v. v \<noteq> VNil) (take (hi - i) (drop i array)))"

text \<open>One iteration of the loop of \<open>numusearray\<close> for slice \<open>lg\<close>; \<open>i0\<close> is \<open>i - 1\<close>. The flag of
the result tells that the loop has ended with \<open>break\<close>.\<close>

function numusearray_loop :: "Table \<Rightarrow> nat \<Rightarrow> nat list \<Rightarrow> nat \<Rightarrow> nat \<Rightarrow> (nat list \<times> nat) res" where
  "numusearray_loop t lg nums i0 ause =
     (if lg \<le> MAXBITS then
        (if t_sizearray t < 2 ^ lg \<and> t_sizearray t < i0 + 1 then Ok (nums, ause)
         else
           (let hi = min (2 ^ lg) (t_sizearray t);
                lc = count_used (t_array t) i0 hi
            in rbind (aget nums lg) (\<lambda>c. rbind (aset nums lg (c + lc)) (\<lambda>nums'.
                 numusearray_loop t (Suc lg) nums' (max i0 hi) (ause + lc)))))
      else Ok (nums, ause))"
  by pat_completeness auto
termination
  by (relation "measure (\<lambda>(t, lg, nums, i0, ause). Suc MAXBITS - lg)") auto

declare numusearray_loop.simps [simp del]

definition numusearray :: "Table \<Rightarrow> nat list \<Rightarrow> (nat list \<times> nat) res" where
  "numusearray t nums = numusearray_loop t 0 nums 0 0"

text \<open>The nodes are visited from the last to the first.\<close>

definition numusehash_step :: "Node \<Rightarrow> nat list \<times> nat \<times> nat \<Rightarrow> (nat list \<times> nat \<times> nat) res" where
  "numusehash_step n st =
     (case st of (nums, ause, totaluse) \<Rightarrow>
        if i_val n \<noteq> VNil then rbind (countint (i_key n) nums) (\<lambda>(nums', c). Ok (nums', ause + c, totaluse + 1))
        else Ok (nums, ause, totaluse))"

definition numusehash :: "Table \<Rightarrow> nat list \<Rightarrow> nat \<Rightarrow> (nat list \<times> nat \<times> nat) res" where
  "numusehash t nums nasize =
     rbind (foldM numusehash_step (rev (t_node t)) (nums, 0, 0)) (\<lambda>(nums', ause, totaluse).
       Ok (nums', nasize + ause, totaluse))"

section \<open>Resizing\<close>

definition MAX_SIZET :: nat where "MAX_SIZET = 2 ^ 32 - 3"

definition setarrayvector :: "Table \<Rightarrow> nat \<Rightarrow> Table res" where
  "setarrayvector t sz =
     (if MAX_SIZET div 16 < sz + 1 then Fail (LuaError ''memory allocation error: block too big'')
      else Ok (t\<lparr>t_array := take sz (take (t_sizearray t) (t_array t)) @ replicate (sz - t_sizearray t) VNil,
                 t_sizearray := sz\<rparr>))"

definition setnodevector :: "Table \<Rightarrow> nat \<Rightarrow> Table res" where
  "setnodevector t sz =
     (if sz = 0 then Ok (t\<lparr>t_node := [empty_node], t_isdummy := True, t_lsizenode := 0, t_lastfree := 0\<rparr>)
      else
        (let lsize = nat (ceillog2 sz) in
         if MAXBITS < lsize then Fail (LuaError ''table overflow'')
         else Ok (t\<lparr>t_node := replicate (2 ^ lsize) empty_node, t_isdummy := False,
                    t_lsizenode := lsize, t_lastfree := 2 ^ lsize\<rparr>)))"

text \<open>\<open>newkey\<close>, \<open>rehash\<close>, \<open>resize\<close> and \<open>luaH_set\<close> call each other. Each is given as a body over
the insertion function \<open>nk\<close> to call; \<open>newkey\<close> below closes the recursion.\<close>

definition luaH_set_body :: "(Table \<Rightarrow> TValue \<Rightarrow> (Table \<times> slot) res) \<Rightarrow> Table \<Rightarrow> TValue \<Rightarrow> (Table \<times> slot) res" where
  "luaH_set_body nk t key =
     rbind (luaH_get t key) (\<lambda>p.
       let t1 = t\<lparr>t_flags := 0\<rparr> in
       case p of
         Some s \<Rightarrow> Ok (t1, s)
       | None \<Rightarrow>
           if key = VNil then Fail (LuaError ''table index is nil'')
           else if (case key of VNum n \<Rightarrow> luai_numisnan n | _ \<Rightarrow> False) then Fail (LuaError ''table index is NaN'')
           else nk t1 key)"

definition luaH_setnum_body :: "(Table \<Rightarrow> TValue \<Rightarrow> (Table \<times> slot) res) \<Rightarrow> Table \<Rightarrow> int \<Rightarrow> (Table \<times> slot) res" where
  "luaH_setnum_body nk t key =
     rbind (luaH_getnum t key) (\<lambda>p. case p of Some s \<Rightarrow> Ok (t, s) | None \<Rightarrow> nk t (VNum (cast_num key)))"

definition luaH_setstr_body :: "(Table \<Rightarrow> TValue \<Rightarrow> (Table \<times> slot) res) \<Rightarrow> Table \<Rightarrow> string \<Rightarrow> (Table \<times> slot) res" where
  "luaH_setstr_body nk t key =
     rbind (luaH_getstr t key) (\<lambda>p. case p of Some s \<Rightarrow> Ok (t, s) | None \<Rightarrow> nk t (VStr key))"

definition reinsert_array :: "(Table \<Rightarrow> TValue \<Rightarrow> (Table \<times> slot) res) \<Rightarrow> nat \<Rightarrow> Table \<Rightarrow> Table res" where
  "reinsert_array nk i t =
     (if t_array t ! i \<noteq> VNil
      then rbind (luaH_setnum_body nk t (int i + 1)) (\<lambda>(t', s). Ok (slot_set t' s (t_array t ! i)))
      else Ok t)"

definition reinsert_node :: "(Table \<Rightarrow> TValue \<Rightarrow> (Table \<times> slot) res) \<Rightarrow> Node \<Rightarrow> Table \<Rightarrow> Table res" where
  "reinsert_node nk old t =
     (if i_val old \<noteq> VNil
      then rbind (luaH_set_body nk t (i_key old)) (\<lambda>(t', s). Ok (slot_set t' s (i_val old)))
      else Ok t)"

definition resize_body :: "(Table \<Rightarrow> TValue \<Rightarrow> (Table \<times> slot) res) \<Rightarrow> Table \<Rightarrow> nat \<Rightarrow> nat \<Rightarrow> Table res" where
  "resize_body nk t nasize nhsize =
     (let oldasize = t_sizearray t; nold = t_node t in
      rbind (if oldasize < nasize then setarrayvector t nasize else Ok t) (\<lambda>t1.
      rbind (setnodevector t1 nhsize) (\<lambda>t2.
      rbind (if nasize < oldasize then
               rbind (foldM (reinsert_array nk) [nasize..<oldasize] (t2\<lparr>t_sizearray := nasize\<rparr>)) (\<lambda>t3.
                 Ok (t3\<lparr>t_array := take nasize (t_array t3)\<rparr>))
             else Ok t2) (\<lambda>t4.
      foldM (reinsert_node nk) (rev nold) t4))))"

definition rehash_body :: "(Table \<Rightarrow> TValue \<Rightarrow> (Table \<times> slot) res) \<Rightarrow> Table \<Rightarrow> TValue \<Rightarrow> Table res" where
  "rehash_body nk t ek =
     rbind (numusearray t (replicate (MAXBITS + 1) 0)) (\<lambda>(nums1, na1).
     rbind (numusehash t nums1 na1) (\<lambda>(nums2, nasize2, total2).
     rbind (countint ek nums2) (\<lambda>(nums3, c).
     rbind (computesizes nums3 (nasize2 + c)) (\<lambda>(nasize, na).
       resize_body nk t nasize (na1 + total2 + 1 - na)))))"

section \<open>Insertion\<close>

text \<open>\<open>while (t->lastfree-- > t->node)\<close>: returns the free node found, and the table with its
\<open>lastfree\<close> moved down.\<close>

function getfreepos_loop :: "Node list \<Rightarrow> int \<Rightarrow> int \<times> nat option" where
  "getfreepos_loop ns lf =
     (if 0 < lf then
        (if i_key (ns ! nat (lf - 1)) = VNil then (lf - 1, Some (nat (lf - 1))) else getfreepos_loop ns (lf - 1))
      else (lf - 1, None))"
  by pat_completeness auto
termination
  by (relation "measure (\<lambda>(ns, lf). nat lf)") auto

declare getfreepos_loop.simps [simp del]

definition getfreepos :: "Table \<Rightarrow> Table \<times> nat option" where
  "getfreepos t = (let (lf, r) = getfreepos_loop (t_node t) (t_lastfree t) in (t\<lparr>t_lastfree := lf\<rparr>, r))"

fun find_previous :: "Node list \<Rightarrow> nat \<Rightarrow> nat \<Rightarrow> nat \<Rightarrow> nat res" where
  "find_previous ns mp 0 othern = Fail NoFuel"
| "find_previous ns mp (Suc f) othern =
     (case i_next (ns ! othern) of
        None \<Rightarrow> Fail (Undefined ''null pointer'')
      | Some m \<Rightarrow> if m = mp then Ok othern else find_previous ns mp f m)"

definition newkey_body :: "(Table \<Rightarrow> TValue \<Rightarrow> (Table \<times> slot) res) \<Rightarrow> Table \<Rightarrow> TValue \<Rightarrow> (Table \<times> slot) res" where
  "newkey_body nk t key =
     (let mp = mainposition t key;
          put = (\<lambda>t i. (upd_node t i (i_key_update (\<lambda>_. key)), InNode i))
      in if i_val (t_node t ! mp) \<noteq> VNil \<or> t_isdummy t then
           (case getfreepos t of
              (t1, None) \<Rightarrow> rbind (rehash_body nk t1 key) (\<lambda>t2. luaH_set_body nk t2 key)
            | (t1, Some n) \<Rightarrow>
                (let othern = mainposition t1 (i_key (t_node t1 ! mp)) in
                 if othern \<noteq> mp then
                   rbind (find_previous (t_node t1) mp (length (t_node t1)) othern) (\<lambda>prev.
                     let t2 = upd_node t1 prev (i_next_update (\<lambda>_. Some n));
                         t3 = upd_node t2 n (\<lambda>_. t_node t2 ! mp);
                         t4 = upd_node t3 mp (\<lambda>x. x\<lparr>i_next := None, i_val := VNil\<rparr>)
                     in Ok (put t4 mp))
                 else
                   (let t2 = upd_node t1 n (i_next_update (\<lambda>_. i_next (t_node t1 ! mp)));
                        t3 = upd_node t2 mp (i_next_update (\<lambda>_. Some n))
                    in Ok (put t3 n))))
         else Ok (put t mp))"

primrec newkey :: "nat \<Rightarrow> Table \<Rightarrow> TValue \<Rightarrow> (Table \<times> slot) res" where
  "newkey 0 = (\<lambda>t key. Fail NoFuel)"
| "newkey (Suc f) = newkey_body (newkey f)"

section \<open>The interface\<close>

text \<open>A depth of 2 is enough: an insertion made while the table is resized finds a free node.\<close>

definition luaH_set :: "Table \<Rightarrow> TValue \<Rightarrow> (Table \<times> slot) res" where
  "luaH_set = luaH_set_body (newkey 2)"

definition luaH_setnum :: "Table \<Rightarrow> int \<Rightarrow> (Table \<times> slot) res" where
  "luaH_setnum = luaH_setnum_body (newkey 2)"

definition luaH_setstr :: "Table \<Rightarrow> string \<Rightarrow> (Table \<times> slot) res" where
  "luaH_setstr = luaH_setstr_body (newkey 2)"

definition luaH_resizearray :: "Table \<Rightarrow> nat \<Rightarrow> Table res" where
  "luaH_resizearray t nasize = resize_body (newkey 2) t nasize (if t_isdummy t then 0 else sizenode t)"

definition luaH_new :: "nat \<Rightarrow> nat \<Rightarrow> Table res" where
  "luaH_new narray nhash =
     (let t = \<lparr>t_flags = 255, t_lsizenode = 0, t_metatable = 0, t_array = [], t_sizearray = 0,
               t_node = [empty_node], t_isdummy = True, t_lastfree = 0\<rparr>
      in rbind (setarrayvector t narray) (\<lambda>t1. setnodevector t1 nhash))"

section \<open>The length operator\<close>

definition num_absent :: "Table \<Rightarrow> nat \<Rightarrow> bool res" where
  "num_absent t j =
     rbind (luaH_getnum t (sint (of_nat j :: u32))) (\<lambda>p. Ok (case p of None \<Rightarrow> True | Some s \<Rightarrow> slot_val t s = VNil))"

fun linear_search :: "Table \<Rightarrow> nat \<Rightarrow> nat \<Rightarrow> nat res" where
  "linear_search t 0 i = Fail NoFuel"
| "linear_search t (Suc f) i =
     rbind (num_absent t i) (\<lambda>absent. if absent then Ok (i - 1) else linear_search t f (i + 1))"

function binary_search :: "(nat \<Rightarrow> bool res) \<Rightarrow> nat \<Rightarrow> nat \<Rightarrow> nat res" where
  "binary_search absent i j =
     (if 1 < j - i then
        rbind (absent ((i + j) div 2)) (\<lambda>b.
          if b then binary_search absent i ((i + j) div 2) else binary_search absent ((i + j) div 2) j)
      else Ok i)"
  by pat_completeness auto
termination
  by (relation "measure (\<lambda>(absent, i, j). j - i)") auto

function double_search :: "Table \<Rightarrow> nat \<Rightarrow> nat \<Rightarrow> nat res" where
  "double_search t i j =
     rbind (num_absent t j) (\<lambda>absent.
       if absent then binary_search (num_absent t) i j
       else if j = 0 \<or> MAX_INT < j * 2 then linear_search t (t_sizearray t + length (t_node t) + 1) 1
       else double_search t j (j * 2))"
  by pat_completeness auto
termination
  by (relation "measure (\<lambda>(t, i, j). MAX_INT - j)") auto

declare binary_search.simps [simp del] double_search.simps [simp del]

definition unbound_search :: "Table \<Rightarrow> nat \<Rightarrow> nat res" where
  "unbound_search t j = double_search t j (j + 1)"

definition luaH_getn :: "Table \<Rightarrow> nat res" where
  "luaH_getn t =
     (let j = t_sizearray t in
      if 0 < j \<and> t_array t ! (j - 1) = VNil
      then binary_search (\<lambda>m. Ok (t_array t ! (m - 1) = VNil)) 0 j
      else if t_isdummy t then Ok j
      else unbound_search t j)"

end
