(* ===== verification/LuaTableInv.thy ===== *)
theory LuaTableInv
  imports LuaTable
begin

text \<open>
  The invariant of Lua tables and the correctness of lookup: every chain of the hash part is
  finite and disjoint from the others, every key is on the chain of its main position and
  collides only with keys in their own main position (Brent's variation), and the specialised
  searches of ltable.c find the place of a key exactly if it has one. Insertion into the node
  vector keeps the invariant and the entries.
\<close>

section \<open>Keys and positions\<close>

lemma number2int_numeq:
  assumes "luai_numeq n (cast_num j)" and "\<bar>j\<bar> < 2 ^ 51"
  shows "lua_number2int n = word_of_int j"
proof -
  have "dbl_units n = j * int scale" and nan: "\<not> dbl_isnan n"
    using assms by (simp_all add: luai_numeq_def cast_num_mag(2))
  moreover have "\<bar>j * int scale\<bar> < 2 ^ 51 * int scale"
    using assms(2) by (simp add: abs_mult)
  ultimately show ?thesis by (simp add: lua_number2int_round)
qed

lemma sint_word_of_int_id: "- (2 ^ 31) \<le> j \<Longrightarrow> j < 2 ^ 31 \<Longrightarrow> sint (word_of_int j :: u32) = j"
  by (simp add: sint_sbintrunc' signed_take_bit_int_eq_self)

lemma arrayindex_iff:
  assumes "- (2 ^ 31) \<le> j" "j < 2 ^ 31" "j \<noteq> - 1"
  shows "arrayindex k = j \<longleftrightarrow> luaO_rawequalObj k (VNum (cast_num j))"
proof (cases k)
  case (VNum n)
  have j: "\<bar>j\<bar> < 2 ^ 51" using assms by auto
  show ?thesis
  proof
    assume "arrayindex k = j"
    with VNum assms(3) show "luaO_rawequalObj k (VNum (cast_num j))"
      by (auto simp: arrayindex_def Let_def luai_numeq_sym split: if_splits)
  next
    assume "luaO_rawequalObj k (VNum (cast_num j))"
    then have e: "luai_numeq n (cast_num j)" using VNum by simp
    show "arrayindex k = j"
      using number2int_numeq [OF e j] e assms VNum
      by (simp add: arrayindex_def sint_word_of_int_id luai_numeq_sym)
  qed
qed (use assms in \<open>auto simp: arrayindex_def\<close>)

lemma arrayindex_range: "- (2 ^ 31) \<le> arrayindex k" "arrayindex k < 2 ^ 31"
proof -
  show "- (2 ^ 31) \<le> arrayindex k"
    using sint_greater_eq [where 'a=32] by (auto simp: arrayindex_def Let_def split: TValue.split)
  show "arrayindex k < 2 ^ 31"
    using sint_less [where 'a=32] by (auto simp: arrayindex_def Let_def split: TValue.split)
qed

lemma arrayindex_cong:
  assumes "luaO_rawequalObj k k'" shows "arrayindex k = arrayindex k'"
proof (cases "arrayindex k = - 1 \<and> arrayindex k' = - 1")
  case False
  have "arrayindex k' = arrayindex k" if "arrayindex k \<noteq> - 1" "luaO_rawequalObj k k'" for k k'
    using that arrayindex_iff [of "arrayindex k"] arrayindex_range [of k]
    by (metis luaO_rawequalObj_sym luaO_rawequalObj_trans)
  then show ?thesis using False assms luaO_rawequalObj_sym by metis
qed simp

lemma arrayindex_cast_num [simp]: "0 \<le> j \<Longrightarrow> j < 2 ^ 31 \<Longrightarrow> arrayindex (VNum (cast_num j)) = j"
  by (subst arrayindex_iff) (simp_all add: cast_num_eq_iff)

lemma hashnum_cong:
  assumes "luai_numeq a b" shows "hashnum t a = hashnum t b"
proof (cases "a = b")
  case False
  then have "dbl_units a = 0" "dbl_units b = 0"
    using assms dbl_units_eq_iff [of a b] by (auto simp: luai_numeq_def dbl_units_def)
  then have "luai_numeq a (cast_num 0)" "luai_numeq b (cast_num 0)"
    using assms by (simp_all add: luai_numeq_def cast_num_mag(2))
  then show ?thesis by (simp add: hashnum_def)
qed simp

lemma mainposition_cong:
  "luaO_rawequalObj k k' \<Longrightarrow> mainposition t k = mainposition t k'"
  by (cases k; cases k') (auto simp: mainposition_def intro: hashnum_cong)

lemma sizenode_pos [simp]: "0 < sizenode t"
  by (simp add: sizenode_def)

lemma hashmod_less: "hashmod t n < sizenode t"
proof (cases "t_lsizenode t")
  case 0
  then show ?thesis by (simp add: hashmod_def sizenode_def)
next
  case (Suc l)
  have "odd ((2::nat) ^ Suc l - 1)" by simp
  then have "(2 ^ Suc l - 1) OR 1 = (2::nat) ^ Suc l - 1"
    by (metis One_nat_def or_one_eq add.right_neutral even_or_iff odd_one of_bool_eq(1))
  moreover have "unat n mod (2 ^ Suc l - 1) < 2 ^ Suc l - 1"
  proof (rule mod_less_divisor)
    have "(1::nat) \<le> 2 ^ l" by simp
    then show "(0::nat) < 2 ^ Suc l - 1" unfolding power_Suc by linarith
  qed
  ultimately show ?thesis using Suc by (simp add: hashmod_def sizenode_def)
qed

lemma mainposition_less: "t_lsizenode t < 32 \<Longrightarrow> mainposition t k < sizenode t"
  using hashmod_less lmod_less
  by (auto simp: mainposition_def hashnum_def hashpow2_def sizenode_def split: TValue.split)

lemma mainposition_lsize: "t_lsizenode t = t_lsizenode t' \<Longrightarrow> mainposition t = mainposition t'"
  by (auto simp: fun_eq_iff mainposition_def hashnum_def hashpow2_def hashmod_def sizenode_def split: TValue.split)

section \<open>Chains\<close>

text \<open>A relation whose components are disjoint finite chains: functional, injective, and
increasing for some rank.\<close>

definition chains :: "(nat \<Rightarrow> nat \<Rightarrow> bool) \<Rightarrow> bool" where
  "chains R \<longleftrightarrow>
     (\<forall>a b c. R a b \<longrightarrow> R a c \<longrightarrow> b = c) \<and>
     (\<forall>a b c. R a c \<longrightarrow> R b c \<longrightarrow> a = b) \<and>
     (\<exists>r :: nat \<Rightarrow> nat. \<forall>a b. R a b \<longrightarrow> r a < r b)"

lemma chainsD:
  assumes "chains R"
  shows "R a b \<Longrightarrow> R a c \<Longrightarrow> b = c" and "R a c \<Longrightarrow> R b c \<Longrightarrow> a = b" and "\<not> R a a"
  using assms unfolding chains_def by (blast, blast, metis less_irrefl)

lemma chains_acyclic: "chains R \<Longrightarrow> R a b \<Longrightarrow> \<not> R\<^sup>*\<^sup>* b a"
proof
  assume c: "chains R" and ab: "R a b" and "R\<^sup>*\<^sup>* b a"
  obtain r :: "nat \<Rightarrow> nat" where r: "\<And>a b. R a b \<Longrightarrow> r a < r b"
    using c by (auto simp: chains_def)
  from \<open>R\<^sup>*\<^sup>* b a\<close> have "r b \<le> r a"
    by (induction rule: rtranclp_induct) (auto dest: r)
  then show False using r [OF ab] by simp
qed

lemma chains_insert:
  assumes c: "chains R" and n: "\<And>b. \<not> R n b" "\<And>b. \<not> R b n" "n \<noteq> p"
  defines "R' \<equiv> \<lambda>a b. if a = n then R p b else if a = p then b = n else R a b"
  shows "chains R'" and "R\<^sup>*\<^sup>* x y \<Longrightarrow> R'\<^sup>*\<^sup>* x y"
proof -
  obtain r :: "nat \<Rightarrow> nat" where r: "\<And>a b. R a b \<Longrightarrow> r a < r b"
    using c by (auto simp: chains_def)
  have "\<exists>r :: nat \<Rightarrow> nat. \<forall>a b. R' a b \<longrightarrow> r a < r b"
  proof (intro exI allI impI)
    fix a b
    let ?r = "\<lambda>x. if x = n then 2 * r p + 1 else 2 * r x"
    assume "R' a b"
    then show "?r a < ?r b"
      using n r [of p b] r [of a b] by (auto simp: R'_def split: if_splits)
  qed
  then show "chains R'"
    unfolding chains_def using n chainsD(1,2) [OF c] by (auto simp: R'_def split: if_splits)
  have step: "R'\<^sup>*\<^sup>* a b" if "R a b" for a b
  proof (cases "a = p")
    case True
    then have "R' p n" "R' n b" using n that by (auto simp: R'_def)
    then show ?thesis unfolding True by (meson rtranclp.rtrancl_into_rtrancl rtranclp.rtrancl_refl)
  next
    case False
    then have "R' a b" using n that by (auto simp: R'_def)
    then show ?thesis by blast
  qed
  show "R'\<^sup>*\<^sup>* x y" if "R\<^sup>*\<^sup>* x y"
    using that by (induction rule: rtranclp_induct) (auto intro: step rtranclp_trans)
qed

lemma chains_move:
  assumes c: "chains R" and qp: "R q p" and n: "\<And>b. \<not> R n b" "\<And>b. \<not> R b n" "n \<noteq> p"
  defines "R' \<equiv> \<lambda>a b. if a = p then False else if a = n then R p b else if a = q then b = n else R a b"
  shows "chains R'"
    and "R\<^sup>*\<^sup>* x y \<Longrightarrow> R'\<^sup>*\<^sup>* (if x = p then n else x) (if y = p then n else y)"
proof -
  obtain r :: "nat \<Rightarrow> nat" where r: "\<And>a b. R a b \<Longrightarrow> r a < r b"
    using c by (auto simp: chains_def)
  have "\<exists>r :: nat \<Rightarrow> nat. \<forall>a b. R' a b \<longrightarrow> r a < r b"
  proof (intro exI allI impI)
    fix a b
    let ?r = "\<lambda>x. if x = n then r p else r x"
    assume "R' a b"
    then show "?r a < ?r b"
      using n r [of p b] r [of a b] r [OF qp] by (auto simp: R'_def split: if_splits)
  qed
  moreover have "a = b" if "R' a d" "R' b d" for a b d
  proof (cases "d = n")
    case True
    then show ?thesis using that n by (auto simp: R'_def split: if_splits)
  next
    case False
    have "(if a = n then p else a) = (if b = n then p else b)"
      by (rule chainsD(2) [OF c]) (use that False in \<open>simp_all add: R'_def split: if_splits\<close>)
    moreover have "a \<noteq> p" "b \<noteq> p" using that by (auto simp: R'_def)
    ultimately show ?thesis by (simp split: if_splits)
  qed
  moreover have "b = d" if "R' a b" "R' a d" for a b d
    using that chainsD(1) [OF c, of p b d] chainsD(1) [OF c, of a b d] by (simp add: R'_def split: if_splits)
  ultimately show "chains R'"
    unfolding chains_def by blast
  have edge: "R' (if a = p then n else a) (if b = p then n else b)" if "R a b" for a b
  proof -
    have ap: "b = p \<Longrightarrow> a = q" using that qp chainsD(2) [OF c] by blast
    have aq: "a = q \<Longrightarrow> b = p" using that qp chainsD(1) [OF c] by blast
    have ne: "a \<noteq> n" "b \<noteq> n" using that n by blast+
    have "\<not> R p p" by (rule chainsD(3) [OF c])
    then have "p \<noteq> q" using qp by blast
    show ?thesis
    proof (cases "a = p")
      case True
      then have "b \<noteq> p" using ap \<open>p \<noteq> q\<close> by blast
      then show ?thesis using that n(3) by (simp add: True R'_def)
    next
      case False
      then show ?thesis using that ap aq ne by (cases "a = q") (auto simp: R'_def)
    qed
  qed
  show "R'\<^sup>*\<^sup>* (if x = p then n else x) (if y = p then n else y)" if "R\<^sup>*\<^sup>* x y"
    using that
  proof (induction rule: rtranclp_induct)
    case (step y z)
    show ?case by (rule rtranclp.rtrancl_into_rtrancl [OF step.IH edge [OF step.hyps(2)]])
  qed (rule rtranclp.rtrancl_refl)
qed

section \<open>The node vector\<close>

definition nstep :: "Node list \<Rightarrow> nat \<Rightarrow> nat \<Rightarrow> bool" where
  "nstep ns a b \<longleftrightarrow> a < length ns \<and> i_next (ns ! a) = Some b"

definition proper :: "TValue \<Rightarrow> bool" where
  "proper k \<longleftrightarrow> k \<noteq> VNil \<and> (\<forall>w. k \<noteq> VDead w)"

definition linked :: "Node list \<Rightarrow> bool" where
  "linked ns \<longleftrightarrow> chains (nstep ns) \<and>
     (\<forall>a b. nstep ns a b \<longrightarrow> b < length ns \<and> i_key (ns ! a) \<noteq> VNil \<and> i_key (ns ! b) \<noteq> VNil)"

lemma reach_bound: "linked ns \<Longrightarrow> (nstep ns)\<^sup>*\<^sup>* a b \<Longrightarrow> a < length ns \<Longrightarrow> b < length ns"
  by (erule rtranclp.cases) (auto simp: linked_def)

lemma reach_key: "linked ns \<Longrightarrow> (nstep ns)\<^sup>*\<^sup>* a b \<Longrightarrow> a \<noteq> b \<Longrightarrow> i_key (ns ! a) \<noteq> VNil \<and> i_key (ns ! b) \<noteq> VNil"
  by (metis linked_def converse_rtranclpE rtranclp.cases)

lemma chain_find_reach:
  assumes "linked ns" "n < length ns" "card {j. (nstep ns)\<^sup>*\<^sup>* n j} \<le> f"
  shows "\<exists>r. chain_find ns P f n = Ok r
    \<and> (case r of Some j \<Rightarrow> (nstep ns)\<^sup>*\<^sup>* n j \<and> P (ns ! j) | None \<Rightarrow> \<forall>j. (nstep ns)\<^sup>*\<^sup>* n j \<longrightarrow> \<not> P (ns ! j))"
  using assms(2,3)
proof (induction f arbitrary: n)
  have fin: "finite {j. (nstep ns)\<^sup>*\<^sup>* n j}" if "n < length ns" for n
    using reach_bound [OF assms(1)] that by (rule_tac finite_subset [of _ "{..<length ns}"]) auto
  {
    case 0
    then show ?case using fin [of n] by auto
  next
    case (Suc f)
    show ?case
    proof (cases "P (ns ! n) \<or> i_next (ns ! n) = None")
      case True
      have "j = n" if "i_next (ns ! n) = None" "(nstep ns)\<^sup>*\<^sup>* n j" for j
        using that(2,1) by (cases rule: converse_rtranclpE) (auto simp: nstep_def)
      then show ?thesis using True by (cases "P (ns ! n)") fastforce+
    next
      case False
      then obtain m where m: "i_next (ns ! n) = Some m" by auto
      then have nm: "nstep ns n m" using Suc.prems by (simp add: nstep_def)
      have ml: "m < length ns" using nm assms(1) by (auto simp: linked_def)
      have sub: "{j. (nstep ns)\<^sup>*\<^sup>* m j} \<subset> {j. (nstep ns)\<^sup>*\<^sup>* n j}"
        using nm chains_acyclic [of "nstep ns" n m] assms(1)
        by (auto simp: linked_def intro: converse_rtranclp_into_rtranclp)
      then have "card {j. (nstep ns)\<^sup>*\<^sup>* m j} \<le> f"
        using psubset_card_mono [OF fin [OF Suc.prems(1)] sub] Suc.prems(2) by linarith
      from Suc.IH [OF ml this] obtain r where
        r: "chain_find ns P f m = Ok r" and
        c: "case r of Some j \<Rightarrow> (nstep ns)\<^sup>*\<^sup>* m j \<and> P (ns ! j) | None \<Rightarrow> \<forall>j. (nstep ns)\<^sup>*\<^sup>* m j \<longrightarrow> \<not> P (ns ! j)"
        by blast
      have "chain_find ns P (Suc f) n = Ok r" using False m r by simp
      moreover have "(nstep ns)\<^sup>*\<^sup>* n j \<longleftrightarrow> j = n \<or> (nstep ns)\<^sup>*\<^sup>* m j" for j
        using nm chainsD(1) [of "nstep ns" n m] assms(1)
        by (metis linked_def converse_rtranclpE converse_rtranclp_into_rtranclp rtranclp.rtrancl_refl)
      ultimately show ?thesis using c False by (intro exI [of _ r]) (auto split: option.splits)
    qed
  }
qed

lemma chain_find_ok:
  assumes "linked ns" "n < length ns"
  obtains (found) j where "chain_find ns P (length ns) n = Ok (Some j)" "(nstep ns)\<^sup>*\<^sup>* n j" "P (ns ! j)" "j < length ns"
    | (absent) "chain_find ns P (length ns) n = Ok None" "\<And>j. (nstep ns)\<^sup>*\<^sup>* n j \<Longrightarrow> \<not> P (ns ! j)"
proof -
  have "{j. (nstep ns)\<^sup>*\<^sup>* n j} \<subseteq> {..<length ns}"
    using reach_bound [OF assms(1)] assms(2) by auto
  then have "card {j. (nstep ns)\<^sup>*\<^sup>* n j} \<le> length ns"
    by (metis card_lessThan card_mono finite_lessThan)
  from chain_find_reach [OF assms this, of P] obtain r where
    "chain_find ns P (length ns) n = Ok r"
    "case r of Some j \<Rightarrow> (nstep ns)\<^sup>*\<^sup>* n j \<and> P (ns ! j) | None \<Rightarrow> \<forall>j. (nstep ns)\<^sup>*\<^sup>* n j \<longrightarrow> \<not> P (ns ! j)"
    by blast
  then show ?thesis
    using that reach_bound [OF assms(1) _ assms(2)] by (cases r) auto
qed

lemma find_previous_ok:
  assumes "linked ns" "n < length ns" "(nstep ns)\<^sup>*\<^sup>* n p" "n \<noteq> p"
  obtains q where "find_previous ns p (length ns) n = Ok q" "nstep ns q p" "(nstep ns)\<^sup>*\<^sup>* n q"
proof -
  have "find_previous ns p f n = (case chain_find ns (\<lambda>x. i_next x = Some p) f n of
      Fail e \<Rightarrow> Fail e | Ok None \<Rightarrow> Fail (Undefined ''null pointer'') | Ok (Some q) \<Rightarrow> Ok q)" for f n
    by (induction f arbitrary: n) (auto split: option.split)
  note fp = this [of "length ns" n]
  from assms(3,4) obtain q where q: "(nstep ns)\<^sup>*\<^sup>* n q" "nstep ns q p"
    by (metis rtranclp.cases)
  show thesis
  proof (rule chain_find_ok [OF assms(1,2), of "\<lambda>x. i_next x = Some p"])
    show thesis if "chain_find ns (\<lambda>x. i_next x = Some p) (length ns) n = Ok (Some j)"
      "(nstep ns)\<^sup>*\<^sup>* n j" "i_next (ns ! j) = Some p" "j < length ns" for j
      using that \<open>\<And>q. find_previous ns p (length ns) n = Ok q \<Longrightarrow> nstep ns q p \<Longrightarrow> (nstep ns)\<^sup>*\<^sup>* n q \<Longrightarrow> thesis\<close> fp
      by (simp add: nstep_def)
    show thesis if "\<And>j. (nstep ns)\<^sup>*\<^sup>* n j \<Longrightarrow> i_next (ns ! j) \<noteq> Some p"
      using that q by (auto simp: nstep_def)
  qed
qed

section \<open>The invariant of a table\<close>

text \<open>Every proper key is on the chain of its main position; a node that is the main position
of some key is in its own main position (the main invariant of the comment in ltable.c); keys
are pairwise different and not NaN; a value has a proper key.\<close>

definition keys_ok :: "Node list \<Rightarrow> (TValue \<Rightarrow> nat) \<Rightarrow> bool" where
  "keys_ok ns mp \<longleftrightarrow>
     (\<forall>i<length ns. proper (i_key (ns ! i)) \<longrightarrow> (nstep ns)\<^sup>*\<^sup>* (mp (i_key (ns ! i))) i) \<and>
     (\<forall>i<length ns. proper (i_key (ns ! i)) \<longrightarrow> proper (i_key (ns ! mp (i_key (ns ! i)))) \<longrightarrow>
        mp (i_key (ns ! mp (i_key (ns ! i)))) = mp (i_key (ns ! i))) \<and>
     (\<forall>i<length ns. \<forall>j<length ns. proper (i_key (ns ! i)) \<longrightarrow> luaO_rawequalObj (i_key (ns ! i)) (i_key (ns ! j)) \<longrightarrow> i = j) \<and>
     (\<forall>i<length ns. \<forall>n. i_key (ns ! i) = VNum n \<longrightarrow> \<not> luai_numisnan n) \<and>
     (\<forall>i<length ns. i_val (ns ! i) \<noteq> VNil \<longrightarrow> proper (i_key (ns ! i)))"

text \<open>The part of the invariant that also holds while the table is resized, when the array
still has the elements of the slice that vanishes.\<close>

definition table_core :: "Table \<Rightarrow> bool" where
  "table_core t \<longleftrightarrow>
     t_lsizenode t \<le> MAXBITS \<and> length (t_node t) = sizenode t \<and>
     linked (t_node t) \<and> keys_ok (t_node t) (mainposition t) \<and>
     (t_isdummy t \<longrightarrow> t_node t = [empty_node]) \<and>
     (\<not> t_isdummy t \<longrightarrow> (\<forall>i<length (t_node t). t_lastfree t \<le> int i \<longrightarrow> i_key (t_node t ! i) \<noteq> VNil)) \<and>
     t_lastfree t \<le> int (length (t_node t)) \<and>
     (\<forall>i<length (t_node t). \<not> (0 < arrayindex (i_key (t_node t ! i)) \<and> arrayindex (i_key (t_node t ! i)) \<le> int (t_sizearray t))) \<and>
     t_sizearray t \<le> length (t_array t) \<and> t_sizearray t \<le> MAXASIZE \<and>
     (t_isdummy t \<longrightarrow> t_lastfree t \<le> 0)"

definition table_inv :: "Table \<Rightarrow> bool" where
  "table_inv t \<longleftrightarrow> table_core t \<and> length (t_array t) = t_sizearray t"

text \<open>The place of a key, and the entries of a table.\<close>

definition slot_ok :: "Table \<Rightarrow> TValue \<Rightarrow> slot \<Rightarrow> bool" where
  "slot_ok t k s \<longleftrightarrow>
     (case s of InArray i \<Rightarrow> i < t_sizearray t \<and> arrayindex k = int i + 1
      | InNode i \<Rightarrow> i < length (t_node t) \<and> proper (i_key (t_node t ! i)) \<and> luaO_rawequalObj (i_key (t_node t ! i)) k)"

definition holds :: "Table \<Rightarrow> TValue \<Rightarrow> TValue \<Rightarrow> bool" where
  "holds t k v \<longleftrightarrow> v \<noteq> VNil \<and> (\<exists>s. slot_ok t k s \<and> slot_val t s = v)"

lemma table_coreD:
  assumes "table_core t"
  shows "t_lsizenode t \<le> MAXBITS" "length (t_node t) = sizenode t" "linked (t_node t)"
    "keys_ok (t_node t) (mainposition t)" "t_isdummy t \<Longrightarrow> t_node t = [empty_node]"
    "\<not> t_isdummy t \<Longrightarrow> i < length (t_node t) \<Longrightarrow> t_lastfree t \<le> int i \<Longrightarrow> i_key (t_node t ! i) \<noteq> VNil"
    "t_lastfree t \<le> int (length (t_node t))"
    "i < length (t_node t) \<Longrightarrow> 0 < arrayindex (i_key (t_node t ! i)) \<Longrightarrow> int (t_sizearray t) < arrayindex (i_key (t_node t ! i))"
    "t_sizearray t \<le> length (t_array t)" "t_sizearray t \<le> MAXASIZE"
    "mainposition t k < length (t_node t)"
    "t_isdummy t \<Longrightarrow> t_lastfree t \<le> 0"
  using assms mainposition_less [of t k] by (auto simp: table_core_def MAXBITS_def)

lemma keys_okD:
  assumes "keys_ok ns mp"
  shows "i < length ns \<Longrightarrow> proper (i_key (ns ! i)) \<Longrightarrow> (nstep ns)\<^sup>*\<^sup>* (mp (i_key (ns ! i))) i"
    "i < length ns \<Longrightarrow> proper (i_key (ns ! i)) \<Longrightarrow> proper (i_key (ns ! mp (i_key (ns ! i)))) \<Longrightarrow>
       mp (i_key (ns ! mp (i_key (ns ! i)))) = mp (i_key (ns ! i))"
    "i < length ns \<Longrightarrow> j < length ns \<Longrightarrow> proper (i_key (ns ! i)) \<Longrightarrow> luaO_rawequalObj (i_key (ns ! i)) (i_key (ns ! j)) \<Longrightarrow> i = j"
    "i < length ns \<Longrightarrow> i_key (ns ! i) = VNum n \<Longrightarrow> \<not> luai_numisnan n"
    "i < length ns \<Longrightarrow> i_val (ns ! i) \<noteq> VNil \<Longrightarrow> proper (i_key (ns ! i))"
  using assms unfolding keys_ok_def by blast+

lemma rawequal_right_cong: "luaO_rawequalObj k k' \<Longrightarrow> luaO_rawequalObj x k = luaO_rawequalObj x k'"
  by (metis luaO_rawequalObj_trans luaO_rawequalObj_sym)

lemma slot_ok_cong: "luaO_rawequalObj k k' \<Longrightarrow> slot_ok t k s = slot_ok t k' s"
  by (cases s) (simp_all add: slot_ok_def arrayindex_cong [of k k'] rawequal_right_cong [of k k'])

lemma holds_cong: "luaO_rawequalObj k k' \<Longrightarrow> holds t k v = holds t k' v"
  by (simp add: holds_def slot_ok_cong)

lemma slot_ok_unique:
  assumes t: "table_core t" and s: "slot_ok t k s" "slot_ok t k s'"
  shows "s = s'"
proof -
  have mixed: False if "slot_ok t k (InArray i)" "slot_ok t k (InNode j)" for i j
    using that arrayindex_cong [of "i_key (t_node t ! j)" k] table_coreD(8) [OF t, of j] by (auto simp: slot_ok_def)
  show ?thesis
  proof (cases s; cases s')
    fix i j assume "s = InNode i" "s' = InNode j"
    then show ?thesis
      using s keys_okD(3) [OF table_coreD(4) [OF t], of i j] rawequal_right_cong [of "i_key (t_node t ! j)" k]
      by (simp add: slot_ok_def)
  qed (use s mixed in \<open>auto simp: slot_ok_def\<close>)
qed

lemma holds_unique: "table_core t \<Longrightarrow> holds t k v \<Longrightarrow> holds t k w \<Longrightarrow> v = w"
  using slot_ok_unique by (auto simp: holds_def)

section \<open>Lookup\<close>

definition get_spec :: "Table \<Rightarrow> TValue \<Rightarrow> slot option res \<Rightarrow> bool" where
  "get_spec t k r \<longleftrightarrow> (\<exists>p. r = Ok p \<and> (case p of Some s \<Rightarrow> slot_ok t k s | None \<Rightarrow> \<forall>s. \<not> slot_ok t k s))"

lemma chain_slot_spec:
  assumes t: "table_core t"
    and P: "\<And>i. i < length (t_node t) \<Longrightarrow> P (t_node t ! i) \<longleftrightarrow> proper (i_key (t_node t ! i)) \<and> luaO_rawequalObj (i_key (t_node t ! i)) k"
    and na: "\<And>i. \<not> slot_ok t k (InArray i)"
  shows "get_spec t k (chain_slot t P (mainposition t k))"
proof (rule chain_find_ok [OF table_coreD(3,11) [OF t], of P k])
  fix j
  assume "chain_find (t_node t) P (length (t_node t)) (mainposition t k) = Ok (Some j)"
    and "P (t_node t ! j)" "j < length (t_node t)"
  then show ?thesis using P [of j] by (simp add: get_spec_def chain_slot_def slot_ok_def)
next
  assume none: "chain_find (t_node t) P (length (t_node t)) (mainposition t k) = Ok None"
    and abs: "\<And>j. (nstep (t_node t))\<^sup>*\<^sup>* (mainposition t k) j \<Longrightarrow> \<not> P (t_node t ! j)"
  have "\<not> slot_ok t k (InNode i)" for i
  proof
    assume s: "slot_ok t k (InNode i)"
    then have "mainposition t (i_key (t_node t ! i)) = mainposition t k"
      by (intro mainposition_cong) (simp add: slot_ok_def)
    with s keys_okD(1) [OF table_coreD(4) [OF t], of i] have "(nstep (t_node t))\<^sup>*\<^sup>* (mainposition t k) i"
      by (auto simp: slot_ok_def)
    from abs [OF this] show False using s P [of i] by (auto simp: slot_ok_def)
  qed
  then have "\<not> slot_ok t k s" for s using na by (cases s) auto
  then show ?thesis using none by (simp add: get_spec_def chain_slot_def)
qed

lemma getnum_spec:
  assumes t: "table_core t" and j: "- (2 ^ 31) \<le> j" "j < 2 ^ 31"
  shows "get_spec t (VNum (cast_num j)) (luaH_getnum t j)"
proof -
  have sz: "int (t_sizearray t) \<le> 2 ^ 26" using table_coreD(10) [OF t] by (simp add: MAXASIZE_def MAXBITS_def)
  have m: "(j - 1) mod 2 ^ 32 = (if 1 \<le> j then j - 1 else j - 1 + 2 ^ 32)"
    using j mod_add_self2 [of "j - 1" "2 ^ 32"] mod_pos_pos_trivial [of "j - 1 + 2 ^ 32" "2 ^ 32"] mod_pos_pos_trivial [of "j - 1" "2 ^ 32"]
    by (auto simp: not_le)
  show ?thesis
  proof (cases "(j - 1) mod 2 ^ 32 < int (t_sizearray t)")
    case True
    then have "1 \<le> j" using m sz j by (auto split: if_splits)
    then show ?thesis using True m j by (simp add: luaH_getnum_def get_spec_def slot_ok_def)
  next
    case False
    have "get_spec t (VNum (cast_num j)) (chain_slot t (\<lambda>n. case i_key n of VNum m \<Rightarrow> luai_numeq m (cast_num j) | _ \<Rightarrow> False)
        (mainposition t (VNum (cast_num j))))"
    proof (rule chain_slot_spec [OF t])
      show "(case i_key (t_node t ! i) of VNum m \<Rightarrow> luai_numeq m (cast_num j) | _ \<Rightarrow> False)
          = (proper (i_key (t_node t ! i)) \<and> luaO_rawequalObj (i_key (t_node t ! i)) (VNum (cast_num j)))" for i
        by (auto simp: proper_def split: TValue.split)
      show "\<not> slot_ok t (VNum (cast_num j)) (InArray i)" for i
      proof
        assume "slot_ok t (VNum (cast_num j)) (InArray i)"
        then have i: "arrayindex (VNum (cast_num j)) = int i + 1" "i < t_sizearray t" by (simp_all add: slot_ok_def)
        have "int i + 1 = j"
          using i sz j arrayindex_iff [of "int i + 1" "VNum (cast_num j)"] by (auto simp: cast_num_eq_iff)
        then have "(j - 1) mod 2 ^ 32 = int i" using m by simp
        then show False using False i(2) by linarith
      qed
    qed
    then show ?thesis using False by (simp add: luaH_getnum_def Let_def mainposition_def)
  qed
qed

lemma getstr_spec:
  assumes t: "table_core t"
  shows "get_spec t (VStr s) (luaH_getstr t s)"
proof -
  have "get_spec t (VStr s) (chain_slot t (\<lambda>n. case i_key n of VStr s' \<Rightarrow> s' = s | _ \<Rightarrow> False) (mainposition t (VStr s)))"
  proof (rule chain_slot_spec [OF t])
    show "(case i_key (t_node t ! i) of VStr s' \<Rightarrow> s' = s | _ \<Rightarrow> False)
        = (proper (i_key (t_node t ! i)) \<and> luaO_rawequalObj (i_key (t_node t ! i)) (VStr s))" for i
      by (cases "i_key (t_node t ! i)") (auto simp: proper_def)
  qed (simp add: slot_ok_def arrayindex_def)
  then show ?thesis by (simp add: luaH_getstr_def mainposition_def)
qed

lemma rawequal_proper: "luaO_rawequalObj k k' \<Longrightarrow> proper k' \<Longrightarrow> proper k"
  by (cases k; cases k') (auto simp: proper_def)

lemma get_spec_cong: "luaO_rawequalObj k k' \<Longrightarrow> get_spec t k r = get_spec t k' r"
  using slot_ok_cong [of k k' t] by (simp add: get_spec_def split: option.split)

lemma get_any_spec:
  assumes "table_core t" "proper k" "\<And>i. \<not> slot_ok t k (InArray i)"
  shows "get_spec t k (luaH_get_any t k)"
  unfolding luaH_get_any_def using assms rawequal_proper by (intro chain_slot_spec) auto

lemma luaH_get_spec:
  assumes t: "table_core t" and k: "proper k \<or> k = VNil"
  shows "get_spec t k (luaH_get t k)"
proof (cases k)
  case VNil
  then show ?thesis by (auto simp: luaH_get_def get_spec_def slot_ok_def proper_def arrayindex_def split: slot.split elim!: luaO_rawequalObj.elims)
next
  case (VNum n)
  let ?j = "sint (lua_number2int n)"
  show ?thesis
  proof (cases "luai_numeq (cast_num ?j) n")
    case True
    have "get_spec t (VNum (cast_num ?j)) (luaH_getnum t ?j)"
      using getnum_spec [OF t, of ?j] sint_greater_eq [where 'a=32] sint_less [where 'a=32] by simp
    then show ?thesis using True VNum get_spec_cong [of "VNum (cast_num ?j)" "VNum n" t] by (simp add: luaH_get_def)
  next
    case False
    then have "\<not> slot_ok t k (InArray i)" for i using VNum by (simp add: slot_ok_def arrayindex_def)
    then show ?thesis using False VNum get_any_spec [OF t, of k] by (simp add: luaH_get_def proper_def)
  qed
next
  case (VStr s)
  then show ?thesis using getstr_spec [OF t] by (simp add: luaH_get_def)
qed (use k get_any_spec [OF t, of k] in \<open>simp_all add: luaH_get_def proper_def slot_ok_def arrayindex_def\<close>)

section \<open>Insertion into the node vector\<close>

definition entries :: "Node list \<Rightarrow> (TValue \<times> TValue) set" where
  "entries ns = {(i_key x, i_val x) | x. x \<in> set ns \<and> i_val x \<noteq> VNil}"

lemma entries_iff: "(k, v) \<in> entries ns \<longleftrightarrow> v \<noteq> VNil \<and> (\<exists>i<length ns. i_key (ns ! i) = k \<and> i_val (ns ! i) = v)"
  by (auto simp: entries_def in_set_conv_nth)

lemma holds_iff:
  assumes "table_core t"
  shows "holds t k v \<longleftrightarrow>
     v \<noteq> VNil \<and> ((\<exists>i<t_sizearray t. arrayindex k = int i + 1 \<and> t_array t ! i = v)
       \<or> (\<exists>k'. (k', v) \<in> entries (t_node t) \<and> luaO_rawequalObj k' k))"
    (is "?l = ?r")
proof
  assume ?l
  then obtain s where "v \<noteq> VNil" "slot_ok t k s" "slot_val t s = v" by (auto simp: holds_def)
  then show ?r
    by (cases s) (auto simp: slot_ok_def slot_val_def entries_iff)
next
  assume r: ?r
  have "slot_ok t k (InNode i)" if "i < length (t_node t)" "i_val (t_node t ! i) = v" "luaO_rawequalObj (i_key (t_node t ! i)) k" for i
    using that r keys_okD(5) [OF table_coreD(4) [OF assms], of i] by (auto simp: slot_ok_def)
  moreover have "slot_ok t k (InArray i)" if "i < t_sizearray t" "arrayindex k = int i + 1" for i
    using that by (simp add: slot_ok_def)
  ultimately show ?l using r by (fastforce simp: holds_def slot_val_def entries_iff)
qed

lemma free_node:
  assumes "linked ns" "i_key (ns ! n) = VNil"
  shows "\<not> nstep ns n b" and "\<not> nstep ns b n"
  using assms by (auto simp: linked_def)

lemma free_node_reach:
  assumes "linked ns" "i_key (ns ! n) = VNil" "(nstep ns)\<^sup>*\<^sup>* n i"
  shows "i = n"
  using assms(3) by (cases rule: converse_rtranclpE) (simp_all add: free_node [OF assms(1,2)])

lemma entries_same:
  assumes "length ns' = length ns"
    and "\<And>i. i < length ns \<Longrightarrow> i_val (ns' ! i) = i_val (ns ! i)"
    and "\<And>i. i < length ns \<Longrightarrow> i_val (ns ! i) \<noteq> VNil \<Longrightarrow> i_key (ns' ! i) = i_key (ns ! i)"
  shows "entries ns' = entries ns"
proof -
  have "(k, v) \<in> entries ns' \<longleftrightarrow> (k, v) \<in> entries ns" for k v
    unfolding entries_iff assms(1) using assms(2,3) by metis
  then show ?thesis by auto
qed

text \<open>The premises of an insertion of the key \<open>k\<close> with main position \<open>m\<close>.\<close>

definition ins_pre :: "Node list \<Rightarrow> (TValue \<Rightarrow> nat) \<Rightarrow> TValue \<Rightarrow> nat \<Rightarrow> bool" where
  "ins_pre ns mp k m \<longleftrightarrow> linked ns \<and> keys_ok ns mp \<and> (\<forall>x. mp x < length ns) \<and> m = mp k \<and> proper k \<and>
     (\<forall>n. k = VNum n \<longrightarrow> \<not> luai_numisnan n) \<and> (\<forall>i<length ns. \<not> luaO_rawequalObj (i_key (ns ! i)) k)"

lemma VNil_not_proper [simp]: "\<not> proper VNil"
  by (simp add: proper_def)

lemma insert_main:
  assumes pre: "ins_pre ns mp k m" and v: "i_val (ns ! m) = VNil"
  defines "ns' \<equiv> ns[m := (ns ! m)\<lparr>i_key := k\<rparr>]"
  shows "linked ns' \<and> keys_ok ns' mp \<and> entries ns' = entries ns"
proof -
  have m: "m < length ns" "m = mp k" and k: "proper k" "k \<noteq> VNil"
    using pre by (auto simp: ins_pre_def proper_def)
  have key: "i_key (ns' ! i) = (if i = m then k else i_key (ns ! i))"
    and val: "i_val (ns' ! i) = i_val (ns ! i)" if "i < length ns" for i
    using that v m by (simp_all add: ns'_def nth_list_update)
  have len: "length ns' = length ns" by (simp add: ns'_def)
  have st: "nstep ns' = nstep ns"
    using m by (auto simp: fun_eq_iff nstep_def ns'_def nth_list_update)
  have "linked ns'"
    using pre k unfolding ins_pre_def linked_def st len by (metis key nstep_def)
  moreover have "keys_ok ns' mp"
    unfolding keys_ok_def st len
  proof (intro conjI allI impI)
    fix i assume i: "i < length ns"
    { assume "proper (i_key (ns' ! i))"
      then show "(nstep ns)\<^sup>*\<^sup>* (mp (i_key (ns' ! i))) i"
        using keys_okD(1) [of ns mp i] pre i m by (auto simp: key ins_pre_def) }
    { assume "proper (i_key (ns' ! i))" "proper (i_key (ns' ! mp (i_key (ns' ! i))))"
      then show "mp (i_key (ns' ! mp (i_key (ns' ! i)))) = mp (i_key (ns' ! i))"
        using keys_okD(2) [of ns mp i] pre i m by (auto simp: key ins_pre_def) }
    { fix j assume "j < length ns" "proper (i_key (ns' ! i))" "luaO_rawequalObj (i_key (ns' ! i)) (i_key (ns' ! j))"
      then show "i = j"
        using keys_okD(3) [of ns mp i j] pre i luaO_rawequalObj_sym by (auto simp: key ins_pre_def split: if_splits) }
    { fix n assume "i_key (ns' ! i) = VNum n"
      then show "\<not> luai_numisnan n"
        using keys_okD(4) [of ns mp i n] pre i by (auto simp: key ins_pre_def split: if_splits) }
    { assume "i_val (ns' ! i) \<noteq> VNil"
      then show "proper (i_key (ns' ! i))"
        using keys_okD(5) [of ns mp i] pre i k by (auto simp: key val ins_pre_def) }
  qed
  moreover have "entries ns' = entries ns"
    by (rule entries_same [OF len val]) (use v key in auto)
  ultimately show ?thesis by blast
qed

lemma insert_after:
  assumes pre: "ins_pre ns mp k m" and v: "i_val (ns ! m) \<noteq> VNil" and own: "mp (i_key (ns ! m)) = m"
    and n: "n < length ns" "i_key (ns ! n) = VNil"
    and len: "length ns' = length ns"
    and ns': "\<And>i. i < length ns \<Longrightarrow> ns' ! i = (if i = n then (ns ! n)\<lparr>i_next := i_next (ns ! m), i_key := k\<rparr>
       else if i = m then (ns ! m)\<lparr>i_next := Some n\<rparr> else ns ! i)"
  shows "linked ns' \<and> keys_ok ns' mp \<and> entries ns' = entries ns"
proof -
  have l: "linked ns" and ko: "keys_ok ns mp" and m: "m < length ns" "m = mp k" and k: "proper k" "k \<noteq> VNil"
    using pre by (auto simp: ins_pre_def proper_def)
  have pm: "proper (i_key (ns ! m))" using keys_okD(5) [OF ko m(1) v] .
  then have nm: "n \<noteq> m" using n by auto
  have vn: "i_val (ns ! n) = VNil" using keys_okD(5) [OF ko n(1)] n by auto
  note fn = free_node [OF l n(2)]
  have key: "i_key (ns' ! i) = (if i = n then k else i_key (ns ! i))" 
    and val: "i_val (ns' ! i) = i_val (ns ! i)" if "i < length ns" for i
    using that by (simp_all add: ns')
  have st: "nstep ns' = (\<lambda>a b. if a = n then nstep ns m b else if a = m then b = n else nstep ns a b)"
    using n(1) m(1) nm by (auto simp: fun_eq_iff nstep_def len ns' split: if_splits)
  have c: "chains (nstep ns)" using l by (simp add: linked_def)
  have ch: "chains (nstep ns')"
    unfolding st by (rule chains_insert(1) [OF c fn nm])
  have re: "(nstep ns')\<^sup>*\<^sup>* x y" if "(nstep ns)\<^sup>*\<^sup>* x y" for x y
    unfolding st by (rule chains_insert(2) [OF c fn nm that])
  have main_n: "mp (i_key (ns ! i)) \<noteq> n" if "i < length ns" "proper (i_key (ns ! i))" for i
  proof
    assume eq: "mp (i_key (ns ! i)) = n"
    then have "(nstep ns)\<^sup>*\<^sup>* n i" using keys_okD(1) [OF ko that] by simp
    then have "i = n" by (rule free_node_reach [OF l n(2)])
    then show False using that n by simp
  qed
  have b: "nstep ns a b \<Longrightarrow> b < length ns \<and> i_key (ns ! a) \<noteq> VNil \<and> i_key (ns ! b) \<noteq> VNil" for a b
    using l by (simp add: linked_def)
  have pmk: "i_key (ns ! m) \<noteq> VNil" using pm by auto
  have "\<forall>a b. nstep ns' a b \<longrightarrow> b < length ns' \<and> i_key (ns' ! a) \<noteq> VNil \<and> i_key (ns' ! b) \<noteq> VNil"
  proof (intro allI impI)
    fix a b' assume ab: "nstep ns' a b'"
    then have "a < length ns" by (simp add: nstep_def len)
    with ab show "b' < length ns' \<and> i_key (ns' ! a) \<noteq> VNil \<and> i_key (ns' ! b') \<noteq> VNil"
      using b [of a b'] b [of m b'] n k pmk unfolding st len by (auto simp: key split: if_splits)
  qed
  then have "linked ns'" using ch by (simp add: linked_def)
  moreover have "keys_ok ns' mp"
    unfolding keys_ok_def len
  proof (intro conjI allI impI)
    fix i assume i: "i < length ns"
    { assume p: "proper (i_key (ns' ! i))"
      show "(nstep ns')\<^sup>*\<^sup>* (mp (i_key (ns' ! i))) i"
      proof (cases "i = n")
        case True
        have "nstep ns' m n" using nm by (simp add: st)
        then show ?thesis using True n m by (simp add: key)
      next
        case False
        then show ?thesis using re keys_okD(1) [OF ko i] p i by (simp add: key)
      qed }
    { assume p: "proper (i_key (ns' ! i))" "proper (i_key (ns' ! mp (i_key (ns' ! i))))"
      show "mp (i_key (ns' ! mp (i_key (ns' ! i)))) = mp (i_key (ns' ! i))"
      proof (cases "i = n")
        case True
        then show ?thesis using n m nm own by (simp add: key)
      next
        case False
        then have pi: "proper (i_key (ns ! i))" using p i by (simp add: key)
        have "mp (i_key (ns ! i)) < length ns" using pre by (simp add: ins_pre_def)
        then show ?thesis using False i p main_n [OF i pi] keys_okD(2) [OF ko i pi] by (simp add: key)
      qed }
    { fix j assume "j < length ns" "proper (i_key (ns' ! i))" "luaO_rawequalObj (i_key (ns' ! i)) (i_key (ns' ! j))"
      then show "i = j"
        using keys_okD(3) [OF ko i, of j] pre i luaO_rawequalObj_sym by (auto simp: key ins_pre_def split: if_splits) }
    { fix x assume "i_key (ns' ! i) = VNum x"
      then show "\<not> luai_numisnan x"
        using keys_okD(4) [OF ko i, of x] pre i by (auto simp: key ins_pre_def split: if_splits) }
    { assume "i_val (ns' ! i) \<noteq> VNil"
      then show "proper (i_key (ns' ! i))"
        using keys_okD(5) [OF ko i] i k by (auto simp: key val) }
  qed
  moreover have "entries ns' = entries ns"
    by (rule entries_same [OF len val]) (use vn key in auto)
  ultimately show ?thesis by blast
qed

lemma insert_move:
  assumes pre: "ins_pre ns mp k m" and v: "i_val (ns ! m) \<noteq> VNil" and other: "mp (i_key (ns ! m)) \<noteq> m"
    and n: "n < length ns" "i_key (ns ! n) = VNil" and q: "nstep ns q m"
    and len: "length ns' = length ns"
    and ns': "\<And>i. i < length ns \<Longrightarrow> ns' ! i = (if i = m then \<lparr>i_val = VNil, i_key = k, i_next = None\<rparr>
       else if i = n then ns ! m else if i = q then (ns ! q)\<lparr>i_next := Some n\<rparr> else ns ! i)"
  shows "linked ns' \<and> keys_ok ns' mp \<and> entries ns' = entries ns"
proof -
  have l: "linked ns" and ko: "keys_ok ns mp" and m: "m < length ns" "m = mp k" and k: "proper k" "k \<noteq> VNil"
    using pre by (auto simp: ins_pre_def proper_def)
  have pm: "proper (i_key (ns ! m))" using keys_okD(5) [OF ko m(1) v] .
  then have nm: "n \<noteq> m" using n by auto
  have vn: "i_val (ns ! n) = VNil" using keys_okD(5) [OF ko n(1)] n by auto
  note fn = free_node [OF l n(2)]
  have c: "chains (nstep ns)" using l by (simp add: linked_def)
  have qn: "q \<noteq> n" "q \<noteq> m" and ql: "q < length ns" using q fn chainsD(3) [OF c] by (auto simp: nstep_def)
  have key: "i_key (ns' ! i) = (if i = m then k else if i = n then i_key (ns ! m) else i_key (ns ! i))" 
    and val: "i_val (ns' ! i) = (if i = m then VNil else if i = n then i_val (ns ! m) else i_val (ns ! i))" if "i < length ns" for i
    using that by (simp_all add: ns')
  have st: "nstep ns' = (\<lambda>a b. if a = m then False else if a = n then nstep ns m b else if a = q then b = n else nstep ns a b)"
    using n(1) m(1) ql nm qn by (auto simp: fun_eq_iff nstep_def len ns' split: if_splits)
  have ch: "chains (nstep ns')"
    unfolding st by (rule chains_move(1) [OF c q fn nm])
  have re: "(nstep ns')\<^sup>*\<^sup>* (if x = m then n else x) (if y = m then n else y)" if "(nstep ns)\<^sup>*\<^sup>* x y" for x y
    unfolding st by (rule chains_move(2) [OF c q fn nm that])
  have main_n: "mp (i_key (ns ! i)) \<noteq> n" if "i < length ns" "proper (i_key (ns ! i))" for i
  proof
    assume eq: "mp (i_key (ns ! i)) = n"
    then have "(nstep ns)\<^sup>*\<^sup>* n i" using keys_okD(1) [OF ko that] by simp
    then have "i = n" by (rule free_node_reach [OF l n(2)])
    then show False using that n by simp
  qed
  have main_m: "mp (i_key (ns ! i)) \<noteq> m" if "i < length ns" "proper (i_key (ns ! i))" for i
    using keys_okD(2) [OF ko that] pm other by auto
  have b: "nstep ns a b \<Longrightarrow> b < length ns \<and> i_key (ns ! a) \<noteq> VNil \<and> i_key (ns ! b) \<noteq> VNil" for a b
    using l by (simp add: linked_def)
  have pmk: "i_key (ns ! m) \<noteq> VNil" using pm by auto
  have "\<forall>a b. nstep ns' a b \<longrightarrow> b < length ns' \<and> i_key (ns' ! a) \<noteq> VNil \<and> i_key (ns' ! b) \<noteq> VNil"
  proof (intro allI impI)
    fix a b' assume ab: "nstep ns' a b'"
    then have "a < length ns" by (simp add: nstep_def len)
    with ab show "b' < length ns' \<and> i_key (ns' ! a) \<noteq> VNil \<and> i_key (ns' ! b') \<noteq> VNil"
      using b [of a b'] b [of m b'] b [OF q] n k pmk unfolding st len by (auto simp: key split: if_splits)
  qed
  then have "linked ns'" using ch by (simp add: linked_def)
  moreover have "keys_ok ns' mp"
    unfolding keys_ok_def len
  proof (intro conjI allI impI)
    fix i assume i: "i < length ns"
    define j where "j = (if i = n then m else i)"
    have kj: "i \<noteq> m \<Longrightarrow> i_key (ns' ! i) = i_key (ns ! j)" and jl: "j < length ns"
      using i m by (simp_all add: key j_def)
    { assume p: "proper (i_key (ns' ! i))"
      show "(nstep ns')\<^sup>*\<^sup>* (mp (i_key (ns' ! i))) i"
      proof (cases "i = m")
        case True
        then show ?thesis using m by (simp add: key)
      next
        case False
        have "(nstep ns)\<^sup>*\<^sup>* (mp (i_key (ns ! j))) j" "mp (i_key (ns ! j)) \<noteq> m"
          using keys_okD(1) [OF ko jl] main_m [OF jl] p kj False by simp_all
        from re [OF this(1)] this(2) show ?thesis using False kj by (simp add: j_def split: if_splits)
      qed }
    { assume p: "proper (i_key (ns' ! i))" "proper (i_key (ns' ! mp (i_key (ns' ! i))))"
      show "mp (i_key (ns' ! mp (i_key (ns' ! i)))) = mp (i_key (ns' ! i))"
      proof (cases "i = m")
        case True
        then show ?thesis using m by (simp add: key)
      next
        case False
        have pj: "proper (i_key (ns ! j))" using p kj False by simp
        have "mp (i_key (ns ! j)) < length ns" using pre by (simp add: ins_pre_def)
        then show ?thesis using False kj p main_m [OF jl pj] main_n [OF jl pj] keys_okD(2) [OF ko jl pj] by (simp add: key)
      qed }
    { fix i' assume i': "i' < length ns" and p: "proper (i_key (ns' ! i))" "luaO_rawequalObj (i_key (ns' ! i)) (i_key (ns' ! i'))"
      have nk: "\<not> luaO_rawequalObj (i_key (ns ! x)) k" "\<not> luaO_rawequalObj k (i_key (ns ! x))" if "x < length ns" for x
        using pre that luaO_rawequalObj_sym by (auto simp: ins_pre_def)
      define j' where "j' = (if i' = n then m else i')"
      have kj': "i' \<noteq> m \<Longrightarrow> i_key (ns' ! i') = i_key (ns ! j')" and jl': "j' < length ns"
        using i' m by (simp_all add: key j'_def)
      show "i = i'"
      proof (cases "i = m \<or> i' = m")
        case True
        have km: "i_key (ns' ! m) = k" using m(1) by (simp add: key)
        show ?thesis
        proof (rule ccontr)
          assume "i \<noteq> i'"
          with True consider "i = m" "i' \<noteq> m" | "i' = m" "i \<noteq> m" by blast
          then show False
            by cases (use p(2) km kj kj' nk [OF jl] nk [OF jl'] in simp_all)
        qed
      next
        case False
        then have "j = j'" using keys_okD(3) [OF ko jl jl'] kj kj' p by simp
        then show ?thesis using False by (simp add: j_def j'_def split: if_splits)
      qed }
    { fix x assume "i_key (ns' ! i) = VNum x"
      then show "\<not> luai_numisnan x"
        using keys_okD(4) [OF ko jl, of x] pre kj m by (cases "i = m") (auto simp: key ins_pre_def) }
    { assume "i_val (ns' ! i) \<noteq> VNil"
      then show "proper (i_key (ns' ! i))"
        using keys_okD(5) [OF ko i] i k pm by (auto simp: key val split: if_splits) }
  qed
  moreover have "entries ns' = entries ns"
  proof -
    have "(x, y) \<in> entries ns' \<longleftrightarrow> (x, y) \<in> entries ns" for x y
    proof
      assume "(x, y) \<in> entries ns'"
      then obtain i where "i < length ns" "i_key (ns' ! i) = x" "i_val (ns' ! i) = y" "y \<noteq> VNil"
        by (auto simp: entries_iff len)
      then show "(x, y) \<in> entries ns" using m
        unfolding entries_iff by (intro conjI exI [of _ "if i = n then m else i"]) (auto simp: key val split: if_splits)
    next
      assume "(x, y) \<in> entries ns"
      then obtain i where "i < length ns" "i_key (ns ! i) = x" "i_val (ns ! i) = y" "y \<noteq> VNil"
        by (auto simp: entries_iff)
      then show "(x, y) \<in> entries ns'" using n nm vn
        unfolding entries_iff len by (intro conjI exI [of _ "if i = m then n else i"]) (auto simp: key val split: if_splits)
    qed
    then show ?thesis by auto
  qed
  ultimately show ?thesis by blast
qed

section \<open>Insertion of a key where a node is free\<close>

definition nkeys :: "Node list \<Rightarrow> nat" where
  "nkeys ns = card {i. i < length ns \<and> i_key (ns ! i) \<noteq> VNil}"

lemma nkeys_Suc:
  assumes "length ns' = length ns" "\<And>i. i < length ns \<Longrightarrow> i \<noteq> x \<Longrightarrow> i_key (ns' ! i) \<noteq> VNil \<Longrightarrow> i_key (ns ! i) \<noteq> VNil"
  shows "nkeys ns' \<le> Suc (nkeys ns)"
proof -
  let ?K = "{i. i < length ns \<and> i_key (ns ! i) \<noteq> VNil}"
  have "nkeys ns' \<le> card (insert x ?K)"
    unfolding nkeys_def by (rule card_mono) (use assms in auto)
  also have "\<dots> \<le> Suc (card ?K)" by (simp add: card_insert_if)
  finally show ?thesis by (simp add: nkeys_def)
qed

lemma nkeys_free:
  assumes "nkeys ns < length ns"
  shows "\<exists>i<length ns. i_key (ns ! i) = VNil"
proof (rule ccontr)
  assume "\<not> ?thesis"
  then have "{i. i < length ns \<and> i_key (ns ! i) \<noteq> VNil} = {..<length ns}" by auto
  then show False using assms by (simp add: nkeys_def)
qed

lemma getfreepos_loop_spec:
  assumes "lf \<le> int (length ns)" "\<And>i. i < length ns \<Longrightarrow> lf \<le> int i \<Longrightarrow> i_key (ns ! i) \<noteq> VNil"
    and "\<exists>i<length ns. i_key (ns ! i) = VNil"
  shows "\<exists>n. getfreepos_loop ns lf = (int n, Some n) \<and> n < length ns \<and> i_key (ns ! n) = VNil
    \<and> (\<forall>i<length ns. n < i \<longrightarrow> i_key (ns ! i) \<noteq> VNil)"
  using assms
proof (induction ns lf rule: getfreepos_loop.induct)
  case (1 ns lf)
  obtain j where j: "j < length ns" "i_key (ns ! j) = VNil" using "1.prems"(3) by blast
  then have pos: "0 < lf" using "1.prems"(2) [of j] by force
  show ?case
  proof (cases "i_key (ns ! nat (lf - 1)) = VNil")
    case True
    have "lf \<le> int i" if "nat (lf - 1) < i" for i using that by linarith
    then show ?thesis
      using True pos "1.prems"(1,2) by (intro exI [of _ "nat (lf - 1)"]) (auto simp: getfreepos_loop.simps [of ns lf])
  next
    case False
    have "i_key (ns ! i) \<noteq> VNil" if "i < length ns" "lf - 1 \<le> int i" for i
    proof (cases "int i = lf - 1")
      case True
      then have "nat (lf - 1) = i" by linarith
      with False show ?thesis by simp
    qed (use that "1.prems"(2) [of i] in auto)
    then have "\<exists>n. getfreepos_loop ns (lf - 1) = (int n, Some n) \<and> n < length ns \<and> i_key (ns ! n) = VNil
      \<and> (\<forall>i<length ns. n < i \<longrightarrow> i_key (ns ! i) \<noteq> VNil)"
      using "1.IH" [OF pos False] "1.prems"(1,3) by simp
    then show ?thesis using False pos by (simp add: getfreepos_loop.simps [of ns lf])
  qed
qed

text \<open>What an insertion of \<open>k\<close> with the place \<open>s\<close> does to the rest of the table.\<close>

definition same_shape :: "Table \<Rightarrow> Table \<Rightarrow> bool" where
  "same_shape t t' \<longleftrightarrow> t_array t' = t_array t \<and> t_sizearray t' = t_sizearray t \<and> t_lsizenode t' = t_lsizenode t
     \<and> t_isdummy t' = t_isdummy t \<and> t_metatable t' = t_metatable t"

definition ins_ok :: "Table \<Rightarrow> TValue \<Rightarrow> Table \<Rightarrow> slot \<Rightarrow> bool" where
  "ins_ok t k t' s \<longleftrightarrow> table_core t' \<and> slot_ok t' k s \<and> (\<forall>k' v. holds t' k' v = holds t k' v) \<and>
     same_shape t t' \<and> nkeys (t_node t') \<le> Suc (nkeys (t_node t))"

definition no_nan :: "TValue \<Rightarrow> bool" where
  "no_nan k \<longleftrightarrow> (\<forall>n. k = VNum n \<longrightarrow> \<not> luai_numisnan n)"

lemma core_insert:
  assumes t: "table_core t" and d: "\<not> t_isdummy t"
    and l: "linked ns' \<and> keys_ok ns' (mainposition t) \<and> entries ns' = entries (t_node t)"
    and len: "length ns' = length (t_node t)"
    and lf: "lf \<le> int (length ns')" "\<And>i. i < length ns' \<Longrightarrow> lf \<le> int i \<Longrightarrow> i_key (ns' ! i) \<noteq> VNil"
    and keys: "\<And>i. i < length ns' \<Longrightarrow> i_key (ns' ! i) = k \<or> (\<exists>j<length ns'. i_key (ns' ! i) = i_key (t_node t ! j))"
    and one: "\<And>i. i < length ns' \<Longrightarrow> i \<noteq> x \<Longrightarrow> i_key (ns' ! i) \<noteq> VNil \<Longrightarrow> i_key (t_node t ! i) \<noteq> VNil"
    and na: "\<And>i. \<not> slot_ok t k (InArray i)"
    and p: "p < length ns'" "i_key (ns' ! p) = k" and k: "proper k" "no_nan k"
  shows "ins_ok t k (t\<lparr>t_node := ns', t_lastfree := lf\<rparr>) (InNode p)"
proof -
  let ?t' = "t\<lparr>t_node := ns', t_lastfree := lf\<rparr>"
  have mp: "mainposition ?t' = mainposition t" by (rule mainposition_lsize) simp
  have ka: "\<not> (0 < arrayindex k \<and> arrayindex k \<le> int (t_sizearray t))"
  proof
    assume "0 < arrayindex k \<and> arrayindex k \<le> int (t_sizearray t)"
    then show False using na [of "nat (arrayindex k) - 1"] by (simp add: slot_ok_def) linarith
  qed
  have "\<not> (0 < arrayindex (i_key (ns' ! i)) \<and> arrayindex (i_key (ns' ! i)) \<le> int (t_sizearray t))" if "i < length ns'" for i
    using keys [OF that] ka table_coreD(8) [OF t] len by fastforce
  then have core: "table_core ?t'"
    using t d l lf len by (simp add: table_core_def mp sizenode_def)
  moreover have "slot_ok ?t' k (InNode p)"
    using p k by (simp add: slot_ok_def luaO_rawequalObj_refl no_nan_def)
  moreover have "holds ?t' k' v = holds t k' v" for k' v
    using l by (simp add: holds_iff [OF core] holds_iff [OF t])
  moreover have "nkeys ns' \<le> Suc (nkeys (t_node t))"
    using nkeys_Suc [of ns' "t_node t" x] len one by simp
  ultimately show ?thesis by (simp add: ins_ok_def same_shape_def)
qed

lemma newkey_free:
  assumes t: "table_core t" and new: "\<And>s. \<not> slot_ok t k s" and k: "proper k" "no_nan k"
    and d: "\<not> t_isdummy t"
    and free: "i_val (t_node t ! mainposition t k) = VNil \<or> (\<exists>i<length (t_node t). i_key (t_node t ! i) = VNil)"
  shows "\<exists>t' s. newkey_body nk t k = Ok (t', s) \<and> ins_ok t k t' s \<and> t_flags t' = t_flags t"
proof -
  let ?ns = "t_node t" and ?m = "mainposition t k"
  have l: "linked ?ns" and ko: "keys_ok ?ns (mainposition t)" using table_coreD [OF t] by blast+
  have ml: "?m < length ?ns" by (rule table_coreD(11) [OF t])
  have kn: "k \<noteq> VNil" using k by auto
  have pre: "ins_pre ?ns (mainposition t) k ?m"
    unfolding ins_pre_def
  proof (intro conjI allI impI)
    fix i assume "i < length ?ns"
    then show "\<not> luaO_rawequalObj (i_key (?ns ! i)) k"
      using new [of "InNode i"] rawequal_proper k by (auto simp: slot_ok_def)
  qed (use l ko k table_coreD(11) [OF t] in \<open>auto simp: no_nan_def\<close>)
  show ?thesis
  proof (cases "i_val (?ns ! ?m) = VNil")
    case True
    let ?ns' = "?ns[?m := (?ns ! ?m)\<lparr>i_key := k\<rparr>]"
    have "ins_ok t k (t\<lparr>t_node := ?ns', t_lastfree := t_lastfree t\<rparr>) (InNode ?m)"
    proof (rule core_insert [OF t d insert_main [OF pre True]])
      show "i_key (?ns' ! i) = k \<or> (\<exists>j<length ?ns'. i_key (?ns' ! i) = i_key (?ns ! j))" if "i < length ?ns'" for i
        using that by (cases "i = ?m") auto
      show "i_key (?ns' ! i) \<noteq> VNil" if "i < length ?ns'" "t_lastfree t \<le> int i" for i
        using that table_coreD(6) [OF t d, of i] kn by (cases "i = ?m") auto
      show "i_key (?ns ! i) \<noteq> VNil" if "i \<noteq> ?m" "i_key (?ns' ! i) \<noteq> VNil" for i
        using that by simp
    qed (use table_coreD(7) [OF t] ml new k in auto)
    then show ?thesis using True d by (simp add: newkey_body_def Let_def upd_node_def)
  next
    case v: False
    with free have free: "\<exists>i<length ?ns. i_key (?ns ! i) = VNil" by blast
    obtain n where n: "getfreepos_loop ?ns (t_lastfree t) = (int n, Some n)" "n < length ?ns" "i_key (?ns ! n) = VNil"
      and lf: "\<forall>i<length ?ns. n < i \<longrightarrow> i_key (?ns ! i) \<noteq> VNil"
      using getfreepos_loop_spec [OF table_coreD(7) [OF t] table_coreD(6) [OF t d] free] by blast
    have pm: "proper (i_key (?ns ! ?m))" using keys_okD(5) [OF ko ml v] .
    then have nm: "n \<noteq> ?m" using n(3) by auto
    have mp: "mainposition (t\<lparr>t_lastfree := x\<rparr>) = mainposition t" for x by (rule mainposition_lsize) simp
    show ?thesis
    proof (cases "mainposition t (i_key (?ns ! ?m)) = ?m")
      case own: True
      define ns' where "ns' = ((?ns[n := (?ns ! n)\<lparr>i_next := i_next (?ns ! ?m)\<rparr>])[?m := (?ns ! ?m)\<lparr>i_next := Some n\<rparr>])
         [n := (?ns ! n)\<lparr>i_next := i_next (?ns ! ?m), i_key := k\<rparr>]"
      have len: "length ns' = length ?ns" by (simp add: ns'_def)
      have nth: "ns' ! i = (if i = n then (?ns ! n)\<lparr>i_next := i_next (?ns ! ?m), i_key := k\<rparr>
         else if i = ?m then (?ns ! ?m)\<lparr>i_next := Some n\<rparr> else ?ns ! i)" if "i < length ?ns" for i
        using that n ml nm by (simp add: ns'_def)
      have "ins_ok t k (t\<lparr>t_node := ns', t_lastfree := int n\<rparr>) (InNode n)"
      proof (rule core_insert [OF t d insert_after [OF pre v own n(2,3) len nth] len])
        show "i_key (ns' ! i) = k \<or> (\<exists>j<length ns'. i_key (ns' ! i) = i_key (?ns ! j))" if "i < length ns'" for i
          using that nth [of i] ml len by auto
        show "i_key (ns' ! i) \<noteq> VNil" if "i < length ns'" "int n \<le> int i" for i
          using that lf kn nth [of i] len by auto
        show "i_key (?ns ! i) \<noteq> VNil" if "i < length ns'" "i \<noteq> n" "i_key (ns' ! i) \<noteq> VNil" for i
          using that nth [of i] len by (auto split: if_splits)
      qed (use n new k nth len in auto)
      moreover have "newkey_body nk t k = Ok (t\<lparr>t_node := ns', t_lastfree := int n\<rparr>, InNode n)"
        using v own n nm ml d
        by (simp add: newkey_body_def Let_def getfreepos_def mp upd_node_def ns'_def list_update_swap)
      ultimately show ?thesis by (intro exI [of _ "t\<lparr>t_node := ns', t_lastfree := int n\<rparr>"] exI [of _ "InNode n"]) simp
    next
      case other: False
      let ?o = "mainposition t (i_key (?ns ! ?m))"
      have "(nstep ?ns)\<^sup>*\<^sup>* ?o ?m" using keys_okD(1) [OF ko ml pm] .
      from find_previous_ok [OF l table_coreD(11) [OF t] this other]
      obtain q where q: "find_previous ?ns ?m (length ?ns) ?o = Ok q" "nstep ?ns q ?m" by blast
      have ql: "q < length ?ns" using q by (simp add: nstep_def)
      have qn: "q \<noteq> n" using free_node [OF l n(3)] q by blast
      have qm: "q \<noteq> ?m" using q chainsD(3) [of "nstep ?ns"] l by (auto simp: linked_def)
      define ns' where "ns' = ((?ns[q := (?ns ! q)\<lparr>i_next := Some n\<rparr>])[n := ?ns ! ?m])[?m := (?ns ! ?m)\<lparr>i_next := None, i_val := VNil, i_key := k\<rparr>]"
      have len: "length ns' = length ?ns" by (simp add: ns'_def)
      have nth: "ns' ! i = (if i = ?m then \<lparr>i_val = VNil, i_key = k, i_next = None\<rparr>
         else if i = n then ?ns ! ?m else if i = q then (?ns ! q)\<lparr>i_next := Some n\<rparr> else ?ns ! i)" if "i < length ?ns" for i
        using that n ml nm by (simp add: ns'_def)
      have "ins_ok t k (t\<lparr>t_node := ns', t_lastfree := int n\<rparr>) (InNode ?m)"
      proof (rule core_insert [OF t d insert_move [OF pre v other n(2,3) q(2) len nth] len])
        show "i_key (ns' ! i) = k \<or> (\<exists>j<length ns'. i_key (ns' ! i) = i_key (?ns ! j))" if "i < length ns'" for i
          using that nth [of i] ml len by auto
        show "i_key (ns' ! i) \<noteq> VNil" if "i < length ns'" "int n \<le> int i" for i
          using that lf kn nth [of i] pm len by (auto split: if_splits)
        show "i_key (?ns ! i) \<noteq> VNil" if "i < length ns'" "i \<noteq> n" "i_key (ns' ! i) \<noteq> VNil" for i
          using that nth [of i] pm len by (auto split: if_splits)
      qed (use n new k nth len ml in auto)
      moreover have "newkey_body nk t k = Ok (t\<lparr>t_node := ns', t_lastfree := int n\<rparr>, InNode ?m)"
        using v other n nm ml d q qn qm ql
        by (simp add: newkey_body_def Let_def getfreepos_def mp upd_node_def ns'_def)
      ultimately show ?thesis by (intro exI [of _ "t\<lparr>t_node := ns', t_lastfree := int n\<rparr>"] exI [of _ "InNode ?m"]) simp
    qed
  qed
qed

end
