(* ===== verification/LuaTableResize.thy ===== *)
theory LuaTableResize
  imports LuaTableInv
begin

text \<open>
  Growing a Lua table: a store through the place of a key, insertion where a node is free,
  \<open>resize\<close> (both parts get their new size and every entry is inserted again), the counting of
  the integer keys and the choice of the size of the array part, \<open>rehash\<close>, and with them
  \<open>luaH_set\<close>: after a store the table holds the new value under the key and is unchanged
  elsewhere. An insertion made by \<open>resize\<close> always finds a free node, which is why the depth 2
  of \<open>newkey\<close> is enough.
\<close>

section \<open>Stores\<close>

lemma flags_irrelevant [simp]:
  "table_core (t\<lparr>t_flags := f\<rparr>) = table_core t" "slot_ok (t\<lparr>t_flags := f\<rparr>) = slot_ok t"
  "holds (t\<lparr>t_flags := f\<rparr>) = holds t" "mainposition (t\<lparr>t_flags := f\<rparr>) = mainposition t"
proof -
  show m: "mainposition (t\<lparr>t_flags := f\<rparr>) = mainposition t" by (rule mainposition_lsize) simp
  show "table_core (t\<lparr>t_flags := f\<rparr>) = table_core t" by (simp add: table_core_def m sizenode_def)
  show s: "slot_ok (t\<lparr>t_flags := f\<rparr>) = slot_ok t" by (simp add: fun_eq_iff slot_ok_def split: slot.split)
  have "slot_val (t\<lparr>t_flags := f\<rparr>) = slot_val t" by (simp add: fun_eq_iff slot_val_def split: slot.split)
  then show "holds (t\<lparr>t_flags := f\<rparr>) = holds t" by (simp add: fun_eq_iff holds_def s)
qed

lemma slot_ok_rawequal:
  assumes "table_core t" "slot_ok t k s" "slot_ok t k' s"
  shows "luaO_rawequalObj k k'"
proof (cases s)
  case (InArray i)
  have "int i + 1 < 2 ^ 31"
    using InArray assms(2) table_coreD(10) [OF assms(1)] by (simp add: slot_ok_def MAXASIZE_def MAXBITS_def)
  then show ?thesis
    using InArray assms(2,3) arrayindex_iff [of "int i + 1" k] arrayindex_iff [of "int i + 1" k'] luaO_rawequalObj_sym luaO_rawequalObj_trans
    by (simp add: slot_ok_def) blast
next
  case (InNode i)
  then show ?thesis using assms luaO_rawequalObj_sym luaO_rawequalObj_trans by (simp add: slot_ok_def) blast
qed

lemma nstep_cong: "length ns' = length ns \<Longrightarrow> (\<And>i. i < length ns \<Longrightarrow> i_next (ns' ! i) = i_next (ns ! i)) \<Longrightarrow> nstep ns' = nstep ns"
  by (auto simp: fun_eq_iff nstep_def)

lemma slot_set_shape [simp]:
  "t_sizearray (slot_set t s v) = t_sizearray t" "t_lsizenode (slot_set t s v) = t_lsizenode t"
  "t_isdummy (slot_set t s v) = t_isdummy t" "t_metatable (slot_set t s v) = t_metatable t"
  "t_flags (slot_set t s v) = t_flags t" "length (t_array (slot_set t s v)) = length (t_array t)"
  "length (t_node (slot_set t s v)) = length (t_node t)" "t_lastfree (slot_set t s v) = t_lastfree t"
  by (simp_all add: slot_set_def split: slot.split)

lemma slot_set_key [simp]:
  "i < length (t_node t) \<Longrightarrow> i_key (t_node (slot_set t s v) ! i) = i_key (t_node t ! i)"
  "i < length (t_node t) \<Longrightarrow> i_next (t_node (slot_set t s v) ! i) = i_next (t_node t ! i)"
  by (cases s; case_tac "x2 = i"; simp add: slot_set_def)+

lemma slot_ok_slot_set [simp]: "slot_ok (slot_set t s v) k s' = slot_ok t k s'"
  by (cases s') (auto simp: slot_ok_def)

lemma nkeys_slot_set [simp]: "nkeys (t_node (slot_set t s v)) = nkeys (t_node t)"
  unfolding nkeys_def slot_set_shape by (rule arg_cong [of _ _ card]) auto

text \<open>A store through the place of a key.\<close>

lemma slot_set_core:
  assumes t: "table_core t" and s: "slot_ok t k s"
  shows "table_core (slot_set t s v)"
proof -
  let ?t' = "slot_set t s v"
  have mp: "mainposition ?t' = mainposition t" by (rule mainposition_lsize) simp
  have st: "nstep (t_node ?t') = nstep (t_node t)" by (rule nstep_cong) simp_all
  have bnd: "nstep (t_node t) a b \<Longrightarrow> a < length (t_node t) \<and> b < length (t_node t)" for a b
    using table_coreD(3) [OF t] by (auto simp: linked_def nstep_def)
  have "linked (t_node ?t')"
    using table_coreD(3) [OF t] bnd unfolding linked_def st by (metis slot_set_key(1) slot_set_shape(7))
  moreover have "keys_ok (t_node ?t') (mainposition ?t')"
    unfolding keys_ok_def st mp slot_set_shape
  proof (intro conjI allI impI)
    fix i assume i: "i < length (t_node t)"
    note ko = table_coreD(4) [OF t]
    { assume "proper (i_key (t_node ?t' ! i))"
      then show "(nstep (t_node t))\<^sup>*\<^sup>* (mainposition t (i_key (t_node ?t' ! i))) i"
        using keys_okD(1) [OF ko i] i by simp }
    { assume "proper (i_key (t_node ?t' ! i))" "proper (i_key (t_node ?t' ! mainposition t (i_key (t_node ?t' ! i))))"
      then show "mainposition t (i_key (t_node ?t' ! mainposition t (i_key (t_node ?t' ! i)))) = mainposition t (i_key (t_node ?t' ! i))"
        using keys_okD(2) [OF ko i] i table_coreD(11) [OF t] by simp }
    { fix j assume "j < length (t_node t)" "proper (i_key (t_node ?t' ! i))" "luaO_rawequalObj (i_key (t_node ?t' ! i)) (i_key (t_node ?t' ! j))"
      then show "i = j" using keys_okD(3) [OF ko i, of j] i by simp }
    { fix n assume "i_key (t_node ?t' ! i) = VNum n"
      then show "\<not> luai_numisnan n" using keys_okD(4) [OF ko i, of n] i by simp }
    { assume "i_val (t_node ?t' ! i) \<noteq> VNil"
      then show "proper (i_key (t_node ?t' ! i))"
        using keys_okD(5) [OF ko i] i s by (auto simp: slot_set_def slot_ok_def nth_list_update split: slot.splits if_splits) }
  qed
  moreover have "t_isdummy t \<Longrightarrow> t_node ?t' = [empty_node]"
    using table_coreD(5) [OF t] s by (auto simp: slot_set_def slot_ok_def empty_node_def split: slot.split)
  ultimately show ?thesis
    using t unfolding table_core_def sizenode_def by auto
qed

lemma slot_set_holds:
  assumes t: "table_core t" and s: "slot_ok t k s" "s' = s"
  shows "holds (slot_set t s v) k' w \<longleftrightarrow> (if luaO_rawequalObj k k' then w = v \<and> w \<noteq> VNil else holds t k' w)"
proof -
  have new: "slot_val (slot_set t s v) s = v"
    using s table_coreD(9) [OF t] by (auto simp: slot_val_def slot_set_def slot_ok_def split: slot.splits)
  have old: "slot_val (slot_set t s v) s' = slot_val t s'" if "s' \<noteq> s" "slot_ok t k' s'" for s'
    using that by (cases s; cases s') (auto simp: slot_val_def slot_set_def slot_ok_def nth_list_update)
  show ?thesis
  proof (cases "luaO_rawequalObj k k'")
    case True
    then have "slot_ok t k' s" using s slot_ok_cong by blast
    then show ?thesis using True new slot_ok_unique [OF t] by (auto simp: holds_def)
  next
    case False
    then have "\<not> slot_ok t k' s" using s slot_ok_rawequal [OF t] by blast
    then show ?thesis using False old unfolding holds_def slot_ok_slot_set by (metis (full_types))
  qed
qed

lemma slot_set_array:
  "slot_ok t k s \<Longrightarrow> t_sizearray t \<le> i \<Longrightarrow> t_array (slot_set t s v) ! i = t_array t ! i"
  by (auto simp: slot_set_def slot_ok_def split: slot.splits)

section \<open>Set without growing\<close>

definition in_array :: "nat \<Rightarrow> TValue \<Rightarrow> bool" where
  "in_array n k \<longleftrightarrow> 0 < arrayindex k \<and> arrayindex k \<le> int n"

lemma in_array_slot: "in_array (t_sizearray t) k \<Longrightarrow> slot_ok t k (InArray (nat (arrayindex k) - 1))"
  by (auto simp: in_array_def slot_ok_def)

text \<open>Storing \<open>v\<close> under \<open>k\<close>: what it does to the entries and the shape of the table.\<close>

definition put_ok :: "Table \<Rightarrow> TValue \<Rightarrow> TValue \<Rightarrow> Table \<Rightarrow> bool" where
  "put_ok t k v t' \<longleftrightarrow> table_core t' \<and>
     (\<forall>k' w. holds t' k' w \<longleftrightarrow> (if luaO_rawequalObj k k' then w = v \<and> w \<noteq> VNil else holds t k' w)) \<and>
     t_sizearray t' = t_sizearray t \<and> length (t_array t') = length (t_array t) \<and>
     (\<forall>i\<ge>t_sizearray t. t_array t' ! i = t_array t ! i) \<and>
     t_lsizenode t' = t_lsizenode t \<and> t_isdummy t' = t_isdummy t \<and> t_metatable t' = t_metatable t \<and>
     nkeys (t_node t') \<le> nkeys (t_node t) + (if in_array (t_sizearray t) k then 0 else 1)"

lemma put_slot:
  assumes "table_core t" "slot_ok t k s"
  shows "put_ok t k v (slot_set t s v)"
  unfolding put_ok_def
  using slot_set_core [OF assms] slot_set_holds [OF assms refl] slot_set_array [OF assms(2)] by simp

lemma put_new:
  assumes "ins_ok t k t' s" "\<not> in_array (t_sizearray t) k"
  shows "put_ok t k v (slot_set t' s v)"
proof -
  have t': "table_core t'" "slot_ok t' k s" and sh: "same_shape t t'" and h: "\<And>k w. holds t' k w = holds t k w"
    using assms by (auto simp: ins_ok_def)
  show ?thesis
    using put_slot [OF t', of v] assms sh unfolding put_ok_def h by (auto simp: ins_ok_def same_shape_def)
qed

lemma put_flags: "put_ok (t\<lparr>t_flags := f\<rparr>) k v t' = put_ok t k v t'"
  by (simp add: put_ok_def)

lemma put_free:
  assumes t: "table_core t" and k: "proper k" "no_nan k"
    and room: "in_array (t_sizearray t) k \<or> (\<not> t_isdummy t \<and> nkeys (t_node t) < length (t_node t))"
  shows "\<exists>t'. rbind (luaH_set_body (newkey (Suc f)) t k) (\<lambda>(t', s). Ok (slot_set t' s v)) = Ok t' \<and> put_ok t k v t'"
proof -
  have kn: "k \<noteq> VNil" "\<not> (case k of VNum n \<Rightarrow> luai_numisnan n | _ \<Rightarrow> False)"
    using k by (auto simp: no_nan_def split: TValue.split)
  have "get_spec t k (luaH_get t k)" using luaH_get_spec [OF t] k by blast
  then obtain p where p: "luaH_get t k = Ok p"
    and so: "case p of Some s \<Rightarrow> slot_ok t k s | None \<Rightarrow> \<forall>s. \<not> slot_ok t k s"
    by (auto simp: get_spec_def)
  show ?thesis
  proof (cases p)
    case (Some s)
    then have "put_ok (t\<lparr>t_flags := 0\<rparr>) k v (slot_set (t\<lparr>t_flags := 0\<rparr>) s v)"
      using so t by (intro put_slot) simp_all
    then show ?thesis using p Some by (simp add: luaH_set_body_def put_flags)
  next
    case None
    then have no: "\<And>s. \<not> slot_ok t k s" using so by simp
    then have na: "\<not> in_array (t_sizearray t) k" using in_array_slot by blast
    let ?t1 = "t\<lparr>t_flags := 0\<rparr>"
    have fr: "\<exists>i<length (t_node ?t1). i_key (t_node ?t1 ! i) = VNil" and d: "\<not> t_isdummy ?t1"
      using room na nkeys_free by auto
    obtain t' s where n: "newkey_body (newkey f) ?t1 k = Ok (t', s)" "ins_ok ?t1 k t' s"
      using newkey_free [of ?t1 k "newkey f"] t no k d fr by auto
    have "put_ok ?t1 k v (slot_set t' s v)" using put_new [OF n(2)] na by simp
    then show ?thesis using p None kn n by (simp add: luaH_set_body_def put_flags)
  qed
qed

lemma put_free_num:
  assumes t: "table_core t" and j: "- (2 ^ 31) \<le> j" "j < 2 ^ 31"
    and room: "in_array (t_sizearray t) (VNum (cast_num j)) \<or> (\<not> t_isdummy t \<and> nkeys (t_node t) < length (t_node t))"
  shows "\<exists>t'. rbind (luaH_setnum_body (newkey (Suc f)) t j) (\<lambda>(t', s). Ok (slot_set t' s v)) = Ok t'
     \<and> put_ok t (VNum (cast_num j)) v t'"
proof -
  let ?k = "VNum (cast_num j)"
  have k: "proper ?k" "no_nan ?k"
    using j cast_num_finite [of j] by (auto simp: proper_def no_nan_def luai_numisnan_def luai_numeq_def)
  obtain p where p: "luaH_getnum t j = Ok p"
    and so: "case p of Some s \<Rightarrow> slot_ok t ?k s | None \<Rightarrow> \<forall>s. \<not> slot_ok t ?k s"
    using getnum_spec [OF t j] by (auto simp: get_spec_def)
  show ?thesis
  proof (cases p)
    case (Some s)
    then show ?thesis using so p put_slot [OF t] by (simp add: luaH_setnum_body_def)
  next
    case None
    then have no: "\<And>s. \<not> slot_ok t ?k s" using so by simp
    then have na: "\<not> in_array (t_sizearray t) ?k" using in_array_slot by blast
    obtain t' s where n: "newkey_body (newkey f) t ?k = Ok (t', s)" "ins_ok t ?k t' s"
      using newkey_free [of t ?k "newkey f"] t no k room na nkeys_free by blast
    then show ?thesis using p None put_new [OF n(2) na] by (simp add: luaH_setnum_body_def)
  qed
qed

section \<open>Reinsertion\<close>

text \<open>The state of the loops of \<open>resize\<close>: \<open>S\<close> are the entries that the table holds, \<open>c\<close> bounds
the nodes in use, \<open>arr\<close> is the array vector at the start of the loop.\<close>

definition loop_inv :: "nat \<Rightarrow> nat \<Rightarrow> bool \<Rightarrow> TValue list \<Rightarrow> u32 \<Rightarrow> Table \<Rightarrow> (TValue \<Rightarrow> TValue \<Rightarrow> bool) \<Rightarrow> nat \<Rightarrow> bool" where
  "loop_inv na l d arr mt t S c \<longleftrightarrow> table_core t \<and> t_sizearray t = na \<and> t_lsizenode t = l \<and> t_isdummy t = d \<and>
     length (t_array t) = length arr \<and> (\<forall>i\<ge>na. t_array t ! i = arr ! i) \<and> t_metatable t = mt \<and>
     (\<forall>k v. holds t k v \<longleftrightarrow> S k v) \<and> nkeys (t_node t) \<le> c"

lemma loop_step:
  assumes I: "loop_inv na l d arr mt t S c" and p: "put_ok t k v t'"
    and T: "\<And>k' w. S k' w \<Longrightarrow> luaO_rawequalObj k k' \<Longrightarrow> w = v" and v: "v \<noteq> VNil"
  shows "loop_inv na l d arr mt t' (\<lambda>k' w. S k' w \<or> (luaO_rawequalObj k k' \<and> w = v)) (c + (if in_array na k then 0 else 1))"
  using I p T v by (auto simp: loop_inv_def put_ok_def)

lemma loop_fold:
  fixes xs :: "'a list"
  assumes I: "loop_inv na l d arr mt t S c"
    and skip: "\<And>x t. x \<in> set xs \<Longrightarrow> val x = VNil \<Longrightarrow> (\<forall>i\<ge>na. t_array t ! i = arr ! i) \<Longrightarrow> g x t = Ok t"
    and put: "\<And>x t. x \<in> set xs \<Longrightarrow> val x \<noteq> VNil \<Longrightarrow> table_core t \<Longrightarrow> t_sizearray t = na \<Longrightarrow> (\<forall>i\<ge>na. t_array t ! i = arr ! i) \<Longrightarrow>
      in_array na (key x) \<or> (\<not> t_isdummy t \<and> nkeys (t_node t) < length (t_node t)) \<Longrightarrow>
      \<exists>t'. g x t = Ok t' \<and> put_ok t (key x) (val x) t'"
    and T: "\<And>x. x \<in> set xs \<Longrightarrow> val x \<noteq> VNil \<Longrightarrow> H (key x) (val x)"
    and S: "\<And>k v. S k v \<Longrightarrow> H k v"
    and H: "\<And>k v w. H k v \<Longrightarrow> H k w \<Longrightarrow> v = w" "\<And>k k' v. luaO_rawequalObj k k' \<Longrightarrow> H k v = H k' v"
    and room: "c + length (filter (\<lambda>x. val x \<noteq> VNil \<and> \<not> in_array na (key x)) xs) \<le> 2 ^ l"
      "d \<Longrightarrow> filter (\<lambda>x. val x \<noteq> VNil \<and> \<not> in_array na (key x)) xs = []"
  shows "\<exists>t'. foldM g xs t = Ok t' \<and>
    loop_inv na l d arr mt t' (\<lambda>k v. S k v \<or> (\<exists>x\<in>set xs. val x \<noteq> VNil \<and> luaO_rawequalObj (key x) k \<and> v = val x))
      (c + length (filter (\<lambda>x. val x \<noteq> VNil \<and> \<not> in_array na (key x)) xs))"
  using I skip put T S room
proof (induction xs arbitrary: t S c)
  case Nil
  then show ?case by simp
next
  case (Cons x xs)
  let ?F = "filter (\<lambda>x. val x \<noteq> VNil \<and> \<not> in_array na (key x))"
  show ?case
  proof (cases "val x = VNil")
    case True
    have "g x t = Ok t" using Cons.prems(1,2) True by (simp add: loop_inv_def)
    moreover have "\<exists>t'. foldM g xs t = Ok t' \<and>
      loop_inv na l d arr mt t' (\<lambda>k v. S k v \<or> (\<exists>x\<in>set xs. val x \<noteq> VNil \<and> luaO_rawequalObj (key x) k \<and> v = val x))
        (c + length (?F xs))"
      by (rule Cons.IH [OF Cons.prems(1)]) (use Cons.prems(2-7) True in auto)
    ultimately show ?thesis using True by simp
  next
    case False
    have core: "table_core t" "t_sizearray t = na" "\<forall>i\<ge>na. t_array t ! i = arr ! i" "t_isdummy t = d"
      and nk: "nkeys (t_node t) \<le> c" and len: "length (t_node t) = 2 ^ l"
      using Cons.prems(1) table_coreD(2) [of t] by (auto simp: loop_inv_def sizenode_def)
    have "in_array na (key x) \<or> (\<not> t_isdummy t \<and> nkeys (t_node t) < length (t_node t))"
      using Cons.prems(6,7) core(4) nk len False by (auto split: if_splits)
    then obtain t1 where t1: "g x t = Ok t1" "put_ok t (key x) (val x) t1"
      using Cons.prems(3) [of x t] core False by auto
    let ?S = "\<lambda>k v. S k v \<or> (luaO_rawequalObj (key x) k \<and> v = val x)"
    have Hx: "H (key x) (val x)" using Cons.prems(4) False by simp
    have SH: "H k v" if "?S k v" for k v
      using that
    proof
      assume "luaO_rawequalObj (key x) k \<and> v = val x"
      then show ?thesis using H(2) [of "key x" k "val x"] Hx by simp
    qed (rule Cons.prems(5))
    have inv1: "loop_inv na l d arr mt t1 ?S (c + (if in_array na (key x) then 0 else 1))"
    proof (rule loop_step [OF Cons.prems(1) t1(2) _ False])
      show "w = val x" if "S k' w" "luaO_rawequalObj (key x) k'" for k' w
        using that Cons.prems(5) H Hx by blast
    qed
    have "\<exists>t'. foldM g xs t1 = Ok t' \<and>
      loop_inv na l d arr mt t' (\<lambda>k v. ?S k v \<or> (\<exists>x\<in>set xs. val x \<noteq> VNil \<and> luaO_rawequalObj (key x) k \<and> v = val x))
        (c + (if in_array na (key x) then 0 else 1) + length (?F xs))"
    proof (rule Cons.IH [OF inv1])
      show "g y s = Ok s" if "y \<in> set xs" "val y = VNil" "\<forall>i\<ge>na. t_array s ! i = arr ! i" for y s
        by (rule Cons.prems(2)) (use that in simp_all)
      show "\<exists>t'. g y s = Ok t' \<and> put_ok s (key y) (val y) t'"
        if "y \<in> set xs" "val y \<noteq> VNil" "table_core s" "t_sizearray s = na" "\<forall>i\<ge>na. t_array s ! i = arr ! i"
          "in_array na (key y) \<or> \<not> t_isdummy s \<and> nkeys (t_node s) < length (t_node s)" for y s
        by (rule Cons.prems(3)) (use that in simp_all)
      show "H (key y) (val y)" if "y \<in> set xs" "val y \<noteq> VNil" for y
        by (rule Cons.prems(4)) (use that in simp_all)
      show "H k v" if "?S k v" for k v by (rule SH [OF that])
      show "c + (if in_array na (key x) then 0 else 1) + length (?F xs) \<le> 2 ^ l"
        using Cons.prems(6) False by (simp split: if_splits)
      show "?F xs = []" if d using Cons.prems(7) [OF that] False by (simp split: if_splits)
    qed
    then obtain t' where t': "foldM g xs t1 = Ok t'"
      "loop_inv na l d arr mt t' (\<lambda>k v. ?S k v \<or> (\<exists>x\<in>set xs. val x \<noteq> VNil \<and> luaO_rawequalObj (key x) k \<and> v = val x))
        (c + (if in_array na (key x) then 0 else 1) + length (?F xs))" by blast
    have e1: "(\<lambda>k v. ?S k v \<or> (\<exists>x\<in>set xs. val x \<noteq> VNil \<and> luaO_rawequalObj (key x) k \<and> v = val x))
      = (\<lambda>k v. S k v \<or> (\<exists>y\<in>set (x # xs). val y \<noteq> VNil \<and> luaO_rawequalObj (key y) k \<and> v = val y))"
      using False by (auto simp: fun_eq_iff)
    have e2: "c + (if in_array na (key x) then 0 else 1) + length (?F xs) = c + length (?F (x # xs))"
      using False by simp
    have "foldM g (x # xs) t = Ok t'" using t1(1) t'(1) by simp
    then show ?thesis using t'(2) unfolding e1 e2 by blast
  qed
qed

section \<open>Fresh node vectors\<close>

lemma fresh_nodes:
  "linked (replicate n empty_node)" "keys_ok (replicate n empty_node) mp" "entries (replicate n empty_node) = {}"
  "nkeys (replicate n empty_node) = 0"
proof -
  have st: "nstep (replicate n empty_node) = (\<lambda>a b. False)"
    by (auto simp: fun_eq_iff nstep_def empty_node_def)
  show "linked (replicate n empty_node)" unfolding linked_def st chains_def by simp
  show "keys_ok (replicate n empty_node) mp" by (simp add: keys_ok_def empty_node_def)
  show "entries (replicate n empty_node) = {}" by (auto simp: entries_def empty_node_def)
  have "{i. i < n \<and> i_key (replicate n empty_node ! i) \<noteq> VNil} = {}" by (auto simp: empty_node_def)
  then show "nkeys (replicate n empty_node) = 0" unfolding nkeys_def length_replicate by (metis card.empty)
qed

lemma fresh_core:
  assumes "t_node t = replicate (2 ^ t_lsizenode t) empty_node" "t_lsizenode t \<le> MAXBITS"
    "t_isdummy t \<Longrightarrow> t_lsizenode t = 0" "t_isdummy t \<Longrightarrow> t_lastfree t = 0" "\<not> t_isdummy t \<Longrightarrow> t_lastfree t = 2 ^ t_lsizenode t"
    "t_sizearray t \<le> length (t_array t)" "t_sizearray t \<le> MAXASIZE"
  shows "table_core t" "holds t k v \<longleftrightarrow> v \<noteq> VNil \<and> (\<exists>i<t_sizearray t. arrayindex k = int i + 1 \<and> t_array t ! i = v)"
    "nkeys (t_node t) = 0"
proof -
  have "t_lastfree t \<le> 2 ^ t_lsizenode t" using assms(4,5) by (cases "t_isdummy t") auto
  moreover have "i_key (t_node t ! i) \<noteq> VNil" if "\<not> t_isdummy t" "i < 2 ^ t_lsizenode t" "t_lastfree t \<le> int i" for i
  proof -
    have "(2 ^ t_lsizenode t :: int) \<le> int i" using that assms(5) by simp
    then have "2 ^ t_lsizenode t \<le> i" by (metis of_nat_le_iff of_nat_numeral of_nat_power)
    then show ?thesis using that(2) by simp
  qed
  ultimately show c: "table_core t"
    using assms fresh_nodes(1,2) by (auto simp: table_core_def sizenode_def arrayindex_def empty_node_def)
  show "holds t k v \<longleftrightarrow> v \<noteq> VNil \<and> (\<exists>i<t_sizearray t. arrayindex k = int i + 1 \<and> t_array t ! i = v)"
    unfolding holds_iff [OF c] assms(1) fresh_nodes(3) by simp
  show "nkeys (t_node t) = 0" unfolding assms(1) by (rule fresh_nodes(4))
qed

section \<open>Resizing keeps the entries\<close>

text \<open>The number of entries that do not fit into an array part of size \<open>na\<close>.\<close>

definition hash_need :: "Table \<Rightarrow> nat \<Rightarrow> nat" where
  "hash_need t na =
     length (filter (\<lambda>i. t_array t ! i \<noteq> VNil) [na..<t_sizearray t]) +
     length (filter (\<lambda>x. i_val x \<noteq> VNil \<and> \<not> in_array na (i_key x)) (t_node t))"

definition log2_size :: "nat \<Rightarrow> nat" where
  "log2_size n = (if n = 0 then 0 else nat (ceillog2 n))"

definition resized :: "Table \<Rightarrow> nat \<Rightarrow> nat \<Rightarrow> Table \<Rightarrow> bool" where
  "resized t na nh t' \<longleftrightarrow> table_inv t' \<and> (\<forall>k v. holds t' k v = holds t k v) \<and> t_sizearray t' = na \<and>
     t_metatable t' = t_metatable t \<and> t_isdummy t' = (nh = 0) \<and> t_lsizenode t' = log2_size nh \<and>
     nkeys (t_node t') \<le> hash_need t na"

lemma arrayindex_succ:
  assumes "i < 2 ^ 30"
  shows "arrayindex (VNum (cast_num (int i + 1))) = int i + 1"
  by (rule arrayindex_cast_num) (use assms in auto)

lemma holds_array:
  assumes "table_inv t" "i < t_sizearray t" "t_array t ! i \<noteq> VNil"
  shows "holds t (VNum (cast_num (int i + 1))) (t_array t ! i)"
proof -
  have "i < 2 ^ 30" using assms table_coreD(10) [of t] by (auto simp: table_inv_def MAXASIZE_def MAXBITS_def)
  then show ?thesis
    using assms arrayindex_succ [of i] by (auto simp: table_inv_def holds_iff)
qed

lemma holds_node:
  assumes "table_inv t" "x \<in> set (t_node t)" "i_val x \<noteq> VNil"
  shows "holds t (i_key x) (i_val x)" "proper (i_key x)" "no_nan (i_key x)"
proof -
  have t: "table_core t" using assms by (simp add: table_inv_def)
  obtain i where i: "i < length (t_node t)" "t_node t ! i = x" using assms(2) by (auto simp: in_set_conv_nth)
  show p: "proper (i_key x)" using keys_okD(5) [OF table_coreD(4) [OF t] i(1)] i assms by simp
  show n: "no_nan (i_key x)" using keys_okD(4) [OF table_coreD(4) [OF t] i(1)] i by (auto simp: no_nan_def)
  have "(i_key x, i_val x) \<in> entries (t_node t)" using assms by (auto simp: entries_def)
  then show "holds t (i_key x) (i_val x)"
    using n assms(3) luaO_rawequalObj_refl [of "i_key x"] by (auto simp: holds_iff [OF t] no_nan_def)
qed

lemma setnodevector_ok:
  assumes "log2_size nh \<le> MAXBITS" "nh \<le> 2 ^ 32"
  shows "setnodevector t nh = Ok (t\<lparr>t_node := replicate (2 ^ log2_size nh) empty_node, t_isdummy := (nh = 0),
       t_lsizenode := log2_size nh, t_lastfree := if nh = 0 then 0 else 2 ^ log2_size nh\<rparr>)"
    and "nh \<noteq> 0 \<Longrightarrow> nh \<le> 2 ^ log2_size nh"
  using assms ceillog2_bounds(2) [of nh] by (cases "nh = 0"; simp add: setnodevector_def log2_size_def Let_def)+

lemma resize_ok:
  assumes t: "table_inv t" and na: "na \<le> MAXASIZE" and need: "hash_need t na \<le> nh"
    and nh: "log2_size nh \<le> MAXBITS" "nh \<le> 2 ^ 32"
  shows "\<exists>t'. resize_body (newkey (Suc f)) t na nh = Ok t' \<and> resized t na nh t'"
proof -
  let ?nk = "newkey (Suc f)" and ?l = "log2_size nh" and ?old = "t_sizearray t" and ?d = "nh = 0"
  let ?nodes = "\<lambda>u. u\<lparr>t_node := replicate (2 ^ ?l) empty_node, t_isdummy := ?d, t_lsizenode := ?l,
      t_lastfree := if ?d then 0 else 2 ^ ?l\<rparr>"
  have core: "table_core t" and alen: "length (t_array t) = ?old" using t by (auto simp: table_inv_def)
  have oldb: "?old \<le> MAXASIZE" by (rule table_coreD(10) [OF core])
  have room: "nh \<noteq> 0 \<Longrightarrow> nh \<le> 2 ^ ?l" using setnodevector_ok(2) [OF nh] .
  have H: "holds t k v \<Longrightarrow> holds t k w \<Longrightarrow> v = w" "luaO_rawequalObj k k' \<Longrightarrow> holds t k v = holds t k' v" for k k' v w
    using holds_unique [OF core] holds_cong by blast+
  let ?vn = "\<lambda>x. i_val x \<noteq> VNil \<and> \<not> in_array na (i_key x)"
  let ?A = "\<lambda>k v. v \<noteq> VNil \<and> (\<exists>i<?old. arrayindex k = int i + 1 \<and> t_array t ! i = v)"
  define c1 where "c1 = length (filter (\<lambda>i. t_array t ! i \<noteq> VNil) [na..<?old])"
  have A_holds: "holds t k v" if "?A k v" for k v using that by (auto simp: holds_iff [OF core])

  \<comment> \<open>the first half: the array part has its new size, its old elements are in the table\<close>
  have "\<exists>t4. (rbind (if ?old < na then setarrayvector t na else Ok t) (\<lambda>t1.
      rbind (setnodevector t1 nh) (\<lambda>t2.
      if na < ?old then
        rbind (foldM (reinsert_array ?nk) [na..<?old] (t2\<lparr>t_sizearray := na\<rparr>)) (\<lambda>t3.
          Ok (t3\<lparr>t_array := take na (t_array t3)\<rparr>))
      else Ok t2))) = Ok t4 \<and>
    loop_inv na ?l ?d (t_array t4) (t_metatable t) t4 ?A c1 \<and> length (t_array t4) = na"
  proof (cases "na < ?old")
    case False
    let ?t1 = "if ?old < na then t\<lparr>t_array := t_array t @ replicate (na - ?old) VNil, t_sizearray := na\<rparr> else t"
    have s1: "(if ?old < na then setarrayvector t na else Ok t) = Ok ?t1"
      using na alen by (auto simp: setarrayvector_def MAX_SIZET_def MAXASIZE_def MAXBITS_def)
    let ?t2 = "?nodes ?t1"
    have sz: "t_sizearray ?t2 = na" "length (t_array ?t2) = na" "t_metatable ?t2 = t_metatable t" using False alen by auto
    have fc: "table_core ?t2" "holds ?t2 k v \<longleftrightarrow> v \<noteq> VNil \<and> (\<exists>i<t_sizearray ?t2. arrayindex k = int i + 1 \<and> t_array ?t2 ! i = v)"
        "nkeys (t_node ?t2) = 0" for k v
      using fresh_core [of ?t2] nh na sz False by (simp_all add: log2_size_def)
    have "holds ?t2 k v \<longleftrightarrow> ?A k v" for k v
      unfolding fc(2) using False alen by (auto simp: nth_append)
    moreover have "c1 = 0" using False by (simp add: c1_def)
    ultimately have "loop_inv na ?l ?d (t_array ?t2) (t_metatable t) ?t2 ?A c1"
      using fc(1,3) sz unfolding loop_inv_def by simp
    then show ?thesis
      using False s1 setnodevector_ok(1) [OF nh, of ?t1] sz by (intro exI [of _ ?t2]) simp
  next
    case True
    let ?t2 = "(?nodes t)\<lparr>t_sizearray := na\<rparr>"
    let ?S = "\<lambda>k v. v \<noteq> VNil \<and> (\<exists>i<na. arrayindex k = int i + 1 \<and> t_array t ! i = v)"
    let ?key = "\<lambda>i. VNum (cast_num (int i + 1))"
    have fc: "table_core ?t2" "holds ?t2 k v \<longleftrightarrow> ?S k v" "nkeys (t_node ?t2) = 0" for k v
      using fresh_core [of ?t2] nh na True alen by (simp_all add: log2_size_def)
    have small: "i < 2 ^ 30" if "i < ?old" for i using that oldb by (simp add: MAXASIZE_def MAXBITS_def)
    have out: "\<not> in_array na (?key i)" if "i \<in> set [na..<?old]" for i
      using that arrayindex_succ [OF small, of i] by (simp add: in_array_def)
    have F: "filter (\<lambda>i. t_array t ! i \<noteq> VNil \<and> \<not> in_array na (?key i)) [na..<?old]
        = filter (\<lambda>i. t_array t ! i \<noteq> VNil) [na..<?old]"
      by (rule filter_cong [OF refl]) (use out in auto)
    have "loop_inv na ?l ?d (t_array t) (t_metatable t) ?t2 ?S 0"
      using fc(1,2,3) unfolding loop_inv_def by simp
    then have "\<exists>t3. foldM (reinsert_array ?nk) [na..<?old] ?t2 = Ok t3 \<and>
      loop_inv na ?l ?d (t_array t) (t_metatable t) t3
        (\<lambda>k v. ?S k v \<or> (\<exists>i\<in>set [na..<?old]. t_array t ! i \<noteq> VNil \<and> luaO_rawequalObj (?key i) k \<and> v = t_array t ! i))
        (0 + length (filter (\<lambda>i. t_array t ! i \<noteq> VNil \<and> \<not> in_array na (?key i)) [na..<?old]))"
    proof (rule loop_fold [where H = "holds t"])
      show "reinsert_array ?nk i u = Ok u"
        if "i \<in> set [na..<?old]" "t_array t ! i = VNil" "\<forall>j\<ge>na. t_array u ! j = t_array t ! j" for i u
        using that by (simp add: reinsert_array_def)
      show "\<exists>t'. reinsert_array ?nk i u = Ok t' \<and> put_ok u (?key i) (t_array t ! i) t'"
        if "i \<in> set [na..<?old]" "t_array t ! i \<noteq> VNil" "table_core u" "t_sizearray u = na"
          "\<forall>j\<ge>na. t_array u ! j = t_array t ! j" "in_array na (?key i) \<or> \<not> t_isdummy u \<and> nkeys (t_node u) < length (t_node u)" for i u
        using that put_free_num [of u "int i + 1" f "t_array t ! i"] small [of i] by (simp add: reinsert_array_def)
      show "holds t (?key i) (t_array t ! i)" if "i \<in> set [na..<?old]" "t_array t ! i \<noteq> VNil" for i
        using that holds_array [OF t] by simp
      show "holds t k v" if "?S k v" for k v using that True by (intro A_holds) auto
      show "0 + length (filter (\<lambda>i. t_array t ! i \<noteq> VNil \<and> \<not> in_array na (?key i)) [na..<?old]) \<le> 2 ^ ?l"
        unfolding F using room need by (cases "nh = 0") (auto simp: hash_need_def)
      show "filter (\<lambda>i. t_array t ! i \<noteq> VNil \<and> \<not> in_array na (?key i)) [na..<?old] = []" if "nh = 0"
        unfolding F using need that by (simp add: hash_need_def)
    qed (use H in blast)+
    then obtain t3 where t3: "foldM (reinsert_array ?nk) [na..<?old] ?t2 = Ok t3"
      and i3: "loop_inv na ?l ?d (t_array t) (t_metatable t) t3
        (\<lambda>k v. ?S k v \<or> (\<exists>i\<in>set [na..<?old]. t_array t ! i \<noteq> VNil \<and> luaO_rawequalObj (?key i) k \<and> v = t_array t ! i)) c1"
      unfolding F c1_def [symmetric] by auto
    have eq: "(\<lambda>k v. ?S k v \<or> (\<exists>i\<in>set [na..<?old]. t_array t ! i \<noteq> VNil \<and> luaO_rawequalObj (?key i) k \<and> v = t_array t ! i)) = ?A"
    proof (intro ext)
      fix k v
      have r: "luaO_rawequalObj (?key i) k \<longleftrightarrow> arrayindex k = int i + 1" if "i < ?old" for i
        using arrayindex_iff [of "int i + 1" k] small [OF that] luaO_rawequalObj_sym by auto
      define P where "P i \<longleftrightarrow> arrayindex k = int i + 1 \<and> t_array t ! i = v" for i
      have "(\<exists>i\<in>set [na..<?old]. t_array t ! i \<noteq> VNil \<and> luaO_rawequalObj (?key i) k \<and> v = t_array t ! i)
        \<longleftrightarrow> v \<noteq> VNil \<and> (\<exists>i<?old. na \<le> i \<and> P i)"
        using r by (auto simp: P_def)
      moreover have "(\<exists>i<?old. P i) \<longleftrightarrow> (\<exists>i<na. P i) \<or> (\<exists>i<?old. na \<le> i \<and> P i)"
        using True by (meson leI less_trans)
      ultimately show "(?S k v \<or> (\<exists>i\<in>set [na..<?old]. t_array t ! i \<noteq> VNil \<and> luaO_rawequalObj (?key i) k \<and> v = t_array t ! i)) = ?A k v"
        unfolding P_def [symmetric] by auto
    qed
    let ?t4 = "t3\<lparr>t_array := take na (t_array t3)\<rparr>"
    have c3: "table_core t3" and l3: "length (t_array t3) = ?old" "t_sizearray t3 = na"
      using i3 alen by (simp_all add: loop_inv_def)
    have mp: "mainposition ?t4 = mainposition t3" by (rule mainposition_lsize) simp
    have c4: "table_core ?t4"
      using c3 l3 True unfolding table_core_def mp sizenode_def by auto
    have h4: "holds ?t4 k v = holds t3 k v" for k v
      using l3 by (auto simp: holds_iff [OF c4] holds_iff [OF c3])
    have "loop_inv na ?l ?d (t_array ?t4) (t_metatable t) ?t4 ?A c1"
      using i3 c4 unfolding eq loop_inv_def h4 by simp
    then show ?thesis
      using True setnodevector_ok(1) [OF nh, of t] t3 l3 by (intro exI [of _ ?t4]) simp
  qed
  then obtain t4 where t4: "(rbind (if ?old < na then setarrayvector t na else Ok t) (\<lambda>t1.
      rbind (setnodevector t1 nh) (\<lambda>t2.
      if na < ?old then
        rbind (foldM (reinsert_array ?nk) [na..<?old] (t2\<lparr>t_sizearray := na\<rparr>)) (\<lambda>t3.
          Ok (t3\<lparr>t_array := take na (t_array t3)\<rparr>))
      else Ok t2))) = Ok t4"
    and i4: "loop_inv na ?l ?d (t_array t4) (t_metatable t) t4 ?A c1" and l4: "length (t_array t4) = na" by blast

  \<comment> \<open>the second half: the entries of the old hash part\<close>
  have "\<exists>t5. foldM (reinsert_node ?nk) (rev (t_node t)) t4 = Ok t5 \<and>
      loop_inv na ?l ?d (t_array t4) (t_metatable t) t5
        (\<lambda>k v. ?A k v \<or> (\<exists>x\<in>set (rev (t_node t)). i_val x \<noteq> VNil \<and> luaO_rawequalObj (i_key x) k \<and> v = i_val x))
        (c1 + length (filter ?vn (rev (t_node t))))"
  proof (rule loop_fold [OF i4, where H = "holds t"])
    show "reinsert_node ?nk x u = Ok u" if "i_val x = VNil" for x u
      using that by (simp add: reinsert_node_def)
    show "\<exists>t'. reinsert_node ?nk x u = Ok t' \<and> put_ok u (i_key x) (i_val x) t'"
      if "x \<in> set (rev (t_node t))" "i_val x \<noteq> VNil" "table_core u" "t_sizearray u = na"
        "in_array na (i_key x) \<or> \<not> t_isdummy u \<and> nkeys (t_node u) < length (t_node u)" for x u
      using that put_free [of u "i_key x" f "i_val x"] holds_node(2,3) [OF t, of x] by (simp add: reinsert_node_def)
    show "holds t (i_key x) (i_val x)" if "x \<in> set (rev (t_node t))" "i_val x \<noteq> VNil" for x
      using that holds_node(1) [OF t] by simp
    show "c1 + length (filter ?vn (rev (t_node t))) \<le> 2 ^ ?l"
      using room need by (cases "nh = 0") (auto simp: hash_need_def c1_def simp flip: rev_filter)
    show "filter ?vn (rev (t_node t)) = []" if "nh = 0"
      using need that by (simp add: hash_need_def flip: rev_filter)
  qed (use H A_holds in blast)+
  then obtain t5 where t5: "foldM (reinsert_node ?nk) (rev (t_node t)) t4 = Ok t5"
    and i5: "loop_inv na ?l ?d (t_array t4) (t_metatable t) t5
        (\<lambda>k v. ?A k v \<or> (\<exists>x\<in>set (rev (t_node t)). i_val x \<noteq> VNil \<and> luaO_rawequalObj (i_key x) k \<and> v = i_val x))
        (c1 + length (filter ?vn (rev (t_node t))))" by blast
  have "holds t5 k v = holds t k v" for k v
    using i5 unfolding loop_inv_def holds_iff [OF core] by (auto simp: entries_def)
  moreover have "c1 + length (filter ?vn (rev (t_node t))) = hash_need t na"
    by (simp add: hash_need_def c1_def flip: rev_filter)
  ultimately have "resized t na nh t5"
    using i5 l4 by (simp add: resized_def loop_inv_def table_inv_def)
  moreover have "resize_body ?nk t na nh = Ok t5"
  proof -
    have "resize_body ?nk t na nh = rbind (rbind (if ?old < na then setarrayvector t na else Ok t) (\<lambda>t1.
      rbind (setnodevector t1 nh) (\<lambda>t2.
      if na < ?old then
        rbind (foldM (reinsert_array ?nk) [na..<?old] (t2\<lparr>t_sizearray := na\<rparr>)) (\<lambda>t3.
          Ok (t3\<lparr>t_array := take na (t_array t3)\<rparr>))
      else Ok t2))) (foldM (reinsert_node ?nk) (rev (t_node t)))"
      unfolding resize_body_def Let_def rbind_assoc ..
    then show ?thesis unfolding t4 using t5 by simp
  qed
  ultimately show ?thesis by blast
qed

section \<open>Counting integer keys\<close>

definition clog :: "nat \<Rightarrow> nat" where
  "clog k = nat (ceillog2 k)"

lemma clog_le_iff: "0 < k \<Longrightarrow> k \<le> 2 ^ 32 \<Longrightarrow> clog k \<le> j \<longleftrightarrow> k \<le> 2 ^ j"
proof
  assume k: "0 < k" "k \<le> 2 ^ 32"
  note b = ceillog2_bounds [OF k]
  show "k \<le> 2 ^ j" if "clog k \<le> j"
  proof -
    have "(2::nat) ^ clog k \<le> 2 ^ j" using that by (intro power_increasing) simp_all
    then show ?thesis by (rule order_trans [OF b(2) [folded clog_def]])
  qed
  show "clog k \<le> j" if "k \<le> 2 ^ j"
  proof (rule ccontr)
    assume "\<not> clog k \<le> j"
    then have j: "j \<le> clog k - 1" and c: "0 < clog k" by auto
    have "k \<noteq> 1"
    proof
      assume "k = 1"
      then have "clog k = 0" by (simp add: clog_def ceillog2_def luaO_log2_eq floorlog_def)
      with c show False by simp
    qed
    then have "2 ^ (clog k - 1) < k" using b(3) k(1) by (simp add: clog_def)
    moreover have "(2::nat) ^ j \<le> 2 ^ (clog k - 1)" using j by (rule power_increasing) simp
    ultimately show False using that by linarith
  qed
qed

definition nums_ok :: "nat list \<Rightarrow> nat list \<Rightarrow> bool" where
  "nums_ok nums ks \<longleftrightarrow> length nums = MAXBITS + 1 \<and> (\<forall>k\<in>set ks. 0 < k \<and> k \<le> MAXASIZE) \<and>
     (\<forall>b\<le>MAXBITS. nums ! b = length (filter (\<lambda>k. clog k = b) ks))"

definition int_key :: "TValue \<Rightarrow> nat list" where
  "int_key k = (if in_array MAXASIZE k then [nat (arrayindex k)] else [])"

lemma clog_MAXBITS: "0 < k \<Longrightarrow> k \<le> MAXASIZE \<Longrightarrow> clog k \<le> MAXBITS"
  by (subst clog_le_iff) (auto simp: MAXASIZE_def MAXBITS_def)

lemma countint_ok:
  assumes "nums_ok nums ks"
  shows "\<exists>nums'. countint key nums = Ok (nums', length (int_key key)) \<and> nums_ok nums' (ks @ int_key key)"
proof (cases "in_array MAXASIZE key")
  case True
  let ?k = "nat (arrayindex key)"
  have k: "0 < ?k" "?k \<le> MAXASIZE" using True by (auto simp: in_array_def)
  then have b: "clog ?k < length nums" using clog_MAXBITS [OF k] assms by (simp add: nums_ok_def)
  have "nums_ok (nums[clog ?k := nums ! clog ?k + 1]) (ks @ [?k])"
    using assms k b by (auto simp: nums_ok_def nth_list_update)
  then show ?thesis
    using True b unfolding countint_def clog_def [symmetric] by (simp add: Let_def in_array_def int_key_def)
next
  case False
  then show ?thesis using assms by (auto simp: countint_def Let_def in_array_def int_key_def)
qed

lemma numusehash_fold:
  assumes "nums_ok nums ks"
  shows "\<exists>nums'. foldM numusehash_step xs (nums, a, tot) =
      Ok (nums', a + length (concat (map int_key (map i_key (filter (\<lambda>x. i_val x \<noteq> VNil) xs)))),
          tot + length (filter (\<lambda>x. i_val x \<noteq> VNil) xs))
    \<and> nums_ok nums' (ks @ concat (map int_key (map i_key (filter (\<lambda>x. i_val x \<noteq> VNil) xs))))"
  using assms
proof (induction xs arbitrary: nums ks a tot)
  case (Cons x xs)
  show ?case
  proof (cases "i_val x = VNil")
    case True
    then show ?thesis using Cons by (simp add: numusehash_step_def)
  next
    case False
    obtain n1 where n1: "countint (i_key x) nums = Ok (n1, length (int_key (i_key x)))" "nums_ok n1 (ks @ int_key (i_key x))"
      using countint_ok [OF Cons.prems] by blast
    from Cons.IH [OF n1(2), of "a + length (int_key (i_key x))" "tot + 1"] False n1(1) show ?thesis
      by (simp add: numusehash_step_def add.assoc)
  qed
qed simp

definition array_keys :: "Table \<Rightarrow> nat \<Rightarrow> nat list" where
  "array_keys t n = map Suc (filter (\<lambda>i. t_array t ! i \<noteq> VNil) [0..<n])"

definition node_keys :: "Table \<Rightarrow> nat list" where
  "node_keys t = concat (map int_key (map i_key (filter (\<lambda>x. i_val x \<noteq> VNil) (rev (t_node t)))))"

lemma count_used_eq:
  "hi \<le> length a \<Longrightarrow> count_used a i hi = length (filter (\<lambda>j. a ! j \<noteq> VNil) [i..<hi])"
proof -
  assume "hi \<le> length a"
  then have "take (hi - i) (drop i a) = map ((!) a) [i..<hi]"
    by (intro nth_equalityI) auto
  then show ?thesis by (simp add: count_used_def filter_map o_def)
qed

lemma numusearray_loop_ok:
  assumes "nums_ok nums (array_keys t i0)" "t_sizearray t \<le> MAXASIZE" "length (t_array t) = t_sizearray t"
    and "i0 = (if lg = 0 then 0 else min (2 ^ (lg - 1)) (t_sizearray t))" "lg \<le> MAXBITS + 1"
  shows "\<exists>nums'. numusearray_loop t lg nums i0 (length (array_keys t i0)) = Ok (nums', length (array_keys t (t_sizearray t)))
    \<and> nums_ok nums' (array_keys t (t_sizearray t))"
  using assms(1,4,5)
proof (induction "MAXBITS + 1 - lg" arbitrary: lg nums i0)
  case 0
  then have "lg = MAXBITS + 1" by simp
  then have "i0 = t_sizearray t" using 0 assms(2) by (simp add: MAXASIZE_def)
  then show ?case using 0 \<open>lg = MAXBITS + 1\<close> by (simp add: numusearray_loop.simps [of t "Suc MAXBITS"])
next
  case (Suc d)
  then have lg: "lg \<le> MAXBITS" by simp
  have i0: "i0 \<le> t_sizearray t" using Suc.prems(2) by (simp split: if_splits)
  show ?case
  proof (cases "t_sizearray t < 2 ^ lg \<and> t_sizearray t < i0 + 1")
    case True
    then have "i0 = t_sizearray t" using i0 by simp
    then show ?thesis using Suc.prems lg True by (simp add: numusearray_loop.simps [of t lg])
  next
    case False
    let ?hi = "min (2 ^ lg) (t_sizearray t)"
    have hi: "i0 \<le> ?hi" "?hi \<le> length (t_array t)"
      using Suc.prems(2) i0 assms(3) power_increasing [of "lg - 1" lg "2::nat"] by (auto simp: min_le_iff_disj split: if_splits)
    have mx: "max i0 ?hi = ?hi" using hi by simp
    have split: "[0..<?hi] = [0..<i0] @ [i0..<?hi]" using hi(1) upt_add_eq_append [of 0 i0 "?hi - i0"] by simp
    have ak: "array_keys t ?hi = array_keys t i0 @ map Suc (filter (\<lambda>j. t_array t ! j \<noteq> VNil) [i0..<?hi])"
      unfolding array_keys_def split by simp
    have cl: "clog (Suc j) = lg" if "j \<in> set [i0..<?hi]" for j
    proof -
      have "j < 2 ^ lg" "i0 \<le> j" "j < t_sizearray t" using that by auto
      then have "Suc j \<le> 2 ^ lg" "Suc j \<le> 2 ^ 32" using assms(2) by (auto simp: MAXASIZE_def MAXBITS_def)
      then have "clog (Suc j) \<le> lg" by (subst clog_le_iff) auto
      moreover have "\<not> clog (Suc j) \<le> lg - 1" if "lg \<noteq> 0"
      proof -
        have "\<not> Suc j \<le> 2 ^ (lg - 1)"
          using \<open>i0 \<le> j\<close> \<open>j < t_sizearray t\<close> Suc.prems(2) that by (auto simp: min_def split: if_splits)
        then show ?thesis using \<open>Suc j \<le> 2 ^ 32\<close> by (subst clog_le_iff) auto
      qed
      ultimately show ?thesis by linarith
    qed
    have ll: "lg < length nums" using Suc.prems(1) lg by (simp add: nums_ok_def)
    let ?sl = "map Suc (filter (\<lambda>j. t_array t ! j \<noteq> VNil) [i0..<?hi])"
    have "filter (\<lambda>k. clog k = b) ?sl = (if b = lg then ?sl else [])" for b
      using cl by (auto simp: filter_empty_conv filter_id_conv)
    moreover have "\<forall>k\<in>set ?sl. 0 < k \<and> k \<le> MAXASIZE" using assms(2) by auto
    ultimately have "nums_ok (nums[lg := nums ! lg + length ?sl]) (array_keys t ?hi)"
      using Suc.prems(1) ll unfolding ak nums_ok_def by (auto simp: nth_list_update)
    then have "\<exists>nums'. numusearray_loop t (Suc lg) (nums[lg := nums ! lg + length ?sl]) ?hi (length (array_keys t ?hi))
        = Ok (nums', length (array_keys t (t_sizearray t))) \<and> nums_ok nums' (array_keys t (t_sizearray t))"
      by (rule Suc.hyps(1) [rotated]) (use Suc.hyps(2) lg in simp_all)
    then show ?thesis
      using False lg ll hi(2) mx by (auto simp: numusearray_loop.simps [of t lg] count_used_eq ak Let_def)
  qed
qed

lemma computesizes_loop_ok:
  assumes nums: "nums_ok nums ks" and i: "i \<le> MAXBITS + 1"
    and a: "a = length (filter (\<lambda>k. clog k < i) ks)" "a \<noteq> length ks \<or> ks = []"
    and n: "na = length (filter (\<lambda>k. k \<le> n) ks)" "n = 0 \<or> (\<exists>j<i. n = 2 ^ j \<and> n div 2 < na)"
    and opt: "distinct ks \<Longrightarrow> \<forall>j<i. 2 ^ j div 2 < length (filter (\<lambda>k. k \<le> 2 ^ j) ks) \<longrightarrow> 2 ^ j \<le> n"
  shows "\<exists>n' na'. computesizes_loop nums (length ks) i a na n = Ok (n', na') \<and>
    na' = length (filter (\<lambda>k. k \<le> n') ks) \<and> (n' = 0 \<or> (\<exists>j\<le>MAXBITS. n' = 2 ^ j \<and> n' div 2 < na')) \<and>
    (distinct ks \<longrightarrow> (\<forall>j. 2 ^ j div 2 < length (filter (\<lambda>k. k \<le> 2 ^ j) ks) \<longrightarrow> 2 ^ j \<le> n'))"
  using assms(2-)
proof (induction "MAXBITS + 1 - i" arbitrary: i a na n)
  have ks: "0 < k" "k \<le> MAXASIZE" "k \<le> 2 ^ 32" if "k \<in> set ks" for k
    using nums that by (auto simp: nums_ok_def MAXASIZE_def MAXBITS_def)
  have le: "filter (\<lambda>k. k \<le> 2 ^ j) ks = filter (\<lambda>k. clog k \<le> j) ks" for j
    by (rule filter_cong [OF refl]) (use clog_le_iff ks in auto)
  have cm: "clog k \<le> MAXBITS" if "k \<in> set ks" for k using clog_MAXBITS ks that by blast
  {
    case 0
    have "filter (\<lambda>k. clog k < i) ks = ks" using 0 cm by (auto simp: filter_id_conv le_imp_less_Suc)
    then have "ks = []" using 0 by simp
    then show ?case using 0 by (auto simp: computesizes_loop.simps [of nums 0])
  next
    case (Suc d)
    then have i: "i \<le> MAXBITS" by simp
    show ?case
    proof (cases "2 ^ i div 2 < length ks")
      case False
      have "\<not> 2 ^ j div 2 < length (filter (\<lambda>k. k \<le> 2 ^ j) ks)" if "i \<le> j" for j
      proof -
        have "(2::nat) ^ i div 2 \<le> 2 ^ j div 2" using that by (intro div_le_mono power_increasing) simp_all
        then show ?thesis using False length_filter_le [of "\<lambda>k. k \<le> 2 ^ j" ks] by linarith
      qed
      then have "distinct ks \<longrightarrow> (\<forall>j. 2 ^ j div 2 < length (filter (\<lambda>k. k \<le> 2 ^ j) ks) \<longrightarrow> 2 ^ j \<le> n)"
        using Suc.prems(6) by (metis not_le)
      moreover have "n = 0 \<or> (\<exists>j\<le>MAXBITS. n = 2 ^ j \<and> n div 2 < na)"
      proof (cases "n = 0")
        case False
        then obtain j where "j < i" "n = 2 ^ j" "n div 2 < na" using Suc.prems(5) by blast
        then show ?thesis using i by (intro disjI2 exI [of _ j]) simp
      qed simp
      ultimately show ?thesis using False Suc.prems(4) by (simp add: computesizes_loop.simps [of nums _ i])
    next
      case True
      let ?c = "nums ! i"
      have c: "?c = length (filter (\<lambda>k. clog k = i) ks)" and il: "i < length nums"
        using nums i by (auto simp: nums_ok_def)
      have "length (filter (\<lambda>k. clog k < Suc i) ks) = length (filter (\<lambda>k. clog k < i) ks) + length (filter (\<lambda>k. clog k = i) ks)"
        by (induction ks) auto
      then have ac: "a + ?c = length (filter (\<lambda>k. clog k < Suc i) ks)" using c Suc.prems(2) by simp
      then have ac': "a + ?c = length (filter (\<lambda>k. k \<le> 2 ^ i) ks)" by (simp add: le less_Suc_eq_le)
      define n1 where "n1 = (if 0 < ?c \<and> 2 ^ i div 2 < a + ?c then 2 ^ i else n)"
      define na1 where "na1 = (if 0 < ?c \<and> 2 ^ i div 2 < a + ?c then a + ?c else na)"
      have n1: "na1 = length (filter (\<lambda>k. k \<le> n1) ks)" "n1 = 0 \<or> (\<exists>j<Suc i. n1 = 2 ^ j \<and> n1 div 2 < na1)"
        using Suc.prems(4,5) ac' by (auto simp: n1_def na1_def less_SucI)
      have bound: "length (filter (\<lambda>k. k \<le> m) ks) \<le> m" if "distinct ks" for m
      proof -
        have "length (filter (\<lambda>k. k \<le> m) ks) = card (set (filter (\<lambda>k. k \<le> m) ks))"
          by (rule distinct_card [symmetric]) (use that in simp)
        also have "\<dots> \<le> card {1..m}" using ks by (intro card_mono) (auto simp: Suc_le_eq)
        finally show ?thesis by simp
      qed
      have opt1: "\<forall>j<Suc i. 2 ^ j div 2 < length (filter (\<lambda>k. k \<le> 2 ^ j) ks) \<longrightarrow> 2 ^ j \<le> n1" if d: "distinct ks"
      proof (intro allI impI)
        fix j assume j: "j < Suc i" and h: "2 ^ j div 2 < length (filter (\<lambda>k. k \<le> 2 ^ j) ks)"
        have nn: "n \<le> 2 ^ i" using Suc.prems(5) by (auto intro: power_increasing)
        show "2 ^ j \<le> n1"
        proof (cases "j = i")
          case False
          then have "2 ^ j \<le> n" using Suc.prems(6) d h j by simp
          moreover from this nn have "(2::nat) ^ j \<le> 2 ^ i" by (rule order_trans)
          ultimately show ?thesis unfolding n1_def by (simp split: if_splits)
        next
          case True
          show ?thesis
          proof (cases "0 < ?c")
            case c0: False
            then have "filter (\<lambda>k. clog k = i) ks = []" using c by simp
            have "i \<noteq> 0"
            proof
              assume "i = 0"
              then show False using True h ac' c0 Suc.prems(2) by simp
            qed
            then obtain i' where i': "i = Suc i'" by (cases i) auto
            have "length (filter (\<lambda>k. k \<le> 2 ^ i) ks) = length (filter (\<lambda>k. k \<le> 2 ^ i') ks)"
              using ac' c0 Suc.prems(2) i' by (simp add: le less_Suc_eq_le)
            also have "\<dots> \<le> 2 ^ i'" by (rule bound [OF d])
            finally show ?thesis using h True i' by simp
          qed (use True h ac' in \<open>simp add: n1_def\<close>)
        qed
      qed
      have step: "computesizes_loop nums (length ks) i a na n =
          (if a + ?c = length ks then Ok (n1, na1) else computesizes_loop nums (length ks) (Suc i) (a + ?c) na1 n1)"
        using True il by (auto simp: computesizes_loop.simps [of nums _ i] n1_def na1_def Let_def)
      show ?thesis
      proof (cases "a + ?c = length ks")
        case all: True
        have "2 ^ j \<le> n1" if d: "distinct ks" and h: "2 ^ j div 2 < length (filter (\<lambda>k. k \<le> 2 ^ j) ks)" for j
        proof (cases "j < Suc i")
          case False
          then obtain j' where j': "j = Suc j'" "i \<le> j'" by (cases j) auto
          have "length (filter (\<lambda>k. k \<le> 2 ^ j) ks) \<le> a + ?c" using all length_filter_le by metis
          also have "\<dots> \<le> 2 ^ i" using ac' bound [OF d] by simp
          also have "\<dots> \<le> 2 ^ j'" using j' by (intro power_increasing) simp_all
          finally show ?thesis using h j' by simp
        qed (use opt1 d h in blast)
        moreover have "n1 = 0 \<or> (\<exists>j\<le>MAXBITS. n1 = 2 ^ j \<and> n1 div 2 < na1)"
        proof (cases "n1 = 0")
          case False
          then obtain j where "j < Suc i" "n1 = 2 ^ j" "n1 div 2 < na1" using n1(2) by blast
          then show ?thesis using i by (intro disjI2 exI [of _ j]) simp
        qed simp
        ultimately show ?thesis using all step n1(1) by simp
      next
        case False
        have "d = MAXBITS + 1 - Suc i" "Suc i \<le> MAXBITS + 1" using Suc.hyps(2) i by simp_all
        from Suc.hyps(1) [OF this ac _ n1 opt1] False step show ?thesis by simp
      qed
    qed
  }
qed

section \<open>Rehash\<close>

definition all_keys :: "Table \<Rightarrow> TValue \<Rightarrow> nat list" where
  "all_keys t ek = array_keys t (t_sizearray t) @ node_keys t @ int_key ek"

definition used_nodes :: "Table \<Rightarrow> Node list" where
  "used_nodes t = filter (\<lambda>x. i_val x \<noteq> VNil) (t_node t)"

definition used_slots :: "Table \<Rightarrow> nat" where
  "used_slots t = length (array_keys t (t_sizearray t)) + length (used_nodes t)"

lemma computesizes_ok:
  assumes "nums_ok nums ks"
  shows "\<exists>n na. computesizes nums (length ks) = Ok (n, na) \<and>
    na = length (filter (\<lambda>k. k \<le> n) ks) \<and> (n = 0 \<or> (\<exists>j\<le>MAXBITS. n = 2 ^ j \<and> n div 2 < na)) \<and>
    (distinct ks \<longrightarrow> (\<forall>j. 2 ^ j div 2 < length (filter (\<lambda>k. k \<le> 2 ^ j) ks) \<longrightarrow> 2 ^ j \<le> n))"
proof -
  have "filter (\<lambda>k. k \<le> 0) ks = []" using assms by (auto simp: nums_ok_def filter_empty_conv)
  then show ?thesis
    unfolding computesizes_def
    by (intro computesizes_loop_ok [OF assms]) simp_all
qed

lemma int_key_le: "m \<le> MAXASIZE \<Longrightarrow> length (filter (\<lambda>k. k \<le> m) (int_key key)) = (if in_array m key then 1 else 0)"
  by (auto simp: int_key_def in_array_def)

lemma node_keys_le:
  assumes "m \<le> MAXASIZE"
  shows "length (filter (\<lambda>k. k \<le> m) (concat (map int_key (map i_key (filter (\<lambda>x. i_val x \<noteq> VNil) xs)))))
    + length (filter (\<lambda>x. i_val x \<noteq> VNil \<and> \<not> in_array m (i_key x)) xs) = length (filter (\<lambda>x. i_val x \<noteq> VNil) xs)"
  by (induction xs) (auto simp: int_key_le [OF assms])

lemma array_keys_le:
  "length (filter (\<lambda>k. k \<le> m) (array_keys t n)) + length (filter (\<lambda>i. t_array t ! i \<noteq> VNil) [m..<n]) = length (array_keys t n)"
proof (induction n)
  case (Suc n)
  then show ?case by (cases "m \<le> n") (auto simp: array_keys_def)
qed (simp add: array_keys_def)

text \<open>The size of the hash part that \<open>rehash\<close> asks for is exactly what is needed.\<close>

lemma need_eq:
  assumes "n \<le> MAXASIZE" "na = length (filter (\<lambda>k. k \<le> n) (all_keys t ek))"
  shows "hash_need t n + (if in_array n ek then 0 else 1) = used_slots t + 1 - na" and "na \<le> used_slots t + 1"
proof -
  have "length (filter (\<lambda>k. k \<le> n) (node_keys t)) + length (filter (\<lambda>x. i_val x \<noteq> VNil \<and> \<not> in_array n (i_key x)) (t_node t))
      = length (used_nodes t)"
    using node_keys_le [OF assms(1), of "rev (t_node t)"] by (simp add: node_keys_def used_nodes_def flip: rev_filter)
  moreover have "na = length (filter (\<lambda>k. k \<le> n) (array_keys t (t_sizearray t))) + length (filter (\<lambda>k. k \<le> n) (node_keys t))
      + (if in_array n ek then 1 else 0)"
    by (simp add: assms(2) all_keys_def int_key_le [OF assms(1)])
  moreover note array_keys_le [of n t "t_sizearray t"]
  ultimately show "hash_need t n + (if in_array n ek then 0 else 1) = used_slots t + 1 - na" "na \<le> used_slots t + 1"
    unfolding hash_need_def used_slots_def by (simp_all split: if_splits)
qed

lemma used_slots_bound: "table_inv t \<Longrightarrow> used_slots t \<le> 2 ^ 27"
proof -
  assume t: "table_inv t"
  then have c: "table_core t" by (simp add: table_inv_def)
  have "length (array_keys t (t_sizearray t)) \<le> t_sizearray t"
    unfolding array_keys_def length_map by (metis diff_zero length_filter_le length_upt)
  moreover have "t_sizearray t \<le> 2 ^ 26" using table_coreD(10) [OF c] by (simp add: MAXASIZE_def MAXBITS_def)
  moreover have "length (used_nodes t) \<le> length (t_node t)" by (simp add: used_nodes_def)
  moreover have "length (t_node t) \<le> 2 ^ 26"
    using table_coreD(1,2) [OF c] power_increasing [of "t_lsizenode t" 26 "2::nat"] by (simp add: sizenode_def MAXBITS_def)
  ultimately show ?thesis unfolding used_slots_def by simp
qed

text \<open>A size is a power of two of which more than half is in use, and no larger power of two is.\<close>

definition half_used :: "nat list \<Rightarrow> nat \<Rightarrow> bool" where
  "half_used ks n \<longleftrightarrow> n = 0 \<or> (\<exists>j\<le>MAXBITS. n = 2 ^ j \<and> n div 2 < length (filter (\<lambda>k. k \<le> n) ks))"

definition no_larger :: "nat list \<Rightarrow> nat \<Rightarrow> bool" where
  "no_larger ks n \<longleftrightarrow> (\<forall>j. 2 ^ j div 2 < length (filter (\<lambda>k. k \<le> 2 ^ j) ks) \<longrightarrow> 2 ^ j \<le> n)"

lemma rehash_counts:
  assumes t: "table_inv t"
  shows "\<exists>n. rehash_body nk t ek = resize_body nk t n (hash_need t n + (if in_array n ek then 0 else 1))
    \<and> n \<le> MAXASIZE \<and> half_used (all_keys t ek) n \<and> (distinct (all_keys t ek) \<longrightarrow> no_larger (all_keys t ek) n)"
proof -
  have c: "table_core t" "length (t_array t) = t_sizearray t" using t by (simp_all add: table_inv_def)
  have n0: "nums_ok (replicate (MAXBITS + 1) 0) (array_keys t 0)"
    by (auto simp: nums_ok_def array_keys_def simp del: replicate.simps)
  obtain nums1 where n1: "numusearray t (replicate (MAXBITS + 1) 0) = Ok (nums1, length (array_keys t (t_sizearray t)))"
    "nums_ok nums1 (array_keys t (t_sizearray t))"
    using numusearray_loop_ok [OF n0 table_coreD(10) [OF c(1)] c(2), of 0] by (auto simp: numusearray_def array_keys_def)
  obtain nums2 where n2: "numusehash t nums1 (length (array_keys t (t_sizearray t)))
      = Ok (nums2, length (array_keys t (t_sizearray t)) + length (node_keys t), length (used_nodes t))"
    "nums_ok nums2 (array_keys t (t_sizearray t) @ node_keys t)"
    using numusehash_fold [OF n1(2), of "rev (t_node t)" 0 0]
    by (auto simp: numusehash_def node_keys_def used_nodes_def simp flip: rev_filter)
  obtain nums3 where n3: "countint ek nums2 = Ok (nums3, length (int_key ek))" "nums_ok nums3 (all_keys t ek)"
    using countint_ok [OF n2(2), of ek] by (auto simp: all_keys_def)
  obtain n na where n: "computesizes nums3 (length (all_keys t ek)) = Ok (n, na)"
    "na = length (filter (\<lambda>k. k \<le> n) (all_keys t ek))" "n = 0 \<or> (\<exists>j\<le>MAXBITS. n = 2 ^ j \<and> n div 2 < na)"
    "distinct (all_keys t ek) \<longrightarrow> (\<forall>j. 2 ^ j div 2 < length (filter (\<lambda>k. k \<le> 2 ^ j) (all_keys t ek)) \<longrightarrow> 2 ^ j \<le> n)"
    using computesizes_ok [OF n3(2)] by blast
  have nm: "n \<le> MAXASIZE" using n(3) by (auto simp: MAXASIZE_def intro: power_increasing)
  have "rehash_body nk t ek = resize_body nk t n (used_slots t + 1 - na)"
    using n1(1) n2(1) n3(1) n(1) unfolding rehash_body_def
    by (simp add: all_keys_def used_slots_def add.assoc del: replicate.simps)
  then show ?thesis
    using need_eq(1) [OF nm n(2)] nm n(2-4) by (intro exI [of _ n]) (simp add: half_used_def no_larger_def)
qed

section \<open>Set\<close>

text \<open>\<open>luaH_set\<close> returns the place of the key and changes no entry.\<close>

definition set_ok :: "Table \<Rightarrow> TValue \<Rightarrow> Table \<Rightarrow> slot \<Rightarrow> bool" where
  "set_ok t k t' s \<longleftrightarrow> table_inv t' \<and> slot_ok t' k s \<and> (\<forall>k' v. holds t' k' v = holds t k' v) \<and> t_metatable t' = t_metatable t"

lemma set_free:
  assumes t: "table_inv t" and k: "proper k" "no_nan k"
    and room: "(\<exists>s. slot_ok t k s) \<or> 
      (\<not> t_isdummy t \<and> (i_val (t_node t ! mainposition t k) = VNil \<or> (\<exists>i<length (t_node t). i_key (t_node t ! i) = VNil)))"
  shows "\<exists>t' s. luaH_set_body (newkey (Suc f)) t k = Ok (t', s) \<and> set_ok t k t' s"
proof -
  have c: "table_core t" using t by (simp add: table_inv_def)
  have kn: "k \<noteq> VNil" "\<not> (case k of VNum n \<Rightarrow> luai_numisnan n | _ \<Rightarrow> False)"
    using k by (auto simp: no_nan_def split: TValue.split)
  obtain p where p: "luaH_get t k = Ok p" and so: "case p of Some s \<Rightarrow> slot_ok t k s | None \<Rightarrow> \<forall>s. \<not> slot_ok t k s"
    using luaH_get_spec [OF c] k by (auto simp: get_spec_def)
  show ?thesis
  proof (cases p)
    case (Some s)
    then show ?thesis using p so t by (simp add: luaH_set_body_def set_ok_def table_inv_def)
  next
    case None
    then have no: "\<And>s. \<not> slot_ok t k s" using so by simp
    obtain t' s where n: "newkey_body (newkey f) (t\<lparr>t_flags := 0\<rparr>) k = Ok (t', s)" "ins_ok (t\<lparr>t_flags := 0\<rparr>) k t' s"
      using newkey_free [of "t\<lparr>t_flags := 0\<rparr>" k "newkey f"] c no k room by auto
    then show ?thesis using p None kn t
      by (simp add: luaH_set_body_def ins_ok_def set_ok_def table_inv_def same_shape_def)
  qed
qed

lemma getfreepos_none:
  assumes "getfreepos_loop ns lf = (lf', None)"
  shows "lf' \<le> lf" "lf' \<le> 0"
  using assms by (induction ns lf rule: getfreepos_loop.induct) (auto simp: getfreepos_loop.simps split: if_splits)

lemma getfreepos_some:
  assumes "getfreepos_loop ns lf = (lf', Some n)"
  shows "i_key (ns ! n) = VNil \<and> int n < lf"
  using assms by (induction ns lf rule: getfreepos_loop.induct) (auto simp: getfreepos_loop.simps split: if_splits)

lemma set_grow:
  assumes t: "table_inv t" and k: "proper k" "no_nan k"
    and lf: "t_isdummy t \<or> (\<forall>i<length (t_node t). i_key (t_node t ! i) \<noteq> VNil)"
  shows "rehash_body (newkey (Suc f)) t k = Fail (LuaError ''table overflow'') \<or>
    (\<exists>t' s. rbind (rehash_body (newkey (Suc f)) t k) (\<lambda>t2. luaH_set_body (newkey (Suc f)) t2 k) = Ok (t', s) \<and> set_ok t k t' s)"
proof -
  obtain n where r: "rehash_body (newkey (Suc f)) t k = resize_body (newkey (Suc f)) t n (hash_need t n + (if in_array n k then 0 else 1))"
    and nm: "n \<le> MAXASIZE"
    using rehash_counts [OF t] by blast
  let ?nh = "hash_need t n + (if in_array n k then 0 else 1)"
  have nb: "?nh \<le> 2 ^ 32"
    using need_eq(1) [OF nm refl, of t k] used_slots_bound [OF t] by simp
  show ?thesis
  proof (cases "log2_size ?nh \<le> MAXBITS")
    case True
    obtain t2 where t2: "resize_body (newkey (Suc f)) t n ?nh = Ok t2" "resized t n ?nh t2"
      using resize_ok [OF t nm _ True nb] by fastforce
    have "\<exists>s. slot_ok t2 k s" if "in_array n k"
      using in_array_slot [of t2 k] that t2(2) by (auto simp: resized_def)
    moreover have "\<not> t_isdummy t2 \<and> (\<exists>i<length (t_node t2). i_key (t_node t2 ! i) = VNil)" if o: "\<not> in_array n k"
    proof
      show "\<not> t_isdummy t2" using t2(2) o by (simp add: resized_def)
      have "nkeys (t_node t2) < ?nh" using t2(2) o by (simp add: resized_def)
      also have "?nh \<le> 2 ^ log2_size ?nh" using setnodevector_ok(2) [OF True nb] o by simp
      also have "\<dots> = length (t_node t2)"
        using t2(2) table_coreD(2) [of t2] by (simp add: resized_def table_inv_def sizenode_def)
      finally show "\<exists>i<length (t_node t2). i_key (t_node t2 ! i) = VNil" by (rule nkeys_free)
    qed
    ultimately obtain t' s where "luaH_set_body (newkey (Suc f)) t2 k = Ok (t', s)" "set_ok t2 k t' s"
      using set_free [of t2 k f] t2(2) k unfolding resized_def by blast
    then show ?thesis using r t2 by (auto simp: set_ok_def resized_def)
  next
    case False
    then have "setnodevector u ?nh = Fail (LuaError ''table overflow'')" for u
      by (auto simp: setnodevector_def log2_size_def Let_def split: if_splits)
    moreover have "\<exists>u. (if t_sizearray t < n then setarrayvector t n else Ok t) = Ok u"
      using nm by (auto simp: setarrayvector_def MAX_SIZET_def MAXASIZE_def MAXBITS_def)
    ultimately show ?thesis unfolding r resize_body_def Let_def by auto
  qed
qed

lemma newkey_ok:
  assumes t: "table_inv t" and k: "proper k" "no_nan k" and no: "\<And>s. \<not> slot_ok t k s"
  shows "newkey 2 t k = Fail (LuaError ''table overflow'') \<or> (\<exists>t' s. newkey 2 t k = Ok (t', s) \<and> set_ok t k t' s)"
proof (cases "\<not> t_isdummy t \<and> (i_val (t_node t ! mainposition t k) = VNil \<or> (\<exists>i<length (t_node t). i_key (t_node t ! i) = VNil))")
  let ?nk = "newkey (Suc 0)"
  have c: "table_core t" using t by (simp add: table_inv_def)
  have two: "newkey 2 = newkey_body ?nk" by (simp add: numeral_2_eq_2)
  {
    case True
    obtain t' s where "newkey_body ?nk t k = Ok (t', s)" "ins_ok t k t' s"
      using newkey_free [OF c no k] True by blast
    then show ?thesis using t unfolding two by (simp add: ins_ok_def set_ok_def table_inv_def same_shape_def)
  next
    case False
    then have full: "t_isdummy t \<or> (\<forall>i<length (t_node t). i_key (t_node t ! i) \<noteq> VNil)"
      and coll: "i_val (t_node t ! mainposition t k) \<noteq> VNil \<or> t_isdummy t" by auto
    obtain lf r where fp: "getfreepos_loop (t_node t) (t_lastfree t) = (lf, r)" by fastforce
    have r: "r = None"
    proof (cases r)
      case (Some n)
      then have n: "i_key (t_node t ! n) = VNil" "int n < t_lastfree t" using getfreepos_some fp by blast+
      then have "n < length (t_node t)" using table_coreD(7) [OF c] by linarith
      then show ?thesis using n full table_coreD(12) [OF c] by fastforce
    qed
    then have lf: "lf \<le> 0" "lf \<le> t_lastfree t" using getfreepos_none [of "t_node t" "t_lastfree t" lf] fp by auto
    let ?t2 = "t\<lparr>t_lastfree := lf\<rparr>"
    have mp: "mainposition ?t2 = mainposition t" by (rule mainposition_lsize) simp
    have c2: "table_core ?t2"
      using c full lf unfolding table_core_def mp by (auto simp: sizenode_def)
    have h2: "holds ?t2 k' v = holds t k' v" for k' v
      unfolding holds_iff [OF c2] holds_iff [OF c] by simp
    have "table_inv ?t2" using c2 t by (simp add: table_inv_def)
    from set_grow [OF this k, of 0] full
    have g2: "rehash_body ?nk ?t2 k = Fail (LuaError ''table overflow'') \<or>
      (\<exists>t' s. rbind (rehash_body ?nk ?t2 k) (\<lambda>t2. luaH_set_body ?nk t2 k) = Ok (t', s) \<and> set_ok ?t2 k t' s)"
      by simp
    have "getfreepos t = (?t2, None)" using fp r by (simp add: getfreepos_def)
    then have "newkey 2 t k = rbind (rehash_body ?nk ?t2 k) (\<lambda>t2. luaH_set_body ?nk t2 k)"
      using coll unfolding two newkey_body_def Let_def by auto
    then show ?thesis using g2 by (auto simp: set_ok_def h2)
  }
qed

lemma luaH_set_ok:
  assumes t: "table_inv t" and k: "proper k" "no_nan k"
  shows "luaH_set t k = Fail (LuaError ''table overflow'') \<or> (\<exists>t' s. luaH_set t k = Ok (t', s) \<and> set_ok t k t' s)"
proof -
  let ?t1 = "t\<lparr>t_flags := 0\<rparr>"
  have c: "table_core t" and t1: "table_inv ?t1" using t by (simp_all add: table_inv_def)
  have kn: "k \<noteq> VNil" "\<not> (case k of VNum n \<Rightarrow> luai_numisnan n | _ \<Rightarrow> False)"
    using k by (auto simp: no_nan_def split: TValue.split)
  obtain p where p: "luaH_get t k = Ok p" "case p of Some s \<Rightarrow> slot_ok t k s | None \<Rightarrow> \<forall>s. \<not> slot_ok t k s"
    using luaH_get_spec [OF c] k by (auto simp: get_spec_def)
  show ?thesis
  proof (cases p)
    case (Some s)
    then show ?thesis using p t by (simp add: luaH_set_def luaH_set_body_def set_ok_def table_inv_def)
  next
    case None
    then have "luaH_set t k = newkey 2 ?t1 k"
      using p kn unfolding luaH_set_def luaH_set_body_def Let_def by simp
    then show ?thesis using newkey_ok [OF t1 k] p None by (simp add: set_ok_def)
  qed
qed

lemma luaH_setnum_ok:
  assumes t: "table_inv t" and j: "- (2 ^ 31) \<le> j" "j < 2 ^ 31"
  shows "luaH_setnum t j = Fail (LuaError ''table overflow'') \<or>
    (\<exists>t' s. luaH_setnum t j = Ok (t', s) \<and> set_ok t (VNum (cast_num j)) t' s)"
proof -
  have c: "table_core t" using t by (simp add: table_inv_def)
  have k: "proper (VNum (cast_num j))" "no_nan (VNum (cast_num j))"
    using j cast_num_finite [of j] by (auto simp: proper_def no_nan_def luai_numisnan_def luai_numeq_def)
  obtain p where p: "luaH_getnum t j = Ok p" "case p of Some s \<Rightarrow> slot_ok t (VNum (cast_num j)) s | None \<Rightarrow> \<forall>s. \<not> slot_ok t (VNum (cast_num j)) s"
    using getnum_spec [OF c j] by (auto simp: get_spec_def)
  then show ?thesis
    using t newkey_ok [OF t k] by (cases p) (simp_all add: luaH_setnum_def luaH_setnum_body_def set_ok_def)
qed

lemma luaH_setstr_ok:
  assumes t: "table_inv t"
  shows "luaH_setstr t s = Fail (LuaError ''table overflow'') \<or>
    (\<exists>t' p. luaH_setstr t s = Ok (t', p) \<and> set_ok t (VStr s) t' p)"
proof -
  have c: "table_core t" using t by (simp add: table_inv_def)
  have k: "proper (VStr s)" "no_nan (VStr s)" by (auto simp: proper_def no_nan_def)
  obtain p where p: "luaH_getstr t s = Ok p" "case p of Some q \<Rightarrow> slot_ok t (VStr s) q | None \<Rightarrow> \<forall>q. \<not> slot_ok t (VStr s) q"
    using getstr_spec [OF c] by (auto simp: get_spec_def)
  then show ?thesis
    using t newkey_ok [OF t k] by (cases p) (simp_all add: luaH_setstr_def luaH_setstr_body_def set_ok_def)
qed

end
