(* ===== verification/LuaTableProps.thy ===== *)
theory LuaTableProps
  imports LuaTableResize
begin

text \<open>
  The contract of Lua tables: the interface of a key-value store (a locale, with the facts that
  its clients use), its interpretation on the tables of ltable.c, and what the exported
  operations promise: store and lookup, growth of the array part, the choice of its size,
  traversal with \<open>luaH_next\<close>, and the boundary that \<open>luaH_getn\<close> returns.
\<close>

section \<open>The interface of a key-value store\<close>

text \<open>What the clients of tables rely on: a store gives the value back for every equal key and
leaves the values of the other keys alone. A store may fail; then nothing is promised.\<close>

locale key_store =
  fixes inv :: "'t \<Rightarrow> bool"
    and okey :: "'k \<Rightarrow> bool"
    and same_key :: "'k \<Rightarrow> 'k \<Rightarrow> bool"
    and fetch :: "'t \<Rightarrow> 'k \<Rightarrow> 'v"
    and put :: "'t \<Rightarrow> 'k \<Rightarrow> 'v \<Rightarrow> 't res"
  assumes put_inv: "inv t \<Longrightarrow> okey k \<Longrightarrow> put t k v = Ok t' \<Longrightarrow> inv t'"
    and fetch_put: "inv t \<Longrightarrow> okey k \<Longrightarrow> okey k' \<Longrightarrow> put t k v = Ok t' \<Longrightarrow>
      fetch t' k' = (if same_key k k' then v else fetch t k')"
    and same_refl: "okey k \<Longrightarrow> same_key k k"
begin

lemma fetch_same: "inv t \<Longrightarrow> okey k \<Longrightarrow> put t k v = Ok t' \<Longrightarrow> fetch t' k = v"
  by (simp add: fetch_put same_refl)

text \<open>A sequence of stores: the last one with the key determines the value.\<close>

lemma fetch_puts:
  assumes "inv t" "\<forall>(k, v)\<in>set kvs. okey k" "okey k'" "foldM (\<lambda>(k, v) t. put t k v) kvs t = Ok t'"
  shows "inv t' \<and> fetch t' k' = (case find (\<lambda>(k, v). same_key k k') (rev kvs) of Some (k, v) \<Rightarrow> v | None \<Rightarrow> fetch t k')"
  using assms(1,2,4)
proof (induction kvs arbitrary: t' rule: rev_induct)
  case (snoc kv kvs)
  obtain k v where kv: "kv = (k, v)" by fastforce
  from snoc.prems(3) obtain t1 where t1: "foldM (\<lambda>(k, v) t. put t k v) kvs t = Ok t1" "put t1 k v = Ok t'"
    by (auto simp: kv rbind_Ok_iff)
  then have i: "inv t1 \<and> fetch t1 k' = (case find (\<lambda>(k, v). same_key k k') (rev kvs) of Some (k, v) \<Rightarrow> v | None \<Rightarrow> fetch t k')"
    using snoc.IH [OF snoc.prems(1) _ t1(1)] snoc.prems(2) by auto
  moreover have "inv t'" "fetch t' k' = (if same_key k k' then v else fetch t1 k')"
    using i put_inv [OF _ _ t1(2)] fetch_put [OF _ _ assms(3) t1(2)] snoc.prems(2) kv by auto
  ultimately show ?case by (simp add: kv)
qed simp

lemma fetch_puts_distinct:
  assumes "inv t" "\<forall>(k, v)\<in>set kvs. okey k" "foldM (\<lambda>(k, v) t. put t k v) kvs t = Ok t'"
    and "(k, v) \<in> set kvs" "\<forall>(k', v')\<in>set kvs. same_key k' k \<longrightarrow> v' = v"
  shows "fetch t' k = v"
proof -
  have ok: "okey k" using assms(2,4) by auto
  obtain k' v' where f: "find (\<lambda>(k', v). same_key k' k) (rev kvs) = Some (k', v')"
    using assms(4) same_refl [OF ok] by (cases "find (\<lambda>(k', v). same_key k' k) (rev kvs)") (auto simp: find_None_iff)
  then have "(k', v') \<in> set kvs" "same_key k' k"
    by (auto simp: find_Some_iff) (metis nth_mem length_rev set_rev)
  then have "v' = v" using assms(5) by auto
  then show ?thesis using fetch_puts [OF assms(1,2) ok assms(3)] f by simp
qed

end

section \<open>Tables implement it\<close>

text \<open>Reading and writing a value of a table (\<open>lua_rawget\<close>, \<open>lua_rawset\<close> without the stack).\<close>

definition table_get :: "Table \<Rightarrow> TValue \<Rightarrow> TValue res" where
  "table_get t k = rbind (luaH_get t k) (\<lambda>p. Ok (case p of None \<Rightarrow> VNil | Some s \<Rightarrow> slot_val t s))"

definition table_put :: "Table \<Rightarrow> TValue \<Rightarrow> TValue \<Rightarrow> Table res" where
  "table_put t k v = rbind (luaH_set t k) (\<lambda>(t', s). Ok (slot_set t' s v))"

definition table_val :: "Table \<Rightarrow> TValue \<Rightarrow> TValue" where
  "table_val t k = (case table_get t k of Ok v \<Rightarrow> v | Fail _ \<Rightarrow> VNil)"

definition valid_key :: "TValue \<Rightarrow> bool" where
  "valid_key k \<longleftrightarrow> proper k \<and> no_nan k"

lemma table_get_holds:
  assumes "table_inv t" "proper k \<or> k = VNil"
  shows "\<exists>v. table_get t k = Ok v \<and> (\<forall>w. w \<noteq> VNil \<longrightarrow> (holds t k w \<longleftrightarrow> v = w))"
proof -
  have c: "table_core t" using assms by (simp add: table_inv_def)
  obtain p where "luaH_get t k = Ok p" "case p of Some s \<Rightarrow> slot_ok t k s | None \<Rightarrow> \<forall>s. \<not> slot_ok t k s"
    using luaH_get_spec [OF c assms(2)] by (auto simp: get_spec_def)
  then show ?thesis
    using slot_ok_unique [OF c] by (cases p) (auto simp: table_get_def holds_def)
qed

lemma table_val_iff:
  assumes "table_inv t" "proper k \<or> k = VNil" "w \<noteq> VNil"
  shows "table_val t k = w \<longleftrightarrow> holds t k w"
  using table_get_holds [OF assms(1,2)] assms(3) by (auto simp: table_val_def)

lemma table_val_eqI:
  assumes "table_inv t" "proper k \<or> k = VNil" "table_inv t'" "proper k' \<or> k' = VNil" "\<And>w. holds t k w = holds t' k' w"
  shows "table_val t k = table_val t' k'"
  using table_val_iff [OF assms(1,2)] table_val_iff [OF assms(3,4)] assms(5) by metis

lemma table_put_ok:
  assumes "table_inv t" "valid_key k" "table_put t k v = Ok t'"
  shows "table_inv t'" "t_metatable t' = t_metatable t"
    "\<And>k' w. holds t' k' w \<longleftrightarrow> (if luaO_rawequalObj k k' then w = v \<and> w \<noteq> VNil else holds t k' w)"
proof -
  from assms(3) obtain t1 s where s: "luaH_set t k = Ok (t1, s)" "t' = slot_set t1 s v"
    by (auto simp: table_put_def rbind_Ok_iff)
  then have so: "set_ok t k t1 s" using luaH_set_ok [OF assms(1), of k] assms(2) by (auto simp: valid_key_def)
  then have c: "table_core t1" "slot_ok t1 k s" by (auto simp: set_ok_def table_inv_def)
  show "table_inv t'" using slot_set_core [OF c] so s by (simp add: table_inv_def set_ok_def)
  show "t_metatable t' = t_metatable t" using so s by (simp add: set_ok_def)
  show "holds t' k' w \<longleftrightarrow> (if luaO_rawequalObj k k' then w = v \<and> w \<noteq> VNil else holds t k' w)" for k' w
    using slot_set_holds [OF c refl] so s by (simp add: set_ok_def)
qed

interpretation tbl: key_store table_inv valid_key luaO_rawequalObj table_val table_put
proof unfold_locales
  fix t k v t' assume a: "table_inv t" "valid_key k" "table_put t k v = Ok t'"
  then show "table_inv t'" by (rule table_put_ok)
  fix k' assume k': "valid_key k'"
  show "table_val t' k' = (if luaO_rawequalObj k k' then v else table_val t k')"
  proof -
    note h = table_put_ok(3) [OF a, of k'] and i' = table_put_ok(1) [OF a]
    have p: "proper k' \<or> k' = VNil" using k' by (simp add: valid_key_def)
    show ?thesis
      using table_val_iff [OF i' p] table_val_iff [OF a(1) p] h by (metis (full_types))
  qed
next
  fix k assume "valid_key k"
  then show "luaO_rawequalObj k k" by (auto simp: luaO_rawequalObj_refl valid_key_def no_nan_def)
qed

section \<open>Traversal\<close>

text \<open>The positions of a table, array part first, with their keys and values.\<close>

definition pos_val :: "Table \<Rightarrow> nat \<Rightarrow> TValue" where
  "pos_val t p = (if p < t_sizearray t then t_array t ! p else i_val (t_node t ! (p - t_sizearray t)))"

definition pos_key :: "Table \<Rightarrow> nat \<Rightarrow> TValue" where
  "pos_key t p = (if p < t_sizearray t then VNum (cast_num (int p + 1)) else i_key (t_node t ! (p - t_sizearray t)))"

definition used_from :: "Table \<Rightarrow> nat \<Rightarrow> nat list" where
  "used_from t i = filter (\<lambda>p. pos_val t p \<noteq> VNil) [i..<t_sizearray t + sizenode t]"

definition table_entries :: "Table \<Rightarrow> (TValue \<times> TValue) list" where
  "table_entries t = map (\<lambda>p. (pos_key t p, pos_val t p)) (used_from t 0)"

definition head_opt :: "'a list \<Rightarrow> 'a option" where
  "head_opt xs = (case xs of [] \<Rightarrow> None | x # _ \<Rightarrow> Some x)"

lemma head_opt_append: "head_opt (xs @ ys) = (case head_opt xs of Some x \<Rightarrow> Some x | None \<Rightarrow> head_opt ys)"
  by (cases xs) (simp_all add: head_opt_def)

lemma next_array_eq:
  "\<forall>i\<in>set is. i < t_sizearray t \<Longrightarrow>
   next_array t is = head_opt (map (\<lambda>p. (pos_key t p, pos_val t p)) (filter (\<lambda>p. pos_val t p \<noteq> VNil) is))"
  by (induction "is") (simp_all add: head_opt_def pos_key_def pos_val_def)

lemma next_node_eq:
  "next_node t is = head_opt (map (\<lambda>p. (pos_key t p, pos_val t p)) (filter (\<lambda>p. pos_val t p \<noteq> VNil) (map (\<lambda>j. t_sizearray t + j) is)))"
  by (induction "is") (simp_all add: head_opt_def pos_key_def pos_val_def)

lemma luaH_next_eq:
  assumes "findindex t key = Ok i0"
  shows "luaH_next t key = Ok (head_opt (map (\<lambda>p. (pos_key t p, pos_val t p)) (used_from t (nat (i0 + 1)))))"
proof -
  let ?A = "t_sizearray t" and ?i = "nat (i0 + 1)"
  have m: "map (\<lambda>j. ?A + j) [max ?i ?A - ?A..<sizenode t] = [max ?i ?A..<?A + sizenode t]"
    by (rule nth_equalityI) (auto simp: max_def)
  have "[?i..<?A + sizenode t] = [?i..<?A] @ [max ?i ?A..<?A + sizenode t]"
  proof (cases "?i \<le> ?A")
    case True
    then show ?thesis using upt_add_eq_append [of ?i ?A "sizenode t"] by (simp add: max_def)
  qed (simp add: max_def)
  then show ?thesis
    using next_array_eq [of "[?i..<?A]" t] m
    by (simp add: luaH_next_def assms Let_def next_node_eq used_from_def head_opt_append split: option.split)
qed

lemma sizenode_length: "table_inv t \<Longrightarrow> length (t_node t) = sizenode t"
  by (auto simp: table_inv_def dest: table_coreD(2))

lemma findindex_pos:
  assumes t: "table_inv t" and nd: "\<forall>n\<in>set (t_node t). \<forall>w. i_key n \<noteq> VDead w"
    and p: "p < t_sizearray t + sizenode t" "pos_val t p \<noteq> VNil"
  shows "findindex t (pos_key t p) = Ok (int p)"
proof (cases "p < t_sizearray t")
  case True
  have c: "table_core t" using t by (simp add: table_inv_def)
  have "p < 2 ^ 30" using True table_coreD(10) [OF c] by (simp add: MAXASIZE_def MAXBITS_def)
  then show ?thesis using True arrayindex_succ [of p] by (simp add: findindex_def pos_key_def)
next
  case False
  have c: "table_core t" using t by (simp add: table_inv_def)
  define i where "i = p - t_sizearray t"
  have i: "i < length (t_node t)" using False p(1) sizenode_length [OF t] by (simp add: i_def)
  let ?k = "i_key (t_node t ! i)"
  have v: "i_val (t_node t ! i) \<noteq> VNil" using p(2) False by (simp add: pos_val_def i_def)
  have pr: "proper ?k" and h: "no_nan ?k" using holds_node(2,3) [OF t nth_mem [OF i] v] by simp_all
  then have self: "luaO_rawequalObj ?k ?k" by (auto simp: luaO_rawequalObj_refl no_nan_def)
  have "\<not> (0 < arrayindex ?k \<and> arrayindex ?k \<le> int (t_sizearray t))"
    using table_coreD(8) [OF c i] by linarith
  moreover have "chain_find (t_node t) (\<lambda>n. luaO_rawequalObj (i_key n) ?k \<or> is_dead_of (i_key n) ?k) (length (t_node t))
      (mainposition t ?k) = Ok (Some i)"
  proof (rule chain_find_ok [OF table_coreD(3,11) [OF c], of "\<lambda>n. luaO_rawequalObj (i_key n) ?k \<or> is_dead_of (i_key n) ?k" ?k])
    fix j
    assume f: "chain_find (t_node t) (\<lambda>n. luaO_rawequalObj (i_key n) ?k \<or> is_dead_of (i_key n) ?k) (length (t_node t)) (mainposition t ?k) = Ok (Some j)"
      and e: "luaO_rawequalObj (i_key (t_node t ! j)) ?k \<or> is_dead_of (i_key (t_node t ! j)) ?k" and j: "j < length (t_node t)"
    have "\<not> is_dead_of (i_key (t_node t ! j)) ?k"
      using nd nth_mem [OF j] by (cases "i_key (t_node t ! j)") (auto simp: is_dead_of_def)
    then have "luaO_rawequalObj ?k (i_key (t_node t ! j))" using e luaO_rawequalObj_sym by simp
    then have "i = j" using keys_okD(3) [OF table_coreD(4) [OF c] i j pr] by simp
    then show ?thesis using f by simp
  next
    assume "\<And>j. (nstep (t_node t))\<^sup>*\<^sup>* (mainposition t ?k) j \<Longrightarrow> \<not> (luaO_rawequalObj (i_key (t_node t ! j)) ?k \<or> is_dead_of (i_key (t_node t ! j)) ?k)"
    then show ?thesis using keys_okD(1) [OF table_coreD(4) [OF c] i pr] self by blast
  qed
  ultimately show ?thesis using False pr by (auto simp: findindex_def pos_key_def Let_def i_def)
qed

lemma filter_upt_split:
  assumes "filter P [a..<b] = xs @ p # ys"
  shows "filter P [Suc p..<b] = ys" "a \<le> p" "p < b" "P p"
proof -
  from assms have "p \<in> set (filter P [a..<b])" by simp
  then show p: "a \<le> p" "p < b" "P p" by auto
  have "[a..<b] = [a..<p] @ p # [Suc p..<b]" using p by (metis upt_add_eq_append upt_conv_Cons le_add_diff_inverse less_imp_le)
  then have e: "filter P [a..<p] @ p # filter P [Suc p..<b] = xs @ p # ys" using assms p(3) by simp
  have "p \<notin> set (filter P [a..<p])" "p \<notin> set (filter P [Suc p..<b])" by simp_all
  from append_Cons_eq_iff [OF this, of xs ys] e show "filter P [Suc p..<b] = ys" by simp
qed

lemma entries_split:
  assumes "table_entries t = xs @ (k, v) # ys"
  obtains p where "k = pos_key t p" "v = pos_val t p" "v \<noteq> VNil" "p < t_sizearray t + sizenode t"
    "ys = map (\<lambda>p. (pos_key t p, pos_val t p)) (used_from t (Suc p))"
proof -
  from assms obtain us p ws where u: "used_from t 0 = us @ p # ws" "(k, v) = (pos_key t p, pos_val t p)"
      "ys = map (\<lambda>p. (pos_key t p, pos_val t p)) ws"
    unfolding table_entries_def map_eq_append_conv map_eq_Cons_conv by blast
  from filter_upt_split [OF u(1) [unfolded used_from_def]] that u show thesis by (simp add: used_from_def)
qed

text \<open>The entries listed are exactly those that the table holds, each key once.\<close>

lemma table_entries_holds:
  assumes t: "table_inv t"
  shows "(k, v) \<in> set (table_entries t) \<Longrightarrow> holds t k v"
    "holds t k v \<Longrightarrow> \<exists>k'. luaO_rawequalObj k' k \<and> (k', v) \<in> set (table_entries t)"
proof -
  have c: "table_core t" using t by (simp add: table_inv_def)
  note len = sizenode_length [OF t]
  show "holds t k v" if "(k, v) \<in> set (table_entries t)"
  proof -
    from that obtain p where p: "p < t_sizearray t + sizenode t" "k = pos_key t p" "v = pos_val t p" "v \<noteq> VNil"
      by (auto simp: table_entries_def used_from_def)
    show ?thesis
    proof (cases "p < t_sizearray t")
      case True
      then show ?thesis using p holds_array [OF t True] by (simp add: pos_key_def pos_val_def)
    next
      case False
      then have "t_node t ! (p - t_sizearray t) \<in> set (t_node t)" using p len by simp
      then show ?thesis using p False holds_node(1) [OF t] by (simp add: pos_key_def pos_val_def)
    qed
  qed
  show "\<exists>k'. luaO_rawequalObj k' k \<and> (k', v) \<in> set (table_entries t)" if "holds t k v"
  proof -
    from that obtain s where v: "v \<noteq> VNil" and s: "slot_ok t k s" "slot_val t s = v" by (auto simp: holds_def)
    define p where "p = (case s of InArray i \<Rightarrow> i | InNode i \<Rightarrow> t_sizearray t + i)"
    have "p < t_sizearray t + sizenode t" "pos_val t p = v" "luaO_rawequalObj (pos_key t p) k"
    proof -
      show "p < t_sizearray t + sizenode t" "pos_val t p = v"
        using s len by (auto simp: p_def slot_ok_def slot_val_def pos_val_def split: slot.splits)
      show "luaO_rawequalObj (pos_key t p) k"
      proof (cases s)
        case (InArray i)
        then have "i < 2 ^ 30" "arrayindex k = int i + 1" using s table_coreD(10) [OF c] by (auto simp: slot_ok_def MAXASIZE_def MAXBITS_def)
        then have "luaO_rawequalObj k (VNum (cast_num (int i + 1)))" using arrayindex_iff [of "int i + 1" k] by auto
        then show ?thesis using InArray s luaO_rawequalObj_sym by (auto simp: p_def pos_key_def slot_ok_def)
      qed (use s in \<open>auto simp: p_def pos_key_def slot_ok_def\<close>)
    qed
    then show ?thesis using v by (auto simp: table_entries_def used_from_def intro!: exI [of _ "pos_key t p"])
  qed
qed

text \<open>C34: starting from nil, \<open>luaH_next\<close> visits the entries of the table in order, each once, and then
ends: the successor of an entry of the list is the next entry, also for a table that is modified
only by assigning to existing fields (the claim holds for each table state by itself).\<close>

theorem luaH_next_enumerates:
  assumes "table_inv t" and "\<forall>n\<in>set (t_node t). \<forall>w. i_key n \<noteq> VDead w"
  shows "luaH_next t VNil = Ok (head_opt (table_entries t)) \<and>
    (\<forall>xs k v ys. table_entries t = xs @ (k, v) # ys \<longrightarrow> luaH_next t k = Ok (head_opt ys))"
proof (intro conjI allI impI)
  have "findindex t VNil = Ok (- 1)" by (simp add: findindex_def)
  from luaH_next_eq [OF this] show "luaH_next t VNil = Ok (head_opt (table_entries t))"
    by (simp add: table_entries_def)
next
  fix xs k v ys assume e: "table_entries t = xs @ (k, v) # ys"
  obtain p where p: "k = pos_key t p" "v = pos_val t p" "v \<noteq> VNil" "p < t_sizearray t + sizenode t"
    "ys = map (\<lambda>p. (pos_key t p, pos_val t p)) (used_from t (Suc p))"
    by (rule entries_split [OF e])
  have "findindex t k = Ok (int p)" using findindex_pos [OF assms p(4)] p by simp
  from luaH_next_eq [OF this] show "luaH_next t k = Ok (head_opt ys)"
    by (simp add: p(5) nat_add_distrib)
qed

section \<open>New tables\<close>

lemma luaH_new_ok:
  assumes "na \<le> MAXASIZE" "log2_size nh \<le> MAXBITS" "nh \<le> 2 ^ 32"
  obtains t where "luaH_new na nh = Ok t" "table_inv t" "t_sizearray t = na" "t_isdummy t = (nh = 0)"
    "t_lsizenode t = log2_size nh" "t_metatable t = 0" "\<And>k v. \<not> holds t k v"
    "t_node t = replicate (2 ^ log2_size nh) empty_node" "t_array t = replicate na VNil"
proof -
  let ?a = "\<lparr>t_flags = 255, t_lsizenode = 0, t_metatable = 0, t_array = [], t_sizearray = 0,
               t_node = [empty_node], t_isdummy = True, t_lastfree = 0\<rparr>"
  let ?b = "?a\<lparr>t_array := replicate na VNil, t_sizearray := na\<rparr>"
  let ?r = "?b\<lparr>t_node := replicate (2 ^ log2_size nh) empty_node, t_isdummy := (nh = 0),
       t_lsizenode := log2_size nh, t_lastfree := if nh = 0 then 0 else 2 ^ log2_size nh\<rparr>"
  have "setarrayvector ?a na = Ok ?b"
    using assms(1) by (simp add: setarrayvector_def MAX_SIZET_def MAXASIZE_def MAXBITS_def)
  then have new: "luaH_new na nh = Ok ?r"
    using setnodevector_ok(1) [OF assms(2,3), of ?b] unfolding luaH_new_def Let_def by simp
  have fc: "table_core ?r" "holds ?r k v \<longleftrightarrow> v \<noteq> VNil \<and> (\<exists>i<t_sizearray ?r. arrayindex k = int i + 1 \<and> t_array ?r ! i = v)" for k v
    using fresh_core [of ?r] assms by (simp_all add: log2_size_def)
  show thesis by (rule that [OF new]) (use fc in \<open>auto simp: table_inv_def\<close>)
qed

lemma table_val_nil: "table_inv t \<Longrightarrow> proper k \<or> k = VNil \<Longrightarrow> table_val t k = VNil \<longleftrightarrow> (\<forall>w. \<not> holds t k w)"
  using table_val_iff [of t k] by (metis holds_def)

section \<open>The length operator\<close>

abbreviation int_val :: "Table \<Rightarrow> nat \<Rightarrow> TValue" where
  "int_val t i \<equiv> table_val t (VNum (cast_num (int i)))"

lemma num_key_proper: "proper (VNum n)"
  by (simp add: proper_def)

lemma num_absent_val:
  assumes "table_inv t" "j < 2 ^ 31"
  shows "num_absent t j = Ok (int_val t j = VNil)"
proof -
  have c: "table_core t" using assms by (simp add: table_inv_def)
  have j: "sint (of_nat j :: u32) = int j"
    using sint_word_of_int_id [of "int j"] assms(2) by simp
  obtain p where p: "luaH_getnum t (int j) = Ok p"
    "case p of Some s \<Rightarrow> slot_ok t (VNum (cast_num (int j))) s | None \<Rightarrow> \<forall>s. \<not> slot_ok t (VNum (cast_num (int j))) s"
    using getnum_spec [OF c, of "int j"] assms(2) by (auto simp: get_spec_def)
  have "int_val t j = (case p of None \<Rightarrow> VNil | Some s \<Rightarrow> slot_val t s)"
  proof (cases "case p of None \<Rightarrow> VNil | Some s \<Rightarrow> slot_val t s")
    case VNil
    then have "\<not> holds t (VNum (cast_num (int j))) w" for w
      using p(2) slot_ok_unique [OF c] by (auto simp: holds_def split: option.splits)
    then show ?thesis using VNil table_val_nil [OF assms(1)] num_key_proper by metis
  qed (use p table_val_iff [OF assms(1)] num_key_proper in \<open>auto simp: holds_def split: option.splits\<close>)
  then show ?thesis by (simp add: num_absent_def j p(1) split: option.split)
qed

lemma binary_search_ok:
  assumes "i < j" "\<And>m. i < m \<Longrightarrow> m < j \<Longrightarrow> absent m = Ok (A m)" "A j" "i = 0 \<or> \<not> A i"
  shows "\<exists>n. binary_search absent i j = Ok n \<and> i \<le> n \<and> n < j \<and> A (n + 1) \<and> (n = 0 \<or> \<not> A n)"
  using assms
proof (induction absent i j rule: binary_search.induct)
  case (1 absent i j)
  let ?m = "(i + j) div 2"
  show ?case
  proof (cases "1 < j - i")
    case False
    then have "j = i + 1" using "1.prems"(1) by simp
    then show ?thesis using "1.prems" by (auto simp: binary_search.simps [of absent i])
  next
    case True
    then have m: "i < ?m" "?m < j" by auto
    then have am: "absent ?m = Ok (A ?m)" by (rule "1.prems"(2))
    show ?thesis
    proof (cases "A ?m")
      case a: True
      have "\<exists>n. binary_search absent i ?m = Ok n \<and> i \<le> n \<and> n < ?m \<and> A (n + 1) \<and> (n = 0 \<or> \<not> A n)"
        by (rule "1.IH"(1) [OF True am a m(1) _ a "1.prems"(4)]) (use m "1.prems"(2) in auto)
      then show ?thesis using True am a m(2) by (auto simp: binary_search.simps [of absent i j])
    next
      case a: False
      have "\<exists>n. binary_search absent ?m j = Ok n \<and> ?m \<le> n \<and> n < j \<and> A (n + 1) \<and> (n = 0 \<or> \<not> A n)"
        by (rule "1.IH"(2) [OF True am a m(2) _ "1.prems"(3)]) (use m "1.prems"(2) a in auto)
      then show ?thesis using True am a m(1) by (auto simp: binary_search.simps [of absent i j])
    qed
  qed
qed

lemma present_bound:
  assumes t: "table_inv t" and n: "n < 2 ^ 31" and p: "\<And>i. 1 \<le> i \<Longrightarrow> i \<le> n \<Longrightarrow> int_val t i \<noteq> VNil"
  shows "n \<le> t_sizearray t + length (t_node t)"
proof -
  have c: "table_core t" using t by (simp add: table_inv_def)
  let ?k = "\<lambda>i::nat. VNum (cast_num (int i))"
  have ex: "\<exists>s. slot_ok t (?k i) s" if "i \<in> {1..n}" for i
    using p [of i] that table_val_nil [OF t, of "?k i"] num_key_proper by (auto simp: holds_def)
  define f where "f i = (SOME s. slot_ok t (?k i) s)" for i
  have f: "slot_ok t (?k i) (f i)" if "i \<in> {1..n}" for i
    unfolding f_def using ex [OF that] by (rule someI_ex)
  have "inj_on f {1..n}"
  proof (rule inj_onI)
    fix i j assume ij: "i \<in> {1..n}" "j \<in> {1..n}" "f i = f j"
    have "slot_ok t (?k j) (f i)" using f [OF ij(2)] ij(3) by simp
    then have "luaO_rawequalObj (?k i) (?k j)" by (rule slot_ok_rawequal [OF c f [OF ij(1)]])
    then show "i = j" using ij(1,2) n by (simp add: cast_num_eq_iff)
  qed
  moreover have "f ` {1..n} \<subseteq> InArray ` {..<t_sizearray t} \<union> InNode ` {..<length (t_node t)}"
  proof
    fix s assume "s \<in> f ` {1..n}"
    then obtain i where "i \<in> {1..n}" "s = f i" by blast
    then have "slot_ok t (?k i) s" using f by simp
    then show "s \<in> InArray ` {..<t_sizearray t} \<union> InNode ` {..<length (t_node t)}"
      by (cases s) (auto simp: slot_ok_def)
  qed
  ultimately have "card {1..n} \<le> card (InArray ` {..<t_sizearray t} \<union> InNode ` {..<length (t_node t)})"
    by (metis card_image card_mono finite_Un finite_imageI finite_lessThan)
  also have "\<dots> \<le> card (InArray ` {..<t_sizearray t}) + card (InNode ` {..<length (t_node t)})" by (rule card_Un_le)
  also have "\<dots> \<le> t_sizearray t + length (t_node t)"
    using card_image_le [of "{..<t_sizearray t}" InArray] card_image_le [of "{..<length (t_node t)}" InNode] by simp
  finally show ?thesis by simp
qed

lemma size_bound: "table_inv t \<Longrightarrow> t_sizearray t + length (t_node t) \<le> 2 ^ 27"
proof -
  assume "table_inv t"
  then have c: "table_core t" by (simp add: table_inv_def)
  show ?thesis
    using table_coreD(10) [OF c] table_coreD(1,2) [OF c] power_increasing [of "t_lsizenode t" 26 "2::nat"]
    by (simp add: sizenode_def MAXBITS_def MAXASIZE_def)
qed

lemma linear_search_ok:
  assumes t: "table_inv t" and i: "1 \<le> i" and p: "\<And>j. 1 \<le> j \<Longrightarrow> j < i \<Longrightarrow> int_val t j \<noteq> VNil"
    and f: "t_sizearray t + length (t_node t) + 2 \<le> i + f" "i \<le> t_sizearray t + length (t_node t) + 1"
  shows "\<exists>n. linear_search t f i = Ok n \<and> (n = 0 \<or> int_val t n \<noteq> VNil) \<and> int_val t (n + 1) = VNil"
  using i p f
proof (induction f arbitrary: i)
  case 0
  then show ?case by simp
next
  case (Suc f)
  have "i < 2 ^ 31" using Suc.prems(4) size_bound [OF t] by simp
  note a = num_absent_val [OF t this]
  show ?case
  proof (cases "int_val t i = VNil")
    case True
    then show ?thesis using Suc.prems(1) Suc.prems(2) [of "i - 1"] a by (cases "i = 1") auto
  next
    case False
    have p: "int_val t j \<noteq> VNil" if "1 \<le> j" "j \<le> i" for j
      using Suc.prems(2) that False by (cases "j = i") auto
    then have "i \<le> t_sizearray t + length (t_node t)"
      using present_bound [OF t \<open>i < 2 ^ 31\<close>] by blast
    then show ?thesis using Suc.IH [of "i + 1"] Suc.prems False a p by simp
  qed
qed

lemma double_search_ok:
  assumes "table_inv t" "i < j" "j \<le> MAX_INT" "i = 0 \<or> int_val t i \<noteq> VNil"
  shows "\<exists>n. double_search t i j = Ok n \<and> (n = 0 \<or> int_val t n \<noteq> VNil) \<and> int_val t (n + 1) = VNil"
  using assms
proof (induction t i j rule: double_search.induct)
  case (1 t i j)
  note t = "1.prems"(1)
  have small: "m < 2 ^ 31" if "m \<le> j" for m using "1.prems"(3) that by (simp add: MAX_INT_def)
  note a = num_absent_val [OF t small [OF order_refl]]
  show ?case
  proof (cases "int_val t j = VNil")
    case True
    have "\<exists>n. binary_search (num_absent t) i j = Ok n \<and> i \<le> n \<and> n < j \<and> int_val t (n + 1) = VNil \<and> (n = 0 \<or> \<not> int_val t n = VNil)"
    proof (rule binary_search_ok [OF "1.prems"(2)])
      show "num_absent t m = Ok (int_val t m = VNil)" if "m < j" for m using num_absent_val [OF t small] that by simp
    qed (use True "1.prems"(4) in auto)
    then show ?thesis using True a by (auto simp: double_search.simps [of t i j])
  next
    case False
    show ?thesis
    proof (cases "j = 0 \<or> MAX_INT < j * 2")
      case True
      then show ?thesis
        using False a linear_search_ok [OF t, of 1 "t_sizearray t + length (t_node t) + 1"]
        by (simp add: double_search.simps [of t i j])
    next
      case big: False
      have "\<exists>n. double_search t j (j * 2) = Ok n \<and> (n = 0 \<or> int_val t n \<noteq> VNil) \<and> int_val t (n + 1) = VNil"
        by (rule "1.IH" [OF a _ big t]) (use False big in auto)
      then show ?thesis using False a big by (simp add: double_search.simps [of t i j])
    qed
  qed
qed

lemma int_val_array:
  assumes t: "table_inv t" and i: "0 < i" "i \<le> t_sizearray t"
  shows "int_val t i = t_array t ! (i - 1)"
proof -
  have c: "table_core t" using t by (simp add: table_inv_def)
  have "i < 2 ^ 31" using i table_coreD(10) [OF c] by (simp add: MAXASIZE_def MAXBITS_def)
  then have s: "slot_ok t (VNum (cast_num (int i))) (InArray (i - 1))"
    using i by (simp add: slot_ok_def)
  show ?thesis
  proof (cases "t_array t ! (i - 1) = VNil")
    case True
    then have "slot_val t s' = VNil" if "slot_ok t (VNum (cast_num (int i))) s'" for s'
      using slot_ok_unique [OF c that s] by (simp add: slot_val_def)
    then have "\<not> holds t (VNum (cast_num (int i))) w" for w by (auto simp: holds_def)
    then show ?thesis using True table_val_nil [OF t] num_key_proper by metis
  next
    case False
    then show ?thesis using s table_val_iff [OF t] num_key_proper by (auto simp: holds_def slot_val_def)
  qed
qed

text \<open>C37: \<open>luaH_getn\<close> returns a boundary of the table: 0 or an index with a value, such that the
next index has none. The searches end: the doubling search before \<open>j\<close> overflows, the linear
search after at most one step more than the table has slots.\<close>

theorem luaH_getn_boundary:
  assumes "table_inv t"
  shows "\<exists>n. luaH_getn t = Ok n \<and> (n = 0 \<or> int_val t n \<noteq> VNil) \<and> int_val t (n + 1) = VNil"
proof -
  have c: "table_core t" using assms by (simp add: table_inv_def)
  let ?j = "t_sizearray t"
  have jb: "?j \<le> 2 ^ 26" using table_coreD(10) [OF c] by (simp add: MAXASIZE_def MAXBITS_def)
  have last: "?j = 0 \<or> int_val t ?j \<noteq> VNil" if "\<not> (0 < ?j \<and> t_array t ! (?j - 1) = VNil)"
    using that int_val_array [OF assms, of ?j] by auto
  consider (array) "0 < ?j \<and> t_array t ! (?j - 1) = VNil" | (dummy) "\<not> (0 < ?j \<and> t_array t ! (?j - 1) = VNil)" "t_isdummy t"
    | (hash) "\<not> (0 < ?j \<and> t_array t ! (?j - 1) = VNil)" "\<not> t_isdummy t" by blast
  then show ?thesis
  proof cases
    case array
    have "\<exists>n. binary_search (\<lambda>m. Ok (t_array t ! (m - 1) = VNil)) 0 ?j = Ok n \<and> 0 \<le> n \<and> n < ?j \<and> t_array t ! (n + 1 - 1) = VNil
        \<and> (n = 0 \<or> \<not> t_array t ! (n - 1) = VNil)"
      by (rule binary_search_ok) (use array in auto)
    then obtain n where n: "binary_search (\<lambda>m. Ok (t_array t ! (m - 1) = VNil)) 0 ?j = Ok n" "n < ?j"
      "t_array t ! n = VNil" "n = 0 \<or> t_array t ! (n - 1) \<noteq> VNil" by auto
    have "int_val t (n + 1) = t_array t ! n" using int_val_array [OF assms, of "n + 1"] n(2) by simp
    moreover have "n = 0 \<or> int_val t n = t_array t ! (n - 1)" using int_val_array [OF assms, of n] n(2) by auto
    moreover have "luaH_getn t = Ok n" using array n(1) by (simp add: luaH_getn_def)
    ultimately show ?thesis using n by (intro exI [of _ n]) auto
  next
    case dummy
    have "\<not> holds t (VNum (cast_num (int (?j + 1)))) w" for w
    proof
      assume "holds t (VNum (cast_num (int (?j + 1)))) w"
      then obtain s where s: "slot_ok t (VNum (cast_num (int (?j + 1)))) s" by (auto simp: holds_def)
      moreover have "arrayindex (VNum (cast_num (int (?j + 1)))) = int ?j + 1"
        using arrayindex_cast_num [of "int (?j + 1)"] jb by simp
      ultimately show False using table_coreD(5) [OF c dummy(2)]
        by (cases s) (auto simp: slot_ok_def empty_node_def)
    qed
    then have "int_val t (?j + 1) = VNil" using table_val_nil [OF assms] num_key_proper by metis
    moreover have "luaH_getn t = Ok ?j" unfolding luaH_getn_def Let_def using dummy by auto
    ultimately show ?thesis using last [OF dummy(1)] by blast
  next
    case hash
    have "luaH_getn t = double_search t ?j (?j + 1)"
      unfolding luaH_getn_def Let_def unbound_search_def using hash by auto
    then show ?thesis
      using double_search_ok [OF assms, of ?j "?j + 1"] last [OF hash(1)] jb by (simp add: MAX_INT_def)
  qed
qed

section \<open>The contract of tables\<close>

text \<open>C2: a store either fails with ``table overflow'' (the hash part would need more than
\<open>2 ^ MAXBITS\<close> nodes) or gives a well-formed table that has the value under the key, and the old
value under every key that is not equal to it. In particular the recursion of \<open>newkey\<close>,
\<open>rehash\<close> and \<open>resize\<close> ends within the depth given, and no chain walk runs out of bounds.\<close>

theorem table_put_get:
  assumes "table_inv t" and "valid_key k"
  shows "table_put t k v = Fail (LuaError ''table overflow'') \<or>
    (\<exists>t'. table_put t k v = Ok t' \<and> table_inv t' \<and>
       (\<forall>k'. valid_key k' \<longrightarrow> table_get t' k' = (if luaO_rawequalObj k k' then Ok v else table_get t k')))"
proof -
  consider (overflow) "luaH_set t k = Fail (LuaError ''table overflow'')" | (ok) t1 s where "luaH_set t k = Ok (t1, s)"
    using luaH_set_ok [of t k] assms by (auto simp: valid_key_def)
  then show ?thesis
  proof cases
    case overflow
    then show ?thesis by (simp add: table_put_def)
  next
    case ok
    then have p: "table_put t k v = Ok (slot_set t1 s v)" by (simp add: table_put_def)
    note i' = table_put_ok(1) [OF assms p]
    have "table_get (slot_set t1 s v) k' = (if luaO_rawequalObj k k' then Ok v else table_get t k')" if k': "valid_key k'" for k'
    proof -
      have pr: "proper k' \<or> k' = VNil" using k' by (simp add: valid_key_def)
      obtain w w' where w: "table_get t k' = Ok w" "table_get (slot_set t1 s v) k' = Ok w'"
        using table_get_holds [OF assms(1) pr] table_get_holds [OF i' pr] by blast
      then show ?thesis using tbl.fetch_put [OF assms k' p] by (simp add: table_val_def split: if_splits)
    qed
    then show ?thesis using p i' by blast
  qed
qed

lemma log2_size_4: "log2_size 4 = 2"
proof -
  have "floorlog 2 (3 :: nat) = Suc 1" by (rule floorlog2_eqI) simp_all
  then show ?thesis by (simp add: log2_size_def ceillog2_def luaO_log2_eq)
qed

lemma new_table_ex:
  assumes "na \<le> 4" "nh = 0 \<or> nh = 4"
  shows "\<exists>t. luaH_new na nh = Ok t \<and> table_inv t \<and> t_sizearray t = na \<and> t_isdummy t = (nh = 0) \<and> (\<forall>k v. \<not> holds t k v) \<and>
    t_node t = replicate (2 ^ log2_size nh) empty_node \<and> t_metatable t = 0"
proof -
  have "log2_size nh \<le> MAXBITS" using assms(2) by (auto simp: log2_size_4 MAXBITS_def log2_size_def [of 0])
  moreover have "na \<le> MAXASIZE" "nh \<le> 2 ^ 32" using assms by (auto simp: MAXASIZE_def MAXBITS_def)
  ultimately show ?thesis by (metis luaH_new_ok)
qed

lemma new_table_put:
  obtains t t' where "luaH_new 0 4 = Ok t" "table_inv t" "table_put t (VStr ''gNumInputs'') (VNum 0) = Ok t'"
proof -
  obtain t where t: "luaH_new 0 4 = Ok t" "table_inv t" "t_isdummy t = ((4::nat) = 0)" "t_node t = replicate (2 ^ log2_size 4) empty_node"
    using new_table_ex [of 0 4] by auto
  have "\<exists>i<length (t_node t). i_key (t_node t ! i) = VNil"
    unfolding t(4) by (intro exI [of _ 0]) (simp add: empty_node_def)
  then obtain t' s where "luaH_set t (VStr ''gNumInputs'') = Ok (t', s)"
    using set_free [of t "VStr ''gNumInputs''" "Suc 0"] t by (auto simp: luaH_set_def numeral_2_eq_2 proper_def no_nan_def)
  then show thesis using that t by (simp add: table_put_def)
qed

theorem table_put_get_witness:
  "\<exists>t t'. luaH_new 0 4 = Ok t \<and> table_put t (VStr ''gNumInputs'') (VNum 0) = Ok t'
     \<and> table_get t' (VStr ''gNumInputs'') = Ok (VNum 0)"
proof -
  obtain t t' where t: "luaH_new 0 4 = Ok t" "table_inv t" "table_put t (VStr ''gNumInputs'') (VNum 0) = Ok t'"
    by (rule new_table_put)
  have k: "valid_key (VStr ''gNumInputs'')" by (auto simp: valid_key_def proper_def no_nan_def)
  from table_put_get [OF t(2) k, of "VNum 0"] t k show ?thesis by auto
qed

text \<open>C36: growing the array part (\<open>OP_SETLIST\<close>) keeps every entry of the table; the entries of
the hash part that belong into the larger array move there.\<close>

theorem luaH_resizearray_keeps:
  assumes "table_inv t" and "t_sizearray t \<le> n" and "n \<le> MAXASIZE"
  shows "\<exists>t'. luaH_resizearray t n = Ok t' \<and> table_inv t' \<and> t_sizearray t' = n \<and>
    (\<forall>k. valid_key k \<longrightarrow> table_get t' k = table_get t k)"
proof -
  let ?nh = "if t_isdummy t then 0 else sizenode t"
  have c: "table_core t" using assms by (simp add: table_inv_def)
  have need: "hash_need t n \<le> ?nh"
  proof -
    have "filter (\<lambda>i. t_array t ! i \<noteq> VNil) [n..<t_sizearray t] = []" using assms(2) by simp
    moreover have "length (filter (\<lambda>x. i_val x \<noteq> VNil \<and> \<not> in_array n (i_key x)) (t_node t)) \<le> length (t_node t)" by simp
    ultimately show ?thesis
      using table_coreD(2,5) [OF c] by (auto simp: hash_need_def empty_node_def)
  qed
  have l: "log2_size (sizenode t) = t_lsizenode t"
  proof -
    have s1: "int (sizenode t) - 1 = int (2 ^ t_lsizenode t - 1)" by (simp add: sizenode_def of_nat_diff)
    have "(2::nat) ^ t_lsizenode t \<le> 2 ^ 26"
      using table_coreD(1) [OF c] by (intro power_increasing) (simp_all add: MAXBITS_def)
    moreover have "int (x - 1) mod 2 ^ 32 = int (x - 1)" if "x \<le> 2 ^ 26" for x :: nat
      using that by (intro mod_pos_pos_trivial) auto
    ultimately have "int (2 ^ t_lsizenode t - 1) mod 2 ^ 32 = int (2 ^ t_lsizenode t - 1)" by blast
    moreover have "floorlog 2 (2 ^ t_lsizenode t - 1) = t_lsizenode t"
    proof (cases "t_lsizenode t")
      case (Suc k)
      have "(2::nat) ^ k \<le> 2 ^ Suc k - 1" "2 ^ Suc k - 1 < (2::nat) ^ Suc k" by (simp_all add: Suc_leI)
      then show ?thesis unfolding Suc by (rule floorlog2_eqI)
    qed (simp add: floorlog_def)
    moreover have "sizenode t \<noteq> 0" using sizenode_pos [of t] by linarith
    ultimately show ?thesis
      unfolding log2_size_def ceillog2_def s1 luaO_log2_eq by (simp only: if_False nat_int)
  qed
  have "log2_size ?nh \<le> MAXBITS" "?nh \<le> 2 ^ 32"
    using l table_coreD(1) [OF c] power_increasing [of "t_lsizenode t" 26 "2::nat"]
    by (auto simp: log2_size_def [of 0] sizenode_def MAXBITS_def)
  from resize_ok [OF assms(1,3) need this, of "Suc 0"]
  obtain t' where t': "luaH_resizearray t n = Ok t'" "resized t n ?nh t'"
    by (auto simp: luaH_resizearray_def numeral_2_eq_2)
  then have i: "table_inv t'" "\<And>k v. holds t' k v = holds t k v" by (auto simp: resized_def)
  have "table_get t' k = table_get t k" if "valid_key k" for k
  proof -
    have p: "proper k \<or> k = VNil" using that by (simp add: valid_key_def)
    obtain w w' where "table_get t k = Ok w" "table_get t' k = Ok w'"
      using table_get_holds [OF assms(1) p] table_get_holds [OF i(1) p] by blast
    then show ?thesis using table_val_eqI [OF i(1) p assms(1) p i(2)] by (simp add: table_val_def)
  qed
  then show ?thesis using t' i(1) by (auto simp: resized_def)
qed

theorem luaH_resizearray_keeps_witness:
  "\<exists>t t' t''. luaH_new 0 4 = Ok t \<and> table_put t (VStr ''gNumInputs'') (VNum 0) = Ok t' \<and>
     luaH_resizearray t' 8 = Ok t'' \<and> t_sizearray t'' = 8 \<and> table_get t'' (VStr ''gNumInputs'') = Ok (VNum 0)"
proof -
  obtain t where n: "luaH_new 0 4 = Ok t" "table_inv t" "t_sizearray t = 0" "t_isdummy t = ((4::nat) = 0)"
    "t_node t = replicate (2 ^ log2_size 4) empty_node"
    using new_table_ex [of 0 4] by auto
  have k: "valid_key (VStr ''gNumInputs'')" by (auto simp: valid_key_def proper_def no_nan_def)
  have room: "in_array (t_sizearray t) (VStr ''gNumInputs'') \<or> (\<not> t_isdummy t \<and> nkeys (t_node t) < length (t_node t))"
    using n(4) by (simp add: n(5) fresh_nodes(4))
  obtain t' where t': "table_put t (VStr ''gNumInputs'') (VNum 0) = Ok t'" "put_ok t (VStr ''gNumInputs'') (VNum 0) t'"
    using put_free [of t "VStr ''gNumInputs''" "Suc 0" "VNum 0"] room n(2) k
    by (auto simp: table_put_def luaH_set_def numeral_2_eq_2 valid_key_def table_inv_def)
  have i: "table_inv t'" by (rule table_put_ok(1) [OF n(2) k t'(1)])
  have "holds t' (VStr ''gNumInputs'') (VNum 0)" using t'(2) by (simp add: put_ok_def)
  moreover have "proper (VStr ''gNumInputs'') \<or> VStr ''gNumInputs'' = VNil" using k by (simp add: valid_key_def)
  ultimately have g: "table_get t' (VStr ''gNumInputs'') = Ok (VNum 0)"
    using table_get_holds [OF i] by fastforce
  have "t_sizearray t' \<le> 8" "(8::nat) \<le> MAXASIZE" using t'(2) n(3) by (auto simp: put_ok_def MAXASIZE_def MAXBITS_def)
  from luaH_resizearray_keeps [OF i this] n(1) t'(1) g k show ?thesis by fastforce
qed

lemma distinct_concat_map:
  assumes "distinct xs" and "\<And>x. x \<in> set xs \<Longrightarrow> distinct (g x)"
    and "\<And>x y. x \<in> set xs \<Longrightarrow> y \<in> set xs \<Longrightarrow> x \<noteq> y \<Longrightarrow> set (g x) \<inter> set (g y) = {}"
  shows "distinct (concat (map g xs))"
  using assms
proof (induction xs)
  case (Cons x xs)
  have "distinct (concat (map g xs))" using Cons.prems by (intro Cons.IH) auto
  moreover have "set (g x) \<inter> set (g y) = {}" if "y \<in> set xs" for y
    using Cons.prems(1) that by (intro Cons.prems(3)) auto
  ultimately show ?case using Cons.prems(2) [of x] by auto
qed simp

abbreviation num_key :: "nat \<Rightarrow> TValue" where
  "num_key k \<equiv> VNum (cast_num (int k))"

lemma small_index: "0 < k \<Longrightarrow> k \<le> MAXASIZE \<Longrightarrow> arrayindex v = int k \<longleftrightarrow> luaO_rawequalObj v (num_key k)"
  by (rule arrayindex_iff) (simp_all add: MAXASIZE_def MAXBITS_def)

lemma int_key_iff: "k \<in> set (int_key v) \<longleftrightarrow> 0 < k \<and> k \<le> MAXASIZE \<and> luaO_rawequalObj v (num_key k)"
  using small_index [of k v] by (auto simp: int_key_def in_array_def)

lemma node_keys_iff:
  "node_keys t = concat (map (\<lambda>i. if i_val (t_node t ! i) \<noteq> VNil then int_key (i_key (t_node t ! i)) else []) (rev [0..<length (t_node t)]))"
proof -
  have f: "concat (map int_key (map i_key (filter (\<lambda>x. i_val x \<noteq> VNil) xs))) =
      concat (map (\<lambda>x. if i_val x \<noteq> VNil then int_key (i_key x) else []) xs)" for xs
    by (induction xs) auto
  have r: "rev (t_node t) = map ((!) (t_node t)) (rev [0..<length (t_node t)])"
    by (simp add: rev_map [symmetric] map_nth)
  show ?thesis unfolding node_keys_def f by (subst r) (simp add: comp_def)
qed

lemma node_key_slot:
  assumes t: "table_inv t" and i: "i < length (t_node t)" and v: "i_val (t_node t ! i) \<noteq> VNil"
    and k: "k \<in> set (int_key (i_key (t_node t ! i)))"
  shows "slot_ok t (num_key k) (InNode i)"
  using k i keys_okD(5) [OF table_coreD(4) i v] t
  by (simp add: int_key_iff slot_ok_def table_inv_def)

lemma array_key_slot:
  assumes "table_inv t" and "k \<in> set (array_keys t (t_sizearray t))"
  shows "slot_ok t (num_key k) (InArray (k - 1)) \<and> t_array t ! (k - 1) \<noteq> VNil \<and> 0 < k \<and> k \<le> MAXASIZE"
proof -
  have c: "table_core t" using assms(1) by (simp add: table_inv_def)
  have "0 < k" "k - 1 < t_sizearray t" "t_array t ! (k - 1) \<noteq> VNil" using assms(2) by (auto simp: array_keys_def)
  moreover have "t_sizearray t \<le> MAXASIZE" by (rule table_coreD(10) [OF c])
  moreover have "arrayindex (num_key k) = int k"
    using calculation small_index [of k "num_key k"] by (simp add: MAXASIZE_def MAXBITS_def)
  ultimately show ?thesis by (auto simp: slot_ok_def)
qed

lemma node_keys_slot:
  assumes t: "table_inv t" and k: "k \<in> set (node_keys t)"
  shows "\<exists>i. slot_ok t (num_key k) (InNode i) \<and> i_val (t_node t ! i) \<noteq> VNil \<and> 0 < k \<and> k \<le> MAXASIZE"
proof -
  from k obtain i where "i < length (t_node t)" "i_val (t_node t ! i) \<noteq> VNil" "k \<in> set (int_key (i_key (t_node t ! i)))"
    unfolding node_keys_iff by (auto split: if_splits)
  then show ?thesis using node_key_slot [OF t] by (auto simp: int_key_iff)
qed

lemma all_keys_distinct:
  assumes t: "table_inv t" and n: "\<And>s. \<not> slot_ok t ek s"
  shows "distinct (all_keys t ek)"
proof -
  have c: "table_core t" using t by (simp add: table_inv_def)
  have "distinct (node_keys t)"
    unfolding node_keys_iff
  proof (rule distinct_concat_map)
    fix i j assume ij: "i \<in> set (rev [0..<length (t_node t)])" "j \<in> set (rev [0..<length (t_node t)])" "i \<noteq> j"
    let ?g = "\<lambda>i. if i_val (t_node t ! i) \<noteq> VNil then int_key (i_key (t_node t ! i)) else []"
    have "False" if "k \<in> set (?g i)" "k \<in> set (?g j)" for k
      using that ij slot_ok_unique [OF c, of "num_key k" "InNode i" "InNode j"] node_key_slot [OF t, of _ k]
      by (auto split: if_splits)
    then show "set (?g i) \<inter> set (?g j) = {}" by blast
  qed (simp_all add: int_key_def)
  moreover have "distinct (array_keys t (t_sizearray t))" by (simp add: array_keys_def distinct_map)
  moreover have "distinct (int_key ek)" by (simp add: int_key_def)
  moreover have False if "k \<in> set (array_keys t (t_sizearray t))" "k \<in> set (node_keys t)" for k
    using array_key_slot [OF t that(1)] node_keys_slot [OF t that(2)] slot_ok_unique [OF c] by blast
  moreover have False if "k \<in> set (int_key ek)" "slot_ok t (num_key k) s" for k s
    using that n [of s] slot_ok_cong [of ek "num_key k" t] by (simp add: int_key_iff)
  ultimately show ?thesis
    using array_key_slot [OF t] node_keys_slot [OF t] unfolding all_keys_def by fastforce
qed

text \<open>The keys that the new array part may take: the positive integers that have a value in the table, and
the new key.\<close>

definition int_keys :: "Table \<Rightarrow> TValue \<Rightarrow> nat set" where
  "int_keys t ek = {k. 0 < k \<and> k \<le> MAXASIZE \<and> (int_val t k \<noteq> VNil \<or> luaO_rawequalObj ek (num_key k))}"

lemma all_keys_set:
  assumes t: "table_inv t"
  shows "set (all_keys t ek) = int_keys t ek"
proof -
  have c: "table_core t" using t by (simp add: table_inv_def)
  have "k \<in> set (array_keys t (t_sizearray t)) \<or> k \<in> set (node_keys t) \<longleftrightarrow> int_val t k \<noteq> VNil"
    if k: "0 < k" "k \<le> MAXASIZE" for k
  proof
    assume "k \<in> set (array_keys t (t_sizearray t)) \<or> k \<in> set (node_keys t)"
    then have "\<exists>s. slot_ok t (num_key k) s \<and> slot_val t s \<noteq> VNil"
      using array_key_slot [OF t, of k] node_keys_slot [OF t, of k] by (auto simp: slot_val_def split: slot.split)
    then show "int_val t k \<noteq> VNil" using table_val_nil [OF t, of "num_key k"] num_key_proper by (auto simp: holds_def)
  next
    assume "int_val t k \<noteq> VNil"
    then obtain s where s: "slot_ok t (num_key k) s" "slot_val t s \<noteq> VNil"
      using table_val_nil [OF t, of "num_key k"] num_key_proper by (auto simp: holds_def)
    have a: "arrayindex (num_key k) = int k" using small_index [OF k, of "num_key k"] k by (simp add: MAXASIZE_def MAXBITS_def)
    show "k \<in> set (array_keys t (t_sizearray t)) \<or> k \<in> set (node_keys t)"
    proof (cases s)
      case (InArray i)
      then have "k = Suc i" "i < t_sizearray t" "t_array t ! i \<noteq> VNil" using s a by (auto simp: slot_ok_def slot_val_def)
      then show ?thesis by (simp add: array_keys_def)
    next
      case (InNode i)
      then have "i < length (t_node t)" "i_val (t_node t ! i) \<noteq> VNil" "k \<in> set (int_key (i_key (t_node t ! i)))"
        using s k by (auto simp: slot_ok_def slot_val_def int_key_iff)
      then show ?thesis unfolding node_keys_iff by (intro disjI2) auto
    qed
  qed
  then show ?thesis
    using array_key_slot [OF t] node_keys_slot [OF t]
    unfolding all_keys_def int_keys_def set_append by (auto simp: int_key_iff)
qed

lemma filter_card: "distinct ks \<Longrightarrow> length (filter P ks) = card {k \<in> set ks. P k}"
  using distinct_card [of "filter P ks"] by simp

text \<open>C35: when \<open>rehash\<close> is called for a key that the table does not have, it gives the array part the
size 0 or a power of two of which more than half is used by the integer keys that have a value and the
new key, and every larger power of two is at most half used; the hash part gets the number of remaining
keys, so that none of them has to be moved again.\<close>

theorem rehash_optimal:
  assumes "table_inv t" and "valid_key ek" and "luaH_get t ek = Ok None"
  shows "\<exists>n. rehash_body nk t ek = resize_body nk t n (hash_need t n + (if in_array n ek then 0 else 1)) \<and>
    (n = 0 \<or> (\<exists>j\<le>MAXBITS. n = 2 ^ j \<and> n div 2 < card {k \<in> int_keys t ek. k \<le> n})) \<and>
    (\<forall>j. 2 ^ j div 2 < card {k \<in> int_keys t ek. k \<le> 2 ^ j} \<longrightarrow> 2 ^ j \<le> n)"
proof -
  have c: "table_core t" using assms(1) by (simp add: table_inv_def)
  have "\<not> slot_ok t ek s" for s
    using luaH_get_spec [OF c, of ek] assms(2,3) by (auto simp: get_spec_def valid_key_def)
  then have d: "distinct (all_keys t ek)" by (rule all_keys_distinct [OF assms(1)])
  have e: "length (filter P (all_keys t ek)) = card {k \<in> int_keys t ek. P k}" for P
    unfolding filter_card [OF d] all_keys_set [OF assms(1)] by (rule refl)
  show ?thesis
    using rehash_counts [OF assms(1), of nk ek] d by (auto simp: half_used_def no_larger_def e)
qed

theorem rehash_optimal_witness:
  "\<exists>t n. luaH_new 4 0 = Ok t \<and> rehash_body (newkey 1) t (VNum (cast_num 5)) =
      resize_body (newkey 1) t n (hash_need t n + (if in_array n (VNum (cast_num 5)) then 0 else 1)) \<and>
    (\<forall>j. 2 ^ j div 2 < card {k \<in> int_keys t (VNum (cast_num 5)). k \<le> 2 ^ j} \<longrightarrow> 2 ^ j \<le> n)"
proof -
  obtain t where t: "luaH_new 4 0 = Ok t" "table_inv t" "t_sizearray t = 4" "t_isdummy t" "t_node t = replicate (2 ^ log2_size 0) empty_node"
    using new_table_ex [of 4 0] by auto
  have k: "valid_key (VNum (cast_num 5))" by (simp add: valid_key_def proper_def no_nan_def luai_numisnan_def luai_numeq_def)
  have c: "table_core t" using t(2) by (simp add: table_inv_def)
  have n: "\<not> slot_ok t (VNum (cast_num 5)) s" for s
    using t(3) by (auto simp: slot_ok_def t(5) empty_node_def proper_def split: slot.split)
  have "luaH_get t (VNum (cast_num 5)) = Ok None"
    using luaH_get_spec [OF c, of "VNum (cast_num 5)"] k n by (auto simp: get_spec_def valid_key_def split: option.splits)
  from rehash_optimal [OF t(2) k this, of "newkey 1"] t(1) show ?thesis by blast
qed

section \<open>Witnesses\<close>

theorem luaH_next_enumerates_witness: "\<exists>t. luaH_new 4 4 = Ok t \<and> luaH_next t VNil = Ok None"
proof -
  obtain t where t: "luaH_new 4 4 = Ok t" "table_inv t" "\<And>k v. \<not> holds t k v" "t_node t = replicate (2 ^ log2_size 4) empty_node"
    using new_table_ex [of 4 4] by auto
  have "x \<notin> set (table_entries t)" for x
    using table_entries_holds(1) [OF t(2), of "fst x" "snd x"] t(3) by auto
  then have "table_entries t = []" by (metis list.set_intros(1) neq_Nil_conv)
  moreover have "\<forall>n\<in>set (t_node t). \<forall>w. i_key n \<noteq> VDead w" by (simp add: t(4) empty_node_def)
  ultimately show ?thesis using luaH_next_enumerates [OF t(2)] t(1) by (simp add: head_opt_def)
qed

theorem luaH_getn_boundary_witness: "\<exists>t n. luaH_new 4 4 = Ok t \<and> luaH_getn t = Ok n \<and> int_val t (n + 1) = VNil"
proof -
  obtain t where t: "luaH_new 4 4 = Ok t" "table_inv t"
    using new_table_ex [of 4 4] by auto
  then show ?thesis using luaH_getn_boundary [OF t(2)] by blast
qed

end
