(* ===== verification/LuaOpcodes.thy ===== *)
theory LuaOpcodes
  imports LuaPrelude
begin

text \<open>
  lopcodes.h, lopcodes.c: the instructions of the virtual machine. An instruction is a 32-bit
  word with the opcode in the lowest 6 bits, followed by the fields A (8 bits), C (9 bits) and
  B (9 bits); C and B together are Bx, and sBx is Bx in excess 131071. The macros that read,
  write and build instructions are translated bit by bit; the lemmas show that reading what
  was written gives it back and that a field is in its range.
\<close>

type_synonym Instruction = u32

datatype OpMode = iABC | iABx | iAsBx

datatype OpCode =
    OP_MOVE | OP_LOADK | OP_LOADBOOL | OP_LOADNIL | OP_GETUPVAL | OP_GETGLOBAL | OP_GETTABLE | OP_SETGLOBAL
  | OP_SETUPVAL | OP_SETTABLE | OP_NEWTABLE | OP_SELF | OP_ADD | OP_SUB | OP_MUL | OP_DIV
  | OP_MOD | OP_POW | OP_UNM | OP_NOT | OP_LEN | OP_CONCAT | OP_JMP | OP_EQ
  | OP_LT | OP_LE | OP_TEST | OP_TESTSET | OP_CALL | OP_TAILCALL | OP_RETURN | OP_FORLOOP
  | OP_FORPREP | OP_TFORLOOP | OP_SETLIST | OP_CLOSE | OP_CLOSURE | OP_VARARG

definition OpCodes :: "OpCode list" where
  "OpCodes =
    [OP_MOVE, OP_LOADK, OP_LOADBOOL, OP_LOADNIL, OP_GETUPVAL, OP_GETGLOBAL, OP_GETTABLE, OP_SETGLOBAL,
     OP_SETUPVAL, OP_SETTABLE, OP_NEWTABLE, OP_SELF, OP_ADD, OP_SUB, OP_MUL, OP_DIV,
     OP_MOD, OP_POW, OP_UNM, OP_NOT, OP_LEN, OP_CONCAT, OP_JMP, OP_EQ,
     OP_LT, OP_LE, OP_TEST, OP_TESTSET, OP_CALL, OP_TAILCALL, OP_RETURN, OP_FORLOOP,
     OP_FORPREP, OP_TFORLOOP, OP_SETLIST, OP_CLOSE, OP_CLOSURE, OP_VARARG]"

definition NUM_OPCODES :: nat where
  "NUM_OPCODES = 38"

text \<open>The number of an enumeration constant, and the constant of a number (the cast of a
number that is not below \<open>NUM_OPCODES\<close> to \<open>OpCode\<close> is no constant).\<close>

definition op_num :: "OpCode \<Rightarrow> nat" where
  "op_num op = length (takeWhile (\<lambda>x. x \<noteq> op) OpCodes)"

definition opcode_of :: "nat \<Rightarrow> OpCode option" where
  "opcode_of n = (if n < NUM_OPCODES then Some (OpCodes ! n) else None)"

section \<open>Sizes and positions of the fields\<close>

definition SIZE_C :: nat where "SIZE_C = 9"
definition SIZE_B :: nat where "SIZE_B = 9"
definition SIZE_Bx :: nat where "SIZE_Bx = SIZE_C + SIZE_B"
definition SIZE_A :: nat where "SIZE_A = 8"
definition SIZE_OP :: nat where "SIZE_OP = 6"
definition POS_OP :: nat where "POS_OP = 0"
definition POS_A :: nat where "POS_A = POS_OP + SIZE_OP"
definition POS_C :: nat where "POS_C = POS_A + SIZE_A"
definition POS_B :: nat where "POS_B = POS_C + SIZE_C"
definition POS_Bx :: nat where "POS_Bx = POS_C"

definition MAXARG_Bx :: int where "MAXARG_Bx = 2 ^ SIZE_Bx - 1"
definition MAXARG_sBx :: int where "MAXARG_sBx = MAXARG_Bx div 2"
definition MAXARG_A :: int where "MAXARG_A = 2 ^ SIZE_A - 1"
definition MAXARG_B :: int where "MAXARG_B = 2 ^ SIZE_B - 1"
definition MAXARG_C :: int where "MAXARG_C = 2 ^ SIZE_C - 1"

lemmas field_defs = SIZE_C_def SIZE_B_def SIZE_Bx_def SIZE_A_def SIZE_OP_def POS_OP_def POS_A_def POS_C_def POS_B_def POS_Bx_def
lemmas maxarg_defs = MAXARG_Bx_def MAXARG_sBx_def MAXARG_A_def MAXARG_B_def MAXARG_C_def

definition MASK1 :: "nat \<Rightarrow> nat \<Rightarrow> u32" where
  "MASK1 n p = push_bit p (NOT (push_bit n (NOT 0)))"

definition MASK0 :: "nat \<Rightarrow> nat \<Rightarrow> u32" where
  "MASK0 n p = NOT (MASK1 n p)"

section \<open>Reading and writing the fields\<close>

definition GET_OPCODE :: "Instruction \<Rightarrow> nat" where
  "GET_OPCODE i = unat (drop_bit POS_OP i AND MASK1 SIZE_OP 0)"

definition SET_OPCODE :: "Instruction \<Rightarrow> nat \<Rightarrow> Instruction" where
  "SET_OPCODE i v = (i AND MASK0 SIZE_OP POS_OP) OR (push_bit POS_OP (of_nat v) AND MASK1 SIZE_OP POS_OP)"

definition GETARG_A :: "Instruction \<Rightarrow> int" where
  "GETARG_A i = uint (drop_bit POS_A i AND MASK1 SIZE_A 0)"

definition SETARG_A :: "Instruction \<Rightarrow> int \<Rightarrow> Instruction" where
  "SETARG_A i v = (i AND MASK0 SIZE_A POS_A) OR (push_bit POS_A (word_of_int v) AND MASK1 SIZE_A POS_A)"

definition GETARG_B :: "Instruction \<Rightarrow> int" where
  "GETARG_B i = uint (drop_bit POS_B i AND MASK1 SIZE_B 0)"

definition SETARG_B :: "Instruction \<Rightarrow> int \<Rightarrow> Instruction" where
  "SETARG_B i v = (i AND MASK0 SIZE_B POS_B) OR (push_bit POS_B (word_of_int v) AND MASK1 SIZE_B POS_B)"

definition GETARG_C :: "Instruction \<Rightarrow> int" where
  "GETARG_C i = uint (drop_bit POS_C i AND MASK1 SIZE_C 0)"

definition SETARG_C :: "Instruction \<Rightarrow> int \<Rightarrow> Instruction" where
  "SETARG_C i v = (i AND MASK0 SIZE_C POS_C) OR (push_bit POS_C (word_of_int v) AND MASK1 SIZE_C POS_C)"

definition GETARG_Bx :: "Instruction \<Rightarrow> int" where
  "GETARG_Bx i = uint (drop_bit POS_Bx i AND MASK1 SIZE_Bx 0)"

definition SETARG_Bx :: "Instruction \<Rightarrow> int \<Rightarrow> Instruction" where
  "SETARG_Bx i v = (i AND MASK0 SIZE_Bx POS_Bx) OR (push_bit POS_Bx (word_of_int v) AND MASK1 SIZE_Bx POS_Bx)"

definition GETARG_sBx :: "Instruction \<Rightarrow> int" where
  "GETARG_sBx i = GETARG_Bx i - MAXARG_sBx"

definition SETARG_sBx :: "Instruction \<Rightarrow> int \<Rightarrow> Instruction" where
  "SETARG_sBx i v = SETARG_Bx i (v + MAXARG_sBx)"

definition CREATE_ABC :: "nat \<Rightarrow> int \<Rightarrow> int \<Rightarrow> int \<Rightarrow> Instruction" where
  "CREATE_ABC op a b c =
     push_bit POS_OP (of_nat op) OR push_bit POS_A (word_of_int a) OR push_bit POS_B (word_of_int b) OR push_bit POS_C (word_of_int c)"

definition CREATE_ABx :: "nat \<Rightarrow> int \<Rightarrow> int \<Rightarrow> Instruction" where
  "CREATE_ABx op a bc = push_bit POS_OP (of_nat op) OR push_bit POS_A (word_of_int a) OR push_bit POS_Bx (word_of_int bc)"

section \<open>Registers and constants\<close>

definition BITRK :: int where "BITRK = 2 ^ (SIZE_B - 1)"

definition ISK :: "int \<Rightarrow> bool" where
  "ISK x \<longleftrightarrow> x AND BITRK \<noteq> 0"

definition INDEXK :: "int \<Rightarrow> int" where
  "INDEXK r = r AND NOT BITRK"

definition MAXINDEXRK :: int where "MAXINDEXRK = BITRK - 1"

definition RKASK :: "int \<Rightarrow> int" where
  "RKASK x = x OR BITRK"

definition NO_REG :: int where "NO_REG = MAXARG_A"

section \<open>The properties of the opcodes\<close>

definition luaP_opnames :: "string list" where
  "luaP_opnames =
    [''MOVE'', ''LOADK'', ''LOADBOOL'', ''LOADNIL'', ''GETUPVAL'', ''GETGLOBAL'', ''GETTABLE'', ''SETGLOBAL'',
     ''SETUPVAL'', ''SETTABLE'', ''NEWTABLE'', ''SELF'', ''ADD'', ''SUB'', ''MUL'', ''DIV'',
     ''MOD'', ''POW'', ''UNM'', ''NOT'', ''LEN'', ''CONCAT'', ''JMP'', ''EQ'',
     ''LT'', ''LE'', ''TEST'', ''TESTSET'', ''CALL'', ''TAILCALL'', ''RETURN'', ''FORLOOP'',
     ''FORPREP'', ''TFORLOOP'', ''SETLIST'', ''CLOSE'', ''CLOSURE'', ''VARARG'']"

datatype OpArgMask = OpArgN | OpArgU | OpArgR | OpArgK

definition OpModes :: "OpMode list" where "OpModes = [iABC, iABx, iAsBx]"
definition OpArgMasks :: "OpArgMask list" where "OpArgMasks = [OpArgN, OpArgU, OpArgR, OpArgK]"

text \<open>The number of an enumeration constant is its position.\<close>

definition mode_num :: "OpMode \<Rightarrow> u8" where
  "mode_num m = of_nat (length (takeWhile (\<lambda>x. x \<noteq> m) OpModes))"

definition mask_num :: "OpArgMask \<Rightarrow> u8" where
  "mask_num m = of_nat (length (takeWhile (\<lambda>x. x \<noteq> m) OpArgMasks))"

definition opmode :: "u8 \<Rightarrow> u8 \<Rightarrow> OpArgMask \<Rightarrow> OpArgMask \<Rightarrow> OpMode \<Rightarrow> u8" where
  "opmode t a b c m = push_bit 7 t OR push_bit 6 a OR push_bit 4 (mask_num b) OR push_bit 2 (mask_num c) OR mode_num m"

definition luaP_opmodes :: "u8 list" where
  "luaP_opmodes =
    [opmode 0 1 OpArgR OpArgN iABC, opmode 0 1 OpArgK OpArgN iABx, opmode 0 1 OpArgU OpArgU iABC, opmode 0 1 OpArgR OpArgN iABC,
     opmode 0 1 OpArgU OpArgN iABC, opmode 0 1 OpArgK OpArgN iABx, opmode 0 1 OpArgR OpArgK iABC, opmode 0 0 OpArgK OpArgN iABx,
     opmode 0 0 OpArgU OpArgN iABC, opmode 0 0 OpArgK OpArgK iABC, opmode 0 1 OpArgU OpArgU iABC, opmode 0 1 OpArgR OpArgK iABC,
     opmode 0 1 OpArgK OpArgK iABC, opmode 0 1 OpArgK OpArgK iABC, opmode 0 1 OpArgK OpArgK iABC, opmode 0 1 OpArgK OpArgK iABC,
     opmode 0 1 OpArgK OpArgK iABC, opmode 0 1 OpArgK OpArgK iABC, opmode 0 1 OpArgR OpArgN iABC, opmode 0 1 OpArgR OpArgN iABC,
     opmode 0 1 OpArgR OpArgN iABC, opmode 0 1 OpArgR OpArgR iABC, opmode 0 0 OpArgR OpArgN iAsBx, opmode 1 0 OpArgK OpArgK iABC,
     opmode 1 0 OpArgK OpArgK iABC, opmode 1 0 OpArgK OpArgK iABC, opmode 1 1 OpArgR OpArgU iABC, opmode 1 1 OpArgR OpArgU iABC,
     opmode 0 1 OpArgU OpArgU iABC, opmode 0 1 OpArgU OpArgU iABC, opmode 0 0 OpArgU OpArgN iABC, opmode 0 1 OpArgR OpArgN iAsBx,
     opmode 0 1 OpArgR OpArgN iAsBx, opmode 1 0 OpArgN OpArgU iABC, opmode 0 0 OpArgU OpArgU iABC, opmode 0 0 OpArgN OpArgN iABC,
     opmode 0 1 OpArgU OpArgN iABx, opmode 0 1 OpArgU OpArgN iABC]"

definition getOpMode :: "nat \<Rightarrow> OpMode" where
  "getOpMode m = OpModes ! unat (luaP_opmodes ! m AND 3)"

definition getBMode :: "nat \<Rightarrow> OpArgMask" where
  "getBMode m = OpArgMasks ! unat (drop_bit 4 (luaP_opmodes ! m) AND 3)"

definition getCMode :: "nat \<Rightarrow> OpArgMask" where
  "getCMode m = OpArgMasks ! unat (drop_bit 2 (luaP_opmodes ! m) AND 3)"

definition testAMode :: "nat \<Rightarrow> bool" where
  "testAMode m \<longleftrightarrow> luaP_opmodes ! m AND push_bit 6 1 \<noteq> 0"

definition testTMode :: "nat \<Rightarrow> bool" where
  "testTMode m \<longleftrightarrow> luaP_opmodes ! m AND push_bit 7 1 \<noteq> 0"

definition LFIELDS_PER_FLUSH :: int where "LFIELDS_PER_FLUSH = 50"

section \<open>Reading what was written\<close>

lemma bit_MASK1: "bit (MASK1 n p) k \<longleftrightarrow> p \<le> k \<and> k < p + n \<and> k < 32"
  by (auto simp: MASK1_def bit_simps)

lemma get_field: "n < 32 \<Longrightarrow> drop_bit p i AND MASK1 n 0 = take_bit n (drop_bit p (i :: u32))"
  by (rule bit_word_eqI) (auto simp: bit_MASK1 bit_simps)

lemma put_field_same:
  "p + n \<le> 32 \<Longrightarrow> n < 32 \<Longrightarrow>
   take_bit n (drop_bit p ((i AND MASK0 n p) OR (push_bit p v AND MASK1 n p))) = take_bit n (v :: u32)"
  by (rule bit_word_eqI) (auto simp: MASK0_def bit_MASK1 bit_simps)

lemma put_field_other:
  "q + m \<le> 32 \<Longrightarrow> q + m \<le> p \<or> p + n \<le> q \<Longrightarrow>
   take_bit m (drop_bit q ((i AND MASK0 n p) OR (push_bit p v AND MASK1 n p))) = take_bit m (drop_bit q (i :: u32))"
  by (rule bit_word_eqI) (auto simp: MASK0_def bit_MASK1 bit_simps)

lemma get_opcode_field: "GET_OPCODE i = unat (take_bit 6 i)"
  using get_field [of 6 0 i] by (simp add: GET_OPCODE_def field_defs)

lemma getarg_fields:
  "GETARG_A i = uint (take_bit 8 (drop_bit 6 i))"
  "GETARG_B i = uint (take_bit 9 (drop_bit 23 i))"
  "GETARG_C i = uint (take_bit 9 (drop_bit 14 i))"
  "GETARG_Bx i = uint (take_bit 18 (drop_bit 14 i))"
  by (simp_all add: GETARG_A_def GETARG_B_def GETARG_C_def GETARG_Bx_def get_field field_defs)

lemma uint_field: "uint (take_bit n (w :: u32)) < 2 ^ n" "0 \<le> uint (take_bit n w)"
  by (simp_all add: unsigned_take_bit_eq)

text \<open>The ranges of the fields.\<close>

lemma GET_OPCODE_less: "GET_OPCODE i < 64"
  using take_bit_nat_less_exp [of 6 "unat i"] by (simp add: get_opcode_field unsigned_take_bit_eq)

lemma getarg_range:
  "0 \<le> GETARG_A i \<and> GETARG_A i \<le> MAXARG_A"
  "0 \<le> GETARG_B i \<and> GETARG_B i \<le> MAXARG_B"
  "0 \<le> GETARG_C i \<and> GETARG_C i \<le> MAXARG_C"
  "0 \<le> GETARG_Bx i \<and> GETARG_Bx i \<le> MAXARG_Bx"
  using uint_field(1) [of 8 "drop_bit 6 i"] uint_field(1) [of 9 "drop_bit 23 i"] uint_field(1) [of 9 "drop_bit 14 i"]
    uint_field(1) [of 18 "drop_bit 14 i"]
  by (simp_all add: getarg_fields maxarg_defs field_defs)

lemma uint_take_bit_word_of_int: "n < 32 \<Longrightarrow> 0 \<le> v \<Longrightarrow> v < 2 ^ n \<Longrightarrow> uint (take_bit n (word_of_int v :: u32)) = v"
  by (simp add: unsigned_take_bit_eq uint_word_of_int_eq take_bit_int_eq_self)

lemma unat_take_bit_of_nat: "n < 32 \<Longrightarrow> v < 2 ^ n \<Longrightarrow> unat (take_bit n (of_nat v :: u32)) = v"
  by (simp add: unsigned_take_bit_eq unsigned_of_nat take_bit_nat_eq_self)

text \<open>A field of an instruction that was built from fields.\<close>

lemma high_bits_0: "0 \<le> (v :: int) \<Longrightarrow> v < 2 ^ n \<Longrightarrow> n \<le> k \<Longrightarrow> \<not> bit v k"
proof
  assume v: "0 \<le> v" "v < 2 ^ n" "n \<le> k" "bit v k"
  then have "bit (take_bit n v) k" by (simp add: take_bit_int_eq_self)
  with v(3) show False by (simp add: bit_take_bit_iff)
qed

lemma high_bits_of_nat: "(v :: nat) < 2 ^ n \<Longrightarrow> n \<le> k \<Longrightarrow> \<not> bit v k"
proof
  assume v: "v < 2 ^ n" "n \<le> k" "bit v k"
  then have "bit (take_bit n v) k" by (simp add: take_bit_nat_eq_self)
  with v(2) show False by (simp add: bit_take_bit_iff)
qed

lemma created_ABC:
  assumes "op < 2 ^ 6" "0 \<le> a" "a < 2 ^ 8" "0 \<le> b" "b < 2 ^ 9" "0 \<le> c" "c < 2 ^ 9"
  shows "take_bit 6 (CREATE_ABC op a b c) = take_bit 6 (of_nat op)"
    and "take_bit 8 (drop_bit 6 (CREATE_ABC op a b c)) = take_bit 8 (word_of_int a)"
    and "take_bit 9 (drop_bit 23 (CREATE_ABC op a b c)) = take_bit 9 (word_of_int b)"
    and "take_bit 9 (drop_bit 14 (CREATE_ABC op a b c)) = take_bit 9 (word_of_int c)"
proof -
  note h = high_bits_of_nat [OF assms(1)] high_bits_0 [OF assms(2,3)] high_bits_0 [OF assms(4,5)] high_bits_0 [OF assms(6,7)]
  show "take_bit 6 (CREATE_ABC op a b c) = take_bit 6 (of_nat op)"
    by (rule bit_word_eqI) (auto simp: CREATE_ABC_def field_defs bit_simps)
  show "take_bit 8 (drop_bit 6 (CREATE_ABC op a b c)) = take_bit 8 (word_of_int a)"
    by (rule bit_word_eqI) (auto simp: CREATE_ABC_def field_defs bit_simps h(1))
  show "take_bit 9 (drop_bit 23 (CREATE_ABC op a b c)) = take_bit 9 (word_of_int b)"
    by (rule bit_word_eqI) (auto simp: CREATE_ABC_def field_defs bit_simps h(1,2,4))
  show "take_bit 9 (drop_bit 14 (CREATE_ABC op a b c)) = take_bit 9 (word_of_int c)"
    by (rule bit_word_eqI) (auto simp: CREATE_ABC_def field_defs bit_simps h(1,2))
qed

lemma created_ABx:
  assumes "op < 2 ^ 6" "0 \<le> a" "a < 2 ^ 8" "0 \<le> bx" "bx < 2 ^ 18"
  shows "take_bit 6 (CREATE_ABx op a bx) = take_bit 6 (of_nat op)"
    and "take_bit 8 (drop_bit 6 (CREATE_ABx op a bx)) = take_bit 8 (word_of_int a)"
    and "take_bit 18 (drop_bit 14 (CREATE_ABx op a bx)) = take_bit 18 (word_of_int bx)"
proof -
  note h = high_bits_of_nat [OF assms(1)] high_bits_0 [OF assms(2,3)] high_bits_0 [OF assms(4,5)]
  show "take_bit 6 (CREATE_ABx op a bx) = take_bit 6 (of_nat op)"
    by (rule bit_word_eqI) (auto simp: CREATE_ABx_def field_defs bit_simps)
  show "take_bit 8 (drop_bit 6 (CREATE_ABx op a bx)) = take_bit 8 (word_of_int a)"
    by (rule bit_word_eqI) (auto simp: CREATE_ABx_def field_defs bit_simps h(1))
  show "take_bit 18 (drop_bit 14 (CREATE_ABx op a bx)) = take_bit 18 (word_of_int bx)"
    by (rule bit_word_eqI) (auto simp: CREATE_ABx_def field_defs bit_simps h(1,2))
qed

lemma getarg_ABx:
  assumes "op < 2 ^ 6" "0 \<le> a" "a < 2 ^ 8" "0 \<le> bx" "bx < 2 ^ 18"
  shows "GET_OPCODE (CREATE_ABx op a bx) = op" and "GETARG_A (CREATE_ABx op a bx) = a" and "GETARG_Bx (CREATE_ABx op a bx) = bx"
  using assms by (simp_all add: get_opcode_field getarg_fields created_ABx uint_take_bit_word_of_int unat_take_bit_of_nat)

text \<open>the fields of an instruction built with \<open>CREATE_ABC\<close> read back as they were given, and
writing one field (here B) changes that field to the new value and no other.\<close>

theorem instruction_fields_roundtrip:
  assumes "op < 2 ^ 6" "0 \<le> a" "a < 2 ^ 8" "0 \<le> b" "b < 2 ^ 9" "0 \<le> c" "c < 2 ^ 9" "0 \<le> b'" "b' < 2 ^ 9"
  shows "let i = CREATE_ABC op a b c; j = SETARG_B i b' in
    GET_OPCODE i = op \<and> GETARG_A i = a \<and> GETARG_B i = b \<and> GETARG_C i = c \<and>
    GET_OPCODE j = op \<and> GETARG_A j = a \<and> GETARG_B j = b' \<and> GETARG_C j = c"
proof -
  let ?i = "CREATE_ABC op a b c"
  let ?j = "SETARG_B ?i b'"
  note c = created_ABC [OF assms(1-7)]
  have j: "?j = (?i AND MASK0 9 23) OR (push_bit 23 (word_of_int b') AND MASK1 9 23)"
    by (simp add: SETARG_B_def field_defs)
  have "take_bit 9 (drop_bit 23 ?j) = take_bit 9 (word_of_int b')"
    unfolding j by (rule put_field_same) simp_all
  moreover have "take_bit 8 (drop_bit 6 ?j) = take_bit 8 (drop_bit 6 ?i)" "take_bit 9 (drop_bit 14 ?j) = take_bit 9 (drop_bit 14 ?i)"
    unfolding j by (rule put_field_other; simp)+
  moreover have "take_bit 6 ?j = take_bit 6 ?i"
    unfolding j using put_field_other [of 0 6 23 9 ?i "word_of_int b'"] by simp
  ultimately show ?thesis
    using assms c by (simp add: Let_def get_opcode_field getarg_fields uint_take_bit_word_of_int unat_take_bit_of_nat)
qed

theorem instruction_fields_roundtrip_witness:
  "let i = CREATE_ABC 6 1 2 259; j = SETARG_B i 3 in
    GET_OPCODE i = 6 \<and> GETARG_A i = 1 \<and> GETARG_B i = 2 \<and> GETARG_C i = 259 \<and>
    GET_OPCODE j = 6 \<and> GETARG_A j = 1 \<and> GETARG_B j = 3 \<and> GETARG_C j = 259"
  by (rule instruction_fields_roundtrip) simp_all

text \<open>The opcodes.\<close>

lemma opcode_of_num [simp]: "opcode_of (op_num op) = Some op" "op_num op < NUM_OPCODES"
  by (cases op; simp add: op_num_def opcode_of_def NUM_OPCODES_def OpCodes_def)+

lemma opcode_of_Some: "opcode_of n = Some op \<longleftrightarrow> n = op_num op"
proof
  assume "opcode_of n = Some op"
  then have "n < 38" "OpCodes ! n = op" by (auto simp: opcode_of_def NUM_OPCODES_def split: if_splits)
  moreover have "\<forall>n \<in> set [0..<38]. op_num (OpCodes ! n) = n" by code_simp
  ultimately show "n = op_num op" by auto
qed simp

end
