(* ===== verification/LuaProto.thy ===== *)
theory LuaProto
  imports LuaObject LuaOpcodes
begin

text \<open>
  Function prototypes (lobject.h) and how the values of C lie in memory. A prototype is a tree of
  nested functions; an array with its size field is a list. A string that may be NULL is an option.
  The marks and links of the collector are left out.
\<close>

record LocVar =
  varname :: "string option"
  startpc :: int
  endpc :: int

datatype Proto = Proto
  (p_k: "TValue list")
  (p_code: "Instruction list")
  (p_p: "Proto list")
  (p_lineinfo: "int list")
  (p_locvars: "LocVar list")
  (p_upvalues: "string option list")
  (p_source: "string option")
  (p_linedefined: int)
  (p_lastlinedefined: int)
  (p_nups: u8)
  (p_numparams: u8)
  (p_is_vararg: u8)
  (p_maxstacksize: u8)

definition VARARG_HASARG :: u8 where "VARARG_HASARG = 1"
definition VARARG_ISVARARG :: u8 where "VARARG_ISVARARG = 2"
definition VARARG_NEEDSARG :: u8 where "VARARG_NEEDSARG = 4"

lemmas vararg_defs = VARARG_HASARG_def VARARG_ISVARARG_def VARARG_NEEDSARG_def

text \<open>luaF_newproto.\<close>

definition luaF_newproto :: Proto where
  "luaF_newproto = Proto [] [] [] [] [] [] None 0 0 0 0 0 0"

lemma proto_in_size: "f \<in> set (p_p g) \<Longrightarrow> size f < size g"
  by (cases g) (auto dest: size_list_estimation' [where f = size, OF _ order_refl])

text \<open>luaF_getlocalname: the name of the \<open>local_number\<close>-th variable that is active at \<open>pc\<close>.\<close>

primrec localname_loop :: "LocVar list \<Rightarrow> int \<Rightarrow> int \<Rightarrow> string option res" where
  "localname_loop [] local_number pc = Ok None"
| "localname_loop (v # vs) local_number pc =
     (if startpc v \<le> pc
      then (if pc < endpc v
            then (if local_number - 1 = 0
                  then (case varname v of Some s \<Rightarrow> Ok (Some s) | None \<Rightarrow> Fail (Undefined ''name of a variable is NULL''))
                  else localname_loop vs (local_number - 1) pc)
            else localname_loop vs local_number pc)
      else Ok None)"

definition luaF_getlocalname :: "Proto \<Rightarrow> int \<Rightarrow> int \<Rightarrow> string option res" where
  "luaF_getlocalname f local_number pc = localname_loop (p_locvars f) local_number pc"

section \<open>Memory\<close>

text \<open>The machine is little endian: the bytes of a word from the lowest to the highest.\<close>

primrec le_bytes :: "nat \<Rightarrow> 'a :: len word \<Rightarrow> bytes" where
  "le_bytes 0 w = []"
| "le_bytes (Suc n) w = ucast w # le_bytes n (drop_bit 8 w)"

primrec of_le :: "bytes \<Rightarrow> 'a :: len word" where
  "of_le [] = 0"
| "of_le (b # bs) = ucast b OR push_bit 8 (of_le bs)"

definition int_bytes :: "int \<Rightarrow> bytes" where
  "int_bytes x = le_bytes 4 (word_of_int x :: u32)"

definition of_int_bytes :: "bytes \<Rightarrow> int" where
  "of_int_bytes bs = sint (of_le bs :: u32)"

definition str_bytes :: "string \<Rightarrow> bytes" where
  "str_bytes s = map of_char s"

definition of_str_bytes :: "bytes \<Rightarrow> string" where
  "of_str_bytes bs = map (\<lambda>b. char_of (unat b)) bs"

lemma length_le_bytes [simp]: "length (le_bytes n w) = n"
  by (induction n arbitrary: w) simp_all

lemma of_le_bytes: "of_le (le_bytes n (w :: 'a :: len word)) = take_bit (8 * n) w"
proof (induction n arbitrary: w)
  case (Suc n)
  show ?case
    by (rule bit_word_eqI) (auto simp: Suc bit_simps)
qed simp

lemma of_le_bytes_4 [simp]: "of_le (le_bytes 4 (w :: u32)) = w"
  by (simp add: of_le_bytes take_bit_word_eq_self)

lemma of_le_bytes_8 [simp]: "of_le (le_bytes 8 (w :: u64)) = w"
  by (simp add: of_le_bytes take_bit_word_eq_self)

lemma int_bytes_roundtrip: "- (2 ^ 31) \<le> x \<Longrightarrow> x < 2 ^ 31 \<Longrightarrow> of_int_bytes (int_bytes x) = x"
  by (simp add: of_int_bytes_def int_bytes_def sint_sbintrunc' signed_take_bit_int_eq_self)

lemma length_int_bytes [simp]: "length (int_bytes x) = 4"
  by (simp add: int_bytes_def)

lemma length_str_bytes [simp]: "length (str_bytes s) = length s"
  by (simp add: str_bytes_def)

lemma unat_of_char [simp]: "unat (of_char c :: u8) = of_char c"
proof -
  have "(of_char c :: u8) = of_nat (of_char c)" by (simp add: of_nat_of_char)
  moreover have "(of_char c :: nat) < 256" by simp
  ultimately show ?thesis by (simp add: unsigned_of_nat take_bit_nat_eq_self)
qed

lemma of_str_bytes [simp]: "of_str_bytes (str_bytes s) = s"
  by (induction s) (simp_all add: of_str_bytes_def str_bytes_def)

end
