(* ===== verification/LuaState.thy ===== *)
theory LuaState
  imports LuaProto
begin

text \<open>
  The part of a Lua state that the interpreter keeps (lstate.h, lobject.h): closures and
  upvalues by address, the records of the active calls, and the counters of nested calls. The stack is
  one array; it is kept in two pieces, the cells below the frame of the running function and (in
  \<open>lua_State\<close>) the frame. An index into the stack counts from \<open>L->stack\<close>. The state of hooks and
  of the collector is left out.
\<close>

text \<open>An open upvalue refers to a cell of the stack, a closed one holds its value.\<close>

datatype UpVal = UpOpen nat | UpClosed TValue

text \<open>A C function is known by its name.\<close>

datatype Closure =
    CClosure (c_f: string) (c_env: TValue) (c_upvalue: "TValue list")
  | LClosure (l_p: Proto) (l_env: TValue) (l_upvals: "u32 list")

record CallInfo =
  ci_func :: nat
  ci_base :: nat
  ci_top :: nat
  ci_nresults :: int
  ci_savedpc :: nat
  ci_tailcalls :: nat

text \<open>\<open>vm_ci\<close> has the running function first; \<open>vm_openupval\<close> is the list of open upvalues.\<close>

record vm_state =
  vm_below :: "TValue list"
  vm_top :: nat
  vm_savedpc :: nat
  vm_ci :: "CallInfo list"
  vm_size_ci :: nat
  vm_nCcalls :: nat
  vm_closure :: "u32 \<Rightarrow> Closure option"
  vm_upval :: "u32 \<Rightarrow> UpVal option"
  vm_openupval :: "u32 list"

definition BASIC_CI_SIZE :: nat where "BASIC_CI_SIZE = 8"
definition LUA_MINSTACK :: nat where "LUA_MINSTACK = 100"
definition LUAI_MAXCALLS :: nat where "LUAI_MAXCALLS = 20000"
definition LUAI_MAXCCALLS :: nat where "LUAI_MAXCCALLS = 200"

text \<open>The state of \<open>stack_init\<close>: the record of the base level, whose function entry is nil.\<close>

definition stack_init :: vm_state where
  "stack_init =
     \<lparr>vm_below = [VNil], vm_top = 1, vm_savedpc = 0,
      vm_ci = [\<lparr>ci_func = 0, ci_base = 1, ci_top = 1 + LUA_MINSTACK, ci_nresults = 0, ci_savedpc = 0, ci_tailcalls = 0\<rparr>],
      vm_size_ci = BASIC_CI_SIZE, vm_nCcalls = 0, vm_closure = (\<lambda>_. None), vm_upval = (\<lambda>_. None), vm_openupval = []\<rparr>"

end
