(* ===== verification/LuaApi.thy ===== *)
theory LuaApi
  imports LuaFrame LuaTableProps LuaState
begin

text \<open>
  The C API over a Lua state (lapi.c), with the access to tables through metatables (lvm.c,
  ltm.c) and the helpers of lauxlib.c that the libraries of this project use. The state holds
  the frame of the running function, the tables by address, the globals, the registry and the
  metatables of the basic types and of userdata, and what only the interpreter reads. What is not under study here is a parameter,
  the record \<open>world\<close>: calling a function value (the interpreter), loading a chunk, creating a
  state with the libraries opened, and the address of a new table or of a new closure (of the C
  function of that name with these upvalues).

  An error raised outside a protected call reaches \<open>luaD_throw\<close> without a handler: the panic
  function runs and the process exits. Here it is the outcome \<open>Fail (LuaError _)\<close> of the
  function that the host has called.
\<close>

section \<open>The state\<close>

record lua_State =
  L_stack :: "TValue list"
  L_heap :: "u32 \<Rightarrow> Table option"
  L_gt :: TValue
  L_registry :: TValue
  L_env :: TValue
  L_upvals :: "TValue list"
  L_mt :: "int \<Rightarrow> u32"
  L_umt :: "u32 \<Rightarrow> u32"
  L_ulen :: "u32 \<Rightarrow> nat"
  L_vm :: vm_state

text \<open>\<open>w_call S f args\<close> runs the function value to its end and gives its results;
\<open>w_pcall\<close> does so in protected mode and gives the status.\<close>

record world =
  w_call :: "lua_State \<Rightarrow> TValue \<Rightarrow> TValue list \<Rightarrow> (lua_State \<times> TValue list) res"
  w_pcall :: "lua_State \<Rightarrow> TValue \<Rightarrow> TValue list \<Rightarrow> lua_State \<times> TValue list \<times> nat"
  w_loadfile :: "lua_State \<Rightarrow> string \<Rightarrow> lua_State \<times> TValue \<times> nat"
  w_newstate :: "lua_State option"
  w_newtable :: "lua_State \<Rightarrow> u32"
  w_newfun :: "lua_State \<Rightarrow> string \<Rightarrow> TValue list \<Rightarrow> u32"

abbreviation LUA_REGISTRYINDEX :: int where "LUA_REGISTRYINDEX \<equiv> - 10000"
abbreviation LUA_ENVIRONINDEX :: int where "LUA_ENVIRONINDEX \<equiv> - 10001"
abbreviation LUA_GLOBALSINDEX :: int where "LUA_GLOBALSINDEX \<equiv> - 10002"

definition index_value :: "lua_State \<Rightarrow> int \<Rightarrow> TValue option res" where
  "index_value S idx =
     (if LUA_REGISTRYINDEX < idx then index2adr (L_stack S) idx
      else if idx = LUA_REGISTRYINDEX then Ok (Some (L_registry S))
      else if idx = LUA_ENVIRONINDEX then Ok (Some (L_env S))
      else if idx = LUA_GLOBALSINDEX then Ok (Some (L_gt S))
      else (let i = nat (LUA_GLOBALSINDEX - idx)
            in Ok (if i \<le> length (L_upvals S) then Some (L_upvals S ! (i - 1)) else None)))"

text \<open>An index at which the code dereferences the value; \<open>luaO_nilobject\<close> reads as nil.\<close>

definition api_value :: "lua_State \<Rightarrow> int \<Rightarrow> TValue res" where
  "api_value S idx = rbind (index_value S idx) (\<lambda>v. Ok (case v of None \<Rightarrow> VNil | Some v \<Rightarrow> v))"

definition api_push :: "lua_State \<Rightarrow> TValue \<Rightarrow> lua_State" where
  "api_push S v = S\<lparr>L_stack := L_stack S @ [v]\<rparr>"

definition api_pop :: "lua_State \<Rightarrow> nat \<Rightarrow> lua_State res" where
  "api_pop S n = rbind (lua_pop (L_stack S) n) (\<lambda>st. Ok (S\<lparr>L_stack := st\<rparr>))"

definition api_top :: "lua_State \<Rightarrow> nat \<Rightarrow> TValue res" where
  "api_top S k = rbind (index2adr (L_stack S) (- int k)) (\<lambda>v. Ok (case v of None \<Rightarrow> VNil | Some v \<Rightarrow> v))"

definition get_table :: "lua_State \<Rightarrow> u32 \<Rightarrow> Table res" where
  "get_table S p = (case L_heap S p of None \<Rightarrow> Fail (Undefined ''dangling table'') | Some h \<Rightarrow> Ok h)"

definition put_table :: "lua_State \<Rightarrow> u32 \<Rightarrow> Table \<Rightarrow> lua_State" where
  "put_table S p h = S\<lparr>L_heap := (L_heap S)(p \<mapsto> h)\<rparr>"

section \<open>Stack manipulation\<close>

definition lua_remove :: "lua_State \<Rightarrow> int \<Rightarrow> lua_State res" where
  "lua_remove S idx =
     (let st = L_stack S; i = (if 0 < idx then nat idx - 1 else length st - nat (- idx))
      in if idx \<noteq> 0 \<and> i < length st \<and> nat \<bar>idx\<bar> \<le> length st
         then Ok (S\<lparr>L_stack := take i st @ drop (Suc i) st\<rparr>)
         else Fail (Undefined ''invalid stack index''))"

definition lua_insert :: "lua_State \<Rightarrow> int \<Rightarrow> lua_State res" where
  "lua_insert S idx =
     (let st = L_stack S; i = (if 0 < idx then nat idx - 1 else length st - nat (- idx))
      in if idx \<noteq> 0 \<and> i < length st \<and> nat \<bar>idx\<bar> \<le> length st
         then Ok (S\<lparr>L_stack := take i st @ last st # drop i (butlast st)\<rparr>)
         else Fail (Undefined ''invalid stack index''))"

definition lua_pushvalue :: "lua_State \<Rightarrow> int \<Rightarrow> lua_State res" where
  "lua_pushvalue S idx = rbind (api_value S idx) (\<lambda>v. Ok (api_push S v))"

section \<open>Calls\<close>

definition adjust_results :: "int \<Rightarrow> TValue list \<Rightarrow> TValue list" where
  "adjust_results nres rs = (if nres < 0 then rs else take (nat nres) (rs @ replicate (nat nres) VNil))"

text \<open>\<open>luaD_call\<close>: the callee works on frames of its own; it changes the frame of the caller only
through the open upvalues of closures that the caller has made, and then \<open>w_call\<close> says so.\<close>

definition luaD_call :: "world \<Rightarrow> lua_State \<Rightarrow> TValue \<Rightarrow> TValue list \<Rightarrow> int \<Rightarrow> (lua_State \<times> TValue list) res" where
  "luaD_call W S f args nres =
     rbind (w_call W S f args) (\<lambda>(S', rs). Ok (S', adjust_results nres rs))"

definition lua_call :: "world \<Rightarrow> lua_State \<Rightarrow> nat \<Rightarrow> int \<Rightarrow> lua_State res" where
  "lua_call W S nargs nres =
     (let st = L_stack S; n = length st in
      if n < nargs + 1 then Fail (Undefined ''stack underflow'')
      else
        (let base = S\<lparr>L_stack := take (n - (nargs + 1)) st\<rparr>
         in rbind (luaD_call W base (st ! (n - (nargs + 1))) (drop (n - nargs) st) nres) (\<lambda>(S', rs).
              Ok (S'\<lparr>L_stack := L_stack S' @ rs\<rparr>))))"

definition lua_pcall :: "world \<Rightarrow> lua_State \<Rightarrow> nat \<Rightarrow> int \<Rightarrow> (lua_State \<times> nat) res" where
  "lua_pcall W S nargs nres =
     (let st = L_stack S; n = length st in
      if n < nargs + 1 then Fail (Undefined ''stack underflow'')
      else
        (let base = take (n - (nargs + 1)) st;
             (S', rs, status) = w_pcall W (S\<lparr>L_stack := base\<rparr>) (st ! (n - (nargs + 1))) (drop (n - nargs) st)
         in Ok (S'\<lparr>L_stack := base @ (if status = 0 then adjust_results nres rs else rs)\<rparr>, status)))"

section \<open>Tag methods\<close>

datatype TMS =
    TM_INDEX | TM_NEWINDEX | TM_GC | TM_MODE | TM_EQ | TM_ADD | TM_SUB | TM_MUL | TM_DIV
  | TM_MOD | TM_POW | TM_UNM | TM_LEN | TM_LT | TM_LE | TM_CONCAT | TM_CALL

text \<open>The place of an event in the order of the enumeration.\<close>

primrec tm_bit :: "TMS \<Rightarrow> nat" where
  "tm_bit TM_INDEX = 0"
| "tm_bit TM_NEWINDEX = 1"
| "tm_bit TM_GC = 2"
| "tm_bit TM_MODE = 3"
| "tm_bit TM_EQ = 4"
| "tm_bit TM_ADD = 5"
| "tm_bit TM_SUB = 6"
| "tm_bit TM_MUL = 7"
| "tm_bit TM_DIV = 8"
| "tm_bit TM_MOD = 9"
| "tm_bit TM_POW = 10"
| "tm_bit TM_UNM = 11"
| "tm_bit TM_LEN = 12"
| "tm_bit TM_LT = 13"
| "tm_bit TM_LE = 14"
| "tm_bit TM_CONCAT = 15"
| "tm_bit TM_CALL = 16"

primrec tmname :: "TMS \<Rightarrow> string" where
  "tmname TM_INDEX = ''__index''"
| "tmname TM_NEWINDEX = ''__newindex''"
| "tmname TM_GC = ''__gc''"
| "tmname TM_MODE = ''__mode''"
| "tmname TM_EQ = ''__eq''"
| "tmname TM_ADD = ''__add''"
| "tmname TM_SUB = ''__sub''"
| "tmname TM_MUL = ''__mul''"
| "tmname TM_DIV = ''__div''"
| "tmname TM_MOD = ''__mod''"
| "tmname TM_POW = ''__pow''"
| "tmname TM_UNM = ''__unm''"
| "tmname TM_LEN = ''__len''"
| "tmname TM_LT = ''__lt''"
| "tmname TM_LE = ''__le''"
| "tmname TM_CONCAT = ''__concat''"
| "tmname TM_CALL = ''__call''"

definition getstr_value :: "Table \<Rightarrow> string \<Rightarrow> TValue res" where
  "getstr_value h s = rbind (luaH_getstr h s) (\<lambda>p. Ok (case p of None \<Rightarrow> VNil | Some s \<Rightarrow> slot_val h s))"

definition luaT_gettm :: "lua_State \<Rightarrow> u32 \<Rightarrow> TMS \<Rightarrow> (lua_State \<times> TValue option) res" where
  "luaT_gettm S et ev =
     rbind (get_table S et) (\<lambda>events. rbind (getstr_value events (tmname ev)) (\<lambda>tm.
       if tm = VNil then Ok (put_table S et (events\<lparr>t_flags := t_flags events OR push_bit (tm_bit ev) 1\<rparr>), None)
       else Ok (S, Some tm)))"

definition fasttm :: "lua_State \<Rightarrow> u32 \<Rightarrow> TMS \<Rightarrow> (lua_State \<times> TValue option) res" where
  "fasttm S et ev =
     (if et = 0 then Ok (S, None)
      else rbind (get_table S et) (\<lambda>h.
        if t_flags h AND push_bit (tm_bit ev) 1 \<noteq> 0 then Ok (S, None) else luaT_gettm S et ev))"

definition luaT_gettmbyobj :: "lua_State \<Rightarrow> TValue \<Rightarrow> TMS \<Rightarrow> TValue res" where
  "luaT_gettmbyobj S obj ev =
     rbind (case obj of
              VTable p \<Rightarrow> rbind (get_table S p) (\<lambda>h. Ok (t_metatable h))
            | VUser p \<Rightarrow> Ok (L_umt S p)
            | _ \<Rightarrow> Ok (L_mt S (ttype obj))) (\<lambda>mt.
       if mt = 0 then Ok VNil else rbind (get_table S mt) (\<lambda>h. getstr_value h (tmname ev)))"

definition luaG_typeerror :: "TValue \<Rightarrow> string \<Rightarrow> 'a res" where
  "luaG_typeerror v opname = Fail (LuaError (''attempt to '' @ opname @ '' a '' @ lua_typename (ttype v) @ '' value''))"

definition MAXTAGLOOP :: nat where "MAXTAGLOOP = 100"

definition callTMres :: "world \<Rightarrow> lua_State \<Rightarrow> TValue \<Rightarrow> TValue \<Rightarrow> TValue \<Rightarrow> (lua_State \<times> TValue) res" where
  "callTMres W S f p1 p2 = rbind (luaD_call W S f [p1, p2] 1) (\<lambda>(S', rs). Ok (S', hd rs))"

definition callTM :: "world \<Rightarrow> lua_State \<Rightarrow> TValue \<Rightarrow> TValue \<Rightarrow> TValue \<Rightarrow> TValue \<Rightarrow> lua_State res" where
  "callTM W S f p1 p2 p3 = rbind (luaD_call W S f [p1, p2, p3] 0) (\<lambda>(S', rs). Ok S')"

definition is_function :: "TValue \<Rightarrow> bool" where
  "is_function v \<longleftrightarrow> ttype v = 6"

fun gettable_loop :: "world \<Rightarrow> nat \<Rightarrow> lua_State \<Rightarrow> TValue \<Rightarrow> TValue \<Rightarrow> (lua_State \<times> TValue) res" where
  "gettable_loop W 0 S t key = Fail (LuaError ''loop in gettable'')"
| "gettable_loop W (Suc n) S t key =
     (let follow = (\<lambda>S tm. if is_function tm then callTMres W S tm t key else gettable_loop W n S tm key) in
      case t of
        VTable p \<Rightarrow>
          rbind (get_table S p) (\<lambda>h. rbind (table_get h key) (\<lambda>v.
            if v \<noteq> VNil then Ok (S, v)
            else rbind (fasttm S (t_metatable h) TM_INDEX) (\<lambda>(S1, tm).
                   case tm of None \<Rightarrow> Ok (S1, VNil) | Some tm \<Rightarrow> follow S1 tm)))
      | _ \<Rightarrow>
          rbind (luaT_gettmbyobj S t TM_INDEX) (\<lambda>tm.
            if tm = VNil then luaG_typeerror t ''index'' else follow S tm))"

definition luaV_gettable :: "world \<Rightarrow> lua_State \<Rightarrow> TValue \<Rightarrow> TValue \<Rightarrow> (lua_State \<times> TValue) res" where
  "luaV_gettable W S t key = gettable_loop W MAXTAGLOOP S t key"

fun settable_loop :: "world \<Rightarrow> nat \<Rightarrow> lua_State \<Rightarrow> TValue \<Rightarrow> TValue \<Rightarrow> TValue \<Rightarrow> lua_State res" where
  "settable_loop W 0 S t key val = Fail (LuaError ''loop in settable'')"
| "settable_loop W (Suc n) S t key val =
     (let follow = (\<lambda>S tm. if is_function tm then callTM W S tm t key val else settable_loop W n S tm key val) in
      case t of
        VTable p \<Rightarrow>
          rbind (get_table S p) (\<lambda>h. rbind (luaH_set h key) (\<lambda>(h1, s).
            let S1 = put_table S p h1 in
            if slot_val h1 s \<noteq> VNil then Ok (put_table S1 p (slot_set h1 s val))
            else rbind (fasttm S1 (t_metatable h1) TM_NEWINDEX) (\<lambda>(S2, tm).
                   case tm of
                     None \<Rightarrow> rbind (get_table S2 p) (\<lambda>h2. Ok (put_table S2 p (slot_set h2 s val)))
                   | Some tm \<Rightarrow> follow S2 tm)))
      | _ \<Rightarrow>
          rbind (luaT_gettmbyobj S t TM_NEWINDEX) (\<lambda>tm.
            if tm = VNil then luaG_typeerror t ''index'' else follow S tm))"

definition luaV_settable :: "world \<Rightarrow> lua_State \<Rightarrow> TValue \<Rightarrow> TValue \<Rightarrow> TValue \<Rightarrow> lua_State res" where
  "luaV_settable W S t key val = settable_loop W MAXTAGLOOP S t key val"

section \<open>Get functions\<close>

definition set_top :: "lua_State \<Rightarrow> TValue \<Rightarrow> lua_State" where
  "set_top S v = S\<lparr>L_stack := butlast (L_stack S) @ [v]\<rparr>"

definition lua_gettable :: "world \<Rightarrow> lua_State \<Rightarrow> int \<Rightarrow> lua_State res" where
  "lua_gettable W S idx =
     rbind (api_value S idx) (\<lambda>t. rbind (api_top S 1) (\<lambda>key.
       rbind (luaV_gettable W S t key) (\<lambda>(S', v). Ok (set_top S' v))))"

definition lua_getfield :: "world \<Rightarrow> lua_State \<Rightarrow> int \<Rightarrow> string \<Rightarrow> lua_State res" where
  "lua_getfield W S idx k =
     rbind (api_value S idx) (\<lambda>t. rbind (luaV_gettable W S t (VStr k)) (\<lambda>(S', v). Ok (api_push S' v)))"

definition table_at :: "lua_State \<Rightarrow> int \<Rightarrow> (u32 \<times> Table) res" where
  "table_at S idx =
     rbind (api_value S idx) (\<lambda>t. case t of
       VTable p \<Rightarrow> rbind (get_table S p) (\<lambda>h. Ok (p, h))
     | _ \<Rightarrow> Fail (Undefined ''not a table''))"

definition lua_rawget :: "lua_State \<Rightarrow> int \<Rightarrow> lua_State res" where
  "lua_rawget S idx =
     rbind (table_at S idx) (\<lambda>(p, h). rbind (api_top S 1) (\<lambda>key. rbind (table_get h key) (\<lambda>v. Ok (set_top S v))))"

definition lua_rawgeti :: "lua_State \<Rightarrow> int \<Rightarrow> int \<Rightarrow> lua_State res" where
  "lua_rawgeti S idx n =
     rbind (table_at S idx) (\<lambda>(p, h). rbind (luaH_getnum h n) (\<lambda>s.
       Ok (api_push S (case s of None \<Rightarrow> VNil | Some s \<Rightarrow> slot_val h s))))"

text \<open>A negative size (the parameters are \<open>int\<close>): \<open>narray = - 1\<close> passes the test of \<open>luaM_reallocv\<close> and asks
for almost 4 GB, which no allocator of a 32-bit process has; a smaller one fails the test; a negative
\<open>nrec\<close> is seen after the array part was made.\<close>

definition lua_createtable :: "world \<Rightarrow> lua_State \<Rightarrow> int \<Rightarrow> int \<Rightarrow> lua_State res" where
  "lua_createtable W S narray nrec =
     (if narray = - 1 then Fail MemError
      else if narray < 0 then Fail (LuaError ''memory allocation error: block too big'')
      else if nrec < 0 then rbind (luaH_new (nat narray) 0) (\<lambda>h. Fail (LuaError ''table overflow''))
      else rbind (luaH_new (nat narray) (nat nrec)) (\<lambda>h.
        let p = w_newtable W S in Ok (api_push (put_table S p h) (VTable p))))"

definition lua_getmetatable :: "lua_State \<Rightarrow> int \<Rightarrow> (lua_State \<times> bool) res" where
  "lua_getmetatable S idx =
     rbind (api_value S idx) (\<lambda>obj.
       rbind (case obj of
                VTable p \<Rightarrow> rbind (get_table S p) (\<lambda>h. Ok (t_metatable h))
              | VUser p \<Rightarrow> Ok (L_umt S p)
              | _ \<Rightarrow> Ok (L_mt S (ttype obj))) (\<lambda>mt.
         if mt = 0 then Ok (S, False) else Ok (api_push S (VTable mt), True)))"

section \<open>Set functions\<close>

definition lua_settable :: "world \<Rightarrow> lua_State \<Rightarrow> int \<Rightarrow> lua_State res" where
  "lua_settable W S idx =
     rbind (api_value S idx) (\<lambda>t. rbind (api_top S 2) (\<lambda>key. rbind (api_top S 1) (\<lambda>val.
       rbind (luaV_settable W S t key val) (\<lambda>S'. api_pop S' 2))))"

definition lua_setfield :: "world \<Rightarrow> lua_State \<Rightarrow> int \<Rightarrow> string \<Rightarrow> lua_State res" where
  "lua_setfield W S idx k =
     rbind (api_value S idx) (\<lambda>t. rbind (api_top S 1) (\<lambda>val.
       rbind (luaV_settable W S t (VStr k) val) (\<lambda>S'. api_pop S' 1)))"

definition lua_rawset :: "lua_State \<Rightarrow> int \<Rightarrow> lua_State res" where
  "lua_rawset S idx =
     rbind (table_at S idx) (\<lambda>(p, h). rbind (api_top S 2) (\<lambda>key. rbind (api_top S 1) (\<lambda>val.
       rbind (table_put h key val) (\<lambda>h'. api_pop (put_table S p h') 2))))"

definition lua_rawseti :: "lua_State \<Rightarrow> int \<Rightarrow> int \<Rightarrow> lua_State res" where
  "lua_rawseti S idx n =
     rbind (table_at S idx) (\<lambda>(p, h). rbind (api_top S 1) (\<lambda>val.
       rbind (luaH_setnum h n) (\<lambda>(h', s). api_pop (put_table S p (slot_set h' s val)) 1)))"

definition lua_setmetatable :: "lua_State \<Rightarrow> int \<Rightarrow> lua_State res" where
  "lua_setmetatable S idx =
     rbind (api_value S idx) (\<lambda>obj. rbind (api_top S 1) (\<lambda>m.
       rbind (case m of VNil \<Rightarrow> Ok 0 | VTable p \<Rightarrow> Ok p | _ \<Rightarrow> Fail (Undefined ''not a table'')) (\<lambda>mt.
         rbind (case obj of
                  VTable p \<Rightarrow> rbind (get_table S p) (\<lambda>h. Ok (put_table S p (h\<lparr>t_metatable := mt\<rparr>)))
                | VUser p \<Rightarrow> Ok (S\<lparr>L_umt := (L_umt S)(p := mt)\<rparr>)
                | _ \<Rightarrow> Ok (S\<lparr>L_mt := (L_mt S)(ttype obj := mt)\<rparr>)) (\<lambda>S'. api_pop S' 1))))"

section \<open>Miscellaneous\<close>

definition lua_next :: "lua_State \<Rightarrow> int \<Rightarrow> (lua_State \<times> bool) res" where
  "lua_next S idx =
     rbind (table_at S idx) (\<lambda>(p, h). rbind (api_top S 1) (\<lambda>key. rbind (luaH_next h key) (\<lambda>r.
       case r of
         Some (k, v) \<Rightarrow> Ok (api_push (set_top S k) v, True)
       | None \<Rightarrow> rbind (api_pop S 1) (\<lambda>S'. Ok (S', False)))))"

definition lua_rawequal :: "lua_State \<Rightarrow> int \<Rightarrow> int \<Rightarrow> bool res" where
  "lua_rawequal S i j =
     rbind (index_value S i) (\<lambda>a. rbind (index_value S j) (\<lambda>b.
       Ok (case (a, b) of (Some v, Some w) \<Rightarrow> luaO_rawequalObj v w | _ \<Rightarrow> False)))"

section \<open>Tables without metatables\<close>

definition plain_table :: "lua_State \<Rightarrow> u32 \<Rightarrow> Table \<Rightarrow> bool" where
  "plain_table S p h \<longleftrightarrow> L_heap S p = Some h \<and> table_inv h \<and> t_metatable h = 0"

lemma heap_put_table [simp]: "L_heap (put_table S p h) = (L_heap S)(p \<mapsto> h)"
  by (simp add: put_table_def)

lemma state_put_table [simp]:
  "L_stack (put_table S p h) = L_stack S" "L_gt (put_table S p h) = L_gt S" "L_registry (put_table S p h) = L_registry S"
  "put_table (put_table S p h) p h' = put_table S p h'"
  by (simp_all add: put_table_def)

lemma state_push [simp]:
  "L_stack (api_push S v) = L_stack S @ [v]" "L_heap (api_push S v) = L_heap S" "L_gt (api_push S v) = L_gt S"
  "L_registry (api_push S v) = L_registry S"
  by (simp_all add: api_push_def)

lemma set_top_push [simp]: "set_top (api_push S v) w = api_push S w"
  by (simp add: set_top_def api_push_def)

lemma api_top_1 [simp]: "L_stack S = st @ [v] \<Longrightarrow> api_top S (Suc 0) = Ok v"
  by (simp add: api_top_def index2adr_def)

lemma api_top_2 [simp]: "L_stack S = st @ [v, w] \<Longrightarrow> api_top S 2 = Ok v"
  by (simp add: api_top_def index2adr_def nth_append)

lemma plain_put [simp]: "plain_table (put_table S p h) p h' \<longleftrightarrow> h' = h \<and> table_inv h \<and> t_metatable h = 0"
  by (auto simp: plain_table_def)

lemma plain_put_other: "p \<noteq> q \<Longrightarrow> plain_table (put_table S p h) q h' = plain_table S q h'"
  by (simp add: plain_table_def)

lemma plain_push [simp]: "plain_table (api_push S v) p h = plain_table S p h"
  by (simp add: plain_table_def)

lemma table_get_val: "table_inv h \<Longrightarrow> valid_key k \<Longrightarrow> table_get h k = Ok (table_val h k)"
  using table_get_holds [of h k] by (auto simp: table_val_def valid_key_def)

lemma gettable_plain:
  assumes "plain_table S p h" "valid_key k"
  shows "luaV_gettable W S (VTable p) k = Ok (S, table_val h k)"
proof -
  have "get_table S p = Ok h" "table_get h k = Ok (table_val h k)"
    using assms table_get_val by (auto simp: get_table_def plain_table_def)
  then show ?thesis
    using assms by (simp add: luaV_gettable_def MAXTAGLOOP_def numeral_eq_Suc fasttm_def plain_table_def)
qed

lemma settable_plain:
  assumes "plain_table S p h" "valid_key k"
  shows "luaV_settable W S (VTable p) k v = rbind (table_put h k v) (\<lambda>h'. Ok (put_table S p h'))"
proof -
  have g: "get_table S p = Ok h" and t: "table_inv h" "t_metatable h = 0" using assms by (auto simp: get_table_def plain_table_def)
  have k: "proper k" "no_nan k" using assms by (simp_all add: valid_key_def)
  from luaH_set_ok [OF t(1) k] show ?thesis
  proof
    assume "luaH_set h k = Fail (LuaError ''table overflow'')"
    then show ?thesis using g by (simp add: luaV_settable_def MAXTAGLOOP_def numeral_eq_Suc table_put_def)
  next
    assume "\<exists>t' s. luaH_set h k = Ok (t', s) \<and> set_ok h k t' s"
    then obtain t' s where s: "luaH_set h k = Ok (t', s)" "t_metatable t' = 0" using t by (auto simp: set_ok_def)
    then show ?thesis
      using g by (auto simp: luaV_settable_def MAXTAGLOOP_def numeral_eq_Suc table_put_def fasttm_def get_table_def Let_def)
  qed
qed

lemma table_put_plain:
  assumes "plain_table S p h" "valid_key k" "table_put h k v = Ok h'"
  shows "table_inv h'" "t_metatable h' = 0" "\<And>k'. valid_key k' \<Longrightarrow> table_val h' k' = (if luaO_rawequalObj k k' then v else table_val h k')"
proof -
  have h: "table_inv h" "t_metatable h = 0" using assms by (simp_all add: plain_table_def)
  show "table_inv h'" by (rule tbl.put_inv [OF h(1) assms(2,3)])
  show "t_metatable h' = 0" using table_put_ok(2) [OF h(1) assms(2,3)] h(2) by simp
  show "valid_key k' \<Longrightarrow> table_val h' k' = (if luaO_rawequalObj k k' then v else table_val h k')" for k'
    by (rule tbl.fetch_put [OF h(1) assms(2) _ assms(3)])
qed

lemma valid_num [simp]: "valid_key (VNum n) \<longleftrightarrow> \<not> luai_numisnan n"
  by (auto simp: valid_key_def proper_def no_nan_def)

lemma valid_str [simp]: "valid_key (VStr s)"
  by (auto simp: valid_key_def proper_def no_nan_def)

lemma valid_int [simp]: "\<bar>i\<bar> < 2 ^ 53 \<Longrightarrow> \<not> luai_numisnan (cast_num i)"
  using cast_num_finite [of i] by (simp add: luai_numisnan_def luai_numeq_def)

section \<open>The stack functions\<close>

lemma gettable_push:
  assumes "plain_table S p h" "valid_key k" "index_value (api_push S k) idx = Ok (Some (VTable p))"
  shows "lua_gettable W (api_push S k) idx = Ok (api_push S (table_val h k))"
  using assms gettable_plain [of "api_push S k" p h k W] by (simp add: lua_gettable_def api_value_def)

lemma index_globals [simp]: "index_value S LUA_GLOBALSINDEX = Ok (Some (L_gt S))"
  by (simp add: index_value_def)

lemma index_below: "L_stack S = st @ [v, w] \<Longrightarrow> index_value S (- 2) = Ok (Some v)"
  by (simp add: index_value_def index2adr_def nth_append)

lemma index_below3: "L_stack S = st @ [u, v, w] \<Longrightarrow> index_value S (- 3) = Ok (Some u)"
  by (simp add: index_value_def index2adr_def nth_append)

lemma api_pop_push [simp]:
  "api_pop (api_push S v) (Suc 0) = Ok S"
  by (simp add: api_pop_def api_push_def lua_pop_append)

lemma api_pop_push2 [simp]:
  "api_pop (api_push (api_push S v) w) 2 = Ok S"
  by (simp add: api_pop_def api_push_def lua_pop_append)

lemma settable_push:
  assumes p: "plain_table S p h" and k: "valid_key k" and st: "L_stack S = st @ [VTable p]"
  shows "lua_settable W (api_push (api_push S k) v) (- 3) =
    rbind (table_put h k v) (\<lambda>h'. Ok (put_table S p h'))"
proof -
  let ?S = "api_push (api_push S k) v"
  have pp: "plain_table ?S p h" using p by simp
  have "api_pop (put_table ?S p h') 2 = Ok (put_table S p h')" for h'
    by (simp add: api_pop_def put_table_def api_push_def lua_pop_append)
  then show ?thesis
    using settable_plain [OF pp k, of W v] index_below3 [of ?S st "VTable p" k v] st api_top_2 [of ?S st'] 
      api_top_2 [of ?S "L_stack S" k v] api_top_1 [of ?S "L_stack S @ [k]" v]
    by (cases "table_put h k v") (simp_all add: lua_settable_def api_value_def)
qed

text \<open>C8: storing a field of a table without metatable through the API and fetching it back gives the
stored value, the stack is as before the store and the fetch apart from the result, and other
tables are not touched.\<close>

theorem lua_settable_gettable:
  assumes "plain_table S p h" and "valid_key k" and "L_stack S = st @ [VTable p]"
    and "lua_settable W (api_push (api_push S k) v) (- 3) = Ok S'"
  shows "L_stack S' = L_stack S \<and> lua_gettable W (api_push S' k) (- 2) = Ok (api_push S' v) \<and>
    (\<forall>q. q \<noteq> p \<longrightarrow> L_heap S' q = L_heap S q)"
proof -
  obtain h' where h': "table_put h k v = Ok h'" "S' = put_table S p h'"
    using assms(4) settable_push [OF assms(1-3), of W v] by (auto simp: rbind_Ok_iff)
  note tp = table_put_plain [OF assms(1,2) h'(1)]
  have pl: "plain_table S' p h'" using tp h'(2) by simp
  have "table_val h' k = v" using tp(3) [OF assms(2)] tbl.same_refl [OF assms(2)] by simp
  moreover have "lua_gettable W (api_push S' k) (- 2) = Ok (api_push S' (table_val h' k))"
    by (rule gettable_push [OF pl assms(2)]) (use index_below [of "api_push S' k" st "VTable p" k] h'(2) assms(3) in simp)
  ultimately show ?thesis using h'(2) by simp
qed

definition start_state :: "Table \<Rightarrow> lua_State" where
  "start_state h = \<lparr>L_stack = [VTable 64], L_heap = [64 \<mapsto> h], L_gt = VTable 64, L_registry = VNil, L_env = VNil,
     L_upvals = [], L_mt = (\<lambda>_. 0), L_umt = (\<lambda>_. 0), L_ulen = (\<lambda>_. 0), L_vm = stack_init\<rparr>"

theorem lua_settable_gettable_witness:
  "\<exists>h S' W. luaH_new 0 4 = Ok h \<and>
     lua_settable W (api_push (api_push (start_state h) (VStr ''gNumInputs'')) (VNum 0)) (- 3) = Ok S' \<and>
     lua_gettable W (api_push S' (VStr ''gNumInputs'')) (- 2) = Ok (api_push S' (VNum 0))"
proof -
  obtain h h' where h: "luaH_new 0 4 = Ok h" "table_inv h" "table_put h (VStr ''gNumInputs'') (VNum 0) = Ok h'"
    by (rule new_table_put)
  obtain h2 where "luaH_new 0 4 = Ok h2" "t_metatable h2 = 0"
    using new_table_ex [of 0 4] by auto
  then have p: "plain_table (start_state h) 64 h"
    using h by (simp add: plain_table_def start_state_def)
  have st: "L_stack (start_state h) = [] @ [VTable 64]" by (simp add: start_state_def)
  have "lua_settable W (api_push (api_push (start_state h) (VStr ''gNumInputs'')) (VNum 0)) (- 3) = Ok (put_table (start_state h) 64 h')" for W
    using settable_push [OF p valid_str st] h(3) by simp
  from lua_settable_gettable [OF p valid_str st this] this h(1) show ?thesis by blast
qed

section \<open>Cyclic inheritance\<close>

text \<open>The table \<open>p\<close> has no value for the key and inherits from the table \<open>q\<close>: its metatable has \<open>q\<close> as
\<open>__index\<close>.\<close>

definition inherits :: "lua_State \<Rightarrow> TValue \<Rightarrow> u32 \<Rightarrow> u32 \<Rightarrow> bool" where
  "inherits S key p q \<longleftrightarrow> (\<exists>h mt. get_table S p = Ok h \<and> table_get h key = Ok VNil \<and> t_metatable h \<noteq> 0 \<and>
     get_table S (t_metatable h) = Ok mt \<and> t_flags mt AND 1 = 0 \<and> getstr_value mt ''__index'' = Ok (VTable q))"

lemma gettable_inherits:
  assumes "inherits S key p q"
  shows "gettable_loop W (Suc n) S (VTable p) key = gettable_loop W n S (VTable q) key"
proof -
  obtain h mt where h: "get_table S p = Ok h" "table_get h key = Ok VNil" "t_metatable h \<noteq> 0"
    and m: "get_table S (t_metatable h) = Ok mt" "t_flags mt AND 1 = 0" "getstr_value mt ''__index'' = Ok (VTable q)"
    using assms unfolding inherits_def by blast
  have "fasttm S (t_metatable h) TM_INDEX = Ok (S, Some (VTable q))"
    unfolding fasttm_def luaT_gettm_def by (simp add: m(1) m(2) m(3) h(3))
  then show ?thesis unfolding gettable_loop.simps(2) Let_def by (simp add: h is_function_def del: gettable_loop.simps)
qed

lemma gettable_cycle_loop:
  assumes "\<forall>t\<in>T. \<exists>q\<in>T. inherits S key t q" and "p \<in> T"
  shows "gettable_loop W n S (VTable p) key = Fail (LuaError ''loop in gettable'')"
  using assms(2)
proof (induction n arbitrary: p)
  case (Suc n)
  then obtain q where q: "q \<in> T" "inherits S key p q" using assms(1) by blast
  show ?case unfolding gettable_inherits [OF q(2)] by (rule Suc.IH [OF q(1)])
qed simp

text \<open>C33: a cycle of inheritance does not hang a lookup. When every table of a set inherits from a
table of the set (a table from itself, or several in a ring, or a chain that leads into a ring), the
lookup of a key that none of them has raises ``loop in gettable'' after \<open>MAXTAGLOOP\<close> steps.\<close>

theorem luaV_gettable_cycle:
  assumes "\<forall>t\<in>T. \<exists>q\<in>T. inherits S key t q" and "p \<in> T"
  shows "luaV_gettable W S (VTable p) key = Fail (LuaError ''loop in gettable'')"
  unfolding luaV_gettable_def by (rule gettable_cycle_loop [OF assms])

lemma getstr_table_get: "getstr_value h s = table_get h (VStr s)"
  by (simp add: getstr_value_def table_get_def luaH_get_def)

lemma slot_val_upd [simp]: "slot_val (h\<lparr>t_flags := f\<rparr>) = slot_val h" "slot_val (h\<lparr>t_metatable := m\<rparr>) = slot_val h"
  by (simp_all add: fun_eq_iff slot_val_def split: slot.split)

lemma getstr_flags: "getstr_value (h\<lparr>t_flags := f\<rparr>) s = getstr_value h s"
  by (simp add: getstr_value_def luaH_getstr_def chain_slot_def hashpow2_def sizenode_def cong: option.case_cong)

lemma metatable_ex: "\<exists>m. t_flags m = 0 \<and> getstr_value m ''__index'' = Ok (VTable q)"
proof -
  obtain h where h: "table_inv h" "\<forall>k v. \<not> holds h k v" "t_node h = replicate (2 ^ log2_size 4) empty_node" "\<not> t_isdummy h"
    using new_table_ex [of 0 4] by auto
  have k: "valid_key (VStr ''__index'')" by simp
  have "\<exists>i<length (t_node h). i_key (t_node h ! i) = VNil"
    unfolding h(3) by (intro exI [of _ 0]) (simp add: empty_node_def)
  then obtain t' s where "luaH_set h (VStr ''__index'') = Ok (t', s)"
    using set_free [of h "VStr ''__index''" "Suc 0"] h by (auto simp: luaH_set_def numeral_2_eq_2 proper_def no_nan_def)
  then obtain m where m: "table_put h (VStr ''__index'') (VTable q) = Ok m" by (simp add: table_put_def)
  have mi: "table_inv m" by (rule table_put_ok(1) [OF h(1) k m])
  have "table_val m (VStr ''__index'') = VTable q" by (rule tbl.fetch_same [OF h(1) k m])
  then have "getstr_value (m\<lparr>t_flags := 0\<rparr>) ''__index'' = Ok (VTable q)"
    using table_get_val [OF mi k] unfolding getstr_flags by (simp add: getstr_table_get)
  then show ?thesis by (intro exI [of _ "m\<lparr>t_flags := 0\<rparr>"]) simp
qed

lemma heir_ex: "\<exists>h. t_metatable h = r \<and> table_get h (VStr ''x'') = Ok VNil"
proof -
  obtain h where h: "table_inv h" "\<forall>k v. \<not> holds h k v" using new_table_ex [of 0 4] by auto
  have k: "valid_key (VStr ''x'')" by simp
  have "table_get h (VStr ''x'') = Ok VNil"
    using table_get_val [OF h(1) k] table_val_nil [OF h(1)] h(2) k by (simp add: valid_key_def)
  moreover have "table_get (h\<lparr>t_metatable := r\<rparr>) (VStr ''x'') = table_get h (VStr ''x'')"
    by (simp add: table_get_def luaH_get_def luaH_getstr_def chain_slot_def hashpow2_def sizenode_def cong: option.case_cong)
  ultimately show ?thesis by (intro exI [of _ "h\<lparr>t_metatable := r\<rparr>"]) simp
qed

theorem luaV_gettable_cycle_witness:
  "\<exists>S. \<forall>W. luaV_gettable W S (VTable 64) (VStr ''x'') = Fail (LuaError ''loop in gettable'')"
proof -
  obtain h1 h2 where h: "t_metatable h1 = 96" "table_get h1 (VStr ''x'') = Ok VNil"
    "t_metatable h2 = 97" "table_get h2 (VStr ''x'') = Ok VNil" using heir_ex by metis
  obtain m1 m2 where m: "t_flags m1 = 0" "getstr_value m1 ''__index'' = Ok (VTable 65)"
    "t_flags m2 = 0" "getstr_value m2 ''__index'' = Ok (VTable 64)" using metatable_ex by metis
  obtain h0 :: Table where True by blast
  let ?S = "start_state h0\<lparr>L_heap := [64 \<mapsto> h1, 65 \<mapsto> h2, 96 \<mapsto> m1, 97 \<mapsto> m2]\<rparr>"
  have "inherits ?S (VStr ''x'') 64 65" "inherits ?S (VStr ''x'') 65 64"
    using h m by (simp_all add: inherits_def get_table_def)
  then have "\<forall>t\<in>{64, 65}. \<exists>q\<in>{64, 65}. inherits ?S (VStr ''x'') t q" by blast
  then have "luaV_gettable W ?S (VTable 64) (VStr ''x'') = Fail (LuaError ''loop in gettable'')" for W
    by (rule luaV_gettable_cycle) simp
  then show ?thesis by blast
qed

section \<open>Tables filled as arrays\<close>

lemma table_put_array:
  assumes "table_inv h" "valid_key k" "in_array (t_sizearray h) k"
  shows "\<exists>h'. table_put h k v = Ok h' \<and> t_sizearray h' = t_sizearray h \<and> t_isdummy h' = t_isdummy h"
proof -
  have "\<exists>t'. rbind (luaH_set_body (newkey (Suc 1)) h k) (\<lambda>(t', s). Ok (slot_set t' s v)) = Ok t' \<and> put_ok h k v t'"
    using assms by (intro put_free) (auto simp: table_inv_def valid_key_def)
  then show ?thesis by (auto simp: table_put_def luaH_set_def numeral_2_eq_2 put_ok_def)
qed

lemma int_key_array: "1 \<le> i \<Longrightarrow> i \<le> n \<Longrightarrow> n < 2 ^ 30 \<Longrightarrow> in_array n (VNum (cast_num (int i)))"
  using arrayindex_cast_num [of "int i"] by (simp add: in_array_def)

lemma valid_int_key: "i < 2 ^ 30 \<Longrightarrow> valid_key (VNum (cast_num (int i)))"
  by simp

lemma rawequal_int_keys:
  "i < 2 ^ 30 \<Longrightarrow> j < 2 ^ 30 \<Longrightarrow> luaO_rawequalObj (VNum (cast_num (int i))) (VNum (cast_num (int j))) \<longleftrightarrow> i = j"
  by (simp add: cast_num_eq_iff)

lemma new_array_table:
  assumes "n \<le> MAXASIZE"
  shows "\<exists>h. luaH_new n 0 = Ok h \<and> table_inv h \<and> t_metatable h = 0 \<and> t_sizearray h = n"
proof -
  have "log2_size 0 \<le> MAXBITS" by (simp add: log2_size_def)
  with assms show ?thesis by (metis luaH_new_ok zero_le)
qed

text \<open>A table with given values at \<open>1, 2, ...\<close> and nothing else.\<close>

lemma array_table_ex:
  assumes "length vs \<le> MAXASIZE" "length vs < 2 ^ 30"
  shows "\<exists>h. table_inv h \<and> t_metatable h = 0 \<and> (\<forall>i<length vs. int_val h (Suc i) = vs ! i) \<and>
    (\<forall>i. length vs < i \<longrightarrow> i < 2 ^ 30 \<longrightarrow> int_val h i = VNil) \<and> t_sizearray h = length vs \<and> t_isdummy h"
proof -
  have "\<exists>h. table_inv h \<and> t_metatable h = 0 \<and> t_sizearray h = length vs \<and> (\<forall>i<k. int_val h (Suc i) = vs ! i) \<and>
      (\<forall>i. k < i \<longrightarrow> i < 2 ^ 30 \<longrightarrow> int_val h i = VNil) \<and> t_isdummy h" if "k \<le> length vs" for k
    using that
  proof (induction k)
    case 0
    have "log2_size 0 \<le> MAXBITS" by (simp add: log2_size_def)
    with assms(1) have "\<exists>h. table_inv h \<and> t_metatable h = 0 \<and> t_sizearray h = length vs \<and> (\<forall>k v. \<not> holds h k v) \<and> t_isdummy h"
      by (metis luaH_new_ok zero_le)
    then obtain h where h: "table_inv h" "t_metatable h = 0" "t_sizearray h = length vs" "\<forall>k v. \<not> holds h k v" "t_isdummy h" by blast
    have "int_val h i = VNil" if "i < 2 ^ 30" for i
      using table_val_nil [OF h(1)] h(4) valid_int_key [OF that] by (simp add: valid_key_def)
    then show ?case using h by auto
  next
    case (Suc k)
    then obtain h where h: "table_inv h" "t_metatable h = 0" "t_sizearray h = length vs" "\<forall>i<k. int_val h (Suc i) = vs ! i"
      "\<forall>i. k < i \<longrightarrow> i < 2 ^ 30 \<longrightarrow> int_val h i = VNil" "t_isdummy h" by auto
    let ?key = "VNum (cast_num (int (Suc k)))"
    have ki: "Suc k < 2 ^ 30" using Suc.prems assms(2) by simp
    have vk: "valid_key ?key" by (rule valid_int_key [OF ki])
    obtain h' where h': "table_put h ?key (vs ! k) = Ok h'" "t_sizearray h' = length vs" "t_isdummy h'"
      using table_put_array [OF h(1) vk, of "vs ! k"] int_key_array [of "Suc k" "length vs"] h(3,6) Suc.prems assms(2) by auto
    note ok = table_put_ok(1,2) [OF h(1) vk h'(1)]
    have v: "int_val h' i = (if i = Suc k then vs ! k else int_val h i)" if "i < 2 ^ 30" for i
      using tbl.fetch_put [OF h(1) vk valid_int_key [OF that] h'(1)] rawequal_int_keys [OF ki that] by auto
    have "int_val h' (Suc i) = vs ! i" if "i < Suc k" for i
      using v [of "Suc i"] h(4) that ki by (cases "i = k") (auto simp del: of_nat_Suc)
    moreover have "int_val h' i = VNil" if "Suc k < i" "i < 2 ^ 30" for i
      using v [OF that(2)] h(5) that by simp
    ultimately show ?case using ok h(2) h'(2,3) by auto
  qed
  from this [of "length vs"] show ?thesis by auto
qed

end
