(* ===== verification/ProfiConsole.thy ===== *)
theory ProfiConsole
  imports LuaFrame
begin

text \<open>
  proficonsole.c: the debug console. \<open>fout\<close>, \<open>fin\<close> and \<open>ferr\<close> tell whether the stream pointers are
  set; the calls of the Windows API and of the C runtime are events, in their order. Closing a
  null stream is undefined. \<open>DebugLuaStack\<close> prints one line per value of a Lua stack; the text of
  a number (format \<open>%g\<close>) is a parameter.
\<close>

datatype con_event =
    AllocConsole | SetConsoleTitle | SetConsoleMode | SetConsoleScreenBufferSize | SetConsoleCtrlHandler
  | RedirectStdout | RedirectStdin | RedirectStderr
  | CloseStdout | CloseStdin | CloseStderr | FreeConsole | BringWindowToTop | MessageBox

record console =
  con_fout :: bool
  con_fin :: bool
  con_ferr :: bool
  con_events :: "con_event list"

definition DebugConsoleTop :: "console \<Rightarrow> console" where
  "DebugConsoleTop c = c\<lparr>con_events := con_events c @ [BringWindowToTop]\<rparr>"

definition DebugConsoleOff :: "console \<Rightarrow> console res" where
  "DebugConsoleOff c =
     (if con_fout c \<and> con_fin c \<and> con_ferr c
      then Ok (c\<lparr>con_fout := False, con_fin := False, con_ferr := False,
                 con_events := con_events c @ [CloseStdout, CloseStdin, CloseStderr, FreeConsole]\<rparr>)
      else Fail (Undefined ''closing a null stream''))"

definition DebugConsoleHandler :: "console \<Rightarrow> console \<times> bool" where
  "DebugConsoleHandler c = (c\<lparr>con_events := con_events c @ [MessageBox, BringWindowToTop]\<rparr>, True)"

definition DebugConsoleOn :: "console \<Rightarrow> console" where
  "DebugConsoleOn c =
     c\<lparr>con_fout := True, con_fin := True, con_ferr := True,
       con_events := con_events c @ [AllocConsole, SetConsoleTitle, SetConsoleMode, SetConsoleScreenBufferSize,
         SetConsoleCtrlHandler, RedirectStdout, RedirectStdin, RedirectStderr]\<rparr>"

definition stack_line :: "(lua_Number \<Rightarrow> string) \<Rightarrow> TValue \<Rightarrow> string" where
  "stack_line fmt v =
     (case v of
        VStr s \<Rightarrow> [CHR '' '', CHR '' '', CHR 0x60] @ cstr s @ [CHR 0x27]
      | VBool b \<Rightarrow> if b then ''  true'' else ''  false''
      | VNum n \<Rightarrow> ''  '' @ fmt n
      | _ \<Rightarrow> ''  '' @ lua_typename (ttype v))"

definition DebugLuaStack :: "(lua_Number \<Rightarrow> string) \<Rightarrow> frame \<Rightarrow> string" where
  "DebugLuaStack fmt S =
     [CHR 0x0A] @ ''Lua stack:'' @ [CHR 0x0A] @
     concat (map (\<lambda>i. stack_line fmt (S ! (i - 1)) @ [CHR 0x0A]) [1..<Suc (lua_gettop S)]) @ [CHR 0x0A]"

end
