(* ===== verification/ProfiLua.thy ===== *)
theory ProfiLua
  imports LuaApi ProfiConsole
begin

text \<open>
  profilua.c: the functions that ProfiLab calls. The state is the global \<open>lua_State\<close> pointer, the
  global variables of the file and the buffers of the host (\<open>PInput\<close>, \<open>POutput\<close>, \<open>PUser\<close> and the
  strings \<open>PString\<close>, each with room for \<open>PStrCap\<close> bytes). Calls into Lua go through the API of LuaApi;
  \<open>lua_call\<close> is not protected here, so an error in a script ends the process
  (\<open>Fail (LuaError _)\<close>).
\<close>

record profilua =
  pL :: "lua_State option"
  gNumInputs :: u8
  gNumOutputs :: u8
  gERROR :: u8
  gFileNum :: u8
  gConsole :: u8
  gConsoleTop :: u8
  gInStrMarker :: "u8 list"
  gOutStrMarker :: "u8 list"
  gCSimStartOverride :: u8
  pl_console :: console
  PInput :: "lua_Number list"
  POutput :: "lua_Number list"
  PUser :: "lua_Number list"
  PString :: "string list"
  PStrCap :: nat

text \<open>\<open>LOGIC_HIGH\<close> is 5.0, \<open>LOGIC_LOW\<close> 0 and \<open>LOGIC_HIGH_THRES\<close> 2.5.\<close>

definition LOGIC_HIGH :: lua_Number where "LOGIC_HIGH = 0x4014000000000000"
definition LOGIC_LOW :: lua_Number where "LOGIC_LOW = 0"
definition LOGIC_HIGH_THRES :: lua_Number where "LOGIC_HIGH_THRES = 0x4004000000000000"
abbreviation PL_ERROR :: lua_Number where "PL_ERROR \<equiv> LOGIC_HIGH"
abbreviation PL_OK :: lua_Number where "PL_OK \<equiv> LOGIC_LOW"

section \<open>Helpers\<close>

definition on_L :: "profilua \<Rightarrow> (lua_State \<Rightarrow> lua_State res) \<Rightarrow> profilua res" where
  "on_L s f = (case pL s of None \<Rightarrow> Fail (Undefined ''null lua_State'')
     | Some S \<Rightarrow> rbind (f S) (\<lambda>S'. Ok (s\<lparr>pL := Some S'\<rparr>)))"

definition ask_L :: "profilua \<Rightarrow> (lua_State \<Rightarrow> 'a res) \<Rightarrow> 'a res" where
  "ask_L s f = (case pL s of None \<Rightarrow> Fail (Undefined ''null lua_State'') | Some S \<Rightarrow> f S)"

text \<open>\<open>strcpy\<close> into a buffer of \<open>cap\<close> bytes; the source is the part of the string before its first
zero byte.\<close>

definition strcpy :: "nat \<Rightarrow> string \<Rightarrow> string res" where
  "strcpy cap src = (if length (cstr src) < cap then Ok (cstr src) else Fail (Undefined ''buffer overflow''))"

fun decimal :: "nat \<Rightarrow> nat \<Rightarrow> string" where
  "decimal 0 n = ''''"
| "decimal (Suc k) n = (if n < 10 then [''0123456789'' ! n] else decimal k (n div 10) @ [''0123456789'' ! (n mod 10)])"

definition script_name :: "u8 \<Rightarrow> string" where
  "script_name n = decimal 4 (unat n) @ ''.lua''"

text \<open>The text of a number that \<open>lua_tostring\<close> makes is a parameter of the functions below
(\<open>sprintf\<close> with \<open>%.14g\<close> of the C runtime).\<close>

definition lua_tostring :: "(lua_Number \<Rightarrow> string) \<Rightarrow> TValue \<Rightarrow> string option" where
  "lua_tostring fmt v = (case v of VStr s \<Rightarrow> Some s | VNum n \<Rightarrow> Some (fmt n) | _ \<Rightarrow> None)"

section \<open>Scripts\<close>

definition OpenLuaScript :: "world \<Rightarrow> profilua \<Rightarrow> (profilua \<times> bool) res" where
  "OpenLuaScript W s =
     (case (case pL s of None \<Rightarrow> w_newstate W | Some S \<Rightarrow> Some S) of
        None \<Rightarrow> Ok (s\<lparr>pL := None\<rparr>, False)
      | Some S \<Rightarrow>
          (let (S1, v, st) = w_loadfile W S (script_name (gFileNum s))
           in rbind (lua_pcall W (api_push (S1\<lparr>L_stack := L_stack S\<rparr>) v) 0 (- 1)) (\<lambda>(S2, status).
                Ok (s\<lparr>pL := Some S2\<rparr>, True))))"

definition CloseLuaScript :: "profilua \<Rightarrow> profilua" where
  "CloseLuaScript s = s\<lparr>pL := None\<rparr>"

section \<open>Numbers of pins\<close>

definition read_count :: "profilua \<Rightarrow> u8 option res" where
  "read_count s = ask_L s (\<lambda>S. rbind (lua_type (L_stack S) (- 1)) (\<lambda>t.
     if t = 0 then Ok None
     else rbind (lua_tonumber (L_stack S) (- 1)) (\<lambda>n. rbind (cast_uchar n) (\<lambda>c. Ok (Some (c + 1))))))"

definition CNumInputsEx :: "world \<Rightarrow> profilua \<Rightarrow> (profilua \<times> u8) res" where
  "CNumInputsEx W s =
     rbind (aget (PUser s) 100) (\<lambda>u. rbind (cast_uchar u) (\<lambda>f.
     rbind (OpenLuaScript W (s\<lparr>gFileNum := f\<rparr>)) (\<lambda>(s1, ok).
       if ok then
         rbind (on_L s1 (\<lambda>S. lua_getfield W S LUA_GLOBALSINDEX ''gNumInputs'')) (\<lambda>s2.
         rbind (read_count s2) (\<lambda>c.
           let s3 = (case c of None \<Rightarrow> s2 | Some c \<Rightarrow> s2\<lparr>gNumInputs := c\<rparr>); s4 = CloseLuaScript s3
           in Ok (s4, gNumInputs s4)))
       else (let s2 = s1\<lparr>gERROR := 1\<rparr> in Ok (s2, gNumInputs s2)))))"

definition CNumOutputsEx :: "world \<Rightarrow> profilua \<Rightarrow> (profilua \<times> u8) res" where
  "CNumOutputsEx W s =
     rbind (aget (PUser s) 100) (\<lambda>u. rbind (cast_uchar u) (\<lambda>f.
     rbind (OpenLuaScript W (s\<lparr>gFileNum := f\<rparr>)) (\<lambda>(s1, ok).
       if ok then
         rbind (on_L s1 (\<lambda>S. lua_getfield W S LUA_GLOBALSINDEX ''gNumOutputs'')) (\<lambda>s2.
         rbind (read_count s2) (\<lambda>c.
           let s3 = (case c of None \<Rightarrow> s2 | Some c \<Rightarrow> s2\<lparr>gNumOutputs := c\<rparr>); s4 = CloseLuaScript s3
           in Ok (s4, gNumOutputs s4)))
       else (let s2 = s1\<lparr>gERROR := 1\<rparr> in Ok (s2, gNumOutputs s2)))))"

section \<open>Names of pins\<close>

definition push_global :: "world \<Rightarrow> profilua \<Rightarrow> string \<Rightarrow> profilua res" where
  "push_global W s name = on_L s (\<lambda>S. lua_gettable W (api_push S (VStr name)) LUA_GLOBALSINDEX)"

definition type_at_top :: "profilua \<Rightarrow> int res" where
  "type_at_top s = ask_L s (\<lambda>S. lua_type (L_stack S) (- 1))"

definition pop_L :: "profilua \<Rightarrow> nat \<Rightarrow> profilua res" where
  "pop_L s n = on_L s (\<lambda>S. api_pop S n)"

definition mark_string :: "bool \<Rightarrow> profilua \<Rightarrow> u8 \<Rightarrow> profilua res" where
  "mark_string is_in s ch =
     (if is_in then rbind (aset (gInStrMarker s) (unat ch) 1) (\<lambda>m. Ok (s\<lparr>gInStrMarker := m\<rparr>))
      else rbind (aset (gOutStrMarker s) (unat ch) 1) (\<lambda>m. Ok (s\<lparr>gOutStrMarker := m\<rparr>)))"

text \<open>The body that \<open>GetInputName\<close> and \<open>GetOutputName\<close> share, after the script has been opened;
\<open>cap\<close> is the size of the buffer of the caller.\<close>

definition ask_name :: "world \<Rightarrow> (lua_Number \<Rightarrow> string) \<Rightarrow> bool \<Rightarrow> profilua \<Rightarrow> u8 \<Rightarrow> nat \<Rightarrow> string \<Rightarrow> (profilua \<times> string) res" where
  "ask_name W fmt is_in s ch cap name0 =
     rbind (push_global W s (if is_in then ''gInputName'' else ''gOutputName'')) (\<lambda>s1.
     rbind (type_at_top s1) (\<lambda>t.
       if t = 6 then
         rbind (on_L s1 (\<lambda>S. lua_call W (api_push S (VNum (cast_num (uint ch)))) 1 1)) (\<lambda>s2.
         rbind (ask_L s2 (\<lambda>S. api_top S 1)) (\<lambda>v.
         rbind (case lua_tostring fmt v of
                  None \<Rightarrow> Ok (s2, name0)
                | Some str \<Rightarrow> rbind (strcpy cap str) (\<lambda>name.
                    if starts_with {CHR ''$''} name then rbind (mark_string is_in s2 ch) (\<lambda>s3. Ok (s3, name))
                    else Ok (s2, name))) (\<lambda>(s4, name).
         rbind (pop_L s4 1) (\<lambda>s5. Ok (s5, name)))))
       else Ok (s1, name0)))"

definition GetInputName :: "world \<Rightarrow> (lua_Number \<Rightarrow> string) \<Rightarrow> profilua \<Rightarrow> u8 \<Rightarrow> nat \<Rightarrow> (profilua \<times> string) res" where
  "GetInputName W fmt s ch cap =
     rbind (strcpy cap ''!ERROR!'') (\<lambda>name0.
       if ch = 0 then rbind (strcpy cap ''CONSOLE'') (\<lambda>n. Ok (s, n))
       else rbind (OpenLuaScript W s) (\<lambda>(s1, ok).
         if ok then rbind (ask_name W fmt True s1 ch cap name0) (\<lambda>(s2, n). Ok (CloseLuaScript s2, n))
         else Ok (s1, name0)))"

definition GetOutputName :: "world \<Rightarrow> (lua_Number \<Rightarrow> string) \<Rightarrow> profilua \<Rightarrow> u8 \<Rightarrow> nat \<Rightarrow> (profilua \<times> string) res" where
  "GetOutputName W fmt s ch cap =
     rbind (strcpy cap ''!ERROR!'') (\<lambda>name0.
       if ch = 0 then rbind (strcpy cap ''ERROR'') (\<lambda>n. Ok (s, n))
       else rbind (OpenLuaScript W s) (\<lambda>(s1, ok).
         if ok then rbind (ask_name W fmt False s1 ch cap name0) (\<lambda>(s2, n). Ok (CloseLuaScript s2, n))
         else Ok (s1, name0)))"

section \<open>Arguments and results\<close>

text \<open>One element of the argument table: \<open>strs\<close> tells whether the strings of the host are at hand
(\<open>CCalculateEx\<close>) or a zero is passed in their place (\<open>CSimStart\<close>, \<open>CSimStop\<close>).\<close>

definition push_input :: "world \<Rightarrow> bool \<Rightarrow> nat \<Rightarrow> profilua \<Rightarrow> profilua res" where
  "push_input W strs i s =
     rbind (aget (gInStrMarker s) i) (\<lambda>m.
     rbind (if m \<noteq> 0 then (if strs then rbind (aget (PString s) i) (\<lambda>x. Ok (VStr (cstr x))) else Ok (VNum (cast_num 0)))
            else rbind (aget (PInput s) i) (\<lambda>x. Ok (VNum x))) (\<lambda>v.
       on_L s (\<lambda>S. lua_settable W (api_push (api_push S (VNum (cast_num (int i)))) v) (- 3))))"

definition push_inputs :: "world \<Rightarrow> bool \<Rightarrow> profilua \<Rightarrow> profilua res" where
  "push_inputs W strs s =
     rbind (on_L s (\<lambda>S. lua_createtable W S (uint (gNumInputs s) - 1) 0)) (\<lambda>s1.
       foldM (push_input W strs) [1..<unat (gNumInputs s)] s1)"

definition set_output :: "profilua \<Rightarrow> nat \<Rightarrow> lua_Number \<Rightarrow> profilua res" where
  "set_output s i x = rbind (aset (POutput s) i x) (\<lambda>p. Ok (s\<lparr>POutput := p\<rparr>))"

definition set_string :: "profilua \<Rightarrow> nat \<Rightarrow> string \<Rightarrow> profilua res" where
  "set_string s i x = rbind (aset (PString s) i x) (\<lambda>p. Ok (s\<lparr>PString := p\<rparr>))"

definition read_number :: "profilua \<Rightarrow> nat \<Rightarrow> TValue \<Rightarrow> profilua res" where
  "read_number s i v =
     (case luaV_tonumber v of
        Some n \<Rightarrow> set_output s i n
      | None \<Rightarrow> rbind (set_output s i 0) (\<lambda>s1. rbind (pop_L s1 1) (\<lambda>s2. Ok (s2\<lparr>gERROR := 1\<rparr>))))"

definition fetch_result :: "world \<Rightarrow> nat \<Rightarrow> profilua \<Rightarrow> profilua res" where
  "fetch_result W i s = on_L s (\<lambda>S. lua_gettable W (api_push S (VNum (cast_num (int i)))) (- 2))"

definition calc_output :: "world \<Rightarrow> (lua_Number \<Rightarrow> string) \<Rightarrow> nat \<Rightarrow> profilua \<Rightarrow> profilua res" where
  "calc_output W fmt i s =
     rbind (fetch_result W i s) (\<lambda>s1. rbind (aget (gOutStrMarker s1) i) (\<lambda>m. rbind (ask_L s1 (\<lambda>S. api_top S 1)) (\<lambda>v.
     rbind (if m \<noteq> 0 then
              (case lua_tostring fmt v of
                 Some str \<Rightarrow> rbind (strcpy (PStrCap s1) str) (\<lambda>x. set_string s1 i x)
               | None \<Rightarrow> rbind (set_string s1 i '''') (\<lambda>s2. rbind (pop_L s2 1) (\<lambda>s3. Ok (s3\<lparr>gERROR := 1\<rparr>))))
            else read_number s1 i v) (\<lambda>s4. pop_L s4 1))))"

definition CSimStartFlaw_output :: "world \<Rightarrow> nat \<Rightarrow> profilua \<Rightarrow> profilua res" where
  "CSimStartFlaw_output W i s =
     rbind (fetch_result W i s) (\<lambda>s1. rbind (aget (gOutStrMarker s1) i) (\<lambda>m. rbind (ask_L s1 (\<lambda>S. api_top S 1)) (\<lambda>v.
     rbind (if m \<noteq> 0 then Ok s1 else read_number s1 i v) (\<lambda>s2. pop_L s2 1))))"

section \<open>Start of the simulation\<close>

definition push_user :: "world \<Rightarrow> nat \<Rightarrow> profilua \<Rightarrow> profilua res" where
  "push_user W i s =
     rbind (aget (PUser s) i) (\<lambda>x. on_L s (\<lambda>S. lua_settable W (api_push (api_push S (VNum (cast_num (int i + 1)))) (VNum x)) (- 3)))"

definition store_user :: "world \<Rightarrow> profilua \<Rightarrow> profilua res" where
  "store_user W s =
     rbind (on_L s (\<lambda>S. lua_createtable W S 101 0)) (\<lambda>s1.
     rbind (foldM (push_user W) [0..<101] s1) (\<lambda>s2.
       on_L s2 (\<lambda>S. lua_setfield W S LUA_GLOBALSINDEX ''gPUser'')))"

text \<open>The part of \<open>CSimStartFlaw\<close> up to the test \<open>lua_isfunction\<close>, with the answer of the test
(false also when the script could not be opened), and the part behind it.\<close>

definition start_script :: "world \<Rightarrow> (lua_Number \<Rightarrow> string) \<Rightarrow> profilua \<Rightarrow> (profilua \<times> bool) res" where
  "start_script W fmt s =
     rbind (set_output (s\<lparr>gERROR := 1\<rparr>) 0 PL_ERROR) (\<lambda>s1.
     rbind (aget (PInput s1) 0) (\<lambda>x.
     let s2 = (if luai_numlt LOGIC_HIGH_THRES x
               then s1\<lparr>pl_console := DebugConsoleTop (DebugConsoleOn (pl_console s1)), gConsole := 1, gConsoleTop := 0\<rparr>
               else s1);
         s3 = s2\<lparr>gInStrMarker := replicate 100 0, gOutStrMarker := replicate 100 0\<rparr>
     in
     rbind (foldM (\<lambda>i s. rbind (GetInputName W fmt s (of_nat i) 100) (\<lambda>(s', n). Ok s')) [0..<unat (gNumInputs s3)] s3) (\<lambda>s4.
     rbind (foldM (\<lambda>i s. rbind (GetOutputName W fmt s (of_nat i) 100) (\<lambda>(s', n). Ok s')) [0..<unat (gNumOutputs s4)] s4) (\<lambda>s5.
     rbind (OpenLuaScript W s5) (\<lambda>(s6, ok).
       if ok then
         rbind (store_user W s6) (\<lambda>s7.
         rbind (push_global W s7 ''gSimStart'') (\<lambda>s8.
         rbind (type_at_top s8) (\<lambda>t. Ok (s8, t = 6))))
       else Ok (s6, False))))))"

definition call_start :: "world \<Rightarrow> profilua \<Rightarrow> profilua res" where
  "call_start W s8 =
     rbind (push_inputs W False s8) (\<lambda>s9.
     rbind (on_L s9 (\<lambda>S. lua_call W S 1 1)) (\<lambda>s10.
     rbind (type_at_top s10) (\<lambda>t2.
     rbind (if t2 = 5 then
              rbind (foldM (CSimStartFlaw_output W) [1..<unat (gNumOutputs s10)] s10) (\<lambda>s11. pop_L s11 1)
            else Ok (s10\<lparr>gERROR := 1\<rparr>)) (\<lambda>s12.
     rbind (set_output s12 0 PL_OK) (\<lambda>s13. Ok (s13\<lparr>gERROR := 0\<rparr>))))))"

definition CSimStartFlaw :: "world \<Rightarrow> (lua_Number \<Rightarrow> string) \<Rightarrow> profilua \<Rightarrow> profilua res" where
  "CSimStartFlaw W fmt s = rbind (start_script W fmt s) (\<lambda>(s8, found). if found then call_start W s8 else Ok s8)"

definition CSimStart :: "profilua \<Rightarrow> profilua" where
  "CSimStart s = s\<lparr>gCSimStartOverride := 1\<rparr>"

section \<open>A step of the simulation\<close>

definition calc_console :: "profilua \<Rightarrow> profilua res" where
  "calc_console s =
     rbind (aget (PInput s) 0) (\<lambda>x.
       let s1 = (if luai_numlt LOGIC_HIGH_THRES x \<and> gConsole s = 0
                 then s\<lparr>pl_console := DebugConsoleTop (DebugConsoleOn (pl_console s)), gConsole := 1, gConsoleTop := 0\<rparr>
                 else s)
       in Ok (if gConsole s1 = 1 \<and> gConsoleTop s1 = 0
              then s1\<lparr>pl_console := DebugConsoleTop (pl_console s1), gConsoleTop := gConsoleTop s1 + 1\<rparr>
              else s1))"

text \<open>The part of \<open>CCalculateEx\<close> from the test of \<open>gERROR\<close> on.\<close>

definition calculate :: "world \<Rightarrow> (lua_Number \<Rightarrow> string) \<Rightarrow> profilua \<Rightarrow> profilua res" where
  "calculate W fmt s =
     (if gERROR s \<noteq> 0 then set_output s 0 PL_ERROR
      else
        rbind (push_global W s ''gCalculate'') (\<lambda>s1.
        rbind (type_at_top s1) (\<lambda>t.
          if t = 6 then
            rbind (push_inputs W True s1) (\<lambda>s2.
            rbind (on_L s2 (\<lambda>S. lua_call W S 1 1)) (\<lambda>s3.
            rbind (type_at_top s3) (\<lambda>t2.
              if t2 = 5 then
                rbind (foldM (calc_output W fmt) [1..<unat (gNumOutputs s3)] s3) (\<lambda>s4. pop_L s4 1)
              else Ok (s3\<lparr>gERROR := 1\<rparr>))))
          else Ok (s1\<lparr>gERROR := 1\<rparr>))))"

definition CCalculateEx :: "world \<Rightarrow> (lua_Number \<Rightarrow> string) \<Rightarrow> profilua \<Rightarrow> profilua res" where
  "CCalculateEx W fmt s =
     rbind (if gCSimStartOverride s \<noteq> 0
            then rbind (CSimStartFlaw W fmt s) (\<lambda>s'. Ok (s'\<lparr>gCSimStartOverride := 0\<rparr>)) else Ok s) (\<lambda>s1.
     rbind (calc_console s1) (\<lambda>s2. calculate W fmt s2))"

section \<open>End of the simulation\<close>

definition set_user :: "profilua \<Rightarrow> nat \<Rightarrow> lua_Number \<Rightarrow> profilua res" where
  "set_user s i x = rbind (aset (PUser s) i x) (\<lambda>p. Ok (s\<lparr>PUser := p\<rparr>))"

definition load_user :: "world \<Rightarrow> nat \<Rightarrow> profilua \<Rightarrow> profilua res" where
  "load_user W i s =
     rbind (on_L s (\<lambda>S. lua_gettable W (api_push S (VNum (cast_num (int i + 1)))) (- 2))) (\<lambda>s1.
     rbind (ask_L s1 (\<lambda>S. api_top S 1)) (\<lambda>v.
     rbind (case luaV_tonumber v of
              Some n \<Rightarrow> set_user s1 i n
            | None \<Rightarrow> rbind (set_user s1 i 0) (\<lambda>s2. pop_L s2 1)) (\<lambda>s3. pop_L s3 1)))"

definition CSimStop :: "world \<Rightarrow> profilua \<Rightarrow> profilua res" where
  "CSimStop W s =
     rbind (if gERROR s = 0 then
              rbind (push_global W s ''gSimStop'') (\<lambda>s1.
              rbind (type_at_top s1) (\<lambda>t.
              rbind (if t = 6 then
                       rbind (push_inputs W False s1) (\<lambda>s2. on_L s2 (\<lambda>S. lua_call W S 1 0))
                     else Ok (s1\<lparr>gERROR := 1\<rparr>)) (\<lambda>s3.
              rbind (push_global W s3 ''gPUser'') (\<lambda>s4.
              rbind (type_at_top s4) (\<lambda>t2.
                if t2 = 5 then rbind (foldM (load_user W) [0..<100] s4) (\<lambda>s5. pop_L s5 1) else Ok s4)))))
            else Ok s) (\<lambda>s6.
     let s7 = CloseLuaScript s6 in
     if gConsole s7 = 1
     then rbind (DebugConsoleOff (pl_console s7)) (\<lambda>c. Ok (s7\<lparr>pl_console := c, gConsole := 0, gConsoleTop := 0\<rparr>))
     else Ok s7)"

end
