(* ===== verification/ProfiLuaProps.thy ===== *)
theory ProfiLuaProps
  imports ProfiLua
begin

text \<open>
  Properties of profilua.c: the argument and result tables of a call, a step of the simulation
  against a specification of the script, the calls of the host as a transition system with the
  invariant of the debug console, and the behaviour on errors.
\<close>

section \<open>Argument tables\<close>

definition in_value :: "bool \<Rightarrow> profilua \<Rightarrow> nat \<Rightarrow> TValue" where
  "in_value strs s i =
     (if gInStrMarker s ! i = 0 then VNum (PInput s ! i)
      else if strs then VStr (cstr (PString s ! i)) else VNum (cast_num 0))"

text \<open>The buffers and markers reach up to the numbers of pins.\<close>

definition inputs_in_range :: "profilua \<Rightarrow> bool" where
  "inputs_in_range s \<longleftrightarrow> 1 \<le> unat (gNumInputs s) \<and> unat (gNumInputs s) \<le> length (gInStrMarker s) \<and>
     unat (gNumInputs s) \<le> length (PInput s) \<and> unat (gNumInputs s) \<le> length (PString s)"

lemma push_inputs_loop:
  assumes s: "pL s = Some S" "L_stack S = st @ [VTable p]" "plain_table S p A" "t_sizearray A = n" "n < 2 ^ 30"
    and ran: "k \<le> n" "n < length (gInStrMarker s)" "n < length (PInput s)" "n < length (PString s)"
  shows "\<exists>A'. foldM (push_input W strs) [1..<Suc k] s = Ok (s\<lparr>pL := Some (put_table S p A')\<rparr>) \<and>
    plain_table (put_table S p A') p A' \<and> t_sizearray A' = n \<and>
    (\<forall>i. 1 \<le> i \<longrightarrow> i \<le> k \<longrightarrow> int_val A' i = in_value strs s i)"
  using ran(1)
proof (induction k)
  case 0
  have "put_table S p A = S" using s(3) by (simp add: put_table_def plain_table_def fun_upd_idem)
  then show ?case using s by (intro exI [of _ A]) simp
next
  case (Suc k)
  then obtain A1 where A1: "foldM (push_input W strs) [1..<Suc k] s = Ok (s\<lparr>pL := Some (put_table S p A1)\<rparr>)"
    "plain_table (put_table S p A1) p A1" "t_sizearray A1 = n" "\<forall>i. 1 \<le> i \<longrightarrow> i \<le> k \<longrightarrow> int_val A1 i = in_value strs s i" by auto
  let ?i = "Suc k" and ?S1 = "put_table S p A1"
  let ?key = "VNum (cast_num (int ?i))" and ?v = "in_value strs s ?i"
  have ki: "?i < 2 ^ 30" using Suc.prems s(5) by simp
  have vk: "valid_key ?key" by (rule valid_int_key [OF ki])
  have "table_inv A1" using A1(2) by (simp add: plain_table_def)
  then obtain A2 where A2: "table_put A1 ?key ?v = Ok A2" "t_sizearray A2 = n"
    using table_put_array [of A1 ?key ?v] vk int_key_array [of ?i n] A1(3) Suc.prems s(5) by auto
  note tp = table_put_plain [OF A1(2) vk A2(1)]
  have set: "lua_settable W (api_push (api_push ?S1 ?key) ?v) (- 3) = Ok (put_table S p A2)"
    using settable_push [OF A1(2) vk, of st W ?v] s(2) A2(1) by simp
  have "push_input W strs ?i (s\<lparr>pL := Some ?S1\<rparr>) = Ok (s\<lparr>pL := Some (put_table S p A2)\<rparr>)"
    using set Suc.prems ran(2-4)
    by (cases "gInStrMarker s ! ?i = 0"; cases strs; simp add: push_input_def on_L_def in_value_def del: of_nat_Suc)
  then have "foldM (push_input W strs) [1..<Suc ?i] s = Ok (s\<lparr>pL := Some (put_table S p A2)\<rparr>)"
    using A1(1) by simp
  moreover have "int_val A2 i = in_value strs s i" if "1 \<le> i" "i \<le> ?i" for i
    using tp(3) [of "VNum (cast_num (int i))"] rawequal_int_keys [of ?i i] ki that A1(4) by (cases "i = ?i") simp_all
  moreover have "plain_table (put_table S p A2) p A2" using tp(1,2) by simp
  ultimately show ?case using A2(2) by (intro exI [of _ A2]) blast
qed

text \<open>The arguments of a script function: a new table with the inputs under the numbers of their
pins, pushed on the stack; nothing else changes.\<close>

lemma push_inputs_ok:
  assumes "pL s = Some S" and "inputs_in_range s" and "L_heap S (w_newtable W S) = None"
  shows "\<exists>A p. push_inputs W strs s = Ok (s\<lparr>pL := Some (api_push (put_table S p A) (VTable p))\<rparr>) \<and>
    L_heap S p = None \<and> table_inv A \<and> t_metatable A = 0 \<and>
    (\<forall>i. 1 \<le> i \<longrightarrow> i < unat (gNumInputs s) \<longrightarrow> int_val A i = in_value strs s i)"
proof -
  let ?n = "unat (gNumInputs s) - 1" and ?p = "w_newtable W S"
  have n: "unat (gNumInputs s) < 256" by (rule unat_u8)
  have nm: "?n \<le> MAXASIZE" using n by (simp add: MAXASIZE_def MAXBITS_def)
  have n1: "uint (gNumInputs s) - 1 = int ?n" using assms(2) unfolding inputs_in_range_def uint_nat by linarith
  obtain h where h: "luaH_new ?n 0 = Ok h" "table_inv h" "t_metatable h = 0" "t_sizearray h = ?n"
    using new_array_table [OF nm] by (elim exE conjE) (rule that)
  let ?S1 = "api_push (put_table S ?p h) (VTable ?p)"
  have c: "on_L s (\<lambda>S. lua_createtable W S (uint (gNumInputs s) - 1) 0) = Ok (s\<lparr>pL := Some ?S1\<rparr>)"
    using assms(1) h(1) n1 by (simp add: on_L_def lua_createtable_def Let_def)
  have pl: "plain_table ?S1 ?p h" using h by simp
  have st: "L_stack ?S1 = L_stack S @ [VTable ?p]" by simp
  let ?s1 = "s\<lparr>pL := Some ?S1\<rparr>"
  have ran: "?n < 2 ^ 30" "?n < length (gInStrMarker ?s1)" "?n < length (PInput ?s1)" "?n < length (PString ?s1)"
    using n assms(2) by (auto simp: inputs_in_range_def)
  have up: "?s1\<lparr>pL := Some X\<rparr> = s\<lparr>pL := Some X\<rparr>" "in_value strs ?s1 = in_value strs s" for X
    by (simp_all add: in_value_def fun_eq_iff)
  have s1: "pL ?s1 = Some ?S1" by simp
  obtain A where A: "foldM (push_input W strs) [1..<Suc ?n] ?s1 = Ok (s\<lparr>pL := Some (put_table ?S1 ?p A)\<rparr>)"
    "plain_table (put_table ?S1 ?p A) ?p A" "\<forall>i. 1 \<le> i \<longrightarrow> i \<le> ?n \<longrightarrow> int_val A i = in_value strs s i"
    using push_inputs_loop [OF s1 st pl h(4) ran(1) order.refl ran(2-4), of W strs]
    unfolding up by (elim exE conjE) (rule that)
  have "put_table ?S1 ?p A = api_push (put_table S ?p A) (VTable ?p)" by (simp add: put_table_def api_push_def)
  moreover have "Suc ?n = unat (gNumInputs s)" using assms(2) by (simp add: inputs_in_range_def)
  ultimately have r: "push_inputs W strs s = Ok (s\<lparr>pL := Some (api_push (put_table S ?p A) (VTable ?p))\<rparr>)"
    using c A(1) unfolding push_inputs_def by (simp del: upt_Suc)
  have "\<forall>i. 1 \<le> i \<longrightarrow> i < unat (gNumInputs s) \<longrightarrow> int_val A i = in_value strs s i"
    using A(3) by auto
  moreover have "table_inv A" "t_metatable A = 0" using A(2) by simp_all
  ultimately show ?thesis using r assms(3) by blast
qed

section \<open>Results\<close>

text \<open>What a value does to the buffers of the host when it is delivered as output \<open>i\<close>.\<close>

definition out_value_ok :: "profilua \<Rightarrow> nat \<Rightarrow> TValue \<Rightarrow> bool" where
  "out_value_ok s i v \<longleftrightarrow> (if gOutStrMarker s ! i = 0 then \<exists>n. v = VNum n else \<exists>str. v = VStr str \<and> length (cstr str) < PStrCap s)"

definition deliver :: "TValue \<Rightarrow> nat \<Rightarrow> profilua \<Rightarrow> profilua" where
  "deliver v i s =
     (case v of VNum n \<Rightarrow> s\<lparr>POutput := (POutput s)[i := n]\<rparr> | VStr str \<Rightarrow> s\<lparr>PString := (PString s)[i := cstr str]\<rparr> | _ \<Rightarrow> s)"

definition outputs_in_range :: "profilua \<Rightarrow> bool" where
  "outputs_in_range s \<longleftrightarrow> unat (gNumOutputs s) \<le> length (gOutStrMarker s) \<and>
     unat (gNumOutputs s) \<le> length (POutput s) \<and> unat (gNumOutputs s) \<le> length (PString s)"

lemma deliver_fields [simp]:
  "pL (deliver v i s) = pL s" "gOutStrMarker (deliver v i s) = gOutStrMarker s" "gNumOutputs (deliver v i s) = gNumOutputs s"
  "PStrCap (deliver v i s) = PStrCap s" "length (POutput (deliver v i s)) = length (POutput s)"
  "length (PString (deliver v i s)) = length (PString s)" "gERROR (deliver v i s) = gERROR s"
  by (simp_all add: deliver_def split: TValue.split)

lemma fetch_result_ok:
  assumes "pL s = Some S" "L_stack S = st @ [VTable r]" "plain_table S r R" "i < 2 ^ 30"
  shows "fetch_result W i s = Ok (s\<lparr>pL := Some (api_push S (int_val R i))\<rparr>)"
proof -
  have "lua_gettable W (api_push S (VNum (cast_num (int i)))) (- 2) = Ok (api_push S (int_val R i))"
    by (rule gettable_push [OF assms(3) valid_int_key [OF assms(4)]])
      (use index_below [of "api_push S (VNum (cast_num (int i)))" st "VTable r"] assms(2) in simp)
  then show ?thesis using assms(1) by (simp add: fetch_result_def on_L_def)
qed

lemma calc_output_ok:
  assumes s: "pL s = Some S" "L_stack S = st @ [VTable r]" "plain_table S r R" and i: "i < unat (gNumOutputs s)"
    and ran: "outputs_in_range s" and v: "out_value_ok s i (int_val R i)"
  shows "calc_output W fmt i s = Ok (deliver (int_val R i) i s)"
proof -
  have "i < 2 ^ 30" using i unat_u8 [of "gNumOutputs s"] by simp
  note f = fetch_result_ok [OF s this, of W]
  have t: "api_top (api_push S w) (Suc 0) = Ok w" for w
    by (rule api_top_1 [of _ "L_stack S"]) simp
  have b: "i < length (gOutStrMarker s)" "i < length (POutput s)" "i < length (PString s)"
    using i ran by (auto simp: outputs_in_range_def)
  show ?thesis
  proof (cases "gOutStrMarker s ! i = 0")
    case True
    then obtain n where n: "int_val R i = VNum n" using v by (auto simp: out_value_ok_def)
    then show ?thesis using True f b t s(1)
      by (simp add: calc_output_def ask_L_def read_number_def luaV_tonumber_def set_output_def pop_L_def on_L_def deliver_def)
  next
    case False
    then obtain str where n: "int_val R i = VStr str" "length (cstr str) < PStrCap s" using v by (auto simp: out_value_ok_def)
    then show ?thesis using False f b t s(1)
      by (simp add: calc_output_def ask_L_def lua_tostring_def strcpy_def set_string_def pop_L_def on_L_def deliver_def)
  qed
qed

lemma out_value_ok_deliver [simp]: "out_value_ok (deliver v j s) i w = out_value_ok s i w"
  by (simp add: out_value_ok_def)

lemma calc_outputs_loop:
  assumes s: "pL s = Some S" "L_stack S = st @ [VTable r]" "plain_table S r R"
    and ran: "outputs_in_range s" and v: "\<And>i. 1 \<le> i \<Longrightarrow> i < unat (gNumOutputs s) \<Longrightarrow> out_value_ok s i (int_val R i)"
    and k: "k \<le> unat (gNumOutputs s)"
  shows "foldM (calc_output W fmt) [1..<k] s = Ok (fold (\<lambda>i. deliver (int_val R i) i) [1..<k] s) \<and>
    pL (fold (\<lambda>i. deliver (int_val R i) i) [1..<k] s) = Some S"
  using k
proof (induction k)
  case (Suc k)
  let ?s = "fold (\<lambda>i. deliver (int_val R i) i) [1..<k] s"
  have f: "gNumOutputs ?s = gNumOutputs s" "out_value_ok ?s i w = out_value_ok s i w" "outputs_in_range ?s = outputs_in_range s" for i w
    by (induction k) (simp_all add: outputs_in_range_def)
  show ?case
  proof (cases "1 \<le> k")
    case True
    have "calc_output W fmt k ?s = Ok (deliver (int_val R k) k ?s)"
      by (rule calc_output_ok [of _ S st r]) (use Suc s ran v True f in auto)
    then show ?thesis using Suc True by simp
  qed (use s in simp)
qed (use s in simp)

section \<open>A step of the simulation against its specification\<close>

text \<open>The specification of a script function: a map from the vector of inputs to the vector of
outputs. \<open>script_computes W f F n m\<close>: called with a table that holds the inputs \<open>1..<n\<close>, the
function value \<open>f\<close> returns a table with the outputs \<open>1..<m\<close> and leaves the caller's frame alone.\<close>

definition script_computes :: "world \<Rightarrow> TValue \<Rightarrow> ((nat \<Rightarrow> TValue) \<Rightarrow> nat \<Rightarrow> TValue) \<Rightarrow> nat \<Rightarrow> nat \<Rightarrow> bool" where
  "script_computes W f F n m \<longleftrightarrow>
     (\<forall>S p A. plain_table S p A \<longrightarrow>
        (\<exists>S' r R rest. w_call W S f [VTable p] = Ok (S', VTable r # rest) \<and> L_stack S' = L_stack S \<and> plain_table S' r R \<and>
          (\<forall>i. 1 \<le> i \<longrightarrow> i < m \<longrightarrow> int_val R i = F (\<lambda>j. if 1 \<le> j \<and> j < n then int_val A j else VNil) i)))"

definition input_vector :: "profilua \<Rightarrow> nat \<Rightarrow> TValue" where
  "input_vector s i = (if 1 \<le> i \<and> i < unat (gNumInputs s) then in_value True s i else VNil)"

text \<open>The host's buffers after a step that gives the output vector \<open>out\<close>: numbers go to \<open>POutput\<close>,
strings to the buffers of the pins with a string marker, all other cells stay.\<close>

definition written :: "profilua \<Rightarrow> (nat \<Rightarrow> TValue) \<Rightarrow> profilua \<Rightarrow> bool" where
  "written s out s' \<longleftrightarrow> length (POutput s') = length (POutput s) \<and> length (PString s') = length (PString s) \<and>
     (\<forall>i<length (POutput s). POutput s' ! i =
        (if 1 \<le> i \<and> i < unat (gNumOutputs s) then (case out i of VNum n \<Rightarrow> n | _ \<Rightarrow> POutput s ! i) else POutput s ! i)) \<and>
     (\<forall>i<length (PString s). PString s' ! i =
        (if 1 \<le> i \<and> i < unat (gNumOutputs s) then (case out i of VStr x \<Rightarrow> cstr x | _ \<Rightarrow> PString s ! i) else PString s ! i)) \<and>
     s' = s\<lparr>pL := pL s', POutput := POutput s', PString := PString s'\<rparr>"

lemma deliver_nth:
  "j < length (POutput s) \<Longrightarrow> POutput (deliver v i s) ! j = (if j = i then (case v of VNum n \<Rightarrow> n | _ \<Rightarrow> POutput s ! j) else POutput s ! j)"
  "j < length (PString s) \<Longrightarrow> PString (deliver v i s) ! j = (if j = i then (case v of VStr x \<Rightarrow> cstr x | _ \<Rightarrow> PString s ! j) else PString s ! j)"
  by (simp_all add: deliver_def split: TValue.split)

lemma deliver_rest: "deliver v i s = s\<lparr>POutput := POutput (deliver v i s), PString := PString (deliver v i s)\<rparr>"
  by (simp add: deliver_def split: TValue.split)

lemma fold_deliver:
  fixes s :: profilua and out :: "nat \<Rightarrow> TValue"
  defines "T k \<equiv> fold (\<lambda>i. deliver (out i) i) [1..<k] s"
  shows "length (POutput (T k)) = length (POutput s) \<and> length (PString (T k)) = length (PString s) \<and>
    (\<forall>j<length (POutput s). POutput (T k) ! j = (if 1 \<le> j \<and> j < k then (case out j of VNum n \<Rightarrow> n | _ \<Rightarrow> POutput s ! j) else POutput s ! j)) \<and>
    (\<forall>j<length (PString s). PString (T k) ! j = (if 1 \<le> j \<and> j < k then (case out j of VStr x \<Rightarrow> cstr x | _ \<Rightarrow> PString s ! j) else PString s ! j)) \<and>
    T k = s\<lparr>POutput := POutput (T k), PString := PString (T k)\<rparr>"
proof (induction k)
  case (Suc k)
  have S: "T (Suc k) = (if 1 \<le> k then deliver (out k) k (T k) else T k)" by (simp add: T_def)
  show ?case
  proof (cases "1 \<le> k")
    case True
    obtain po ps where "T k = s\<lparr>POutput := po, PString := ps\<rparr>" using Suc.IH by blast
    then have "deliver (out k) k (T k) = s\<lparr>POutput := POutput (deliver (out k) k (T k)), PString := PString (deliver (out k) k (T k))\<rparr>"
      by (simp add: deliver_def split: TValue.split)
    then show ?thesis using Suc.IH True unfolding S by (auto simp: deliver_nth cong: TValue.case_cong)
  next
    case False
    then have "T (Suc k) = T 0" by (simp add: T_def)
    moreover have "\<not> (1 \<le> j \<and> j < Suc k)" for j using False by auto
    moreover have "T 0 = s" by (simp add: T_def)
    ultimately show ?thesis by (simp only: if_False simp_thms refl) simp
  qed
qed (simp add: T_def)

lemma set_pL_eq:
  fixes T :: profilua
  shows "T = s\<lparr>pL := X, POutput := po, PString := ps\<rparr> \<Longrightarrow> T\<lparr>pL := Y\<rparr> = s\<lparr>pL := Y, POutput := po, PString := ps\<rparr>"
  by simp

lemma written_fold:
  "written s out ((fold (\<lambda>i. deliver (out i) i) [1..<unat (gNumOutputs s)] (s\<lparr>pL := X\<rparr>))\<lparr>pL := Y\<rparr>)"
proof -
  let ?T = "fold (\<lambda>i. deliver (out i) i) [1..<unat (gNumOutputs s)] (s\<lparr>pL := X\<rparr>)"
  note f = fold_deliver [of out "unat (gNumOutputs s)" "s\<lparr>pL := X\<rparr>"]
  then have "?T = s\<lparr>pL := X, POutput := POutput ?T, PString := PString ?T\<rparr>" by simp
  from set_pL_eq [OF this, of Y] show ?thesis using f by (simp add: written_def cong: TValue.case_cong)
qed

lemma written_cong:
  assumes "\<And>i. 1 \<le> i \<Longrightarrow> i < unat (gNumOutputs s) \<Longrightarrow> out i = out' i"
  shows "written s out s' = written s out' s'"
  unfolding written_def using assms by (simp cong: if_cong)

lemma lua_call_one:
  assumes "L_stack S = st @ [f, a]" and "w_call W (S\<lparr>L_stack := st\<rparr>) f [a] = Ok (S', v # rest)" and "L_stack S' = st"
  shows "lua_call W S 1 1 = Ok (S'\<lparr>L_stack := st @ [v]\<rparr>)"
  using assms by (simp add: lua_call_def luaD_call_def adjust_results_def Let_def nth_append)

lemma push_global_ok:
  assumes "pL s = Some S" "L_gt S = VTable g" "plain_table S g G"
  shows "push_global W s name = Ok (s\<lparr>pL := Some (api_push S (table_val G (VStr name)))\<rparr>)"
  using assms gettable_push [OF assms(3) valid_str, of name LUA_GLOBALSINDEX W]
  by (simp add: push_global_def on_L_def)

lemma type_at_top_push: "pL s = Some (api_push S v) \<Longrightarrow> type_at_top s = Ok (ttype v)"
  by (simp add: type_at_top_def ask_L_def lua_type_def index2adr_def api_push_def)

lemma calculate_ok:
  assumes s: "pL s = Some S" "gERROR s = 0" "inputs_in_range s" "outputs_in_range s"
    and g: "L_gt S = VTable g" "plain_table S g G" "table_val G (VStr ''gCalculate'') = VFun f"
    and fresh: "\<And>st. L_heap S (w_newtable W (S\<lparr>L_stack := st\<rparr>)) = None"
    and F: "script_computes W (VFun f) F (unat (gNumInputs s)) (unat (gNumOutputs s))"
    and ok: "\<And>i. 1 \<le> i \<Longrightarrow> i < unat (gNumOutputs s) \<Longrightarrow> out_value_ok s i (F (input_vector s) i)"
  shows "\<exists>s' S'. calculate W fmt s = Ok s' \<and> pL s' = Some S' \<and> L_stack S' = L_stack S \<and> written s (F (input_vector s)) s'"
proof -
  let ?f = "VFun f" and ?S1 = "api_push S (VFun f)"
  let ?s1 = "s\<lparr>pL := Some ?S1\<rparr>"
  have p1: "push_global W s ''gCalculate'' = Ok ?s1" using push_global_ok [OF s(1) g(1,2)] g(3) by simp
  have t1: "type_at_top ?s1 = Ok 6" using type_at_top_push [of ?s1 S ?f] by simp
  have fr: "L_heap ?S1 (w_newtable W ?S1) = None" using fresh by (simp add: api_push_def)
  have in1: "inputs_in_range ?s1" "in_value True ?s1 = in_value True s"
    using s(3) by (simp_all add: inputs_in_range_def in_value_def fun_eq_iff)
  have s1: "pL ?s1 = Some ?S1" by simp
  obtain A p where A: "push_inputs W True ?s1 = Ok (?s1\<lparr>pL := Some (api_push (put_table ?S1 p A) (VTable p))\<rparr>)"
    "table_inv A" "t_metatable A = 0" "\<forall>i. 1 \<le> i \<longrightarrow> i < unat (gNumInputs s) \<longrightarrow> int_val A i = in_value True s i"
    using push_inputs_ok [OF s1 in1(1) fr, of True] unfolding in1(2) by auto
  let ?S2 = "api_push (put_table ?S1 p A) (VTable p)"
  let ?B = "?S2\<lparr>L_stack := L_stack S\<rparr>"
  have "plain_table ?B p A" using A(2,3) by (simp add: plain_table_def)
  then obtain S' r R rest where R: "w_call W ?B ?f [VTable p] = Ok (S', VTable r # rest)" "plain_table S' r R" "L_stack S' = L_stack S"
    "\<forall>i. 1 \<le> i \<longrightarrow> i < unat (gNumOutputs s) \<longrightarrow> int_val R i = F (\<lambda>j. if 1 \<le> j \<and> j < unat (gNumInputs s) then int_val A j else VNil) i"
    using F unfolding script_computes_def by force
  have "(\<lambda>j. if 1 \<le> j \<and> j < unat (gNumInputs s) then int_val A j else VNil) = input_vector s"
    using A(4) by (auto simp: input_vector_def fun_eq_iff)
  then have out: "int_val R i = F (input_vector s) i" if "1 \<le> i" "i < unat (gNumOutputs s)" for i
    using R(4) that by simp
  let ?S3 = "S'\<lparr>L_stack := L_stack S @ [VTable r]\<rparr>"
  have st: "L_stack ?S2 = L_stack S @ [?f, VTable p]" by simp
  have c: "lua_call W ?S2 1 1 = Ok ?S3" by (rule lua_call_one [OF st R(1, 3)])
  let ?s3 = "s\<lparr>pL := Some ?S3\<rparr>"
  have s3: "pL ?s3 = Some ?S3" "L_stack ?S3 = L_stack S @ [VTable r]" "plain_table ?S3 r R" "outputs_in_range ?s3"
    using R(2) s(4) by (simp_all add: plain_table_def outputs_in_range_def)
  have ok3: "1 \<le> i \<Longrightarrow> i < unat (gNumOutputs ?s3) \<Longrightarrow> out_value_ok ?s3 i (int_val R i)" for i
    using ok [of i] out [of i] by (simp add: out_value_ok_def)
  have t3: "type_at_top ?s3 = Ok 5"
    using type_at_top_push [of ?s3 "S'\<lparr>L_stack := L_stack S\<rparr>" "VTable r"] by (simp add: api_push_def)
  let ?s4 = "fold (\<lambda>i. deliver (int_val R i) i) [1..<unat (gNumOutputs ?s3)] ?s3"
  note loop = calc_outputs_loop [OF s3 ok3 order.refl, of W fmt]
  let ?s5 = "?s4\<lparr>pL := Some (S'\<lparr>L_stack := L_stack S\<rparr>)\<rparr>"
  have p5: "pop_L ?s4 1 = Ok ?s5"
    using loop by (simp add: pop_L_def on_L_def api_pop_def lua_pop_append)
  have "calculate W fmt s = Ok ?s5"
    using s(2) p1 t1 A(1) c t3 loop p5 by (simp add: calculate_def on_L_def del: upt_Suc One_nat_def)
  moreover have "written s (F (input_vector s)) ?s5"
    using written_fold [of s "int_val R"] written_cong [of s "int_val R" "F (input_vector s)" ?s5] out by simp
  ultimately show ?thesis by (intro exI [of _ ?s5]) simp
qed

text \<open>C1: one step of the simulation implements its specification. If \<open>gCalculate\<close> is a function
that computes the output vector \<open>F inputs\<close>, the step hands it the current inputs of all pins
(numbers, or the host's strings for pins with a string marker), writes every output to its
buffer, leaves the other cells and all other variables alone, does not raise the error flag and
leaves the Lua stack as it was.\<close>

theorem calculate_implements:
  assumes "pL s = Some S" and "gERROR s = 0" and "inputs_in_range s" and "outputs_in_range s"
    and "L_gt S = VTable g" and "plain_table S g G" and "table_val G (VStr ''gCalculate'') = VFun f"
    and "\<And>st. L_heap S (w_newtable W (S\<lparr>L_stack := st\<rparr>)) = None"
    and "script_computes W (VFun f) F (unat (gNumInputs s)) (unat (gNumOutputs s))"
    and "\<And>i. 1 \<le> i \<Longrightarrow> i < unat (gNumOutputs s) \<Longrightarrow> out_value_ok s i (F (input_vector s) i)"
  shows "\<exists>s' S'. calculate W fmt s = Ok s' \<and> pL s' = Some S' \<and> L_stack S' = L_stack S \<and> written s (F (input_vector s)) s'"
  by (rule calculate_ok [OF assms])

text \<open>A world whose scripts return their first argument, and a host with three pins.\<close>

definition echo_world :: world where
  "echo_world = \<lparr>w_call = (\<lambda>S f args. Ok (S, args)), w_pcall = (\<lambda>S f args. (S, args, 0)),
     w_loadfile = (\<lambda>S name. (S, VFun 1, 0)), w_newstate = None, w_newtable = (\<lambda>S. 4096), w_newfun = (\<lambda>S f ups. 8192)\<rparr>"

definition demo_console :: console where
  "demo_console = \<lparr>con_fout = False, con_fin = False, con_ferr = False, con_events = []\<rparr>"

definition demo_host :: "lua_State option \<Rightarrow> profilua" where
  "demo_host S = \<lparr>pL = S, gNumInputs = 3, gNumOutputs = 3, gERROR = 0, gFileNum = 1, gConsole = 0, gConsoleTop = 0,
     gInStrMarker = replicate 100 0, gOutStrMarker = replicate 100 0, gCSimStartOverride = 0, pl_console = demo_console,
     PInput = replicate 100 LOGIC_HIGH, POutput = replicate 100 0, PUser = replicate 101 0, PString = replicate 100 [], PStrCap = 255\<rparr>"

lemma echo_computes: "script_computes echo_world f (\<lambda>v. v) n n"
  unfolding script_computes_def
proof (intro allI impI)
  fix S p A
  assume "plain_table S p A"
  then show "\<exists>S' r R rest. w_call echo_world S f [VTable p] = Ok (S', VTable r # rest) \<and> L_stack S' = L_stack S \<and> plain_table S' r R \<and>
      (\<forall>i. 1 \<le> i \<longrightarrow> i < n \<longrightarrow> int_val R i = (if 1 \<le> i \<and> i < n then int_val A i else VNil))"
    by (intro exI [of _ S] exI [of _ p] exI [of _ A] exI [of _ "[]"]) (simp add: echo_world_def)
qed

lemma put_new_table_str:
  obtains h h' where "luaH_new 0 4 = Ok h" "table_put h (VStr k) v = Ok h'" "table_inv h'" "t_metatable h' = 0" "table_val h' (VStr k) = v"
proof -
  obtain h where h: "luaH_new 0 4 = Ok h" "table_inv h" "\<not> t_isdummy h" "t_node h = replicate (2 ^ log2_size 4) empty_node" "t_metatable h = 0"
    using new_table_ex [of 0 4] by auto
  have "\<exists>i<length (t_node h). i_key (t_node h ! i) = VNil"
    unfolding h(4) by (intro exI [of _ 0]) (simp add: empty_node_def)
  then obtain t' s where "luaH_set h (VStr k) = Ok (t', s)"
    using set_free [of h "VStr k" "Suc 0"] h by (auto simp: luaH_set_def numeral_2_eq_2 proper_def no_nan_def)
  then obtain h' where h': "table_put h (VStr k) v = Ok h'" by (simp add: table_put_def)
  have "table_inv h'" "t_metatable h' = 0" "table_val h' (VStr k) = v"
    using table_put_ok(1,2) [OF h(2) valid_str h'] tbl.fetch_same [OF h(2) valid_str h'] h(5) by simp_all
  then show thesis using that h(1) h' by blast
qed

theorem calculate_implements_witness:
  "\<exists>h S s'. table_inv h \<and> L_heap S 64 = Some h \<and> calculate echo_world (\<lambda>n. []) (demo_host (Some S)) = Ok s' \<and>
     POutput s' ! 2 = LOGIC_HIGH \<and> POutput s' ! 3 = 0 \<and> gERROR s' = 0"
proof -
  obtain h where h: "table_inv h" "t_metatable h = 0" "table_val h (VStr ''gCalculate'') = VFun 7"
    by (rule put_new_table_str)
  let ?S = "start_state h" and ?s = "demo_host (Some (start_state h))"
  have a: "pL ?s = Some ?S" "gERROR ?s = 0" "inputs_in_range ?s" "outputs_in_range ?s"
    by (simp_all add: demo_host_def inputs_in_range_def outputs_in_range_def)
  have g: "L_gt ?S = VTable 64" "plain_table ?S 64 h" using h by (simp_all add: start_state_def plain_table_def)
  have fr: "L_heap ?S (w_newtable echo_world (?S\<lparr>L_stack := st\<rparr>)) = None" for st
    by (simp add: start_state_def echo_world_def)
  have v: "input_vector ?s i = VNum LOGIC_HIGH" if "1 \<le> i" "i < unat (gNumOutputs ?s)" for i
    using that by (simp add: input_vector_def in_value_def demo_host_def)
  have ok: "out_value_ok ?s i (input_vector ?s i)" if "1 \<le> i" "i < unat (gNumOutputs ?s)" for i
    using that v [OF that] by (simp add: out_value_ok_def demo_host_def)
  have sc: "script_computes echo_world (VFun 7) (\<lambda>v. v) (unat (gNumInputs ?s)) (unat (gNumOutputs ?s))"
    using echo_computes by (simp add: demo_host_def)
  from calculate_implements [OF a g h(3) fr sc ok] obtain s' where
    s': "calculate echo_world (\<lambda>n. []) ?s = Ok s'" "written ?s (input_vector ?s) s'" by blast
  have "POutput s' ! 2 = LOGIC_HIGH"
    using s'(2) v [of 2] by (simp add: written_def demo_host_def)
  moreover have "POutput s' ! 3 = 0" using s'(2) by (simp add: written_def demo_host_def)
  moreover have "gERROR s' = gERROR ?s" using s'(2) unfolding written_def by (metis profilua.simps(4) profilua.select_convs(4) profilua.surjective profilua.update_convs(1,13,15))
  ultimately show ?thesis using s'(1) h(1) a(2) by (intro exI [of _ h] exI [of _ ?S] exI [of _ s']) (simp add: start_state_def)
qed

section \<open>What the calls into Lua leave alone\<close>

text \<open>All operations on the Lua state go through \<open>on_L\<close>, which changes nothing else.\<close>

definition same_host :: "profilua \<Rightarrow> profilua \<Rightarrow> bool" where
  "same_host s s' \<longleftrightarrow> s' = s\<lparr>pL := pL s'\<rparr>"

lemma same_host_refl [simp]: "same_host s s"
  by (simp add: same_host_def)

lemma same_host_trans: "same_host s t \<Longrightarrow> same_host t u \<Longrightarrow> same_host s u"
proof -
  assume "same_host s t" "same_host t u"
  then have "u = t\<lparr>pL := pL u\<rparr>" "t = s\<lparr>pL := pL t\<rparr>" by (simp_all only: same_host_def)
  then have "u = (s\<lparr>pL := pL t\<rparr>)\<lparr>pL := pL u\<rparr>" by metis
  then show ?thesis by (simp add: same_host_def)
qed

lemma on_L_same: "on_L s f = Ok s' \<Longrightarrow> same_host s s'"
  by (auto simp: on_L_def same_host_def rbind_Ok_iff split: option.splits)

lemma foldM_same:
  "(\<And>x s s'. f x s = Ok s' \<Longrightarrow> same_host s s') \<Longrightarrow> foldM f xs s = Ok s' \<Longrightarrow> same_host s s'"
proof (induction xs arbitrary: s)
  case (Cons x xs)
  from Cons.prems(2) obtain t where t: "f x s = Ok t" "foldM f xs t = Ok s'" by (auto simp: rbind_Ok_iff)
  from same_host_trans [OF Cons.prems(1) [OF t(1)] Cons.IH [OF Cons.prems(1) t(2)]] show ?case .
qed simp

lemma push_global_same: "push_global W s n = Ok s' \<Longrightarrow> same_host s s'"
  unfolding push_global_def by (rule on_L_same)

lemma pop_L_same: "pop_L s n = Ok s' \<Longrightarrow> same_host s s'"
  unfolding pop_L_def by (rule on_L_same)

lemma push_input_same: "push_input W strs i s = Ok s' \<Longrightarrow> same_host s s'"
  unfolding push_input_def by (auto simp: rbind_Ok_iff dest: on_L_same)

lemma push_inputs_same: "push_inputs W strs s = Ok s' \<Longrightarrow> same_host s s'"
  unfolding push_inputs_def
  by (elim rbind_OkE) (rule same_host_trans [OF on_L_same foldM_same [OF push_input_same]])

lemma push_user_same: "push_user W i s = Ok s' \<Longrightarrow> same_host s s'"
  unfolding push_user_def by (auto simp: rbind_Ok_iff dest: on_L_same)

lemma store_user_same: "store_user W s = Ok s' \<Longrightarrow> same_host s s'"
  unfolding store_user_def
  by (elim rbind_OkE) (rule same_host_trans [OF same_host_trans [OF on_L_same foldM_same [OF push_user_same]] on_L_same])

lemma fetch_result_same: "fetch_result W i s = Ok s' \<Longrightarrow> same_host s s'"
  unfolding fetch_result_def by (rule on_L_same)

lemma OpenLuaScript_same: "OpenLuaScript W s = Ok (s', ok) \<Longrightarrow> same_host s s'"
  by (auto simp: OpenLuaScript_def same_host_def rbind_Ok_iff split: option.splits prod.splits)

lemma CloseLuaScript_same: "same_host s (CloseLuaScript s)"
  by (simp add: CloseLuaScript_def same_host_def)

lemmas host_same = on_L_same push_global_same pop_L_same push_inputs_same store_user_same fetch_result_same OpenLuaScript_same

text \<open>The variables of the debug console.\<close>

definition con_part :: "profilua \<Rightarrow> u8 \<times> u8 \<times> console" where
  "con_part s = (gConsole s, gConsoleTop s, pl_console s)"

text \<open>The variables of the error report.\<close>

definition err_part :: "profilua \<Rightarrow> u8 \<times> lua_Number list" where
  "err_part s = (gERROR s, POutput s)"

lemma same_host_parts:
  "same_host s s' \<Longrightarrow> con_part s' = con_part s \<and> err_part s' = err_part s \<and> gNumInputs s' = gNumInputs s \<and>
     gNumOutputs s' = gNumOutputs s \<and> gCSimStartOverride s' = gCSimStartOverride s"
proof -
  assume "same_host s s'"
  then obtain x where "s' = s\<lparr>pL := x\<rparr>" unfolding same_host_def by blast
  then show ?thesis by (simp add: con_part_def err_part_def)
qed

lemmas con_same = host_same [THEN same_host_parts, THEN conjunct1]

lemma foldM_keeps:
  "(\<And>x s s'. f x s = Ok s' \<Longrightarrow> g s' = g s) \<Longrightarrow> foldM f xs s = Ok s' \<Longrightarrow> g s' = g s"
proof (induction xs arbitrary: s)
  case (Cons x xs)
  from Cons.prems(2) obtain t where t: "f x s = Ok t" "foldM f xs t = Ok s'" by (auto simp: rbind_Ok_iff)
  from Cons.IH [OF Cons.prems(1) t(2)] Cons.prems(1) [OF t(1)] show ?case by simp
qed simp

lemma mark_string_parts:
  "mark_string b s ch = Ok s' \<Longrightarrow> con_part s' = con_part s \<and> err_part s' = err_part s"
  by (auto simp: mark_string_def rbind_Ok_iff con_part_def err_part_def split: if_splits)

lemma ask_name_parts:
  assumes "ask_name W fmt b s ch cap n0 = Ok (s', n)"
  shows "con_part s' = con_part s \<and> err_part s' = err_part s"
proof -
  have m: "con_part s4 = con_part s2 \<and> err_part s4 = err_part s2"
    if "(case lua_tostring fmt v of None \<Rightarrow> Ok (s2, n0)
        | Some str \<Rightarrow> rbind (strcpy cap str) (\<lambda>name. if starts_with {CHR ''$''} name
            then rbind (mark_string b s2 ch) (\<lambda>s3. Ok (s3, name)) else Ok (s2, name))) = Ok (s4, n4)" for s2 s4 n4 v
    using that by (auto simp: rbind_Ok_iff split: option.splits if_splits dest: mark_string_parts)
  show ?thesis
    using assms unfolding ask_name_def
    by (elim rbind_OkE) (auto split: if_splits prod.splits elim!: rbind_OkE dest!: m host_same [THEN same_host_parts])
qed

lemma GetInputName_parts:
  "GetInputName W fmt s ch cap = Ok (s', n) \<Longrightarrow> con_part s' = con_part s \<and> err_part s' = err_part s"
  using CloseLuaScript_same [THEN same_host_parts]
  by (auto simp: GetInputName_def rbind_Ok_iff split: if_splits dest!: ask_name_parts OpenLuaScript_same [THEN same_host_parts])

lemma GetOutputName_parts:
  "GetOutputName W fmt s ch cap = Ok (s', n) \<Longrightarrow> con_part s' = con_part s \<and> err_part s' = err_part s"
  using CloseLuaScript_same [THEN same_host_parts]
  by (auto simp: GetOutputName_def rbind_Ok_iff split: if_splits dest!: ask_name_parts OpenLuaScript_same [THEN same_host_parts])

lemma set_output_con: "set_output s i x = Ok s' \<Longrightarrow> con_part s' = con_part s"
  by (auto simp: set_output_def rbind_Ok_iff con_part_def)

lemma set_string_con: "set_string s i x = Ok s' \<Longrightarrow> con_part s' = con_part s"
  by (auto simp: set_string_def rbind_Ok_iff con_part_def)

lemma set_user_con: "set_user s i x = Ok s' \<Longrightarrow> con_part s' = con_part s"
  by (auto simp: set_user_def rbind_Ok_iff con_part_def)

lemma gERROR_con [simp]: "con_part (s\<lparr>gERROR := e\<rparr>) = con_part s"
  by (simp add: con_part_def)

lemma read_number_con: "read_number s i v = Ok s' \<Longrightarrow> con_part s' = con_part s"
  by (auto simp: read_number_def rbind_Ok_iff split: option.splits dest!: set_output_con con_same)

lemma calc_output_con: "calc_output W fmt i s = Ok s' \<Longrightarrow> con_part s' = con_part s"
  by (auto simp: calc_output_def rbind_Ok_iff split: option.splits if_splits
    dest!: set_string_con read_number_con con_same)

lemma CSimStartFlaw_output_con: "CSimStartFlaw_output W i s = Ok s' \<Longrightarrow> con_part s' = con_part s"
  by (auto simp: CSimStartFlaw_output_def rbind_Ok_iff split: if_splits dest!: read_number_con con_same)

lemma load_user_con: "load_user W i s = Ok s' \<Longrightarrow> con_part s' = con_part s"
  by (auto simp: load_user_def rbind_Ok_iff split: option.splits dest!: set_user_con con_same)

lemma outputs_con:
  "foldM (calc_output W fmt) xs s = Ok s' \<Longrightarrow> con_part s' = con_part s"
  "foldM (CSimStartFlaw_output W) xs s = Ok s' \<Longrightarrow> con_part s' = con_part s"
  "foldM (load_user W) xs s = Ok s' \<Longrightarrow> con_part s' = con_part s"
  by (erule foldM_keeps [rotated], erule calc_output_con CSimStartFlaw_output_con load_user_con)+

lemma calculate_con:
  assumes "calculate W fmt s = Ok s'"
  shows "con_part s' = con_part s"
proof (cases "gERROR s = 0")
  case True
  show ?thesis using assms True unfolding calculate_def
    by (auto simp: rbind_Ok_iff simp del: upt_Suc split: if_splits
      dest!: con_same outputs_con)
qed (use assms set_output_con in \<open>auto simp: calculate_def\<close>)

lemma names_parts:
  "foldM (\<lambda>i s. rbind (GetInputName W fmt s (of_nat i) cap) (\<lambda>(s', n). Ok s')) xs s = Ok s'
   \<Longrightarrow> con_part s' = con_part s \<and> err_part s' = err_part s"
  "foldM (\<lambda>i s. rbind (GetOutputName W fmt s (of_nat i) cap) (\<lambda>(s', n). Ok s')) xs s = Ok s'
   \<Longrightarrow> con_part s' = con_part s \<and> err_part s' = err_part s"
proof -
  let ?g = "\<lambda>s. (con_part s, err_part s)"
  have "?g s' = ?g s" if "foldM (\<lambda>i s. rbind (GetInputName W fmt s (of_nat i) cap) (\<lambda>(s', n). Ok s')) xs s = Ok s'"
    by (rule foldM_keeps [OF _ that, of ?g]) (auto simp: rbind_Ok_iff dest: GetInputName_parts)
  then show "foldM (\<lambda>i s. rbind (GetInputName W fmt s (of_nat i) cap) (\<lambda>(s', n). Ok s')) xs s = Ok s'
    \<Longrightarrow> con_part s' = con_part s \<and> err_part s' = err_part s" by simp
  have "?g s' = ?g s" if "foldM (\<lambda>i s. rbind (GetOutputName W fmt s (of_nat i) cap) (\<lambda>(s', n). Ok s')) xs s = Ok s'"
    by (rule foldM_keeps [OF _ that, of ?g]) (auto simp: rbind_Ok_iff dest: GetOutputName_parts)
  then show "foldM (\<lambda>i s. rbind (GetOutputName W fmt s (of_nat i) cap) (\<lambda>(s', n). Ok s')) xs s = Ok s'
    \<Longrightarrow> con_part s' = con_part s \<and> err_part s' = err_part s" by simp
qed

section \<open>The host's calls as a transition system\<close>

text \<open>A step of the host: a call of one of the exported functions that returns, or new contents of
the buffers that the host owns.\<close>

inductive host_step :: "world \<Rightarrow> (lua_Number \<Rightarrow> string) \<Rightarrow> profilua \<Rightarrow> profilua \<Rightarrow> bool" for W fmt where
  step_NumInputs: "CNumInputsEx W s = Ok (s', n) \<Longrightarrow> host_step W fmt s s'"
| step_NumOutputs: "CNumOutputsEx W s = Ok (s', n) \<Longrightarrow> host_step W fmt s s'"
| step_InputName: "GetInputName W fmt s ch cap = Ok (s', name) \<Longrightarrow> host_step W fmt s s'"
| step_OutputName: "GetOutputName W fmt s ch cap = Ok (s', name) \<Longrightarrow> host_step W fmt s s'"
| step_Start: "host_step W fmt s (CSimStart s)"
| step_Calculate: "CCalculateEx W fmt s = Ok s' \<Longrightarrow> host_step W fmt s s'"
| step_Stop: "CSimStop W s = Ok s' \<Longrightarrow> host_step W fmt s s'"
| step_Buffers: "host_step W fmt s (s\<lparr>PInput := i, POutput := po, PUser := u, PString := ps, PStrCap := c\<rparr>)"

inductive_cases host_stepE: "host_step W fmt s s'"

definition host_reachable :: "world \<Rightarrow> (lua_Number \<Rightarrow> string) \<Rightarrow> profilua \<Rightarrow> profilua \<Rightarrow> bool" where
  "host_reachable W fmt = (host_step W fmt)\<^sup>*\<^sup>*"

text \<open>The streams of the console are open exactly while \<open>gConsole\<close> is 1.\<close>

definition con_ok :: "u8 \<times> u8 \<times> console \<Rightarrow> bool" where
  "con_ok = (\<lambda>(g, t, c).
     (g = 0 \<and> \<not> con_fout c \<and> \<not> con_fin c \<and> \<not> con_ferr c \<or> g = 1 \<and> con_fout c \<and> con_fin c \<and> con_ferr c) \<and>
     count_list (con_events c) FreeConsole + unat g \<le> count_list (con_events c) AllocConsole)"

lemma con_ok_on: "con_ok (g, t, c) \<Longrightarrow> con_ok (1, 0, DebugConsoleTop (DebugConsoleOn c))"
  by (auto simp: con_ok_def DebugConsoleOn_def DebugConsoleTop_def)

lemma con_ok_top: "con_ok (g, t, c) \<Longrightarrow> con_ok (g, t', DebugConsoleTop c)"
  by (auto simp: con_ok_def DebugConsoleTop_def)

lemma con_ok_off:
  "con_ok (1, t, c) \<Longrightarrow> \<exists>c'. DebugConsoleOff c = Ok c' \<and> con_ok (0, 0, c')"
  by (auto simp: con_ok_def DebugConsoleOff_def)

lemma CSimStartFlaw_con:
  assumes "CSimStartFlaw W fmt s = Ok s'" and "con_ok (con_part s)"
  shows "con_ok (con_part s')"
proof -
  note dest = con_same outputs_con names_parts [THEN conjunct1] set_output_con
  from assms(1) obtain s8 found where s8: "start_script W fmt s = Ok (s8, found)"
    and r: "(if found then call_start W s8 else Ok s8) = Ok s'"
    unfolding CSimStartFlaw_def by (auto simp: rbind_Ok_iff)
  from s8 obtain s1 x s5 where s1: "set_output (s\<lparr>gERROR := 1\<rparr>) 0 PL_ERROR = Ok s1" "aget (PInput s1) 0 = Ok x"
    and s5: "con_part s5 = con_part (if luai_numlt LOGIC_HIGH_THRES x
               then s1\<lparr>pl_console := DebugConsoleTop (DebugConsoleOn (pl_console s1)), gConsole := 1, gConsoleTop := 0\<rparr> else s1)"
    and e8: "con_part s8 = con_part s5"
    unfolding start_script_def Let_def
    by (elim rbind_OkE) (auto simp: rbind_Ok_iff con_part_def simp del: upt_Suc split: if_splits prod.splits dest!: dest)
  have e9: "con_part s' = con_part s8"
    using r unfolding call_start_def
    by (auto simp: con_part_def rbind_Ok_iff simp del: upt_Suc split: if_splits dest!: dest)
  have "con_part s1 = con_part s" using set_output_con [OF s1(1)] by simp
  then have "con_ok (gConsole s1, gConsoleTop s1, pl_console s1)" using assms(2) by (simp add: con_part_def)
  then show ?thesis using s5 e8 e9 con_ok_on by (auto simp: con_part_def split: if_splits)
qed

lemma calc_console_con:
  assumes "calc_console s = Ok s'" and "con_ok (con_part s)"
  shows "con_ok (con_part s') \<and> err_part s' = err_part s \<and> gCSimStartOverride s' = gCSimStartOverride s"
proof -
  obtain x where x: "aget (PInput s) 0 = Ok x" using assms(1) by (auto simp: calc_console_def rbind_Ok_iff)
  let ?s1 = "if luai_numlt LOGIC_HIGH_THRES x \<and> gConsole s = 0
    then s\<lparr>pl_console := DebugConsoleTop (DebugConsoleOn (pl_console s)), gConsole := 1, gConsoleTop := 0\<rparr> else s"
  have 1: "con_ok (gConsole ?s1, gConsoleTop ?s1, pl_console ?s1)"
    using assms(2) con_ok_on by (auto simp: con_part_def)
  have "s' = (if gConsole ?s1 = 1 \<and> gConsoleTop ?s1 = 0
    then ?s1\<lparr>pl_console := DebugConsoleTop (pl_console ?s1), gConsoleTop := gConsoleTop ?s1 + 1\<rparr> else ?s1)"
    using assms(1) x unfolding calc_console_def Let_def by simp
  then have "con_ok (con_part s')"
    using 1 con_ok_top [OF 1] by (cases "gConsole ?s1 = 1 \<and> gConsoleTop ?s1 = 0") (simp_all add: con_part_def)
  moreover have "err_part s' = err_part s" "gCSimStartOverride s' = gCSimStartOverride s"
    using assms(1) by (auto simp: calc_console_def Let_def err_part_def rbind_Ok_iff split: if_splits)
  ultimately show ?thesis by simp
qed

lemma CCalculateEx_con:
  assumes "CCalculateEx W fmt s = Ok s'" and "con_ok (con_part s)"
  shows "con_ok (con_part s')"
proof -
  obtain s1 s2 where 1: "(if gCSimStartOverride s \<noteq> 0
      then rbind (CSimStartFlaw W fmt s) (\<lambda>s'. Ok (s'\<lparr>gCSimStartOverride := 0\<rparr>)) else Ok s) = Ok s1"
    and 2: "calc_console s1 = Ok s2" "calculate W fmt s2 = Ok s'"
    using assms(1) unfolding CCalculateEx_def by (elim rbind_OkE)
  have "con_ok (con_part s1)"
    using 1 assms(2) CSimStartFlaw_con [of W fmt s] by (auto simp: rbind_Ok_iff con_part_def split: if_splits)
  then show ?thesis using calc_console_con [OF 2(1)] calculate_con [OF 2(2)] by simp
qed

lemma CSimStop_con:
  assumes "CSimStop W s = Ok s'" and "con_ok (con_part s)"
  shows "con_ok (con_part s')"
proof -
  let ?a = "if gERROR s = 0 then
              rbind (push_global W s ''gSimStop'') (\<lambda>s1.
              rbind (type_at_top s1) (\<lambda>t.
              rbind (if t = 6 then
                       rbind (push_inputs W False s1) (\<lambda>s2. on_L s2 (\<lambda>S. lua_call W S 1 0))
                     else Ok (s1\<lparr>gERROR := 1\<rparr>)) (\<lambda>s3.
              rbind (push_global W s3 ''gPUser'') (\<lambda>s4.
              rbind (type_at_top s4) (\<lambda>t2.
                if t2 = 5 then rbind (foldM (load_user W) [0..<100] s4) (\<lambda>s5. pop_L s5 1) else Ok s4)))))
            else Ok s"
  obtain s6 where s6: "?a = Ok s6" and s': "(let s7 = CloseLuaScript s6 in
     if gConsole s7 = 1
     then rbind (DebugConsoleOff (pl_console s7)) (\<lambda>c. Ok (s7\<lparr>pl_console := c, gConsole := 0, gConsoleTop := 0\<rparr>))
     else Ok s7) = Ok s'"
    using assms(1) unfolding CSimStop_def by (elim rbind_OkE)
  have "con_part s6 = con_part s"
  proof (cases "gERROR s = 0")
    case True
    show ?thesis using s6 unfolding if_P [OF True]
      by (elim rbind_OkE) (auto simp del: upt_Suc split: if_splits elim!: rbind_OkE dest!: con_same outputs_con)
  qed (use s6 in simp)
  then have "con_ok (con_part (CloseLuaScript s6))"
    using CloseLuaScript_same [THEN same_host_parts, of s6] assms(2) by simp
  then show ?thesis
    using s' con_ok_off [of "gConsoleTop (CloseLuaScript s6)" "pl_console (CloseLuaScript s6)"]
    by (auto simp: con_part_def Let_def split: if_splits)
qed

lemma CNum_con:
  "CNumInputsEx W s = Ok (s', n) \<Longrightarrow> con_part s' = con_part s"
  "CNumOutputsEx W s = Ok (s', n) \<Longrightarrow> con_part s' = con_part s"
proof -
  have c: "con_part (CloseLuaScript t) = con_part t" for t using CloseLuaScript_same [THEN same_host_parts, of t] by simp
  have f: "con_part (t\<lparr>gNumInputs := x\<rparr>) = con_part t" "con_part (t\<lparr>gNumOutputs := x\<rparr>) = con_part t" "con_part (t\<lparr>gFileNum := x\<rparr>) = con_part t" for t x
    by (simp_all add: con_part_def)
  show "CNumInputsEx W s = Ok (s', n) \<Longrightarrow> con_part s' = con_part s"
    by (auto simp: CNumInputsEx_def rbind_Ok_iff Let_def c f split: if_splits option.splits dest!: con_same)
  show "CNumOutputsEx W s = Ok (s', n) \<Longrightarrow> con_part s' = con_part s"
    by (auto simp: CNumOutputsEx_def rbind_Ok_iff Let_def c f split: if_splits option.splits dest!: con_same)
qed

lemma host_step_con: "host_step W fmt s s' \<Longrightarrow> con_ok (con_part s) \<Longrightarrow> con_ok (con_part s')"
proof (erule host_stepE)
  assume c: "con_ok (con_part s)"
  show "con_ok (con_part s')" if "CNumInputsEx W s = Ok (s', n)" for n using CNum_con(1) [OF that] c by simp
  show "con_ok (con_part s')" if "CNumOutputsEx W s = Ok (s', n)" for n using CNum_con(2) [OF that] c by simp
  show "con_ok (con_part s')" if "GetInputName W fmt s ch cap = Ok (s', name)" for ch cap name using GetInputName_parts [OF that] c by simp
  show "con_ok (con_part s')" if "GetOutputName W fmt s ch cap = Ok (s', name)" for ch cap name using GetOutputName_parts [OF that] c by simp
  show "con_ok (con_part s')" if "s' = CSimStart s" using that c by (simp add: CSimStart_def con_part_def)
  show "con_ok (con_part s')" if "CCalculateEx W fmt s = Ok s'" by (rule CCalculateEx_con [OF that c])
  show "con_ok (con_part s')" if "CSimStop W s = Ok s'" by (rule CSimStop_con [OF that c])
  show "con_ok (con_part s')" if "s' = s\<lparr>PInput := i, POutput := po, PUser := u, PString := ps, PStrCap := k\<rparr>" for i po u ps k
    using that c by (simp add: con_part_def)
qed

text \<open>C7: whatever the host calls in whatever order, the debug console is opened and closed
consistently: its streams are open exactly while \<open>gConsole\<close> is 1, so that \<open>CSimStop\<close> never closes a
null stream, and it is never freed more often than it was allocated.\<close>

theorem console_never_closed_twice:
  assumes "host_reachable W fmt s0 s" and "gConsole s0 = 0" and "pl_console s0 = demo_console"
  shows "(gConsole s = 0 \<or> gConsole s = 1) \<and>
    (con_fout (pl_console s) \<longleftrightarrow> gConsole s = 1) \<and> (con_fin (pl_console s) \<longleftrightarrow> gConsole s = 1) \<and>
    (con_ferr (pl_console s) \<longleftrightarrow> gConsole s = 1) \<and>
    (gConsole s = 1 \<longrightarrow> (\<exists>c. DebugConsoleOff (pl_console s) = Ok c)) \<and>
    count_list (con_events (pl_console s)) FreeConsole \<le> count_list (con_events (pl_console s)) AllocConsole"
proof -
  have "con_ok (con_part s)"
    using assms unfolding host_reachable_def
  proof (induction rule: rtranclp_induct)
    case base
    then show ?case by (simp add: con_part_def con_ok_def demo_console_def)
  qed (rule host_step_con)
  then show ?thesis by (auto simp: con_part_def con_ok_def DebugConsoleOff_def)
qed

lemma thres_less_high: "luai_numlt LOGIC_HIGH_THRES LOGIC_HIGH"
proof -
  have e: "LOGIC_HIGH_THRES = of_nat 0x4004000000000000" "LOGIC_HIGH = of_nat 0x4014000000000000"
    by (simp_all add: LOGIC_HIGH_THRES_def LOGIC_HIGH_def)
  show ?thesis unfolding e luai_numlt_def dbl_units_def dbl_isnan_def dbl_mag_of_nat dbl_sign_of_nat
    by (simp add: inf_mag_def)
qed

theorem console_never_closed_twice_witness:
  "\<exists>s. host_reachable echo_world (\<lambda>n. []) (demo_host None) s \<and> gConsole s = 1 \<and>
    (\<exists>c. DebugConsoleOff (pl_console s) = Ok c)"
proof -
  let ?s0 = "(demo_host None)\<lparr>gERROR := 1, gFileNum := 0\<rparr>"
  have z: "cast_uchar 0 = Ok 0"
    by (simp add: cast_uchar_def dbl_trunc_def dbl_units_def units_def dbl_isnan_def dbl_isinf_def dbl_mag_def inf_mag_def)
  have 1: "host_step echo_world (\<lambda>n. []) (demo_host None) ?s0"
    by (rule step_NumInputs [where n = 3])
      (simp add: CNumInputsEx_def demo_host_def OpenLuaScript_def echo_world_def z Let_def)
  have "\<exists>s. CCalculateEx echo_world (\<lambda>n. []) ?s0 = Ok s \<and> gConsole s = 1"
    by (simp add: CCalculateEx_def demo_host_def calc_console_def calculate_def set_output_def Let_def thres_less_high)
  then obtain s where s: "CCalculateEx echo_world (\<lambda>n. []) ?s0 = Ok s" "gConsole s = 1" by blast
  have r: "host_reachable echo_world (\<lambda>n. []) (demo_host None) s"
    unfolding host_reachable_def using 1 step_Calculate [OF s(1)] by (meson converse_rtranclp_into_rtranclp r_into_rtranclp)
  from console_never_closed_twice [OF r] s(2) r show ?thesis by (auto simp: demo_host_def)
qed

section \<open>Errors\<close>



lemma fetch_nil_pops:
  assumes s: "pL s = Some S" "L_stack S = st @ [VTable r]" "plain_table S r R" and i: "i < unat (gNumOutputs s)"
    and ran: "outputs_in_range s" and m: "gOutStrMarker s ! i = 0" and v: "int_val R i = VNil"
  shows "calc_output W fmt i s = Ok (s\<lparr>pL := Some (S\<lparr>L_stack := st\<rparr>), POutput := (POutput s)[i := 0], gERROR := 1\<rparr>)"
proof -
  have "i < 2 ^ 30" using i unat_u8 [of "gNumOutputs s"] by simp
  note f = fetch_result_ok [OF s this, of W]
  have t: "api_top (api_push S w) (Suc 0) = Ok w" for w
    by (rule api_top_1 [of _ "L_stack S"]) simp
  have b: "i < length (gOutStrMarker s)" "i < length (POutput s)"
    using i ran by (auto simp: outputs_in_range_def)
  have "api_pop S (Suc 0) = Ok (S\<lparr>L_stack := st\<rparr>)"
    using s(2) by (simp add: api_pop_def lua_pop_append)
  then show ?thesis using m f b t s(1) v
    by (simp add: calc_output_def ask_L_def read_number_def luaV_tonumber_def set_output_def pop_L_def on_L_def)
qed

text \<open>a missing numeric result (a nil in the result table) is reported, but the code pops twice: the
result table itself is gone, and with nothing below it the lookup of the next output runs off
the stack.\<close>

theorem missing_result_pops_table:
  assumes "pL s = Some S" and "L_stack S = st @ [VTable r]" and "plain_table S r R"
    and "i < unat (gNumOutputs s)" and "outputs_in_range s" and "gOutStrMarker s ! i = 0" and "int_val R i = VNil"
  shows "calc_output W fmt i s = Ok (s\<lparr>pL := Some (S\<lparr>L_stack := st\<rparr>), POutput := (POutput s)[i := 0], gERROR := 1\<rparr>) \<and>
    (st = [] \<longrightarrow> rbind (calc_output W fmt i s) (calc_output W fmt j) = Fail (Undefined ''invalid stack index''))"
proof -
  note c = fetch_nil_pops [OF assms, of W fmt]
  have "calc_output W fmt j (s\<lparr>pL := Some (S\<lparr>L_stack := []\<rparr>), POutput := po, gERROR := 1\<rparr>) =
      Fail (Undefined ''invalid stack index'')" for po
    by (simp add: calc_output_def fetch_result_def on_L_def lua_gettable_def api_value_def index_value_def index2adr_def)
  then show ?thesis using c by simp
qed

theorem missing_result_pops_table_witness:
  "\<exists>s. rbind (calc_output echo_world (\<lambda>n. []) 1 s) (calc_output echo_world (\<lambda>n. []) 2) = Fail (Undefined ''invalid stack index'')"
proof -
  obtain h where h: "luaH_new 0 4 = Ok h" "table_inv h" "\<forall>k v. \<not> holds h k v" "t_metatable h = 0"
    using new_table_ex [of 0 4] by auto
  let ?S = "start_state h" and ?s = "demo_host (Some (start_state h))"
  have "int_val h 1 = VNil" using table_val_nil [OF h(2)] h(3) valid_int_key [of 1] by (simp add: valid_key_def)
  moreover have "pL ?s = Some ?S" "L_stack ?S = [] @ [VTable 64]" "plain_table ?S 64 h" "1 < unat (gNumOutputs ?s)"
    "outputs_in_range ?s" "gOutStrMarker ?s ! 1 = 0"
    using h by (simp_all add: demo_host_def start_state_def plain_table_def outputs_in_range_def)
  ultimately show ?thesis using missing_result_pops_table [of ?s ?S "[]" 64 h 1 echo_world "\<lambda>n. []" 2] by blast
qed




text \<open>C27: the number of input pins is the script's \<open>gNumInputs\<close> plus one for the console pin, modulo
256: a script with 255 inputs is reported as one with none. The Lua state is closed again.\<close>

theorem CNumInputsEx_counts:
  assumes "100 < length (PUser s)" and "cast_uchar (PUser s ! 100) = Ok f"
    and "OpenLuaScript W (s\<lparr>gFileNum := f\<rparr>) = Ok (s1, True)" and "pL s1 = Some S" and "L_gt S = VTable g" and "plain_table S g G"
    and "table_val G (VStr ''gNumInputs'') = VNum (cast_num (int k))" and "k \<le> 255"
  shows "\<exists>s'. CNumInputsEx W s = Ok (s', of_nat (k + 1)) \<and> unat (gNumInputs s') = (k + 1) mod 256 \<and> pL s' = None"
proof -
  have g: "lua_getfield W S LUA_GLOBALSINDEX ''gNumInputs'' = Ok (api_push S (VNum (cast_num (int k))))"
    using gettable_plain [OF assms(6) valid_str] assms(5,7) by (simp add: lua_getfield_def api_value_def)
  have c: "cast_uchar (cast_num (int k)) = Ok (of_nat k)"
    using assms(8) cast_num_finite [of "int k"] dbl_trunc_cast_num [of "int k"] by (simp add: cast_uchar_def)
  have m: "unat (of_nat (k + 1) :: u8) = (k + 1) mod 256" by (simp only: unat_of_nat) simp
  have r: "read_count (s1\<lparr>pL := Some (api_push S (VNum (cast_num (int k))))\<rparr>) = Ok (Some (of_nat (k + 1)))"
    using c by (simp add: read_count_def ask_L_def lua_type_def index2adr_def lua_tonumber_def luaV_tonumber_def add.commute)
  show ?thesis
    using assms(1-4) g r m by (simp add: CNumInputsEx_def on_L_def CloseLuaScript_def Let_def)
qed

theorem CNumInputsEx_counts_witness:
  "\<exists>S s'. CNumInputsEx echo_world (demo_host (Some S)) = Ok (s', 8) \<and> pL s' = None"
proof -
  obtain h where h: "table_inv h" "t_metatable h = 0" "table_val h (VStr ''gNumInputs'') = VNum (cast_num (int 7))"
    by (rule put_new_table_str)
  let ?S = "start_state h"
  have z: "cast_uchar (PUser (demo_host (Some ?S)) ! 100) = Ok 0"
    by (simp add: demo_host_def cast_uchar_def dbl_trunc_def dbl_units_def units_def dbl_isnan_def dbl_isinf_def dbl_mag_def inf_mag_def)
  have "OpenLuaScript echo_world ((demo_host (Some ?S))\<lparr>gFileNum := 0\<rparr>) = Ok ((demo_host (Some ?S))\<lparr>gFileNum := 0, pL := Some ?S\<rparr>, True)"
    by (simp add: OpenLuaScript_def demo_host_def echo_world_def lua_pcall_def api_push_def start_state_def adjust_results_def Let_def)
  moreover have "plain_table ?S 64 h" "L_gt ?S = VTable 64" using h by (simp_all add: plain_table_def start_state_def)
  ultimately show ?thesis
    using CNumInputsEx_counts [OF _ z, of echo_world _ ?S 64 h 7] h(3) by (fastforce simp: demo_host_def)
qed

end
