(* ===== verification/ProfiMidi.thy ===== *)
theory ProfiMidi
  imports LuaApi
begin

text \<open>
  profimidi.c: the MIDI library. The lists of open devices and of received events are linked
  lists on the C heap: addresses are 32-bit words, 0 is the null pointer, and each type of
  record has a heap of its own. The functions of winmm, \<open>malloc\<close> and the number of attached
  devices are a parameter (record \<open>winmm\<close>); the calls that reach the devices are events of a
  trace. A loop along a list takes a step count as an argument; \<open>ADDRESSES\<close> of them (the number
  of addresses) are enough for every list without a cycle, which \<open>chain_length\<close> shows.
\<close>

section \<open>Linked lists on a heap\<close>

text \<open>\<open>h p\<close> is the \<open>next\<close> pointer of the record at \<open>p\<close>.\<close>

primrec chain :: "(u32 \<Rightarrow> u32 option) \<Rightarrow> u32 \<Rightarrow> u32 list \<Rightarrow> bool" where
  "chain h p [] \<longleftrightarrow> p = 0"
| "chain h p (a # as) \<longleftrightarrow> p = a \<and> a \<noteq> 0 \<and> (\<exists>q. h a = Some q \<and> chain h q as)"

definition ADDRESSES :: nat where
  "ADDRESSES = 2 ^ 32"

text \<open>The addresses of the records of a list, in order.\<close>

fun collect :: "nat \<Rightarrow> (u32 \<Rightarrow> u32 option) \<Rightarrow> u32 \<Rightarrow> u32 list" where
  "collect 0 h p = []"
| "collect (Suc n) h p = (if p = 0 then [] else case h p of None \<Rightarrow> [] | Some q \<Rightarrow> p # collect n h q)"

section \<open>State\<close>

record tMidiOutDev =
  od_Number :: u32
  od_Handle :: u32
  od_next :: u32

record tMidiInEvent =
  ev_event :: u8
  ev_dat1 :: u8
  ev_dat2 :: u8
  ev_next :: u32

record tMidiInDev =
  id_Number :: u32
  id_Handle :: u32
  id_events :: u32
  id_next :: u32

datatype mm_call =
    OutShortMsg u32 u32 | OutReset u32 | OutClose u32
  | InStart u32 | InReset u32 | InClose u32

record midi =
  pMidiOutDevList :: u32
  pMidiInDevList :: u32
  out_heap :: "u32 \<Rightarrow> tMidiOutDev option"
  in_heap :: "u32 \<Rightarrow> tMidiInDev option"
  ev_heap :: "u32 \<Rightarrow> tMidiInEvent option"
  mm_calls :: "mm_call list"

text \<open>\<open>mm_malloc m\<close> is the address of a new block, 0 when there is no memory; the functions that
open a device give its handle, or nothing on an error.\<close>

record winmm =
  mm_malloc :: "midi \<Rightarrow> u32"
  mm_outOpen :: "midi \<Rightarrow> u32 \<Rightarrow> u32 option"
  mm_inOpen :: "midi \<Rightarrow> u32 \<Rightarrow> u32 option"
  mm_inNumDevs :: u32
  mm_outNumDevs :: u32
  mm_outName :: "u32 \<Rightarrow> string option"
  mm_inName :: "u32 \<Rightarrow> string option"

abbreviation NOTEON :: u8 where "NOTEON \<equiv> 0x90"
abbreviation NOTEOFF :: u8 where "NOTEOFF \<equiv> 0x80"
abbreviation CTRL :: u8 where "CTRL \<equiv> 0xB0"
abbreviation PITCH :: u8 where "PITCH \<equiv> 0xE0"

definition deref :: "(u32 \<Rightarrow> 'a option) \<Rightarrow> u32 \<Rightarrow> 'a res" where
  "deref h p = (case h p of None \<Rightarrow> Fail (Undefined ''dangling pointer'') | Some x \<Rightarrow> Ok x)"

definition mm_log :: "midi \<Rightarrow> mm_call \<Rightarrow> midi" where
  "mm_log m c = m\<lparr>mm_calls := mm_calls m @ [c]\<rparr>"

section \<open>Events of a device\<close>

definition AddMidiInEvent :: "midi \<Rightarrow> u32 \<Rightarrow> u32 \<Rightarrow> midi res" where
  "AddMidiInEvent m dev ev =
     (if dev = 0 \<or> ev = 0 then Ok m
      else rbind (deref (in_heap m) dev) (\<lambda>d. rbind (deref (ev_heap m) ev) (\<lambda>e.
        Ok (m\<lparr>ev_heap := (ev_heap m)(ev \<mapsto> e\<lparr>ev_next := id_events d\<rparr>),
              in_heap := (in_heap m)(dev \<mapsto> d\<lparr>id_events := ev\<rparr>)\<rparr>))))"

text \<open>The search for the last event: the pointers \<open>pprev\<close> and \<open>p\<close>.\<close>

fun last_event :: "nat \<Rightarrow> (u32 \<Rightarrow> tMidiInEvent option) \<Rightarrow> u32 \<Rightarrow> u32 \<Rightarrow> (u32 \<times> u32) res" where
  "last_event 0 h pprev p = Fail NoFuel"
| "last_event (Suc n) h pprev p =
     rbind (deref h p) (\<lambda>e. if ev_next e = 0 then Ok (pprev, p) else last_event n h p (ev_next e))"

text \<open>The event that is removed, or nothing for the return value \<open>-1\<close>.\<close>

definition RemoveMidiInEvent :: "midi \<Rightarrow> u32 \<Rightarrow> (midi \<times> tMidiInEvent option) res" where
  "RemoveMidiInEvent m dev =
     (if dev = 0 then Ok (m, None)
      else rbind (deref (in_heap m) dev) (\<lambda>d.
        if id_events d = 0 then Ok (m, None)
        else rbind (last_event ADDRESSES (ev_heap m) 0 (id_events d)) (\<lambda>(pprev, p).
          rbind (if pprev = 0 then Ok (m\<lparr>in_heap := (in_heap m)(dev \<mapsto> d\<lparr>id_events := 0\<rparr>)\<rparr>)
                 else rbind (deref (ev_heap m) pprev) (\<lambda>e.
                   Ok (m\<lparr>ev_heap := (ev_heap m)(pprev \<mapsto> e\<lparr>ev_next := 0\<rparr>)\<rparr>))) (\<lambda>m1.
          rbind (deref (ev_heap m1) p) (\<lambda>e.
            Ok (m1\<lparr>ev_heap := (ev_heap m1)(p := None)\<rparr>, Some (e\<lparr>ev_next := 0\<rparr>)))))))"

section \<open>Lists of devices\<close>

definition AddMidiOut :: "midi \<Rightarrow> u32 \<Rightarrow> midi res" where
  "AddMidiOut m tmp =
     (if tmp = 0 then Ok m
      else rbind (deref (out_heap m) tmp) (\<lambda>d.
        Ok (m\<lparr>out_heap := (out_heap m)(tmp \<mapsto> d\<lparr>od_next := pMidiOutDevList m\<rparr>), pMidiOutDevList := tmp\<rparr>)))"

definition AddMidiIn :: "midi \<Rightarrow> u32 \<Rightarrow> midi res" where
  "AddMidiIn m tmp =
     (if tmp = 0 then Ok m
      else rbind (deref (in_heap m) tmp) (\<lambda>d.
        Ok (m\<lparr>in_heap := (in_heap m)(tmp \<mapsto> d\<lparr>id_next := pMidiInDevList m\<rparr>), pMidiInDevList := tmp\<rparr>)))"

fun unlink_out :: "nat \<Rightarrow> (u32 \<Rightarrow> tMidiOutDev option) \<Rightarrow> u32 \<Rightarrow> u32 \<Rightarrow> u32 \<Rightarrow> (u32 \<Rightarrow> tMidiOutDev option) res" where
  "unlink_out 0 h p tmp nxt = Fail NoFuel"
| "unlink_out (Suc n) h p tmp nxt =
     (if p = 0 then Ok h
      else rbind (deref h p) (\<lambda>d.
        if od_next d = tmp then Ok (h(p \<mapsto> d\<lparr>od_next := nxt\<rparr>)) else unlink_out n h (od_next d) tmp nxt))"

definition RemoveMidiOut :: "midi \<Rightarrow> u32 \<Rightarrow> midi res" where
  "RemoveMidiOut m tmp =
     (if tmp = 0 then Ok m
      else rbind (deref (out_heap m) tmp) (\<lambda>d.
        rbind (if pMidiOutDevList m = tmp then Ok (m\<lparr>pMidiOutDevList := od_next d\<rparr>)
               else rbind (unlink_out ADDRESSES (out_heap m) (pMidiOutDevList m) tmp (od_next d)) (\<lambda>h.
                 Ok (m\<lparr>out_heap := h\<rparr>))) (\<lambda>m1.
          Ok (m1\<lparr>out_heap := (out_heap m1)(tmp := None)\<rparr>))))"

fun unlink_in :: "nat \<Rightarrow> (u32 \<Rightarrow> tMidiInDev option) \<Rightarrow> u32 \<Rightarrow> u32 \<Rightarrow> u32 \<Rightarrow> (u32 \<Rightarrow> tMidiInDev option) res" where
  "unlink_in 0 h p tmp nxt = Fail NoFuel"
| "unlink_in (Suc n) h p tmp nxt =
     (if p = 0 then Ok h
      else rbind (deref h p) (\<lambda>d.
        if id_next d = tmp then Ok (h(p \<mapsto> d\<lparr>id_next := nxt\<rparr>)) else unlink_in n h (id_next d) tmp nxt))"

fun clear_events :: "nat \<Rightarrow> midi \<Rightarrow> u32 \<Rightarrow> midi res" where
  "clear_events 0 m tmp = Fail NoFuel"
| "clear_events (Suc n) m tmp =
     rbind (RemoveMidiInEvent m tmp) (\<lambda>(m1, e). case e of None \<Rightarrow> Ok m1 | Some _ \<Rightarrow> clear_events n m1 tmp)"

definition RemoveMidiIn :: "midi \<Rightarrow> u32 \<Rightarrow> midi res" where
  "RemoveMidiIn m tmp =
     (if tmp = 0 then Ok m
      else rbind (deref (in_heap m) tmp) (\<lambda>d.
        rbind (if pMidiInDevList m = tmp then Ok (m\<lparr>pMidiInDevList := id_next d\<rparr>)
               else rbind (unlink_in ADDRESSES (in_heap m) (pMidiInDevList m) tmp (id_next d)) (\<lambda>h.
                 Ok (m\<lparr>in_heap := h\<rparr>))) (\<lambda>m1.
        rbind (clear_events ADDRESSES m1 tmp) (\<lambda>m2.
          Ok (m2\<lparr>in_heap := (in_heap m2)(tmp := None)\<rparr>)))))"

fun find_out :: "nat \<Rightarrow> (u32 \<Rightarrow> tMidiOutDev option) \<Rightarrow> u32 \<Rightarrow> u32 \<Rightarrow> u32 res" where
  "find_out 0 h p num = Fail NoFuel"
| "find_out (Suc n) h p num =
     rbind (deref h p) (\<lambda>d. if od_Number d = num then Ok p else if od_next d = 0 then Ok 0 else find_out n h (od_next d) num)"

definition GetMidiOutEntry :: "midi \<Rightarrow> u32 \<Rightarrow> u32 res" where
  "GetMidiOutEntry m num =
     (if pMidiOutDevList m = 0 then Ok 0 else find_out ADDRESSES (out_heap m) (pMidiOutDevList m) num)"

fun find_in :: "nat \<Rightarrow> (u32 \<Rightarrow> tMidiInDev option) \<Rightarrow> u32 \<Rightarrow> u32 \<Rightarrow> u32 res" where
  "find_in 0 h p num = Fail NoFuel"
| "find_in (Suc n) h p num =
     rbind (deref h p) (\<lambda>d. if id_Number d = num then Ok p else if id_next d = 0 then Ok 0 else find_in n h (id_next d) num)"

definition GetMidiInEntry :: "midi \<Rightarrow> u32 \<Rightarrow> u32 res" where
  "GetMidiInEntry m num =
     (if pMidiInDevList m = 0 then Ok 0 else find_in ADDRESSES (in_heap m) (pMidiInDevList m) num)"

section \<open>Messages\<close>

text \<open>The union of a 32-bit word and four bytes, least significant byte first.\<close>

definition pack_msg :: "u8 \<Rightarrow> u8 \<Rightarrow> u8 \<Rightarrow> u8 \<Rightarrow> u32" where
  "pack_msg b0 b1 b2 b3 = ucast b0 OR push_bit 8 (ucast b1) OR push_bit 16 (ucast b2) OR push_bit 24 (ucast b3)"

definition msg_byte :: "u32 \<Rightarrow> nat \<Rightarrow> u8" where
  "msg_byte w i = ucast (drop_bit (8 * i) w)"

definition MidiSend :: "midi \<Rightarrow> u32 \<Rightarrow> u8 \<Rightarrow> u8 \<Rightarrow> u8 \<Rightarrow> (midi \<times> int) res" where
  "MidiSend m dev msg key vel =
     (if dev = 0 then Ok (m, - 1)
      else rbind (deref (out_heap m) dev) (\<lambda>d.
        if od_Handle d = 0 then Ok (m, - 1)
        else Ok (mm_log m (OutShortMsg (od_Handle d) (pack_msg msg (key AND 0x7f) (vel AND 0x7f) 0)), 0)))"

text \<open>The callback for a message of the device that was opened with number \<open>instdat\<close>.\<close>

definition MidiReceive :: "winmm \<Rightarrow> midi \<Rightarrow> u32 \<Rightarrow> u32 \<Rightarrow> midi res" where
  "MidiReceive A m instdat msgpar =
     (let c = msg_byte msgpar 0 in
      if c = NOTEON \<or> c = NOTEOFF \<or> c = CTRL \<or> c = PITCH then
        (let ev = mm_malloc A m in
         if ev = 0 then Ok m
         else
           (let m1 = m\<lparr>ev_heap := (ev_heap m)(ev \<mapsto> \<lparr>ev_event = c, ev_dat1 = msg_byte msgpar 1, ev_dat2 = msg_byte msgpar 2, ev_next = 0\<rparr>)\<rparr>
            in rbind (GetMidiInEntry m1 instdat) (\<lambda>dev. AddMidiInEvent m1 dev ev)))
      else Ok m)"

section \<open>The library functions\<close>

definition answer :: "midi \<Rightarrow> frame \<Rightarrow> int \<Rightarrow> (midi \<times> frame \<times> int) res" where
  "answer m S n = Ok (m, lua_pushnumber S (cast_num n), 1)"

definition plOpenMidiOut :: "winmm \<Rightarrow> midi \<Rightarrow> frame \<Rightarrow> (midi \<times> frame \<times> int) res" where
  "plOpenMidiOut A m S =
     (if lua_gettop S \<noteq> 1 then answer m S (- 1)
      else rbind (luaL_checkinteger S 1) (\<lambda>i. rbind (GetMidiOutEntry m i) (\<lambda>p.
        if p \<noteq> 0 then answer m S (- 2)
        else (case mm_outOpen A m i of
                None \<Rightarrow> answer m S (- 3)
              | Some handle \<Rightarrow>
                  (let tmp = mm_malloc A m in
                   if tmp = 0 then answer m S (- 4)
                   else rbind (AddMidiOut (m\<lparr>out_heap := (out_heap m)(tmp \<mapsto> \<lparr>od_Number = i, od_Handle = handle, od_next = 0\<rparr>)\<rparr>) tmp)
                          (\<lambda>m1. answer m1 S 0))))))"

definition plOpenMidiIn :: "winmm \<Rightarrow> midi \<Rightarrow> frame \<Rightarrow> (midi \<times> frame \<times> int) res" where
  "plOpenMidiIn A m S =
     (if lua_gettop S \<noteq> 1 then answer m S (- 1)
      else rbind (luaL_checkinteger S 1) (\<lambda>i. rbind (GetMidiInEntry m i) (\<lambda>p.
        if p \<noteq> 0 then answer m S (- 2)
        else (case mm_inOpen A m i of
                None \<Rightarrow> answer m S (- 3)
              | Some handle \<Rightarrow>
                  (let tmp = mm_malloc A m in
                   if tmp = 0 then answer (mm_log m (InClose handle)) S (- 4)
                   else rbind (AddMidiIn (m\<lparr>in_heap := (in_heap m)(tmp \<mapsto>
                            \<lparr>id_Number = i, id_Handle = handle, id_events = 0, id_next = 0\<rparr>)\<rparr>) tmp)
                          (\<lambda>m1. answer (mm_log m1 (InStart handle)) S 0))))))"

definition plCloseMidiOut :: "midi \<Rightarrow> frame \<Rightarrow> (midi \<times> frame \<times> int) res" where
  "plCloseMidiOut m S =
     (if lua_gettop S \<noteq> 1 then answer m S (- 1)
      else rbind (luaL_checkinteger S 1) (\<lambda>i. rbind (GetMidiOutEntry m i) (\<lambda>tmp.
        if tmp = 0 then answer m S (- 2)
        else rbind (deref (out_heap m) tmp) (\<lambda>d.
          rbind (RemoveMidiOut (mm_log (mm_log m (OutReset (od_Handle d))) (OutClose (od_Handle d))) tmp) (\<lambda>m1.
            answer m1 S 0)))))"

definition plCloseMidiIn :: "midi \<Rightarrow> frame \<Rightarrow> (midi \<times> frame \<times> int) res" where
  "plCloseMidiIn m S =
     (if lua_gettop S \<noteq> 1 then answer m S (- 1)
      else rbind (luaL_checkinteger S 1) (\<lambda>i. rbind (GetMidiInEntry m i) (\<lambda>tmp.
        if tmp = 0 then answer m S (- 2)
        else rbind (deref (in_heap m) tmp) (\<lambda>d.
          rbind (RemoveMidiIn (mm_log (mm_log m (InReset (id_Handle d))) (InClose (id_Handle d))) tmp) (\<lambda>m1.
            answer m1 S 0)))))"

text \<open>With a wrong number of arguments the function returns \<open>-1\<close>, not the number of results. The
compiler evaluates the arguments of the call of \<open>MidiSend\<close> from the last to the first.\<close>

definition plPlayNote :: "midi \<Rightarrow> frame \<Rightarrow> (midi \<times> frame \<times> int) res" where
  "plPlayNote m S =
     (if lua_gettop S \<noteq> 5 then Ok (m, lua_pushnumber S (cast_num (- 1)), - 1)
      else rbind (luaL_checkinteger S 1) (\<lambda>i. rbind (GetMidiOutEntry m i) (\<lambda>tmp.
        if tmp = 0 then answer m S (- 2)
        else rbind (luaL_checkinteger S 2) (\<lambda>ch.
          if sint ch < 1 \<or> 16 < sint ch then answer m S (- 2)
          else rbind (luaL_checkinteger S 4) (\<lambda>vel. rbind (luaL_checkinteger S 3) (\<lambda>key. rbind (luaL_checkinteger S 5) (\<lambda>st.
            rbind (MidiSend m tmp (ucast (st AND 0xf0) OR ucast (ch - 1)) (ucast key) (ucast vel)) (\<lambda>(m1, r).
              answer m1 S 0))))))))"

definition plCountDevices :: "winmm \<Rightarrow> midi \<Rightarrow> frame \<Rightarrow> (midi \<times> frame \<times> int) res" where
  "plCountDevices A m S =
     (if lua_gettop S \<noteq> 1 then answer m S 0
      else rbind (luaL_checkinteger S 1) (\<lambda>k.
        if k = 0 then answer m S (sint (mm_inNumDevs A))
        else if k = 1 then answer m S (sint (mm_outNumDevs A))
        else answer m S 0))"

definition plGetMidiOutName :: "winmm \<Rightarrow> midi \<Rightarrow> frame \<Rightarrow> (midi \<times> frame \<times> int) res" where
  "plGetMidiOutName A m S =
     (if lua_gettop S \<noteq> 1 then Ok (m, lua_pushnil S, 1)
      else rbind (luaL_checkinteger S 1) (\<lambda>i.
        case mm_outName A i of None \<Rightarrow> Ok (m, lua_pushnil S, 1) | Some s \<Rightarrow> Ok (m, lua_pushstring S s, 1)))"

definition plGetMidiInName :: "winmm \<Rightarrow> midi \<Rightarrow> frame \<Rightarrow> (midi \<times> frame \<times> int) res" where
  "plGetMidiInName A m S =
     (if lua_gettop S \<noteq> 1 then Ok (m, lua_pushnil S, 1)
      else rbind (luaL_checkinteger S 1) (\<lambda>i.
        case mm_inName A i of None \<Rightarrow> Ok (m, lua_pushnil S, 1) | Some s \<Rightarrow> Ok (m, lua_pushstring S s, 1)))"

text \<open>The conversion of a double to \<open>unsigned\<close> (C gives no meaning to a value that does not fit).\<close>

definition cast_unsigned :: "lua_Number \<Rightarrow> u32 res" where
  "cast_unsigned d =
     (if \<not> dbl_isnan d \<and> \<not> dbl_isinf d \<and> 0 \<le> dbl_trunc d \<and> dbl_trunc d < 2 ^ 32
      then Ok (word_of_int (dbl_trunc d))
      else Fail (Undefined ''double out of the range of unsigned''))"

definition event_fields :: "tMidiInEvent \<Rightarrow> int list" where
  "event_fields e = [uint (ev_event e AND 0xf0), uint (ev_event e AND 0x0f) + 1, uint (ev_dat1 e), uint (ev_dat2 e)]"

definition set_field :: "world \<Rightarrow> nat \<times> int \<Rightarrow> lua_State \<Rightarrow> lua_State res" where
  "set_field W = (\<lambda>(i, x) S. lua_settable W (api_push (api_push S (VNum (cast_num (int i)))) (VNum (cast_num x))) (- 3))"

definition plGetEvent :: "world \<Rightarrow> midi \<Rightarrow> lua_State \<Rightarrow> (midi \<times> lua_State \<times> int) res" where
  "plGetEvent W m S =
     (if lua_gettop (L_stack S) \<noteq> 1 then Ok (m, api_push S VNil, 1)
      else rbind (luaL_checknumber (L_stack S) 1) (\<lambda>d. rbind (cast_unsigned d) (\<lambda>num. rbind (GetMidiInEntry m num) (\<lambda>dev.
        rbind (RemoveMidiInEvent m dev) (\<lambda>(m1, ev).
          case ev of
            None \<Rightarrow> Ok (m1, api_push S VNil, 1)
          | Some e \<Rightarrow>
              rbind (lua_createtable W S 4 0) (\<lambda>S1.
              rbind (foldM (set_field W) (zip [1..<5] (event_fields e)) S1) (\<lambda>S2. Ok (m1, S2, 1))))))))"

definition midi_funcs :: "(string \<times> string) list" where
  "midi_funcs =
     [(''OpenMidiOut'', ''plOpenMidiOut''), (''CloseMidiOut'', ''plCloseMidiOut''), (''OpenMidiIn'', ''plOpenMidiIn''),
      (''CloseMidiIn'', ''plCloseMidiIn''), (''GetMidiOutName'', ''plGetMidiOutName''), (''GetMidiInName'', ''plGetMidiInName''),
      (''SendMessage'', ''plPlayNote''), (''GetMessage'', ''plGetEvent''), (''CountDevices'', ''plCountDevices'')]"

text \<open>The printing of the events of a device: the text after the device number.\<close>

definition hex_digits2 :: "u8 \<Rightarrow> string" where
  "hex_digits2 b = [''0123456789abcdef'' ! (unat b div 16), ''0123456789abcdef'' ! (unat b mod 16)]"

fun show_events :: "nat \<Rightarrow> (u32 \<Rightarrow> tMidiInEvent option) \<Rightarrow> u32 \<Rightarrow> string res" where
  "show_events 0 h p = Fail NoFuel"
| "show_events (Suc n) h p =
     (if p = 0 then Ok [CHR 0x0A]
      else rbind (deref h p) (\<lambda>e. rbind (show_events n h (ev_next e)) (\<lambda>s. Ok (hex_digits2 (ev_event e) @ '' '' @ s))))"

definition dbgShowMidiInEventList :: "midi \<Rightarrow> u32 \<Rightarrow> (u32 \<times> string) option res" where
  "dbgShowMidiInEventList m dev =
     (if dev = 0 then Ok None
      else rbind (deref (in_heap m) dev) (\<lambda>d. rbind (show_events ADDRESSES (ev_heap m) (id_events d)) (\<lambda>s.
        Ok (Some (id_Number d, s)))))"

end
