(* ===== verification/ProfiMidiProps.thy ===== *)
theory ProfiMidiProps
  imports ProfiMidi
begin

text \<open>
  Properties of profimidi.c: the lists on the heap and the invariant that every sequence of
  library calls and driver callbacks keeps, the queue of received messages against the
  interface of a first-in first-out queue, what opening and closing a device does, and the
  bytes of a message that is sent.
\<close>

section \<open>Linked lists\<close>

lemma chain_null [simp]: "chain h 0 as \<longleftrightarrow> as = []"
  by (cases as) auto

lemma chain_unique: "chain h p as \<Longrightarrow> chain h p bs \<Longrightarrow> as = bs"
proof (induction as arbitrary: p bs)
  case (Cons a as)
  then show ?case by (cases bs) auto
qed simp

lemma chain_nonzero: "chain h p as \<Longrightarrow> 0 \<notin> set as"
  by (induction as arbitrary: p) auto

lemma chain_dom: "chain h p as \<Longrightarrow> a \<in> set as \<Longrightarrow> \<exists>q. h a = Some q"
  by (induction as arbitrary: p) auto

lemma chain_suffix: "chain h p (as @ a # bs) \<Longrightarrow> chain h a (a # bs)"
  by (induction as arbitrary: p) auto

lemma chain_distinct: "chain h p as \<Longrightarrow> distinct as"
proof (induction as arbitrary: p)
  case (Cons a as)
  then obtain q where q: "h a = Some q" "chain h q as" by auto
  have "a \<notin> set as"
  proof
    assume "a \<in> set as"
    then obtain bs cs where "as = bs @ a # cs" by (meson split_list)
    then have "chain h a (a # cs)" using chain_suffix q(2) by blast
    then have "chain h q cs" using q(1) by simp
    then have "cs = as" using chain_unique q(2) by blast
    then show False using \<open>as = bs @ a # cs\<close> by simp
  qed
  then show ?case using Cons.IH q(2) by simp
qed simp

lemma chain_length:
  assumes "chain h p as"
  shows "length as < ADDRESSES"
proof -
  have "set as \<subseteq> UNIV - {0}" using chain_nonzero [OF assms] by auto
  then have "card (set as) \<le> card (UNIV - {0 :: u32})" by (rule card_mono [rotated]) simp
  also have "\<dots> < card (UNIV :: u32 set)" by (rule psubset_card_mono) auto
  also have "\<dots> = ADDRESSES" by (simp add: card_word ADDRESSES_def)
  finally show ?thesis using distinct_card [OF chain_distinct [OF assms]] by simp
qed

lemma collect_chain: "chain h p as \<Longrightarrow> length as < n \<Longrightarrow> collect n h p = as"
proof (induction n arbitrary: p as)
  case (Suc n)
  then show ?case by (cases as) auto
qed simp

lemma collect_eq: "chain h p as \<Longrightarrow> collect ADDRESSES h p = as"
  by (rule collect_chain) (auto dest: chain_length)

lemma chain_upd [simp]: "a \<notin> set as \<Longrightarrow> chain (h(a := x)) p as = chain h p as"
  by (induction as arbitrary: p) auto

lemma chain_cong: "(\<And>a. a \<in> set as \<Longrightarrow> h a = h' a) \<Longrightarrow> chain h p as = chain h' p as"
  by (induction as arbitrary: p) auto

text \<open>Removing an inner record: its predecessor takes over its \<open>next\<close> pointer.\<close>

lemma chain_unlink:
  assumes "chain h p (as @ b # t # cs)"
  shows "chain (h(b := h t)) p (as @ b # cs)"
proof -
  have d: "b \<notin> set as" "b \<notin> set cs" "t \<noteq> b" using chain_distinct [OF assms] by auto
  from assms d show ?thesis
  proof (induction as arbitrary: p)
    case (Cons a as)
    then obtain q where q: "p = a" "a \<noteq> 0" "h a = Some q" "chain h q (as @ b # t # cs)" by auto
    then have "chain (h(b := h t)) q (as @ b # cs)" using Cons by (intro Cons.IH) auto
    moreover have "a \<noteq> b" using Cons.prems(2) by auto
    ultimately show ?case using q by (simp del: fun_upd_apply add: fun_upd_other)
  qed auto
qed

lemma chain_last: "chain h p (as @ [t]) \<Longrightarrow> h t = Some 0"
  using chain_suffix [of h p as t "[]"] by simp

lemma chain_cut: "chain h p (as @ [b, t]) \<Longrightarrow> chain (h(b := Some 0)) p (as @ [b])"
  using chain_unlink [of h p as b t "[]"] chain_last [of h p "as @ [b]" t] by simp

section \<open>The state\<close>

abbreviation out_nx :: "midi \<Rightarrow> u32 \<Rightarrow> u32 option" where "out_nx m p \<equiv> map_option od_next (out_heap m p)"
abbreviation in_nx :: "midi \<Rightarrow> u32 \<Rightarrow> u32 option" where "in_nx m p \<equiv> map_option id_next (in_heap m p)"
abbreviation ev_nx :: "midi \<Rightarrow> u32 \<Rightarrow> u32 option" where "ev_nx m p \<equiv> map_option ev_next (ev_heap m p)"

definition out_num :: "midi \<Rightarrow> u32 \<Rightarrow> u32 option" where "out_num m p = map_option od_Number (out_heap m p)"
definition in_num :: "midi \<Rightarrow> u32 \<Rightarrow> u32 option" where "in_num m p = map_option id_Number (in_heap m p)"
definition in_first :: "midi \<Rightarrow> u32 \<Rightarrow> u32 option" where "in_first m p = map_option id_events (in_heap m p)"

type_synonym message = "u8 \<times> u8 \<times> u8"

definition ev_msg :: "tMidiInEvent \<Rightarrow> message" where "ev_msg e = (ev_event e, ev_dat1 e, ev_dat2 e)"

text \<open>The lists that the state represents: the open devices and, for each input device, its events
(newest first).\<close>

definition outs :: "midi \<Rightarrow> u32 list" where "outs m = collect ADDRESSES (out_nx m) (pMidiOutDevList m)"
definition ins :: "midi \<Rightarrow> u32 list" where "ins m = collect ADDRESSES (in_nx m) (pMidiInDevList m)"
definition evs :: "midi \<Rightarrow> u32 \<Rightarrow> u32 list" where
  "evs m d = (case in_first m d of None \<Rightarrow> [] | Some p \<Rightarrow> collect ADDRESSES (ev_nx m) p)"

text \<open>The messages that wait at an input device, oldest first.\<close>

definition pending :: "midi \<Rightarrow> u32 \<Rightarrow> message list" where
  "pending m d = rev (map (\<lambda>p. case ev_heap m p of None \<Rightarrow> (0, 0, 0) | Some e \<Rightarrow> ev_msg e) (evs m d))"

definition ev_lists :: "midi \<Rightarrow> u32 set \<Rightarrow> (u32 \<Rightarrow> u32 list) \<Rightarrow> bool" where
  "ev_lists m D es \<longleftrightarrow> 0 \<notin> D \<and> (\<forall>d\<in>D. \<exists>p. in_first m d = Some p \<and> chain (ev_nx m) p (es d)) \<and>
     (\<forall>d\<in>D. \<forall>d'\<in>D. d \<noteq> d' \<longrightarrow> set (es d) \<inter> set (es d') = {})"

definition midi_lists :: "midi \<Rightarrow> u32 list \<Rightarrow> u32 list \<Rightarrow> (u32 \<Rightarrow> u32 list) \<Rightarrow> bool" where
  "midi_lists m os is es \<longleftrightarrow>
     chain (out_nx m) (pMidiOutDevList m) os \<and> distinct (map (out_num m) os) \<and>
     chain (in_nx m) (pMidiInDevList m) is \<and> distinct (map (in_num m) is) \<and>
     ev_lists m (set is) es"

text \<open>The invariant: all lists end, no device number is open twice, and no event is in the lists of
two devices.\<close>

definition midi_inv :: "midi \<Rightarrow> bool" where
  "midi_inv m \<longleftrightarrow> midi_lists m (outs m) (ins m) (evs m)"

lemma midi_lists_eq:
  assumes "midi_lists m os is es"
  shows "outs m = os" "ins m = is" "d \<in> set is \<Longrightarrow> evs m d = es d"
  using assms unfolding midi_lists_def ev_lists_def outs_def ins_def evs_def
  by (auto simp: collect_eq)

lemma midi_lists_inv:
  assumes "midi_lists m os is es"
  shows "midi_inv m"
  using assms midi_lists_eq [OF assms] unfolding midi_inv_def midi_lists_def ev_lists_def by auto

section \<open>The events of a device\<close>

text \<open>Operations that keep the devices and the contents of the events.\<close>

definition same_devices :: "midi \<Rightarrow> midi \<Rightarrow> bool" where
  "same_devices m m' \<longleftrightarrow> out_heap m' = out_heap m \<and> pMidiOutDevList m' = pMidiOutDevList m \<and>
     pMidiInDevList m' = pMidiInDevList m \<and> in_nx m' = in_nx m \<and> in_num m' = in_num m \<and> mm_calls m' = mm_calls m"

lemma same_devices_refl [simp]: "same_devices m m" by (simp add: same_devices_def)

lemma same_devices_trans: "same_devices m m' \<Longrightarrow> same_devices m' m'' \<Longrightarrow> same_devices m m''"
  by (simp add: same_devices_def)

lemma midi_lists_devices:
  assumes "midi_lists m os is es" "same_devices m m'" "ev_lists m' (set is) es'"
  shows "midi_lists m' os is es'"
proof -
  have "out_num m' = out_num m" using assms(2) by (simp add: same_devices_def out_num_def fun_eq_iff)
  then show ?thesis using assms unfolding midi_lists_def same_devices_def by simp
qed

lemma AddMidiInEvent_ok:
  assumes m: "ev_lists m D es" and d: "d \<in> D" and a: "a \<noteq> 0" "ev_heap m a = Some e" "\<forall>d\<in>D. a \<notin> set (es d)"
  shows "\<exists>m'. AddMidiInEvent m d a = Ok m' \<and> ev_lists m' D (es(d := a # es d)) \<and> same_devices m m' \<and>
    (\<forall>x. map_option ev_msg (ev_heap m' x) = map_option ev_msg (ev_heap m x))"
proof -
  have d0: "d \<noteq> 0" using m d unfolding ev_lists_def by blast
  obtain p where p: "in_first m d = Some p" "chain (ev_nx m) p (es d)" using m d unfolding ev_lists_def by blast
  then obtain x where x: "in_heap m d = Some x" "id_events x = p" by (auto simp: in_first_def)
  let ?m = "m\<lparr>ev_heap := (ev_heap m)(a \<mapsto> e\<lparr>ev_next := p\<rparr>), in_heap := (in_heap m)(d \<mapsto> x\<lparr>id_events := a\<rparr>)\<rparr>"
  have r: "AddMidiInEvent m d a = Ok ?m" using d0 a x by (simp add: AddMidiInEvent_def deref_def)
  have nx: "ev_nx ?m = (ev_nx m)(a := Some p)" by (simp add: fun_eq_iff)
  have fst: "in_first ?m = (in_first m)(d := Some a)" by (simp add: in_first_def fun_eq_iff)
  have sd: "same_devices m ?m" using x by (simp add: same_devices_def in_num_def fun_eq_iff)
  have "ev_lists ?m D (es(d := a # es d))"
  unfolding ev_lists_def
  proof (intro conjI ballI impI)
    show "0 \<notin> D" using m unfolding ev_lists_def by blast
  next
    fix d' assume d': "d' \<in> D"
    then obtain p' where p': "in_first m d' = Some p'" "chain (ev_nx m) p' (es d')" using m unfolding ev_lists_def by blast
    show "\<exists>p. in_first ?m d' = Some p \<and> chain (ev_nx ?m) p ((es(d := a # es d)) d')"
      unfolding nx fst using p p' a d' by auto
  next
    fix d1 d2 assume "d1 \<in> D" "d2 \<in> D" "d1 \<noteq> d2"
    then show "set ((es(d := a # es d)) d1) \<inter> set ((es(d := a # es d)) d2) = {}"
      using m a d unfolding ev_lists_def by auto
  qed
  moreover have "map_option ev_msg (ev_heap ?m x) = map_option ev_msg (ev_heap m x)" for x
    using a by (simp add: ev_msg_def)
  ultimately show ?thesis using r sd by blast
qed

lemma last_event_ok:
  "chain (\<lambda>p. map_option ev_next (h p)) p (as @ [a]) \<Longrightarrow> length as < n \<Longrightarrow>
   last_event n h pprev p = Ok (if as = [] then pprev else last as, a)"
proof (induction n arbitrary: as p pprev)
  case (Suc n)
  show ?case
  proof (cases as)
    case Nil
    then show ?thesis using Suc.prems by (auto simp: deref_def)
  next
    case (Cons b bs)
    then obtain q e where q: "p = b" "h b = Some e" "ev_next e = q" "chain (\<lambda>p. map_option ev_next (h p)) q (bs @ [a])"
      using Suc.prems(1) by auto
    then have "q \<noteq> 0" by auto
    then show ?thesis using Suc.IH [OF q(4), of b] Suc.prems(2) q Cons by (simp add: deref_def)
  qed
qed simp

lemma RemoveMidiInEvent_empty:
  assumes "ev_lists m D es" "d \<in> D" "es d = []"
  shows "RemoveMidiInEvent m d = Ok (m, None)"
proof -
  have "in_first m d = Some 0" using assms unfolding ev_lists_def by auto
  moreover have "d \<noteq> 0" using assms(1,2) unfolding ev_lists_def by blast
  ultimately show ?thesis by (auto simp: RemoveMidiInEvent_def in_first_def deref_def)
qed

lemma RemoveMidiInEvent_last:
  assumes m: "ev_lists m D es" and d: "d \<in> D" and a: "es d = as @ [a]"
  shows "\<exists>m' e e0. RemoveMidiInEvent m d = Ok (m', Some e) \<and> ev_lists m' D (es(d := as)) \<and> same_devices m m' \<and>
    ev_heap m a = Some e0 \<and> ev_msg e = ev_msg e0 \<and> ev_heap m' a = None \<and>
    (\<forall>x. x \<noteq> a \<longrightarrow> map_option ev_msg (ev_heap m' x) = map_option ev_msg (ev_heap m x))"
proof -
  have d0: "d \<noteq> 0" using m d unfolding ev_lists_def by blast
  obtain p where p: "in_first m d = Some p" "chain (ev_nx m) p (as @ [a])" using m d a unfolding ev_lists_def by metis
  obtain x where x: "in_heap m d = Some x" "id_events x = p" using p(1) by (auto simp: in_first_def)
  have p0: "p \<noteq> 0" using p(2) by auto
  have len: "length as < ADDRESSES" using chain_length [OF p(2)] by simp
  obtain e0 where e0: "ev_heap m a = Some e0" using chain_dom [OF p(2), of a] by auto
  have dj: "d' \<in> D \<Longrightarrow> d' \<noteq> d \<Longrightarrow> set (es d') \<inter> set (as @ [a]) = {}" for d'
    using m d a unfolding ev_lists_def by metis
  have di: "distinct (as @ [a])" by (rule chain_distinct [OF p(2)])
  define m1 where "m1 = (if as = [] then m\<lparr>in_heap := (in_heap m)(d \<mapsto> x\<lparr>id_events := 0\<rparr>)\<rparr>
    else m\<lparr>ev_heap := (ev_heap m)(last as \<mapsto> the (ev_heap m (last as))\<lparr>ev_next := 0\<rparr>)\<rparr>)"
  have a1: "ev_heap m1 a = Some e0" using di e0 by (cases as rule: rev_cases) (auto simp: m1_def)
  let ?m = "m1\<lparr>ev_heap := (ev_heap m1)(a := None)\<rparr>"
  have le: "last as \<in> set as" if "as \<noteq> []" using that by simp
  have dl: "deref (ev_heap m) (last as) = Ok (the (ev_heap m (last as)))" if "as \<noteq> []"
    using chain_dom [OF p(2), of "last as"] le [OF that] by (auto simp: deref_def)
  have n0: "last as \<noteq> 0" if "as \<noteq> []" using chain_nonzero [OF p(2)] le [OF that] by auto
  have r: "RemoveMidiInEvent m d = Ok (?m, Some (e0\<lparr>ev_next := 0\<rparr>))"
    using d0 x p0 last_event_ok [OF p(2) len, of 0] a1 dl n0
    by (cases "as = []") (simp_all add: RemoveMidiInEvent_def deref_def m1_def)
  have sd: "same_devices m ?m" using x by (auto simp: m1_def same_devices_def in_num_def fun_eq_iff)
  have nx: "ev_nx ?m = (if as = [] then ev_nx m else (ev_nx m)(last as := Some 0))(a := None)"
    by (auto simp: m1_def fun_eq_iff)
  have fst: "in_first ?m = (if as = [] then (in_first m)(d := Some 0) else in_first m)"
    by (auto simp: m1_def in_first_def fun_eq_iff)
  have "ev_lists ?m D (es(d := as))"
  unfolding ev_lists_def
  proof (intro conjI ballI impI)
    show "0 \<notin> D" using m unfolding ev_lists_def by blast
  next
    fix d' assume d': "d' \<in> D"
    then obtain p' where p': "in_first m d' = Some p'" "chain (ev_nx m) p' (es d')" using m unfolding ev_lists_def by blast
    show "\<exists>p. in_first ?m d' = Some p \<and> chain (ev_nx ?m) p ((es(d := as)) d')"
    proof (cases "d' = d")
      case True
      have "chain (ev_nx ?m) p as" if ne: "as \<noteq> []"
      proof -
        obtain bs b where b: "as = bs @ [b]" using ne by (cases as rule: rev_cases) auto
        have "chain ((ev_nx m)(b := Some 0)) p (bs @ [b])" using chain_cut [of "ev_nx m" p bs b a] p(2) b by simp
        moreover have "a \<notin> set (bs @ [b])" using di b by auto
        ultimately show ?thesis unfolding nx using b by simp
      qed
      then show ?thesis unfolding fst using p True by (cases "as = []") auto
    next
      case False
      have n: "a \<notin> set (es d')" "as \<noteq> [] \<Longrightarrow> last as \<notin> set (es d')" using dj [OF d' False] le by auto
      have "chain (ev_nx ?m) p' (es d')" unfolding nx using p'(2) n by (cases "as = []") simp_all
      then show ?thesis unfolding fst using p'(1) False by auto
    qed
  next
    fix d1 d2 assume "d1 \<in> D" "d2 \<in> D" "d1 \<noteq> d2"
    then show "set ((es(d := as)) d1) \<inter> set ((es(d := as)) d2) = {}"
      using m a d dj unfolding ev_lists_def by auto
  qed
  moreover have "map_option ev_msg (ev_heap ?m y) = map_option ev_msg (ev_heap m y)" if "y \<noteq> a" for y
    using that chain_dom [OF p(2), of "last as"] le by (auto simp: m1_def ev_msg_def)
  moreover have "ev_msg (e0\<lparr>ev_next := 0\<rparr>) = ev_msg e0" "ev_heap ?m a = None" by (simp_all add: ev_msg_def)
  ultimately show ?thesis using r sd e0 by blast
qed

section \<open>The lists of devices\<close>

definition entry :: "(u32 \<Rightarrow> u32 option) \<Rightarrow> u32 list \<Rightarrow> u32 \<Rightarrow> u32" where
  "entry num ds n = (case List.find (\<lambda>d. num d = Some n) ds of None \<Rightarrow> 0 | Some d \<Rightarrow> d)"

lemma entry_simps [simp]:
  "entry num [] n = 0" "entry num (d # ds) n = (if num d = Some n then d else entry num ds n)"
  by (simp_all add: entry_def)

lemma entry_in: "0 \<notin> set ds \<Longrightarrow> entry num ds n \<noteq> 0 \<longleftrightarrow> Some n \<in> num ` set ds"
  by (induction ds) auto

lemma entry_neq: "entry num ds n \<noteq> 0 \<Longrightarrow> entry num ds n \<in> set ds \<and> num (entry num ds n) = Some n"
  by (induction ds) (auto split: if_splits)

lemma find_in_ok:
  "chain (\<lambda>p. map_option id_next (h p)) p ds \<Longrightarrow> ds \<noteq> [] \<Longrightarrow> length ds < n \<Longrightarrow>
   find_in n h p num = Ok (entry (\<lambda>p. map_option id_Number (h p)) ds num)"
proof (induction n arbitrary: p ds)
  case (Suc n)
  obtain d ds' x where d: "ds = d # ds'" "p = d" "h d = Some x" "chain (\<lambda>p. map_option id_next (h p)) (id_next x) ds'"
    using Suc.prems by (cases ds) auto
  show ?case using Suc.IH [OF d(4)] Suc.prems d by (cases ds') (auto simp: deref_def)
qed simp

lemma find_out_ok:
  "chain (\<lambda>p. map_option od_next (h p)) p ds \<Longrightarrow> ds \<noteq> [] \<Longrightarrow> length ds < n \<Longrightarrow>
   find_out n h p num = Ok (entry (\<lambda>p. map_option od_Number (h p)) ds num)"
proof (induction n arbitrary: p ds)
  case (Suc n)
  obtain d ds' x where d: "ds = d # ds'" "p = d" "h d = Some x" "chain (\<lambda>p. map_option od_next (h p)) (od_next x) ds'"
    using Suc.prems by (cases ds) auto
  show ?case using Suc.IH [OF d(4)] Suc.prems d by (cases ds') (auto simp: deref_def)
qed simp

lemma GetMidiInEntry_ok:
  assumes "midi_lists m os is es"
  shows "GetMidiInEntry m n = Ok (entry (in_num m) is n)"
proof -
  have c: "chain (in_nx m) (pMidiInDevList m) is" using assms by (simp add: midi_lists_def)
  have e: "in_num m = (\<lambda>p. map_option id_Number (in_heap m p))" by (simp add: in_num_def fun_eq_iff)
  show ?thesis unfolding e
    using find_in_ok [OF c _ chain_length [OF c], of n] c by (cases "is") (auto simp: GetMidiInEntry_def)
qed

lemma GetMidiOutEntry_ok:
  assumes "midi_lists m os is es"
  shows "GetMidiOutEntry m n = Ok (entry (out_num m) os n)"
proof -
  have c: "chain (out_nx m) (pMidiOutDevList m) os" using assms by (simp add: midi_lists_def)
  have e: "out_num m = (\<lambda>p. map_option od_Number (out_heap m p))" by (simp add: out_num_def fun_eq_iff)
  show ?thesis unfolding e
    using find_out_ok [OF c _ chain_length [OF c], of n] c by (cases "os") (auto simp: GetMidiOutEntry_def)
qed

lemma unlink_in_ok:
  "chain (\<lambda>p. map_option id_next (h p)) p (as @ b # t # cs) \<Longrightarrow> length as < n \<Longrightarrow>
   unlink_in n h p t nxt = Ok (h(b \<mapsto> the (h b)\<lparr>id_next := nxt\<rparr>))"
proof (induction n arbitrary: p as)
  case (Suc n)
  show ?case
  proof (cases as)
    case Nil
    then show ?thesis using Suc.prems by (auto simp: deref_def fun_eq_iff)
  next
    case (Cons a as')
    then obtain x where x: "p = a" "a \<noteq> 0" "h a = Some x" "chain (\<lambda>p. map_option id_next (h p)) (id_next x) (as' @ b # t # cs)"
      using Suc.prems(1) by auto
    have "id_next x \<noteq> t"
      using x(4) chain_distinct [OF x(4)] by (cases as') auto
    then show ?thesis using Suc.IH [OF x(4)] Suc.prems(2) x Cons by (simp add: deref_def)
  qed
qed simp

lemma unlink_out_ok:
  "chain (\<lambda>p. map_option od_next (h p)) p (as @ b # t # cs) \<Longrightarrow> length as < n \<Longrightarrow>
   unlink_out n h p t nxt = Ok (h(b \<mapsto> the (h b)\<lparr>od_next := nxt\<rparr>))"
proof (induction n arbitrary: p as)
  case (Suc n)
  show ?case
  proof (cases as)
    case Nil
    then show ?thesis using Suc.prems by (auto simp: deref_def fun_eq_iff)
  next
    case (Cons a as')
    then obtain x where x: "p = a" "a \<noteq> 0" "h a = Some x" "chain (\<lambda>p. map_option od_next (h p)) (od_next x) (as' @ b # t # cs)"
      using Suc.prems(1) by auto
    have "od_next x \<noteq> t"
      using x(4) chain_distinct [OF x(4)] by (cases as') auto
    then show ?thesis using Suc.IH [OF x(4)] Suc.prems(2) x Cons by (simp add: deref_def)
  qed
qed simp

text \<open>Closing an output device takes it out of the list and frees it.\<close>

lemma chain_remove1:
  assumes c: "chain h p ds" and t: "t \<in> set ds"
  shows "(p = t \<and> ds = t # remove1 t ds \<and> (\<exists>q. h t = Some q \<and> chain h q (remove1 t ds))) \<or>
    (\<exists>as b cs. p \<noteq> t \<and> ds = as @ b # t # cs \<and> b \<noteq> t \<and> remove1 t ds = as @ b # cs \<and> chain (h(b := h t)) p (as @ b # cs))"
proof -
  obtain as cs where ds: "ds = as @ t # cs" by (meson split_list t)
  have di: "distinct ds" by (rule chain_distinct [OF c])
  have r: "remove1 t ds = as @ cs" using di ds by (simp add: remove1_append)
  show ?thesis
  proof (cases as rule: rev_cases)
    case Nil
    then show ?thesis using c ds r by auto
  next
    case (snoc bs b)
    have "p \<noteq> t" using c ds snoc di by (cases bs) auto
    moreover have "chain (h(b := h t)) p (bs @ b # cs)" using chain_unlink [of h p bs b t cs] c ds snoc by simp
    ultimately show ?thesis using ds snoc r di by (intro disjI2 exI [of _ bs] exI [of _ b] exI [of _ cs]) auto
  qed
qed

lemma RemoveMidiOut_ok:
  assumes m: "midi_lists m os is es" and t: "t \<in> set os"
  shows "\<exists>m'. RemoveMidiOut m t = Ok m' \<and> midi_lists m' (remove1 t os) is es \<and> out_heap m' t = None \<and>
    (\<forall>d. d \<noteq> t \<longrightarrow> out_num m' d = out_num m d) \<and> in_heap m' = in_heap m \<and> ev_heap m' = ev_heap m \<and> mm_calls m' = mm_calls m"
proof -
  have c: "chain (out_nx m) (pMidiOutDevList m) os" using m by (simp add: midi_lists_def)
  have t0: "t \<noteq> 0" using chain_nonzero [OF c] t by auto
  obtain x where x: "out_heap m t = Some x" using chain_dom [OF c t] by auto
  have di: "distinct os" by (rule chain_distinct [OF c])
  have rest: "midi_lists m' os' is es" if "chain (out_nx m') (pMidiOutDevList m') os'" "distinct (map (out_num m') os')"
    "in_heap m' = in_heap m" "ev_heap m' = ev_heap m" "pMidiInDevList m' = pMidiInDevList m" for m' os'
  proof -
    have "in_num m' = in_num m" "in_first m' = in_first m" using that(3) by (simp_all add: in_num_def in_first_def fun_eq_iff)
    then show ?thesis using m that unfolding midi_lists_def ev_lists_def by simp
  qed
  have dn: "distinct (map (out_num m') (remove1 t os))" if "\<forall>d. d \<noteq> t \<longrightarrow> out_num m' d = out_num m d" for m'
  proof -
    have "map (out_num m') (remove1 t os) = map (out_num m) (remove1 t os)"
      using that di by (intro map_cong) auto
    then show ?thesis using m distinct_map di by (metis distinct_remove1 inj_on_subset midi_lists_def set_remove1_subset)
  qed
  from chain_remove1 [OF c t] show ?thesis
  proof (elim disjE exE conjE)
    fix q assume p: "pMidiOutDevList m = t" "out_nx m t = Some q" "chain (out_nx m) q (remove1 t os)"
    let ?m = "m\<lparr>pMidiOutDevList := od_next x, out_heap := (out_heap m)(t := None)\<rparr>"
    have nx: "out_nx ?m = (out_nx m)(t := None)" by (simp add: fun_eq_iff)
    have "chain (out_nx ?m) q (remove1 t os)" unfolding nx using p(3) di by simp
    moreover have nm: "\<forall>d. d \<noteq> t \<longrightarrow> out_num ?m d = out_num m d" by (simp add: out_num_def)
    ultimately have "midi_lists ?m (remove1 t os) is es" using rest [of ?m "remove1 t os"] dn [OF nm] p(2) x by simp
    moreover have "RemoveMidiOut m t = Ok ?m" using t0 x p(1) by (simp add: RemoveMidiOut_def deref_def)
    ultimately show ?thesis using nm by auto
  next
    fix as b cs assume p: "pMidiOutDevList m \<noteq> t" "os = as @ b # t # cs" "b \<noteq> t" "remove1 t os = as @ b # cs"
      "chain ((out_nx m)(b := out_nx m t)) (pMidiOutDevList m) (as @ b # cs)"
    obtain y where y: "out_heap m b = Some y" using chain_dom [OF c, of b] p(2) by auto
    have len: "length as < ADDRESSES" using chain_length [OF c] p(2) by simp
    let ?m = "m\<lparr>out_heap := ((out_heap m)(b \<mapsto> y\<lparr>od_next := od_next x\<rparr>))(t := None)\<rparr>"
    have nx: "out_nx ?m = ((out_nx m)(b := out_nx m t))(t := None)" using x p(3) by (simp add: fun_eq_iff)
    have tn: "t \<notin> set (as @ b # cs)" using di p(4) by (metis DiffE distinct_remove1 set_remove1_eq singletonI)
    have "chain (out_nx ?m) (pMidiOutDevList ?m) (as @ b # cs)" unfolding nx using chain_upd [OF tn] p(5) by simp
    moreover have nm: "\<forall>d. d \<noteq> t \<longrightarrow> out_num ?m d = out_num m d" using y by (simp add: out_num_def)
    ultimately have "midi_lists ?m (remove1 t os) is es" using rest [of ?m "remove1 t os"] dn [OF nm] p(4) by simp
    moreover have "RemoveMidiOut m t = Ok ?m"
      using t0 x y p(1,2) unlink_out_ok [of "out_heap m" "pMidiOutDevList m" as b t cs ADDRESSES "od_next x"] c len
      by (simp add: RemoveMidiOut_def deref_def)
    ultimately show ?thesis using nm by auto
  qed
qed

lemma clear_events_ok:
  "ev_lists m D es \<Longrightarrow> d \<in> D \<Longrightarrow> length (es d) < n \<Longrightarrow>
   \<exists>m'. clear_events n m d = Ok m' \<and> ev_lists m' D (es(d := [])) \<and> same_devices m m' \<and>
     (\<forall>x\<in>set (es d). ev_heap m' x = None) \<and>
     (\<forall>x. x \<notin> set (es d) \<longrightarrow> map_option ev_msg (ev_heap m' x) = map_option ev_msg (ev_heap m x))"
proof (induction n arbitrary: m es)
  case (Suc n)
  show ?case
  proof (cases "es d" rule: rev_cases)
    case Nil
    then have "es(d := []) = es" by auto
    then show ?thesis using RemoveMidiInEvent_empty [OF Suc.prems(1,2) Nil] Suc.prems(1) Nil by simp
  next
    case (snoc as a)
    obtain m1 e where m1: "RemoveMidiInEvent m d = Ok (m1, Some e)" "ev_lists m1 D (es(d := as))" "same_devices m m1"
      "ev_heap m1 a = None" "\<forall>x. x \<noteq> a \<longrightarrow> map_option ev_msg (ev_heap m1 x) = map_option ev_msg (ev_heap m x)"
      using RemoveMidiInEvent_last [OF Suc.prems(1,2) snoc] by blast
    have "length ((es(d := as)) d) < n" using Suc.prems(3) snoc by simp
    from Suc.IH [OF m1(2) Suc.prems(2) this] obtain m2 where m2: "clear_events n m1 d = Ok m2" "ev_lists m2 D (es(d := []))"
      "same_devices m1 m2" "\<forall>x\<in>set as. ev_heap m2 x = None"
      "\<forall>x. x \<notin> set as \<longrightarrow> map_option ev_msg (ev_heap m2 x) = map_option ev_msg (ev_heap m1 x)"
      unfolding fun_upd_upd fun_upd_same by blast
    have "a \<notin> set as \<Longrightarrow> ev_heap m2 a = None" using m2(5) m1(4) by (metis option.map_disc_iff)
    then have "ev_heap m2 x = None" if "x \<in> set (es d)" for x using that snoc m2(4) by (cases "x \<in> set as") auto
    moreover have "map_option ev_msg (ev_heap m2 x) = map_option ev_msg (ev_heap m x)" if "x \<notin> set (es d)" for x
      using that snoc m2(5) m1(5) by simp
    ultimately show ?thesis using m1(1) m2(1,2) same_devices_trans [OF m1(3) m2(3)]
      by (intro exI [of _ m2]) (simp del: fun_upd_apply)
  qed
qed simp

lemma ev_lists_subset:
  assumes "ev_lists m D es'" "D' \<subseteq> D" "\<And>d. d \<in> D' \<Longrightarrow> es' d = es d" "\<And>d. d \<in> D' \<Longrightarrow> in_first m' d = in_first m d"
    and "ev_heap m' = ev_heap m"
  shows "ev_lists m' D' es"
proof -
  have "\<exists>p. in_first m' d = Some p \<and> chain (ev_nx m') p (es d)" if "d \<in> D'" for d
    using assms(1) subsetD [OF assms(2) that] assms(3,4) [OF that] assms(5) unfolding ev_lists_def by metis
  moreover have "set (es d) \<inter> set (es d') = {}" if "d \<in> D'" "d' \<in> D'" "d \<noteq> d'" for d d'
    using assms(1) subsetD [OF assms(2)] assms(3) that unfolding ev_lists_def by metis
  ultimately show ?thesis using assms(1,2) unfolding ev_lists_def by blast
qed

lemma RemoveMidiIn_ok:
  assumes m: "midi_lists m os is es" and t: "t \<in> set is"
  shows "\<exists>m'. RemoveMidiIn m t = Ok m' \<and> midi_lists m' os (remove1 t is) es \<and> in_heap m' t = None \<and>
    (\<forall>d. d \<noteq> t \<longrightarrow> in_num m' d = in_num m d) \<and> out_heap m' = out_heap m \<and> mm_calls m' = mm_calls m \<and>
    (\<forall>x\<in>set (es t). ev_heap m' x = None) \<and>
    (\<forall>x. x \<notin> set (es t) \<longrightarrow> map_option ev_msg (ev_heap m' x) = map_option ev_msg (ev_heap m x))"
proof -
  have c: "chain (in_nx m) (pMidiInDevList m) is" using m by (simp add: midi_lists_def)
  have t0: "t \<noteq> 0" using chain_nonzero [OF c] t by auto
  obtain x where x: "in_heap m t = Some x" using chain_dom [OF c t] by auto
  have di: "distinct is" by (rule chain_distinct [OF c])
  have "\<exists>m1. (if pMidiInDevList m = t then Ok (m\<lparr>pMidiInDevList := id_next x\<rparr>)
               else rbind (unlink_in ADDRESSES (in_heap m) (pMidiInDevList m) t (id_next x)) (\<lambda>h. Ok (m\<lparr>in_heap := h\<rparr>))) = Ok m1 \<and>
      chain ((in_nx m1)(t := None)) (pMidiInDevList m1) (remove1 t is) \<and> in_num m1 = in_num m \<and> in_first m1 = in_first m \<and>
      out_heap m1 = out_heap m \<and> pMidiOutDevList m1 = pMidiOutDevList m \<and> ev_heap m1 = ev_heap m \<and> mm_calls m1 = mm_calls m"
    using chain_remove1 [OF c t]
  proof (elim disjE exE conjE)
    fix q assume p: "pMidiInDevList m = t" "in_nx m t = Some q" "chain (in_nx m) q (remove1 t is)"
    have "chain ((in_nx m)(t := None)) q (remove1 t is)" using p(3) di by simp
    then show ?thesis using p(1,2) x by (auto simp: in_num_def in_first_def)
  next
    fix as b cs assume p: "pMidiInDevList m \<noteq> t" "is = as @ b # t # cs" "b \<noteq> t" "remove1 t is = as @ b # cs"
      "chain ((in_nx m)(b := in_nx m t)) (pMidiInDevList m) (as @ b # cs)"
    obtain y where y: "in_heap m b = Some y" using chain_dom [OF c, of b] p(2) by auto
    have len: "length as < ADDRESSES" using chain_length [OF c] p(2) by simp
    let ?m = "m\<lparr>in_heap := (in_heap m)(b \<mapsto> y\<lparr>id_next := id_next x\<rparr>)\<rparr>"
    have nx: "in_nx ?m = (in_nx m)(b := in_nx m t)" using x by (simp add: fun_eq_iff)
    have tn: "t \<notin> set (as @ b # cs)" using di p(4) by (metis DiffE distinct_remove1 set_remove1_eq singletonI)
    have "chain ((in_nx ?m)(t := None)) (pMidiInDevList ?m) (remove1 t is)" unfolding nx using chain_upd [OF tn] p(4,5) by simp
    moreover have "in_num ?m = in_num m" "in_first ?m = in_first m" using y by (simp_all add: in_num_def in_first_def fun_eq_iff)
    moreover have "unlink_in ADDRESSES (in_heap m) (pMidiInDevList m) t (id_next x) = Ok ((in_heap m)(b \<mapsto> y\<lparr>id_next := id_next x\<rparr>))"
      using unlink_in_ok [of "in_heap m" "pMidiInDevList m" as b t cs ADDRESSES "id_next x"] c len p(2) y by simp
    ultimately show ?thesis using p(1) by (intro exI [of _ ?m]) simp
  qed
  then obtain m1 where m1: "(if pMidiInDevList m = t then Ok (m\<lparr>pMidiInDevList := id_next x\<rparr>)
               else rbind (unlink_in ADDRESSES (in_heap m) (pMidiInDevList m) t (id_next x)) (\<lambda>h. Ok (m\<lparr>in_heap := h\<rparr>))) = Ok m1"
      "chain ((in_nx m1)(t := None)) (pMidiInDevList m1) (remove1 t is)" "in_num m1 = in_num m" "in_first m1 = in_first m"
      "out_heap m1 = out_heap m" "pMidiOutDevList m1 = pMidiOutDevList m" "ev_heap m1 = ev_heap m" "mm_calls m1 = mm_calls m" by blast
  have e1: "ev_lists m1 (set is) es" using m m1(4,7) unfolding midi_lists_def ev_lists_def by simp
  have "length (es t) < ADDRESSES" using m t chain_length unfolding midi_lists_def ev_lists_def by blast
  from clear_events_ok [OF e1 t this] obtain m2 where m2: "clear_events ADDRESSES m1 t = Ok m2" "ev_lists m2 (set is) (es(t := []))"
    "same_devices m1 m2" "\<forall>x\<in>set (es t). ev_heap m2 x = None"
    "\<forall>x. x \<notin> set (es t) \<longrightarrow> map_option ev_msg (ev_heap m2 x) = map_option ev_msg (ev_heap m1 x)" by blast
  let ?m = "m2\<lparr>in_heap := (in_heap m2)(t := None)\<rparr>"
  have nx: "in_nx ?m = (in_nx m1)(t := None)" using m2(3) by (auto simp: same_devices_def fun_eq_iff)
  have nm: "\<forall>d. d \<noteq> t \<longrightarrow> in_num ?m d = in_num m d"
    using m2(3) m1(3) by (auto simp: same_devices_def in_num_def fun_eq_iff)
  have mp: "map (in_num ?m) (remove1 t is) = map (in_num m) (remove1 t is)" using nm di by (intro map_cong) auto
  have "distinct (map (in_num m) (remove1 t is))" using m distinct_map di by (metis distinct_remove1 inj_on_subset midi_lists_def set_remove1_subset)
  then have dn: "distinct (map (in_num ?m) (remove1 t is))" unfolding mp .
  have on: "out_num ?m = out_num m" using m2(3) m1(5) by (simp add: same_devices_def out_num_def fun_eq_iff)
  have "ev_lists ?m (set (remove1 t is)) es"
    by (rule ev_lists_subset [OF m2(2)]) (use di in \<open>auto simp: in_first_def\<close>)
  then have "midi_lists ?m os (remove1 t is) es"
    using m m2(3) m1(2,5,6) nx dn on unfolding midi_lists_def by (simp add: same_devices_def)
  moreover have "RemoveMidiIn m t = Ok ?m" using t0 x m1(1) m2(1) by (simp add: RemoveMidiIn_def deref_def)
  ultimately show ?thesis using m2(3,4,5) m1(5,7,8) nm by (intro exI [of _ ?m]) (simp add: same_devices_def)
qed

section \<open>Receiving and fetching\<close>

definition malloc_fresh :: "winmm \<Rightarrow> bool" where
  "malloc_fresh A \<longleftrightarrow> (\<forall>m. mm_malloc A m \<noteq> 0 \<longrightarrow>
     out_heap m (mm_malloc A m) = None \<and> in_heap m (mm_malloc A m) = None \<and> ev_heap m (mm_malloc A m) = None)"

definition accepted :: "u32 \<Rightarrow> bool" where
  "accepted w \<longleftrightarrow> msg_byte w 0 \<in> {NOTEON, NOTEOFF, CTRL, PITCH}"

definition msg_of :: "u32 \<Rightarrow> message" where
  "msg_of w = (msg_byte w 0, msg_byte w 1, msg_byte w 2)"

definition same_pending :: "u32 set \<Rightarrow> midi \<Rightarrow> midi \<Rightarrow> bool" where
  "same_pending D m m' \<longleftrightarrow> (\<forall>d\<in>D. pending m' d = pending m d)"

lemma pending_lists:
  assumes "midi_lists m os is es" "d \<in> set is"
  shows "pending m d = rev (map (\<lambda>p. case ev_heap m p of None \<Rightarrow> (0, 0, 0) | Some e \<Rightarrow> ev_msg e) (es d))"
  using midi_lists_eq(3) [OF assms] by (simp add: pending_def)

lemma ev_contents:
  "map_option ev_msg h = map_option ev_msg h' \<Longrightarrow>
   (case h of None \<Rightarrow> z | Some e \<Rightarrow> ev_msg e) = (case h' of None \<Rightarrow> z | Some e \<Rightarrow> ev_msg e)"
  by (cases h; cases h') auto

lemma contents_cong:
  assumes "\<And>x. x \<in> set xs \<Longrightarrow> map_option ev_msg (ev_heap m' x) = map_option ev_msg (ev_heap m x)"
  shows "rev (map (\<lambda>p. case ev_heap m' p of None \<Rightarrow> (0, 0, 0) | Some e \<Rightarrow> ev_msg e) xs) =
    rev (map (\<lambda>p. case ev_heap m p of None \<Rightarrow> (0, 0, 0) | Some e \<Rightarrow> ev_msg e) xs)"
  by (intro arg_cong [of _ _ rev] map_cong refl) (rule ev_contents [OF assms])

lemma fresh_not_listed:
  assumes "ev_lists m D es" "d \<in> D" "ev_heap m a = None"
  shows "a \<notin> set (es d)"
proof
  assume "a \<in> set (es d)"
  then obtain q where "ev_nx m a = Some q" using assms(1,2) chain_dom unfolding ev_lists_def by blast
  with assms(3) show False by simp
qed

text \<open>A message that is accepted for an open device is appended to its queue; all other queues stay.\<close>

lemma MidiReceive_accepts:
  assumes m: "midi_lists m os is es" and A: "malloc_fresh A" "mm_malloc A m \<noteq> 0" and w: "accepted w"
    and d: "d \<in> set is" "in_num m d = Some num"
  shows "\<exists>m'. MidiReceive A m num w = Ok m' \<and> midi_lists m' os is (es(d := mm_malloc A m # es d)) \<and> same_devices m m' \<and>
    pending m' d = pending m d @ [msg_of w] \<and> same_pending (set is - {d}) m m'"
proof -
  let ?a = "mm_malloc A m"
  let ?e = "\<lparr>ev_event = msg_byte w 0, ev_dat1 = msg_byte w 1, ev_dat2 = msg_byte w 2, ev_next = 0\<rparr>"
  let ?m = "m\<lparr>ev_heap := (ev_heap m)(?a \<mapsto> ?e)\<rparr>"
  have fr: "ev_heap m ?a = None" using A by (simp add: malloc_fresh_def)
  have el: "ev_lists m (set is) es" using m by (simp add: midi_lists_def)
  have na: "\<forall>d\<in>set is. ?a \<notin> set (es d)" using fresh_not_listed [OF el _ fr] by blast
  have sd0: "same_devices m ?m" by (simp add: same_devices_def in_num_def fun_eq_iff)
  have nx: "ev_nx ?m = (ev_nx m)(?a := Some 0)" by (simp add: fun_eq_iff)
  have fi: "in_first ?m = in_first m" by (simp add: in_first_def fun_eq_iff)
  have el1: "ev_lists ?m (set is) es"
    using el na unfolding ev_lists_def nx fi by (metis chain_upd)
  note m1 = midi_lists_devices [OF m sd0 el1]
  have en: "entry (in_num ?m) is num = d"
  proof -
    have i: "in_num ?m = in_num m" using sd0 by (simp add: same_devices_def)
    have dn: "distinct (map (in_num m) is)" using m by (simp add: midi_lists_def)
    have z: "0 \<notin> set is" using el by (simp add: ev_lists_def)
    have "entry (in_num m) is num \<noteq> 0" using entry_in [OF z] d by (metis imageI)
    from entry_neq [OF this] show ?thesis unfolding i using dn d by (auto simp: distinct_map inj_on_def)
  qed
  have h: "ev_heap ?m ?a = Some ?e" by simp
  obtain m' where m': "AddMidiInEvent ?m d ?a = Ok m'" "ev_lists m' (set is) (es(d := ?a # es d))" "same_devices ?m m'"
    "\<forall>x. map_option ev_msg (ev_heap m' x) = map_option ev_msg (ev_heap ?m x)"
    using AddMidiInEvent_ok [OF el1 d(1) A(2) h na] by blast
  have r: "MidiReceive A m num w = Ok m'"
    using w A(2) GetMidiInEntry_ok [OF m1, of num] en m'(1) by (auto simp: MidiReceive_def accepted_def Let_def)
  have sd: "same_devices m m'" by (rule same_devices_trans [OF sd0 m'(3)])
  note ml = midi_lists_devices [OF m sd m'(2)]
  have old: "map_option ev_msg (ev_heap m' x) = map_option ev_msg (ev_heap m x)" if "x \<in> set (es c)" "c \<in> set is" for x c
    using that m'(4) na by auto
  have new: "map_option ev_msg (ev_heap m' ?a) = Some (msg_of w)" using m'(4) by (simp add: ev_msg_def msg_of_def)
  have "pending m' c = pending m c" if "c \<in> set is" "c \<noteq> d" for c
    using pending_lists [OF ml that(1)] pending_lists [OF m that(1)] that contents_cong [OF old [OF _ that(1)]] by simp
  moreover have "pending m' d = pending m d @ [msg_of w]"
    using pending_lists [OF ml d(1)] pending_lists [OF m d(1)] contents_cong [OF old [OF _ d(1)]] new
    by (cases "ev_heap m' ?a") simp_all
  ultimately show ?thesis using r ml sd by (auto simp: same_pending_def)
qed

lemma MidiReceive_no_memory: "mm_malloc A m = 0 \<Longrightarrow> MidiReceive A m num w = Ok m"
  by (simp add: MidiReceive_def Let_def)

lemma MidiReceive_rejects: "\<not> accepted w \<Longrightarrow> MidiReceive A m num w = Ok m"
  by (auto simp: MidiReceive_def accepted_def Let_def)

text \<open>A message for a number that is not open stays on the heap without a list (the event is lost).\<close>

lemma MidiReceive_unknown:
  assumes m: "midi_lists m os is es" and A: "malloc_fresh A" and n: "Some num \<notin> in_num m ` set is"
  shows "\<exists>m'. MidiReceive A m num w = Ok m' \<and> midi_lists m' os is es \<and> same_devices m m' \<and> same_pending (set is) m m'"
proof (cases "accepted w \<and> mm_malloc A m \<noteq> 0")
  case False
  then have "MidiReceive A m num w = Ok m" using MidiReceive_rejects MidiReceive_no_memory by blast
  then show ?thesis using m by (auto simp: same_pending_def)
next
  case True
  let ?a = "mm_malloc A m"
  let ?e = "\<lparr>ev_event = msg_byte w 0, ev_dat1 = msg_byte w 1, ev_dat2 = msg_byte w 2, ev_next = 0\<rparr>"
  let ?m = "m\<lparr>ev_heap := (ev_heap m)(?a \<mapsto> ?e)\<rparr>"
  have fr: "ev_heap m ?a = None" using A True by (simp add: malloc_fresh_def)
  have el: "ev_lists m (set is) es" using m by (simp add: midi_lists_def)
  have na: "\<forall>d\<in>set is. ?a \<notin> set (es d)" using fresh_not_listed [OF el _ fr] by blast
  have sd: "same_devices m ?m" by (simp add: same_devices_def in_num_def fun_eq_iff)
  have nx: "ev_nx ?m = (ev_nx m)(?a := Some 0)" by (simp add: fun_eq_iff)
  have fi: "in_first ?m = in_first m" by (simp add: in_first_def fun_eq_iff)
  have el1: "ev_lists ?m (set is) es"
    using el na unfolding ev_lists_def nx fi by (metis chain_upd)
  note m1 = midi_lists_devices [OF m sd el1]
  have i: "in_num ?m = in_num m" using sd by (simp add: same_devices_def)
  have "0 \<notin> set is" using el by (simp add: ev_lists_def)
  then have "entry (in_num ?m) is num = 0" unfolding i using entry_in n by metis
  then have r: "MidiReceive A m num w = Ok ?m"
    using True GetMidiInEntry_ok [OF m1, of num] by (auto simp: MidiReceive_def accepted_def AddMidiInEvent_def Let_def)
  have "pending ?m c = pending m c" if "c \<in> set is" for c
    using pending_lists [OF m1 that] pending_lists [OF m that] contents_cong [of "es c" ?m m] na that by force
  then show ?thesis using r m1 sd by (auto simp: same_pending_def)
qed

text \<open>Fetching takes the oldest message.\<close>

lemma RemoveMidiInEvent_fetches:
  assumes m: "midi_lists m os is es" and d: "d \<in> set is"
  shows "case pending m d of
      [] \<Rightarrow> RemoveMidiInEvent m d = Ok (m, None)
    | x # xs \<Rightarrow> \<exists>m' e es'. RemoveMidiInEvent m d = Ok (m', Some e) \<and> ev_msg e = x \<and> midi_lists m' os is es' \<and> same_devices m m' \<and>
        pending m' d = xs \<and> same_pending (set is - {d}) m m'"
proof (cases "es d" rule: rev_cases)
  case Nil
  have el: "ev_lists m (set is) es" using m by (simp add: midi_lists_def)
  have "pending m d = []" using pending_lists [OF m d] Nil by simp
  then show ?thesis using RemoveMidiInEvent_empty [OF el d Nil] by simp
next
  case (snoc as a)
  have el: "ev_lists m (set is) es" using m by (simp add: midi_lists_def)
  obtain m' e e0 where m': "RemoveMidiInEvent m d = Ok (m', Some e)" "ev_lists m' (set is) (es(d := as))" "same_devices m m'"
    "ev_heap m a = Some e0" "ev_msg e = ev_msg e0" "\<forall>x. x \<noteq> a \<longrightarrow> map_option ev_msg (ev_heap m' x) = map_option ev_msg (ev_heap m x)"
    using RemoveMidiInEvent_last [OF el d snoc] by blast
  note ml = midi_lists_devices [OF m m'(3,2)]
  obtain p where "chain (ev_nx m) p (es d)" using el d unfolding ev_lists_def by blast
  from chain_distinct [OF this] have di: "a \<notin> set as" using snoc by simp
  have dj: "a \<notin> set (es c)" if "c \<in> set is" "c \<noteq> d" for c
    using el d snoc that unfolding ev_lists_def by (metis disjoint_iff in_set_conv_decomp)
  have p: "pending m d = ev_msg e0 # rev (map (\<lambda>p. case ev_heap m p of None \<Rightarrow> (0, 0, 0) | Some e \<Rightarrow> ev_msg e) as)"
    using pending_lists [OF m d] snoc m'(4) by simp
  have "pending m' d = rev (map (\<lambda>p. case ev_heap m p of None \<Rightarrow> (0, 0, 0) | Some e \<Rightarrow> ev_msg e) as)"
    using pending_lists [OF ml d] contents_cong [of as m' m] m'(6) di by force
  moreover have "pending m' c = pending m c" if "c \<in> set is" "c \<noteq> d" for c
    using pending_lists [OF ml that(1)] pending_lists [OF m that(1)] contents_cong [of "es c" m' m] m'(6) dj [OF that] that by force
  ultimately show ?thesis using m' ml p by (auto simp: same_pending_def)
qed

section \<open>The interface of an event queue\<close>

text \<open>A run of a queue: elements arrive, some are fetched (a fetch of the empty queue gives nothing),
and other steps happen in between. The run keeps what arrived and what was delivered.\<close>

inductive fifo_run :: "('s \<Rightarrow> 'e \<Rightarrow> 's \<Rightarrow> bool) \<Rightarrow> ('s \<Rightarrow> ('s \<times> 'e option) res) \<Rightarrow> ('s \<Rightarrow> 's \<Rightarrow> bool) \<Rightarrow>
    's \<Rightarrow> 'e list \<Rightarrow> 'e list \<Rightarrow> 's \<Rightarrow> bool" for arrive fetch other s where
  run_start: "fifo_run arrive fetch other s [] [] s"
| run_arrive: "fifo_run arrive fetch other s as ds s1 \<Longrightarrow> arrive s1 e s2 \<Longrightarrow> fifo_run arrive fetch other s (as @ [e]) ds s2"
| run_fetch: "fifo_run arrive fetch other s as ds s1 \<Longrightarrow> fetch s1 = Ok (s2, Some e) \<Longrightarrow> fifo_run arrive fetch other s as (ds @ [e]) s2"
| run_nothing: "fifo_run arrive fetch other s as ds s1 \<Longrightarrow> fetch s1 = Ok (s2, None) \<Longrightarrow> fifo_run arrive fetch other s as ds s2"
| run_other: "fifo_run arrive fetch other s as ds s1 \<Longrightarrow> other s1 s2 \<Longrightarrow> fifo_run arrive fetch other s as ds s2"

fun drain :: "('s \<Rightarrow> ('s \<times> 'e option) res) \<Rightarrow> nat \<Rightarrow> 's \<Rightarrow> ('s \<times> 'e list) res" where
  "drain fetch 0 s = Ok (s, [])"
| "drain fetch (Suc n) s = rbind (fetch s) (\<lambda>(s1, e).
     case e of None \<Rightarrow> Ok (s1, []) | Some x \<Rightarrow> rbind (drain fetch n s1) (\<lambda>(s2, xs). Ok (s2, x # xs)))"

locale event_queue =
  fixes inv :: "'s \<Rightarrow> bool"
    and contents :: "'s \<Rightarrow> 'e list"
    and arrive :: "'s \<Rightarrow> 'e \<Rightarrow> 's \<Rightarrow> bool"
    and fetch :: "'s \<Rightarrow> ('s \<times> 'e option) res"
    and other :: "'s \<Rightarrow> 's \<Rightarrow> bool"
  assumes arrives: "inv s \<Longrightarrow> arrive s e s' \<Longrightarrow> inv s' \<and> contents s' = contents s @ [e]"
    and fetch_empty: "inv s \<Longrightarrow> contents s = [] \<Longrightarrow> fetch s = Ok (s, None)"
    and fetch_oldest: "inv s \<Longrightarrow> contents s = e # es \<Longrightarrow> \<exists>s'. fetch s = Ok (s', Some e) \<and> inv s' \<and> contents s' = es"
    and others: "inv s \<Longrightarrow> other s s' \<Longrightarrow> inv s' \<and> contents s' = contents s"
begin

lemma fetch_cases:
  assumes "inv s" "fetch s = Ok (s', x)"
  shows "inv s' \<and> (case x of None \<Rightarrow> contents s = [] \<and> s' = s | Some e \<Rightarrow> contents s = e # contents s')"
proof (cases "contents s")
  case Nil
  then show ?thesis using fetch_empty [OF assms(1) Nil] assms by simp
next
  case (Cons e es)
  then show ?thesis using fetch_oldest [OF assms(1) Cons] assms by auto
qed

lemma run_in_order:
  assumes "fifo_run arrive fetch other s as ds s'" "inv s"
  shows "inv s' \<and> contents s @ as = ds @ contents s'"
  using assms
proof (induction rule: fifo_run.induct)
  case (run_arrive as ds s1 e s2)
  then show ?case using arrives [of s1 e s2] by simp
next
  case (run_fetch as ds s1 s2 e)
  then show ?case using fetch_cases [of s1 s2 "Some e"] by simp
next
  case (run_nothing as ds s1 s2)
  then show ?case using fetch_cases [of s1 s2 None] by simp
next
  case (run_other as ds s1 s2)
  then show ?case using others [of s1 s2] by simp
qed simp

lemma drain_all:
  "inv s \<Longrightarrow> length (contents s) \<le> n \<Longrightarrow> \<exists>s'. drain fetch n s = Ok (s', contents s) \<and> inv s' \<and> contents s' = []"
proof (induction n arbitrary: s)
  case (Suc n)
  show ?case
  proof (cases "contents s")
    case Nil
    then show ?thesis using fetch_empty [OF Suc.prems(1) Nil] Suc.prems by simp
  next
    case (Cons e es)
    then obtain s1 where s1: "fetch s = Ok (s1, Some e)" "inv s1" "contents s1 = es"
      using fetch_oldest [OF Suc.prems(1) Cons] by blast
    then obtain s' where "drain fetch n s1 = Ok (s', es)" "inv s'" "contents s' = []"
      using Suc.IH [OF s1(2)] Suc.prems(2) Cons by auto
    then show ?thesis using s1 Cons by simp
  qed
qed simp

end

section \<open>The queue of an input device\<close>

definition device_ok :: "u32 \<Rightarrow> midi \<Rightarrow> bool" where
  "device_ok d m \<longleftrightarrow> midi_inv m \<and> d \<in> set (ins m)"

text \<open>A message of the device arrives; a message for another number, or one that is not accepted.\<close>

definition midi_arrive :: "u32 \<Rightarrow> midi \<Rightarrow> message \<Rightarrow> midi \<Rightarrow> bool" where
  "midi_arrive d m e m' \<longleftrightarrow> (\<exists>A num w. malloc_fresh A \<and> mm_malloc A m \<noteq> 0 \<and> accepted w \<and> in_num m d = Some num \<and>
     msg_of w = e \<and> MidiReceive A m num w = Ok m')"

definition midi_other :: "u32 \<Rightarrow> midi \<Rightarrow> midi \<Rightarrow> bool" where
  "midi_other d m m' \<longleftrightarrow> (\<exists>A num w. malloc_fresh A \<and> (in_num m d \<noteq> Some num \<or> \<not> accepted w) \<and> MidiReceive A m num w = Ok m')"

definition midi_fetch :: "u32 \<Rightarrow> midi \<Rightarrow> (midi \<times> message option) res" where
  "midi_fetch d m = rbind (RemoveMidiInEvent m d) (\<lambda>(m', e). Ok (m', map_option ev_msg e))"

lemma device_okI: "midi_lists m os is es \<Longrightarrow> d \<in> set is \<Longrightarrow> device_ok d m"
  using midi_lists_eq midi_lists_inv by (simp add: device_ok_def)

lemma device_lists: "device_ok d m \<Longrightarrow> midi_lists m (outs m) (ins m) (evs m)"
  by (simp add: device_ok_def midi_inv_def)

lemma MidiReceive_other_device:
  assumes m: "midi_lists m os is es" and A: "malloc_fresh A" and d: "d \<in> set is" "in_num m d \<noteq> Some num \<or> \<not> accepted w"
  shows "\<exists>m' es'. MidiReceive A m num w = Ok m' \<and> midi_lists m' os is es' \<and> pending m' d = pending m d"
proof -
  consider "\<not> accepted w \<or> mm_malloc A m = 0" | "Some num \<notin> in_num m ` set is"
    | c where "accepted w" "mm_malloc A m \<noteq> 0" "c \<in> set is" "in_num m c = Some num"
    by (metis imageE)
  then show ?thesis
  proof cases
    case 1
    then have "MidiReceive A m num w = Ok m" using MidiReceive_rejects MidiReceive_no_memory by blast
    then show ?thesis using m by blast
  next
    case 2
    from MidiReceive_unknown [OF m A 2] show ?thesis using d(1) unfolding same_pending_def by blast
  next
    case 3
    from MidiReceive_accepts [OF m A 3(2,1,3,4)] show ?thesis using d 3 by (auto simp: same_pending_def)
  qed
qed

interpretation midi_queue: event_queue "device_ok d" "\<lambda>m. pending m d" "midi_arrive d" "midi_fetch d" "midi_other d" for d
proof unfold_locales
  fix m e m' assume a: "device_ok d m" "midi_arrive d m e m'"
  note l = device_lists [OF a(1)]
  obtain A num w where w: "malloc_fresh A" "mm_malloc A m \<noteq> 0" "accepted w" "in_num m d = Some num" "msg_of w = e" "MidiReceive A m num w = Ok m'"
    using a(2) unfolding midi_arrive_def by blast
  have d: "d \<in> set (ins m)" using a(1) by (simp add: device_ok_def)
  from MidiReceive_accepts [OF l w(1-3) d w(4)] w(5,6) show "device_ok d m' \<and> pending m' d = pending m d @ [e]"
    using device_okI d by auto
next
  fix m assume a: "device_ok d m" "pending m d = []"
  then have d: "d \<in> set (ins m)" by (simp add: device_ok_def)
  from RemoveMidiInEvent_fetches [OF device_lists [OF a(1)] d] a(2) show "midi_fetch d m = Ok (m, None)"
    by (simp add: midi_fetch_def)
next
  fix m e es assume a: "device_ok d m" "pending m d = e # es"
  then have d: "d \<in> set (ins m)" by (simp add: device_ok_def)
  from RemoveMidiInEvent_fetches [OF device_lists [OF a(1)] d] a(2) obtain m' x es' where
    "RemoveMidiInEvent m d = Ok (m', Some x)" "ev_msg x = e" "midi_lists m' (outs m) (ins m) es'" "pending m' d = es" by auto
  then show "\<exists>m'. midi_fetch d m = Ok (m', Some e) \<and> device_ok d m' \<and> pending m' d = es"
    using device_okI d by (auto simp: midi_fetch_def)
next
  fix m m' assume a: "device_ok d m" "midi_other d m m'"
  then have d: "d \<in> set (ins m)" by (simp add: device_ok_def)
  obtain A num w where w: "malloc_fresh A" "in_num m d \<noteq> Some num \<or> \<not> accepted w" "MidiReceive A m num w = Ok m'"
    using a(2) unfolding midi_other_def by blast
  from MidiReceive_other_device [OF device_lists [OF a(1)] w(1) d w(2)] w(3)
  show "device_ok d m' \<and> pending m' d = pending m d" using device_okI d by auto
qed

text \<open>C3: the events of an input device are a first-in first-out queue. In every sequence of arriving
messages, fetches and messages of other devices, what was waiting at first, followed by what
arrived, is what was delivered, followed by what is still waiting: no message is lost,
duplicated or reordered.\<close>

theorem midi_events_in_order:
  assumes "fifo_run (midi_arrive d) (midi_fetch d) (midi_other d) m as ds m'" and "midi_inv m" and "d \<in> set (ins m)"
  shows "midi_inv m' \<and> pending m d @ as = ds @ pending m' d"
  using midi_queue.run_in_order [OF assms(1)] assms(2,3) by (simp add: device_ok_def)

text \<open>C23: every waiting message is delivered: as many fetches as there are messages give them all, in
the order of their arrival, and leave the queue empty.\<close>

theorem midi_events_delivered:
  assumes "midi_inv m" and "d \<in> set (ins m)"
  shows "\<exists>m'. drain (midi_fetch d) (length (pending m d)) m = Ok (m', pending m d) \<and> midi_inv m' \<and> pending m' d = []"
  using midi_queue.drain_all [of d m "length (pending m d)"] assms by (auto simp: device_ok_def)

text \<open>A state with one open input device and no events, and a heap that hands out one address.\<close>

definition demo_midi :: midi where
  "demo_midi = \<lparr>pMidiOutDevList = 0, pMidiInDevList = 64, out_heap = (\<lambda>_. None),
     in_heap = [64 \<mapsto> \<lparr>id_Number = 0, id_Handle = 7, id_events = 0, id_next = 0\<rparr>], ev_heap = (\<lambda>_. None), mm_calls = []\<rparr>"

definition demo_mm :: winmm where
  "demo_mm = \<lparr>mm_malloc = (\<lambda>m. if out_heap m 128 = None \<and> in_heap m 128 = None \<and> ev_heap m 128 = None then 128 else 0),
     mm_outOpen = (\<lambda>m i. Some 7), mm_inOpen = (\<lambda>m i. Some 7), mm_inNumDevs = 1, mm_outNumDevs = 1,
     mm_outName = (\<lambda>i. None), mm_inName = (\<lambda>i. None)\<rparr>"

lemma demo_midi_lists: "midi_lists demo_midi [] [64] (\<lambda>_. [])"
  by (simp add: midi_lists_def ev_lists_def demo_midi_def in_first_def)

lemma demo_mm_fresh: "malloc_fresh demo_mm"
  by (simp add: malloc_fresh_def demo_mm_def)

lemma demo_note: "accepted 0x00403C90" "msg_of 0x00403C90 = (0x90, 0x3C, 0x40)"
  by (simp_all add: accepted_def msg_of_def msg_byte_def)

theorem midi_events_in_order_witness:
  "\<exists>m m'. fifo_run (midi_arrive 64) (midi_fetch 64) (midi_other 64) demo_midi [(0x90, 0x3C, 0x40)] [(0x90, 0x3C, 0x40)] m' \<and>
    pending m' 64 = []"
proof -
  have d: "midi_inv demo_midi" "64 \<in> set (ins demo_midi)"
    using midi_lists_inv [OF demo_midi_lists] midi_lists_eq [OF demo_midi_lists] by simp_all
  have p: "pending demo_midi 64 = []" using pending_lists [OF demo_midi_lists, of 64] by simp
  have a: "mm_malloc demo_mm demo_midi \<noteq> 0" "in_num demo_midi 64 = Some 0" by (simp_all add: demo_mm_def demo_midi_def in_num_def)
  obtain m1 where m1: "MidiReceive demo_mm demo_midi 0 0x00403C90 = Ok m1"
    using MidiReceive_accepts [OF demo_midi_lists demo_mm_fresh a(1) demo_note(1) _ a(2)] by auto
  then have "midi_arrive 64 demo_midi (0x90, 0x3C, 0x40) m1"
    unfolding midi_arrive_def using demo_mm_fresh a demo_note by metis
  then have 1: "fifo_run (midi_arrive 64) (midi_fetch 64) (midi_other 64) demo_midi ([] @ [(0x90, 0x3C, 0x40)]) [] m1"
    by (rule run_arrive [OF run_start])
  then have "pending m1 64 = [(0x90, 0x3C, 0x40)]" and ok: "device_ok 64 m1"
    using midi_queue.run_in_order [OF 1] d p by (simp_all add: device_ok_def)
  then obtain m2 where m2: "midi_fetch 64 m1 = Ok (m2, Some (0x90, 0x3C, 0x40))" "pending m2 64 = []"
    using midi_queue.fetch_oldest by blast
  have 2: "fifo_run (midi_arrive 64) (midi_fetch 64) (midi_other 64) demo_midi [(0x90, 0x3C, 0x40)] [(0x90, 0x3C, 0x40)] m2"
    using run_fetch [OF 1 m2(1)] by simp
  from midi_events_in_order [OF 2 d] p have "pending m2 64 = []" by simp
  with 2 show ?thesis by blast
qed

theorem midi_events_delivered_witness:
  "\<exists>m m'. pending m 64 = [(0x90, 0x3C, 0x40)] \<and> drain (midi_fetch 64) 1 m = Ok (m', [(0x90, 0x3C, 0x40)])"
proof -
  have p: "pending demo_midi 64 = []" using pending_lists [OF demo_midi_lists, of 64] by simp
  have a: "mm_malloc demo_mm demo_midi \<noteq> 0" "in_num demo_midi 64 = Some 0" by (simp_all add: demo_mm_def demo_midi_def in_num_def)
  obtain m1 es where m1: "midi_lists m1 [] [64] es" "pending m1 64 = [(0x90, 0x3C, 0x40)]"
    using MidiReceive_accepts [OF demo_midi_lists demo_mm_fresh a(1) demo_note(1) _ a(2)] p demo_note by auto
  have "midi_inv m1" "64 \<in> set (ins m1)" using midi_lists_inv [OF m1(1)] midi_lists_eq [OF m1(1)] by simp_all
  from midi_events_delivered [OF this] m1(2) show ?thesis by auto
qed

section \<open>Opening and closing\<close>

definition open_ins :: "midi \<Rightarrow> u32 set" where "open_ins m = {n. Some n \<in> in_num m ` set (ins m)}"
definition open_outs :: "midi \<Rightarrow> u32 set" where "open_outs m = {n. Some n \<in> out_num m ` set (outs m)}"

lemma open_lists:
  assumes "midi_lists m os is es"
  shows "n \<in> open_ins m \<longleftrightarrow> entry (in_num m) is n \<noteq> 0" "n \<in> open_outs m \<longleftrightarrow> entry (out_num m) os n \<noteq> 0"
proof -
  have "0 \<notin> set is" "0 \<notin> set os" using assms chain_nonzero unfolding midi_lists_def by blast+
  then show "n \<in> open_ins m \<longleftrightarrow> entry (in_num m) is n \<noteq> 0" "n \<in> open_outs m \<longleftrightarrow> entry (out_num m) os n \<noteq> 0"
    using entry_in midi_lists_eq(1,2) [OF assms] unfolding open_ins_def open_outs_def by auto
qed

lemma mm_log_lists [simp]: "midi_lists (mm_log m c) os is es = midi_lists m os is es"
  by (simp add: midi_lists_def ev_lists_def mm_log_def out_num_def [abs_def] in_num_def [abs_def] in_first_def)

lemma mm_log_sel [simp]:
  "out_num (mm_log m c) = out_num m" "in_num (mm_log m c) = in_num m" "in_heap (mm_log m c) = in_heap m"
  "out_heap (mm_log m c) = out_heap m" "ev_heap (mm_log m c) = ev_heap m" "mm_calls (mm_log m c) = mm_calls m @ [c]"
  "in_first (mm_log m c) = in_first m"
  by (simp_all add: mm_log_def out_num_def [abs_def] in_num_def [abs_def] in_first_def [abs_def])

lemma mm_log_pending [simp]: "pending (mm_log m c) d = pending m d"
  unfolding pending_def evs_def mm_log_sel ..

lemma AddMidiIn_ok:
  assumes m: "midi_lists m os is es" and t: "t \<noteq> 0" "in_heap m t = None" "Some i \<notin> in_num m ` set is"
  shows "\<exists>m'. AddMidiIn (m\<lparr>in_heap := (in_heap m)(t \<mapsto> \<lparr>id_Number = i, id_Handle = h, id_events = 0, id_next = 0\<rparr>)\<rparr>) t = Ok m' \<and>
    midi_lists m' os (t # is) (es(t := [])) \<and> in_num m' = (in_num m)(t \<mapsto> i) \<and> mm_calls m' = mm_calls m \<and>
    ev_heap m' = ev_heap m \<and> out_num m' = out_num m"
proof -
  let ?m = "m\<lparr>in_heap := (in_heap m)(t \<mapsto> \<lparr>id_Number = i, id_Handle = h, id_events = 0, id_next = pMidiInDevList m\<rparr>), pMidiInDevList := t\<rparr>"
  have c: "chain (in_nx m) (pMidiInDevList m) is" and ev: "ev_lists m (set is) es" using m by (simp_all add: midi_lists_def)
  have nt: "t \<notin> set is" using chain_dom [OF c, of t] t(2) by auto
  have nx: "in_nx ?m = (in_nx m)(t \<mapsto> pMidiInDevList m)" by (simp add: fun_eq_iff)
  have c': "chain (in_nx ?m) t (t # is)" unfolding nx using c nt t(1) by (simp del: fun_upd_apply add: fun_upd_same)
  have nm: "in_num ?m = (in_num m)(t \<mapsto> i)" by (simp add: in_num_def fun_eq_iff)
  have fi: "in_first ?m = (in_first m)(t \<mapsto> 0)" by (simp add: in_first_def fun_eq_iff)
  have mp: "map ((in_num m)(t \<mapsto> i)) is = map (in_num m) is" using nt by auto
  have "distinct (map (in_num ?m) (t # is))" unfolding nm list.map distinct.simps mp fun_upd_same list.set_map using m t(3) by (simp add: midi_lists_def)
  moreover have "ev_lists ?m (set (t # is)) (es(t := []))"
    unfolding ev_lists_def
  proof (intro conjI ballI impI)
    show "0 \<notin> set (t # is)" using t(1) ev by (simp add: ev_lists_def)
    fix d assume d: "d \<in> set (t # is)"
    show "\<exists>p. in_first ?m d = Some p \<and> chain (ev_nx ?m) p ((es(t := [])) d)"
      using ev d unfolding fi ev_lists_def by (cases "d = t") auto
    fix d' assume "d' \<in> set (t # is)" "d \<noteq> d'"
    then show "set ((es(t := [])) d) \<inter> set ((es(t := [])) d') = {}"
      using ev d unfolding ev_lists_def by auto
  qed
  moreover have "out_num ?m = out_num m" by (simp add: out_num_def fun_eq_iff)
  ultimately have "midi_lists ?m os (t # is) (es(t := []))"
    using m c' unfolding midi_lists_def by simp
  then show ?thesis using nm t(1) \<open>out_num ?m = out_num m\<close> by (intro exI [of _ ?m]) (simp add: AddMidiIn_def deref_def)
qed

lemma AddMidiOut_ok:
  assumes m: "midi_lists m os is es" and t: "t \<noteq> 0" "out_heap m t = None" "Some i \<notin> out_num m ` set os"
  shows "\<exists>m'. AddMidiOut (m\<lparr>out_heap := (out_heap m)(t \<mapsto> \<lparr>od_Number = i, od_Handle = h, od_next = 0\<rparr>)\<rparr>) t = Ok m' \<and>
    midi_lists m' (t # os) is es \<and> out_num m' = (out_num m)(t \<mapsto> i) \<and> mm_calls m' = mm_calls m"
proof -
  let ?m = "m\<lparr>out_heap := (out_heap m)(t \<mapsto> \<lparr>od_Number = i, od_Handle = h, od_next = pMidiOutDevList m\<rparr>), pMidiOutDevList := t\<rparr>"
  have c: "chain (out_nx m) (pMidiOutDevList m) os" using m by (simp add: midi_lists_def)
  have nt: "t \<notin> set os" using chain_dom [OF c, of t] t(2) by auto
  have nx: "out_nx ?m = (out_nx m)(t \<mapsto> pMidiOutDevList m)" by (simp add: fun_eq_iff)
  have c': "chain (out_nx ?m) t (t # os)" unfolding nx using c nt t(1) by (simp del: fun_upd_apply add: fun_upd_same)
  have nm: "out_num ?m = (out_num m)(t \<mapsto> i)" by (simp add: out_num_def fun_eq_iff)
  have mp: "map ((out_num m)(t \<mapsto> i)) os = map (out_num m) os" using nt by auto
  have "distinct (map (out_num ?m) (t # os))" unfolding nm list.map distinct.simps mp fun_upd_same list.set_map using m t(3) by (simp add: midi_lists_def)
  moreover have "in_num ?m = in_num m" "in_first ?m = in_first m" by (simp_all add: in_num_def in_first_def fun_eq_iff)
  ultimately have "midi_lists ?m (t # os) is es"
    using m c' unfolding midi_lists_def ev_lists_def by simp
  then show ?thesis using nm t(1) by (intro exI [of _ ?m]) (simp add: AddMidiOut_def deref_def)
qed

lemma plOpenMidiIn_new:
  assumes m: "midi_lists m os is es" and A: "malloc_fresh A" "mm_malloc A m \<noteq> 0" and S: "lua_gettop S = 1" "luaL_checkinteger S 1 = Ok i"
    and o: "i \<notin> open_ins m" "mm_inOpen A m i = Some h"
  shows "\<exists>m'. plOpenMidiIn A m S = answer m' S 0 \<and> midi_lists m' os (mm_malloc A m # is) (es(mm_malloc A m := [])) \<and>
    in_num m' = (in_num m)(mm_malloc A m \<mapsto> i) \<and> mm_calls m' = mm_calls m @ [InStart h] \<and> ev_heap m' = ev_heap m"
proof -
  let ?t = "mm_malloc A m"
  have f: "in_heap m ?t = None" using A by (simp add: malloc_fresh_def)
  have n: "Some i \<notin> in_num m ` set is" using o(1) midi_lists_eq(2) [OF m] by (simp add: open_ins_def)
  obtain m' where m': "AddMidiIn (m\<lparr>in_heap := (in_heap m)(?t \<mapsto> \<lparr>id_Number = i, id_Handle = h, id_events = 0, id_next = 0\<rparr>)\<rparr>) ?t = Ok m'"
    "midi_lists m' os (?t # is) (es(?t := []))" "in_num m' = (in_num m)(?t \<mapsto> i)" "mm_calls m' = mm_calls m" "ev_heap m' = ev_heap m"
    using AddMidiIn_ok [OF m A(2) f n] by blast
  have "GetMidiInEntry m i = Ok 0" using GetMidiInEntry_ok [OF m, of i] open_lists(1) [OF m, of i] o(1) by simp
  then have "plOpenMidiIn A m S = answer (mm_log m' (InStart h)) S 0"
    using S o(2) A(2) m'(1) by (simp add: plOpenMidiIn_def Let_def)
  then show ?thesis using m'(2-5) by (intro exI [of _ "mm_log m' (InStart h)"]) simp
qed

lemma plOpenMidiIn_one:
  assumes "midi_inv m" and "malloc_fresh A" and "lua_gettop S = 1" and "luaL_checkinteger S 1 = Ok i"
  shows "if i \<in> open_ins m then plOpenMidiIn A m S = answer m S (- 2)
    else case mm_inOpen A m i of
      None \<Rightarrow> plOpenMidiIn A m S = answer m S (- 3)
    | Some h \<Rightarrow>
        if mm_malloc A m = 0 then plOpenMidiIn A m S = answer (mm_log m (InClose h)) S (- 4)
        else \<exists>m' d. plOpenMidiIn A m S = answer m' S 0 \<and> midi_inv m' \<and> open_ins m' = insert i (open_ins m) \<and>
          mm_calls m' = mm_calls m @ [InStart h] \<and> ins m' = d # ins m \<and> in_num m' d = Some i \<and> pending m' d = [] \<and>
          (\<forall>d\<in>set (ins m). pending m' d = pending m d)"
proof -
  have m: "midi_lists m (outs m) (ins m) (evs m)" using assms(1) by (simp add: midi_inv_def)
  note g = GetMidiInEntry_ok [OF m, of i] open_lists(1) [OF m, of i]
  show ?thesis
  proof (cases "i \<in> open_ins m \<or> mm_inOpen A m i = None \<or> mm_malloc A m = 0")
    case True
    then show ?thesis using g assms(3,4) by (auto simp: plOpenMidiIn_def Let_def split: option.split)
  next
    case False
    then obtain h where h: "i \<notin> open_ins m" "mm_inOpen A m i = Some h" "mm_malloc A m \<noteq> 0" by auto
    let ?t = "mm_malloc A m"
    obtain m' where m': "plOpenMidiIn A m S = answer m' S 0" "midi_lists m' (outs m) (?t # ins m) ((evs m)(?t := []))"
      "in_num m' = (in_num m)(?t \<mapsto> i)" "mm_calls m' = mm_calls m @ [InStart h]" "ev_heap m' = ev_heap m"
      using plOpenMidiIn_new [OF m assms(2) h(3) assms(3,4) h(1,2)] by blast
    have nt: "?t \<notin> set (ins m)" using m'(2) chain_distinct unfolding midi_lists_def by (metis distinct.simps(2))
    have "in_num m' ` set (ins m') = insert (Some i) (in_num m ` set (ins m))"
      unfolding midi_lists_eq(2) [OF m'(2)] m'(3) using nt by auto
    then have "open_ins m' = insert i (open_ins m)" unfolding open_ins_def by auto
    moreover have "pending m' ?t = []" using pending_lists [OF m'(2), of ?t] by simp
    moreover have "pending m' d = pending m d" if "d \<in> set (ins m)" for d
      using pending_lists [OF m'(2), of d] pending_lists [OF m that] m'(5) that nt by auto
    ultimately show ?thesis using h m'(1,3,4) midi_lists_inv [OF m'(2)] midi_lists_eq(2) [OF m'(2)] by auto
  qed
qed

text \<open>C25: \<open>OpenMidiIn\<close> opens a device once. A wrong number of arguments gives \<open>-1\<close>, an argument that is
no number raises an error, a number that is open already gives \<open>-2\<close>, a device that the driver does
not open gives \<open>-3\<close>, no memory gives \<open>-4\<close> after closing the handle again; otherwise the device is
added with an empty queue, started, and the queues of the others stay.\<close>

theorem plOpenMidiIn_spec:
  assumes "midi_inv m" and "malloc_fresh A"
  shows "if lua_gettop S \<noteq> 1 then plOpenMidiIn A m S = answer m S (- 1)
    else case luaL_checkinteger S 1 of
      Inl e \<Rightarrow> plOpenMidiIn A m S = Inl e
    | Inr i \<Rightarrow>
        if i \<in> open_ins m then plOpenMidiIn A m S = answer m S (- 2)
        else case mm_inOpen A m i of
          None \<Rightarrow> plOpenMidiIn A m S = answer m S (- 3)
        | Some h \<Rightarrow>
            if mm_malloc A m = 0 then plOpenMidiIn A m S = answer (mm_log m (InClose h)) S (- 4)
            else \<exists>m' d. plOpenMidiIn A m S = answer m' S 0 \<and> midi_inv m' \<and> open_ins m' = insert i (open_ins m) \<and>
              mm_calls m' = mm_calls m @ [InStart h] \<and> ins m' = d # ins m \<and> in_num m' d = Some i \<and> pending m' d = [] \<and>
              (\<forall>d\<in>set (ins m). pending m' d = pending m d)"
proof (cases "lua_gettop S = 1")
  case False
  then show ?thesis by (simp add: plOpenMidiIn_def)
next
  case True
  show ?thesis
  proof (cases "luaL_checkinteger S 1")
    case (Inl e)
    then show ?thesis using True by (simp add: plOpenMidiIn_def)
  next
    case (Inr i)
    show ?thesis using plOpenMidiIn_one [OF assms True Inr] True Inr by simp
  qed
qed

text \<open>C24: \<open>CloseMidiIn\<close> of an open device resets and closes its handle, takes it out of the list and
frees every event of its queue; the other devices and their queues stay. A number that is not
open gives \<open>-2\<close>.\<close>

theorem plCloseMidiIn_spec:
  assumes "midi_inv m" and "lua_gettop S = 1" and "luaL_checkinteger S 1 = Ok i"
  shows "if i \<notin> open_ins m then plCloseMidiIn m S = answer m S (- 2)
    else \<exists>m' d x. plCloseMidiIn m S = answer m' S 0 \<and> midi_inv m' \<and> open_ins m' = open_ins m - {i} \<and>
      d \<in> set (ins m) \<and> in_heap m d = Some x \<and> id_Number x = i \<and> in_heap m' d = None \<and> ins m' = remove1 d (ins m) \<and>
      (\<forall>e\<in>set (evs m d). ev_heap m' e = None) \<and> mm_calls m' = mm_calls m @ [InReset (id_Handle x), InClose (id_Handle x)] \<and>
      (\<forall>d'\<in>set (ins m'). pending m' d' = pending m d')"
proof -
  have m: "midi_lists m (outs m) (ins m) (evs m)" using assms(1) by (simp add: midi_inv_def)
  note g = GetMidiInEntry_ok [OF m, of i] open_lists(1) [OF m, of i]
  let ?d = "entry (in_num m) (ins m) i"
  show ?thesis
  proof (cases "i \<in> open_ins m")
    case False
    then show ?thesis using g assms(2,3) by (simp add: plCloseMidiIn_def)
  next
    case True
    then have d: "?d \<in> set (ins m)" "in_num m ?d = Some i" using entry_neq [of "in_num m" "ins m" i] g by auto
    then obtain x where x: "in_heap m ?d = Some x" "id_Number x = i" by (auto simp: in_num_def)
    let ?m = "mm_log (mm_log m (InReset (id_Handle x))) (InClose (id_Handle x))"
    have ml: "midi_lists ?m (outs m) (ins m) (evs m)" using m by simp
    obtain m' where m': "RemoveMidiIn ?m ?d = Ok m'" "midi_lists m' (outs m) (remove1 ?d (ins m)) (evs m)" "in_heap m' ?d = None"
      "\<forall>d'. d' \<noteq> ?d \<longrightarrow> in_num m' d' = in_num m d'" "mm_calls m' = mm_calls ?m" "\<forall>e\<in>set (evs m ?d). ev_heap m' e = None"
      "\<forall>e. e \<notin> set (evs m ?d) \<longrightarrow> map_option ev_msg (ev_heap m' e) = map_option ev_msg (ev_heap m e)"
      using RemoveMidiIn_ok [OF ml d(1)] by auto
    have r: "plCloseMidiIn m S = answer m' S 0"
      using g True assms(2,3) x m'(1) by (simp add: plCloseMidiIn_def deref_def)
    have di: "distinct (ins m)" and dn: "distinct (map (in_num m) (ins m))"
      using m chain_distinct unfolding midi_lists_def by blast+
    have i': "ins m' = remove1 ?d (ins m)" by (rule midi_lists_eq(2) [OF m'(2)])
    have si: "set (ins m') = set (ins m) - {?d}" unfolding i' using di by simp
    have "in_num m' ` set (ins m') = in_num m ` (set (ins m) - {?d})" unfolding si using m'(4) by (intro image_cong) auto
    also have "\<dots> = in_num m ` set (ins m) - {Some i}" using dn d by (auto simp: distinct_map inj_on_def)
    finally have "open_ins m' = open_ins m - {i}" unfolding open_ins_def by auto
    moreover have "pending m' d' = pending m d'" if "d' \<in> set (ins m')" for d'
    proof -
      have d': "d' \<in> set (ins m)" "d' \<noteq> ?d" "d' \<in> set (remove1 ?d (ins m))" using that si i' by auto
      have "set (evs m d') \<inter> set (evs m ?d) = {}" using m d(1) d'(1,2) unfolding midi_lists_def ev_lists_def by blast
      then show ?thesis
        using pending_lists [OF m'(2) d'(3)] pending_lists [OF m d'(1)] contents_cong [of "evs m d'" m' m] m'(7) by force
    qed
    ultimately show ?thesis using True r midi_lists_inv [OF m'(2)] d x m'(3,5,6) i'
      by (intro if_not_P [THEN iffD2, of "i \<notin> open_ins m"] exI [of _ m'] exI [of _ ?d] exI [of _ x]) simp_all
  qed
qed

lemma answer_Ok [simp]: "answer m S n = Ok (m', S', r) \<longleftrightarrow> m' = m \<and> S' = lua_pushnumber S (cast_num n) \<and> r = 1"
  "Ok (m', S', r) = answer m S n \<longleftrightarrow> m' = m \<and> S' = lua_pushnumber S (cast_num n) \<and> r = 1"
  by (auto simp: answer_def)

lemma checkinteger_num: "luaL_checkinteger [VNum (cast_num 0)] 1 = Ok 0"
  by (simp add: luaL_checkinteger_num lua_number2int_signed [of 0, simplified] lua_number2int_signed [of 1, simplified])

lemma demo_open:
  "midi_inv demo_midi" "ins demo_midi = [64]" "open_ins demo_midi = {0}" "pending demo_midi 64 = []"
  using midi_lists_inv [OF demo_midi_lists] midi_lists_eq [OF demo_midi_lists] pending_lists [OF demo_midi_lists, of 64]
  by (auto simp: open_ins_def in_num_def demo_midi_def)

theorem plOpenMidiIn_spec_witness:
  "\<exists>m'. plOpenMidiIn demo_mm demo_midi [VNum (cast_num 1)] = answer m' [VNum (cast_num 1)] 0 \<and> open_ins m' = {0, 1}"
proof -
  have i: "luaL_checkinteger [VNum (cast_num 1)] 1 = Ok 1" by (simp add: luaL_checkinteger_num lua_number2int_signed [of 0, simplified] lua_number2int_signed [of 1, simplified])
  have o: "mm_inOpen demo_mm demo_midi 1 = Some 7" "mm_malloc demo_mm demo_midi \<noteq> 0" by (simp_all add: demo_mm_def demo_midi_def)
  from plOpenMidiIn_spec [OF demo_open(1) demo_mm_fresh, of "[VNum (cast_num 1)]"] i o demo_open(3)
  show ?thesis by (auto simp: lua_gettop_def)
qed

theorem plCloseMidiIn_spec_witness:
  "\<exists>m'. plCloseMidiIn demo_midi [VNum (cast_num 0)] = answer m' [VNum (cast_num 0)] 0 \<and> open_ins m' = {}"
  using plCloseMidiIn_spec [OF demo_open(1) _ checkinteger_num] demo_open(3) by (auto simp: lua_gettop_def)

section \<open>Every sequence of calls\<close>

text \<open>The calls from Lua and from the driver that change the state.\<close>

inductive midi_step :: "winmm \<Rightarrow> world \<Rightarrow> midi \<Rightarrow> midi \<Rightarrow> bool" for A W where
  step_OpenOut: "plOpenMidiOut A m S = Ok (m', S', n) \<Longrightarrow> midi_step A W m m'"
| step_OpenIn: "plOpenMidiIn A m S = Ok (m', S', n) \<Longrightarrow> midi_step A W m m'"
| step_CloseOut: "plCloseMidiOut m S = Ok (m', S', n) \<Longrightarrow> midi_step A W m m'"
| step_CloseIn: "plCloseMidiIn m S = Ok (m', S', n) \<Longrightarrow> midi_step A W m m'"
| step_PlayNote: "plPlayNote m S = Ok (m', S', n) \<Longrightarrow> midi_step A W m m'"
| step_GetEvent: "plGetEvent W m L = Ok (m', L', n) \<Longrightarrow> midi_step A W m m'"
| step_Receive: "MidiReceive A m num w = Ok m' \<Longrightarrow> midi_step A W m m'"

inductive_cases midi_stepE: "midi_step A W m m'"

lemma OpenOut_inv:
  assumes "midi_inv m" "malloc_fresh A" "plOpenMidiOut A m S = Ok (m', S', n)"
  shows "midi_inv m'"
proof -
  have m: "midi_lists m (outs m) (ins m) (evs m)" using assms(1) by (simp add: midi_inv_def)
  have a: "midi_inv m1" if "i \<notin> open_outs m" "mm_malloc A m \<noteq> 0"
    "AddMidiOut (m\<lparr>out_heap := (out_heap m)(mm_malloc A m \<mapsto> \<lparr>od_Number = i, od_Handle = h, od_next = 0\<rparr>)\<rparr>) (mm_malloc A m) = Ok m1" for i h m1
  proof -
    have f: "out_heap m (mm_malloc A m) = None" using assms(2) that(2) by (simp add: malloc_fresh_def)
    have n: "Some i \<notin> out_num m ` set (outs m)" using that(1) by (simp add: open_outs_def)
    from AddMidiOut_ok [OF m that(2) f n, of h] that(3) show ?thesis using midi_lists_inv by auto
  qed
  show ?thesis
    using assms(3) assms(1) a GetMidiOutEntry_ok [OF m] open_lists(2) [OF m]
    by (auto simp: plOpenMidiOut_def rbind_Ok_iff Let_def split: if_splits option.splits)
qed

lemma OpenIn_inv:
  assumes "midi_inv m" "malloc_fresh A" "plOpenMidiIn A m S = Ok (m', S', n)"
  shows "midi_inv m'"
proof (cases "lua_gettop S = 1")
  case True
  then obtain i where i: "luaL_checkinteger S 1 = Ok i" using assms(3) by (auto simp: plOpenMidiIn_def rbind_Ok_iff)
  have l: "midi_inv (mm_log m c)" for c
    using assms(1) midi_lists_inv [of "mm_log m c" "outs m" "ins m" "evs m"] by (simp add: midi_inv_def)
  show ?thesis
    using plOpenMidiIn_one [OF assms(1,2) True i] assms(3) assms(1) l by (auto split: if_splits option.splits)
qed (use assms in \<open>simp add: plOpenMidiIn_def\<close>)

lemma CloseOut_inv:
  assumes "midi_inv m" "plCloseMidiOut m S = Ok (m', S', n)"
  shows "midi_inv m'"
proof -
  have m: "midi_lists m (outs m) (ins m) (evs m)" using assms(1) by (simp add: midi_inv_def)
  have a: "midi_inv m1" if "entry (out_num m) (outs m) i \<noteq> 0"
    "RemoveMidiOut (mm_log (mm_log m c1) c2) (entry (out_num m) (outs m) i) = Ok m1" for i c1 c2 m1
  proof -
    have ml: "midi_lists (mm_log (mm_log m c1) c2) (outs m) (ins m) (evs m)" using m by simp
    from RemoveMidiOut_ok [OF ml entry_neq [OF that(1), THEN conjunct1]] that(2) show ?thesis using midi_lists_inv by auto
  qed
  show ?thesis
    using assms(2) assms(1) a GetMidiOutEntry_ok [OF m]
    by (auto simp: plCloseMidiOut_def rbind_Ok_iff split: if_splits)
qed

lemma CloseIn_inv:
  assumes "midi_inv m" "plCloseMidiIn m S = Ok (m', S', n)"
  shows "midi_inv m'"
proof (cases "lua_gettop S = 1")
  case True
  then obtain i where i: "luaL_checkinteger S 1 = Ok i" using assms(2) by (auto simp: plCloseMidiIn_def rbind_Ok_iff)
  show ?thesis using plCloseMidiIn_spec [OF assms(1) True i] assms by (auto split: if_splits)
qed (use assms in \<open>simp add: plCloseMidiIn_def\<close>)

lemma MidiSend_inv: "MidiSend m dev a b c = Ok (m', r) \<Longrightarrow> midi_inv m \<Longrightarrow> midi_inv m'"
  using midi_lists_inv [of "mm_log m _" "outs m" "ins m" "evs m"]
  by (auto simp: MidiSend_def rbind_Ok_iff midi_inv_def split: if_splits)

lemma PlayNote_inv: "midi_inv m \<Longrightarrow> plPlayNote m S = Ok (m', S', n) \<Longrightarrow> midi_inv m'"
  unfolding plPlayNote_def
  by (auto elim!: rbind_OkE split: if_splits prod.splits) (rule MidiSend_inv)

lemma GetEvent_inv:
  assumes "midi_inv m" "plGetEvent W m L = Ok (m', L', n)"
  shows "midi_inv m'"
proof -
  have m: "midi_lists m (outs m) (ins m) (evs m)" using assms(1) by (simp add: midi_inv_def)
  have a: "midi_inv m1" if "RemoveMidiInEvent m (entry (in_num m) (ins m) i) = Ok (m1, e)" for i m1 e
  proof (cases "entry (in_num m) (ins m) i = 0")
    case True
    then show ?thesis using that assms(1) by (simp add: RemoveMidiInEvent_def)
  next
    case False
    note d = entry_neq [OF False, THEN conjunct1]
    show ?thesis using RemoveMidiInEvent_fetches [OF m d] that assms(1) midi_lists_inv
      by (auto split: list.splits)
  qed
  show ?thesis
    using assms(2) assms(1) a GetMidiInEntry_ok [OF m]
    by (auto simp: plGetEvent_def rbind_Ok_iff simp del: upt_Suc split: if_splits option.splits)
qed

lemma Receive_inv:
  assumes "midi_inv m" "malloc_fresh A" "MidiReceive A m num w = Ok m'"
  shows "midi_inv m'"
proof -
  have m: "midi_lists m (outs m) (ins m) (evs m)" using assms(1) by (simp add: midi_inv_def)
  consider "\<not> accepted w \<or> mm_malloc A m = 0" | "Some num \<notin> in_num m ` set (ins m)"
    | c where "accepted w" "mm_malloc A m \<noteq> 0" "c \<in> set (ins m)" "in_num m c = Some num"
    by (metis imageE)
  then show ?thesis
  proof cases
    case 1
    then have "MidiReceive A m num w = Ok m" using MidiReceive_rejects MidiReceive_no_memory by blast
    then show ?thesis using assms by simp
  next
    case 2
    from MidiReceive_unknown [OF m assms(2) 2, of w] assms(3) show ?thesis using midi_lists_inv by auto
  next
    case 3
    from MidiReceive_accepts [OF m assms(2) 3(2,1,3,4)] assms(3) show ?thesis using midi_lists_inv by auto
  qed
qed

text \<open>C6: every sequence of library calls and driver callbacks keeps the heap well formed: all lists
end, no device number is open twice and no event is in two queues.\<close>

theorem midi_inv_reachable:
  assumes "(midi_step A W)\<^sup>*\<^sup>* m m'" and "midi_inv m" and "malloc_fresh A"
  shows "midi_inv m'"
  using assms(1,2)
proof (induction rule: rtranclp_induct)
  case (step y z)
  note i = step.IH [OF step.prems]
  from step.hyps(2) show ?case
    by (cases rule: midi_step.cases)
      (auto intro: OpenOut_inv [OF i assms(3)] OpenIn_inv [OF i assms(3)] CloseOut_inv [OF i] CloseIn_inv [OF i]
        PlayNote_inv [OF i] GetEvent_inv [OF i] Receive_inv [OF i assms(3)])
qed

theorem midi_inv_reachable_witness:
  "\<forall>W. \<exists>m'. (midi_step demo_mm W)\<^sup>*\<^sup>* demo_midi m' \<and> ins m' = [] \<and> midi_inv m'"
proof
  fix W
  obtain m' where m': "plCloseMidiIn demo_midi [VNum (cast_num 0)] = answer m' [VNum (cast_num 0)] 0" "open_ins m' = {}"
    using plCloseMidiIn_spec_witness by blast
  then have r: "(midi_step demo_mm W)\<^sup>*\<^sup>* demo_midi m'"
    by (intro r_into_rtranclp step_CloseIn [of _ "[VNum (cast_num 0)]"]) (simp add: answer_def)
  note i = midi_inv_reachable [OF r demo_open(1) demo_mm_fresh]
  then have "chain (in_nx m') (pMidiInDevList m') (ins m')" by (simp add: midi_inv_def midi_lists_def)
  then have "\<forall>d\<in>set (ins m'). \<exists>n. in_num m' d = Some n" using chain_dom by (fastforce simp: in_num_def)
  then have "set (ins m') = {}" using m'(2) unfolding open_ins_def by (metis (mono_tags, lifting) empty_Collect_eq equals0I imageI)
  then have "ins m' = []" by simp
  then show "\<exists>m'. (midi_step demo_mm W)\<^sup>*\<^sup>* demo_midi m' \<and> ins m' = [] \<and> midi_inv m'" using r i by blast
qed

section \<open>Messages\<close>

lemma no_high_bit: "8 \<le> n \<Longrightarrow> \<not> bit (a :: u8) n"
  using bit_imp_le_length [of a n] by auto

lemma pack_bytes [simp]:
  "msg_byte (pack_msg a b c d) 0 = a" "msg_byte (pack_msg a b c d) 1 = b"
  "msg_byte (pack_msg a b c d) 2 = c" "msg_byte (pack_msg a b c d) 3 = d"
  by (auto simp: msg_byte_def pack_msg_def bit_simps no_high_bit intro!: bit_word_eqI)

lemma ucast_u8_minus: "ucast (x - 1 :: u32) = (ucast x - 1 :: u8)"
proof -
  have "((k :: int) - 1) mod 4294967296 mod 256 = (k mod 4294967296 - 1) mod 256" for k
  proof -
    have "(k - 1) mod 4294967296 mod 256 = (k - 1) mod 256" by (rule mod_mod_cancel) simp
    also have "\<dots> = (k mod 256 - 1) mod 256" by (simp add: mod_simps)
    also have "k mod 256 = k mod 4294967296 mod 256" by (rule mod_mod_cancel [symmetric]) simp
    finally show ?thesis by (simp add: mod_simps)
  qed
  then show ?thesis by transfer (simp add: take_bit_eq_mod mod_simps)
qed

text \<open>\<open>SendMessage\<close> to an open device sends one message of three bytes: the status nibble of the
fifth argument with the channel (1 to 16, sent as 0 to 15), and the low seven bits of key and
velocity. A device that is not open or a channel out of range sends nothing and gives \<open>-2\<close>.\<close>

theorem plPlayNote_sends:
  assumes "midi_inv m" and "lua_gettop S = 5" and "luaL_checkinteger S 1 = Ok i" and "luaL_checkinteger S 2 = Ok ch"
    and "luaL_checkinteger S 3 = Ok key" and "luaL_checkinteger S 4 = Ok vel" and "luaL_checkinteger S 5 = Ok st"
  shows "if i \<in> open_outs m \<and> 1 \<le> sint ch \<and> sint ch \<le> 16
    then \<exists>d h. d \<in> set (outs m) \<and> out_num m d = Some i \<and> map_option od_Handle (out_heap m d) = Some h \<and>
      (if h = 0 then plPlayNote m S = answer m S 0
       else \<exists>w. plPlayNote m S = answer (mm_log m (OutShortMsg h w)) S 0 \<and>
         msg_byte w 0 = (ucast st AND 0xf0) OR (ucast ch - 1) \<and> msg_byte w 1 = ucast key AND 0x7f \<and>
         msg_byte w 2 = ucast vel AND 0x7f \<and> msg_byte w 3 = 0)
    else plPlayNote m S = answer m S (- 2)"
proof -
  have m: "midi_lists m (outs m) (ins m) (evs m)" using assms(1) by (simp add: midi_inv_def)
  note g = GetMidiOutEntry_ok [OF m, of i] open_lists(2) [OF m, of i]
  let ?d = "entry (out_num m) (outs m) i"
  show ?thesis
  proof (cases "i \<in> open_outs m \<and> 1 \<le> sint ch \<and> sint ch \<le> 16")
    case True
    then have d: "?d \<noteq> 0" "?d \<in> set (outs m)" "out_num m ?d = Some i" using entry_neq [of "out_num m" "outs m" i] g by auto
    then obtain x where x: "out_heap m ?d = Some x" by (auto simp: out_num_def)
    have u: "ucast (st AND 0xf0) = (ucast st AND 0xf0 :: u8)" "ucast (ch - 1) = (ucast ch - 1 :: u8)"
    proof -
      show "ucast (st AND 0xf0) = (ucast st AND 0xf0 :: u8)" by (rule bit_word_eqI) (auto simp: bit_simps)
      show "ucast (ch - 1) = (ucast ch - 1 :: u8)" by (rule ucast_u8_minus)
    qed
    have "plPlayNote m S = (if od_Handle x = 0 then answer m S 0
      else answer (mm_log m (OutShortMsg (od_Handle x) (pack_msg ((ucast st AND 0xf0) OR (ucast ch - 1)) (ucast key AND 0x7f) (ucast vel AND 0x7f) 0))) S 0)"
      using assms(2-7) True g d x by (simp add: plPlayNote_def MidiSend_def deref_def u)
    then have "if od_Handle x = 0 then plPlayNote m S = answer m S 0
       else \<exists>w. plPlayNote m S = answer (mm_log m (OutShortMsg (od_Handle x) w)) S 0 \<and>
         msg_byte w 0 = (ucast st AND 0xf0) OR (ucast ch - 1) \<and> msg_byte w 1 = ucast key AND 0x7f \<and>
         msg_byte w 2 = ucast vel AND 0x7f \<and> msg_byte w 3 = 0"
      by (cases "od_Handle x = 0") (simp_all, metis pack_bytes One_nat_def)
    moreover have "map_option od_Handle (out_heap m ?d) = Some (od_Handle x)" using x by simp
    ultimately show ?thesis unfolding if_P [OF True] using d(2,3) by blast
  next
    case False
    then show ?thesis using assms(2-4) g by (auto simp: plPlayNote_def)
  qed
qed

theorem plPlayNote_sends_witness:
  "\<exists>m m' w. plPlayNote m (map (VNum \<circ> cast_num) [0, 16, 60, 100, 144]) = answer m' (map (VNum \<circ> cast_num) [0, 16, 60, 100, 144]) 0 \<and>
    mm_calls m' = mm_calls m @ [OutShortMsg 9 w] \<and> msg_byte w 0 = 0x9F"
proof -
  let ?m = "demo_midi\<lparr>pMidiOutDevList := 96, out_heap := [96 \<mapsto> \<lparr>od_Number = 0, od_Handle = 9, od_next = 0\<rparr>]\<rparr>"
  let ?S = "map (VNum \<circ> cast_num) [0, 16, 60, 100, 144]"
  have l: "midi_lists ?m [96] [64] (\<lambda>_. [])"
    by (simp add: midi_lists_def ev_lists_def demo_midi_def in_first_def)
  have o: "0 \<in> open_outs ?m" "outs ?m = [96]"
    using midi_lists_eq [OF l] by (simp_all add: open_outs_def out_num_def)
  have c: "luaL_checkinteger ?S 1 = Ok 0" "luaL_checkinteger ?S 2 = Ok 16" "luaL_checkinteger ?S 3 = Ok 60"
    "luaL_checkinteger ?S 4 = Ok 100" "luaL_checkinteger ?S 5 = Ok 144"
    using lua_number2int_signed [of 0] lua_number2int_signed [of 16] lua_number2int_signed [of 60] lua_number2int_signed [of 100]
      lua_number2int_signed [of 144] by (simp_all add: luaL_checkinteger_num)
  have "lua_gettop ?S = 5" by (simp add: lua_gettop_def)
  from plPlayNote_sends [OF midi_lists_inv [OF l] this c] o obtain w where
    w: "plPlayNote ?m ?S = answer (mm_log ?m (OutShortMsg 9 w)) ?S 0" "msg_byte w 0 = (ucast (144 :: u32) AND 0xf0) OR (ucast (16 :: u32) - 1)"
    by auto
  moreover have "(ucast (144 :: u32) AND 0xf0) OR (ucast (16 :: u32) - 1) = (0x9F :: u8)" by simp
  ultimately show ?thesis by (metis mm_log_sel(6))
qed

text \<open>the callback takes messages of the first channel only: a note, controller or pitch bend message
of any other channel is dropped, so the channel that \<open>GetMessage\<close> reports is always 1.\<close>

theorem MidiReceive_first_channel:
  "(msg_byte w 0 AND 0x0f \<noteq> 0 \<longrightarrow> MidiReceive A m num w = Ok m) \<and>
   (accepted w \<longrightarrow> event_fields \<lparr>ev_event = msg_byte w 0, ev_dat1 = b, ev_dat2 = c, ev_next = p\<rparr> ! 1 = 1)"
proof (intro conjI impI)
  show "MidiReceive A m num w = Ok m" if "msg_byte w 0 AND 0x0f \<noteq> 0"
    by (rule MidiReceive_rejects) (use that in \<open>auto simp: accepted_def\<close>)
  show "event_fields \<lparr>ev_event = msg_byte w 0, ev_dat1 = b, ev_dat2 = c, ev_next = p\<rparr> ! 1 = 1" if "accepted w"
    using that by (auto simp: accepted_def event_fields_def)
qed

theorem MidiReceive_first_channel_witness:
  "MidiReceive demo_mm demo_midi 0 0x00403C91 = Ok demo_midi \<and>
   event_fields \<lparr>ev_event = 0x90, ev_dat1 = 0x3C, ev_dat2 = 0x40, ev_next = 0\<rparr> ! 1 = 1"
proof -
  have b: "msg_byte 0x00403C91 0 AND 0x0f \<noteq> 0" "msg_byte 0x00403C90 0 = 0x90" by (simp_all add: msg_byte_def)
  show ?thesis
    using MidiReceive_first_channel [where w = "0x00403C91" and A = demo_mm and m = demo_midi and num = 0]
      MidiReceive_first_channel [where w = "0x00403C90" and b = "0x3C" and c = "0x40" and p = 0] b demo_note(1) by simp
qed

end
