(* ===== verification/ProfiSerial.thy ===== *)
theory ProfiSerial
  imports LuaApi
begin

text \<open>
  profiserial.c: the serial library. The wrapper library asSerialCollect is not part of the
  repository (only its header is): its functions are a parameter that gives the result of a
  call from the calls made before, and the calls themselves are the state. A result of type
  \<open>bool\<close> is 0 or 1.
\<close>

datatype ser_call =
    Mount | UnMount int | Check int int | Open int int | Close int | SendByte int int
  | BufferCount int | Config int int int int int | ReadByte int | BufferFlush int

type_synonym serlib = "ser_call list \<Rightarrow> ser_call \<Rightarrow> int"

definition ser_int :: "serlib \<Rightarrow> ser_call list \<Rightarrow> ser_call \<Rightarrow> ser_call list \<times> int" where
  "ser_int A h c = (h @ [c], A h c)"

definition ser_bool :: "serlib \<Rightarrow> ser_call list \<Rightarrow> ser_call \<Rightarrow> ser_call list \<times> int" where
  "ser_bool A h c = (h @ [c], if A h c \<noteq> 0 then 1 else 0)"

text \<open>The conversion of a double to \<open>int\<close> (C gives no meaning to a value that does not fit).\<close>

definition cast_int :: "lua_Number \<Rightarrow> int res" where
  "cast_int d =
     (if \<not> dbl_isnan d \<and> \<not> dbl_isinf d \<and> - (2 ^ 31) \<le> dbl_trunc d \<and> dbl_trunc d < 2 ^ 31
      then Ok (dbl_trunc d)
      else Fail (Undefined ''double out of the range of int''))"

definition int_arg :: "frame \<Rightarrow> int \<Rightarrow> int res" where
  "int_arg S idx = rbind (lua_tonumber S idx) cast_int"

text \<open>The common end of the functions: the result is pushed as a number.\<close>

definition push_ret :: "frame \<Rightarrow> ser_call list \<times> int \<Rightarrow> (ser_call list \<times> frame \<times> int) res" where
  "push_ret S = (\<lambda>(h, ret). Ok (h, lua_pushnumber S (cast_num ret), 1))"

section \<open>The functions\<close>

definition plSerialMount :: "serlib \<Rightarrow> ser_call list \<Rightarrow> frame \<Rightarrow> (ser_call list \<times> frame \<times> int) res" where
  "plSerialMount A h S = (if lua_gettop S = 0 then push_ret S (ser_int A h Mount) else push_ret S (h, 0))"

definition plSerialUnMount :: "serlib \<Rightarrow> ser_call list \<Rightarrow> frame \<Rightarrow> (ser_call list \<times> frame \<times> int) res" where
  "plSerialUnMount A h S =
     (if lua_gettop S = 1 then rbind (int_arg S 1) (\<lambda>hnd. push_ret S (ser_bool A h (UnMount hnd))) else push_ret S (h, 0))"

definition plSerialCheck :: "serlib \<Rightarrow> ser_call list \<Rightarrow> frame \<Rightarrow> (ser_call list \<times> frame \<times> int) res" where
  "plSerialCheck A h S =
     (if lua_gettop S = 2
      then rbind (int_arg S 1) (\<lambda>hnd. rbind (int_arg S 2) (\<lambda>port. push_ret S (ser_bool A h (Check hnd port))))
      else push_ret S (h, 0))"

definition plSerialOpen :: "serlib \<Rightarrow> ser_call list \<Rightarrow> frame \<Rightarrow> (ser_call list \<times> frame \<times> int) res" where
  "plSerialOpen A h S =
     (if lua_gettop S = 2
      then rbind (int_arg S 1) (\<lambda>hnd. rbind (int_arg S 2) (\<lambda>port. push_ret S (ser_bool A h (Open hnd port))))
      else push_ret S (h, 0))"

definition plSerialClose :: "serlib \<Rightarrow> ser_call list \<Rightarrow> frame \<Rightarrow> (ser_call list \<times> frame \<times> int) res" where
  "plSerialClose A h S =
     (if lua_gettop S = 1 then rbind (int_arg S 1) (\<lambda>hnd. push_ret S (ser_bool A h (Close hnd))) else push_ret S (h, 0))"

definition plSerialBufferCount :: "serlib \<Rightarrow> ser_call list \<Rightarrow> frame \<Rightarrow> (ser_call list \<times> frame \<times> int) res" where
  "plSerialBufferCount A h S =
     (if lua_gettop S = 1 then rbind (int_arg S 1) (\<lambda>hnd. push_ret S (ser_int A h (BufferCount hnd))) else push_ret S (h, - 1))"

definition plSerialConfig :: "serlib \<Rightarrow> ser_call list \<Rightarrow> frame \<Rightarrow> (ser_call list \<times> frame \<times> int) res" where
  "plSerialConfig A h S =
     (if lua_gettop S = 5
      then rbind (int_arg S 1) (\<lambda>hnd. rbind (int_arg S 2) (\<lambda>baud. rbind (int_arg S 3) (\<lambda>bits.
             rbind (int_arg S 4) (\<lambda>par. rbind (int_arg S 5) (\<lambda>stop. push_ret S (ser_bool A h (Config hnd baud bits par stop)))))))
      else push_ret S (h, 0))"

definition plSerialReadByte :: "serlib \<Rightarrow> ser_call list \<Rightarrow> frame \<Rightarrow> (ser_call list \<times> frame \<times> int) res" where
  "plSerialReadByte A h S =
     (if lua_gettop S = 1 then rbind (int_arg S 1) (\<lambda>hnd. push_ret S (ser_int A h (ReadByte hnd))) else push_ret S (h, - 1))"

definition plSerialBufferFlush :: "serlib \<Rightarrow> ser_call list \<Rightarrow> frame \<Rightarrow> (ser_call list \<times> frame \<times> int) res" where
  "plSerialBufferFlush A h S =
     (if lua_gettop S = 1 then rbind (int_arg S 1) (\<lambda>hnd. push_ret S (ser_bool A h (BufferFlush hnd))) else push_ret S (h, 0))"

section \<open>Sending\<close>

text \<open>A character as an \<open>int\<close>: \<open>char\<close> is signed.\<close>

definition signed_char :: "char \<Rightarrow> int" where
  "signed_char c = (if of_char c < (128 :: int) then of_char c else of_char c - 256)"

text \<open>The loop over the bytes of a string, with the sum of the results in \<open>ret\<close>.\<close>

definition send_char :: "serlib \<Rightarrow> frame \<Rightarrow> char \<Rightarrow> ser_call list \<times> int \<Rightarrow> (ser_call list \<times> int) res" where
  "send_char A S c = (\<lambda>(h, ret). rbind (int_arg S 1) (\<lambda>hnd.
     let (h', r) = ser_bool A h (SendByte hnd (signed_char c)) in Ok (h', ret + r)))"

definition send_string :: "serlib \<Rightarrow> frame \<Rightarrow> string \<Rightarrow> ser_call list \<times> int \<Rightarrow> (ser_call list \<times> int) res" where
  "send_string A S s = foldM (send_char A S) s"

text \<open>One element of a table: the number of the last call replaces the sum. The flag tells whether the
loop goes on.\<close>

definition send_element :: "world \<Rightarrow> serlib \<Rightarrow> u32 \<Rightarrow> ser_call list \<times> int \<Rightarrow> lua_State \<Rightarrow> ((ser_call list \<times> int) \<times> lua_State \<times> bool) res" where
  "send_element W A i st S =
     rbind (lua_gettable W (api_push S (VNum (cast_num (uint i)))) 2) (\<lambda>S1.
     rbind (lua_type (L_stack S1) (- 1)) (\<lambda>t.
       if t = 3 then
         rbind (int_arg (L_stack S1) 1) (\<lambda>hnd. rbind (int_arg (L_stack S1) (- 1)) (\<lambda>b.
         rbind (api_pop S1 1) (\<lambda>S2. Ok (ser_bool A (fst st) (SendByte hnd b), S2, True))))
       else if t = 4 then
         rbind (api_top S1 1) (\<lambda>v.
         rbind (send_string A (L_stack S1) (case v of VStr s \<Rightarrow> s | _ \<Rightarrow> []) st) (\<lambda>st'.
         rbind (api_pop S1 1) (\<lambda>S2. Ok (st', S2, True))))
       else rbind (api_pop S1 1) (\<lambda>S2. Ok (st, S2, False))))"

text \<open>The loop over a table may run for ever (a table can have a value for every index through its
metatable), which is the value \<open>None\<close>.\<close>

partial_function (option) send_table ::
  "world \<Rightarrow> serlib \<Rightarrow> u32 \<Rightarrow> ser_call list \<times> int \<Rightarrow> lua_State \<Rightarrow> ((ser_call list \<times> int) \<times> lua_State) res option" where
  "send_table W A i st S =
     (case send_element W A i st S of
        Inl e \<Rightarrow> Some (Inl e)
      | Inr r \<Rightarrow> if snd (snd r) then send_table W A (i + 1) (fst r) (fst (snd r)) else Some (Inr (fst r, fst (snd r))))"

definition push_sent :: "((ser_call list \<times> int) \<times> lua_State) res \<Rightarrow> (ser_call list \<times> lua_State \<times> int) res" where
  "push_sent r = rbind r (\<lambda>((h, ret), S). Ok (h, api_push S (VNum (cast_num ret)), 1))"

definition plSerialSend :: "world \<Rightarrow> serlib \<Rightarrow> ser_call list \<Rightarrow> lua_State \<Rightarrow> (ser_call list \<times> lua_State \<times> int) res option" where
  "plSerialSend W A h S =
     (let F = L_stack S in
      if lua_gettop F = 2 then
        (case F ! 1 of
           VNum n \<Rightarrow> Some (push_sent (rbind (int_arg F 1) (\<lambda>hnd. rbind (int_arg F 2) (\<lambda>b.
             Ok (ser_bool A h (SendByte hnd b), S)))))
         | VStr s \<Rightarrow> Some (push_sent (rbind (send_string A F s (h, 0)) (\<lambda>st. Ok (st, S))))
         | VTable p \<Rightarrow> map_option push_sent (send_table W A 1 (h, 0) S)
         | _ \<Rightarrow> Some (push_sent (Ok ((h, 0), S))))
      else Some (push_sent (Ok ((h, 0), S))))"

definition serial_funcs :: "(string \<times> string) list" where
  "serial_funcs =
     [(''Mount'', ''plSerialMount''), (''UnMount'', ''plSerialUnMount''), (''CheckPort'', ''plSerialCheck''), (''Open'', ''plSerialOpen''),
      (''Close'', ''plSerialClose''), (''Send'', ''plSerialSend''), (''BufferCount'', ''plSerialBufferCount''),
      (''Config'', ''plSerialConfig''), (''ReadByte'', ''plSerialReadByte''), (''BufferFlush'', ''plSerialBufferFlush'')]"

section \<open>What is sent\<close>

text \<open>The bytes of an element.\<close>

definition element_bytes :: "TValue \<Rightarrow> int list" where
  "element_bytes v = (case v of VNum n \<Rightarrow> [dbl_trunc n] | VStr s \<Rightarrow> map signed_char s | _ \<Rightarrow> [])"

definition sendable :: "TValue \<Rightarrow> bool" where
  "sendable v \<longleftrightarrow> (case v of VNum n \<Rightarrow> cast_int n = Ok (dbl_trunc n) | VStr s \<Rightarrow> True | _ \<Rightarrow> False)"

text \<open>The number of bytes that the library accepts of a sequence of bytes that is sent after the calls \<open>h\<close>.\<close>

primrec accepted :: "serlib \<Rightarrow> int \<Rightarrow> ser_call list \<Rightarrow> int list \<Rightarrow> int" where
  "accepted A hnd h [] = 0"
| "accepted A hnd h (b # bs) = (if A h (SendByte hnd b) \<noteq> 0 then 1 else 0) + accepted A hnd (h @ [SendByte hnd b]) bs"

definition all_bytes :: "TValue list \<Rightarrow> int list" where
  "all_bytes vs = concat (map element_bytes vs)"

definition is_number :: "TValue \<Rightarrow> bool" where
  "is_number v = (case v of VNum _ \<Rightarrow> True | _ \<Rightarrow> False)"

text \<open>The index of the last number of a list, 0 when it has none.\<close>

primrec last_number :: "TValue list \<Rightarrow> nat" where
  "last_number [] = 0"
| "last_number (v # vs) = (if list_ex is_number vs then Suc (last_number vs) else 0)"

lemma accepted_append:
  "accepted A hnd h (as @ bs) = accepted A hnd h as + accepted A hnd (h @ map (SendByte hnd) as) bs"
  by (induction as arbitrary: h) simp_all

lemma accepted_all: "(\<And>h c. A h c \<noteq> 0) \<Longrightarrow> accepted A hnd h bs = int (length bs)"
  by (induction bs arbitrary: h) simp_all

lemma send_string_ok:
  assumes "int_arg S 1 = Ok hnd"
  shows "send_string A S s (h, r) = Ok (h @ map (\<lambda>c. SendByte hnd (signed_char c)) s, r + accepted A hnd h (map signed_char s))"
proof (induction s arbitrary: h r)
  case (Cons c s)
  then show ?case using assms by (simp add: send_string_def send_char_def ser_bool_def)
qed (simp add: send_string_def)

lemma int_arg_first: "length S = length S' \<Longrightarrow> int_arg (v # S) 1 = int_arg (v # S') 1"
  by (simp add: int_arg_def lua_tonumber_def index2adr_def)

lemma int_arg_one: "int_arg (v # S) 1 = rbind (lua_tonumber [v] 1) cast_int"
  by (simp add: int_arg_def lua_tonumber_def index2adr_def)

definition element_count :: "serlib \<Rightarrow> int \<Rightarrow> ser_call list \<Rightarrow> int \<Rightarrow> TValue \<Rightarrow> int" where
  "element_count A hnd h r v = (if is_number v then 0 else r) + accepted A hnd h (element_bytes v)"

lemma send_element_ok:
  assumes S: "L_stack S = [v, VTable p]" "plain_table S p R" and h: "int_arg [v] 1 = Ok hnd"
    and i: "0 < i" "i < 2 ^ 30" "int_val R i = x"
  shows "sendable x \<Longrightarrow> send_element W A (of_nat i) (hs, r) S =
      Ok ((hs @ map (SendByte hnd) (element_bytes x), element_count A hnd hs r x), S, True)"
    and "x = VNil \<Longrightarrow> send_element W A (of_nat i) (hs, r) S = Ok ((hs, r), S, False)"
proof -
  have u: "uint (of_nat i :: u32) = int i" using i(2) by (simp add: uint_nat unsigned_of_nat take_bit_nat_eq_self)
  let ?k = "VNum (cast_num (int i))"
  have k: "valid_key ?k" using i(2) by simp
  have ix: "index_value (api_push S ?k) 2 = Ok (Some (VTable p))"
    using S(1) by (simp add: index_value_def index2adr_def)
  have g: "lua_gettable W (api_push S ?k) 2 = Ok (api_push S x)"
    using gettable_push [OF S(2) k ix, of W] i(3) by simp
  have t: "lua_type (L_stack (api_push S x)) (- 1) = Ok (ttype x)"
    by (simp add: lua_type_def index2adr_def)
  have h1: "int_arg (L_stack (api_push S x)) 1 = Ok hnd" using h by (simp add: S(1) int_arg_one)
  have tp: "api_top (api_push S x) (Suc 0) = Ok x" using api_top_1 [of "api_push S x" "L_stack S" x] by simp
  show "send_element W A (of_nat i) (hs, r) S =
      Ok ((hs @ map (SendByte hnd) (element_bytes x), element_count A hnd hs r x), S, True)" if "sendable x"
  proof (cases x)
    case (VNum n)
    have "int_arg (L_stack (api_push S x)) (- 1) = Ok (dbl_trunc n)"
      using that VNum by (simp add: int_arg_def lua_tonumber_def index2adr_def luaV_tonumber_def sendable_def)
    then show ?thesis using g t h1 VNum by (simp add: send_element_def u ser_bool_def element_bytes_def element_count_def is_number_def)
  next
    case (VStr s)
    note send_string_ok [OF h1, of A s hs r]
    then show ?thesis using g t tp VStr by (simp add: send_element_def u element_bytes_def comp_def element_count_def is_number_def)
  qed (use that in \<open>simp_all add: sendable_def\<close>)
  show "send_element W A (of_nat i) (hs, r) S = Ok ((hs, r), S, False)" if "x = VNil"
    using g t that by (simp add: send_element_def u)
qed

lemma send_table_ok:
  assumes S: "L_stack S = [v, VTable p]" "plain_table S p R" and h: "int_arg [v] 1 = Ok hnd"
    and n: "k + Suc (length vs) < 2 ^ 30" and vs: "\<And>i. i < length vs \<Longrightarrow> int_val R (k + Suc i) = vs ! i \<and> sendable (vs ! i)"
    and e: "int_val R (k + Suc (length vs)) = VNil"
  shows "send_table W A (of_nat (Suc k)) (hs, r) S = Some (Ok ((hs @ map (SendByte hnd) (all_bytes vs),
    (if list_ex is_number vs
     then accepted A hnd (hs @ map (SendByte hnd) (all_bytes (take (last_number vs) vs))) (all_bytes (drop (last_number vs) vs))
     else r + accepted A hnd hs (all_bytes vs))), S))"
  using n vs e
proof (induction vs arbitrary: k hs r)
  case Nil
  have "send_element W A (of_nat (Suc k)) (hs, r) S = Ok ((hs, r), S, False)"
    by (rule send_element_ok(2) [OF S h]) (use Nil in simp_all)
  then show ?case by (subst send_table.simps) (simp add: all_bytes_def)
next
  case (Cons x vs)
  let ?hs = "hs @ map (SendByte hnd) (element_bytes x)"
  have x: "int_val R (Suc k) = x" "sendable x" using Cons.prems(2) [of 0] by simp_all
  have 1: "send_element W A (of_nat (Suc k)) (hs, r) S = Ok ((?hs, element_count A hnd hs r x), S, True)"
    by (rule send_element_ok(1) [OF S h]) (use Cons.prems(1) x in simp_all)
  have 2: "send_table W A (of_nat (Suc (Suc k))) (?hs, r') S = Some (Ok ((?hs @ map (SendByte hnd) (all_bytes vs),
    (if list_ex is_number vs
     then accepted A hnd (?hs @ map (SendByte hnd) (all_bytes (take (last_number vs) vs))) (all_bytes (drop (last_number vs) vs))
     else r' + accepted A hnd ?hs (all_bytes vs))), S))" for r'
    using Cons.prems Cons.prems(2) [of "Suc i" for i] by (intro Cons.IH) auto
  have "send_table W A (of_nat (Suc k)) (hs, r) S = send_table W A (of_nat (Suc (Suc k))) (?hs, element_count A hnd hs r x) S"
    unfolding send_table.simps [of W A "of_nat (Suc k)"] 1 by (simp add: add.commute)
  then show ?case unfolding 2
    by (simp add: all_bytes_def accepted_append element_count_def)
qed

text \<open>C28: \<open>Send\<close> with a table of numbers and strings sends the bytes of all elements in their order and
stops at the first nil, leaving the stack as it was below the result, whatever the library answers.
What it reports is not the number of bytes sent: it is the number of bytes that the library accepted
from the last number of the table on, because each number makes the count start again.\<close>

theorem plSerialSend_table:
  assumes "L_stack S = [v, VTable p]" and "plain_table S p R" and "int_arg [v] 1 = Ok hnd"
    and "Suc (length vs) < 2 ^ 30" and "\<And>i. i < length vs \<Longrightarrow> int_val R (Suc i) = vs ! i \<and> sendable (vs ! i)"
    and "int_val R (Suc (length vs)) = VNil"
  shows "plSerialSend W A h S =
    Some (Ok (h @ map (SendByte hnd) (all_bytes vs),
      api_push S (VNum (cast_num (accepted A hnd (h @ map (SendByte hnd) (all_bytes (take (last_number vs) vs)))
        (all_bytes (drop (last_number vs) vs))))), 1))"
proof -
  have "last_number vs = 0" if "\<not> list_ex is_number vs" using that by (cases vs) simp_all
  then show ?thesis
    using send_table_ok [of S v p R hnd 0 vs W A h 0] assms
    by (auto simp: plSerialSend_def lua_gettop_def push_sent_def all_bytes_def)
qed

lemma demo_array:
  obtains h where "table_inv h" "t_metatable h = 0" "int_val h 1 = VNum (cast_num 65)" "int_val h 2 = VNum (cast_num 66)" "int_val h 3 = VNil"
proof -
  let ?vs = "[VNum (cast_num 65), VNum (cast_num 66)]"
  have "length ?vs \<le> MAXASIZE" by (simp add: MAXASIZE_def MAXBITS_def)
  from array_table_ex [OF this] obtain h where h: "table_inv h" "t_metatable h = 0" "\<forall>i<2. int_val h (Suc i) = ?vs ! i"
    "\<forall>i. 2 < i \<longrightarrow> i < 2 ^ 30 \<longrightarrow> int_val h i = VNil" by auto
  have "int_val h 1 = VNum (cast_num 65)" "int_val h 2 = VNum (cast_num 66)"
    using h(3) [rule_format, of 0] h(3) [rule_format, of 1] by (simp_all add: numeral_2_eq_2)
  moreover have "int_val h 3 = VNil" using h(4) [rule_format, of 3] by simp
  ultimately show thesis using that h by blast
qed

theorem plSerialSend_table_witness:
  "\<exists>S S' W. plSerialSend W (\<lambda>h c. 1) [] S = Some (Ok ([SendByte 1 65, SendByte 1 66], S', 1)) \<and>
    L_stack S' = L_stack S @ [VNum (cast_num 1)]"
proof -
  obtain h where h: "table_inv h" "t_metatable h = 0" "int_val h 1 = VNum (cast_num 65)" "int_val h 2 = VNum (cast_num 66)" "int_val h 3 = VNil"
    by (rule demo_array)
  let ?S = "(start_state h)\<lparr>L_stack := [VNum (cast_num 1), VTable 64]\<rparr>"
  let ?vs = "[VNum (cast_num 65), VNum (cast_num 66)]"
  have c: "cast_int (cast_num i) = Ok i" if "\<bar>i\<bar> < 2 ^ 31" for i
    using that cast_num_finite [of i] dbl_trunc_cast_num [of i] by (auto simp: cast_int_def)
  have t: "dbl_trunc (cast_num 65) = 65" "dbl_trunc (cast_num 66) = 66"
    using dbl_trunc_cast_num [of 65] dbl_trunc_cast_num [of 66] by simp_all
  have S: "L_stack ?S = [VNum (cast_num 1), VTable 64]" "plain_table ?S 64 h"
    using h by (simp_all add: plain_table_def start_state_def)
  have i: "int_arg [VNum (cast_num 1)] 1 = Ok 1"
    using c [of 1] by (simp add: int_arg_def lua_tonumber_def index2adr_def luaV_tonumber_def)
  have vs: "int_val h (Suc j) = ?vs ! j \<and> sendable (?vs ! j)" if "j < length ?vs" for j
    using that h(3,4) c [of 65] c [of 66] t by (auto simp: less_Suc_eq sendable_def numeral_2_eq_2)
  have "int_val h (Suc (length ?vs)) = VNil" using h(5) by simp
  from plSerialSend_table [OF S i _ vs this, of W "\<lambda>h c. 1" "[]" for W]
  have "plSerialSend W (\<lambda>h c. 1) [] ?S = Some (Ok ([SendByte 1 65, SendByte 1 66], api_push ?S (VNum (cast_num 1)), 1))" for W
    using t by (simp add: element_bytes_def all_bytes_def is_number_def)
  moreover have "L_stack (api_push ?S (VNum (cast_num 1))) = L_stack ?S @ [VNum (cast_num 1)]" by simp
  ultimately show ?thesis by blast
qed

end
