(* ===== verification/LuaDump.thy ===== *)
theory LuaDump
  imports LuaProto
begin

text \<open>
  ldump.c and the header of lundump.c: writing a function prototype as a precompiled chunk. The
  writer is the client's function: it gets the blocks one after another, with its own state, and
  the first result that is not 0 stops the output.
\<close>

type_synonym 'd lua_Writer = "'d \<Rightarrow> bytes \<Rightarrow> int \<times> 'd"

record 'd DumpState =
  D_writer :: "'d lua_Writer"
  D_data :: 'd
  D_strip :: bool
  D_status :: int

definition LUA_SIGNATURE :: bytes where "LUA_SIGNATURE = 27 # str_bytes ''Lua''"
definition LUAC_VERSION :: u8 where "LUAC_VERSION = 0x51"
definition LUAC_FORMAT :: u8 where "LUAC_FORMAT = 0"
definition LUAC_HEADERSIZE :: nat where "LUAC_HEADERSIZE = 12"

text \<open>The header: signature, version, format, the lowest byte of the \<open>int\<close> 1, the sizes of \<open>int\<close>,
\<open>size_t\<close>, instructions and numbers, and whether numbers are integral.\<close>

definition luaU_header :: bytes where
  "luaU_header = LUA_SIGNATURE @ [LUAC_VERSION, LUAC_FORMAT, int_bytes 1 ! 0, 4, 4, 4, 8, 0]"

definition DumpBlock :: "bytes \<Rightarrow> 'd DumpState \<Rightarrow> 'd DumpState" where
  "DumpBlock b D =
     (if D_status D = 0
      then (case D_writer D (D_data D) b of (st, d) \<Rightarrow> D\<lparr>D_status := st, D_data := d\<rparr>)
      else D)"

definition DumpChar :: "u8 \<Rightarrow> 'd DumpState \<Rightarrow> 'd DumpState" where
  "DumpChar y D = DumpBlock [y] D"

definition DumpInt :: "int \<Rightarrow> 'd DumpState \<Rightarrow> 'd DumpState" where
  "DumpInt x D = DumpBlock (int_bytes x) D"

definition DumpNumber :: "lua_Number \<Rightarrow> 'd DumpState \<Rightarrow> 'd DumpState" where
  "DumpNumber x D = DumpBlock (le_bytes 8 x) D"

text \<open>A vector is given by the bytes of its elements and their number.\<close>

definition DumpVector :: "bytes \<Rightarrow> int \<Rightarrow> 'd DumpState \<Rightarrow> 'd DumpState" where
  "DumpVector b n D = DumpBlock b (DumpInt n D)"

definition DumpString :: "string option \<Rightarrow> 'd DumpState \<Rightarrow> 'd DumpState" where
  "DumpString s D =
     (case s of
        None \<Rightarrow> DumpBlock (le_bytes 4 (0 :: u32)) D
      | Some s' \<Rightarrow>
          (let sz = of_nat (length s') + 1 :: u32 in
           DumpBlock (take (unat sz) (str_bytes s' @ [0])) (DumpBlock (le_bytes 4 sz) D)))"

definition DumpCode :: "Proto \<Rightarrow> 'd DumpState \<Rightarrow> 'd DumpState" where
  "DumpCode f D = DumpVector (concat (map (le_bytes 4) (p_code f))) (int (length (p_code f))) D"

text \<open>One constant; the default case of the switch cannot happen (no compiled function has such a
constant) and writes only the tag.\<close>

definition DumpConstant :: "TValue \<Rightarrow> 'd DumpState \<Rightarrow> 'd DumpState" where
  "DumpConstant v D =
     (let D1 = DumpChar (word_of_int (ttype v)) D in
      case v of
        VNil \<Rightarrow> D1
      | VBool b \<Rightarrow> DumpChar (if b then 1 else 0) D1
      | VNum n \<Rightarrow> DumpNumber n D1
      | VStr s \<Rightarrow> DumpString (Some s) D1
      | _ \<Rightarrow> D1)"

definition DumpLocVar :: "LocVar \<Rightarrow> 'd DumpState \<Rightarrow> 'd DumpState" where
  "DumpLocVar v D = DumpInt (endpc v) (DumpInt (startpc v) (DumpString (varname v) D))"

definition DumpDebug :: "Proto \<Rightarrow> 'd DumpState \<Rightarrow> 'd DumpState" where
  "DumpDebug f D =
     (let n = (if D_strip D then 0 else length (p_lineinfo f));
          D1 = DumpVector (concat (map int_bytes (take n (p_lineinfo f)))) (int n) D;
          n = (if D_strip D then 0 else length (p_locvars f));
          D2 = fold DumpLocVar (take n (p_locvars f)) (DumpInt (int n) D1);
          n = (if D_strip D then 0 else length (p_upvalues f))
      in fold DumpString (take n (p_upvalues f)) (DumpInt (int n) D2))"

text \<open>\<open>DumpConstants\<close> ends with the nested functions, so the two are mutually recursive.\<close>

function DumpFunction :: "Proto \<Rightarrow> string option \<Rightarrow> 'd DumpState \<Rightarrow> 'd DumpState"
  and DumpConstants :: "Proto \<Rightarrow> 'd DumpState \<Rightarrow> 'd DumpState" where
  "DumpFunction f p D =
     (let D = DumpString (if p_source f = p \<or> D_strip D then None else p_source f) D;
          D = DumpInt (p_linedefined f) D;
          D = DumpInt (p_lastlinedefined f) D;
          D = DumpChar (p_nups f) D;
          D = DumpChar (p_numparams f) D;
          D = DumpChar (p_is_vararg f) D;
          D = DumpChar (p_maxstacksize f) D;
          D = DumpCode f D;
          D = DumpConstants f D
      in DumpDebug f D)"
| "DumpConstants f D =
     (let n = int (length (p_k f));
          D = DumpInt n D;
          D = fold DumpConstant (p_k f) D;
          n = int (length (p_p f));
          D = DumpInt n D
      in fold (\<lambda>g. DumpFunction g (p_source f)) (p_p f) D)"
  by pat_completeness auto
termination
  by (relation "measure (\<lambda>x. case x of Inl (f, p, D) \<Rightarrow> 2 * size f + 1 | Inr (f, D) \<Rightarrow> 2 * size f)")
    (auto dest: proto_in_size)

declare DumpFunction.simps [simp del] DumpConstants.simps [simp del]

definition DumpHeader :: "'d DumpState \<Rightarrow> 'd DumpState" where
  "DumpHeader D = DumpBlock luaU_header D"

definition luaU_dump :: "Proto \<Rightarrow> 'd lua_Writer \<Rightarrow> 'd \<Rightarrow> bool \<Rightarrow> int \<times> 'd" where
  "luaU_dump f w data strip =
     (let D = \<lparr>D_writer = w, D_data = data, D_strip = strip, D_status = 0\<rparr>;
          D = DumpHeader D;
          D = DumpFunction f None D
      in (D_status D, D_data D))"

end
