(* ===== verification/LuaZio.thy ===== *)
theory LuaZio
  imports LuaPrelude
begin

text \<open>
  lzio.c, lzio.h: buffered streams. A stream has the bytes of the current block that are still
  unread (the pointer \<open>p\<close> and the count \<open>n\<close> of the code are this list and its length) and a
  reader that gives the next block. The reader is the client's function: a parameter with its
  own state, which gives a block or NULL. The lemmas show that reading does not depend on how the
  reader cuts the input into blocks.
\<close>

text \<open>A reader returns NULL (\<open>None\<close>) or a block.\<close>

type_synonym 'd lua_Reader = "'d \<Rightarrow> bytes option \<times> 'd"

record 'd ZIO =
  z_p :: bytes
  z_reader :: "'d lua_Reader"
  z_data :: 'd

definition EOZ :: int where "EOZ = - 1"

definition char2int :: "u8 \<Rightarrow> int" where "char2int c = uint c"

definition luaZ_fill :: "'d ZIO \<Rightarrow> int \<times> 'd ZIO" where
  "luaZ_fill z =
     (case z_reader z (z_data z) of
        (None, d) \<Rightarrow> (EOZ, z\<lparr>z_data := d\<rparr>)
      | (Some [], d) \<Rightarrow> (EOZ, z\<lparr>z_data := d\<rparr>)
      | (Some (c # buff), d) \<Rightarrow> (char2int c, z\<lparr>z_data := d, z_p := buff\<rparr>))"

text \<open>The byte that \<open>luaZ_fill\<close> took out of the block is put back (\<open>p--\<close>).\<close>

definition luaZ_lookahead :: "'d ZIO \<Rightarrow> int \<times> 'd ZIO" where
  "luaZ_lookahead z =
     (case z_p z of
        [] \<Rightarrow> (let (c, z1) = luaZ_fill z in
               if c = EOZ then (EOZ, z1)
               else (let z2 = z1\<lparr>z_p := word_of_int c # z_p z1\<rparr> in (char2int (z_p z2 ! 0), z2)))
      | c # _ \<Rightarrow> (char2int c, z))"

definition luaZ_init :: "'d lua_Reader \<Rightarrow> 'd \<Rightarrow> 'd ZIO" where
  "luaZ_init reader data = \<lparr>z_p = [], z_reader = reader, z_data = data\<rparr>"

lemma char2int_range [simp]: "0 \<le> char2int c" "char2int c < 256"
  using uint_bounded [of c] by (simp_all add: char2int_def)

lemma char2int_EOZ [simp]: "char2int c \<noteq> EOZ"
  using char2int_range(1) [of c] by (auto simp: EOZ_def simp del: char2int_range)

lemma word_of_char2int [simp]: "word_of_int (char2int c) = c"
  by (simp add: char2int_def)

lemma luaZ_lookahead_cases:
  "luaZ_lookahead z =
     (case z_p z of
        [] \<Rightarrow> (case z_reader z (z_data z) of
                 (Some (c # buff), d) \<Rightarrow> (char2int c, z\<lparr>z_data := d, z_p := c # buff\<rparr>)
               | (_, d) \<Rightarrow> (EOZ, z\<lparr>z_data := d\<rparr>))
      | c # _ \<Rightarrow> (char2int c, z))"
  by (auto simp: luaZ_lookahead_def luaZ_fill_def Let_def split: list.split prod.split option.split)

lemma luaZ_lookahead_unread: "luaZ_lookahead z = (c, z') \<Longrightarrow> c \<noteq> EOZ \<Longrightarrow> z_p z' \<noteq> []"
  by (auto simp: luaZ_lookahead_cases split: list.splits prod.splits option.splits)

text \<open>The bytes that were copied to the buffer, the number of bytes that are missing, and the stream.\<close>

function luaZ_read :: "'d ZIO \<Rightarrow> nat \<Rightarrow> bytes \<times> nat \<times> 'd ZIO" where
  "luaZ_read z n =
     (if n = 0 then ([], 0, z)
      else (case luaZ_lookahead z of (c, z1) \<Rightarrow>
        if c = EOZ then ([], n, z1)
        else (let m = (if n \<le> length (z_p z1) then n else length (z_p z1)) in
              case luaZ_read (z1\<lparr>z_p := drop m (z_p z1)\<rparr>) (n - m) of (b, r, z2) \<Rightarrow> (take m (z_p z1) @ b, r, z2))))"
  by pat_completeness auto
termination
proof (relation "measure snd")
  fix z :: "'d ZIO" and n m :: nat and c z1
  assume "n \<noteq> 0" "(c, z1) = luaZ_lookahead z" "c \<noteq> EOZ" "m = (if n \<le> length (z_p z1) then n else length (z_p z1))"
  then show "((z1\<lparr>z_p := drop m (z_p z1)\<rparr>, n - m), (z, n)) \<in> measure snd"
    using luaZ_lookahead_unread [of z c z1] by (cases "z_p z1") auto
qed simp

declare luaZ_read.simps [simp del]

section \<open>Reading does not depend on the blocks\<close>

text \<open>\<open>gives z bs\<close>: the stream still yields the bytes \<open>bs\<close> (and maybe more), from the current block
and from the next blocks of the reader, which may end at any byte.\<close>

inductive gives :: "'d ZIO \<Rightarrow> bytes \<Rightarrow> bool" where
  gives_block: "z_p z = bs @ r \<Longrightarrow> gives z bs"
| gives_more: "z_reader z (z_data z) = (Some b, d) \<Longrightarrow> b \<noteq> [] \<Longrightarrow> gives (z\<lparr>z_data := d, z_p := b\<rparr>) bs \<Longrightarrow> gives z (z_p z @ bs)"

lemma append_long:
  assumes "a @ b = p @ q" "length p \<le> length a"
  shows "\<exists>a'. a = p @ a' \<and> q = a' @ b"
proof -
  have "p = take (length p) (a @ b)" "q = drop (length p) (a @ b)" by (simp_all add: assms(1))
  then have "a = p @ drop (length p) a" "q = drop (length p) a @ b"
    using assms(2) append_take_drop_id [of "length p" a] by simp_all
  then show ?thesis by blast
qed

lemma gives_drop:
  assumes "gives z (a @ b)" "length a \<le> length (z_p z)"
  shows "a = take (length a) (z_p z) \<and> gives (z\<lparr>z_p := drop (length a) (z_p z)\<rparr>) b"
  using assms(1)
proof (cases rule: gives.cases)
  case (gives_block r)
  then show ?thesis by (auto intro: gives.gives_block)
next
  case (gives_more bl d bs)
  then have "\<exists>p'. z_p z = a @ p' \<and> b = p' @ bs"
    using assms(2) append_long [of "z_p z" bs a b] by simp
  then obtain p' where p: "z_p z = a @ p'" "b = p' @ bs" by blast
  let ?z = "z\<lparr>z_p := p'\<rparr>"
  have "gives ?z (z_p ?z @ bs)"
    by (rule gives.gives_more) (use gives_more in simp_all)
  then show ?thesis using p by simp
qed

lemma gives_next:
  assumes "gives z (a @ b)" "length (z_p z) < length a"
  shows "\<exists>a' bl d. a = z_p z @ a' \<and> z_reader z (z_data z) = (Some bl, d) \<and> bl \<noteq> [] \<and> gives (z\<lparr>z_data := d, z_p := bl\<rparr>) (a' @ b)"
  using assms(1)
proof (cases rule: gives.cases)
  case (gives_block r)
  then show ?thesis using assms(2) by simp
next
  case (gives_more bl d bs)
  then have "\<exists>a'. a = z_p z @ a' \<and> bs = a' @ b"
    using assms(2) append_long [of a b "z_p z" bs] by simp
  then show ?thesis using gives_more by auto
qed

lemma luaZ_read_gives: "gives z (a @ b) \<Longrightarrow> \<exists>z'. luaZ_read z (length a) = (a, 0, z') \<and> gives z' b"
proof (induction z "length a" arbitrary: a rule: luaZ_read.induct)
  case (1 z)
  show ?case
  proof (cases "a = []")
    case True
    then show ?thesis using 1(2) by (simp add: luaZ_read.simps)
  next
    case a: False
    obtain c z1 where l: "luaZ_lookahead z = (c, z1)" "c \<noteq> EOZ" "gives z1 (a @ b)" "z_p z1 \<noteq> []"
    proof (cases "z_p z")
      case Nil
      then obtain bl d where "z_reader z (z_data z) = (Some bl, d)" "bl \<noteq> []" "gives (z\<lparr>z_data := d, z_p := bl\<rparr>) (a @ b)"
        using gives_next [OF 1(2)] a by auto
      then show thesis using that Nil by (cases bl) (auto simp: luaZ_lookahead_cases)
    next
      case (Cons c p)
      then show thesis using that 1(2) by (auto simp: luaZ_lookahead_cases)
    qed
    show ?thesis
    proof (cases "length a \<le> length (z_p z1)")
      case True
      from gives_drop [OF l(3) True] have g: "take (length a) (z_p z1) = a" "gives (z1\<lparr>z_p := drop (length a) (z_p z1)\<rparr>) b" by simp_all
      then show ?thesis using l True a
        by (subst luaZ_read.simps) (simp add: luaZ_read.simps [of _ 0])
    next
      case False
      then obtain a' bl d where n: "a = z_p z1 @ a'" "z_reader z1 (z_data z1) = (Some bl, d)" "bl \<noteq> []"
          "gives (z1\<lparr>z_data := d, z_p := bl\<rparr>) (a' @ b)"
        using gives_next [OF l(3)] by auto
      let ?z = "z1\<lparr>z_p := []\<rparr>"
      have "gives ?z (z_p ?z @ (a' @ b))"
        by (rule gives.gives_more) (use n in simp_all)
      then have "\<exists>z'. luaZ_read ?z (length a') = (a', 0, z') \<and> gives z' b"
        using 1(1) [OF _ l(1) [symmetric] l(2) refl, of a'] a n False by simp
      then show ?thesis using l False a n
        by (subst luaZ_read.simps) auto
    qed
  qed
qed

text \<open>A stream over one block.\<close>

definition one_block :: "bytes \<Rightarrow> bytes option \<times> bytes" where
  "one_block d = (Some d, [])"

end
