(* ===== verification/LuaCheck.thy ===== *)
theory LuaCheck
  imports LuaProto
begin

text \<open>
  ldebug.c: the symbolic execution of a function. With \<open>reg = NO_REG\<close> it is the verifier of
  precompiled code (\<open>luaG_checkcode\<close>); with a register it finds the last instruction before
  \<open>lastpc\<close> that changed the register, from which \<open>getobjname\<close> finds a name for a value in an
  error message. A failing \<open>check\<close> leaves the function with 0: it is the value \<open>Ok None\<close>. Every
  access to the arrays of the prototype is checked to be inside of them.
\<close>

type_synonym 'a chk = "'a option res"

definition check :: "bool \<Rightarrow> 'a chk \<Rightarrow> 'a chk" where
  "check c k = (if c then k else Ok None)"

definition cbind :: "'a chk \<Rightarrow> ('a \<Rightarrow> 'b chk) \<Rightarrow> 'b chk" where
  "cbind r f = rbind r (\<lambda>x. case x of None \<Rightarrow> Ok None | Some y \<Rightarrow> f y)"

definition LUA_MULTRET :: int where "LUA_MULTRET = - 1"
definition MAXSTACK :: int where "MAXSTACK = 250"

definition sizecode :: "Proto \<Rightarrow> int" where "sizecode pt = int (length (p_code pt))"
definition sizek :: "Proto \<Rightarrow> int" where "sizek pt = int (length (p_k pt))"
definition sizep :: "Proto \<Rightarrow> int" where "sizep pt = int (length (p_p pt))"
definition maxstacksize :: "Proto \<Rightarrow> int" where "maxstacksize pt = uint (p_maxstacksize pt)"

definition code_at :: "Proto \<Rightarrow> int \<Rightarrow> Instruction res" where
  "code_at pt pc = (if 0 \<le> pc then aget (p_code pt) (nat pc) else Fail (Undefined ''read out of bounds''))"

definition k_at :: "Proto \<Rightarrow> int \<Rightarrow> TValue res" where
  "k_at pt i = (if 0 \<le> i then aget (p_k pt) (nat i) else Fail (Undefined ''read out of bounds''))"

definition proto_at :: "Proto \<Rightarrow> int \<Rightarrow> Proto res" where
  "proto_at pt i = (if 0 \<le> i then aget (p_p pt) (nat i) else Fail (Undefined ''read out of bounds''))"

definition op_is :: "Instruction \<Rightarrow> OpCode \<Rightarrow> bool" where
  "op_is i op \<longleftrightarrow> GET_OPCODE i = op_num op"

text \<open>\<open>precheck\<close> reads the last instruction only when there is one.\<close>

definition precheck :: "Proto \<Rightarrow> bool" where
  "precheck pt \<longleftrightarrow>
     maxstacksize pt \<le> MAXSTACK \<and>
     uint (p_numparams pt) + uint (p_is_vararg pt AND VARARG_HASARG) \<le> maxstacksize pt \<and>
     (p_is_vararg pt AND VARARG_NEEDSARG = 0 \<or> p_is_vararg pt AND VARARG_HASARG \<noteq> 0) \<and>
     int (length (p_upvalues pt)) \<le> uint (p_nups pt) \<and>
     (length (p_lineinfo pt) = length (p_code pt) \<or> length (p_lineinfo pt) = 0) \<and>
     p_code pt \<noteq> [] \<and> op_is (p_code pt ! (length (p_code pt) - 1)) OP_RETURN"

definition luaG_checkopenop :: "Instruction \<Rightarrow> bool" where
  "luaG_checkopenop i \<longleftrightarrow>
     (case opcode_of (GET_OPCODE i) of
        Some op \<Rightarrow> op \<in> set [OP_CALL, OP_TAILCALL, OP_RETURN, OP_SETLIST] \<and> GETARG_B i = 0
      | None \<Rightarrow> False)"

definition checkopenop :: "Proto \<Rightarrow> int \<Rightarrow> unit chk" where
  "checkopenop pt pc = rbind (code_at pt (pc + 1)) (\<lambda>i. check (luaG_checkopenop i) (Ok (Some ())))"

definition checkArgMode :: "Proto \<Rightarrow> int \<Rightarrow> OpArgMask \<Rightarrow> bool" where
  "checkArgMode pt r mode \<longleftrightarrow>
     (case mode of
        OpArgN \<Rightarrow> r = 0
      | OpArgU \<Rightarrow> True
      | OpArgR \<Rightarrow> r < maxstacksize pt
      | OpArgK \<Rightarrow> (if ISK r then INDEXK r < sizek pt else r < maxstacksize pt))"

section \<open>One instruction\<close>

text \<open>A \<open>SETLIST\<close> with C = 0 is followed by a word that is a count, not an instruction. The loop
over j looks at \<open>code[dest - 1 - j]\<close>, down to the first word that is no such \<open>SETLIST\<close>.\<close>

definition is_setlist0 :: "Instruction \<Rightarrow> bool" where
  "is_setlist0 d \<longleftrightarrow> op_is d OP_SETLIST \<and> GETARG_C d = 0"

primrec setlists_before :: "Proto \<Rightarrow> nat \<Rightarrow> nat res" where
  "setlists_before pt 0 = Ok 0"
| "setlists_before pt (Suc d) =
     rbind (code_at pt (int d)) (\<lambda>i.
       if \<not> is_setlist0 i then Ok 0 else rbind (setlists_before pt d) (\<lambda>j. Ok (j + 1)))"

text \<open>The arguments B and C of the instruction and the checks of their modes.\<close>

definition check_args :: "Proto \<Rightarrow> OpCode \<Rightarrow> Instruction \<Rightarrow> int \<Rightarrow> (int \<times> int) chk" where
  "check_args pt op i pc =
     (case getOpMode (op_num op) of
        iABC \<Rightarrow>
          (let b = GETARG_B i; c = GETARG_C i in
           check (checkArgMode pt b (getBMode (op_num op)))
             (check (checkArgMode pt c (getCMode (op_num op))) (Ok (Some (b, c)))))
      | iABx \<Rightarrow>
          (let b = GETARG_Bx i in
           if getBMode (op_num op) = OpArgK then check (b < sizek pt) (Ok (Some (b, 0))) else Ok (Some (b, 0)))
      | iAsBx \<Rightarrow>
          (let b = GETARG_sBx i in
           if getBMode (op_num op) = OpArgR
           then (let dest = pc + 1 + b in
                 check (0 \<le> dest \<and> dest < sizecode pt)
                   (if 0 < dest
                    then rbind (setlists_before pt (nat dest)) (\<lambda>j. check (j AND 1 = 0) (Ok (Some (b, 0))))
                    else Ok (Some (b, 0))))
           else Ok (Some (b, 0))))"

text \<open>A test instruction is followed by a jump.\<close>

definition check_test :: "Proto \<Rightarrow> OpCode \<Rightarrow> int \<Rightarrow> unit chk" where
  "check_test pt op pc =
     (if testTMode (op_num op)
      then check (pc + 2 < sizecode pt) (rbind (code_at pt (pc + 1)) (\<lambda>i. check (op_is i OP_JMP) (Ok (Some ()))))
      else Ok (Some ()))"

primrec check_pseudo :: "Proto \<Rightarrow> int \<Rightarrow> nat list \<Rightarrow> unit chk" where
  "check_pseudo pt pc [] = Ok (Some ())"
| "check_pseudo pt pc (j # js) =
     rbind (code_at pt (pc + int j)) (\<lambda>i. check (op_is i OP_GETUPVAL \<or> op_is i OP_MOVE) (check_pseudo pt pc js))"

text \<open>The switch over the opcode: the new values of \<open>pc\<close> and \<open>last\<close>.\<close>

definition check_jmp :: "int \<Rightarrow> int \<Rightarrow> int \<Rightarrow> int \<Rightarrow> int \<Rightarrow> (int \<times> int) chk" where
  "check_jmp lastpc reg b pc lst =
     (let dest = pc + 1 + b in
      if reg \<noteq> NO_REG \<and> pc < dest \<and> dest \<le> lastpc then Ok (Some (pc + b, lst)) else Ok (Some (pc, lst)))"

definition check_call :: "Proto \<Rightarrow> int \<Rightarrow> int \<Rightarrow> int \<Rightarrow> int \<Rightarrow> int \<Rightarrow> int \<Rightarrow> (int \<times> int) chk" where
  "check_call pt reg a b c pc lst =
     check (b \<noteq> 0 \<longrightarrow> a + b - 1 < maxstacksize pt)
       (let c = c - 1 in
        cbind (if c = LUA_MULTRET then checkopenop pt pc
               else if c \<noteq> 0 then check (a + c - 1 < maxstacksize pt) (Ok (Some ()))
               else Ok (Some ()))
          (\<lambda>_. Ok (Some (pc, if a \<le> reg then pc else lst))))"

definition check_closure :: "Proto \<Rightarrow> int \<Rightarrow> int \<Rightarrow> int \<Rightarrow> int \<Rightarrow> (int \<times> int) chk" where
  "check_closure pt reg b pc lst =
     check (b < sizep pt)
       (rbind (proto_at pt b) (\<lambda>f.
          let nup = unat (p_nups f) in
          check (pc + int nup < sizecode pt)
            (cbind (check_pseudo pt pc [1..<nup + 1])
              (\<lambda>_. Ok (Some (if reg \<noteq> NO_REG then pc + int nup else pc, lst))))))"

definition check_op :: "Proto \<Rightarrow> int \<Rightarrow> int \<Rightarrow> OpCode \<Rightarrow> int \<Rightarrow> int \<Rightarrow> int \<Rightarrow> int \<Rightarrow> int \<Rightarrow> (int \<times> int) chk" where
  "check_op pt lastpc reg op a b c pc lst =
     (case op of
        OP_LOADBOOL \<Rightarrow>
          (if c = 1
           then check (pc + 2 < sizecode pt)
                  (rbind (code_at pt (pc + 1)) (\<lambda>i. check (\<not> op_is i OP_SETLIST \<or> GETARG_C i \<noteq> 0) (Ok (Some (pc, lst)))))
           else Ok (Some (pc, lst)))
      | OP_LOADNIL \<Rightarrow> Ok (Some (pc, if a \<le> reg \<and> reg \<le> b then pc else lst))
      | OP_GETUPVAL \<Rightarrow> check (b < uint (p_nups pt)) (Ok (Some (pc, lst)))
      | OP_SETUPVAL \<Rightarrow> check (b < uint (p_nups pt)) (Ok (Some (pc, lst)))
      | OP_GETGLOBAL \<Rightarrow> rbind (k_at pt b) (\<lambda>v. check (ttype v = 4) (Ok (Some (pc, lst))))
      | OP_SETGLOBAL \<Rightarrow> rbind (k_at pt b) (\<lambda>v. check (ttype v = 4) (Ok (Some (pc, lst))))
      | OP_SELF \<Rightarrow> check (a + 1 < maxstacksize pt) (Ok (Some (pc, if reg = a + 1 then pc else lst)))
      | OP_CONCAT \<Rightarrow> check (b < c) (Ok (Some (pc, lst)))
      | OP_TFORLOOP \<Rightarrow>
          check (1 \<le> c) (check (a + 2 + c < maxstacksize pt) (Ok (Some (pc, if a + 2 \<le> reg then pc else lst))))
      | OP_FORLOOP \<Rightarrow> check (a + 3 < maxstacksize pt) (check_jmp lastpc reg b pc lst)
      | OP_FORPREP \<Rightarrow> check (a + 3 < maxstacksize pt) (check_jmp lastpc reg b pc lst)
      | OP_JMP \<Rightarrow> check_jmp lastpc reg b pc lst
      | OP_CALL \<Rightarrow> check_call pt reg a b c pc lst
      | OP_TAILCALL \<Rightarrow> check_call pt reg a b c pc lst
      | OP_RETURN \<Rightarrow> (let b = b - 1 in check (0 < b \<longrightarrow> a + b - 1 < maxstacksize pt) (Ok (Some (pc, lst))))
      | OP_SETLIST \<Rightarrow>
          check (0 < b \<longrightarrow> a + b < maxstacksize pt)
            (if c = 0 then (let pc = pc + 1 in check (pc < sizecode pt - 1) (Ok (Some (pc, lst)))) else Ok (Some (pc, lst)))
      | OP_CLOSURE \<Rightarrow> check_closure pt reg b pc lst
      | OP_VARARG \<Rightarrow>
          check (p_is_vararg pt AND VARARG_ISVARARG \<noteq> 0 \<and> p_is_vararg pt AND VARARG_NEEDSARG = 0)
            (let b = b - 1 in
             cbind (if b = LUA_MULTRET then checkopenop pt pc else Ok (Some ()))
               (\<lambda>_. check (a + b - 1 < maxstacksize pt) (Ok (Some (pc, lst)))))
      | _ \<Rightarrow> Ok (Some (pc, lst)))"

text \<open>The body of the loop.\<close>

definition symb_step :: "Proto \<Rightarrow> int \<Rightarrow> int \<Rightarrow> int \<Rightarrow> int \<Rightarrow> (int \<times> int) chk" where
  "symb_step pt lastpc reg pc lst =
     rbind (code_at pt pc) (\<lambda>i.
       case opcode_of (GET_OPCODE i) of
         None \<Rightarrow> Ok None
       | Some op \<Rightarrow>
           (let a = GETARG_A i in
            check (a < maxstacksize pt)
              (cbind (check_args pt op i pc) (\<lambda>(b, c).
                 let lst = (if testAMode (op_num op) \<and> a = reg then pc else lst) in
                 cbind (check_test pt op pc) (\<lambda>_. check_op pt lastpc reg op a b c pc lst)))))"

section \<open>The loop\<close>

lemma check_Some [simp]: "check c k = Ok (Some x) \<longleftrightarrow> c \<and> k = Ok (Some x)"
  by (simp add: check_def)

lemma cbind_simps [simp]:
  "cbind (Ok (Some x)) f = f x" "cbind (Ok None) f = Ok None" "cbind (Fail e) f = Fail e"
  by (simp_all add: cbind_def)

lemma cbind_Some [simp]: "cbind r f = Ok (Some y) \<longleftrightarrow> (\<exists>x. r = Ok (Some x) \<and> f x = Ok (Some y))"
  by (auto simp: cbind_def rbind_Ok_iff split: option.splits)

lemma cbind_cong [fundef_cong]: "r = r' \<Longrightarrow> (\<And>x. r' = Ok (Some x) \<Longrightarrow> f x = g x) \<Longrightarrow> cbind r f = cbind r' g"
  by (auto simp: cbind_def intro!: rbind_cong split: option.split)

lemma check_jmp_pc: "check_jmp lastpc reg b pc lst = Ok (Some (pc', lst')) \<Longrightarrow> pc \<le> pc'"
  by (auto simp: check_jmp_def Let_def split: if_splits)

lemma check_op_pc: "check_op pt lastpc reg op a b c pc lst = Ok (Some (pc', lst')) \<Longrightarrow> pc \<le> pc'"
  by (cases op)
    (auto simp: check_op_def check_call_def check_closure_def rbind_Ok_iff Let_def split: if_splits dest: check_jmp_pc)

lemma symb_step_pc: "symb_step pt lastpc reg pc lst = Ok (Some (pc', lst')) \<Longrightarrow> pc \<le> pc'"
  by (auto simp: symb_step_def rbind_Ok_iff Let_def split: option.splits dest: check_op_pc)

function symb_loop :: "Proto \<Rightarrow> int \<Rightarrow> int \<Rightarrow> int \<Rightarrow> int \<Rightarrow> int chk" where
  "symb_loop pt lastpc reg pc lst =
     (if pc < lastpc
      then cbind (symb_step pt lastpc reg pc lst) (\<lambda>(pc', lst'). symb_loop pt lastpc reg (pc' + 1) lst')
      else Ok (Some lst))"
  by pat_completeness auto
termination
  by (relation "measure (\<lambda>(pt, lastpc, reg, pc, lst). nat (lastpc - pc))") (auto dest: symb_step_pc)

declare symb_loop.simps [simp del]

text \<open>The result 0 stands for a failed check.\<close>

definition symbexec :: "Proto \<Rightarrow> int \<Rightarrow> int \<Rightarrow> Instruction res" where
  "symbexec pt lastpc reg =
     (if \<not> precheck pt then Ok 0
      else rbind (symb_loop pt lastpc reg 0 (sizecode pt - 1)) (\<lambda>r.
        case r of None \<Rightarrow> Ok 0 | Some lst \<Rightarrow> code_at pt lst))"

definition luaG_checkcode :: "Proto \<Rightarrow> bool res" where
  "luaG_checkcode pt = rbind (symbexec pt (sizecode pt) NO_REG) (\<lambda>i. Ok (i \<noteq> 0))"

text \<open>A \<open>MOVE\<close> that the execution finds is one into the register (so the search for a name goes
to lower and lower registers).\<close>

definition moves_to :: "Proto \<Rightarrow> int \<Rightarrow> int \<Rightarrow> bool" where
  "moves_to pt reg l \<longleftrightarrow> (\<forall>i. code_at pt l = Ok i \<longrightarrow> op_is i OP_MOVE \<longrightarrow> GETARG_A i = reg)"

lemma check_op_last:
  "check_op pt lastpc reg op a b c pc lst = Ok (Some (pc', lst')) \<Longrightarrow> lst' = lst \<or> (lst' = pc \<and> op \<noteq> OP_MOVE)"
  by (cases op)
    (auto simp: check_op_def check_call_def check_closure_def check_jmp_def rbind_Ok_iff Let_def split: if_splits)

lemma symb_step_last:
  assumes "symb_step pt lastpc reg pc lst = Ok (Some (pc', lst'))" "moves_to pt reg lst"
  shows "moves_to pt reg lst'"
proof -
  from assms(1) obtain i op b c where i: "code_at pt pc = Ok i" "opcode_of (GET_OPCODE i) = Some op"
    "check_op pt lastpc reg op (GETARG_A i) b c pc (if testAMode (op_num op) \<and> GETARG_A i = reg then pc else lst) = Ok (Some (pc', lst'))"
    by (auto simp: symb_step_def rbind_Ok_iff Let_def split: option.splits)
  have "op \<noteq> OP_MOVE \<or> GETARG_A i = reg \<Longrightarrow> moves_to pt reg pc"
    using i(1,2) by (auto simp: moves_to_def op_is_def)
  then show ?thesis using check_op_last [OF i(3)] assms(2) by (auto split: if_splits)
qed

lemma symb_loop_last:
  "symb_loop pt lastpc reg pc lst = Ok (Some l) \<Longrightarrow> moves_to pt reg lst \<Longrightarrow> moves_to pt reg l"
proof (induction pt lastpc reg pc lst rule: symb_loop.induct)
  case (1 pt lastpc reg pc lst)
  then show ?case
    by (subst (asm) (2) symb_loop.simps) (fastforce split: if_splits dest: symb_step_last)
qed

lemma op_num_inject [simp]: "op_num x = op_num y \<longleftrightarrow> x = y"
  using opcode_of_num(1) [of x] opcode_of_num(1) [of y] by (metis option.inject)

lemma symbexec_move:
  assumes "symbexec pt lastpc reg = Ok i" "opcode_of (GET_OPCODE i) = Some OP_MOVE" "GETARG_B i < GETARG_A i"
  shows "GETARG_A i = reg"
proof (cases "i = 0")
  case True
  then show ?thesis using assms(3) by (simp add: getarg_fields)
next
  case False
  with assms(1) obtain l where l: "symb_loop pt lastpc reg 0 (sizecode pt - 1) = Ok (Some l)" "code_at pt l = Ok i" "precheck pt"
    by (auto simp: symbexec_def rbind_Ok_iff split: if_splits option.splits)
  have "moves_to pt reg (sizecode pt - 1)"
    using l(3) by (auto simp: moves_to_def precheck_def op_is_def code_at_def aget_Ok_iff sizecode_def nat_diff_distrib' split: if_splits)
  from symb_loop_last [OF l(1) this] show ?thesis
    using l(2) assms(2) by (simp add: moves_to_def op_is_def opcode_of_Some)
qed

section \<open>The name of a value\<close>

definition kname :: "Proto \<Rightarrow> int \<Rightarrow> string res" where
  "kname p c =
     (if ISK c then rbind (k_at p (INDEXK c)) (\<lambda>v. case v of VStr s \<Rightarrow> Ok s | _ \<Rightarrow> Ok ''?'') else Ok ''?'')"

text \<open>\<open>getobjname\<close> for a Lua function \<open>p\<close> at the instruction \<open>pc\<close>: the kind of the name and the name.\<close>

function getobjname :: "Proto \<Rightarrow> int \<Rightarrow> int \<Rightarrow> (string \<times> string) option res" where
  "getobjname p pc stackpos =
     rbind (luaF_getlocalname p (stackpos + 1) pc) (\<lambda>l.
     case l of Some n \<Rightarrow> Ok (Some (''local'', n)) | None \<Rightarrow>
     rbind (symbexec p pc stackpos) (\<lambda>i.
       case opcode_of (GET_OPCODE i) of
         Some OP_GETGLOBAL \<Rightarrow>
           rbind (k_at p (GETARG_Bx i)) (\<lambda>v.
             case v of VStr s \<Rightarrow> Ok (Some (''global'', s)) | _ \<Rightarrow> Fail (Undefined ''name of a global is no string''))
       | Some OP_MOVE \<Rightarrow>
           (let a = GETARG_A i; b = GETARG_B i in
            if b < a then (if b < stackpos then getobjname p pc b else Fail NoFuel) else Ok None)
       | Some OP_GETTABLE \<Rightarrow> rbind (kname p (GETARG_C i)) (\<lambda>n. Ok (Some (''field'', n)))
       | Some OP_GETUPVAL \<Rightarrow>
           (if p_upvalues p = [] then Ok (Some (''upvalue'', ''?''))
            else rbind (aget (p_upvalues p) (nat (GETARG_B i))) (\<lambda>u.
              case u of Some s \<Rightarrow> Ok (Some (''upvalue'', s)) | None \<Rightarrow> Fail (Undefined ''name of an upvalue is NULL'')))
       | Some OP_SELF \<Rightarrow> rbind (kname p (GETARG_C i)) (\<lambda>n. Ok (Some (''method'', n)))
       | _ \<Rightarrow> Ok None))"
  by pat_completeness auto
termination
  by (relation "measure (\<lambda>(p, pc, stackpos). nat stackpos)") (auto dest: symbexec_move intro: le_less_trans [OF conjunct1 [OF getarg_range(2)]])

end
