(* ===== verification/LuaUndump.thy ===== *)
theory LuaUndump
  imports LuaDump LuaZio LuaCheck
begin

text \<open>
  lundump.c: reading a precompiled chunk. A loader takes the load state (the stream and the name of
  the chunk for messages) and gives a value and the new state, or raises an error. The number of
  nested C calls (\<open>L->nCcalls\<close>) goes up and down with the nesting of functions: it is an argument.
  The prototypes on the Lua stack (for the collector) are not modelled, and memory does not run
  out, but a vector whose size does not fit \<open>size_t\<close> is an error.
\<close>

record 'd LoadState =
  S_Z :: "'d ZIO"
  S_name :: string

type_synonym ('d, 'a) loader = "'d LoadState \<Rightarrow> ('a \<times> 'd LoadState) res"

definition lret :: "'a \<Rightarrow> ('d, 'a) loader" where
  "lret x = (\<lambda>S. Ok (x, S))"

definition lbind :: "('d, 'a) loader \<Rightarrow> ('a \<Rightarrow> ('d, 'b) loader) \<Rightarrow> ('d, 'b) loader" where
  "lbind l f = (\<lambda>S. rbind (l S) (\<lambda>(x, S'). f x S'))"

primrec lrepeat :: "nat \<Rightarrow> ('d, 'a) loader \<Rightarrow> ('d, 'a list) loader" where
  "lrepeat 0 l = lret []"
| "lrepeat (Suc n) l = lbind l (\<lambda>x. lbind (lrepeat n l) (\<lambda>xs. lret (x # xs)))"

text \<open>\<open>error(S, why)\<close>.\<close>

definition lerror :: "string \<Rightarrow> ('d, 'a) loader" where
  "lerror why = (\<lambda>S. Fail (SyntaxError (S_name S @ '': '' @ why @ '' in precompiled chunk'')))"

definition lift_res :: "'a res \<Rightarrow> ('d, 'a) loader" where
  "lift_res r = (\<lambda>S. rbind r (\<lambda>x. Ok (x, S)))"

text \<open>\<open>luaM_newvector\<close> for \<open>n\<close> elements of \<open>e\<close> bytes: \<open>n + 1\<close> is computed as an \<open>int\<close>.\<close>

definition MAX_SIZET :: int where "MAX_SIZET = 2 ^ 32 - 3"

definition luaM_newvector :: "int \<Rightarrow> int \<Rightarrow> unit res" where
  "luaM_newvector n e =
     (if 2 ^ 31 \<le> n + 1 then Fail (Undefined ''overflow of int'')
      else if uint (word_of_int (n + 1) :: u32) \<le> MAX_SIZET div e then Ok ()
      else Fail (LuaError ''memory allocation error: block too big''))"

definition LUAI_MAXCCALLS :: nat where "LUAI_MAXCCALLS = 200"

section \<open>The parts of a chunk\<close>

definition LoadBlock :: "nat \<Rightarrow> ('d, bytes) loader" where
  "LoadBlock n = (\<lambda>S. case luaZ_read (S_Z S) n of (b, r, z) \<Rightarrow>
     let S' = S\<lparr>S_Z := z\<rparr> in
     if r \<noteq> 0 then lerror ''unexpected end'' S' else Ok (b, S'))"

definition LoadChar :: "('d, int) loader" where
  "LoadChar = lbind (LoadBlock 1) (\<lambda>b. lret (sint (b ! 0)))"

definition LoadByte :: "('d, u8) loader" where
  "LoadByte = lbind LoadChar (\<lambda>x. lret (word_of_int x))"

definition LoadInt :: "('d, int) loader" where
  "LoadInt = lbind (LoadBlock 4) (\<lambda>b. let x = of_int_bytes b in if x < 0 then lerror ''bad integer'' else lret x)"

definition LoadNumber :: "('d, lua_Number) loader" where
  "LoadNumber = lbind (LoadBlock 8) (\<lambda>b. lret (of_le b))"

definition LoadString :: "('d, string option) loader" where
  "LoadString = lbind (LoadBlock 4) (\<lambda>b.
     let sz = unat (of_le b :: u32) in
     if sz = 0 then lret None
     else lbind (LoadBlock sz) (\<lambda>s. lret (Some (of_str_bytes (take (sz - 1) s)))))"

text \<open>The elements of a vector of 4-byte elements.\<close>

definition vector4 :: "nat \<Rightarrow> bytes \<Rightarrow> bytes list" where
  "vector4 n b = map (\<lambda>i. take 4 (drop (4 * i) b)) [0..<n]"

definition LoadCode :: "('d, Instruction list) loader" where
  "LoadCode = lbind LoadInt (\<lambda>n.
     lbind (lift_res (luaM_newvector n 4)) (\<lambda>_.
     lbind (LoadBlock (nat n * 4)) (\<lambda>b. lret (map of_le (vector4 (nat n) b)))))"

text \<open>One constant. A string constant that is NULL would be a value without a string.\<close>

definition LoadConstant :: "('d, TValue) loader" where
  "LoadConstant = lbind LoadChar (\<lambda>t.
     if t = 0 then lret VNil
     else if t = 1 then lbind LoadChar (\<lambda>b. lret (VBool (b \<noteq> 0)))
     else if t = 3 then lbind LoadNumber (\<lambda>n. lret (VNum n))
     else if t = 4 then lbind LoadString (\<lambda>s.
       case s of Some s' \<Rightarrow> lret (VStr s') | None \<Rightarrow> lift_res (Fail (Undefined ''string constant is NULL'')))
     else lerror ''bad constant'')"

definition LoadLocVar :: "('d, LocVar) loader" where
  "LoadLocVar = lbind LoadString (\<lambda>n. lbind LoadInt (\<lambda>s. lbind LoadInt (\<lambda>e.
     lret \<lparr>varname = n, startpc = s, endpc = e\<rparr>)))"

definition LoadDebug :: "('d, int list \<times> LocVar list \<times> string option list) loader" where
  "LoadDebug =
     lbind LoadInt (\<lambda>n.
     lbind (lift_res (luaM_newvector n 4)) (\<lambda>_.
     lbind (LoadBlock (nat n * 4)) (\<lambda>b.
     lbind LoadInt (\<lambda>nl.
     lbind (lift_res (luaM_newvector nl 12)) (\<lambda>_.
     lbind (lrepeat (nat nl) LoadLocVar) (\<lambda>vs.
     lbind LoadInt (\<lambda>nu.
     lbind (lift_res (luaM_newvector nu 4)) (\<lambda>_.
     lbind (lrepeat (nat nu) LoadString) (\<lambda>us.
     lret (map of_int_bytes (vector4 (nat n) b), vs, us))))))))))"

section \<open>Functions\<close>

text \<open>The arguments are the number of nested calls and the source of the enclosing function.\<close>

function LoadFunction :: "nat \<Rightarrow> string option \<Rightarrow> ('d, Proto) loader"
  and LoadConstants :: "nat \<Rightarrow> string option \<Rightarrow> ('d, TValue list \<times> Proto list) loader" where
  "LoadFunction c p =
     (if LUAI_MAXCCALLS < c + 1 then lerror ''code too deep''
      else
        lbind LoadString (\<lambda>s.
        let source = (case s of None \<Rightarrow> p | Some _ \<Rightarrow> s) in
        lbind LoadInt (\<lambda>linedefined.
        lbind LoadInt (\<lambda>lastlinedefined.
        lbind LoadByte (\<lambda>nups.
        lbind LoadByte (\<lambda>numparams.
        lbind LoadByte (\<lambda>is_vararg.
        lbind LoadByte (\<lambda>maxstack.
        lbind LoadCode (\<lambda>code.
        lbind (LoadConstants (c + 1) source) (\<lambda>(k, ps).
        lbind LoadDebug (\<lambda>(lineinfo, locvars, upvalues).
        let f = Proto k code ps lineinfo locvars upvalues source linedefined lastlinedefined nups numparams is_vararg maxstack in
        lbind (lift_res (luaG_checkcode f)) (\<lambda>ok.
        if \<not> ok then lerror ''bad code'' else lret f))))))))))))"
| "LoadConstants c source =
     lbind LoadInt (\<lambda>n.
     lbind (lift_res (luaM_newvector n 16)) (\<lambda>_.
     lbind (lrepeat (nat n) LoadConstant) (\<lambda>k.
     lbind LoadInt (\<lambda>np.
     lbind (lift_res (luaM_newvector np 4)) (\<lambda>_.
     lbind (lrepeat (nat np) (LoadFunction c source)) (\<lambda>ps.
     lret (k, ps)))))))"
  by pat_completeness auto
termination
  by (relation "measure (\<lambda>x. case x of Inl (c, p) \<Rightarrow> 2 * (201 - c) | Inr (c, p) \<Rightarrow> 2 * (201 - c) + 1)")
    (auto simp: LUAI_MAXCCALLS_def)

declare LoadFunction.simps [simp del] LoadConstants.simps [simp del]

definition LoadHeader :: "('d, unit) loader" where
  "LoadHeader = lbind (LoadBlock LUAC_HEADERSIZE) (\<lambda>s. if luaU_header \<noteq> s then lerror ''bad header'' else lret ())"

text \<open>The name of the chunk in messages.\<close>

definition chunk_name :: "string \<Rightarrow> string" where
  "chunk_name name =
     (case name of
        [] \<Rightarrow> name
      | c # cs \<Rightarrow> if c = CHR ''@'' \<or> c = CHR ''='' then cs else if of_char c = LUA_SIGNATURE ! 0 then ''binary string'' else name)"

definition luaU_undump :: "nat \<Rightarrow> 'd ZIO \<Rightarrow> string \<Rightarrow> (Proto \<times> 'd ZIO) res" where
  "luaU_undump nCcalls Z name =
     rbind (lbind LoadHeader (\<lambda>_. LoadFunction nCcalls (Some ''=?'')) \<lparr>S_Z = Z, S_name = chunk_name name\<rparr>)
       (\<lambda>(f, S). Ok (f, S_Z S))"

end
