(* ===== verification/LuaCheckProps.thy ===== *)
theory LuaCheckProps
  imports LuaCheck
begin

text \<open>
  The verifier of precompiled code is safe and does what the virtual machine relies on: it never
  reads outside the arrays of the function, whatever the function is, and in a function that it
  accepts every operand is in range and every instruction is followed, on every path that the
  virtual machine can take (lvm.c), by an instruction of the same function.
\<close>

section \<open>The verifier stays inside the function\<close>

abbreviation no_fail :: "'a res \<Rightarrow> bool" where "no_fail r \<equiv> \<exists>x. r = Ok x"

lemma no_fail_check [intro]: "(c \<Longrightarrow> no_fail k) \<Longrightarrow> no_fail (check c k)"
  by (simp add: check_def)

lemma no_fail_rbind [intro]: "no_fail r \<Longrightarrow> (\<And>x. r = Ok x \<Longrightarrow> no_fail (f x)) \<Longrightarrow> no_fail (rbind r f)"
  by (cases r) auto

lemma no_fail_cbind [intro]: "no_fail r \<Longrightarrow> (\<And>x. r = Ok (Some x) \<Longrightarrow> no_fail (f x)) \<Longrightarrow> no_fail (cbind r f)"
  by (auto simp: cbind_def split: option.split)

lemma code_at_in [simp]: "0 \<le> pc \<Longrightarrow> pc < sizecode pt \<Longrightarrow> code_at pt pc = Ok (p_code pt ! nat pc)"
  by (simp add: code_at_def sizecode_def aget_def nat_less_iff)

lemma k_at_in [simp]: "0 \<le> i \<Longrightarrow> i < sizek pt \<Longrightarrow> k_at pt i = Ok (p_k pt ! nat i)"
  by (simp add: k_at_def sizek_def aget_def nat_less_iff)

lemma proto_at_in [simp]: "0 \<le> i \<Longrightarrow> i < sizep pt \<Longrightarrow> proto_at pt i = Ok (p_p pt ! nat i)"
  by (simp add: proto_at_def sizep_def aget_def nat_less_iff)

lemma code_at_OkD: "code_at pt pc = Ok i \<Longrightarrow> 0 \<le> pc \<and> pc < sizecode pt \<and> i = p_code pt ! nat pc"
  by (auto simp: code_at_def aget_Ok_iff sizecode_def split: if_splits)

lemma setlists_before_safe: "int d \<le> sizecode pt \<Longrightarrow> no_fail (setlists_before pt d)"
  by (induction d) (auto simp: rbind_Ok_iff)

lemma check_pseudo_safe: "\<forall>j \<in> set js. pc + int j < sizecode pt \<Longrightarrow> 0 \<le> pc \<Longrightarrow> no_fail (check_pseudo pt pc js)"
  by (induction js) (auto intro!: no_fail_check)

lemma checkopenop_safe: "0 \<le> pc \<Longrightarrow> pc + 1 < sizecode pt \<Longrightarrow> no_fail (checkopenop pt pc)"
  by (auto simp: checkopenop_def check_def)

lemma check_args_safe: "no_fail (check_args pt op i pc)"
  using setlists_before_safe [of "nat (pc + 1 + GETARG_sBx i)" pt]
  by (auto simp: check_args_def Let_def check_def split: OpMode.split)

lemma check_test_safe: "0 \<le> pc \<Longrightarrow> no_fail (check_test pt op pc)"
  by (auto simp: check_test_def check_def)

lemma last_is_return: "precheck pt \<Longrightarrow> pc = sizecode pt - 1 \<Longrightarrow> code_at pt pc = Ok i \<Longrightarrow> op_is i OP_RETURN"
  by (auto simp: precheck_def sizecode_def nat_diff_distrib' dest!: code_at_OkD)

text \<open>The properties of the opcodes that the checks use.\<close>

lemma op_modes:
  "getOpMode (op_num OP_GETGLOBAL) = iABx" "getBMode (op_num OP_GETGLOBAL) = OpArgK"
  "getOpMode (op_num OP_SETGLOBAL) = iABx" "getBMode (op_num OP_SETGLOBAL) = OpArgK"
  "getOpMode (op_num OP_CLOSURE) = iABx"
  by code_simp+

lemma check_global:
  assumes "check_args pt op i pc = Ok (Some (b, c))" "op = OP_GETGLOBAL \<or> op = OP_SETGLOBAL"
  shows "b = GETARG_Bx i \<and> 0 \<le> b \<and> b < sizek pt"
  using assms getarg_range(4) [of i] by (auto simp: check_args_def op_modes Let_def)

lemma check_args_nonneg: "check_args pt op i pc = Ok (Some (b, c)) \<Longrightarrow> op = OP_CLOSURE \<Longrightarrow> 0 \<le> b"
  using getarg_range(4) [of i] by (auto simp: check_args_def op_modes Let_def split: if_splits)

lemma pseudo_range: "pc + int n < s \<Longrightarrow> \<forall>j \<in> set [1..<n + 1]. pc + int j < s"
  by auto

lemma check_op_safe:
  assumes pc: "0 \<le> pc" "pc < sizecode pt" and pre: "precheck pt"
    and i: "code_at pt pc = Ok i" "opcode_of (GET_OPCODE i) = Some op" and a: "check_args pt op i pc = Ok (Some (b, c))"
  shows "no_fail (check_op pt lastpc reg op a b c pc lst)"
proof -
  have nl: "pc + 1 < sizecode pt" if "op \<noteq> OP_RETURN"
    using last_is_return [OF pre _ i(1)] that i pc by (cases "pc = sizecode pt - 1") (auto simp: op_is_def opcode_of_Some)
  have o: "no_fail (checkopenop pt pc)" if "op \<noteq> OP_RETURN" using checkopenop_safe [OF pc(1)] nl that by blast
  have cl: "no_fail (check_closure pt reg b pc lst)" if "op = OP_CLOSURE"
    unfolding check_closure_def Let_def using check_args_nonneg [OF a that] pc(1)
    by (intro no_fail_check no_fail_rbind no_fail_cbind check_pseudo_safe pseudo_range exI [of _ "p_p pt ! nat b"] exI [of _ "Some _"])
      (rule refl proto_at_in | assumption)+
  have ca: "no_fail (check_call pt reg a b c pc lst)" if "op \<noteq> OP_RETURN"
    unfolding check_call_def Let_def using o [OF that] by (intro no_fail_check no_fail_cbind) (auto simp: check_def)
  have g: "0 \<le> b \<and> b < sizek pt" if "op = OP_GETGLOBAL \<or> op = OP_SETGLOBAL"
    using check_global [OF a that] by simp
  show ?thesis
    using pc o cl ca g by (cases op) (auto simp: check_op_def check_def check_jmp_def Let_def)
qed

lemma symb_step_safe:
  assumes "0 \<le> pc" "pc < sizecode pt" "precheck pt"
  shows "no_fail (symb_step pt lastpc reg pc lst)"
proof -
  obtain i where i: "code_at pt pc = Ok i" using assms by simp
  show ?thesis
  proof (cases "opcode_of (GET_OPCODE i)")
    case (Some op)
    have "no_fail (cbind (check_args pt op i pc) (\<lambda>(b, c).
        cbind (check_test pt op pc) (\<lambda>_. check_op pt lastpc reg op (GETARG_A i) b c pc l)))" for l
      using check_args_safe check_test_safe [OF assms(1)] check_op_safe [OF assms i Some]
      by (intro no_fail_cbind) (auto intro!: no_fail_cbind)
    then show ?thesis using i Some by (auto simp: symb_step_def Let_def check_def)
  qed (simp add: symb_step_def i)
qed

lemma symb_step_next:
  assumes "symb_step pt lastpc reg pc lst = Ok (Some (pc', lst'))"
  shows "lst' = lst \<or> lst' = pc"
proof -
  from assms obtain op i b c where
    "check_op pt lastpc reg op (GETARG_A i) b c pc (if testAMode (op_num op) \<and> GETARG_A i = reg then pc else lst) = Ok (Some (pc', lst'))"
    by (auto simp: symb_step_def rbind_Ok_iff Let_def split: option.splits)
  from check_op_last [OF this] show ?thesis by (auto split: if_splits)
qed

lemma symb_loop_safe:
  assumes "precheck pt" "lastpc \<le> sizecode pt"
  shows "0 \<le> pc \<Longrightarrow> 0 \<le> lst \<Longrightarrow> lst < sizecode pt \<Longrightarrow>
    \<exists>r. symb_loop pt lastpc reg pc lst = Ok r \<and> (\<forall>l. r = Some l \<longrightarrow> 0 \<le> l \<and> l < sizecode pt)"
  using assms
proof (induction pt lastpc reg pc lst rule: symb_loop.induct)
  case (1 pt lastpc reg pc lst)
  show ?case
  proof (cases "pc < lastpc")
    case True
    obtain r where r: "symb_step pt lastpc reg pc lst = Ok r"
      using symb_step_safe [of pc pt lastpc reg lst] 1(2-6) True by auto
    show ?thesis
    proof (cases r)
      case None
      then show ?thesis using r True by (subst symb_loop.simps) simp
    next
      case (Some x)
      obtain pc' lst' where x: "x = (pc', lst')" by (cases x)
      have s: "symb_step pt lastpc reg pc lst = Ok (Some (pc', lst'))" using r Some x by simp
      have "pc \<le> pc'" "lst' = lst \<or> lst' = pc" using symb_step_pc [OF s] symb_step_next [OF s] by auto
      then have "\<exists>r. symb_loop pt lastpc reg (pc' + 1) lst' = Ok r \<and> (\<forall>l. r = Some l \<longrightarrow> 0 \<le> l \<and> l < sizecode pt)"
        using 1(2-6) True s by (intro 1(1)) auto
      then show ?thesis using s True by (subst symb_loop.simps) simp
    qed
  next
    case False
    then show ?thesis using 1(2-6) by (subst symb_loop.simps) simp
  qed
qed

text \<open>C21: the symbolic execution up to any instruction never reads outside the code, the constants or
the nested functions, and it ends, for every function at all: also for code that was read from a
damaged file and was not checked by anything else.\<close>

theorem symbexec_safe:
  assumes "lastpc \<le> sizecode pt"
  shows "\<exists>i. symbexec pt lastpc reg = Ok i"
proof (cases "precheck pt")
  case True
  then have "0 \<le> sizecode pt - 1" by (cases "p_code pt") (auto simp: precheck_def sizecode_def)
  then obtain r where r: "symb_loop pt lastpc reg 0 (sizecode pt - 1) = Ok r" "\<forall>l. r = Some l \<longrightarrow> 0 \<le> l \<and> l < sizecode pt"
    using symb_loop_safe [OF True assms, of 0 "sizecode pt - 1" reg] by auto
  then show ?thesis using True by (cases r) (auto simp: symbexec_def)
qed (simp add: symbexec_def)

section \<open>Where control can go\<close>

text \<open>The word after a \<open>SETLIST\<close> with C = 0 is skipped by the virtual machine.\<close>

definition instr_at :: "Proto \<Rightarrow> int \<Rightarrow> Instruction" where
  "instr_at pt pc = p_code pt ! nat pc"

definition next_pc :: "Proto \<Rightarrow> int \<Rightarrow> int" where
  "next_pc pt pc = (if is_setlist0 (instr_at pt pc) then pc + 2 else pc + 1)"

text \<open>The positions of instructions (and not of the counts after them).\<close>

inductive instr_from :: "Proto \<Rightarrow> int \<Rightarrow> int \<Rightarrow> bool" for pt p where
  from_here: "instr_from pt p p"
| from_next: "instr_from pt p q \<Longrightarrow> q < sizecode pt \<Longrightarrow> instr_from pt p (next_pc pt q)"

abbreviation instr_start :: "Proto \<Rightarrow> int \<Rightarrow> bool" where
  "instr_start pt \<equiv> instr_from pt 0"

lemma instr_from_cases: "instr_from pt p q \<Longrightarrow> q = p \<or> (p < sizecode pt \<and> instr_from pt (next_pc pt p) q)"
proof (induction rule: instr_from.induct)
  case (from_next q)
  then show ?case by (auto intro: instr_from.intros)
qed simp

lemma instr_from_le: "instr_from pt p q \<Longrightarrow> p \<le> q"
  by (induction rule: instr_from.induct) (auto simp: next_pc_def split: if_splits)

text \<open>The places where the machine may go on after the instruction at \<open>pc\<close> (a call comes back to the next
instruction; a test is followed by a jump that it executes or skips). That the interpreter goes on nowhere
else is lemma \<open>exec_op_next\<close> of LuaExecCheck.\<close>

definition vm_next :: "Proto \<Rightarrow> int \<Rightarrow> int list" where
  "vm_next pt pc =
     (let i = instr_at pt pc in
      case opcode_of (GET_OPCODE i) of
        None \<Rightarrow> []
      | Some op \<Rightarrow>
          (if testTMode (op_num op) then [pc + 2, pc + 2 + GETARG_sBx (instr_at pt (pc + 1))]
           else case op of
             OP_LOADBOOL \<Rightarrow> [if GETARG_C i \<noteq> 0 then pc + 2 else pc + 1]
           | OP_JMP \<Rightarrow> [pc + 1 + GETARG_sBx i]
           | OP_RETURN \<Rightarrow> []
           | OP_FORLOOP \<Rightarrow> [pc + 1, pc + 1 + GETARG_sBx i]
           | OP_FORPREP \<Rightarrow> [pc + 1 + GETARG_sBx i]
           | OP_SETLIST \<Rightarrow> [if GETARG_C i = 0 then pc + 2 else pc + 1]
           | OP_CLOSURE \<Rightarrow> [pc + 1 + uint (p_nups (p_p pt ! nat (GETARG_Bx i)))]
           | _ \<Rightarrow> [pc + 1]))"

text \<open>What the virtual machine relies on for the operands of an instruction.\<close>

definition rk_ok :: "Proto \<Rightarrow> int \<Rightarrow> OpArgMask \<Rightarrow> bool" where
  "rk_ok pt r mode \<longleftrightarrow>
     (case mode of
        OpArgN \<Rightarrow> r = 0
      | OpArgU \<Rightarrow> True
      | OpArgR \<Rightarrow> r < maxstacksize pt
      | OpArgK \<Rightarrow> (if r < 256 then r < maxstacksize pt else r - 256 < sizek pt))"

definition modes_ok :: "Proto \<Rightarrow> OpCode \<Rightarrow> Instruction \<Rightarrow> bool" where
  "modes_ok pt op i \<longleftrightarrow>
     (case getOpMode (op_num op) of
        iABC \<Rightarrow> rk_ok pt (GETARG_B i) (getBMode (op_num op)) \<and> rk_ok pt (GETARG_C i) (getCMode (op_num op))
      | iABx \<Rightarrow> (getBMode (op_num op) = OpArgK \<longrightarrow> GETARG_Bx i < sizek pt)
      | iAsBx \<Rightarrow> True)"

definition operands_ok :: "Proto \<Rightarrow> OpCode \<Rightarrow> Instruction \<Rightarrow> bool" where
  "operands_ok pt op i \<longleftrightarrow>
     (let a = GETARG_A i; b = GETARG_B i; c = GETARG_C i; m = maxstacksize pt in
      a < m \<and> modes_ok pt op i \<and>
      (case op of
         OP_GETUPVAL \<Rightarrow> b < uint (p_nups pt)
       | OP_SETUPVAL \<Rightarrow> b < uint (p_nups pt)
       | OP_GETGLOBAL \<Rightarrow> \<exists>s. p_k pt ! nat (GETARG_Bx i) = VStr s
       | OP_SETGLOBAL \<Rightarrow> \<exists>s. p_k pt ! nat (GETARG_Bx i) = VStr s
       | OP_SELF \<Rightarrow> a + 1 < m
       | OP_CONCAT \<Rightarrow> b < c
       | OP_TFORLOOP \<Rightarrow> 1 \<le> c \<and> a + 2 + c < m
       | OP_FORLOOP \<Rightarrow> a + 3 < m
       | OP_FORPREP \<Rightarrow> a + 3 < m
       | OP_CALL \<Rightarrow> (b \<noteq> 0 \<longrightarrow> a + b - 1 < m) \<and> (2 \<le> c \<longrightarrow> a + c - 2 < m)
       | OP_TAILCALL \<Rightarrow> (b \<noteq> 0 \<longrightarrow> a + b - 1 < m) \<and> (2 \<le> c \<longrightarrow> a + c - 2 < m)
       | OP_RETURN \<Rightarrow> (2 \<le> b \<longrightarrow> a + b - 2 < m)
       | OP_SETLIST \<Rightarrow> (0 < b \<longrightarrow> a + b < m)
       | OP_CLOSURE \<Rightarrow> GETARG_Bx i < sizep pt
       | OP_VARARG \<Rightarrow> a + b - 2 < m
       | _ \<Rightarrow> True))"

section \<open>What an accepted instruction satisfies\<close>

lemma all_opcodes: "list_all P OpCodes \<Longrightarrow> P op"
  by (cases op) (auto simp: OpCodes_def)

lemma table_op_modes:
  assumes "op \<in> set [OP_GETUPVAL, OP_SETUPVAL, OP_SELF, OP_CONCAT, OP_TFORLOOP, OP_CALL, OP_TAILCALL, OP_RETURN, OP_SETLIST, OP_VARARG, OP_LOADBOOL]"
  shows "getOpMode (op_num op) = iABC"
proof -
  have "list_all (\<lambda>op. List.member [OP_GETUPVAL, OP_SETUPVAL, OP_SELF, OP_CONCAT, OP_TFORLOOP, OP_CALL, OP_TAILCALL, OP_RETURN,
    OP_SETLIST, OP_VARARG, OP_LOADBOOL] op \<longrightarrow> getOpMode (op_num op) = iABC) OpCodes"
    by code_simp
  from all_opcodes [OF this, of op] show ?thesis using assms by auto
qed

lemma jump_modes:
  assumes "op \<in> set [OP_JMP, OP_FORLOOP, OP_FORPREP]"
  shows "getOpMode (op_num op) = iAsBx \<and> getBMode (op_num op) = OpArgR"
proof -
  have "list_all (\<lambda>op. List.member [OP_JMP, OP_FORLOOP, OP_FORPREP] op \<longrightarrow>
    getOpMode (op_num op) = iAsBx \<and> getBMode (op_num op) = OpArgR) OpCodes"
    by code_simp
  from all_opcodes [OF this, of op] show ?thesis using assms by auto
qed

lemma test_ops: "testTMode (op_num op) \<longleftrightarrow> op \<in> set [OP_EQ, OP_LT, OP_LE, OP_TEST, OP_TESTSET, OP_TFORLOOP]"
proof -
  have "list_all (\<lambda>op. testTMode (op_num op) \<longleftrightarrow> List.member [OP_EQ, OP_LT, OP_LE, OP_TEST, OP_TESTSET, OP_TFORLOOP] op) OpCodes"
    by code_simp
  from all_opcodes [OF this, of op] show ?thesis by simp
qed

lemma ISK_iff: "0 \<le> r \<Longrightarrow> r < 512 \<Longrightarrow> ISK r \<longleftrightarrow> 256 \<le> r"
proof -
  assume r: "0 \<le> r" "r < 512"
  have "r AND BITRK \<noteq> 0 \<longleftrightarrow> bit r 8"
    using and_exp_eq_0_iff_not_bit [of r 8] by (simp add: BITRK_def SIZE_B_def)
  also have "bit r 8 \<longleftrightarrow> odd (r div 256)" by (simp add: bit_iff_odd)
  also have "\<dots> \<longleftrightarrow> 256 \<le> r" using r by presburger
  finally show ?thesis by (simp add: ISK_def)
qed

lemma INDEXK_eq: "256 \<le> r \<Longrightarrow> r < 512 \<Longrightarrow> INDEXK r = r - 256"
proof -
  assume r: "256 \<le> r" "r < 512"
  have "bit r 8" using ISK_iff [of r] r and_exp_eq_0_iff_not_bit [of r 8] by (simp add: ISK_def BITRK_def SIZE_B_def)
  then have "unset_bit 8 r = r - 2 ^ 8" by (simp add: unset_bit_eq)
  then show ?thesis by (simp add: INDEXK_def BITRK_def SIZE_B_def unset_bit_eq_and_not)
qed

lemma checkArgMode_ok: "checkArgMode pt r mode \<Longrightarrow> 0 \<le> r \<Longrightarrow> r \<le> 511 \<Longrightarrow> rk_ok pt r mode"
  by (cases mode) (auto simp: checkArgMode_def rk_ok_def ISK_iff INDEXK_eq split: if_splits)

lemma arg_max: "GETARG_B i \<le> 511" "GETARG_C i \<le> 511"
  using getarg_range(2,3) [of i] by (simp_all add: maxarg_defs field_defs)

lemma check_args_modes: "check_args pt op i pc = Ok (Some (b, c)) \<Longrightarrow> modes_ok pt op i"
  using getarg_range [of i] arg_max [of i]
  by (auto simp: check_args_def modes_ok_def Let_def intro: checkArgMode_ok split: OpMode.splits if_splits)

lemma check_args_iABC:
  "check_args pt op i pc = Ok (Some (b, c)) \<Longrightarrow> getOpMode (op_num op) = iABC \<Longrightarrow> b = GETARG_B i \<and> c = GETARG_C i"
  by (auto simp: check_args_def Let_def)

lemma check_args_jump:
  assumes "check_args pt op i pc = Ok (Some (b, c))" "op \<in> set [OP_JMP, OP_FORLOOP, OP_FORPREP]"
  shows "let dest = pc + 1 + GETARG_sBx i in 0 \<le> dest \<and> dest < sizecode pt \<and>
    (0 < dest \<longrightarrow> (\<exists>j. setlists_before pt (nat dest) = Ok j \<and> even j))"
  using assms jump_modes [OF assms(2)] by (auto simp: check_args_def Let_def rbind_Ok_iff and_one_eq split: if_splits)

text \<open>The facts about one instruction that passed all checks.\<close>

definition passed :: "Proto \<Rightarrow> int \<Rightarrow> Instruction \<Rightarrow> OpCode \<Rightarrow> bool" where
  "passed pt pc i op \<longleftrightarrow> code_at pt pc = Ok i \<and> opcode_of (GET_OPCODE i) = Some op \<and> GETARG_A i < maxstacksize pt \<and>
     (\<exists>b c lst r. check_args pt op i pc = Ok (Some (b, c)) \<and> check_test pt op pc = Ok (Some ()) \<and>
        check_op pt (sizecode pt) NO_REG op (GETARG_A i) b c pc lst = Ok (Some r))"

lemma symb_step_passed:
  assumes "symb_step pt (sizecode pt) NO_REG pc lst = Ok (Some r)"
  shows "\<exists>i op. passed pt pc i op"
proof -
  from assms obtain i op b c l where "code_at pt pc = Ok i" "opcode_of (GET_OPCODE i) = Some op" "GETARG_A i < maxstacksize pt"
    "check_args pt op i pc = Ok (Some (b, c))" "check_test pt op pc = Ok (Some ())"
    "check_op pt (sizecode pt) NO_REG op (GETARG_A i) b c pc l = Ok (Some r)"
    by (auto simp: symb_step_def rbind_Ok_iff Let_def split: option.splits)
  then show ?thesis unfolding passed_def by blast
qed

lemma symb_step_next_pc:
  assumes "symb_step pt (sizecode pt) NO_REG pc lst = Ok (Some (pc', lst'))"
  shows "pc' + 1 = next_pc pt pc"
proof -
  from assms obtain i op b c l where i: "code_at pt pc = Ok i" "opcode_of (GET_OPCODE i) = Some op" "check_args pt op i pc = Ok (Some (b, c))"
    "check_op pt (sizecode pt) NO_REG op (GETARG_A i) b c pc l = Ok (Some (pc', lst'))"
    by (auto simp: symb_step_def rbind_Ok_iff Let_def split: option.splits)
  have at: "instr_at pt pc = i" using code_at_OkD [OF i(1)] by (simp add: instr_at_def)
  have o: "op_is i OP_SETLIST \<longleftrightarrow> op = OP_SETLIST" using i(2) by (auto simp: op_is_def opcode_of_Some)
  have c: "c = GETARG_C i" if "op = OP_SETLIST" using check_args_iABC [OF i(3)] table_op_modes [of op] that by simp
  show ?thesis
  proof (cases "op = OP_SETLIST")
    case True
    then show ?thesis using i(4) o at c by (auto simp: check_op_def next_pc_def is_setlist0_def Let_def split: if_splits)
  next
    case False
    then have "\<not> is_setlist0 i" using o by (simp add: is_setlist0_def)
    moreover have "pc' = pc" using i(4) False
      by (cases op) (auto simp: check_op_def check_call_def check_closure_def check_jmp_def rbind_Ok_iff Let_def split: if_splits)
    ultimately show ?thesis using at by (simp add: next_pc_def)
  qed
qed

text \<open>An accepted loop has visited every instruction.\<close>

lemma symb_loop_visits:
  "symb_loop pt lastpc reg pc lst = Ok (Some l) \<Longrightarrow> lastpc = sizecode pt \<Longrightarrow> reg = NO_REG \<Longrightarrow>
   instr_from pt pc q \<Longrightarrow> q < sizecode pt \<Longrightarrow> \<exists>i op. passed pt q i op"
proof (induction pt lastpc reg pc lst rule: symb_loop.induct)
  case (1 pt lastpc reg pc lst)
  have "pc < sizecode pt" using instr_from_le [OF 1(5)] 1(6) by simp
  with 1(2-4) obtain pc' lst' where s: "symb_step pt lastpc reg pc lst = Ok (Some (pc', lst'))" "symb_loop pt lastpc reg (pc' + 1) lst' = Ok (Some l)"
    by (subst (asm) symb_loop.simps) auto
  show ?case
  proof (cases "q = pc")
    case True
    then show ?thesis using symb_step_passed s(1) 1(3,4) by blast
  next
    case False
    then have "instr_from pt (pc' + 1) q"
      using instr_from_cases [OF 1(5)] symb_step_next_pc s(1) 1(3,4) by metis
    then show ?thesis using 1(1) [OF _ s(1) refl s(2)] 1(3,4,6) \<open>pc < sizecode pt\<close> by simp
  qed
qed

definition accepted :: "Proto \<Rightarrow> bool" where
  "accepted pt \<longleftrightarrow> precheck pt \<and> (\<forall>q. instr_start pt q \<longrightarrow> q < sizecode pt \<longrightarrow> (\<exists>i op. passed pt q i op))"

lemma checkcode_accepted: "luaG_checkcode pt = Ok True \<Longrightarrow> accepted pt"
  unfolding accepted_def luaG_checkcode_def symbexec_def
  by (auto simp: rbind_Ok_iff split: if_splits option.splits intro: symb_loop_visits)

section \<open>Accepted code is closed under control flow\<close>

lemma accepted_at: "accepted pt \<Longrightarrow> instr_start pt pc \<Longrightarrow> pc < sizecode pt \<Longrightarrow> \<exists>i op. passed pt pc i op"
  by (simp add: accepted_def)

lemma start_nonneg: "instr_start pt pc \<Longrightarrow> 0 \<le> pc"
  using instr_from_le by fastforce

lemma start_next:
  "instr_start pt pc \<Longrightarrow> pc < sizecode pt \<Longrightarrow> \<not> is_setlist0 (instr_at pt pc) \<Longrightarrow> instr_start pt (pc + 1)"
  "instr_start pt pc \<Longrightarrow> pc < sizecode pt \<Longrightarrow> is_setlist0 (instr_at pt pc) \<Longrightarrow> instr_start pt (pc + 2)"
  using instr_from.from_next [of pt 0 pc] by (simp_all add: next_pc_def)

text \<open>Every word is an instruction or the count of the \<open>SETLIST\<close> before it.\<close>

lemma start_or_count:
  "int d \<le> sizecode pt \<Longrightarrow>
   instr_start pt (int d) \<or> (\<exists>e. d = Suc e \<and> instr_start pt (int e) \<and> is_setlist0 (instr_at pt (int e)))"
proof (induction d)
  case (Suc d)
  then have d: "int d < sizecode pt" by simp
  from Suc consider (s) "instr_start pt (int d)" | (c) e where "d = Suc e" "instr_start pt (int e)" "is_setlist0 (instr_at pt (int e))"
    by auto
  then show ?case
  proof cases
    case s
    then show ?thesis using start_next(1) [OF s d] by (auto simp: add.commute)
  next
    case c
    then have "instr_start pt (int e + 2)" using d by (intro start_next(2)) auto
    then show ?thesis using c by (simp add: add.commute)
  qed
qed (simp add: from_here)

text \<open>So the parity of the number of words before \<open>d\<close> that look like such a \<open>SETLIST\<close> tells
whether \<open>d\<close> is a count.\<close>

lemma setlists_parity:
  "setlists_before pt d = Ok j \<Longrightarrow> int d \<le> sizecode pt \<Longrightarrow>
   (if even j then instr_start pt (int d)
    else \<exists>e. d = Suc e \<and> instr_start pt (int e) \<and> is_setlist0 (instr_at pt (int e)))"
proof (induction d arbitrary: j)
  case (Suc d)
  have d: "int d < sizecode pt" using Suc.prems(2) by simp
  then have c: "code_at pt (int d) = Ok (instr_at pt (int d))" by (simp add: instr_at_def)
  show ?case
  proof (cases "is_setlist0 (instr_at pt (int d))")
    case False
    then have "j = 0" using Suc.prems(1) c by simp
    then show ?thesis using start_or_count [of "Suc d" pt] False Suc.prems(2) by auto
  next
    case True
    then obtain j' where j: "setlists_before pt d = Ok j'" "j = Suc j'" using Suc.prems(1) c by (auto simp: rbind_Ok_iff)
    show ?thesis
    proof (cases "even j'")
      case True
      then show ?thesis using Suc.IH [OF j(1)] d j(2) \<open>is_setlist0 _\<close> by auto
    next
      case False
      then obtain e where e: "d = Suc e" "instr_start pt (int e)" "is_setlist0 (instr_at pt (int e))"
        using Suc.IH [OF j(1)] d by auto
      have "instr_start pt (int e + 2)" using e d by (intro start_next(2)) auto
      then show ?thesis using False j(2) e(1) by (simp add: add.commute)
    qed
  qed
qed (simp add: from_here)

lemma jump_target:
  assumes "passed pt pc i op" "op \<in> set [OP_JMP, OP_FORLOOP, OP_FORPREP]"
  shows "instr_start pt (pc + 1 + GETARG_sBx i) \<and> pc + 1 + GETARG_sBx i < sizecode pt"
proof -
  let ?d = "pc + 1 + GETARG_sBx i"
  from assms(1) obtain b c where "check_args pt op i pc = Ok (Some (b, c))" by (auto simp: passed_def)
  from check_args_jump [OF this assms(2)]
  have d: "0 \<le> ?d" "?d < sizecode pt" "0 < ?d \<Longrightarrow> \<exists>j. setlists_before pt (nat ?d) = Ok j \<and> even j" by (auto simp: Let_def)
  have "instr_start pt ?d"
  proof (cases "?d = 0")
    case False
    then obtain j where "setlists_before pt (nat ?d) = Ok j" "even j" using d by auto
    then show ?thesis using setlists_parity [of pt "nat ?d" j] d by simp
  qed (simp add: from_here)
  then show ?thesis using d by simp
qed

lemma passed_facts:
  assumes "passed pt pc i op"
  shows "0 \<le> pc" "pc < sizecode pt" "instr_at pt pc = i" "op_is i x \<longleftrightarrow> op = x" "is_setlist0 i \<longleftrightarrow> op = OP_SETLIST \<and> GETARG_C i = 0"
    "opcode_of (GET_OPCODE i) = Some op"
  using assms by (auto simp: passed_def instr_at_def op_is_def opcode_of_Some is_setlist0_def dest: code_at_OkD)

lemma not_last:
  assumes "accepted pt" "passed pt pc i op" "op \<noteq> OP_RETURN"
  shows "pc + 1 < sizecode pt"
proof -
  have "pc \<noteq> sizecode pt - 1"
    using last_is_return [of pt pc i] assms passed_facts(4) [OF assms(2), of OP_RETURN] by (auto simp: accepted_def passed_def)
  then show ?thesis using passed_facts(2) [OF assms(2)] by simp
qed

lemma plain_next:
  assumes "accepted pt" "instr_start pt pc" "passed pt pc i op" "op \<noteq> OP_RETURN" "\<not> is_setlist0 i"
  shows "instr_start pt (pc + 1) \<and> pc + 1 < sizecode pt"
  using not_last [OF assms(1,3,4)] start_next(1) [OF assms(2)] passed_facts(2,3) [OF assms(3)] assms(5) by simp

text \<open>The instruction after a test is the jump.\<close>

lemma test_next:
  assumes "accepted pt" "instr_start pt pc" "passed pt pc i op" "testTMode (op_num op)"
  shows "\<forall>s \<in> set [pc + 2, pc + 2 + GETARG_sBx (instr_at pt (pc + 1))]. instr_start pt s \<and> s < sizecode pt"
proof -
  have t: "pc + 2 < sizecode pt" "op_is (instr_at pt (pc + 1)) OP_JMP"
    using assms(3,4) passed_facts(1,2) [OF assms(3)] by (auto simp: passed_def check_test_def instr_at_def)
  have n: "\<not> is_setlist0 i" "op \<noteq> OP_RETURN" using assms(4) passed_facts(5) [OF assms(3)] by (auto simp: test_ops)
  have p: "instr_start pt (pc + 1)" "pc + 1 < sizecode pt" using plain_next [OF assms(1-3) n(2,1)] by auto
  obtain j op' where j: "passed pt (pc + 1) j op'" using accepted_at [OF assms(1) p] by blast
  then have o: "op' = OP_JMP" "instr_at pt (pc + 1) = j" using t(2) passed_facts(3,4) [OF j] by auto
  have "instr_start pt (pc + 1 + 1)"
    using start_next(1) [OF p] o passed_facts(5) [OF j] by simp
  moreover have "instr_start pt (pc + 1 + 1 + GETARG_sBx j) \<and> pc + 1 + 1 + GETARG_sBx j < sizecode pt"
    using jump_target [OF j] o(1) by simp
  ultimately show ?thesis using t(1) o(2) by (simp add: algebra_simps)
qed

lemma loadbool_next:
  assumes "accepted pt" "instr_start pt pc" "passed pt pc i OP_LOADBOOL" "GETARG_C i = 1"
  shows "instr_start pt (pc + 2) \<and> pc + 2 < sizecode pt"
proof -
  obtain b c lst r where "check_args pt OP_LOADBOOL i pc = Ok (Some (b, c))"
    and c: "check_op pt (sizecode pt) NO_REG OP_LOADBOOL (GETARG_A i) b c pc lst = Ok (Some r)"
    using assms(3) by (auto simp: passed_def)
  then have "c = 1" using check_args_iABC table_op_modes [of OP_LOADBOOL] assms(4) by simp
  then have s: "pc + 2 < sizecode pt" "\<not> is_setlist0 (instr_at pt (pc + 1))"
    using c passed_facts(1,2) [OF assms(3)] by (auto simp: check_op_def instr_at_def is_setlist0_def)
  have n: "instr_start pt (pc + 1)" using plain_next [OF assms(1-3)] passed_facts(5) [OF assms(3)] by simp
  have "instr_start pt (pc + 1 + 1)" using start_next(1) [OF n] s by simp
  then show ?thesis using s(1) by (simp add: add.assoc)
qed

lemma setlist_next:
  assumes "accepted pt" "instr_start pt pc" "passed pt pc i OP_SETLIST" "GETARG_C i = 0"
  shows "instr_start pt (pc + 2) \<and> pc + 2 < sizecode pt"
proof -
  obtain b c lst r where "check_args pt OP_SETLIST i pc = Ok (Some (b, c))"
    and c: "check_op pt (sizecode pt) NO_REG OP_SETLIST (GETARG_A i) b c pc lst = Ok (Some r)"
    using assms(3) by (auto simp: passed_def)
  then have "c = 0" using check_args_iABC table_op_modes [of OP_SETLIST] assms(4) by simp
  then have "pc + 2 < sizecode pt" using c by (auto simp: check_op_def Let_def)
  moreover have "instr_start pt (pc + 2)"
    using start_next(2) [OF assms(2)] passed_facts(2,3,5) [OF assms(3)] assms(4) by simp
  ultimately show ?thesis by simp
qed

text \<open>The instructions that follow a \<open>CLOSURE\<close> and name its upvalues.\<close>

lemma check_pseudo_all:
  "check_pseudo pt pc js = Ok (Some u) \<Longrightarrow> j \<in> set js \<Longrightarrow> \<exists>i. code_at pt (pc + int j) = Ok i \<and> (op_is i OP_GETUPVAL \<or> op_is i OP_MOVE)"
  by (induction js) (auto simp: rbind_Ok_iff)

lemma closure_next:
  assumes "accepted pt" "instr_start pt pc" "passed pt pc i OP_CLOSURE"
  defines "nup \<equiv> unat (p_nups (p_p pt ! nat (GETARG_Bx i)))"
  shows "instr_start pt (pc + 1 + int nup) \<and> pc + 1 + int nup < sizecode pt"
proof -
  obtain b c lst r where ca: "check_args pt OP_CLOSURE i pc = Ok (Some (b, c))"
    and c: "check_op pt (sizecode pt) NO_REG OP_CLOSURE (GETARG_A i) b c pc lst = Ok (Some r)"
    using assms(3) by (auto simp: passed_def)
  have b: "b = GETARG_Bx i" "0 \<le> b" using ca getarg_range(4) [of i] by (auto simp: check_args_def op_modes Let_def split: if_splits)
  obtain u where u: "check_pseudo pt pc [1..<nup + 1] = Ok (Some u)" "pc + int nup < sizecode pt"
    using c b by (auto simp: check_op_def check_closure_def nup_def rbind_Ok_iff Let_def)
  have "instr_start pt (pc + 1 + int k)" if "k \<le> nup" for k
    using that
  proof (induction k)
    case 0
    then show ?case using plain_next [OF assms(1-3)] passed_facts(5) [OF assms(3)] by simp
  next
    case (Suc k)
    have "Suc k \<in> set [1..<nup + 1]" using Suc.prems by auto
    from check_pseudo_all [OF u(1) this] obtain j where j: "code_at pt (pc + int (Suc k)) = Ok j" "op_is j OP_GETUPVAL \<or> op_is j OP_MOVE"
      by blast
    have "\<not> is_setlist0 (instr_at pt (pc + 1 + int k))"
      using j by (auto simp: is_setlist0_def op_is_def instr_at_def add.assoc dest: code_at_OkD)
    then have "instr_start pt (pc + 1 + int k + 1)" using Suc u(2) by (intro start_next(1)) auto
    then show ?case by (simp add: add.assoc add.commute)
  qed
  moreover have "pc + 1 + int nup < sizecode pt"
  proof (cases "nup = 0")
    case True
    then show ?thesis using not_last [OF assms(1,3)] by simp
  next
    case False
    then have "nup \<in> set [1..<nup + 1]" by auto
    from check_pseudo_all [OF u(1) this] obtain j where j: "code_at pt (pc + int nup) = Ok j" "op_is j OP_GETUPVAL \<or> op_is j OP_MOVE"
      by blast
    then have "pc + int nup \<noteq> sizecode pt - 1"
      using last_is_return [of pt "pc + int nup" j] assms(1) by (auto simp: accepted_def op_is_def)
    then show ?thesis using u(2) by simp
  qed
  ultimately show ?thesis by simp
qed

lemma passed_operands:
  assumes "passed pt pc i op"
  shows "operands_ok pt op i"
proof -
  obtain b c lst r where ca: "check_args pt op i pc = Ok (Some (b, c))"
    and co: "check_op pt (sizecode pt) NO_REG op (GETARG_A i) b c pc lst = Ok (Some r)" and a: "GETARG_A i < maxstacksize pt"
    using assms by (auto simp: passed_def)
  have bc: "b = GETARG_B i \<and> c = GETARG_C i" if "op \<in> set [OP_GETUPVAL, OP_SETUPVAL, OP_SELF, OP_CONCAT, OP_TFORLOOP, OP_CALL,
      OP_TAILCALL, OP_RETURN, OP_SETLIST, OP_VARARG, OP_LOADBOOL]"
    using check_args_iABC [OF ca] table_op_modes [OF that] by simp
  have bx: "b = GETARG_Bx i \<and> 0 \<le> b \<and> b < sizek pt" if "op = OP_GETGLOBAL \<or> op = OP_SETGLOBAL"
    using check_global [OF ca that] by simp
  have cl: "b = GETARG_Bx i" if "op = OP_CLOSURE"
    using ca that by (auto simp: check_args_def op_modes Let_def split: if_splits)
  have str: "\<exists>s. v = VStr s" if "ttype v = 4" for v
    using that by (cases v) auto
  note p = check_args_modes [OF ca] co a
  show ?thesis
    using p bc bx cl str
    by (cases op)
      (auto simp: operands_ok_def check_op_def check_call_def check_closure_def LUA_MULTRET_def rbind_Ok_iff Let_def split: if_splits)
qed

text \<open>Every instruction of accepted code has a valid opcode and operands in range, and its successors are instructions of
the same function. The verifier does not see to this for a \<open>LOADBOOL\<close> whose C is neither 0 nor 1.\<close>

lemma verified_next:
  assumes "luaG_checkcode pt = Ok True" and "instr_start pt pc" and "pc < sizecode pt"
    and "op_is (instr_at pt pc) OP_LOADBOOL \<Longrightarrow> GETARG_C (instr_at pt pc) \<le> 1"
  shows "\<exists>op. opcode_of (GET_OPCODE (instr_at pt pc)) = Some op \<and> operands_ok pt op (instr_at pt pc) \<and>
    (\<forall>s \<in> set (vm_next pt pc). instr_start pt s \<and> s < sizecode pt)"
proof -
  have acc: "accepted pt" by (rule checkcode_accepted [OF assms(1)])
  obtain i op where p: "passed pt pc i op" using accepted_at [OF acc assms(2,3)] by blast
  note f = passed_facts [OF p]
  have n: "instr_start pt (pc + 1) \<and> pc + 1 < sizecode pt" if "op \<noteq> OP_RETURN" "op = OP_SETLIST \<longrightarrow> GETARG_C i \<noteq> 0"
    using plain_next [OF acc assms(2) p] f(5) that by auto
  have c: "GETARG_C i = 0 \<or> GETARG_C i = 1" if "op = OP_LOADBOOL"
    using assms(4) f(3) f(4) [of OP_LOADBOOL] getarg_range(3) [of i] that by auto
  have "\<forall>s \<in> set (vm_next pt pc). instr_start pt s \<and> s < sizecode pt"
  proof (cases "testTMode (op_num op)")
    case True
    then show ?thesis using test_next [OF acc assms(2) p True] f(3,6) by (simp add: vm_next_def)
  next
    case False
    then show ?thesis
      using n jump_target [OF p] f(3,6) c loadbool_next [OF acc assms(2)] setlist_next [OF acc assms(2)]
        closure_next [OF acc assms(2)] p
      by (cases op) (auto simp: vm_next_def)
  qed
  then show ?thesis using f(3,6) passed_operands [OF p] by auto
qed

definition demo_code :: "Instruction list \<Rightarrow> Proto" where
  "demo_code is = Proto [] is [] [] [] [] (Some ''@demo'') 0 0 0 0 0 2"

text \<open>\<open>return x == nil\<close>, more or less.\<close>

lemma demo_checked:
  "luaG_checkcode (demo_code [CREATE_ABC (op_num OP_LOADBOOL) 0 1 1, CREATE_ABC (op_num OP_LOADBOOL) 0 0 0,
     CREATE_ABC (op_num OP_RETURN) 0 2 0]) = Ok True"
  by code_simp

theorem symbexec_safe_witness: "\<exists>pt i. symbexec pt 1 0 = Ok i \<and> p_code pt = [CREATE_ABC (op_num OP_RETURN) 0 1 0]"
  using symbexec_safe [of 1 "demo_code [CREATE_ABC (op_num OP_RETURN) 0 1 0]" 0] by (auto simp: sizecode_def demo_code_def)

end
