(* ===== verification/LuaChunkProps.thy ===== *)
theory LuaChunkProps
  imports LuaUndump LuaCheckProps
begin

text \<open>
  Loading gives back what was dumped. A dumping function and a loader are a \<open>codec\<close> for a value
  when the loader gives this value on the bytes that the dumping function writes; the parts of a
  chunk are codecs, put together in the order in which both files go through a function.
\<close>

definition append_writer :: "bytes lua_Writer" where
  "append_writer d b = (0, d @ b)"

definition out :: "bool \<Rightarrow> bytes \<Rightarrow> bytes DumpState" where
  "out strip d = \<lparr>D_writer = append_writer, D_data = d, D_strip = strip, D_status = 0\<rparr>"

definition emits :: "bool \<Rightarrow> (bytes DumpState \<Rightarrow> bytes DumpState) \<Rightarrow> bytes \<Rightarrow> bool" where
  "emits strip f bs \<longleftrightarrow> (\<forall>d. f (out strip d) = out strip (d @ bs))"

definition loads :: "('d, 'a) loader \<Rightarrow> 'a \<Rightarrow> bytes \<Rightarrow> bool" where
  "loads l x bs \<longleftrightarrow> (\<forall>S rest. gives (S_Z S) (bs @ rest) \<longrightarrow> (\<exists>Z. l S = Ok (x, S\<lparr>S_Z := Z\<rparr>) \<and> gives Z rest))"

definition codec :: "bool \<Rightarrow> (bytes DumpState \<Rightarrow> bytes DumpState) \<Rightarrow> ('d, 'a) loader \<Rightarrow> 'a \<Rightarrow> bool" where
  "codec strip f l x \<longleftrightarrow> (\<exists>bs. emits strip f bs \<and> loads l x bs)"

named_theorems codecs \<open>the dumping function and the loader of a part of a chunk\<close>

section \<open>Putting codecs together\<close>

lemma loads_ret: "loads (lret x) x []"
  unfolding loads_def lret_def
proof (intro allI impI)
  fix S :: "'a LoadState" and rest
  assume "gives (S_Z S) ([] @ rest)"
  then show "\<exists>Z. Ok (x, S) = Ok (x, S\<lparr>S_Z := Z\<rparr>) \<and> gives Z rest" by (intro exI [of _ "S_Z S"]) simp
qed

lemma loads_bind:
  fixes l :: "('d, 'a) loader"
  assumes "loads l x a" "loads (k x) y b"
  shows "loads (lbind l k) y (a @ b)"
  unfolding loads_def
proof (intro allI impI)
  fix S :: "'d LoadState" and rest
  assume "gives (S_Z S) ((a @ b) @ rest)"
  then obtain Z where Z: "l S = Ok (x, S\<lparr>S_Z := Z\<rparr>)" "gives Z (b @ rest)"
    using assms(1) by (auto simp: loads_def)
  then obtain Z' where "k x (S\<lparr>S_Z := Z\<rparr>) = Ok (y, S\<lparr>S_Z := Z\<rparr>\<lparr>S_Z := Z'\<rparr>)" "gives Z' rest"
    using assms(2) unfolding loads_def by (metis LoadState.select_convs(1) LoadState.surjective LoadState.update_convs(1))
  then show "\<exists>Z. lbind l k S = Ok (y, S\<lparr>S_Z := Z\<rparr>) \<and> gives Z rest" using Z(1) by (auto simp: lbind_def)
qed

lemma codec_ret: "codec strip id (lret x) x"
  unfolding codec_def by (rule exI [of _ "[]"]) (simp add: emits_def loads_ret)

lemma codec_bind: "codec strip f l x \<Longrightarrow> codec strip g (k x) y \<Longrightarrow> codec strip (g \<circ> f) (lbind l k) y"
  unfolding codec_def by (elim exE conjE) (rule exI, rule conjI [OF _ loads_bind], auto simp: emits_def)

lemma codec_last: "codec strip f l x \<Longrightarrow> k x = lret y \<Longrightarrow> codec strip f (lbind l k) y"
  using codec_bind [of strip f l x id k y] by (simp add: codec_ret)

lemma codec_lift: "r = Ok x \<Longrightarrow> codec strip g (k x) y \<Longrightarrow> codec strip g (lbind (lift_res r) k) y"
  by (simp add: codec_def loads_def lbind_def lift_res_def)

lemma codec_cong: "(\<And>d. f (out strip d) = g (out strip d)) \<Longrightarrow> codec strip g l x \<Longrightarrow> codec strip f l x"
  by (simp add: codec_def emits_def)

lemma codec_repeat:
  "list_all2 (\<lambda>x y. codec strip (h x) l y) xs ys \<Longrightarrow> n = length xs \<Longrightarrow> codec strip (fold h xs) (lrepeat n l) ys"
proof (induction arbitrary: n rule: list_all2_induct)
  case Nil
  then show ?case using codec_ret by (simp add: id_def)
next
  case (Cons x xs y ys)
  have "codec strip (fold h xs) (lrepeat (length xs) l) ys" by (rule Cons.IH [OF refl])
  then show ?case
    using codec_bind [OF Cons.hyps(1) codec_last [OF \<open>codec strip (fold h xs) (lrepeat (length xs) l) ys\<close> refl]] Cons.prems
    by (simp add: o_def)
qed

lemma codec_block:
  assumes n: "length b = n"
  shows "codec strip (DumpBlock b) (LoadBlock n :: ('d, bytes) loader) b"
  unfolding codec_def
proof (intro exI [of _ b] conjI)
  show "emits strip (DumpBlock b) b" by (simp add: emits_def DumpBlock_def out_def append_writer_def)
  show "loads (LoadBlock n :: ('d, bytes) loader) b b"
    unfolding loads_def
  proof (intro allI impI)
    fix S :: "'d LoadState" and rest
    assume "gives (S_Z S) (b @ rest)"
    from luaZ_read_gives [OF this] show "\<exists>Z. LoadBlock n S = Ok (b, S\<lparr>S_Z := Z\<rparr>) \<and> gives Z rest"
      using n by (auto simp: LoadBlock_def)
  qed
qed

section \<open>The parts\<close>

lemma codec_char [codecs]: "codec strip (DumpChar y) LoadChar (sint y)"
  unfolding LoadChar_def DumpChar_def [abs_def] by (rule codec_last [OF codec_block]) simp_all

lemma word_of_sint: "word_of_int (sint y) = y"
  by simp

lemma codec_byte [codecs]: "codec strip (DumpChar y) LoadByte y"
  unfolding LoadByte_def by (rule codec_last [OF codec_char]) (simp only: word_of_sint)

lemma codec_int [codecs]: "0 \<le> x \<Longrightarrow> x < 2 ^ 31 \<Longrightarrow> codec strip (DumpInt x) LoadInt x"
  unfolding LoadInt_def DumpInt_def [abs_def]
  by (rule codec_last [OF codec_block]) (simp_all add: int_bytes_roundtrip)

lemma codec_number [codecs]: "codec strip (DumpNumber x) LoadNumber x"
  unfolding LoadNumber_def DumpNumber_def [abs_def] by (rule codec_last [OF codec_block]) simp_all

definition str_ok :: "string option \<Rightarrow> bool" where
  "str_ok s \<longleftrightarrow> (case s of None \<Rightarrow> True | Some s' \<Rightarrow> int (length s') + 1 < 2 ^ 32)"

lemma codec_string [codecs]: "str_ok s \<Longrightarrow> codec strip (DumpString s) LoadString s"
proof (cases s)
  case None
  then show ?thesis unfolding LoadString_def DumpString_def [abs_def]
    by (auto intro!: codec_last [OF codec_block])
next
  case (Some s')
  assume "str_ok s"
  then have l: "length s' + 1 < 2 ^ 32" using Some by (simp add: str_ok_def)
  define sz where "sz = (of_nat (length s') + 1 :: u32)"
  have w: "unat (of_nat n :: u32) = n" if "n < 2 ^ 32" for n
    using that by (simp add: unsigned_of_nat take_bit_nat_eq_self)
  have "sz = of_nat (length s' + 1)" by (simp add: sz_def)
  with w [OF l] have u: "unat sz = length s' + 1" by (simp only:)
  have d: "DumpString s = DumpBlock (str_bytes s' @ [0]) \<circ> DumpBlock (le_bytes 4 sz)"
    unfolding DumpString_def [abs_def] Some Let_def option.case sz_def [symmetric] u by (rule ext) simp
  have k: "codec strip (DumpBlock (str_bytes s' @ [0]))
     (let n = unat (of_le (le_bytes 4 sz) :: u32) in
      if n = 0 then lret None else lbind (LoadBlock n) (\<lambda>s. lret (Some (of_str_bytes (take (n - 1) s))))) s"
    unfolding of_le_bytes_4 u Let_def using Some by (auto intro!: codec_last [OF codec_block])
  show ?thesis unfolding LoadString_def d by (rule codec_bind [OF codec_block]) (simp, rule k)
qed

text \<open>Vectors. The size must fit, so that the loader can allocate it.\<close>

lemma newvector_ok: "n + 1 \<le> MAX_SIZET div e \<Longrightarrow> 0 \<le> n \<Longrightarrow> n + 1 < 2 ^ 31 \<Longrightarrow> luaM_newvector n e = Ok ()"
proof -
  assume n: "n + 1 \<le> MAX_SIZET div e" "0 \<le> n" "n + 1 < 2 ^ 31"
  then have "uint (word_of_int (n + 1) :: u32) = n + 1" unfolding uint_word_of_int_eq by (simp add: take_bit_int_eq_self)
  then show ?thesis using n unfolding luaM_newvector_def by (simp only: if_True if_False not_le [symmetric] linorder_not_less split: if_split)
qed

lemma concat_4: "\<forall>b \<in> set bs. length b = 4 \<Longrightarrow> length (concat bs) = length bs * 4"
  by (induction bs) auto

lemma vector4_Suc: "vector4 (Suc n) b = take 4 b # vector4 n (drop 4 b)"
  by (simp add: vector4_def upt_conv_Cons map_Suc_upt [symmetric] comp_def add.commute del: upt_Suc)

lemma vector4_concat: "\<forall>b \<in> set bs. length b = 4 \<Longrightarrow> vector4 (length bs) (concat bs) = bs"
  by (induction bs) (auto simp: vector4_Suc vector4_def [of 0])

lemma codec_vector:
  assumes "\<forall>b \<in> set bs. length b = 4" "int (length bs) + 1 \<le> MAX_SIZET div 4" "codec strip q (k (vector4 (nat (int (length bs))) (concat bs))) y"
    and k': "\<And>b. k' (int (length bs)) b = k (vector4 (nat (int (length bs))) b)"
  shows "codec strip (q \<circ> DumpVector (concat bs) (int (length bs)))
    (lbind LoadInt (\<lambda>n. lbind (lift_res (luaM_newvector n 4)) (\<lambda>_. lbind (LoadBlock (nat n * 4)) (k' n)))) y"
proof -
  have n: "int (length bs) < 2 ^ 30" using assms(2) by (simp add: MAX_SIZET_def)
  have d: "q \<circ> DumpVector (concat bs) (int (length bs)) = (q \<circ> DumpBlock (concat bs)) \<circ> DumpInt (int (length bs))"
    by (rule ext) (simp add: DumpVector_def)
  have b: "codec strip (q \<circ> DumpBlock (concat bs)) (lbind (LoadBlock (nat (int (length bs)) * 4)) (k' (int (length bs)))) y"
    by (rule codec_bind [OF codec_block]) (use assms in \<open>simp_all add: concat_4\<close>)
  show ?thesis unfolding d
    by (rule codec_bind [OF codec_int], use n in simp, use n in simp)
      (rule codec_lift [OF newvector_ok b], use assms(2) n in simp_all)
qed

lemma codec_code [codecs]:
  assumes "int (length (p_code f)) + 1 \<le> MAX_SIZET div 4"
  shows "codec strip (DumpCode f) LoadCode (p_code f)"
proof -
  let ?bs = "map (le_bytes 4) (p_code f)"
  have v: "vector4 (length ?bs) (concat ?bs) = ?bs" by (rule vector4_concat) simp
  have "codec strip (id \<circ> DumpVector (concat ?bs) (int (length ?bs))) LoadCode (p_code f)"
    unfolding LoadCode_def
    by (rule codec_vector [where k = "\<lambda>v. lret (map of_le v)"]) (use assms v codec_ret in \<open>simp_all add: comp_def\<close>)
  then show ?thesis by (simp add: DumpCode_def [abs_def])
qed

definition const_ok :: "TValue \<Rightarrow> bool" where
  "const_ok v \<longleftrightarrow> (case v of VNil \<Rightarrow> True | VBool _ \<Rightarrow> True | VNum _ \<Rightarrow> True | VStr s \<Rightarrow> str_ok (Some s) | _ \<Rightarrow> False)"

lemma codec_constant: "const_ok v \<Longrightarrow> codec strip (DumpConstant v) LoadConstant v"
proof -
  assume v: "const_ok v"
  let ?rest = "\<lambda>D. case v of VBool b \<Rightarrow> DumpChar (if b then 1 else 0) D | VNum n \<Rightarrow> DumpNumber n D | VStr s \<Rightarrow> DumpString (Some s) D | _ \<Rightarrow> D"
  have d: "DumpConstant v = ?rest \<circ> DumpChar (word_of_int (ttype v))"
    by (rule ext) (cases v; simp add: DumpConstant_def Let_def)
  show ?thesis unfolding d LoadConstant_def
  proof (rule codec_bind [OF codec_char], cases v)
    case VNil
    then show "codec strip ?rest (if sint (word_of_int (ttype v) :: u8) = 0 then lret VNil
       else if sint (word_of_int (ttype v) :: u8) = 1 then lbind LoadChar (\<lambda>b. lret (VBool (b \<noteq> 0)))
       else if sint (word_of_int (ttype v) :: u8) = 3 then lbind LoadNumber (\<lambda>n. lret (VNum n))
       else if sint (word_of_int (ttype v) :: u8) = 4
       then lbind LoadString (\<lambda>s. case s of None \<Rightarrow> lift_res (Fail (Undefined ''string constant is NULL'')) | Some s' \<Rightarrow> lret (VStr s'))
       else lerror ''bad constant'') v"
      using codec_ret by (simp add: id_def)
  qed (use v in \<open>auto simp: const_ok_def intro!: codec_last codec_char codec_number codec_string codec_last [OF codec_char]\<close>)
qed

definition int_ok :: "int \<Rightarrow> bool" where
  "int_ok x \<longleftrightarrow> 0 \<le> x \<and> x < 2 ^ 31"

definition locvar_ok :: "LocVar \<Rightarrow> bool" where
  "locvar_ok v \<longleftrightarrow> str_ok (varname v) \<and> int_ok (startpc v) \<and> int_ok (endpc v)"

lemma codec_locvar: "locvar_ok v \<Longrightarrow> codec strip (DumpLocVar v) LoadLocVar v"
proof -
  assume v: "locvar_ok v"
  have d: "DumpLocVar v = (DumpInt (endpc v) \<circ> DumpInt (startpc v)) \<circ> DumpString (varname v)"
    by (rule ext) (simp add: DumpLocVar_def)
  have e: "\<lparr>varname = varname v, startpc = startpc v, endpc = endpc v\<rparr> = v" by (cases v) simp
  show ?thesis unfolding d LoadLocVar_def
    using v by (auto simp: e locvar_ok_def int_ok_def intro!: codec_bind [OF codec_string] codec_bind [OF codec_int] codec_last [OF codec_int])
qed

lemma codec_list:
  assumes "\<forall>x \<in> set xs. codec strip (h x) l (g x)" "int (length xs) + 1 \<le> MAX_SIZET div e" "int (length xs) + 1 < 2 ^ 31"
    and "codec strip q (k (map g xs)) y"
  shows "codec strip (q \<circ> (fold h xs \<circ> DumpInt (int (length xs))))
    (lbind LoadInt (\<lambda>n. lbind (lift_res (luaM_newvector n e)) (\<lambda>_. lbind (lrepeat (nat n) l) k))) y"
proof -
  have "codec strip (fold h xs) (lrepeat (nat (int (length xs))) l) (map g xs)"
    by (rule codec_repeat) (use assms(1) in \<open>simp_all add: list_all2_map2 list.rel_refl_strong\<close>)
  then have "codec strip (q \<circ> fold h xs) (lbind (lrepeat (nat (int (length xs))) l) k) y"
    by (rule codec_bind) (rule assms(4))
  then have b: "codec strip (q \<circ> fold h xs) (lbind (lift_res (luaM_newvector (int (length xs)) e)) (\<lambda>_. lbind (lrepeat (nat (int (length xs))) l) k)) y"
    by (rule codec_lift [OF newvector_ok [OF assms(2)], rotated 2]) (use assms(3) in simp_all)
  show ?thesis unfolding o_assoc
    by (rule codec_bind [OF codec_int], use assms(3) in simp, use assms(3) in simp, rule b)
qed

definition debug_ok :: "Proto \<Rightarrow> bool" where
  "debug_ok f \<longleftrightarrow>
     int (length (p_lineinfo f)) + 1 \<le> MAX_SIZET div 4 \<and> (\<forall>x \<in> set (p_lineinfo f). - (2 ^ 31) \<le> x \<and> x < 2 ^ 31) \<and>
     int (length (p_locvars f)) + 1 \<le> MAX_SIZET div 12 \<and> (\<forall>v \<in> set (p_locvars f). locvar_ok v) \<and>
     int (length (p_upvalues f)) + 1 \<le> MAX_SIZET div 4 \<and> (\<forall>s \<in> set (p_upvalues f). str_ok s)"

text \<open>Debug information is left out of a stripped chunk.\<close>

definition kept :: "bool \<Rightarrow> 'a list \<Rightarrow> 'a list" where
  "kept strip xs = (if strip then [] else xs)"

lemma codec_debug:
  assumes "debug_ok f"
  shows "codec strip (DumpDebug f) LoadDebug (kept strip (p_lineinfo f), kept strip (p_locvars f), kept strip (p_upvalues f))"
proof (rule codec_cong)
  let ?li = "map int_bytes (kept strip (p_lineinfo f))" and ?vs = "kept strip (p_locvars f)" and ?us = "kept strip (p_upvalues f)"
  let ?q = "id \<circ> (fold DumpString ?us \<circ> DumpInt (int (length ?us)))"
  let ?q' = "?q \<circ> (fold DumpLocVar ?vs \<circ> DumpInt (int (length ?vs)))"
  let ?dump = "?q' \<circ> DumpVector (concat ?li) (int (length ?li))"
  show "DumpDebug f (out strip d) = ?dump (out strip d)" for d
    by (simp add: DumpDebug_def out_def kept_def Let_def)
  have li: "\<forall>b \<in> set ?li. length b = 4" "int (length ?li) + 1 \<le> MAX_SIZET div 4" "map of_int_bytes ?li = kept strip (p_lineinfo f)"
    using assms by (auto simp: debug_ok_def kept_def MAX_SIZET_def map_idI int_bytes_roundtrip)
  have vs: "\<forall>v \<in> set ?vs. codec strip (DumpLocVar v) LoadLocVar (id v)" "int (length ?vs) + 1 \<le> MAX_SIZET div 12" "int (length ?vs) + 1 < 2 ^ 31"
    using assms by (auto simp: debug_ok_def kept_def MAX_SIZET_def codec_locvar)
  have us: "\<forall>s \<in> set ?us. codec strip (DumpString s) LoadString (id s)" "int (length ?us) + 1 \<le> MAX_SIZET div 4" "int (length ?us) + 1 < 2 ^ 31"
    using assms by (auto simp: debug_ok_def kept_def MAX_SIZET_def codec_string)
  show "codec strip ?dump LoadDebug (kept strip (p_lineinfo f), kept strip (p_locvars f), kept strip (p_upvalues f))"
    unfolding LoadDebug_def
  proof (rule codec_vector [OF li(1,2), where k = "\<lambda>v. lbind LoadInt (\<lambda>nl.
     lbind (lift_res (luaM_newvector nl 12)) (\<lambda>_.
     lbind (lrepeat (nat nl) LoadLocVar) (\<lambda>vs.
     lbind LoadInt (\<lambda>nu.
     lbind (lift_res (luaM_newvector nu 4)) (\<lambda>_.
     lbind (lrepeat (nat nu) LoadString) (\<lambda>us.
     lret (map of_int_bytes v, vs, us)))))))"])
    show "codec strip ?q' (lbind LoadInt (\<lambda>nl.
     lbind (lift_res (luaM_newvector nl 12)) (\<lambda>_.
     lbind (lrepeat (nat nl) LoadLocVar) (\<lambda>vs.
     lbind LoadInt (\<lambda>nu.
     lbind (lift_res (luaM_newvector nu 4)) (\<lambda>_.
     lbind (lrepeat (nat nu) LoadString) (\<lambda>us.
     lret (map of_int_bytes (vector4 (nat (int (length ?li))) (concat ?li)), vs, us))))))))
     (kept strip (p_lineinfo f), kept strip (p_locvars f), kept strip (p_upvalues f))"
      by (rule codec_list [OF vs], rule codec_list [OF us]) (use codec_ret li vector4_concat [OF li(1)] in simp)
  qed simp
qed

section \<open>What is loaded\<close>

text \<open>A chunk holds no source for a function that has the one of the enclosing function; the loader
puts in the source of the enclosing function as it was loaded.\<close>

definition source_or :: "string option \<Rightarrow> string option \<Rightarrow> string option" where
  "source_or s p = (case s of None \<Rightarrow> p | Some _ \<Rightarrow> s)"

primrec loaded :: "bool \<Rightarrow> string option \<Rightarrow> Proto \<Rightarrow> Proto" where
  "loaded strip p (Proto k code ps lineinfo locvars upvalues source linedefined lastlinedefined nups numparams is_vararg maxstack) =
     (let s = source_or (if strip then None else source) p in
      Proto k code (map (\<lambda>g. g s) (map (\<lambda>f p. loaded strip p f) ps)) (kept strip lineinfo) (kept strip locvars) (kept strip upvalues)
        s linedefined lastlinedefined nups numparams is_vararg maxstack)"

text \<open>The nesting of functions, and the functions that can be dumped and loaded: all sizes fit, the
constants are of the four kinds that the compiler produces, and the verifier accepts the code.\<close>

primrec depth :: "Proto \<Rightarrow> nat" where
  "depth (Proto k code ps lineinfo locvars upvalues source linedefined lastlinedefined nups numparams is_vararg maxstack) =
     Suc (foldr max (map depth ps) 0)"

definition part_ok :: "Proto \<Rightarrow> bool" where
  "part_ok f \<longleftrightarrow>
     str_ok (p_source f) \<and> int_ok (p_linedefined f) \<and> int_ok (p_lastlinedefined f) \<and>
     int (length (p_code f)) + 1 \<le> MAX_SIZET div 4 \<and>
     int (length (p_k f)) + 1 \<le> MAX_SIZET div 16 \<and> (\<forall>v \<in> set (p_k f). const_ok v) \<and>
     int (length (p_p f)) + 1 \<le> MAX_SIZET div 4 \<and> debug_ok f \<and> luaG_checkcode f = Ok True"

primrec dumpable :: "Proto \<Rightarrow> bool" where
  "dumpable (Proto k code ps lineinfo locvars upvalues source linedefined lastlinedefined nups numparams is_vararg maxstack) \<longleftrightarrow>
     part_ok (Proto k code ps lineinfo locvars upvalues source linedefined lastlinedefined nups numparams is_vararg maxstack) \<and>
     (\<forall>b \<in> set (map dumpable ps). b)"

lemma depth_nested: "g \<in> set ps \<Longrightarrow> depth g \<le> foldr max (map depth ps) 0"
  by (induction ps) (auto simp: le_max_iff_disj)

section \<open>The verifier does not look at what is stripped\<close>

definition same_code :: "Proto \<Rightarrow> Proto \<Rightarrow> bool" where
  "same_code f g \<longleftrightarrow> p_code f = p_code g \<and> p_k f = p_k g \<and> map p_nups (p_p f) = map p_nups (p_p g) \<and> p_nups f = p_nups g \<and>
     p_numparams f = p_numparams g \<and> p_is_vararg f = p_is_vararg g \<and> p_maxstacksize f = p_maxstacksize g"

lemma same_code_simps:
  assumes "same_code f g"
  shows "code_at f = code_at g" "k_at f = k_at g" "sizecode f = sizecode g" "sizek f = sizek g" "sizep f = sizep g"
    "maxstacksize f = maxstacksize g" "p_is_vararg f = p_is_vararg g" "p_nups f = p_nups g"
  using assms
  by (auto dest: map_eq_imp_length_eq simp: same_code_def code_at_def [abs_def] k_at_def [abs_def] sizecode_def sizek_def sizep_def maxstacksize_def)

lemma same_setlists: "same_code f g \<Longrightarrow> setlists_before f d = setlists_before g d"
  by (induction d) (simp_all add: same_code_simps cong: if_cong)

lemma same_pseudo: "same_code f g \<Longrightarrow> check_pseudo f pc js = check_pseudo g pc js"
  by (induction js) (simp_all add: same_code_simps)

lemma same_ArgMode: "same_code f g \<Longrightarrow> checkArgMode f r mode = checkArgMode g r mode"
  by (cases mode) (simp_all add: checkArgMode_def same_code_simps)

lemma same_checks:
  assumes "same_code f g"
  shows "check_args f = check_args g" "check_test f = check_test g" "checkopenop f = checkopenop g"
  using assms
  by (auto simp: check_args_def [abs_def] same_ArgMode check_test_def [abs_def] checkopenop_def [abs_def] same_code_simps
      same_setlists fun_eq_iff Let_def split: OpMode.split)

lemma same_closure:
  assumes "same_code f g"
  shows "check_closure f reg b pc lst = check_closure g reg b pc lst"
proof -
  have "rbind (proto_at f b) (\<lambda>h. F (p_nups h)) = rbind (proto_at g b) (\<lambda>h. F (p_nups h))" for F :: "u8 \<Rightarrow> (int \<times> int) chk"
  proof -
    have n: "map p_nups (p_p f) = map p_nups (p_p g)" using assms by (simp add: same_code_def)
    then have l: "length (p_p f) = length (p_p g)" by (metis length_map)
    have "p_nups (p_p f ! nat b) = p_nups (p_p g ! nat b)" if "nat b < length (p_p f)"
      using n l that by (metis nth_map)
    then show ?thesis using l by (simp add: proto_at_def aget_def)
  qed
  note this [of "\<lambda>n. let nup = unat n in check (pc + int nup < sizecode f) (cbind (check_pseudo f pc [1..<nup + 1])
    (\<lambda>_. Ok (Some (if reg \<noteq> NO_REG then pc + int nup else pc, lst))))"]
  then show ?thesis unfolding check_closure_def using assms by (simp add: same_code_simps same_pseudo)
qed

lemma same_step:
  assumes "same_code f g"
  shows "symb_step f lastpc reg pc lst = symb_step g lastpc reg pc lst"
proof -
  have o: "check_op f lastpc reg op a b c pc l = check_op g lastpc reg op a b c pc l" for op a b c l
    unfolding check_op_def check_call_def
    by (cases op) (simp_all add: Let_def same_code_simps [OF assms] same_checks [OF assms] same_closure [OF assms])
  show ?thesis by (simp add: symb_step_def o same_code_simps [OF assms] same_checks [OF assms] Let_def cong: option.case_cong)
qed

lemma same_loop: "same_code f g \<Longrightarrow> symb_loop f lastpc reg pc lst = symb_loop g lastpc reg pc lst"
proof (induction f lastpc reg pc lst rule: symb_loop.induct)
  case (1 f lastpc reg pc lst)
  show ?case
    by (subst (1 2) symb_loop.simps) (auto simp: same_step [OF 1(2)] intro!: cbind_cong intro: 1(1) 1(2))
qed

lemma same_checkcode: "luaG_checkcode f = Ok True \<Longrightarrow> same_code f g \<Longrightarrow> precheck g \<Longrightarrow> luaG_checkcode g = Ok True"
  using same_loop [of f g] same_code_simps [of f g]
  by (auto simp: luaG_checkcode_def symbexec_def rbind_Ok_iff split: if_splits)

lemma loaded_sel:
  "p_code (loaded strip p f) = p_code f" "p_k (loaded strip p f) = p_k f" "p_nups (loaded strip p f) = p_nups f"
  by (cases f; simp add: Let_def)+

lemma checkcode_loaded:
  assumes "luaG_checkcode f = Ok True"
  shows "luaG_checkcode (loaded strip p f) = Ok True"
proof (rule same_checkcode [OF assms])
  show "same_code f (loaded strip p f)" by (cases f) (simp add: same_code_def Let_def comp_def loaded_sel)
  have "precheck f" using checkcode_accepted [OF assms] by (simp add: accepted_def)
  then show "precheck (loaded strip p f)" by (cases f) (auto simp: precheck_def Let_def kept_def maxstacksize_def)
qed

section \<open>Functions\<close>

lemma lift_check: "r = Ok True \<Longrightarrow> lbind (lift_res r) (\<lambda>ok. if \<not> ok then l else lret f) = lret f"
  by (rule ext) (simp add: lbind_def lift_res_def)

lemma LoadConstants_codec:
  assumes k: "int (length (p_k f)) + 1 \<le> MAX_SIZET div 16" "\<forall>v \<in> set (p_k f). const_ok v"
    and p: "int (length (p_p f)) + 1 \<le> MAX_SIZET div 4"
    and g: "\<forall>g \<in> set (p_p f). codec strip (DumpFunction g (p_source f)) (LoadFunction c source :: ('d, Proto) loader) (h g)"
  shows "codec strip (DumpConstants f) (LoadConstants c source :: ('d, TValue list \<times> Proto list) loader) (p_k f, map h (p_p f))"
proof -
  let ?dump = "((id \<circ> (fold (\<lambda>g. DumpFunction g (p_source f)) (p_p f) \<circ> DumpInt (int (length (p_p f)))))
    \<circ> (fold DumpConstant (p_k f) \<circ> DumpInt (int (length (p_k f)))))"
  have d: "DumpConstants f = ?dump"
    by (rule ext) (simp add: DumpConstants.simps Let_def)
  have kk: "\<forall>v \<in> set (p_k f). codec strip (DumpConstant v) (LoadConstant :: ('d, TValue) loader) (id v)" using k(2) by (simp add: codec_constant)
  have kl: "int (length (p_k f)) + 1 < 2 ^ 31" using k(1) by (simp add: MAX_SIZET_def)
  have pl: "int (length (p_p f)) + 1 < 2 ^ 31" using p by (simp add: MAX_SIZET_def)
  show ?thesis unfolding d LoadConstants.simps
    by (rule codec_list [OF kk k(1) kl], rule codec_list [OF g p pl]) (use codec_ret in simp)
qed

lemma codec_function:
  "dumpable f \<Longrightarrow> depth f + c \<le> LUAI_MAXCCALLS \<Longrightarrow> (\<not> strip \<Longrightarrow> p \<noteq> None \<Longrightarrow> p' = p) \<Longrightarrow>
   codec strip (DumpFunction f p) (LoadFunction c p' :: ('d, Proto) loader) (loaded strip p' f)"
proof (induction f arbitrary: c p p')
  case (Proto k code ps lineinfo locvars upvalues source linedefined lastlinedefined nups numparams is_vararg maxstack)
  let ?f = "Proto k code ps lineinfo locvars upvalues source linedefined lastlinedefined nups numparams is_vararg maxstack"
  let ?src = "source_or (if strip then None else source) p'"
  let ?s = "if source = p \<or> strip then None else source"
  let ?g = "loaded strip p' ?f"
  have ok: "part_ok ?f" "\<forall>g \<in> set ps. dumpable g" using Proto.prems(1) by auto
  have dep: "depth g + (c + 1) \<le> LUAI_MAXCCALLS" if "g \<in> set ps" for g
    using depth_nested [OF that] Proto.prems(2) by simp
  have c: "\<not> LUAI_MAXCCALLS < c + 1" using Proto.prems(2) by simp
  have src: "(case ?s of None \<Rightarrow> p' | Some _ \<Rightarrow> ?s) = ?src"
    using Proto.prems(3) by (auto simp: source_or_def split: option.split)
  have nested: "\<forall>g \<in> set (p_p ?f). codec strip (DumpFunction g (p_source ?f)) (LoadFunction (c + 1) ?src :: ('d, Proto) loader) (loaded strip ?src g)"
  proof
    fix g assume "g \<in> set (p_p ?f)"
    then have g: "g \<in> set ps" by simp
    show "codec strip (DumpFunction g (p_source ?f)) (LoadFunction (c + 1) ?src :: ('d, Proto) loader) (loaded strip ?src g)"
      by (rule Proto.IH [OF g _ dep [OF g]]) (use ok(2) g in \<open>auto simp: source_or_def\<close>)
  qed
  have kcode: "codec strip (DumpConstants ?f) (LoadConstants (c + 1) ?src :: ('d, TValue list \<times> Proto list) loader) (k, map (loaded strip ?src) ps)"
    using LoadConstants_codec [OF _ _ _ nested] ok(1) by (simp add: part_ok_def)
  have line: "0 \<le> linedefined" "linedefined < 2 ^ 31" "0 \<le> lastlinedefined" "lastlinedefined < 2 ^ 31"
    using ok(1) by (simp_all add: part_ok_def int_ok_def)
  have code: "codec strip (DumpCode ?f) (LoadCode :: ('d, Instruction list) loader) code" using codec_code [of ?f strip] ok(1) by (simp add: part_ok_def)
  have debug: "codec strip (DumpDebug ?f) (LoadDebug :: ('d, int list \<times> LocVar list \<times> string option list) loader) (kept strip lineinfo, kept strip locvars, kept strip upvalues)"
    using codec_debug [of ?f strip] ok(1) by (simp add: part_ok_def)
  have s_ok: "str_ok ?s" using ok(1) by (simp add: part_ok_def str_ok_def)
  have ge: "Proto k code (map (loaded strip ?src) ps) (kept strip lineinfo) (kept strip locvars) (kept strip upvalues)
      ?src linedefined lastlinedefined nups numparams is_vararg maxstack = ?g"
    by (simp add: Let_def comp_def)
  have check: "luaG_checkcode ?g = Ok True" by (rule checkcode_loaded) (use ok(1) in \<open>simp add: part_ok_def\<close>)
  show ?case
  proof (rule codec_cong)
    let ?dump = "DumpDebug ?f \<circ> DumpConstants ?f \<circ> DumpCode ?f \<circ> DumpChar maxstack \<circ> DumpChar is_vararg \<circ> DumpChar numparams \<circ> DumpChar nups
      \<circ> DumpInt lastlinedefined \<circ> DumpInt linedefined \<circ> DumpString ?s"
    show "DumpFunction ?f p (out strip d) = ?dump (out strip d)" for d
      by (simp add: DumpFunction.simps Let_def out_def)
    show "codec strip ?dump (LoadFunction c p' :: ('d, Proto) loader) ?g"
      unfolding LoadFunction.simps [of c p'] if_not_P [OF c]
      by (rule codec_bind [OF codec_string [OF s_ok]], subst Let_def, unfold src,
          rule codec_bind [OF codec_int [OF line(1,2)]], rule codec_bind [OF codec_int [OF line(3,4)]],
          rule codec_bind [OF codec_byte], rule codec_bind [OF codec_byte], rule codec_bind [OF codec_byte], rule codec_bind [OF codec_byte],
          rule codec_bind [OF code], rule codec_bind [OF kcode], unfold prod.case, rule codec_last [OF debug])
        (simp only: Let_def prod.case ge lift_check [OF check])
  qed
qed

section \<open>Chunks\<close>

lemma header_length: "length luaU_header = LUAC_HEADERSIZE"
  by (simp add: luaU_header_def LUA_SIGNATURE_def LUAC_HEADERSIZE_def)

text \<open>Without stripping, a function whose nested functions all have a source comes back as it was.\<close>

primrec sourced :: "Proto \<Rightarrow> bool" where
  "sourced (Proto k code ps lineinfo locvars upvalues source linedefined lastlinedefined nups numparams is_vararg maxstack) \<longleftrightarrow>
     source \<noteq> None \<and> (\<forall>b \<in> set (map sourced ps). b)"

lemma loaded_same: "sourced f \<Longrightarrow> loaded False p f = f"
proof (induction f arbitrary: p)
  case (Proto k code ps lineinfo locvars upvalues source linedefined lastlinedefined nups numparams is_vararg maxstack)
  have "map (loaded False q) ps = ps" for q
    by (rule map_idI) (use Proto in auto)
  then show ?case using Proto.prems by (auto simp: Let_def comp_def kept_def source_or_def)
qed

lemma luaU_dump_codec:
  assumes "dumpable f" "depth f + c \<le> LUAI_MAXCCALLS"
  shows "codec strip (\<lambda>D. DumpFunction f None (DumpHeader D))
    (lbind LoadHeader (\<lambda>_. LoadFunction c (Some ''=?'')) :: ('d, Proto) loader) (loaded strip (Some ''=?'') f)"
proof -
  have h: "codec strip DumpHeader (LoadHeader :: ('d, unit) loader) ()"
    unfolding DumpHeader_def [abs_def] LoadHeader_def by (rule codec_last [OF codec_block [OF header_length]]) simp
  have "codec strip (DumpFunction f None) (LoadFunction c (Some ''=?'') :: ('d, Proto) loader) (loaded strip (Some ''=?'') f)"
    by (rule codec_function [OF assms]) simp
  with codec_bind [OF h] show ?thesis by (simp add: o_def)
qed

text \<open>C4: loading a dumped function gives it back: whatever way the reader cuts the bytes into blocks, and
whatever follows them in the stream, \<open>luaU_undump\<close> reads exactly the bytes that \<open>luaU_dump\<close> wrote,
accepts them, and returns the function (without the debug information when it was
stripped), if the nesting of functions stays below the limit on C calls.\<close>

theorem undump_dump:
  assumes "dumpable f" and "depth f + c \<le> LUAI_MAXCCALLS" and "luaU_dump f append_writer [] strip = (st, bs)" and "gives Z (bs @ rest)"
  shows "\<exists>Z'. luaU_undump c Z name = Ok (loaded strip (Some ''=?'') f, Z') \<and> gives Z' rest \<and> st = 0 \<and>
    (\<not> strip \<and> sourced f \<longrightarrow> loaded strip (Some ''=?'') f = f)"
proof -
  obtain b where b: "emits strip (\<lambda>D. DumpFunction f None (DumpHeader D)) b"
    "loads (lbind LoadHeader (\<lambda>_. LoadFunction c (Some ''=?'')) :: ('a, Proto) loader) (loaded strip (Some ''=?'') f) b"
    using luaU_dump_codec [OF assms(1,2), of strip] by (auto simp: codec_def)
  have "DumpFunction f None (DumpHeader (out strip [])) = out strip b" using b(1) by (simp add: emits_def)
  then have o: "bs = b" "st = 0" using assms(3) by (auto simp: luaU_dump_def out_def Let_def)
  let ?S = "\<lparr>S_Z = Z, S_name = chunk_name name\<rparr>"
  have "gives (S_Z ?S) (b @ rest)" using assms(4) o(1) by simp
  with b(2) obtain Z' where "lbind LoadHeader (\<lambda>_. LoadFunction c (Some ''=?'')) ?S = Ok (loaded strip (Some ''=?'') f, ?S\<lparr>S_Z := Z'\<rparr>)" "gives Z' rest"
    unfolding loads_def by blast
  then show ?thesis using o(2) loaded_same [of f] by (auto simp: luaU_undump_def)
qed

text \<open>A chunk with a nested function, read byte by byte.\<close>

definition demo_main :: Proto where
  "demo_main = Proto [VStr ''x'', VNum 0x3FF0000000000000]
     [CREATE_ABx (op_num OP_CLOSURE) 0 0, CREATE_ABC (op_num OP_RETURN) 0 1 0]
     [demo_code [CREATE_ABC (op_num OP_RETURN) 0 1 0]] [1, 1] [] [] (Some ''@demo'') 0 0 0 0 0 2"

definition byte_reader :: "bytes lua_Reader" where
  "byte_reader d = (case d of [] \<Rightarrow> (None, []) | b # bs \<Rightarrow> (Some [b], bs))"

lemma byte_reader_gives: "gives \<lparr>z_p = p, z_reader = byte_reader, z_data = d\<rparr> (p @ d)"
proof (induction d arbitrary: p)
  case (Cons b d)
  let ?z = "\<lparr>z_p = p, z_reader = byte_reader, z_data = b # d\<rparr>"
  have "gives ?z (z_p ?z @ ([b] @ d))"
    by (rule gives_more [where b = "[b]" and d = d]) (use Cons.IH [of "[b]"] in \<open>simp_all add: byte_reader_def [of "_ # _"]\<close>)
  then show ?case by simp
qed (simp add: gives_block [where r = "[]"])

lemma demo_checks:
  "luaG_checkcode demo_main = Ok True" "luaG_checkcode (demo_code [CREATE_ABC (op_num OP_RETURN) 0 1 0]) = Ok True"
  by code_simp+

theorem undump_dump_witness:
  "\<exists>Z'. luaU_undump 5 (luaZ_init byte_reader (snd (luaU_dump demo_main append_writer [] False))) ''@demo'' = Ok (demo_main, Z')"
proof -
  have d: "dumpable demo_main" "sourced demo_main" "depth demo_main + 5 \<le> LUAI_MAXCCALLS"
    using demo_checks by (simp_all add: demo_main_def demo_code_def part_ok_def debug_ok_def str_ok_def int_ok_def const_ok_def MAX_SIZET_def LUAI_MAXCCALLS_def)
  obtain st bs where b: "luaU_dump demo_main append_writer [] False = (st, bs)" by (cases "luaU_dump demo_main append_writer [] False")
  have "gives (luaZ_init byte_reader bs) (bs @ [])" using byte_reader_gives [of "[]" bs] by (simp add: luaZ_init_def)
  from undump_dump [OF d(1,3) b this, of "''@demo''"] d(2) b show ?thesis by auto
qed

section \<open>What a loaded function satisfies\<close>

primrec all_checked :: "Proto \<Rightarrow> bool" where
  "all_checked (Proto k code ps lineinfo locvars upvalues source linedefined lastlinedefined nups numparams is_vararg maxstack) \<longleftrightarrow>
     luaG_checkcode (Proto k code ps lineinfo locvars upvalues source linedefined lastlinedefined nups numparams is_vararg maxstack) = Ok True \<and>
     (\<forall>b \<in> set (map all_checked ps). b)"

lemma lbind_OkE:
  assumes "lbind l f S = Ok (y, S')"
  obtains x S1 where "l S = Ok (x, S1)" "f x S1 = Ok (y, S')"
  using assms by (auto simp: lbind_def elim!: rbind_OkE)

lemma lret_Ok [simp]: "lret x S = Ok (y, S') \<longleftrightarrow> y = x \<and> S' = S"
  by (auto simp: lret_def)

lemma lerror_Ok [simp]: "lerror why S \<noteq> Ok r"
  by (simp add: lerror_def)

lemma lift_res_Ok [simp]: "lift_res r S = Ok (y, S') \<longleftrightarrow> r = Ok y \<and> S' = S"
  by (cases r) (auto simp: lift_res_def)

lemma lrepeat_Ok:
  "lrepeat n l S = Ok (xs, S') \<Longrightarrow> (\<And>S x S'. l S = Ok (x, S') \<Longrightarrow> P x) \<Longrightarrow> \<forall>x \<in> set xs. P x"
proof (induction n arbitrary: S xs)
  case (Suc n)
  from Suc.prems(1) obtain x S1 ys where "l S = Ok (x, S1)" "lrepeat n l S1 = Ok (ys, S')" "xs = x # ys"
    by (auto elim!: lbind_OkE)
  then show ?case using Suc.IH [of S1 ys] Suc.prems(2) by auto
qed simp

lemma foldr_max_le: "(\<forall>g \<in> set ps. depth g \<le> n) \<Longrightarrow> foldr max (map depth ps) 0 \<le> n"
  by (induction ps) auto

lemma load_checked:
  fixes S :: "'d LoadState"
  shows "LoadFunction c p S = Ok (f, S') \<Longrightarrow> all_checked f \<and> depth f + c \<le> LUAI_MAXCCALLS"
    and "LoadConstants c p S = Ok (kp, S') \<Longrightarrow> c \<le> LUAI_MAXCCALLS \<Longrightarrow> \<forall>g \<in> set (snd kp). all_checked g \<and> depth g + c \<le> LUAI_MAXCCALLS"
proof (induction c p and c p arbitrary: S f S' and S kp S' rule: LoadFunction_LoadConstants.induct)
  case (1 c p)
  have c: "\<not> LUAI_MAXCCALLS < c + 1" using 1(2) by (auto simp: LoadFunction.simps [of c p])
  from 1(2) obtain s and S1 S2 :: "'d LoadState" where
    f: "p_source f = (case s of None \<Rightarrow> p | Some _ \<Rightarrow> s)" "LoadConstants (c + 1) (p_source f) S1 = Ok ((p_k f, p_p f), S2)" "luaG_checkcode f = Ok True"
    unfolding LoadFunction.simps [of c p] if_not_P [OF c]
    by (auto elim!: lbind_OkE simp: Let_def split: if_splits)
  from 1(1) [OF c f(1,2)] c have n: "\<forall>g \<in> set (p_p f). all_checked g \<and> depth g + (c + 1) \<le> LUAI_MAXCCALLS" by simp
  then have "foldr max (map depth (p_p f)) 0 \<le> LUAI_MAXCCALLS - (c + 1)" by (intro foldr_max_le) fastforce
  then show ?case using f(3) n c by (cases f) auto
next
  case (2 c source)
  from 2(2) obtain k n ps and S1 S2 :: "'d LoadState" where l: "lrepeat n (LoadFunction c source) S1 = Ok (ps, S2)" "kp = (k, ps)"
    unfolding LoadConstants.simps [of c source] by (auto elim!: lbind_OkE)
  show ?case using lrepeat_Ok [OF l(1), of "\<lambda>g. all_checked g \<and> depth g + c \<le> LUAI_MAXCCALLS"] 2(1) l(2) by auto
qed

text \<open>C29: every function that \<open>luaU_undump\<close> accepts, from any stream of bytes, has been checked with all
functions nested in it, and they are nested less deep than the limit on C calls; a stream that does not
begin with the header of this machine is rejected with a message that names the chunk.\<close>

theorem undump_checked:
  fixes Z Z' :: "'d ZIO"
  shows "(luaU_undump c Z name = Ok (f, Z') \<longrightarrow> all_checked f \<and> depth f + c \<le> LUAI_MAXCCALLS) \<and>
    (gives Z h \<and> length h = 12 \<and> h \<noteq> luaU_header \<longrightarrow>
       luaU_undump c Z name = Fail (SyntaxError (chunk_name name @ '': bad header in precompiled chunk'')))"
proof (intro conjI impI)
  assume "luaU_undump c Z name = Ok (f, Z')"
  then obtain S1 S2 :: "'d LoadState" where "LoadFunction c (Some ''=?'') S1 = Ok (f, S2)"
    by (auto simp: luaU_undump_def elim!: rbind_OkE lbind_OkE)
  from load_checked(1) [OF this] show "all_checked f" "depth f + c \<le> LUAI_MAXCCALLS" by simp_all
next
  assume h: "gives Z h \<and> length h = 12 \<and> h \<noteq> luaU_header"
  then obtain Z1 where "luaZ_read Z 12 = (h, 0, Z1)" using luaZ_read_gives [of Z h "[]"] by auto
  then show "luaU_undump c Z name = Fail (SyntaxError (chunk_name name @ '': bad header in precompiled chunk''))"
    using h by (auto simp: luaU_undump_def lbind_def LoadHeader_def LoadBlock_def LUAC_HEADERSIZE_def lerror_def Let_def)
qed

theorem undump_checked_witness:
  "luaU_undump 0 (luaZ_init one_block (replicate 12 0)) ''=x'' = Fail (SyntaxError ''x: bad header in precompiled chunk'')"
proof -
  have "gives \<lparr>z_p = [], z_reader = one_block, z_data = replicate 12 0\<rparr> (z_p \<lparr>z_p = [], z_reader = one_block, z_data = replicate 12 0\<rparr> @ replicate 12 0)"
    by (rule gives_more [where b = "replicate 12 0" and d = "[]"]) (auto simp: one_block_def intro: gives_block [where r = "[]"])
  then have "gives (luaZ_init one_block (replicate 12 0)) (replicate 12 0)" by (simp add: luaZ_init_def)
  moreover have "hd (replicate 12 0) \<noteq> hd luaU_header" by (simp add: luaU_header_def LUA_SIGNATURE_def)
  then have "replicate 12 0 \<noteq> luaU_header" by metis
  moreover have "chunk_name ''=x'' = ''x''" by (simp add: chunk_name_def)
  ultimately show ?thesis using undump_checked [of 0 "luaZ_init one_block (replicate 12 0)" "''=x''" _ _ "replicate 12 0"] by simp
qed

end
