(* ===== verification/LuaVm.thy ===== *)
theory LuaVm
  imports LuaApi "HOL-Library.Char_ord" "HOL-Library.List_Lexorder"
begin

text \<open>
  The operations of lvm.c on values: arithmetic, comparison and concatenation with
  their metamethods, the functions of lapi.c that give them to C code, and their errors in
  ldebug.c. The lemmas show that strings are ordered lexicographically by their
  bytes, zeros included, although \<open>strcoll\<close> stops at zeros; that comparison, equality and concatenation of
  numbers and strings do what they mean and need no metamethod; and the text of the errors.
\<close>

section \<open>The C library\<close>

text \<open>The text of a number (\<open>lua_number2str\<close>, that is \<open>sprintf\<close> with \<open>%.14g\<close>), \<open>pow\<close>, and \<open>sprintf\<close> with a format for
one argument, which is a signed or unsigned \<open>long\<close>, a double or a string, are functions of the C runtime.\<close>

record libc =
  c_num2str :: "lua_Number \<Rightarrow> string"
  c_pow :: "lua_Number \<Rightarrow> lua_Number \<Rightarrow> lua_Number"
  c_print_int :: "string \<Rightarrow> int \<Rightarrow> string"
  c_print_unsigned :: "string \<Rightarrow> nat \<Rightarrow> string"
  c_print_num :: "string \<Rightarrow> lua_Number \<Rightarrow> string"
  c_print_str :: "string \<Rightarrow> string \<Rightarrow> string"

section \<open>Arithmetic of doubles\<close>

definition dbl_mul :: "lua_Number \<Rightarrow> lua_Number \<Rightarrow> lua_Number" where
  "dbl_mul a b =
     (let s = (dbl_sign a \<noteq> dbl_sign b); x = units (dbl_mag a); y = units (dbl_mag b) in
      if dbl_isnan a then a OR 0x0008000000000000
      else if dbl_isnan b then b OR 0x0008000000000000
      else if dbl_isinf a then (if y = 0 then quiet_nan else dbl_pack s inf_mag)
      else if dbl_isinf b then (if x = 0 then quiet_nan else dbl_pack s inf_mag)
      else dbl_pack s (round_ratio (x * y) scale))"

definition dbl_div :: "lua_Number \<Rightarrow> lua_Number \<Rightarrow> lua_Number" where
  "dbl_div a b =
     (let s = (dbl_sign a \<noteq> dbl_sign b); x = units (dbl_mag a); y = units (dbl_mag b) in
      if dbl_isnan a then a OR 0x0008000000000000
      else if dbl_isnan b then b OR 0x0008000000000000
      else if dbl_isinf a then (if dbl_isinf b then quiet_nan else dbl_pack s inf_mag)
      else if dbl_isinf b then dbl_pack s 0
      else if y = 0 then (if x = 0 then quiet_nan else dbl_pack s inf_mag)
      else dbl_pack s (round_ratio (x * scale) y))"

definition dbl_floor :: "lua_Number \<Rightarrow> lua_Number" where
  "dbl_floor d =
     (if dbl_isnan d then d OR 0x0008000000000000
      else if dbl_isinf d then d
      else let q = dbl_units d div int scale
           in if q = 0 then dbl_pack (dbl_sign d) 0 else dbl_round (q * int scale))"

definition luai_numadd :: "lua_Number \<Rightarrow> lua_Number \<Rightarrow> lua_Number" where "luai_numadd a b = dbl_add a b"
definition luai_numsub :: "lua_Number \<Rightarrow> lua_Number \<Rightarrow> lua_Number" where
  "luai_numsub a b = (if dbl_isnan b then (if dbl_isnan a then a else b) OR 0x0008000000000000 else dbl_add a (dbl_neg b))"
definition luai_nummul :: "lua_Number \<Rightarrow> lua_Number \<Rightarrow> lua_Number" where "luai_nummul a b = dbl_mul a b"
definition luai_numdiv :: "lua_Number \<Rightarrow> lua_Number \<Rightarrow> lua_Number" where "luai_numdiv a b = dbl_div a b"
definition luai_nummod :: "lua_Number \<Rightarrow> lua_Number \<Rightarrow> lua_Number" where
  "luai_nummod a b = luai_numsub a (dbl_mul (dbl_floor (dbl_div a b)) b)"
definition luai_numunm :: "lua_Number \<Rightarrow> lua_Number" where "luai_numunm a = dbl_neg a"

definition luai_numle :: "lua_Number \<Rightarrow> lua_Number \<Rightarrow> bool" where
  "luai_numle a b \<longleftrightarrow> \<not> dbl_isnan a \<and> \<not> dbl_isnan b \<and> dbl_units a \<le> dbl_units b"

section \<open>Errors\<close>

definition luaG_concaterror :: "TValue \<Rightarrow> TValue \<Rightarrow> 'a res" where
  "luaG_concaterror p1 p2 = luaG_typeerror (if ttype p1 = 4 \<or> ttype p1 = 3 then p2 else p1) ''concatenate''"

definition luaG_aritherror :: "TValue \<Rightarrow> TValue \<Rightarrow> 'a res" where
  "luaG_aritherror p1 p2 = luaG_typeerror (if luaV_tonumber p1 = None then p1 else p2) ''perform arithmetic on''"

text \<open>The names of two types are compared by their third letter.\<close>

definition luaG_ordererror :: "TValue \<Rightarrow> TValue \<Rightarrow> 'a res" where
  "luaG_ordererror p1 p2 =
     (let t1 = lua_typename (ttype p1); t2 = lua_typename (ttype p2) in
      if t1 ! 2 = t2 ! 2 then Fail (LuaError (''attempt to compare two '' @ t1 @ '' values''))
      else Fail (LuaError (''attempt to compare '' @ t1 @ '' with '' @ t2)))"

section \<open>Metamethods of operators\<close>

text \<open>The result of the call, if there is a metamethod.\<close>

definition call_binTM :: "world \<Rightarrow> lua_State \<Rightarrow> TValue \<Rightarrow> TValue \<Rightarrow> TMS \<Rightarrow> (lua_State \<times> TValue option) res" where
  "call_binTM W S p1 p2 ev =
     rbind (luaT_gettmbyobj S p1 ev) (\<lambda>tm.
     rbind (if tm = VNil then luaT_gettmbyobj S p2 ev else Ok tm) (\<lambda>tm.
       if tm = VNil then Ok (S, None) else rbind (callTMres W S tm p1 p2) (\<lambda>(S1, v). Ok (S1, Some v))))"

definition get_compTM :: "lua_State \<Rightarrow> u32 \<Rightarrow> u32 \<Rightarrow> TMS \<Rightarrow> (lua_State \<times> TValue option) res" where
  "get_compTM S mt1 mt2 ev =
     rbind (fasttm S mt1 ev) (\<lambda>(S1, tm1).
       case tm1 of
         None \<Rightarrow> Ok (S1, None)
       | Some t1 \<Rightarrow>
           if mt1 = mt2 then Ok (S1, Some t1)
           else rbind (fasttm S1 mt2 ev) (\<lambda>(S2, tm2).
             case tm2 of
               None \<Rightarrow> Ok (S2, None)
             | Some t2 \<Rightarrow> Ok (S2, if luaO_rawequalObj t1 t2 then Some t1 else None)))"

text \<open>The answer is \<open>None\<close> for the code's \<open>-1\<close>.\<close>

definition call_orderTM :: "world \<Rightarrow> lua_State \<Rightarrow> TValue \<Rightarrow> TValue \<Rightarrow> TMS \<Rightarrow> (lua_State \<times> bool option) res" where
  "call_orderTM W S p1 p2 ev =
     rbind (luaT_gettmbyobj S p1 ev) (\<lambda>tm1.
       if tm1 = VNil then Ok (S, None)
       else rbind (luaT_gettmbyobj S p2 ev) (\<lambda>tm2.
         if \<not> luaO_rawequalObj tm1 tm2 then Ok (S, None)
         else rbind (callTMres W S tm1 p1 p2) (\<lambda>(S1, v). Ok (S1, Some (\<not> l_isfalse v)))))"

section \<open>Comparison\<close>

text \<open>\<open>strcoll\<close> in the C locale, on strings that end at their first zero.\<close>

fun strcoll :: "string \<Rightarrow> string \<Rightarrow> int" where
  "strcoll [] [] = 0"
| "strcoll [] (_ # _) = - 1"
| "strcoll (_ # _) [] = 1"
| "strcoll (c # l) (d # r) = (if c = d then strcoll l r else if c < d then - 1 else 1)"

function l_strcmp :: "string \<Rightarrow> string \<Rightarrow> int" where
  "l_strcmp l r =
     (let temp = strcoll (cstr l) (cstr r) in
      if temp \<noteq> 0 then temp
      else
        (let len = length (cstr l) in
         if len = length r then (if len = length l then 0 else 1)
         else if len = length l then - 1
         else l_strcmp (drop (len + 1) l) (drop (len + 1) r)))"
  by pat_completeness auto
termination
proof (relation "measure (\<lambda>(l, r). length l)", goal_cases)
  case (2 l r temp len)
  have "length (cstr l) \<le> length l" by (simp add: cstr_def length_takeWhile_le)
  then show ?case using 2 by simp
qed simp

declare l_strcmp.simps [simp del]

definition luaV_lessthan :: "world \<Rightarrow> lua_State \<Rightarrow> TValue \<Rightarrow> TValue \<Rightarrow> (lua_State \<times> bool) res" where
  "luaV_lessthan W S l r =
     (if ttype l \<noteq> ttype r then luaG_ordererror l r
      else
        (case (l, r) of
           (VNum a, VNum b) \<Rightarrow> Ok (S, luai_numlt a b)
         | (VStr a, VStr b) \<Rightarrow> Ok (S, l_strcmp a b < 0)
         | _ \<Rightarrow> rbind (call_orderTM W S l r TM_LT) (\<lambda>(S1, res).
             case res of Some b \<Rightarrow> Ok (S1, b) | None \<Rightarrow> luaG_ordererror l r)))"

definition lessequal :: "world \<Rightarrow> lua_State \<Rightarrow> TValue \<Rightarrow> TValue \<Rightarrow> (lua_State \<times> bool) res" where
  "lessequal W S l r =
     (if ttype l \<noteq> ttype r then luaG_ordererror l r
      else
        (case (l, r) of
           (VNum a, VNum b) \<Rightarrow> Ok (S, luai_numle a b)
         | (VStr a, VStr b) \<Rightarrow> Ok (S, l_strcmp a b \<le> 0)
         | _ \<Rightarrow> rbind (call_orderTM W S l r TM_LE) (\<lambda>(S1, res).
             case res of
               Some b \<Rightarrow> Ok (S1, b)
             | None \<Rightarrow> rbind (call_orderTM W S1 r l TM_LT) (\<lambda>(S2, res).
                 case res of Some b \<Rightarrow> Ok (S2, \<not> b) | None \<Rightarrow> luaG_ordererror l r))))"

text \<open>Two values of the same type; the objects that have no metamethod here are the same when their addresses are.\<close>

definition luaV_equalval :: "world \<Rightarrow> lua_State \<Rightarrow> TValue \<Rightarrow> TValue \<Rightarrow> (lua_State \<times> bool) res" where
  "luaV_equalval W S t1 t2 =
     (let try_tm = (\<lambda>mt1 mt2. rbind (get_compTM S mt1 mt2 TM_EQ) (\<lambda>(S1, tm).
        case tm of
          None \<Rightarrow> Ok (S1, False)
        | Some tm \<Rightarrow> rbind (callTMres W S1 tm t1 t2) (\<lambda>(S2, v). Ok (S2, \<not> l_isfalse v)))) in
      case (t1, t2) of
        (VNil, VNil) \<Rightarrow> Ok (S, True)
      | (VNum a, VNum b) \<Rightarrow> Ok (S, luai_numeq a b)
      | (VBool a, VBool b) \<Rightarrow> Ok (S, a = b)
      | (VUser a, VUser b) \<Rightarrow> if a = b then Ok (S, True) else try_tm (L_umt S a) (L_umt S b)
      | (VTable a, VTable b) \<Rightarrow>
          if a = b then Ok (S, True)
          else rbind (get_table S a) (\<lambda>h1. rbind (get_table S b) (\<lambda>h2. try_tm (t_metatable h1) (t_metatable h2)))
      | _ \<Rightarrow> Ok (S, t1 = t2))"

definition equalobj :: "world \<Rightarrow> lua_State \<Rightarrow> TValue \<Rightarrow> TValue \<Rightarrow> (lua_State \<times> bool) res" where
  "equalobj W S o1 o2 = (if ttype o1 = ttype o2 then luaV_equalval W S o1 o2 else Ok (S, False))"

definition lua_equal :: "world \<Rightarrow> lua_State \<Rightarrow> int \<Rightarrow> int \<Rightarrow> (lua_State \<times> bool) res" where
  "lua_equal W S i j =
     rbind (index_value S i) (\<lambda>o1. rbind (index_value S j) (\<lambda>o2.
       case (o1, o2) of (Some a, Some b) \<Rightarrow> equalobj W S a b | _ \<Rightarrow> Ok (S, False)))"

definition lua_lessthan :: "world \<Rightarrow> lua_State \<Rightarrow> int \<Rightarrow> int \<Rightarrow> (lua_State \<times> bool) res" where
  "lua_lessthan W S i j =
     rbind (index_value S i) (\<lambda>o1. rbind (index_value S j) (\<lambda>o2.
       case (o1, o2) of (Some a, Some b) \<Rightarrow> luaV_lessthan W S a b | _ \<Rightarrow> Ok (S, False)))"

section \<open>Arithmetic\<close>

definition arith_op :: "libc \<Rightarrow> TMS \<Rightarrow> lua_Number \<Rightarrow> lua_Number \<Rightarrow> lua_Number res" where
  "arith_op C op b c =
     (case op of
        TM_ADD \<Rightarrow> Ok (luai_numadd b c)
      | TM_SUB \<Rightarrow> Ok (luai_numsub b c)
      | TM_MUL \<Rightarrow> Ok (luai_nummul b c)
      | TM_DIV \<Rightarrow> Ok (luai_numdiv b c)
      | TM_MOD \<Rightarrow> Ok (luai_nummod b c)
      | TM_POW \<Rightarrow> Ok (c_pow C b c)
      | TM_UNM \<Rightarrow> Ok (luai_numunm b)
      | _ \<Rightarrow> Fail (Undefined ''not an arithmetic event''))"

text \<open>The result, which the code stores at \<open>ra\<close>.\<close>

definition Arith :: "libc \<Rightarrow> world \<Rightarrow> lua_State \<Rightarrow> TValue \<Rightarrow> TValue \<Rightarrow> TMS \<Rightarrow> (lua_State \<times> TValue) res" where
  "Arith C W S rb rc op =
     (case (luaV_tonumber rb, luaV_tonumber rc) of
        (Some b, Some c) \<Rightarrow> rbind (arith_op C op b c) (\<lambda>n. Ok (S, VNum n))
      | _ \<Rightarrow> rbind (call_binTM W S rb rc op) (\<lambda>(S1, res).
          case res of Some v \<Rightarrow> Ok (S1, v) | None \<Rightarrow> luaG_aritherror rb rc))"

section \<open>Concatenation\<close>

definition st_get :: "lua_State \<Rightarrow> nat \<Rightarrow> TValue res" where
  "st_get S i = aget (L_stack S) i"

definition st_set :: "lua_State \<Rightarrow> nat \<Rightarrow> TValue \<Rightarrow> lua_State res" where
  "st_set S i v = rbind (aset (L_stack S) i v) (\<lambda>st. Ok (S\<lparr>L_stack := st\<rparr>))"

text \<open>\<open>luaV_tostring\<close> converts in place; the macro \<open>tostring\<close> leaves strings as they are.\<close>

definition luaV_tostring :: "libc \<Rightarrow> lua_State \<Rightarrow> nat \<Rightarrow> (lua_State \<times> bool) res" where
  "luaV_tostring C S i =
     rbind (st_get S i) (\<lambda>obj. case obj of
       VNum n \<Rightarrow> rbind (st_set S i (VStr (c_num2str C n))) (\<lambda>S1. Ok (S1, True))
     | _ \<Rightarrow> Ok (S, False))"

definition tostring :: "libc \<Rightarrow> lua_State \<Rightarrow> nat \<Rightarrow> (lua_State \<times> bool) res" where
  "tostring C S i = rbind (st_get S i) (\<lambda>obj. if ttype obj = 4 then Ok (S, True) else luaV_tostring C S i)"

definition str_at :: "lua_State \<Rightarrow> nat \<Rightarrow> string res" where
  "str_at S i = rbind (st_get S i) (\<lambda>v. case v of VStr s \<Rightarrow> Ok s | _ \<Rightarrow> Fail (Undefined ''not a string''))"

text \<open>The place \<open>k\<close> below the top.\<close>

definition below :: "nat \<Rightarrow> nat \<Rightarrow> nat res" where
  "below tp k = (if k \<le> tp then Ok (tp - k) else Fail (Undefined ''below the frame''))"

text \<open>The loop that collects the operands: \<open>n\<close> of them so far with \<open>len\<close> bytes, \<open>k\<close> more to look at.\<close>

primrec collect :: "libc \<Rightarrow> nat \<Rightarrow> lua_State \<Rightarrow> nat \<Rightarrow> nat \<Rightarrow> nat \<Rightarrow> (lua_State \<times> nat) res" where
  "collect C tp S n len 0 = Ok (S, n)"
| "collect C tp S n len (Suc k) =
     rbind (below tp (n + 1)) (\<lambda>i. rbind (tostring C S i) (\<lambda>(S1, ok).
       if ok then rbind (str_at S1 i) (\<lambda>s.
         if MAX_SIZET \<le> length s + len then Fail (LuaError ''string length overflow'')
         else collect C tp S1 (n + 1) (len + length s) k)
       else Ok (S1, n)))"

text \<open>The \<open>n\<close> strings below the tp, from the lowest.\<close>

primrec join :: "lua_State \<Rightarrow> nat \<Rightarrow> nat \<Rightarrow> string res" where
  "join S tp 0 = Ok ''''"
| "join S tp (Suc i) =
     rbind (below tp (Suc i)) (\<lambda>j. rbind (str_at S j) (\<lambda>s. rbind (join S tp i) (\<lambda>t. Ok (s @ t))))"

text \<open>One pass: the state and the number of operands that became one.\<close>

definition concat_pass :: "libc \<Rightarrow> world \<Rightarrow> lua_State \<Rightarrow> nat \<Rightarrow> nat \<Rightarrow> (lua_State \<times> nat) res" where
  "concat_pass C W S cnt tp =
     rbind (below tp 2) (\<lambda>i2. rbind (below tp 1) (\<lambda>i1. rbind (st_get S i2) (\<lambda>v2.
     rbind (if ttype v2 = 4 \<or> ttype v2 = 3 then tostring C S i1 else Ok (S, False)) (\<lambda>(S1, ok).
       if \<not> ok then
         rbind (st_get S1 i1) (\<lambda>v1. rbind (call_binTM W S1 v2 v1 TM_CONCAT) (\<lambda>(S2, res).
           case res of None \<Rightarrow> luaG_concaterror v2 v1 | Some v \<Rightarrow> rbind (st_set S2 i2 v) (\<lambda>S3. Ok (S3, 2))))
       else rbind (str_at S1 i1) (\<lambda>s1.
         if s1 = '''' then rbind (tostring C S1 i2) (\<lambda>(S2, ok). Ok (S2, 2))
         else rbind (collect C tp S1 1 (length s1) (cnt - 1)) (\<lambda>(S2, n).
              rbind (join S2 tp n) (\<lambda>s. rbind (below tp n) (\<lambda>j. rbind (st_set S2 j (VStr s)) (\<lambda>S3. Ok (S3, n))))))))))"

lemma collect_ge: "collect C tp S n len k = Ok (S', m) \<Longrightarrow> n \<le> m"
proof (induction k arbitrary: S n len)
  case (Suc k)
  obtain i where i: "below tp (n + 1) = Ok i" using Suc.prems by (auto elim: rbind_OkE)
  obtain S1 ok where t: "tostring C S i = Ok (S1, ok)" using Suc.prems i by (auto simp: rbind_Ok_iff)
  show ?case
  proof (cases ok)
    case True
    obtain s where s: "str_at S1 i = Ok s" using Suc.prems i t True by (auto elim: rbind_OkE)
    then have "collect C tp S1 (n + 1) (len + length s) k = Ok (S', m)"
      using Suc.prems i t True by (simp split: if_splits)
    then show ?thesis using Suc.IH by force
  qed (use Suc.prems i t in simp)
qed simp

lemma st_set_Ok: "st_set S i v = Ok S' \<Longrightarrow> i < length (L_stack S) \<and> S' = S\<lparr>L_stack := (L_stack S)[i := v]\<rparr>"
  by (auto simp: st_set_def rbind_Ok_iff aset_Ok_iff)

lemma st_get_Ok: "st_get S i = Ok v \<longleftrightarrow> i < length (L_stack S) \<and> v = L_stack S ! i"
  by (simp add: st_get_def aget_Ok_iff)

lemma tostring_Ok:
  assumes "tostring C S i = Ok (S1, ok)"
  shows "i < length (L_stack S) \<and> (ok \<longleftrightarrow> ttype (L_stack S ! i) = 4 \<or> ttype (L_stack S ! i) = 3) \<and>
    (\<not> ok \<longrightarrow> S1 = S) \<and>
    (ok \<longrightarrow> S1 = S\<lparr>L_stack := (L_stack S)[i := VStr (case L_stack S ! i of VNum x \<Rightarrow> c_num2str C x | VStr s \<Rightarrow> s | _ \<Rightarrow> '''')]\<rparr>)"
proof -
  obtain v where v: "st_get S i = Ok v" using assms unfolding tostring_def by (elim rbind_OkE)
  then have i: "i < length (L_stack S)" "L_stack S ! i = v" by (simp_all add: st_get_Ok)
  have "S\<lparr>L_stack := (L_stack S)[i := v]\<rparr> = S" using i(2) [symmetric] by simp
  then show ?thesis
    using assms v i unfolding tostring_def luaV_tostring_def v rbind_simps
    by (cases v) (auto simp: st_set_def)
qed

lemma concat_pass_ge2:
  assumes "concat_pass C W S cnt tp = Ok (S', n)" and "2 \<le> cnt"
  shows "2 \<le> n"
proof -
  note e = assms(1) [unfolded concat_pass_def]
  obtain i2 where i2: "below tp 2 = Ok i2" using e by (elim rbind_OkE)
  note e = e [unfolded i2 rbind_simps]
  obtain i1 where i1: "below tp 1 = Ok i1" using e by (elim rbind_OkE)
  note e = e [unfolded i1 rbind_simps]
  obtain v2 where v2: "st_get S i2 = Ok v2" using e by (elim rbind_OkE)
  note e = e [unfolded v2 rbind_simps]
  obtain S1 ok where t: "(if ttype v2 = 4 \<or> ttype v2 = 3 then tostring C S i1 else Ok (S, False)) = Ok (S1, ok)"
    using e by (elim rbind_OkE) auto
  note e = e [unfolded t rbind_simps prod.case]
  show ?thesis
  proof (cases ok)
    case False
    then show ?thesis using e by (auto simp: rbind_Ok_iff luaG_concaterror_def luaG_typeerror_def split: option.splits)
  next
    case True
    then have ty: "ttype v2 = 4 \<or> ttype v2 = 3" and ts: "tostring C S i1 = Ok (S1, True)"
      using t by (auto split: if_splits)
    obtain s1 where s1: "str_at S1 i1 = Ok s1" using e True by (auto elim: rbind_OkE)
    show ?thesis
    proof (cases "s1 = ''''")
      case False
      then obtain S2 m where c: "collect C tp S1 1 (length s1) (cnt - 1) = Ok (S2, m)" and "n = m"
        using e True s1 by (auto simp: rbind_Ok_iff)
      obtain k where k: "cnt - 1 = Suc k" using assms(2) by (cases "cnt - 1") auto
      have ne: "i1 \<noteq> i2" "below tp 2 = Ok i2" using i1 i2 by (auto simp: below_def split: if_splits)
      have "L_stack S1 ! i2 = v2" "i2 < length (L_stack S1)"
        using tostring_Ok [OF ts] v2 ne(1) by (auto simp: st_get_Ok)
      then have "ok2" if "tostring C S1 i2 = Ok (S3, ok2)" for S3 ok2
        using tostring_Ok [OF that] ty by simp
      then obtain len' S3 where "collect C tp S3 2 len' k = Ok (S2, m)"
        using c ne(2) unfolding k by (auto simp: rbind_Ok_iff numeral_2_eq_2 split: if_splits)
      then show ?thesis using collect_ge \<open>n = m\<close> by blast
    qed (use e True s1 in \<open>auto simp: rbind_Ok_iff\<close>)
  qed
qed

text \<open>\<open>tp\<close> is the place behind the last operand.\<close>

function concat_loop :: "libc \<Rightarrow> world \<Rightarrow> lua_State \<Rightarrow> nat \<Rightarrow> nat \<Rightarrow> lua_State res" where
  "concat_loop C W S cnt tp =
     rbind (concat_pass C W S cnt tp) (\<lambda>(S1, n).
       if cnt - (n - 1) > 1 then concat_loop C W S1 (cnt - (n - 1)) (tp - (n - 1)) else Ok S1)"
  by pat_completeness auto
termination
  by (relation "measure (\<lambda>(C, W, S, cnt, tp). cnt)") (auto dest: concat_pass_ge2)

declare concat_loop.simps [simp del]

definition luaV_concat :: "libc \<Rightarrow> world \<Rightarrow> lua_State \<Rightarrow> nat \<Rightarrow> nat \<Rightarrow> lua_State res" where
  "luaV_concat C W S cnt last_i = concat_loop C W S cnt (last_i + 1)"

definition lua_concat :: "libc \<Rightarrow> world \<Rightarrow> lua_State \<Rightarrow> nat \<Rightarrow> lua_State res" where
  "lua_concat C W S n =
     (if length (L_stack S) < n then Fail (Undefined ''stack underflow'')
      else if 2 \<le> n then rbind (luaV_concat C W S n (length (L_stack S) - 1)) (\<lambda>S1. api_pop S1 (n - 1))
      else if n = 0 then Ok (api_push S (VStr ''''))
      else Ok S)"

section \<open>The order of strings\<close>

lemma cstr_Nil_iff: "cstr s = [] \<longleftrightarrow> s = [] \<or> hd s = CHR 0x00"
  by (cases s) (simp_all add: cstr_def)

lemma cstr_Cons: "c \<noteq> CHR 0x00 \<Longrightarrow> cstr (c # s) = c # cstr s"
  by (simp add: cstr_def)

lemma nul_less: "c \<noteq> CHR 0x00 \<Longrightarrow> CHR 0x00 < (c :: char)"
proof -
  assume "c \<noteq> CHR 0x00"
  moreover have "CHR 0x00 \<le> c" by (simp add: less_eq_char_def)
  ultimately show ?thesis by simp
qed

text \<open>One round of \<open>l_strcmp\<close>: a difference in front of the zeros decides, else the rest does.\<close>

lemma l_strcmp_Cons: "c \<noteq> CHR 0x00 \<Longrightarrow> l_strcmp (c # l) (c # r) = l_strcmp l r"
  by (simp add: l_strcmp.simps [of "c # l"] l_strcmp.simps [of l] cstr_Cons Let_def)

lemma l_strcmp_NUL: "l_strcmp (CHR 0x00 # l) (CHR 0x00 # r) = l_strcmp l r"
  by (subst l_strcmp.simps) (simp add: cstr_def Let_def)

lemma l_strcmp_same: "l_strcmp (c # l) (c # r) = l_strcmp l r"
  using l_strcmp_NUL [of l r] l_strcmp_Cons [of c l r] by (cases "c = CHR 0x00") auto

lemma l_strcmp_Nil: "l_strcmp (c # l) [] = 1" "l_strcmp [] (c # l) = - 1"
  by (cases "c = CHR 0x00"; subst l_strcmp.simps; simp add: cstr_def Let_def)+

lemma l_strcmp_differ: "c \<noteq> d \<Longrightarrow> l_strcmp (c # l) (d # r) = (if c < d then - 1 else 1)"
  using nul_less [of c] nul_less [of d]
  by (cases "c = CHR 0x00"; cases "d = CHR 0x00"; subst l_strcmp.simps) (auto simp: cstr_def Let_def)

lemma l_strcmp_lex: "l_strcmp l r = (if l = r then 0 else if l < r then - 1 else 1)"
proof (induction l arbitrary: r)
  case Nil
  show ?case
  proof (cases r)
    case (Cons d r')
    then show ?thesis by (simp add: l_strcmp_Nil)
  qed (simp add: l_strcmp.simps [of "[]"] cstr_def)
next
  case (Cons c l)
  show ?case
  proof (cases r)
    case Nil
    then show ?thesis by (simp add: l_strcmp_Nil)
  next
    case r: (Cons d r')
    show ?thesis
    proof (cases "c = d")
      case True
      have "l_strcmp (c # l) (d # r') = l_strcmp l r'"
        using True by (simp add: l_strcmp_same)
      then show ?thesis using Cons.IH [of r'] True r by (simp add: Cons_less_Cons)
    next
      case False
      then have "l_strcmp (c # l) (d # r') = (if c < d then - 1 else 1)" by (rule l_strcmp_differ)
      then show ?thesis using False r by (simp add: Cons_less_Cons)
    qed
  qed
qed

text \<open>C30: the comparison operators order strings lexicographically by their bytes, which may be zeros,
and neither changes the state nor calls a metamethod.\<close>

theorem string_order:
  "luaV_lessthan W S (VStr a) (VStr b) = Ok (S, a < b) \<and> lessequal W S (VStr a) (VStr b) = Ok (S, a \<le> b) \<and>
   luaV_equalval W S (VStr a) (VStr b) = Ok (S, a = b)"
  by (auto simp: luaV_lessthan_def lessequal_def luaV_equalval_def l_strcmp_lex)

section \<open>Concatenation of strings and numbers\<close>

definition text_of :: "libc \<Rightarrow> TValue \<Rightarrow> string option" where
  "text_of C v = (case v of VStr s \<Rightarrow> Some s | VNum n \<Rightarrow> Some (c_num2str C n) | _ \<Rightarrow> None)"

abbreviation vtext :: "libc \<Rightarrow> TValue \<Rightarrow> string" where
  "vtext C v \<equiv> the (text_of C v)"

lemma tostring_text:
  assumes "L_stack S = pre @ v # post" "i = length pre" "text_of C v \<noteq> None"
  shows "tostring C S i = Ok (S\<lparr>L_stack := pre @ VStr (vtext C v) # post\<rparr>, True)"
proof -
  have "S\<lparr>L_stack := pre @ v # post\<rparr> = S" using assms(1) by simp
  then show ?thesis
    using assms by (cases v) (auto simp: tostring_def luaV_tostring_def text_of_def st_get_def st_set_def aget_def aset_def nth_append list_update_append)
qed

lemma str_at_append: "L_stack S = pre @ VStr s # post \<Longrightarrow> i = length pre \<Longrightarrow> str_at S i = Ok s"
  by (simp add: str_at_def st_get_def aget_def nth_append)

lemma collect_texts:
  assumes "L_stack S = pre @ us @ ws @ post" "\<forall>u \<in> set us. text_of C u \<noteq> None"
    "len + length (concat (map (vtext C) us)) < MAX_SIZET"
    "tp = length pre + length us + length ws" "n = length ws"
  shows "collect C tp S n len (length us) = Ok (S\<lparr>L_stack := pre @ map (\<lambda>u. VStr (vtext C u)) us @ ws @ post\<rparr>, n + length us)"
  using assms
proof (induction us arbitrary: S ws n len rule: rev_induct)
  case Nil
  then have "S\<lparr>L_stack := pre @ ws @ post\<rparr> = S" by simp
  then show ?case by simp
next
  case (snoc u us)
  let ?S = "S\<lparr>L_stack := (pre @ us) @ VStr (vtext C u) # ws @ post\<rparr>"
  have b: "below tp (n + 1) = Ok (length (pre @ us))" using snoc.prems by (simp add: below_def)
  have st: "L_stack S = (pre @ us) @ u # ws @ post" using snoc.prems(1) by simp
  have t: "tostring C S (length (pre @ us)) = Ok (?S, True)"
    by (rule tostring_text [OF st refl]) (use snoc.prems(2) in simp)
  have s: "str_at ?S (length (pre @ us)) = Ok (vtext C u)" by (rule str_at_append [of _ "pre @ us"]) simp_all
  have c: "collect C tp ?S (n + 1) (len + length (vtext C u)) (length us) =
      Ok (?S\<lparr>L_stack := pre @ map (\<lambda>u. VStr (vtext C u)) us @ (VStr (vtext C u) # ws) @ post\<rparr>, n + 1 + length us)"
    by (rule snoc.IH) (use snoc.prems in simp_all)
  have "\<not> MAX_SIZET \<le> length (vtext C u) + len" using snoc.prems(3) by simp
  then show ?case using b t s c by simp
qed

lemma join_texts: "L_stack S = pre @ map VStr ss @ post \<Longrightarrow> tp = length pre + length ss \<Longrightarrow> join S tp (length ss) = Ok (concat ss)"
proof (induction ss arbitrary: pre)
  case (Cons s ss)
  have "below tp (length (s # ss)) = Ok (length pre)" using Cons.prems by (simp add: below_def)
  moreover have "str_at S (length pre) = Ok s" by (rule str_at_append) (use Cons.prems in simp_all)
  moreover have "join S tp (length ss) = Ok (concat ss)"
    by (rule Cons.IH [of "pre @ [VStr s]"]) (use Cons.prems in simp_all)
  ultimately show ?case by simp
qed simp

lemma ttype_text: "text_of C v \<noteq> None \<Longrightarrow> ttype v = 4 \<or> ttype v = 3"
  by (cases v) (simp_all add: text_of_def)

lemma concat_pass_texts:
  assumes st: "L_stack S = pre @ us @ [u, v] @ post" and texts: "\<forall>w \<in> set (us @ [u, v]). text_of C w \<noteq> None"
    and len: "length (concat (map (vtext C) (us @ [u, v]))) < MAX_SIZET"
    and cnt: "cnt = length us + 2" and tp: "tp = length pre + cnt"
  shows "concat_pass C W S cnt tp =
    (if vtext C v = '''' then Ok (S\<lparr>L_stack := pre @ us @ [VStr (vtext C u), VStr ''''] @ post\<rparr>, 2)
     else Ok (S\<lparr>L_stack := pre @ VStr (concat (map (vtext C) (us @ [u, v]))) # map (\<lambda>u. VStr (vtext C u)) (tl (us @ [u, v])) @ post\<rparr>, cnt))"
proof -
  let ?S1 = "S\<lparr>L_stack := pre @ us @ [u, VStr (vtext C v)] @ post\<rparr>"
  have b: "below tp 2 = Ok (length (pre @ us))" "below tp 1 = Ok (length (pre @ us @ [u]))"
    using cnt tp by (simp_all add: below_def)
  have v2: "st_get S (length (pre @ us)) = Ok u" using st by (simp add: st_get_def aget_def nth_append)
  have ty: "ttype u = 4 \<or> ttype u = 3" using texts ttype_text [of C u] by simp
  have t: "tostring C S (length (pre @ us @ [u])) = Ok (?S1, True)"
    using tostring_text [of S "pre @ us @ [u]" v post _ C] st texts by simp
  have s1: "str_at ?S1 (length (pre @ us @ [u])) = Ok (vtext C v)"
    by (rule str_at_append [of _ "pre @ us @ [u]"]) simp_all
  show ?thesis
  proof (cases "vtext C v = ''''")
    case True
    have "tostring C ?S1 (length (pre @ us)) = Ok (?S1\<lparr>L_stack := (pre @ us) @ VStr (vtext C u) # [VStr ''''] @ post\<rparr>, True)"
      using True texts by (intro tostring_text) simp_all
    then show ?thesis using b v2 ty t s1 True unfolding concat_pass_def by simp
  next
    case False
    let ?all = "us @ [u, v]"
    let ?S2 = "?S1\<lparr>L_stack := pre @ map (\<lambda>u. VStr (vtext C u)) (us @ [u]) @ [VStr (vtext C v)] @ post\<rparr>"
    have c: "collect C tp ?S1 1 (length (vtext C v)) (length (us @ [u])) = Ok (?S2, 1 + length (us @ [u]))"
      by (rule collect_texts) (use texts len cnt tp in simp_all)
    have n: "cnt - 1 = length (us @ [u])" "1 + length (us @ [u]) = cnt" using cnt by simp_all
    have j: "join ?S2 tp cnt = Ok (concat (map (vtext C) ?all))"
      using join_texts [of ?S2 pre "map (vtext C) ?all" post tp] cnt tp by (simp add: comp_def)
    have bt: "below tp cnt = Ok (length pre)" using tp by (simp add: below_def)
    have set: "st_set ?S2 (length pre) (VStr (concat (map (vtext C) ?all))) =
        Ok (S\<lparr>L_stack := pre @ VStr (concat (map (vtext C) ?all)) # map (\<lambda>u. VStr (vtext C u)) (tl ?all) @ post\<rparr>)"
      by (cases us) (simp_all add: st_set_def aset_def list_update_append)
    show ?thesis
      unfolding concat_pass_def b v2 rbind_simps if_P [OF ty] t s1 prod.case not_True_eq_False if_False if_not_P [OF False] n(1) c n(2) j bt set
      by (rule refl)
  qed
qed

lemma concat_loop_texts:
  assumes "L_stack S = pre @ vs @ post" "\<forall>v \<in> set vs. text_of C v \<noteq> None" "length (concat (map (vtext C) vs)) < MAX_SIZET"
    "2 \<le> length vs" "tp = length pre + length vs"
  shows "\<exists>post'. concat_loop C W S (length vs) tp = Ok (S\<lparr>L_stack := pre @ VStr (concat (map (vtext C) vs)) # post'\<rparr>) \<and>
    length post' = length post + length vs - 1"
  using assms
proof (induction "length vs" arbitrary: vs S post tp rule: less_induct)
  case less
  obtain us u v where vs: "vs = us @ [u, v]"
  proof -
    from less.prems(4) obtain vs' v where a: "vs = vs' @ [v]" by (cases vs rule: rev_exhaust) auto
    with less.prems(4) obtain us u where "vs' = us @ [u]" by (cases vs' rule: rev_exhaust) auto
    with a that show thesis by simp
  qed
  let ?cnt = "length vs"
  have pass: "concat_pass C W S ?cnt tp =
    (if vtext C v = '''' then Ok (S\<lparr>L_stack := pre @ us @ [VStr (vtext C u), VStr ''''] @ post\<rparr>, 2)
     else Ok (S\<lparr>L_stack := pre @ VStr (concat (map (vtext C) vs)) # map (\<lambda>u. VStr (vtext C u)) (tl vs) @ post\<rparr>, ?cnt))"
    unfolding vs by (rule concat_pass_texts) (use less.prems vs in simp_all)
  show ?case
  proof (cases "vtext C v = ''''")
    case False
    have "concat_loop C W S ?cnt tp = Ok (S\<lparr>L_stack := pre @ VStr (concat (map (vtext C) vs)) # map (\<lambda>u. VStr (vtext C u)) (tl vs) @ post\<rparr>)"
      unfolding concat_loop.simps [of C W S ?cnt tp] pass using False vs by simp
    moreover have "length (map (\<lambda>u. VStr (vtext C u)) (tl vs) @ post) = length post + length vs - 1" using vs by simp
    ultimately show ?thesis by blast
  next
    case True
    let ?vs = "us @ [VStr (vtext C u)]" and ?S = "S\<lparr>L_stack := pre @ us @ [VStr (vtext C u), VStr ''''] @ post\<rparr>"
    have eq: "concat (map (vtext C) ?vs) = concat (map (vtext C) vs)" using True vs by (simp add: text_of_def)
    have e: "concat_loop C W S ?cnt tp = (if 1 < length ?vs then concat_loop C W ?S (length ?vs) (tp - 1) else Ok ?S)"
      unfolding concat_loop.simps [of C W S ?cnt tp] pass using True vs by simp
    show ?thesis
    proof (cases us)
      case Nil
      then show ?thesis
        using eq e vs by (intro exI [of _ "VStr '''' # post"]) (simp add: text_of_def)
    next
      case (Cons w ws)
      have "\<exists>post'. concat_loop C W ?S (length ?vs) (tp - 1) = Ok (?S\<lparr>L_stack := pre @ VStr (concat (map (vtext C) ?vs)) # post'\<rparr>) \<and>
          length post' = length (VStr '''' # post) + length ?vs - 1"
        by (rule less.hyps) (use less.prems vs Cons eq in \<open>simp_all add: text_of_def\<close>)
      then show ?thesis using e eq vs Cons by (auto simp: text_of_def)
    qed
  qed
qed

text \<open>A state of a C function with these arguments.\<close>

definition call_state :: "TValue list \<Rightarrow> lua_State" where
  "call_state args =
     \<lparr>L_stack = args, L_heap = (\<lambda>_. None), L_gt = VNil, L_registry = VNil, L_env = VNil, L_upvals = [], L_mt = (\<lambda>_. 0),
      L_umt = (\<lambda>_. 0), L_ulen = (\<lambda>_. 0), L_vm = stack_init\<rparr>"

lemma call_state_stack [simp]: "L_stack (call_state args) = args"
  by (simp add: call_state_def)

text \<open>C20: concatenation of two or more strings and numbers on the top of the stack replaces them by the
string that their texts make one after the other, whatever order the passes of the
code take them in; nothing else changes.\<close>

theorem lua_concat_texts:
  assumes "L_stack S = st @ vs" "\<forall>v \<in> set vs. text_of C v \<noteq> None" "length (concat (map (vtext C) vs)) < MAX_SIZET"
    and "2 \<le> length vs"
  shows "lua_concat C W S (length vs) = Ok (S\<lparr>L_stack := st @ [VStr (concat (map (vtext C) vs))]\<rparr>)"
proof -
  obtain post' where l: "concat_loop C W S (length vs) (length st + length vs) = Ok (S\<lparr>L_stack := st @ VStr (concat (map (vtext C) vs)) # post'\<rparr>)"
    "length post' = length vs - 1"
    using concat_loop_texts [of S st vs "[]" C "length st + length vs" W] assms by auto
  have "length (L_stack S) - 1 + 1 = length st + length vs" using assms by simp
  then show ?thesis
    using assms(1, 4) l by (simp add: lua_concat_def luaV_concat_def api_pop_def lua_pop_append)
qed

theorem lua_concat_texts_witness:
  "\<forall>C W. lua_concat C W (call_state [VNil, VStr ''a'', VStr '''', VStr ''b'']) 3 =
     Ok (call_state [VNil, VStr ''a'', VStr '''', VStr ''b'']\<lparr>L_stack := [VNil, VStr ''ab'']\<rparr>)"
proof (intro allI)
  fix C W
  let ?S = "call_state [VNil, VStr ''a'', VStr '''', VStr ''b'']" and ?vs = "[VStr ''a'', VStr '''', VStr ''b'']"
  have t: "\<forall>v \<in> set ?vs. text_of C v \<noteq> None" and c: "concat (map (vtext C) ?vs) = ''ab''" by (simp_all add: text_of_def)
  have m: "length (concat (map (vtext C) ?vs)) < MAX_SIZET" unfolding c by (simp add: MAX_SIZET_def)
  have "lua_concat C W ?S (length ?vs) = Ok (?S\<lparr>L_stack := [VNil] @ [VStr (concat (map (vtext C) ?vs))]\<rparr>)"
    by (rule lua_concat_texts [OF _ t m]) simp_all
  then show "lua_concat C W ?S 3 = Ok (?S\<lparr>L_stack := [VNil, VStr ''ab'']\<rparr>)" unfolding c by (simp add: numeral_3_eq_3)
qed

end
