(* ===== verification/LuaPattern.thy ===== *)
theory LuaPattern
  imports LuaPrelude "HOL-Library.Char_ord"
begin

text \<open>
  The pattern matching of lstrlib.c. Subject and pattern are strings with the NUL that follows them; a
  pointer into them is a position, and reading behind the NUL is undefined. The functions that
  call \<open>match\<close> again take the rest of the match as an argument, so each is a definition of its own and
  \<open>match\<close> ties the knot; it ends because every call goes further in the pattern. The depth of
  the C stack is not modelled.
\<close>

section \<open>Characters\<close>

text \<open>The functions of ctype.h in the C locale, on codes of characters.\<close>

definition isupper :: "nat \<Rightarrow> bool" where "isupper c \<longleftrightarrow> 65 \<le> c \<and> c \<le> 90"
definition islower :: "nat \<Rightarrow> bool" where "islower c \<longleftrightarrow> 97 \<le> c \<and> c \<le> 122"
definition isdigit_c :: "nat \<Rightarrow> bool" where "isdigit_c c \<longleftrightarrow> 48 \<le> c \<and> c \<le> 57"
definition isalpha :: "nat \<Rightarrow> bool" where "isalpha c \<longleftrightarrow> isupper c \<or> islower c"
definition isalnum :: "nat \<Rightarrow> bool" where "isalnum c \<longleftrightarrow> isalpha c \<or> isdigit_c c"
definition iscntrl :: "nat \<Rightarrow> bool" where "iscntrl c \<longleftrightarrow> c < 32 \<or> c = 127"
definition isspace_c :: "nat \<Rightarrow> bool" where "isspace_c c \<longleftrightarrow> c = 32 \<or> 9 \<le> c \<and> c \<le> 13"
definition ispunct :: "nat \<Rightarrow> bool" where "ispunct c \<longleftrightarrow> 33 \<le> c \<and> c \<le> 126 \<and> \<not> isalnum c"
definition isxdigit :: "nat \<Rightarrow> bool" where "isxdigit c \<longleftrightarrow> isdigit_c c \<or> 65 \<le> c \<and> c \<le> 70 \<or> 97 \<le> c \<and> c \<le> 102"
definition tolower :: "nat \<Rightarrow> nat" where "tolower c = (if isupper c then c + 32 else c)"
definition toupper :: "nat \<Rightarrow> nat" where "toupper c = (if islower c then c - 32 else c)"

definition uchar :: "char \<Rightarrow> nat" where "uchar c = of_char c"

abbreviation L_ESC :: char where "L_ESC \<equiv> CHR ''%''"
abbreviation NUL :: char where "NUL \<equiv> CHR 0x00"

definition SPECIALS :: string where "SPECIALS = ''^$*+?.([%-''"

text \<open>Reading the character at a position.\<close>

definition rd :: "string \<Rightarrow> nat \<Rightarrow> char res" where
  "rd s i =
     (if i < length s then Ok (s ! i) else if i = length s then Ok NUL
      else Fail (Undefined ''read behind the string''))"

section \<open>Captures\<close>

definition LUA_MAXCAPTURES :: nat where "LUA_MAXCAPTURES = 32"
definition CAP_UNFINISHED :: int where "CAP_UNFINISHED = - 1"
definition CAP_POSITION :: int where "CAP_POSITION = - 2"

text \<open>A capture is the position where it starts and its length.\<close>

record MatchState =
  ms_src :: string
  ms_level :: nat
  ms_capture :: "(nat \<times> int) list"

type_synonym match_result = "(MatchState \<times> nat option) res"

definition check_capture :: "MatchState \<Rightarrow> nat \<Rightarrow> nat res" where
  "check_capture ms l =
     (let l = int l - 49 in
      if l < 0 \<or> int (ms_level ms) \<le> l then Fail (LuaError ''invalid capture index'')
      else rbind (aget (ms_capture ms) (nat l)) (\<lambda>c.
        if snd c = CAP_UNFINISHED then Fail (LuaError ''invalid capture index'') else Ok (nat l)))"

primrec to_close :: "(nat \<times> int) list \<Rightarrow> nat \<Rightarrow> nat res" where
  "to_close caps 0 = Fail (LuaError ''invalid pattern capture'')"
| "to_close caps (Suc level) =
     rbind (aget caps level) (\<lambda>c. if snd c = CAP_UNFINISHED then Ok level else to_close caps level)"

definition capture_to_close :: "MatchState \<Rightarrow> nat res" where
  "capture_to_close ms = to_close (ms_capture ms) (ms_level ms)"

section \<open>Single characters\<close>

text \<open>The \<open>do ... while\<close> loop that looks for the closing bracket.\<close>

lemma rd_Ok: "rd s i = Ok c \<Longrightarrow> i \<le> length s \<and> (c \<noteq> NUL \<longrightarrow> i < length s)"
  by (auto simp: rd_def split: if_splits)

function classend_set :: "string \<Rightarrow> nat \<Rightarrow> nat res" where
  "classend_set pt p =
     rbind (rd pt p) (\<lambda>c.
       if c = NUL then Fail (LuaError ''malformed pattern (missing ']')'')
       else rbind (rd pt (p + 1)) (\<lambda>c1.
         let p' = (if c = L_ESC \<and> c1 \<noteq> NUL then p + 2 else p + 1) in
         rbind (rd pt p') (\<lambda>c2. if c2 \<noteq> CHR '']'' then classend_set pt p' else Ok (p' + 1))))"
  by pat_completeness auto
termination
  by (relation "measure (\<lambda>(pt, p). length pt - p)") (auto dest!: rd_Ok)

declare classend_set.simps [simp del]

definition classend :: "string \<Rightarrow> nat \<Rightarrow> nat res" where
  "classend pt p =
     rbind (rd pt p) (\<lambda>c.
       if c = L_ESC then
         rbind (rd pt (p + 1)) (\<lambda>c1.
           if c1 = NUL then Fail (LuaError ''malformed pattern (ends with '%')'') else Ok (p + 2))
       else if c = CHR ''['' then
         rbind (rd pt (p + 1)) (\<lambda>c1. classend_set pt (if c1 = CHR ''^'' then p + 2 else p + 1))
       else Ok (p + 1))"

definition class_test :: "nat \<Rightarrow> nat \<Rightarrow> bool option" where
  "class_test c cl =
     (if cl = 97 then Some (isalpha c)
      else if cl = 99 then Some (iscntrl c)
      else if cl = 100 then Some (isdigit_c c)
      else if cl = 108 then Some (islower c)
      else if cl = 112 then Some (ispunct c)
      else if cl = 115 then Some (isspace_c c)
      else if cl = 117 then Some (isupper c)
      else if cl = 119 then Some (isalnum c)
      else if cl = 120 then Some (isxdigit c)
      else if cl = 122 then Some (c = 0)
      else None)"

definition match_class :: "nat \<Rightarrow> nat \<Rightarrow> bool" where
  "match_class c cl =
     (case class_test c (tolower cl) of
        None \<Rightarrow> cl = c
      | Some res \<Rightarrow> if islower cl then res else \<not> res)"

text \<open>The loop over a set: \<open>p\<close> is the pointer before \<open>++p\<close>.\<close>

function bracket_loop :: "nat \<Rightarrow> string \<Rightarrow> bool \<Rightarrow> nat \<Rightarrow> nat \<Rightarrow> bool res" where
  "bracket_loop c pt sig p ec =
     (let p = p + 1 in
      if p < ec then
        rbind (rd pt p) (\<lambda>x.
          if x = L_ESC then
            rbind (rd pt (p + 1)) (\<lambda>y. if match_class c (uchar y) then Ok sig else bracket_loop c pt sig (p + 1) ec)
          else rbind (rd pt (p + 1)) (\<lambda>y.
            if y = CHR ''-'' \<and> p + 2 < ec then
              rbind (rd pt (p + 2)) (\<lambda>z.
                if uchar x \<le> c \<and> c \<le> uchar z then Ok sig else bracket_loop c pt sig (p + 2) ec)
            else if uchar x = c then Ok sig else bracket_loop c pt sig p ec))
      else Ok (\<not> sig))"
  by pat_completeness auto
termination
  by (relation "measure (\<lambda>(c, pt, sig, p, ec). ec - p)") auto

declare bracket_loop.simps [simp del]

definition matchbracketclass :: "nat \<Rightarrow> string \<Rightarrow> nat \<Rightarrow> nat \<Rightarrow> bool res" where
  "matchbracketclass c pt p ec =
     rbind (rd pt (p + 1)) (\<lambda>x.
       if x = CHR ''^'' then bracket_loop c pt False (p + 1) ec else bracket_loop c pt True p ec)"

definition singlematch :: "nat \<Rightarrow> string \<Rightarrow> nat \<Rightarrow> nat \<Rightarrow> bool res" where
  "singlematch c pt p ep =
     rbind (rd pt p) (\<lambda>x.
       if x = CHR ''.'' then Ok True
       else if x = L_ESC then rbind (rd pt (p + 1)) (\<lambda>y. Ok (match_class c (uchar y)))
       else if x = CHR ''['' then matchbracketclass c pt p (ep - 1)
       else Ok (uchar x = c))"

section \<open>The parts of the matcher\<close>

text \<open>\<open>matchbalance\<close>: the loop starts behind the opening character, with \<open>cont\<close> open ones.\<close>

function balance_loop :: "string \<Rightarrow> char \<Rightarrow> char \<Rightarrow> nat \<Rightarrow> nat \<Rightarrow> nat option" where
  "balance_loop src b e cont s =
     (let s = s + 1 in
      if s < length src then
        (if src ! s = e then (if cont - 1 = 0 then Some (s + 1) else balance_loop src b e (cont - 1) s)
         else if src ! s = b then balance_loop src b e (cont + 1) s
         else balance_loop src b e cont s)
      else None)"
  by pat_completeness auto
termination
  by (relation "measure (\<lambda>(src, b, e, cont, s). length src - s)") auto

declare balance_loop.simps [simp del]

definition matchbalance :: "string \<Rightarrow> string \<Rightarrow> nat \<Rightarrow> nat \<Rightarrow> nat option res" where
  "matchbalance src pt s p =
     rbind (rd pt p) (\<lambda>b.
       if b = NUL then Fail (LuaError ''unbalanced pattern'')
       else rbind (rd pt (p + 1)) (\<lambda>e.
         if e = NUL then Fail (LuaError ''unbalanced pattern'')
         else rbind (rd src s) (\<lambda>x. if x \<noteq> b then Ok None else Ok (balance_loop src b e 1 s))))"

text \<open>The number of repetitions of an item at \<open>s\<close>.\<close>

function expand_count :: "string \<Rightarrow> (nat \<Rightarrow> bool res) \<Rightarrow> nat \<Rightarrow> nat res" where
  "expand_count src single s =
     (if s < length src
      then rbind (single (uchar (src ! s))) (\<lambda>m. if m then rbind (expand_count src single (s + 1)) (\<lambda>i. Ok (i + 1)) else Ok 0)
      else Ok 0)"
  by pat_completeness auto
termination
  by (relation "measure (\<lambda>(src, single, s). length src - s)") auto

declare expand_count.simps [simp del]

text \<open>\<open>k\<close> is the match of the rest of the pattern.\<close>

primrec max_try :: "(MatchState \<Rightarrow> nat \<Rightarrow> match_result) \<Rightarrow> MatchState \<Rightarrow> nat \<Rightarrow> nat \<Rightarrow> match_result" where
  "max_try k ms s 0 = k ms s"
| "max_try k ms s (Suc i) =
     rbind (k ms (s + Suc i)) (\<lambda>(ms1, res). case res of Some e \<Rightarrow> Ok (ms1, Some e) | None \<Rightarrow> max_try k ms1 s i)"

definition max_expand :: "(MatchState \<Rightarrow> nat \<Rightarrow> match_result) \<Rightarrow> MatchState \<Rightarrow> nat \<Rightarrow> (nat \<Rightarrow> bool res) \<Rightarrow> match_result" where
  "max_expand k ms s single = rbind (expand_count (ms_src ms) single s) (\<lambda>i. max_try k ms s i)"

text \<open>The loop of \<open>min_expand\<close> ends at the end of the subject \<open>src\<close>, which \<open>k\<close> does not change.\<close>

function min_expand :: "(MatchState \<Rightarrow> nat \<Rightarrow> match_result) \<Rightarrow> string \<Rightarrow> MatchState \<Rightarrow> nat \<Rightarrow> (nat \<Rightarrow> bool res) \<Rightarrow> match_result" where
  "min_expand k src ms s single =
     rbind (k ms s) (\<lambda>(ms1, res).
       case res of
         Some e \<Rightarrow> Ok (ms1, Some e)
       | None \<Rightarrow>
           (if s < length src
            then rbind (single (uchar (src ! s))) (\<lambda>m. if m then min_expand k src ms1 (s + 1) single else Ok (ms1, None))
            else Ok (ms1, None)))"
  by pat_completeness auto
termination
  by (relation "measure (\<lambda>(k, src, ms, s, single). length src - s)") auto

declare min_expand.simps [simp del]

definition start_capture :: "(MatchState \<Rightarrow> nat \<Rightarrow> match_result) \<Rightarrow> MatchState \<Rightarrow> nat \<Rightarrow> int \<Rightarrow> match_result" where
  "start_capture k ms s what =
     (let level = ms_level ms in
      if LUA_MAXCAPTURES \<le> level then Fail (LuaError ''too many captures'')
      else rbind (aset (ms_capture ms) level (s, what)) (\<lambda>caps.
        rbind (k (ms\<lparr>ms_capture := caps, ms_level := level + 1\<rparr>) s) (\<lambda>(ms1, res).
          Ok (if res = None then ms1\<lparr>ms_level := ms_level ms1 - 1\<rparr> else ms1, res))))"

definition end_capture :: "(MatchState \<Rightarrow> nat \<Rightarrow> match_result) \<Rightarrow> MatchState \<Rightarrow> nat \<Rightarrow> match_result" where
  "end_capture k ms s =
     rbind (capture_to_close ms) (\<lambda>l.
     rbind (aget (ms_capture ms) l) (\<lambda>c.
     rbind (aset (ms_capture ms) l (fst c, int s - int (fst c))) (\<lambda>caps.
     rbind (k (ms\<lparr>ms_capture := caps\<rparr>) s) (\<lambda>(ms1, res).
       if res = None
       then rbind (aget (ms_capture ms1) l) (\<lambda>c1.
            rbind (aset (ms_capture ms1) l (fst c1, CAP_UNFINISHED)) (\<lambda>caps1. Ok (ms1\<lparr>ms_capture := caps1\<rparr>, None)))
       else Ok (ms1, res)))))"

text \<open>\<open>l\<close> is the digit. The length of a position capture, \<open>-2\<close>, is a huge \<open>size_t\<close>.\<close>

definition match_capture :: "MatchState \<Rightarrow> nat \<Rightarrow> nat \<Rightarrow> nat option res" where
  "match_capture ms s l =
     rbind (check_capture ms l) (\<lambda>l.
     rbind (aget (ms_capture ms) l) (\<lambda>c.
       let len = unat (word_of_int (snd c) :: u32) in
       if len \<le> length (ms_src ms) - s
       then (if take len (drop (fst c) (ms_src ms)) = take len (drop s (ms_src ms)) then Ok (Some (s + len)) else Ok None)
       else Ok None))"

text \<open>The default case of \<open>match\<close>: an item, maybe with a repetition. \<open>k\<close> is \<open>match\<close>.\<close>

definition match_item :: "(MatchState \<Rightarrow> nat \<Rightarrow> nat \<Rightarrow> match_result) \<Rightarrow> string \<Rightarrow> MatchState \<Rightarrow> nat \<Rightarrow> nat \<Rightarrow> match_result" where
  "match_item k pt ms s p =
     rbind (classend pt p) (\<lambda>ep.
       let single = (\<lambda>c. singlematch c pt p ep) in
       rbind (if s < length (ms_src ms) then single (uchar (ms_src ms ! s)) else Ok False) (\<lambda>m.
       rbind (rd pt ep) (\<lambda>x.
         if x = CHR ''?'' then
           (if m
            then rbind (k ms (s + 1) (ep + 1)) (\<lambda>(ms1, res). case res of Some e \<Rightarrow> Ok (ms1, Some e) | None \<Rightarrow> k ms1 s (ep + 1))
            else k ms s (ep + 1))
         else if x = CHR ''*'' then max_expand (\<lambda>ms s. k ms s (ep + 1)) ms s single
         else if x = CHR ''+'' then (if m then max_expand (\<lambda>ms s. k ms s (ep + 1)) ms (s + 1) single else Ok (ms, None))
         else if x = CHR ''-'' then min_expand (\<lambda>ms s. k ms s (ep + 1)) (ms_src ms) ms s single
         else if \<not> m then Ok (ms, None) else k ms (s + 1) ep)))"

text \<open>The frontier: the pattern pointer is behind \<open>%f\<close>.\<close>

definition match_frontier :: "(MatchState \<Rightarrow> nat \<Rightarrow> nat \<Rightarrow> match_result) \<Rightarrow> string \<Rightarrow> MatchState \<Rightarrow> nat \<Rightarrow> nat \<Rightarrow> match_result" where
  "match_frontier k pt ms s p =
     rbind (rd pt p) (\<lambda>x.
       if x \<noteq> CHR ''['' then Fail (LuaError ''missing '[' after '%f' in pattern'')
       else rbind (classend pt p) (\<lambda>ep.
         rbind (if s = 0 then Ok NUL else rd (ms_src ms) (s - 1)) (\<lambda>previous.
         rbind (matchbracketclass (uchar previous) pt p (ep - 1)) (\<lambda>b1.
           if b1 then Ok (ms, None)
           else rbind (rd (ms_src ms) s) (\<lambda>y. rbind (matchbracketclass (uchar y) pt p (ep - 1)) (\<lambda>b2.
             if \<not> b2 then Ok (ms, None) else k ms s ep))))))"

section \<open>The matcher\<close>

lemma classend_set_gt: "classend_set pt p = Ok ep \<Longrightarrow> p < ep \<and> ep \<le> length pt"
proof (induction pt p rule: classend_set.induct)
  case (1 pt p)
  note e = 1(2) [unfolded classend_set.simps [of pt p]]
  obtain c where c: "rd pt p = Ok c" using e by (elim rbind_OkE)
  have n: "c \<noteq> NUL" using e by (auto simp: c)
  note e = e [unfolded c rbind_simps if_not_P [OF n]]
  obtain c1 where c1: "rd pt (p + 1) = Ok c1" using e by (elim rbind_OkE)
  define p' where "p' = (if c = L_ESC \<and> c1 \<noteq> NUL then p + 2 else p + 1)"
  note e = e [unfolded c1 rbind_simps Let_def, folded p'_def]
  obtain c2 where c2: "rd pt p' = Ok c2" using e by (elim rbind_OkE)
  have lt: "p < p'" by (simp add: p'_def)
  show ?case
  proof (cases "c2 = CHR '']''")
    case True
    then have "ep = p' + 1" using e by (simp add: c2)
    then show ?thesis using True rd_Ok [OF c2] lt by auto
  next
    case False
    then have "classend_set pt p' = Ok ep" using e by (simp add: c2)
    then have "p' < ep \<and> ep \<le> length pt" using 1(1) [OF c n c1 p'_def c2 False] by simp
    then show ?thesis using lt by simp
  qed
qed

lemma classend_gt: "classend pt p = Ok ep \<Longrightarrow> p < ep"
  by (auto simp: classend_def rbind_Ok_iff split: if_splits dest!: classend_set_gt)

lemma classend_le: "classend pt p = Ok ep \<Longrightarrow> p < length pt \<Longrightarrow> ep \<le> length pt"
  by (auto simp: classend_def rbind_Ok_iff split: if_splits dest!: classend_set_gt rd_Ok)

lemma start_capture_cong [fundef_cong]:
  "k = k' \<Longrightarrow> ms = ms' \<Longrightarrow> s = s' \<Longrightarrow> w = w' \<Longrightarrow> start_capture k ms s w = start_capture k' ms' s' w'"
  by simp

lemma match_item_cong [fundef_cong]:
  assumes "\<And>ms s p'. p < p' \<Longrightarrow> k ms s p' = k' ms s p'"
  shows "match_item k pt ms s p = match_item k' pt ms s p"
  unfolding match_item_def
proof (rule rbind_cong [OF refl], goal_cases)
  case (1 ep)
  then have k: "k ms s ep = k' ms s ep" "k ms s (ep + 1) = k' ms s (ep + 1)" for ms s
    using classend_gt [of pt p ep] by (auto intro: assms)
  show ?case unfolding k ..
qed

lemma match_frontier_cong [fundef_cong]:
  assumes "\<And>ms s p'. p < p' \<Longrightarrow> k ms s p' = k' ms s p'"
  shows "match_frontier k pt ms s p = match_frontier k' pt ms s p"
proof -
  have k: "k ms s ep = k' ms s ep" if "classend pt p = Ok ep" for ms s ep
    using classend_gt [OF that] by (rule assms)
  show ?thesis
  proof (cases "classend pt p")
    case (Inr ep)
    show ?thesis unfolding match_frontier_def Inr rbind_simps k [OF Inr] ..
  next
    case (Inl e)
    show ?thesis unfolding match_frontier_def Inl rbind_simps ..
  qed
qed

function match :: "string \<Rightarrow> MatchState \<Rightarrow> nat \<Rightarrow> nat \<Rightarrow> match_result" where
  "match pt ms s p =
     rbind (rd pt p) (\<lambda>c.
       if c = NUL then Ok (ms, Some s)
       else if c = CHR ''('' then
         rbind (rd pt (p + 1)) (\<lambda>c1.
           if c1 = CHR '')'' then start_capture (\<lambda>ms s. match pt ms s (p + 2)) ms s CAP_POSITION
           else start_capture (\<lambda>ms s. match pt ms s (p + 1)) ms s CAP_UNFINISHED)
       else if c = CHR '')'' then end_capture (\<lambda>ms s. match pt ms s (p + 1)) ms s
       else if c = L_ESC then
         rbind (rd pt (p + 1)) (\<lambda>c1.
           if c1 = CHR ''b'' then
             rbind (matchbalance (ms_src ms) pt s (p + 2)) (\<lambda>r.
               case r of None \<Rightarrow> Ok (ms, None) | Some s1 \<Rightarrow> match pt ms s1 (p + 4))
           else if c1 = CHR ''f'' then match_frontier (\<lambda>ms s p'. match pt ms s p') pt ms s (p + 2)
           else if isdigit_c (uchar c1) then
             rbind (match_capture ms s (uchar c1)) (\<lambda>r.
               case r of None \<Rightarrow> Ok (ms, None) | Some s1 \<Rightarrow> match pt ms s1 (p + 2))
           else match_item (\<lambda>ms s p'. match pt ms s p') pt ms s p)
       else if c = CHR ''$'' then
         rbind (rd pt (p + 1)) (\<lambda>c1.
           if c1 = NUL then Ok (ms, if s = length (ms_src ms) then Some s else None)
           else match_item (\<lambda>ms s p'. match pt ms s p') pt ms s p)
       else match_item (\<lambda>ms s p'. match pt ms s p') pt ms s p)"
  by pat_completeness auto
termination
  by (relation "measure (\<lambda>(pt, ms, s, p). length pt - p)") (auto dest!: rd_Ok)

declare match.simps [simp del]

section \<open>Plain search\<close>

text \<open>\<open>memchr(s1, c, l1)\<close> with \<open>s1\<close> at position \<open>i\<close> of \<open>s\<close>.\<close>

primrec memchr :: "string \<Rightarrow> nat \<Rightarrow> char \<Rightarrow> nat \<Rightarrow> nat option" where
  "memchr s i c 0 = None"
| "memchr s i c (Suc n) = (if s ! i = c then Some i else memchr s (i + 1) c n)"

lemma memchr_Some: "memchr s i c n = Some j \<Longrightarrow> i \<le> j \<and> j < i + n \<and> s ! j = c \<and> (\<forall>k. i \<le> k \<longrightarrow> k < j \<longrightarrow> s ! k \<noteq> c)"
proof (induction n arbitrary: i)
  case (Suc n)
  show ?case
  proof (cases "s ! i = c")
    case False
    with Suc.prems Suc.IH [of "i + 1"] have IH: "i + 1 \<le> j" "j < i + 1 + n" "s ! j = c" "\<forall>k. i + 1 \<le> k \<longrightarrow> k < j \<longrightarrow> s ! k \<noteq> c"
      by simp_all
    have "s ! k \<noteq> c" if "i \<le> k" "k < j" for k
      using that IH(4) False by (cases "k = i") auto
    then show ?thesis using IH by auto
  qed (use Suc in auto)
qed simp

lemma memchr_None: "memchr s i c n = None \<Longrightarrow> i \<le> k \<Longrightarrow> k < i + n \<Longrightarrow> s ! k \<noteq> c"
proof (induction n arbitrary: i)
  case (Suc n)
  then show ?case using Suc.IH [of "i + 1"] by (cases "k = i") (simp_all split: if_splits)
qed simp

text \<open>The loop of \<open>lmemfind\<close>: \<open>s1\<close> is a position of the subject and \<open>l1\<close> the number of positions left.\<close>

function lmemfind_loop :: "string \<Rightarrow> nat \<Rightarrow> nat \<Rightarrow> string \<Rightarrow> nat \<Rightarrow> nat option" where
  "lmemfind_loop s s1 l1 s2 l2 =
     (if 0 < l1 then
        (case memchr s s1 (s2 ! 0) l1 of
           None \<Rightarrow> None
         | Some j \<Rightarrow>
             (let init = j + 1 in
              if take l2 (drop init s) = take l2 (drop 1 s2) then Some (init - 1)
              else lmemfind_loop s init (l1 - (init - s1)) s2 l2))
      else None)"
  by pat_completeness auto
termination
  by (relation "measure (\<lambda>(s, s1, l1, s2, l2). l1)") (auto dest!: memchr_Some)

declare lmemfind_loop.simps [simp del]

definition lmemfind :: "string \<Rightarrow> nat \<Rightarrow> nat \<Rightarrow> string \<Rightarrow> nat \<Rightarrow> nat option" where
  "lmemfind s s1 l1 s2 l2 =
     (if l2 = 0 then Some s1
      else if l1 < l2 then None
      else lmemfind_loop s s1 (l1 - (l2 - 1)) s2 (l2 - 1))"

end
