(* ===== verification/LuaLex.thy ===== *)
theory LuaLex
  imports LuaVm LuaPattern LuaZio
begin

text \<open>
  The lexical analyser llex.c. The state is the record \<open>LexState\<close>: the current character, the stream, the buffer
  with its size, and the table of constants of the function that is compiled, where strings are anchored. Reading behind
  the end of the stream is undefined (\<open>zgetc\<close> would wrap its count); the errors have the
  text of the code. A loop takes a bound on its turns, because a reader could go on for ever; one more than
  the number of characters is always enough. The locale is C: the decimal point is a dot.
\<close>

section \<open>Tokens\<close>

definition FIRST_RESERVED :: int where "FIRST_RESERVED = 257"

definition luaX_tokens :: "string list" where
  "luaX_tokens =
     [''and'', ''break'', ''do'', ''else'', ''elseif'', ''end'', ''false'', ''for'', ''function'', ''if'',
      ''in'', ''local'', ''nil'', ''not'', ''or'', ''repeat'', ''return'', ''then'', ''true'', ''until'', ''while'',
      ''..'', ''...'', ''=='', ''>='', ''<='', ''~='', ''<number>'', ''<name>'', ''<string>'', ''<eof>'']"

definition NUM_RESERVED :: nat where "NUM_RESERVED = 21"

definition TK_CONCAT :: int where "TK_CONCAT = 278"
definition TK_DOTS :: int where "TK_DOTS = 279"
definition TK_EQ :: int where "TK_EQ = 280"
definition TK_GE :: int where "TK_GE = 281"
definition TK_LE :: int where "TK_LE = 282"
definition TK_NE :: int where "TK_NE = 283"
definition TK_NUMBER :: int where "TK_NUMBER = 284"
definition TK_NAME :: int where "TK_NAME = 285"
definition TK_STRING :: int where "TK_STRING = 286"
definition TK_EOS :: int where "TK_EOS = 287"

lemmas token_defs = TK_CONCAT_def TK_DOTS_def TK_EQ_def TK_GE_def TK_LE_def TK_NE_def TK_NUMBER_def TK_NAME_def TK_STRING_def TK_EOS_def

text \<open>The semantic value is a union; \<open>NoInfo\<close> is a union that was not set.\<close>

datatype SemInfo = NoInfo | NumInfo lua_Number | StrInfo string

record Token =
  tk_token :: int
  tk_info :: SemInfo

record 'd LexState =
  ls_current :: int
  ls_linenumber :: int
  ls_lastline :: int
  ls_t :: Token
  ls_lookahead :: Token
  ls_h :: Table
  ls_z :: "'d ZIO"
  ls_buff :: string
  ls_buffsize :: nat
  ls_source :: string
  ls_decpoint :: char

type_synonym 'd lex = "'d LexState res"

section \<open>Characters\<close>

definition zgetc :: "'d ZIO \<Rightarrow> int \<times> 'd ZIO" where
  "zgetc z = (case z_p z of c # p \<Rightarrow> (char2int c, z\<lparr>z_p := p\<rparr>) | [] \<Rightarrow> luaZ_fill z)"

definition next_char :: "'d LexState \<Rightarrow> 'd lex" where
  "next_char ls =
     (if ls_current ls = EOZ then Fail (Undefined ''read behind the end of the stream'')
      else (case zgetc (ls_z ls) of (c, z) \<Rightarrow> Ok (ls\<lparr>ls_current := c, ls_z := z\<rparr>)))"

text \<open>The code of a character, and the classes of ctype.h, which exclude \<open>EOZ\<close>.\<close>

abbreviation ch :: "char \<Rightarrow> int" where "ch c \<equiv> int (uchar c)"

definition cls :: "(nat \<Rightarrow> bool) \<Rightarrow> int \<Rightarrow> bool" where
  "cls f c \<longleftrightarrow> 0 \<le> c \<and> f (nat c)"

definition newline :: "int \<Rightarrow> bool" where
  "newline c \<longleftrightarrow> c = 10 \<or> c = 13"

definition currIsNewline :: "'d LexState \<Rightarrow> bool" where
  "currIsNewline ls \<longleftrightarrow> newline (ls_current ls)"

section \<open>Errors and the buffer\<close>

definition MAXSRC :: nat where "MAXSRC = 80"

definition lex_msg :: "libc \<Rightarrow> 'd LexState \<Rightarrow> string \<Rightarrow> string" where
  "lex_msg C ls msg =
     luaO_chunkid (cstr (ls_source ls)) MAXSRC @ CHR '':'' # c_num2str C (cast_num (ls_linenumber ls)) @ '': '' @ msg"

text \<open>The size doubles when the buffer is full.\<close>

definition save :: "libc \<Rightarrow> 'd LexState \<Rightarrow> int \<Rightarrow> 'd lex" where
  "save C ls c =
     rbind (if ls_buffsize ls < length (ls_buff ls) + 1 then
              (if MAX_SIZET div 2 \<le> ls_buffsize ls then Fail (LuaError (lex_msg C ls ''lexical element too long''))
               else Ok (ls\<lparr>ls_buffsize := ls_buffsize ls * 2\<rparr>))
            else Ok ls) (\<lambda>ls1.
       if length (ls_buff ls1) < ls_buffsize ls1 then Ok (ls1\<lparr>ls_buff := ls_buff ls1 @ [char_of (nat (c mod 256))]\<rparr>)
       else Fail (Undefined ''write behind the buffer''))"

definition save_and_next :: "libc \<Rightarrow> 'd LexState \<Rightarrow> 'd lex" where
  "save_and_next C ls = rbind (save C ls (ls_current ls)) next_char"

definition luaX_token2str :: "libc \<Rightarrow> int \<Rightarrow> string" where
  "luaX_token2str C token =
     (if token < FIRST_RESERVED then
        (if cls iscntrl token then ''char('' @ c_num2str C (cast_num token) @ '')'' else [char_of (nat (token mod 256))])
      else luaX_tokens ! nat (token - FIRST_RESERVED))"

definition txtToken :: "libc \<Rightarrow> 'd LexState \<Rightarrow> int \<Rightarrow> string res" where
  "txtToken C ls token =
     (if token = TK_NAME \<or> token = TK_STRING \<or> token = TK_NUMBER then
        rbind (save C ls 0) (\<lambda>ls1. Ok (cstr (ls_buff ls1)))
      else Ok (luaX_token2str C token))"

definition luaX_lexerror :: "libc \<Rightarrow> 'd LexState \<Rightarrow> string \<Rightarrow> int \<Rightarrow> 'a res" where
  "luaX_lexerror C ls msg token =
     (if token = 0 then Fail (LuaError (lex_msg C ls msg))
      else rbind (txtToken C ls token) (\<lambda>t. Fail (LuaError (lex_msg C ls msg @ '' near '' @ CHR 0x27 # t @ [CHR 0x27]))))"

definition luaX_syntaxerror :: "libc \<Rightarrow> 'd LexState \<Rightarrow> string \<Rightarrow> 'a res" where
  "luaX_syntaxerror C ls msg = luaX_lexerror C ls msg (tk_token (ls_t ls))"

text \<open>The string is anchored in the table of constants.\<close>

definition luaX_newstring :: "'d LexState \<Rightarrow> string \<Rightarrow> ('d LexState \<times> string) res" where
  "luaX_newstring ls s =
     rbind (luaH_setstr (ls_h ls) s) (\<lambda>(h, o1).
       Ok (ls\<lparr>ls_h := if slot_val h o1 = VNil then slot_set h o1 (VBool True) else h\<rparr>, s))"

text \<open>The place of a reserved word, counted from 1, or 0.\<close>

definition reserved :: "string \<Rightarrow> nat" where
  "reserved s =
     (let words = take NUM_RESERVED luaX_tokens; i = length (takeWhile (\<lambda>w. w \<noteq> s) words)
      in if i < NUM_RESERVED then i + 1 else 0)"

definition inclinenumber :: "libc \<Rightarrow> 'd LexState \<Rightarrow> 'd lex" where
  "inclinenumber C ls =
     (let old = ls_current ls in
      rbind (next_char ls) (\<lambda>ls1.
      rbind (if currIsNewline ls1 \<and> ls_current ls1 \<noteq> old then next_char ls1 else Ok ls1) (\<lambda>ls2.
        let ls3 = ls2\<lparr>ls_linenumber := ls_linenumber ls2 + 1\<rparr> in
        if int MAX_INT \<le> ls_linenumber ls3 then luaX_syntaxerror C ls3 ''chunk has too many lines'' else Ok ls3)))"

definition LUA_MINBUFFER :: nat where "LUA_MINBUFFER = 32"

definition luaX_setinput :: "'d LexState \<Rightarrow> 'd ZIO \<Rightarrow> string \<Rightarrow> 'd LexState" where
  "luaX_setinput ls z source =
     (case zgetc z of (c, z1) \<Rightarrow>
        ls\<lparr>ls_decpoint := CHR ''.'', ls_lookahead := \<lparr>tk_token = TK_EOS, tk_info = NoInfo\<rparr>, ls_linenumber := 1, ls_lastline := 1,
          ls_source := source, ls_buffsize := LUA_MINBUFFER, ls_current := c, ls_z := z1\<rparr>)"

section \<open>Numbers\<close>

text \<open>\<open>strchr\<close> also finds the NUL that ends the set.\<close>

definition check_next :: "libc \<Rightarrow> 'd LexState \<Rightarrow> string \<Rightarrow> ('d LexState \<times> bool) res" where
  "check_next C ls set1 =
     (if char_of (nat (ls_current ls mod 256)) \<notin> set (set1 @ [NUL]) then Ok (ls, False)
      else rbind (save_and_next C ls) (\<lambda>ls1. Ok (ls1, True)))"

definition buffreplace :: "'d LexState \<Rightarrow> char \<Rightarrow> char \<Rightarrow> 'd LexState" where
  "buffreplace ls c d = ls\<lparr>ls_buff := map (\<lambda>x. if x = c then d else x) (ls_buff ls)\<rparr>"

definition trydecpoint :: "libc \<Rightarrow> 'd LexState \<Rightarrow> ('d LexState \<times> SemInfo) res" where
  "trydecpoint C ls =
     (let ls1 = buffreplace (ls\<lparr>ls_decpoint := CHR ''.''\<rparr>) (ls_decpoint ls) (CHR ''.'') in
      case luaO_str2d (ls_buff ls1) of
        Some r \<Rightarrow> Ok (ls1, NumInfo r)
      | None \<Rightarrow> luaX_lexerror C (buffreplace ls1 (ls_decpoint ls1) (CHR ''.'')) ''malformed number'' TK_NUMBER)"

text \<open>Save the characters of a class.\<close>

primrec save_while :: "libc \<Rightarrow> (int \<Rightarrow> bool) \<Rightarrow> nat \<Rightarrow> 'd LexState \<Rightarrow> 'd lex" where
  "save_while C p 0 ls = Fail NoFuel"
| "save_while C p (Suc f) ls = (if p (ls_current ls) then rbind (save_and_next C ls) (save_while C p f) else Ok ls)"

definition read_numeral :: "libc \<Rightarrow> nat \<Rightarrow> 'd LexState \<Rightarrow> ('d LexState \<times> SemInfo) res" where
  "read_numeral C f ls =
     rbind (save_and_next C ls) (\<lambda>ls1.
     rbind (save_while C (\<lambda>c. cls isdigit_c c \<or> c = ch (CHR ''.'')) f ls1) (\<lambda>ls2.
     rbind (check_next C ls2 ''Ee'') (\<lambda>(ls3, e).
     rbind (if e then check_next C ls3 ''+-'' else Ok (ls3, False)) (\<lambda>(ls4, sg).
     rbind (save_while C (\<lambda>c. cls isalnum c \<or> c = ch (CHR ''_'')) f ls4) (\<lambda>ls5.
     rbind (save C ls5 0) (\<lambda>ls6.
       let ls7 = buffreplace ls6 (CHR ''.'') (ls_decpoint ls6) in
       case luaO_str2d (ls_buff ls7) of Some r \<Rightarrow> Ok (ls7, NumInfo r) | None \<Rightarrow> trydecpoint C ls7))))))"

section \<open>Strings\<close>

primrec count_sep :: "libc \<Rightarrow> nat \<Rightarrow> int \<Rightarrow> 'd LexState \<Rightarrow> ('d LexState \<times> int) res" where
  "count_sep C 0 n ls = Fail NoFuel"
| "count_sep C (Suc f) n ls =
     (if ls_current ls = ch (CHR ''='') then rbind (save_and_next C ls) (count_sep C f (n + 1)) else Ok (ls, n))"

definition skip_sep :: "libc \<Rightarrow> nat \<Rightarrow> 'd LexState \<Rightarrow> ('d LexState \<times> int) res" where
  "skip_sep C f ls =
     (let s = ls_current ls in
      rbind (save_and_next C ls) (\<lambda>ls1. rbind (count_sep C f 0 ls1) (\<lambda>(ls2, n).
        Ok (ls2, if ls_current ls2 = s then n else - n - 1))))"

definition luaZ_resetbuffer :: "'d LexState \<Rightarrow> 'd LexState" where
  "luaZ_resetbuffer ls = ls\<lparr>ls_buff := []\<rparr>"

text \<open>The buffer without \<open>k\<close> characters at both ends.\<close>

definition inner_buff :: "'d LexState \<Rightarrow> nat \<Rightarrow> string res" where
  "inner_buff ls k =
     (if 2 * k \<le> length (ls_buff ls) then Ok (take (length (ls_buff ls) - 2 * k) (drop k (ls_buff ls)))
      else Fail (Undefined ''read behind the buffer''))"

text \<open>The loop that reads a long string or a long comment up to its end.\<close>

primrec long_loop :: "libc \<Rightarrow> bool \<Rightarrow> int \<Rightarrow> nat \<Rightarrow> 'd LexState \<Rightarrow> 'd lex" where
  "long_loop C str sep 0 ls = Fail NoFuel"
| "long_loop C str sep (Suc f) ls =
     (if ls_current ls = EOZ then
        luaX_lexerror C ls (if str then ''unfinished long string'' else ''unfinished long comment'') TK_EOS
      else if ls_current ls = ch (CHR ''['') then
        rbind (skip_sep C f ls) (\<lambda>(ls1, n).
          if n = sep then
            rbind (save_and_next C ls1) (\<lambda>ls2.
              if sep = 0 then luaX_lexerror C ls2 ''nesting of [[...]] is deprecated'' (ch (CHR ''[''))
              else long_loop C str sep f ls2)
          else long_loop C str sep f ls1)
      else if ls_current ls = ch (CHR '']'') then
        rbind (skip_sep C f ls) (\<lambda>(ls1, n). if n = sep then save_and_next C ls1 else long_loop C str sep f ls1)
      else if currIsNewline ls then
        rbind (save C ls 10) (\<lambda>ls1. rbind (inclinenumber C ls1) (\<lambda>ls2.
          long_loop C str sep f (if str then ls2 else luaZ_resetbuffer ls2)))
      else rbind (if str then save_and_next C ls else next_char ls) (long_loop C str sep f))"

definition read_long_string :: "libc \<Rightarrow> nat \<Rightarrow> bool \<Rightarrow> int \<Rightarrow> 'd LexState \<Rightarrow> ('d LexState \<times> SemInfo) res" where
  "read_long_string C f str sep ls =
     rbind (save_and_next C ls) (\<lambda>ls1.
     rbind (if currIsNewline ls1 then inclinenumber C ls1 else Ok ls1) (\<lambda>ls2.
     rbind (long_loop C str sep f ls2) (\<lambda>ls3.
       if str then rbind (inner_buff ls3 (nat (2 + sep))) (\<lambda>s. rbind (luaX_newstring ls3 s) (\<lambda>(ls4, s). Ok (ls4, StrInfo s)))
       else Ok (ls3, NoInfo))))"

text \<open>The digits of an escape sequence, \<open>k\<close> of them at most.\<close>

primrec escape_digits :: "nat \<Rightarrow> int \<Rightarrow> 'd LexState \<Rightarrow> ('d LexState \<times> int) res" where
  "escape_digits 0 c ls = Ok (ls, c)"
| "escape_digits (Suc k) c ls =
     (if cls isdigit_c (ls_current ls) then rbind (next_char ls) (escape_digits k (10 * c + (ls_current ls - 48))) else Ok (ls, c))"

text \<open>The letters that stand for control characters.\<close>

definition escape_letter :: "int \<Rightarrow> int option" where
  "escape_letter c =
     map_of [(ch (CHR ''a''), 7), (ch (CHR ''b''), 8), (ch (CHR ''f''), 12), (ch (CHR ''n''), 10), (ch (CHR ''r''), 13), (ch (CHR ''t''), 9),
       (ch (CHR ''v''), 11)] c"

text \<open>What follows a backslash.\<close>

definition read_escape :: "libc \<Rightarrow> 'd LexState \<Rightarrow> 'd lex" where
  "read_escape C ls =
     (case escape_letter (ls_current ls) of
        Some c \<Rightarrow> rbind (save C ls c) next_char
      | None \<Rightarrow>
          if currIsNewline ls then rbind (save C ls 10) (inclinenumber C)
          else if ls_current ls = EOZ then Ok ls
          else if \<not> cls isdigit_c (ls_current ls) then save_and_next C ls
          else rbind (escape_digits 3 0 ls) (\<lambda>(ls1, c).
            if 255 < c then luaX_lexerror C ls1 ''escape sequence too large'' TK_STRING else save C ls1 c))"

primrec string_loop :: "libc \<Rightarrow> int \<Rightarrow> nat \<Rightarrow> 'd LexState \<Rightarrow> 'd lex" where
  "string_loop C del 0 ls = Fail NoFuel"
| "string_loop C del (Suc f) ls =
     (if ls_current ls = del then Ok ls
      else if ls_current ls = EOZ then luaX_lexerror C ls ''unfinished string'' TK_EOS
      else if currIsNewline ls then luaX_lexerror C ls ''unfinished string'' TK_STRING
      else if ls_current ls = 92 then rbind (next_char ls) (\<lambda>ls1. rbind (read_escape C ls1) (string_loop C del f))
      else rbind (save_and_next C ls) (string_loop C del f))"

definition read_string :: "libc \<Rightarrow> nat \<Rightarrow> int \<Rightarrow> 'd LexState \<Rightarrow> ('d LexState \<times> SemInfo) res" where
  "read_string C f del ls =
     rbind (save_and_next C ls) (\<lambda>ls1. rbind (string_loop C del f ls1) (\<lambda>ls2. rbind (save_and_next C ls2) (\<lambda>ls3.
     rbind (inner_buff ls3 1) (\<lambda>s. rbind (luaX_newstring ls3 s) (\<lambda>(ls4, s). Ok (ls4, StrInfo s))))))"

section \<open>The analyser\<close>

primrec skip_line :: "nat \<Rightarrow> 'd LexState \<Rightarrow> 'd lex" where
  "skip_line 0 ls = Fail NoFuel"
| "skip_line (Suc f) ls =
     (if \<not> currIsNewline ls \<and> ls_current ls \<noteq> EOZ then rbind (next_char ls) (skip_line f) else Ok ls)"

text \<open>A character that may be followed by \<open>=\<close>.\<close>

definition with_eq :: "'d LexState \<Rightarrow> int \<Rightarrow> ('d LexState \<times> int \<times> SemInfo) res" where
  "with_eq ls tk =
     (let c = ls_current ls in
      rbind (next_char ls) (\<lambda>ls1.
        if ls_current ls1 \<noteq> ch (CHR ''='') then Ok (ls1, c, NoInfo)
        else rbind (next_char ls1) (\<lambda>ls2. Ok (ls2, tk, NoInfo))))"

text \<open>What follows two dashes: a comment.\<close>

definition skip_comment :: "libc \<Rightarrow> nat \<Rightarrow> 'd LexState \<Rightarrow> 'd lex" where
  "skip_comment C f ls =
     (if ls_current ls = ch (CHR ''['') then
        rbind (skip_sep C f ls) (\<lambda>(ls1, sep).
          if 0 \<le> sep then rbind (read_long_string C f False sep (luaZ_resetbuffer ls1)) (\<lambda>(ls2, si). Ok (luaZ_resetbuffer ls2))
          else skip_line f (luaZ_resetbuffer ls1))
      else skip_line f ls)"

definition read_dots :: "libc \<Rightarrow> nat \<Rightarrow> 'd LexState \<Rightarrow> ('d LexState \<times> int \<times> SemInfo) res" where
  "read_dots C f ls =
     rbind (save_and_next C ls) (\<lambda>ls1. rbind (check_next C ls1 [CHR ''.'']) (\<lambda>(ls2, two).
       if two then rbind (check_next C ls2 [CHR ''.'']) (\<lambda>(ls3, three). Ok (ls3, if three then TK_DOTS else TK_CONCAT, NoInfo))
       else if \<not> cls isdigit_c (ls_current ls2) then Ok (ls2, ch (CHR ''.''), NoInfo)
       else rbind (read_numeral C f ls2) (\<lambda>(ls3, si). Ok (ls3, TK_NUMBER, si))))"

definition read_name :: "libc \<Rightarrow> nat \<Rightarrow> 'd LexState \<Rightarrow> ('d LexState \<times> int \<times> SemInfo) res" where
  "read_name C f ls =
     rbind (save_and_next C ls) (\<lambda>ls1. rbind (save_while C (\<lambda>c. cls isalnum c \<or> c = ch (CHR ''_'')) f ls1) (\<lambda>ls2.
     rbind (luaX_newstring ls2 (ls_buff ls2)) (\<lambda>(ls3, s).
       if 0 < reserved s then Ok (ls3, int (reserved s) - 1 + FIRST_RESERVED, NoInfo) else Ok (ls3, TK_NAME, StrInfo s))))"

text \<open>The loop of \<open>llex\<close>: the token and its value.\<close>

primrec llex_loop :: "libc \<Rightarrow> nat \<Rightarrow> 'd LexState \<Rightarrow> ('d LexState \<times> int \<times> SemInfo) res" where
  "llex_loop C 0 ls = Fail NoFuel"
| "llex_loop C (Suc f) ls =
     (let c = ls_current ls in
      if newline c then rbind (inclinenumber C ls) (llex_loop C f)
      else if c = ch (CHR ''-'') then
        rbind (next_char ls) (\<lambda>ls1.
          if ls_current ls1 \<noteq> ch (CHR ''-'') then Ok (ls1, ch (CHR ''-''), NoInfo)
          else rbind (next_char ls1) (\<lambda>ls2. rbind (skip_comment C f ls2) (llex_loop C f)))
      else if c = ch (CHR ''['') then
        rbind (skip_sep C f ls) (\<lambda>(ls1, sep).
          if 0 \<le> sep then rbind (read_long_string C f True sep ls1) (\<lambda>(ls2, si). Ok (ls2, TK_STRING, si))
          else if sep = - 1 then Ok (ls1, ch (CHR ''[''), NoInfo)
          else luaX_lexerror C ls1 ''invalid long string delimiter'' TK_STRING)
      else if c = ch (CHR ''='') then with_eq ls TK_EQ
      else if c = ch (CHR ''<'') then with_eq ls TK_LE
      else if c = ch (CHR ''>'') then with_eq ls TK_GE
      else if c = ch (CHR ''~'') then with_eq ls TK_NE
      else if c = 34 \<or> c = 39 then rbind (read_string C f c ls) (\<lambda>(ls1, si). Ok (ls1, TK_STRING, si))
      else if c = ch (CHR ''.'') then read_dots C f ls
      else if c = EOZ then Ok (ls, TK_EOS, NoInfo)
      else if cls isspace_c c then rbind (next_char ls) (llex_loop C f)
      else if cls isdigit_c c then rbind (read_numeral C f ls) (\<lambda>(ls1, si). Ok (ls1, TK_NUMBER, si))
      else if cls isalpha c \<or> c = ch (CHR ''_'') then read_name C f ls
      else rbind (next_char ls) (\<lambda>ls1. Ok (ls1, c, NoInfo)))"

definition llex :: "libc \<Rightarrow> nat \<Rightarrow> 'd LexState \<Rightarrow> ('d LexState \<times> int \<times> SemInfo) res" where
  "llex C f ls = llex_loop C f (luaZ_resetbuffer ls)"

text \<open>A token without a value of its own keeps the union as it was.\<close>

definition with_info :: "Token \<Rightarrow> int \<Rightarrow> SemInfo \<Rightarrow> Token" where
  "with_info t tk si = (if si = NoInfo then t\<lparr>tk_token := tk\<rparr> else t\<lparr>tk_token := tk, tk_info := si\<rparr>)"

definition luaX_next :: "libc \<Rightarrow> nat \<Rightarrow> 'd LexState \<Rightarrow> 'd lex" where
  "luaX_next C f ls =
     (let ls1 = ls\<lparr>ls_lastline := ls_linenumber ls\<rparr> in
      if tk_token (ls_lookahead ls1) \<noteq> TK_EOS then
        Ok (ls1\<lparr>ls_t := ls_lookahead ls1, ls_lookahead := (ls_lookahead ls1)\<lparr>tk_token := TK_EOS\<rparr>\<rparr>)
      else rbind (llex C f ls1) (\<lambda>(ls2, tk, si). Ok (ls2\<lparr>ls_t := with_info (ls_t ls2) tk si\<rparr>)))"

definition luaX_lookahead :: "libc \<Rightarrow> nat \<Rightarrow> 'd LexState \<Rightarrow> 'd lex" where
  "luaX_lookahead C f ls =
     rbind (llex C f ls) (\<lambda>(ls1, tk, si). Ok (ls1\<lparr>ls_lookahead := with_info (ls_lookahead ls1) tk si\<rparr>))"

end
