(* ===== verification/LuaAux.thy ===== *)
theory LuaAux
  imports LuaVm
begin

text \<open>
  The auxiliary library lauxlib.c: checks of the arguments of C functions, options, metatables of
  userdata, references, and the functions of lapi.c that they need. \<open>luaL_argerror\<close> is modelled with the
  message it gets; the name of the function and the position that it adds come from debug information.
\<close>

section \<open>Access that changes the value\<close>

text \<open>The write through the pointer that \<open>index2adr\<close> gives. The entry of the registry is a table for good.\<close>

definition set_index :: "lua_State \<Rightarrow> int \<Rightarrow> TValue \<Rightarrow> lua_State res" where
  "set_index S idx v =
     (if LUA_REGISTRYINDEX < idx then
        (let st = L_stack S; i = (if 0 < idx then nat idx - 1 else length st - nat (- idx)) in
         if idx \<noteq> 0 \<and> i < length st \<and> nat \<bar>idx\<bar> \<le> length st then Ok (S\<lparr>L_stack := st[i := v]\<rparr>)
         else Fail (Undefined ''invalid stack index''))
      else if idx = LUA_REGISTRYINDEX then Ok (S\<lparr>L_registry := v\<rparr>)
      else if idx = LUA_ENVIRONINDEX then Ok (S\<lparr>L_env := v\<rparr>)
      else if idx = LUA_GLOBALSINDEX then Ok (S\<lparr>L_gt := v\<rparr>)
      else (let i = nat (LUA_GLOBALSINDEX - idx)
            in if i \<le> length (L_upvals S) then Ok (S\<lparr>L_upvals := (L_upvals S)[i - 1 := v]\<rparr>)
               else Fail (Undefined ''invalid upvalue index'')))"

definition lua_replace :: "lua_State \<Rightarrow> int \<Rightarrow> lua_State res" where
  "lua_replace S idx = rbind (api_top S 1) (\<lambda>v. rbind (set_index S idx v) (\<lambda>S1. api_pop S1 1))"

definition lua_tolstring :: "libc \<Rightarrow> lua_State \<Rightarrow> int \<Rightarrow> (lua_State \<times> string option) res" where
  "lua_tolstring C S idx =
     rbind (index_value S idx) (\<lambda>o1. case o1 of
       Some (VStr s) \<Rightarrow> Ok (S, Some s)
     | Some (VNum n) \<Rightarrow> rbind (set_index S idx (VStr (c_num2str C n))) (\<lambda>S1. Ok (S1, Some (c_num2str C n)))
     | _ \<Rightarrow> Ok (S, None))"

definition lua_objlen :: "libc \<Rightarrow> lua_State \<Rightarrow> int \<Rightarrow> (lua_State \<times> nat) res" where
  "lua_objlen C S idx =
     rbind (index_value S idx) (\<lambda>o1. case o1 of
       Some (VStr s) \<Rightarrow> Ok (S, length s)
     | Some (VUser u) \<Rightarrow> Ok (S, L_ulen S u)
     | Some (VTable p) \<Rightarrow> rbind (get_table S p) (\<lambda>h. rbind (luaH_getn h) (\<lambda>n. Ok (S, n)))
     | Some (VNum n) \<Rightarrow> rbind (set_index S idx (VStr (c_num2str C n))) (\<lambda>S1. Ok (S1, length (c_num2str C n)))
     | _ \<Rightarrow> Ok (S, 0))"

definition lua_touserdata :: "lua_State \<Rightarrow> int \<Rightarrow> u32 option res" where
  "lua_touserdata S idx =
     rbind (index_value S idx) (\<lambda>o1. Ok (case o1 of Some (VUser u) \<Rightarrow> Some u | Some (VLight p) \<Rightarrow> (if p = 0 then None else Some p) | _ \<Rightarrow> None))"

definition LUAI_MAXCSTACK :: nat where "LUAI_MAXCSTACK = 8000"

definition lua_checkstack :: "lua_State \<Rightarrow> nat \<Rightarrow> bool" where
  "lua_checkstack S n \<longleftrightarrow> \<not> (LUAI_MAXCSTACK < n \<or> LUAI_MAXCSTACK < length (L_stack S) + n)"

definition api_type :: "lua_State \<Rightarrow> int \<Rightarrow> int res" where
  "api_type S idx = rbind (index_value S idx) (\<lambda>o1. Ok (case o1 of None \<Rightarrow> - 1 | Some v \<Rightarrow> ttype v))"

section \<open>Errors and checks\<close>

definition luaL_argerror :: "int \<Rightarrow> string \<Rightarrow> 'a res" where
  "luaL_argerror narg extramsg = Fail (LuaError extramsg)"

definition luaL_argcheck :: "bool \<Rightarrow> int \<Rightarrow> string \<Rightarrow> unit res" where
  "luaL_argcheck cond narg extramsg = (if cond then Ok () else luaL_argerror narg extramsg)"

definition tag_error :: "lua_State \<Rightarrow> int \<Rightarrow> int \<Rightarrow> 'a res" where
  "tag_error S narg tag =
     rbind (api_type S narg) (\<lambda>t. luaL_argerror narg (lua_typename tag @ '' expected, got '' @ lua_typename t))"

definition luaL_checktype :: "lua_State \<Rightarrow> int \<Rightarrow> int \<Rightarrow> unit res" where
  "luaL_checktype S narg t = rbind (api_type S narg) (\<lambda>t'. if t' \<noteq> t then tag_error S narg t else Ok ())"

definition luaL_checkany :: "lua_State \<Rightarrow> int \<Rightarrow> unit res" where
  "luaL_checkany S narg = rbind (api_type S narg) (\<lambda>t. if t = - 1 then luaL_argerror narg ''value expected'' else Ok ())"

definition luaL_checkstack :: "lua_State \<Rightarrow> nat \<Rightarrow> string \<Rightarrow> unit res" where
  "luaL_checkstack S space mes =
     (if lua_checkstack S space then Ok () else Fail (LuaError (''stack overflow ('' @ mes @ '')'')))"

definition luaL_checklstring :: "libc \<Rightarrow> lua_State \<Rightarrow> int \<Rightarrow> (lua_State \<times> string) res" where
  "luaL_checklstring C S narg =
     rbind (lua_tolstring C S narg) (\<lambda>(S1, s). case s of None \<Rightarrow> tag_error S1 narg 4 | Some s \<Rightarrow> Ok (S1, s))"

definition lua_isnoneornil :: "lua_State \<Rightarrow> int \<Rightarrow> bool res" where
  "lua_isnoneornil S n = rbind (api_type S n) (\<lambda>t. Ok (t \<le> 0))"

text \<open>\<open>def\<close> is a C string or \<open>NULL\<close>.\<close>

definition luaL_optlstring :: "libc \<Rightarrow> lua_State \<Rightarrow> int \<Rightarrow> string option \<Rightarrow> (lua_State \<times> string option) res" where
  "luaL_optlstring C S narg def =
     rbind (lua_isnoneornil S narg) (\<lambda>b.
       if b then Ok (S, def) else rbind (luaL_checklstring C S narg) (\<lambda>(S1, s). Ok (S1, Some s)))"

definition luaL_optnumber :: "lua_State \<Rightarrow> int \<Rightarrow> lua_Number \<Rightarrow> lua_Number res" where
  "luaL_optnumber S narg def =
     rbind (lua_isnoneornil S narg) (\<lambda>b. if b then Ok def else luaL_checknumber (L_stack S) narg)"

definition luaL_optinteger :: "lua_State \<Rightarrow> int \<Rightarrow> u32 \<Rightarrow> u32 res" where
  "luaL_optinteger S narg def =
     rbind (lua_isnoneornil S narg) (\<lambda>b. if b then Ok def else luaL_checkinteger (L_stack S) narg)"

primrec find_option :: "string list \<Rightarrow> string \<Rightarrow> nat \<Rightarrow> nat option" where
  "find_option [] name i = None"
| "find_option (x # lst) name i = (if x = cstr name then Some i else find_option lst name (i + 1))"

definition luaL_checkoption :: "libc \<Rightarrow> lua_State \<Rightarrow> int \<Rightarrow> string option \<Rightarrow> string list \<Rightarrow> (lua_State \<times> nat) res" where
  "luaL_checkoption C S narg def lst =
     rbind (if def = None then rbind (luaL_checklstring C S narg) (\<lambda>(S1, s). Ok (S1, Some s)) else luaL_optlstring C S narg def) (\<lambda>(S1, name).
       case name of
         None \<Rightarrow> Fail (Undefined ''no name'')
       | Some name \<Rightarrow>
           (case find_option lst name 0 of
              Some i \<Rightarrow> Ok (S1, i)
            | None \<Rightarrow> luaL_argerror narg (''invalid option '' @ CHR 0x27 # cstr name @ [CHR 0x27])))"

section \<open>Metatables\<close>

definition luaL_newmetatable :: "world \<Rightarrow> lua_State \<Rightarrow> string \<Rightarrow> (lua_State \<times> bool) res" where
  "luaL_newmetatable W S tname =
     rbind (lua_getfield W S LUA_REGISTRYINDEX tname) (\<lambda>S1. rbind (api_type S1 (- 1)) (\<lambda>t.
       if t \<noteq> 0 then Ok (S1, False)
       else rbind (api_pop S1 1) (\<lambda>S2. rbind (lua_createtable W S2 0 0) (\<lambda>S3. rbind (lua_pushvalue S3 (- 1)) (\<lambda>S4.
            rbind (lua_setfield W S4 LUA_REGISTRYINDEX tname) (\<lambda>S5. Ok (S5, True)))))))"

definition luaL_checkudata :: "world \<Rightarrow> lua_State \<Rightarrow> int \<Rightarrow> string \<Rightarrow> (lua_State \<times> u32) res" where
  "luaL_checkudata W S ud tname =
     (let fail = (\<lambda>S. rbind (api_type S ud) (\<lambda>t. luaL_argerror ud (tname @ '' expected, got '' @ lua_typename t))) in
      rbind (lua_touserdata S ud) (\<lambda>p. case p of
        None \<Rightarrow> fail S
      | Some p \<Rightarrow>
          rbind (lua_getmetatable S ud) (\<lambda>(S1, has).
            if has then
              rbind (lua_getfield W S1 LUA_REGISTRYINDEX tname) (\<lambda>S2. rbind (lua_rawequal S2 (- 1) (- 2)) (\<lambda>eq.
                if eq then rbind (api_pop S2 2) (\<lambda>S3. Ok (S3, p)) else fail S2))
            else fail S1)))"

definition luaL_getmetafield :: "lua_State \<Rightarrow> int \<Rightarrow> string \<Rightarrow> (lua_State \<times> bool) res" where
  "luaL_getmetafield S obj event =
     rbind (lua_getmetatable S obj) (\<lambda>(S1, has).
       if \<not> has then Ok (S1, False)
       else rbind (lua_rawget (api_push S1 (VStr event)) (- 2)) (\<lambda>S2. rbind (api_type S2 (- 1)) (\<lambda>t.
            if t = 0 then rbind (api_pop S2 2) (\<lambda>S3. Ok (S3, False))
            else rbind (lua_remove S2 (- 2)) (\<lambda>S3. Ok (S3, True)))))"

definition abs_index :: "lua_State \<Rightarrow> int \<Rightarrow> int" where
  "abs_index S i = (if 0 < i \<or> i \<le> LUA_REGISTRYINDEX then i else int (length (L_stack S)) + i + 1)"

definition luaL_callmeta :: "world \<Rightarrow> lua_State \<Rightarrow> int \<Rightarrow> string \<Rightarrow> (lua_State \<times> bool) res" where
  "luaL_callmeta W S obj event =
     (let obj = abs_index S obj in
      rbind (luaL_getmetafield S obj event) (\<lambda>(S1, has).
        if \<not> has then Ok (S1, False)
        else rbind (lua_pushvalue S1 obj) (\<lambda>S2. rbind (lua_call W S2 1 1) (\<lambda>S3. Ok (S3, True)))))"

section \<open>Tables by dotted names\<close>

text \<open>The name up to the first dot, and what comes behind the dot, if there is one. The result \<open>Some name\<close> is the
part that could not be used.\<close>

definition split_dot :: "string \<Rightarrow> string \<times> string option" where
  "split_dot s =
     (let e = takeWhile (\<lambda>c. c \<noteq> CHR ''.'') s
      in (e, if length e < length s then Some (drop (length e + 1) s) else None))"

lemma split_dot_less: "split_dot s = (e, Some r) \<Longrightarrow> length r < length s"
  by (auto simp: split_dot_def Let_def split: if_splits)

definition findtable_step :: "world \<Rightarrow> lua_State \<Rightarrow> string \<Rightarrow> nat \<Rightarrow> (lua_State \<times> bool) res" where
  "findtable_step W S e szhint =
     rbind (lua_rawget (api_push S (VStr e)) (- 2)) (\<lambda>S1. rbind (api_type S1 (- 1)) (\<lambda>t.
     rbind (if t = 0 then
              rbind (api_pop S1 1) (\<lambda>S2. rbind (lua_createtable W S2 0 (int szhint)) (\<lambda>S3.
              rbind (lua_pushvalue (api_push S3 (VStr e)) (- 2)) (\<lambda>S4. rbind (lua_settable W S4 (- 4)) (\<lambda>S5. Ok (S5, True)))))
            else if t \<noteq> 5 then rbind (api_pop S1 2) (\<lambda>S2. Ok (S2, False))
            else Ok (S1, True)) (\<lambda>(S6, ok).
       if ok then rbind (lua_remove S6 (- 2)) (\<lambda>S7. Ok (S7, True)) else Ok (S6, False))))"

function findtable_loop :: "world \<Rightarrow> lua_State \<Rightarrow> string \<Rightarrow> nat \<Rightarrow> (lua_State \<times> string option) res" where
  "findtable_loop W S fname szhint =
     (case split_dot fname of (e, rest) \<Rightarrow>
       rbind (findtable_step W S e (if rest = None then szhint else 1)) (\<lambda>(S1, ok).
         if \<not> ok then Ok (S1, Some fname)
         else (case rest of Some r \<Rightarrow> findtable_loop W S1 r szhint | None \<Rightarrow> Ok (S1, None))))"
  by pat_completeness auto
termination
  by (relation "measure (\<lambda>(W, S, fname, szhint). length fname)") (auto dest: split_dot_less [OF sym])

declare findtable_loop.simps [simp del]

definition luaL_findtable :: "world \<Rightarrow> lua_State \<Rightarrow> int \<Rightarrow> string \<Rightarrow> nat \<Rightarrow> (lua_State \<times> string option) res" where
  "luaL_findtable W S idx fname szhint = rbind (lua_pushvalue S idx) (\<lambda>S1. findtable_loop W S1 fname szhint)"

section \<open>References\<close>

definition FREELIST_REF :: int where "FREELIST_REF = 0"
definition LUA_REFNIL :: int where "LUA_REFNIL = - 1"

definition luaL_ref :: "libc \<Rightarrow> lua_State \<Rightarrow> int \<Rightarrow> (lua_State \<times> int) res" where
  "luaL_ref C S t =
     (let t = abs_index S t in
      rbind (api_type S (- 1)) (\<lambda>ty.
        if ty = 0 then rbind (api_pop S 1) (\<lambda>S1. Ok (S1, LUA_REFNIL))
        else
          rbind (lua_rawgeti S t FREELIST_REF) (\<lambda>S1. rbind (lua_tointeger (L_stack S1) (- 1)) (\<lambda>r.
          rbind (api_pop S1 1) (\<lambda>S2. let ref = sint r in
          rbind (if ref \<noteq> 0 then
                   rbind (lua_rawgeti S2 t ref) (\<lambda>S3. rbind (lua_rawseti S3 t FREELIST_REF) (\<lambda>S4. Ok (S4, ref)))
                 else rbind (lua_objlen C S2 t) (\<lambda>(S3, n). Ok (S3, int n + 1))) (\<lambda>(S5, ref).
            rbind (lua_rawseti S5 t ref) (\<lambda>S6. Ok (S6, ref))))))))"

definition luaL_unref :: "lua_State \<Rightarrow> int \<Rightarrow> int \<Rightarrow> lua_State res" where
  "luaL_unref S t ref =
     (if 0 \<le> ref then
        (let t = abs_index S t in
         rbind (lua_rawgeti S t FREELIST_REF) (\<lambda>S1. rbind (lua_rawseti S1 t ref) (\<lambda>S2.
         lua_rawseti (api_push S2 (VNum (cast_num ref))) t FREELIST_REF)))
      else Ok S)"

end
