(* ===== verification/LuaBuffer.thy ===== *)
theory LuaBuffer
  imports LuaAux
begin

text \<open>
  The string buffers of lauxlib.c: the bytes of the C array that are in use, and the strings that
  the buffer keeps on the Lua stack. The interface that the string and table libraries use is the
  locale \<open>accumulator\<close>: a buffer holds a string, and every operation appends to it. The buffers
  of the code are an interpretation. A further lemma bounds the slots of the stack that a buffer takes.
\<close>

section \<open>The interface\<close>

text \<open>\<open>Rep x s\<close>: the buffer (with the state it lives in) holds the string \<open>s\<close>; \<open>bound\<close> is the
length that no string reaches.\<close>

locale accumulator =
  fixes Rep :: "'b \<Rightarrow> string \<Rightarrow> bool"
    and add :: "'b \<Rightarrow> char \<Rightarrow> 'b res"
    and bound :: nat
  assumes add_char: "Rep x s \<Longrightarrow> length s + 1 < bound \<Longrightarrow> \<exists>x'. add x c = Ok x' \<and> Rep x' (s @ [c])"
begin

lemma add_string: "Rep x s \<Longrightarrow> length s + length t < bound \<Longrightarrow> \<exists>x'. foldM (\<lambda>c x. add x c) t x = Ok x' \<and> Rep x' (s @ t)"
proof (induction t arbitrary: x s)
  case (Cons c t)
  have "length s + 1 < bound" using Cons.prems(2) by simp
  then obtain x1 where x1: "add x c = Ok x1" "Rep x1 (s @ [c])" using add_char [OF Cons.prems(1), of c] by blast
  obtain x' where "foldM (\<lambda>c x. add x c) t x1 = Ok x'" "Rep x' ((s @ [c]) @ t)"
    using Cons.IH [OF x1(2)] Cons.prems(2) by auto
  then show ?case using x1(1) by simp
qed simp

lemma add_map: "Rep x s \<Longrightarrow> length s + length t < bound \<Longrightarrow> \<exists>x'. foldM (\<lambda>c x. add x (f c)) t x = Ok x' \<and> Rep x' (s @ map f t)"
proof -
  have "foldM (\<lambda>c x. add x (f c)) t x = foldM (\<lambda>c x. add x c) (map f t) x" for x
    by (induction t arbitrary: x) (simp_all cong: rbind_cong)
  then show "Rep x s \<Longrightarrow> length s + length t < bound \<Longrightarrow> \<exists>x'. foldM (\<lambda>c x. add x (f c)) t x = Ok x' \<and> Rep x' (s @ map f t)"
    using add_string [of x s "map f t"] by simp
qed

end

section \<open>The buffer\<close>

definition LUAL_BUFFERSIZE :: nat where "LUAL_BUFFERSIZE = 512"
definition LIMIT :: nat where "LIMIT = LUA_MINSTACK div 2"

record luaL_Buffer =
  b_data :: string
  b_lvl :: nat

type_synonym bstate = "lua_State \<times> luaL_Buffer"

definition bufffree :: "luaL_Buffer \<Rightarrow> nat" where
  "bufffree B = LUAL_BUFFERSIZE - length (b_data B)"

definition emptybuffer :: "bstate \<Rightarrow> bstate \<times> bool" where
  "emptybuffer = (\<lambda>(S, B).
     if b_data B = [] then ((S, B), False)
     else ((api_push S (VStr (b_data B)), B\<lparr>b_data := [], b_lvl := b_lvl B + 1\<rparr>), True))"

text \<open>The loop of \<open>adjuststack\<close>: how many levels to concatenate; \<open>k\<close> more can be looked at.\<close>

primrec levels_loop :: "libc \<Rightarrow> lua_State \<Rightarrow> nat \<Rightarrow> nat \<Rightarrow> nat \<Rightarrow> nat \<Rightarrow> (lua_State \<times> nat) res" where
  "levels_loop C S lvl toget toplen 0 = Ok (S, toget)"
| "levels_loop C S lvl toget toplen (Suc k) =
     rbind (lua_objlen C S (- int (toget + 1))) (\<lambda>(S1, l).
       if LIMIT \<le> lvl - toget + 1 \<or> l < toplen then levels_loop C S1 lvl (toget + 1) (toplen + l) k
       else Ok (S1, toget))"

definition adjuststack :: "libc \<Rightarrow> world \<Rightarrow> bstate \<Rightarrow> bstate res" where
  "adjuststack C W = (\<lambda>(S, B).
     if 1 < b_lvl B then
       rbind (lua_objlen C S (- 1)) (\<lambda>(S1, toplen).
       rbind (levels_loop C S1 (b_lvl B) 1 toplen (b_lvl B - 1)) (\<lambda>(S2, toget).
       rbind (lua_concat C W S2 toget) (\<lambda>S3. Ok (S3, B\<lparr>b_lvl := b_lvl B - toget + 1\<rparr>))))
     else Ok (S, B))"

definition luaL_prepbuffer :: "libc \<Rightarrow> world \<Rightarrow> bstate \<Rightarrow> bstate res" where
  "luaL_prepbuffer C W X = (case emptybuffer X of (X1, b) \<Rightarrow> if b then adjuststack C W X1 else Ok X1)"

definition luaL_addchar :: "libc \<Rightarrow> world \<Rightarrow> bstate \<Rightarrow> char \<Rightarrow> bstate res" where
  "luaL_addchar C W X c =
     rbind (if length (b_data (snd X)) < LUAL_BUFFERSIZE then Ok X else luaL_prepbuffer C W X) (\<lambda>(S, B).
       Ok (S, B\<lparr>b_data := b_data B @ [c]\<rparr>))"

definition luaL_addlstring :: "libc \<Rightarrow> world \<Rightarrow> bstate \<Rightarrow> string \<Rightarrow> bstate res" where
  "luaL_addlstring C W X s = foldM (\<lambda>c X. luaL_addchar C W X c) s X"

definition luaL_addstring :: "libc \<Rightarrow> world \<Rightarrow> bstate \<Rightarrow> string \<Rightarrow> bstate res" where
  "luaL_addstring C W X s = luaL_addlstring C W X (cstr s)"

definition luaL_pushresult :: "libc \<Rightarrow> world \<Rightarrow> bstate \<Rightarrow> bstate res" where
  "luaL_pushresult C W X =
     (case emptybuffer X of ((S, B), _) \<Rightarrow> rbind (lua_concat C W S (b_lvl B)) (\<lambda>S1. Ok (S1, B\<lparr>b_lvl := 1\<rparr>)))"

text \<open>The value on the top, which is a string or a number.\<close>

definition luaL_addvalue :: "libc \<Rightarrow> world \<Rightarrow> bstate \<Rightarrow> bstate res" where
  "luaL_addvalue C W = (\<lambda>(S, B).
     rbind (lua_tolstring C S (- 1)) (\<lambda>(S1, s). case s of
       None \<Rightarrow> Fail (Undefined ''not a string'')
     | Some s \<Rightarrow>
         if length s \<le> bufffree B then rbind (api_pop S1 1) (\<lambda>S2. Ok (S2, B\<lparr>b_data := b_data B @ s\<rparr>))
         else (case emptybuffer (S1, B) of ((S2, B1), b) \<Rightarrow>
                rbind (if b then lua_insert S2 (- 2) else Ok S2) (\<lambda>S3. adjuststack C W (S3, B1\<lparr>b_lvl := b_lvl B1 + 1\<rparr>)))))"

definition luaL_buffinit :: luaL_Buffer where
  "luaL_buffinit = \<lparr>b_data = [], b_lvl = 0\<rparr>"

section \<open>What a buffer holds\<close>

text \<open>The buffer lives in a state that is \<open>S0\<close> with the strings of the buffer on its stack.\<close>

definition holds_str :: "lua_State \<Rightarrow> bstate \<Rightarrow> string \<Rightarrow> bool" where
  "holds_str S0 X s \<longleftrightarrow>
     (\<exists>ps. fst X = S0\<lparr>L_stack := L_stack S0 @ map VStr ps\<rparr> \<and> length ps = b_lvl (snd X) \<and>
        concat ps @ b_data (snd X) = s \<and> length (b_data (snd X)) \<le> LUAL_BUFFERSIZE \<and> b_lvl (snd X) < LIMIT \<and> length s < MAX_SIZET)"

lemma LIMIT_eq: "LIMIT = 50"
  by (simp add: LIMIT_def LUA_MINSTACK_def)

lemma buffinit_holds: "holds_str S (S, luaL_buffinit) ''''"
  by (simp add: holds_str_def luaL_buffinit_def LIMIT_eq LUAL_BUFFERSIZE_def MAX_SIZET_def)

lemma concat_strs:
  assumes "L_stack S = st @ map VStr ps" "length (concat ps) < MAX_SIZET" "n = length ps" "1 \<le> n"
  shows "lua_concat C W S n = Ok (S\<lparr>L_stack := st @ [VStr (concat ps)]\<rparr>)"
proof (cases "n = 1")
  case True
  then obtain p where "ps = [p]" using assms(3) by (cases ps) auto
  moreover from this have "S\<lparr>L_stack := st @ [VStr p]\<rparr> = S" using assms(1) by simp
  ultimately show ?thesis using True assms by (simp add: lua_concat_def)
next
  case False
  have "\<forall>v \<in> set (map VStr ps). text_of C v \<noteq> None" by (simp add: text_of_def)
  moreover have "map (vtext C) (map VStr ps) = ps" by (simp add: text_of_def comp_def)
  ultimately show ?thesis
    using lua_concat_texts [of S st "map VStr ps" C W] False assms by simp
qed

lemma objlen_str:
  assumes "L_stack S = st @ VStr p # ws" "k = length ws + 1" "int k < 10000"
  shows "lua_objlen C S (- int k) = Ok (S, length p)"
proof -
  have k: "0 < k" "k \<le> length (L_stack S)" "length (L_stack S) - k = length st" using assms(1, 2) by simp_all
  then have "index2adr (L_stack S) (- int k) = Ok (Some (L_stack S ! length st))" by (simp add: index2adr_def)
  moreover have "L_stack S ! length st = VStr p" using assms(1) by simp
  ultimately have "index2adr (L_stack S) (- int k) = Ok (Some (VStr p))" by simp
  then show ?thesis using assms(3) by (simp add: lua_objlen_def index_value_def)
qed

text \<open>The loop takes at least one level, at most all, and enough to leave fewer than \<open>LIMIT\<close>.\<close>

lemma levels_loop_ok:
  assumes "L_stack S = st @ map VStr ps" "length ps = lvl" "1 \<le> toget" "toget + k = lvl" "lvl < 5000"
  shows "\<exists>n. levels_loop C S lvl toget len k = Ok (S, n) \<and> 1 \<le> n \<and> n \<le> lvl \<and> lvl - n + 1 < LIMIT"
  using assms
proof (induction k arbitrary: toget len)
  case 0
  then show ?case by (simp add: LIMIT_eq)
next
  case (Suc k)
  let ?i = "lvl - (toget + 1)"
  have i: "?i < length ps" using Suc.prems by simp
  have "ps = take ?i ps @ ps ! ?i # drop (Suc ?i) ps" using i by (simp add: id_take_nth_drop)
  then have st: "L_stack S = (st @ map VStr (take ?i ps)) @ VStr (ps ! ?i) # map VStr (drop (Suc ?i) ps)"
    using Suc.prems(1) by (metis append.assoc list.simps(9) map_append)
  have o: "lua_objlen C S (- int (toget + 1)) = Ok (S, length (ps ! ?i))"
    by (rule objlen_str [OF st]) (use Suc.prems in auto)
  have e: "levels_loop C S lvl toget len (Suc k) =
      (if LIMIT \<le> lvl - toget + 1 \<or> length (ps ! ?i) < len
       then levels_loop C S lvl (toget + 1) (len + length (ps ! ?i)) k else Ok (S, toget))"
    unfolding levels_loop.simps o by simp
  show ?case
  proof (cases "LIMIT \<le> lvl - toget + 1 \<or> length (ps ! ?i) < len")
    case True
    have "\<exists>n. levels_loop C S lvl (toget + 1) (len + length (ps ! ?i)) k = Ok (S, n) \<and> 1 \<le> n \<and> n \<le> lvl \<and> lvl - n + 1 < LIMIT"
      by (rule Suc.IH) (use Suc.prems in simp_all)
    then show ?thesis unfolding e if_P [OF True] .
  next
    case False
    then show ?thesis unfolding e if_not_P [OF False] using Suc.prems by simp
  qed
qed

lemma adjuststack_ok:
  assumes "S = S0\<lparr>L_stack := L_stack S0 @ map VStr ps\<rparr>" "length ps = b_lvl B" "b_lvl B \<le> LIMIT + 1" "length (concat ps) < MAX_SIZET"
  shows "\<exists>ps'. adjuststack C W (S, B) = Ok (S0\<lparr>L_stack := L_stack S0 @ map VStr ps'\<rparr>, B\<lparr>b_lvl := length ps'\<rparr>) \<and>
    concat ps' = concat ps \<and> length ps' < LIMIT"
proof (cases "1 < b_lvl B")
  case True
  let ?lvl = "b_lvl B"
  obtain q where ps: "ps = butlast ps @ [q]" using True assms(2) by (cases ps rule: rev_exhaust) auto
  have st: "L_stack S = (L_stack S0 @ map VStr (butlast ps)) @ VStr q # []"
    by (subst assms(1), subst ps) simp
  have top_len: "lua_objlen C S (- 1) = Ok (S, length q)" using objlen_str [OF st, of 1 C] by simp
  have "L_stack S = L_stack S0 @ map VStr ps" using assms(1) by simp
  then obtain n where n: "levels_loop C S ?lvl 1 (length q) (?lvl - 1) = Ok (S, n)" "1 \<le> n" "n \<le> ?lvl" "?lvl - n + 1 < LIMIT"
    using levels_loop_ok [of S "L_stack S0" ps ?lvl 1 "?lvl - 1" C "length q"] True assms(2, 3) by (auto simp: LIMIT_eq)
  define us ws where "us = take (?lvl - n) ps" and "ws = drop (?lvl - n) ps"
  have split: "ps = us @ ws" "length us = ?lvl - n" "length ws = n"
    using n(3) assms(2) by (simp_all add: us_def ws_def)
  have c: "lua_concat C W S n = Ok (S\<lparr>L_stack := (L_stack S0 @ map VStr us) @ [VStr (concat ws)]\<rparr>)"
    by (rule concat_strs) (use assms(1, 4) split n(2) in simp_all)
  show ?thesis
    by (intro exI [of _ "us @ [concat ws]"])
      (use True top_len n c split assms(1) in \<open>simp add: adjuststack_def\<close>)
next
  case False
  then show ?thesis
    using assms by (intro exI [of _ ps]) (simp add: adjuststack_def LIMIT_eq)
qed

lemma prepbuffer_ok:
  assumes "holds_str S0 X s"
  shows "\<exists>X'. luaL_prepbuffer C W X = Ok X' \<and> holds_str S0 X' s \<and> b_data (snd X') = []"
proof -
  obtain S B where X: "X = (S, B)" by (cases X)
  obtain ps where ps: "S = S0\<lparr>L_stack := L_stack S0 @ map VStr ps\<rparr>" "length ps = b_lvl B" "concat ps @ b_data B = s" "b_lvl B < LIMIT" "length s < MAX_SIZET"
    using assms by (auto simp: holds_str_def X)
  show ?thesis
  proof (cases "b_data B = []")
    case True
    then show ?thesis using assms by (simp add: X luaL_prepbuffer_def emptybuffer_def)
  next
    case False
    let ?B = "B\<lparr>b_data := [], b_lvl := b_lvl B + 1\<rparr>"
    have "api_push S (VStr (b_data B)) = S0\<lparr>L_stack := L_stack S0 @ map VStr (ps @ [b_data B])\<rparr>"
      using ps(1) by (simp add: api_push_def)
    then obtain ps' where "adjuststack C W (api_push S (VStr (b_data B)), ?B) = Ok (S0\<lparr>L_stack := L_stack S0 @ map VStr ps'\<rparr>, ?B\<lparr>b_lvl := length ps'\<rparr>)"
      "concat ps' = concat (ps @ [b_data B])" "length ps' < LIMIT"
      using adjuststack_ok [of _ S0 "ps @ [b_data B]" ?B C W] ps by auto
    then show ?thesis
      using False ps by (auto simp: X luaL_prepbuffer_def emptybuffer_def holds_str_def)
  qed
qed

lemma addchar_ok:
  assumes "holds_str S0 X s" "length s + 1 < MAX_SIZET"
  shows "\<exists>X'. luaL_addchar C W X c = Ok X' \<and> holds_str S0 X' (s @ [c])"
proof -
  obtain X1 where X1: "(if length (b_data (snd X)) < LUAL_BUFFERSIZE then Ok X else luaL_prepbuffer C W X) = Ok X1"
    "holds_str S0 X1 s" "length (b_data (snd X1)) < LUAL_BUFFERSIZE"
  proof (cases "length (b_data (snd X)) < LUAL_BUFFERSIZE")
    case True
    then show thesis using that [of X] assms(1) by simp
  next
    case False
    obtain X' where X': "luaL_prepbuffer C W X = Ok X'" "holds_str S0 X' s" "b_data (snd X') = []"
      using prepbuffer_ok [OF assms(1)] by blast
    then show thesis using that [of X'] False by (simp add: LUAL_BUFFERSIZE_def)
  qed
  obtain S B where [simp]: "X1 = (S, B)" by (cases X1)
  have "holds_str S0 (S, B\<lparr>b_data := b_data B @ [c]\<rparr>) (s @ [c])"
    using X1(2, 3) assms(2) by (auto simp: holds_str_def)
  then show ?thesis using X1(1) by (simp add: luaL_addchar_def)
qed

interpretation buf: accumulator "holds_str S0" "luaL_addchar C W" MAX_SIZET for S0 C W
  by unfold_locales (rule addchar_ok)

lemma addlstring_ok:
  "holds_str S0 X s \<Longrightarrow> length s + length t < MAX_SIZET \<Longrightarrow> \<exists>X'. luaL_addlstring C W X t = Ok X' \<and> holds_str S0 X' (s @ t)"
  unfolding luaL_addlstring_def by (rule buf.add_string)

lemma pushresult_ok:
  assumes "holds_str S0 X s"
  shows "\<exists>B'. luaL_pushresult C W X = Ok (api_push S0 (VStr s), B')"
proof -
  obtain S B where X: "X = (S, B)" by (cases X)
  obtain ps where ps: "S = S0\<lparr>L_stack := L_stack S0 @ map VStr ps\<rparr>" "length ps = b_lvl B" "concat ps @ b_data B = s" "length s < MAX_SIZET"
    using assms by (auto simp: holds_str_def X)
  obtain qs S1 B1 b where e: "emptybuffer X = ((S1, B1), b)" "S1 = S0\<lparr>L_stack := L_stack S0 @ map VStr qs\<rparr>" "length qs = b_lvl B1" "concat qs = s"
  proof (cases "b_data B = []")
    case True
    then show thesis using that [of S B False ps] ps by (simp add: X emptybuffer_def)
  next
    case False
    then show thesis using that [of "api_push S (VStr (b_data B))" "B\<lparr>b_data := [], b_lvl := b_lvl B + 1\<rparr>" True "ps @ [b_data B]"] ps
      by (simp add: X emptybuffer_def api_push_def)
  qed
  have "lua_concat C W S1 (b_lvl B1) = Ok (api_push S0 (VStr s))"
  proof (cases "qs = []")
    case True
    then show ?thesis using e by (simp add: lua_concat_def api_push_def)
  next
    case False
    then have "1 \<le> b_lvl B1" using e(3) by (cases qs) simp_all
    then show ?thesis
      using concat_strs [of S1 "L_stack S0" qs "b_lvl B1" C W] e ps(4) by (simp add: api_push_def)
  qed
  then show ?thesis by (simp add: luaL_pushresult_def e(1))
qed

lemma tolstring_top:
  assumes "L_stack S = st @ [v]" "text_of C v = Some t"
  shows "lua_tolstring C S (- 1) = Ok (S\<lparr>L_stack := st @ [VStr t]\<rparr>, Some t)"
proof -
  have "S\<lparr>L_stack := st @ [v]\<rparr> = S" using assms(1) by simp
  then show ?thesis
    using assms by (cases v) (auto simp: lua_tolstring_def index_value_def index2adr_def set_index_def text_of_def nth_append Let_def)
qed

text \<open>A value is pushed behind the strings of the buffer and then added.\<close>

lemma addvalue_ok:
  assumes "holds_str S0 (S, B) s" "text_of C v = Some t" "length s + length t < MAX_SIZET"
  shows "\<exists>X'. luaL_addvalue C W (api_push S v, B) = Ok X' \<and> holds_str S0 X' (s @ t)"
proof -
  obtain ps where ps: "S = S0\<lparr>L_stack := L_stack S0 @ map VStr ps\<rparr>" "length ps = b_lvl B" "concat ps @ b_data B = s"
    "length (b_data B) \<le> LUAL_BUFFERSIZE" "b_lvl B < LIMIT"
    using assms(1) by (auto simp: holds_str_def)
  let ?S1 = "S\<lparr>L_stack := L_stack S @ [VStr t]\<rparr>"
  have t: "lua_tolstring C (api_push S v) (- 1) = Ok (?S1, Some t)"
    using tolstring_top [of "api_push S v" "L_stack S" v C t] assms(2) by (simp add: api_push_def)
  show ?thesis
  proof (cases "length t \<le> bufffree B")
    case True
    have "api_pop ?S1 1 = Ok S" by (simp add: api_pop_def lua_pop_append)
    moreover have "holds_str S0 (S, B\<lparr>b_data := b_data B @ t\<rparr>) (s @ t)"
      using assms(1, 3) True ps(4) by (auto simp: holds_str_def bufffree_def)
    ultimately show ?thesis using True t by (simp add: luaL_addvalue_def)
  next
    case False
    let ?qs = "(if b_data B = [] then ps else ps @ [b_data B]) @ [t]"
    let ?B = "B\<lparr>b_data := [], b_lvl := length ?qs\<rparr>"
    obtain S2 B1 b S3 where e: "emptybuffer (?S1, B) = ((S2, B1), b)" "(if b then lua_insert S2 (- 2) else Ok S2) = Ok S3"
      "S3 = S0\<lparr>L_stack := L_stack S0 @ map VStr ?qs\<rparr>" "B1\<lparr>b_lvl := b_lvl B1 + 1\<rparr> = ?B"
    proof (cases "b_data B = []")
      case True
      then show thesis using that [of ?S1 B False ?S1] ps by (simp add: emptybuffer_def)
    next
      case False
      let ?S2 = "api_push ?S1 (VStr (b_data B))"
      have "lua_insert ?S2 (- 2) = Ok (S0\<lparr>L_stack := L_stack S0 @ map VStr ?qs\<rparr>)"
        using False ps(1) by (simp add: lua_insert_def api_push_def Let_def nth_append butlast_append)
      then show thesis using that [of ?S2 "B\<lparr>b_data := [], b_lvl := b_lvl B + 1\<rparr>" True] False ps(2) by (simp add: emptybuffer_def)
    qed
    have "length (concat ?qs) < MAX_SIZET" "concat ?qs = s @ t" using ps(3) assms(3) by auto
    moreover have "b_lvl ?B \<le> LIMIT + 1" using ps(2, 5) by simp
    ultimately obtain ps' where "adjuststack C W (S3, ?B) = Ok (S0\<lparr>L_stack := L_stack S0 @ map VStr ps'\<rparr>, ?B\<lparr>b_lvl := length ps'\<rparr>)"
      "concat ps' = s @ t" "length ps' < LIMIT"
      using adjuststack_ok [OF e(3), of ?B C W] by auto
    then show ?thesis
      using False t e assms(3) by (auto simp: luaL_addvalue_def holds_str_def)
  qed
qed

section \<open>A sequence of additions\<close>

text \<open>A piece is a string or a value that the code pushes and then adds.\<close>

definition add_piece :: "libc \<Rightarrow> world \<Rightarrow> string + TValue \<Rightarrow> bstate \<Rightarrow> bstate res" where
  "add_piece C W p X =
     (case p of Inl s \<Rightarrow> luaL_addlstring C W X s | Inr v \<Rightarrow> luaL_addvalue C W (api_push (fst X) v, snd X))"

definition piece_text :: "libc \<Rightarrow> string + TValue \<Rightarrow> string" where
  "piece_text C p = (case p of Inl s \<Rightarrow> s | Inr v \<Rightarrow> vtext C v)"

lemma add_pieces_ok:
  assumes "holds_str S X s" "\<forall>v. Inr v \<in> set ps \<longrightarrow> text_of C v \<noteq> None" "length s + length (concat (map (piece_text C) ps)) < MAX_SIZET"
  shows "\<exists>X'. foldM (add_piece C W) ps X = Ok X' \<and> holds_str S X' (s @ concat (map (piece_text C) ps))"
  using assms
proof (induction ps arbitrary: X s)
  case (Cons p ps)
  have "\<exists>X1. add_piece C W p X = Ok X1 \<and> holds_str S X1 (s @ piece_text C p)"
  proof (cases p)
    case (Inl t)
    then show ?thesis using addlstring_ok [OF Cons.prems(1), of t C W] Cons.prems(3) by (simp add: add_piece_def piece_text_def)
  next
    case (Inr v)
    then obtain t where "text_of C v = Some t" using Cons.prems(2) by auto
    then show ?thesis
      using addvalue_ok [of S "fst X" "snd X" s C v t W] Cons.prems(1, 3) Inr by (simp add: add_piece_def piece_text_def)
  qed
  then obtain X1 where X1: "add_piece C W p X = Ok X1" "holds_str S X1 (s @ piece_text C p)" by blast
  have "\<exists>X'. foldM (add_piece C W) ps X1 = Ok X' \<and> holds_str S X' ((s @ piece_text C p) @ concat (map (piece_text C) ps))"
    by (rule Cons.IH [OF X1(2)]) (use Cons.prems(2, 3) in simp_all)
  then show ?case using X1(1) by simp
qed simp

text \<open>C11: a buffer refines a string that grows: any sequence of additions, of bytes, strings and values, and then the
push of the result leaves on the stack exactly the concatenation of what was added, although
the code keeps it in a C array and in several strings on the stack, which it joins in
groups; everything else in the state is as before.\<close>

theorem buffer_refines_string:
  assumes "\<forall>v. Inr v \<in> set ps \<longrightarrow> text_of C v \<noteq> None" and "length (concat (map (piece_text C) ps)) < MAX_SIZET"
  shows "\<exists>B. rbind (foldM (add_piece C W) ps (S, luaL_buffinit)) (luaL_pushresult C W) =
    Ok (api_push S (VStr (concat (map (piece_text C) ps))), B)"
proof -
  obtain X where X: "foldM (add_piece C W) ps (S, luaL_buffinit) = Ok X" "holds_str S X (concat (map (piece_text C) ps))"
    using add_pieces_ok [OF buffinit_holds assms(1), of W S] assms(2) by auto
  then show ?thesis using pushresult_ok [OF X(2), of C W] by simp
qed

theorem buffer_refines_string_witness:
  "\<forall>C W. \<exists>B. rbind (foldM (add_piece C W) [Inl ''a'', Inr (VStr ''b'')] (call_state [], luaL_buffinit)) (luaL_pushresult C W) =
     Ok (api_push (call_state []) (VStr ''ab''), B)"
proof (intro allI)
  fix C W
  have t: "concat (map (piece_text C) [Inl ''a'', Inr (VStr ''b'')]) = ''ab''" by (simp add: piece_text_def text_of_def)
  have "\<exists>B. rbind (foldM (add_piece C W) [Inl ''a'', Inr (VStr ''b'')] (call_state [], luaL_buffinit)) (luaL_pushresult C W) =
     Ok (api_push (call_state []) (VStr (concat (map (piece_text C) [Inl ''a'', Inr (VStr ''b'')]))), B)"
    by (rule buffer_refines_string) (auto simp: text_of_def piece_text_def MAX_SIZET_def)
  then show "\<exists>B. rbind (foldM (add_piece C W) [Inl ''a'', Inr (VStr ''b'')] (call_state [], luaL_buffinit)) (luaL_pushresult C W) =
     Ok (api_push (call_state []) (VStr ''ab''), B)" unfolding t .
qed

end
