(* ===== verification/LuaPatternProps.thy ===== *)
theory LuaPatternProps
  imports LuaPattern
begin

text \<open>
  The pattern matcher never reads outside the subject or the pattern, whatever they are, keeps its
  captures inside the part of the subject it has passed, and leaves them as they were when it
  fails. Plain search finds the first occurrence. For patterns without captures the
  matcher computes the first of the ends that a reference semantics of patterns lists in
  the order of preference (longest or shortest repetition first).
\<close>

section \<open>Outcomes\<close>

text \<open>The outcome is an error of Lua or a value with \<open>Q\<close>; in particular no step is undefined.\<close>

definition post :: "'a res \<Rightarrow> ('a \<Rightarrow> bool) \<Rightarrow> bool" where
  "post r Q \<longleftrightarrow> (case r of Inl (LuaError m) \<Rightarrow> True | Inl _ \<Rightarrow> False | Inr x \<Rightarrow> Q x)"

lemma post_simps [simp]:
  "post (Ok x) Q \<longleftrightarrow> Q x"
  "post (Fail (LuaError m)) Q"
  "\<not> post (Fail (Undefined m)) Q"
  by (simp_all add: post_def)

lemma post_bind: "post r P \<Longrightarrow> (\<And>x. r = Ok x \<Longrightarrow> P x \<Longrightarrow> post (f x) Q) \<Longrightarrow> post (rbind r f) Q"
  by (cases r) (auto simp: post_def split: error.splits)

lemma post_mono: "post r P \<Longrightarrow> (\<And>x. P x \<Longrightarrow> Q x) \<Longrightarrow> post r Q"
  by (auto simp: post_def split: sum.splits error.splits)

lemma post_rd: "i \<le> length s \<Longrightarrow> post (rd s i) (\<lambda>c. i < length s \<or> c = NUL)"
  by (auto simp: rd_def)

lemma bind_rd:
  "i \<le> length s \<Longrightarrow> (\<And>c. rd s i = Ok c \<Longrightarrow> c = NUL \<or> i < length s \<Longrightarrow> post (f c) Q) \<Longrightarrow> post (rbind (rd s i) f) Q"
  by (rule post_bind [OF post_rd]) auto

section \<open>Single characters\<close>

lemma classend_set_defined: "p \<le> length pt \<Longrightarrow> post (classend_set pt p) (\<lambda>ep. True)"
proof (induction pt p rule: classend_set.induct)
  case (1 pt p)
  show ?case
    unfolding classend_set.simps [of pt p]
  proof (rule bind_rd [OF 1(2)], goal_cases)
    case c: (1 c)
    show ?case
    proof (cases "c = NUL")
      case False
      have "p + 1 \<le> length pt" using c False by auto
      then show ?thesis unfolding if_not_P [OF False]
      proof (rule bind_rd, goal_cases)
        case c1: (1 c1)
        define q where "q = (if c = L_ESC \<and> c1 \<noteq> NUL then p + 2 else p + 1)"
        have "q \<le> length pt" using c c1 False by (auto simp: q_def)
        then show ?case unfolding Let_def q_def [symmetric]
        proof (rule bind_rd, goal_cases)
          case c2: (1 c2)
          show ?case
            using 1(1) [OF c(1) False c1(1) q_def c2(1)] \<open>q \<le> length pt\<close> by simp
        qed
      qed
    qed simp
  qed
qed

lemma classend_set_safe: "p \<le> length pt \<Longrightarrow> post (classend_set pt p) (\<lambda>ep. p < ep \<and> ep \<le> length pt)"
  using classend_set_defined [of p pt]
  by (auto simp: post_def dest: classend_set_gt split: sum.splits error.splits)

lemma classend_safe:
  assumes "p < length pt"
  shows "post (classend pt p) (\<lambda>ep. p < ep \<and> ep \<le> length pt)"
proof -
  have p: "p \<le> length pt" "p + 1 \<le> length pt" using assms by simp_all
  have set: "post (classend_set pt (if d = CHR ''^'' then p + 2 else p + 1)) (\<lambda>ep. p < ep \<and> ep \<le> length pt)"
    if "d = NUL \<or> p + 1 < length pt" for d
    by (rule post_mono [OF classend_set_safe]) (use that assms in \<open>auto split: if_splits\<close>)
  show ?thesis
    unfolding classend_def
  proof (rule bind_rd [OF p(1)], goal_cases)
    case c: (1 c)
    consider "c = L_ESC" | "c \<noteq> L_ESC" "c = CHR ''[''" | "c \<noteq> L_ESC" "c \<noteq> CHR ''[''" by blast
    then show ?case
    proof cases
      case 1
      show ?thesis unfolding if_P [OF 1] by (rule bind_rd [OF p(2)]) auto
    next
      case 2
      show ?thesis unfolding if_not_P [OF 2(1)] if_P [OF 2(2)] by (rule bind_rd [OF p(2)]) (rule set)
    next
      case 3
      then show ?thesis using assms by simp
    qed
  qed
qed

lemma bracket_loop_safe: "ec \<le> length pt \<Longrightarrow> post (bracket_loop c pt sig p ec) (\<lambda>_. True)"
proof (induction c pt sig p ec rule: bracket_loop.induct)
  case (1 c pt sig p ec)
  show ?case
  proof (cases "p + 1 < ec")
    case True
    show ?thesis
      unfolding bracket_loop.simps [of c pt sig p ec] Let_def if_P [OF True]
    proof (rule bind_rd, goal_cases)
      case (2 x)
      show ?case
      proof (cases "x = L_ESC")
        case x: True
        show ?thesis unfolding if_P [OF x]
          by (rule bind_rd) (use True 1(1) [OF refl True 2(1) x] 1(4) in auto)
      next
        case x: False
        show ?thesis unfolding if_not_P [OF x]
        proof (rule bind_rd, goal_cases)
          case (2 y)
          show ?case
          proof (cases "y = CHR ''-'' \<and> p + 1 + 2 < ec")
            case y: True
            show ?thesis unfolding if_P [OF y]
              by (rule bind_rd) (use y 1(2) [OF refl True \<open>rd pt (p + 1) = Ok x\<close> x 2(1) y] 1(4) in auto)
          next
            case y: False
            show ?thesis unfolding if_not_P [OF y]
              using 1(3) [OF refl True \<open>rd pt (p + 1) = Ok x\<close> x 2(1) y] 1(4) by auto
          qed
        qed (use True 1(4) in auto)
      qed
    qed (use True 1(4) in auto)
  next
    case False
    then show ?thesis by (simp add: bracket_loop.simps [of c pt sig p ec])
  qed
qed

lemma matchbracketclass_safe: "p < length pt \<Longrightarrow> ec \<le> length pt \<Longrightarrow> post (matchbracketclass c pt p ec) (\<lambda>_. True)"
  unfolding matchbracketclass_def by (rule bind_rd) (auto intro: bracket_loop_safe)

lemma singlematch_safe: "p < length pt \<Longrightarrow> ep \<le> length pt \<Longrightarrow> post (singlematch c pt p ep) (\<lambda>_. True)"
  unfolding singlematch_def
  by (rule bind_rd) (auto intro!: bind_rd matchbracketclass_safe)

lemma balance_loop_bounds: "balance_loop src b e cont s = Some s' \<Longrightarrow> s < s' \<and> s' \<le> length src"
proof (induction src b e cont s rule: balance_loop.induct)
  case (1 src b e cont s)
  from 1(4) have s: "s + 1 < length src" by (auto simp: balance_loop.simps [of src b e cont s] Let_def split: if_splits)
  note e = 1(4) [unfolded balance_loop.simps [of src b e cont s] Let_def if_P [OF s]]
  consider "s' = s + 2" | "balance_loop src b e (cont - 1) (s + 1) = Some s'" "src ! (s + 1) = e" "cont - 1 \<noteq> 0"
    | "balance_loop src b e (cont + 1) (s + 1) = Some s'" "src ! (s + 1) \<noteq> e" "src ! (s + 1) = b"
    | "balance_loop src b e cont (s + 1) = Some s'" "src ! (s + 1) \<noteq> e" "src ! (s + 1) \<noteq> b"
    using e by (auto split: if_splits)
  then show ?case
    using s 1(1) [OF refl s] 1(2) [OF refl s] 1(3) [OF refl s] by cases auto
qed

lemma matchbalance_safe:
  assumes "s \<le> length src" "p \<le> length pt"
  shows "post (matchbalance src pt s p) (\<lambda>r. p + 2 \<le> length pt \<and> (\<forall>s'. r = Some s' \<longrightarrow> s \<le> s' \<and> s' \<le> length src))"
  unfolding matchbalance_def
proof (rule bind_rd [OF assms(2)], split if_split, intro conjI impI, simp, rule bind_rd, goal_cases)
  case (2 b e)
  then show ?case
    using balance_loop_bounds [of src b e 1 s] by (auto intro!: bind_rd [OF assms(1)] intro: less_imp_le)
qed auto

lemma expand_count_safe:
  assumes "\<And>c. post (single c) (\<lambda>_. True)"
  shows "s \<le> length src \<Longrightarrow> post (expand_count src single s) (\<lambda>i. s + i \<le> length src)"
  using assms
proof (induction src single s rule: expand_count.induct)
  case (1 src single s)
  show ?case
  proof (cases "s < length src")
    case True
    show ?thesis unfolding expand_count.simps [of src single s] if_P [OF True]
    proof (rule post_bind [OF 1(3)], goal_cases)
      case (1 m)
      show ?case
      proof (cases m)
        case m: True
        have "post (expand_count src single (s + 1)) (\<lambda>i. s + 1 + i \<le> length src)"
          using "1.IH" [OF True 1(1) m] "1.prems" True by simp
        then show ?thesis unfolding if_P [OF m] by (rule post_bind) simp
      qed (use True in simp)
    qed
  next
    case False
    then show ?thesis using 1(2) unfolding expand_count.simps [of src single s] if_not_P [OF False] by simp
  qed
qed

section \<open>Captures\<close>

text \<open>A capture lies in the part of the subject before \<open>s\<close>.\<close>

definition cap_in :: "nat \<Rightarrow> nat \<times> int \<Rightarrow> bool" where
  "cap_in s c \<longleftrightarrow>
     fst c \<le> s \<and> (snd c = CAP_UNFINISHED \<or> snd c = CAP_POSITION \<or> 0 \<le> snd c \<and> int (fst c) + snd c \<le> int s)"

definition caps_inv :: "MatchState \<Rightarrow> nat \<Rightarrow> bool" where
  "caps_inv ms s \<longleftrightarrow>
     s \<le> length (ms_src ms) \<and> length (ms_capture ms) = LUA_MAXCAPTURES \<and> ms_level ms \<le> LUA_MAXCAPTURES \<and>
     (\<forall>i < ms_level ms. cap_in s (ms_capture ms ! i))"

text \<open>What a failed match leaves alone.\<close>

definition caps_same :: "MatchState \<Rightarrow> MatchState \<Rightarrow> bool" where
  "caps_same ms ms1 \<longleftrightarrow>
     ms_src ms1 = ms_src ms \<and> ms_level ms1 = ms_level ms \<and> length (ms_capture ms1) = length (ms_capture ms) \<and>
     take (ms_level ms) (ms_capture ms1) = take (ms_level ms) (ms_capture ms)"

definition match_post :: "MatchState \<Rightarrow> nat \<Rightarrow> MatchState \<times> nat option \<Rightarrow> bool" where
  "match_post ms s r \<longleftrightarrow>
     (case snd r of
        None \<Rightarrow> caps_same ms (fst r)
      | Some e \<Rightarrow> s \<le> e \<and> ms_src (fst r) = ms_src ms \<and> caps_inv (fst r) e)"

lemma cap_in_mono: "cap_in s c \<Longrightarrow> s \<le> s' \<Longrightarrow> cap_in s' c"
  by (auto simp: cap_in_def)

lemma caps_inv_mono: "caps_inv ms s \<Longrightarrow> s \<le> s' \<Longrightarrow> s' \<le> length (ms_src ms) \<Longrightarrow> caps_inv ms s'"
  by (auto simp: caps_inv_def intro: cap_in_mono)

lemma caps_same_refl [simp]: "caps_same ms ms"
  by (simp add: caps_same_def)

lemma caps_same_trans: "caps_same ms ms1 \<Longrightarrow> caps_same ms1 ms2 \<Longrightarrow> caps_same ms ms2"
  by (simp add: caps_same_def)

lemma take_eq_nth: "take n xs = take n ys \<Longrightarrow> i < n \<Longrightarrow> i < length xs \<Longrightarrow> i < length ys \<Longrightarrow> xs ! i = ys ! i"
  by (metis nth_take)

lemma caps_same_nth:
  "caps_same ms ms1 \<Longrightarrow> i < ms_level ms \<Longrightarrow> i < length (ms_capture ms) \<Longrightarrow> ms_capture ms1 ! i = ms_capture ms ! i"
  by (auto simp: caps_same_def intro: take_eq_nth)

lemma caps_inv_same: "caps_inv ms s \<Longrightarrow> caps_same ms ms1 \<Longrightarrow> caps_inv ms1 s"
  using caps_same_nth [of ms ms1] by (auto simp: caps_inv_def caps_same_def)

lemma match_post_simps [simp]:
  "match_post ms s (ms1, None) \<longleftrightarrow> caps_same ms ms1"
  "match_post ms s (ms1, Some e) \<longleftrightarrow> s \<le> e \<and> ms_src ms1 = ms_src ms \<and> caps_inv ms1 e"
  by (simp_all add: match_post_def)

lemma match_post_mono: "match_post ms s' r \<Longrightarrow> s \<le> s' \<Longrightarrow> match_post ms s r"
  by (cases r; cases "snd r") (auto simp: match_post_def)

lemma match_post_same: "caps_same ms ms1 \<Longrightarrow> match_post ms1 s r \<Longrightarrow> match_post ms s r"
  by (cases r; cases "snd r") (auto simp: match_post_def caps_same_def)

text \<open>A continuation that is safe on the subject \<open>src\<close>.\<close>

definition cont_safe :: "string \<Rightarrow> (MatchState \<Rightarrow> nat \<Rightarrow> match_result) \<Rightarrow> bool" where
  "cont_safe src k \<longleftrightarrow> (\<forall>ms s. ms_src ms = src \<longrightarrow> caps_inv ms s \<longrightarrow> post (k ms s) (match_post ms s))"

lemma cont_safeD: "cont_safe (ms_src ms) k \<Longrightarrow> caps_inv ms s \<Longrightarrow> post (k ms s) (match_post ms s)"
  by (simp add: cont_safe_def)

text \<open>Trying \<open>k\<close>, and another match from the same place where it fails.\<close>

lemma bind_try:
  assumes "cont_safe (ms_src ms) k" "caps_inv ms s'" "s \<le> s'"
    and "\<And>ms1. caps_same ms ms1 \<Longrightarrow> post (g ms1) (match_post ms1 s)"
  shows "post (rbind (k ms s') (\<lambda>(ms1, res). case res of Some e \<Rightarrow> Ok (ms1, Some e) | None \<Rightarrow> g ms1)) (match_post ms s)"
proof (rule post_bind [OF cont_safeD [OF assms(1, 2)]])
  fix r assume r: "match_post ms s' r"
  show "post (case r of (ms1, res) \<Rightarrow> (case res of Some e \<Rightarrow> Ok (ms1, Some e) | None \<Rightarrow> g ms1)) (match_post ms s)"
  proof (cases r)
    case (Pair ms1 res)
    show ?thesis
    proof (cases res)
      case None
      then have "caps_same ms ms1" using r Pair by simp
      then show ?thesis using assms(4) [of ms1]
        by (auto simp: Pair None intro: post_mono match_post_same)
    next
      case (Some e)
      then show ?thesis using r Pair assms(3) by simp
    qed
  qed
qed

lemma max_try_safe:
  assumes "cont_safe (ms_src ms) k"
  shows "caps_inv ms s \<Longrightarrow> s + i \<le> length (ms_src ms) \<Longrightarrow> post (max_try k ms s i) (match_post ms s)"
  using assms
proof (induction i arbitrary: ms)
  case (Suc i)
  have "caps_inv ms (s + Suc i)" using Suc.prems(1, 2) by (intro caps_inv_mono [OF Suc.prems(1)]) auto
  then show ?case unfolding max_try.simps
  proof (rule bind_try [OF Suc.prems(3)])
    fix ms1 assume same: "caps_same ms ms1"
    then have "ms_src ms1 = ms_src ms" by (simp add: caps_same_def)
    then show "post (max_try k ms1 s i) (match_post ms1 s)"
      using caps_inv_same [OF Suc.prems(1) same] Suc.prems(2, 3) by (intro Suc.IH) auto
  qed simp
qed (simp add: cont_safeD)

lemma max_expand_safe:
  assumes "cont_safe (ms_src ms) k" "caps_inv ms s" "\<And>c. post (single c) (\<lambda>_. True)"
  shows "post (max_expand k ms s single) (match_post ms s)"
  unfolding max_expand_def
  by (rule post_bind [OF expand_count_safe [OF assms(3)]])
    (use assms(2) in \<open>auto simp: caps_inv_def intro!: max_try_safe [OF assms(1, 2)]\<close>)

lemma min_expand_safe:
  assumes "\<And>c. post (single c) (\<lambda>_. True)"
  shows "cont_safe src k \<Longrightarrow> ms_src ms = src \<Longrightarrow> caps_inv ms s \<Longrightarrow>
    post (min_expand k src ms s single) (match_post ms s)"
proof (induction "length src - s" arbitrary: ms s rule: less_induct)
  case 1: (less s)
  have k: "cont_safe (ms_src ms) k" using 1(2, 3) by simp
  show ?case
    unfolding min_expand.simps [of k src ms s single]
  proof (rule bind_try [OF k 1(4) order_refl])
    fix ms1 assume same: "caps_same ms ms1"
    then have src: "ms_src ms1 = src" using 1(3) by (simp add: caps_same_def)
    show "post (if s < length src
           then rbind (single (uchar (src ! s))) (\<lambda>m. if m then min_expand k src ms1 (s + 1) single else Ok (ms1, None))
           else Ok (ms1, None)) (match_post ms1 s)"
    proof (cases "s < length src")
      case True
      show ?thesis unfolding if_P [OF True]
      proof (rule post_bind [OF assms])
        fix m
        show "post (if m then min_expand k src ms1 (s + 1) single else Ok (ms1, None)) (match_post ms1 s)"
        proof (cases m)
          case m: True
          have inv: "caps_inv ms1 (s + 1)"
            using caps_inv_mono [OF caps_inv_same [OF 1(4) same], of "s + 1"] True src by simp
          have "post (min_expand k src ms1 (s + 1) single) (match_post ms1 (s + 1))"
            using True by (intro 1(1) [OF _ 1(2) src inv]) simp
          then show ?thesis unfolding if_P [OF m] by (rule post_mono) (erule match_post_mono, simp)
        qed simp
      qed
    qed simp
  qed
qed

lemma start_capture_safe:
  assumes "cont_safe (ms_src ms) k" "caps_inv ms s" "what = CAP_UNFINISHED \<or> what = CAP_POSITION"
  shows "post (start_capture k ms s what) (match_post ms s)"
proof (cases "LUA_MAXCAPTURES \<le> ms_level ms")
  case False
  let ?l = "ms_level ms"
  let ?ms = "ms\<lparr>ms_capture := (ms_capture ms)[?l := (s, what)], ms_level := ?l + 1\<rparr>"
  have len: "?l < length (ms_capture ms)" using assms(2) False by (simp add: caps_inv_def)
  have inv: "caps_inv ?ms s"
    using assms(2, 3) False by (auto simp: caps_inv_def nth_list_update less_Suc_eq cap_in_def)
  have k: "post (k ?ms s) (match_post ?ms s)" using cont_safeD [of ?ms k s] assms(1) inv by simp
  show ?thesis
    unfolding start_capture_def Let_def if_not_P [OF False] aset_in [OF len] rbind_simps
  proof (rule post_bind [OF k])
    fix r assume r: "match_post ?ms s r"
    obtain ms1 res where [simp]: "r = (ms1, res)" by (cases r)
    have "caps_same ms (ms1\<lparr>ms_level := ms_level ms1 - 1\<rparr>)" if "res = None"
    proof -
      have same: "caps_same ?ms ms1" using r that by simp
      have "take ?l (ms_capture ms1) = take ?l (ms_capture ms)"
        using arg_cong [of _ _ "take ?l", OF same [unfolded caps_same_def, THEN conjunct2, THEN conjunct2, THEN conjunct2]]
        by simp
      then show ?thesis using same by (simp add: caps_same_def)
    qed
    then show "post (case r of (ms1, res) \<Rightarrow> Ok (if res = None then ms1\<lparr>ms_level := ms_level ms1 - 1\<rparr> else ms1, res)) (match_post ms s)"
      using r by (cases res) simp_all
  qed
qed (simp add: start_capture_def)

lemma to_close_Ok:
  "to_close caps n = Ok l \<Longrightarrow> l < n \<and> l < length caps \<and> snd (caps ! l) = CAP_UNFINISHED \<and>
     (\<forall>i. l < i \<longrightarrow> i < n \<longrightarrow> snd (caps ! i) \<noteq> CAP_UNFINISHED)"
proof (induction n)
  case (Suc n)
  obtain c where c: "aget caps n = Ok c" using Suc.prems by (auto elim: rbind_OkE)
  then have n: "n < length caps" "c = caps ! n" by (simp_all add: aget_Ok_iff)
  show ?case
  proof (cases "snd c = CAP_UNFINISHED")
    case False
    then have IH: "l < n" "l < length caps" "snd (caps ! l) = CAP_UNFINISHED" "\<forall>i. l < i \<longrightarrow> i < n \<longrightarrow> snd (caps ! i) \<noteq> CAP_UNFINISHED"
      using Suc.IH Suc.prems c by simp_all
    have "snd (caps ! i) \<noteq> CAP_UNFINISHED" if "l < i" "i < Suc n" for i
      using IH(4) that False n(2) by (cases "i = n") auto
    then show ?thesis using IH by simp
  qed (use Suc.prems c n in auto)
qed simp

lemma to_close_safe: "n \<le> length caps \<Longrightarrow> post (to_close caps n) (\<lambda>_. True)"
  by (induction n) simp_all

lemma capture_to_close_safe:
  "caps_inv ms s \<Longrightarrow> post (capture_to_close ms) (\<lambda>l. l < ms_level ms \<and> l < length (ms_capture ms) \<and>
     snd (ms_capture ms ! l) = CAP_UNFINISHED)"
  using to_close_safe [of "ms_level ms" "ms_capture ms"] to_close_Ok [of "ms_capture ms" "ms_level ms"]
  by (auto simp: capture_to_close_def caps_inv_def post_def split: sum.splits error.splits)

lemma end_capture_safe:
  assumes "cont_safe (ms_src ms) k" "caps_inv ms s"
  shows "post (end_capture k ms s) (match_post ms s)"
  unfolding end_capture_def
proof (rule post_bind [OF capture_to_close_safe [OF assms(2)]], elim conjE)
  fix l assume l: "l < ms_level ms" "l < length (ms_capture ms)" "snd (ms_capture ms ! l) = CAP_UNFINISHED"
  let ?c = "ms_capture ms ! l"
  let ?ms = "ms\<lparr>ms_capture := (ms_capture ms)[l := (fst ?c, int s - int (fst ?c))]\<rparr>"
  have le: "fst ?c \<le> s" using assms(2) l(1) by (simp add: caps_inv_def cap_in_def)
  have inv: "caps_inv ?ms s"
    using assms(2) le l(2) by (auto simp: caps_inv_def nth_list_update cap_in_def)
  have k: "post (k ?ms s) (match_post ?ms s)" using cont_safeD [of ?ms k s] assms(1) inv by simp
  show "post (rbind (aget (ms_capture ms) l) (\<lambda>c.
     rbind (aset (ms_capture ms) l (fst c, int s - int (fst c))) (\<lambda>caps.
     rbind (k (ms\<lparr>ms_capture := caps\<rparr>) s) (\<lambda>(ms1, res).
       if res = None
       then rbind (aget (ms_capture ms1) l) (\<lambda>c1.
            rbind (aset (ms_capture ms1) l (fst c1, CAP_UNFINISHED)) (\<lambda>caps1. Ok (ms1\<lparr>ms_capture := caps1\<rparr>, None)))
       else Ok (ms1, res))))) (match_post ms s)"
    unfolding aget_in [OF l(2)] aset_in [OF l(2)] rbind_simps
  proof (rule post_bind [OF k], goal_cases)
    case (1 r)
    obtain ms1 res where [simp]: "r = (ms1, res)" by (cases r)
    show ?case
    proof (cases res)
      case None
      then have same: "caps_same ?ms ms1" using 1(2) by simp
      then have len: "length (ms_capture ms1) = length (ms_capture ms)" by (simp add: caps_same_def)
      have fst: "fst (ms_capture ms1 ! l) = fst ?c" using caps_same_nth [OF same] l by simp
      have "take (ms_level ms) ((ms_capture ms1)[l := (fst ?c, CAP_UNFINISHED)]) = take (ms_level ms) (ms_capture ms)"
      proof (rule nth_equalityI, goal_cases)
        case (2 i)
        then show ?case using caps_same_nth [OF same, of i] l len
          by (cases "i = l") (auto simp: prod_eq_iff)
      qed (simp add: len)
      then show ?thesis using None same fst l(2) len by (simp add: caps_same_def)
    next
      case (Some e)
      then show ?thesis using 1(2) by simp
    qed
  qed
qed

lemma match_capture_safe:
  assumes "caps_inv ms s"
  shows "post (match_capture ms s d) (\<lambda>r. \<forall>s1. r = Some s1 \<longrightarrow> s \<le> s1 \<and> s1 \<le> length (ms_src ms))"
proof -
  have s: "s \<le> length (ms_src ms)" using assms by (simp add: caps_inv_def)
  have "post (check_capture ms d) (\<lambda>l. l < length (ms_capture ms))"
    using assms by (auto simp: check_capture_def Let_def caps_inv_def)
  then show ?thesis
    unfolding match_capture_def by (rule post_bind) (use s in \<open>auto simp: Let_def\<close>)
qed

section \<open>The matcher\<close>

text \<open>A continuation for every place of the pattern behind \<open>p\<close>.\<close>

definition conts_safe :: "string \<Rightarrow> string \<Rightarrow> nat \<Rightarrow> (MatchState \<Rightarrow> nat \<Rightarrow> nat \<Rightarrow> match_result) \<Rightarrow> bool" where
  "conts_safe src pt p k \<longleftrightarrow> (\<forall>q. p < q \<longrightarrow> q \<le> length pt \<longrightarrow> cont_safe src (\<lambda>ms s. k ms s q))"

lemma conts_safeD: "conts_safe (ms_src ms) pt p k \<Longrightarrow> p < q \<Longrightarrow> q \<le> length pt \<Longrightarrow> caps_inv ms s \<Longrightarrow> post (k ms s q) (match_post ms s)"
  unfolding conts_safe_def using cont_safeD [of ms "\<lambda>ms s. k ms s q" s] by blast

lemma match_item_safe:
  assumes "conts_safe (ms_src ms) pt p k" "caps_inv ms s" "p < length pt"
  shows "post (match_item k pt ms s p) (match_post ms s)"
  unfolding match_item_def
proof (rule post_bind [OF classend_safe [OF assms(3)]], elim conjE)
  fix ep assume ep: "p < ep" "ep \<le> length pt"
  let ?single = "\<lambda>c. singlematch c pt p ep"
  have single: "\<And>c. post (?single c) (\<lambda>_. True)" by (rule singlematch_safe [OF assms(3) ep(2)])
  have m: "post (if s < length (ms_src ms) then ?single (uchar (ms_src ms ! s)) else Ok False) (\<lambda>m. m \<longrightarrow> s < length (ms_src ms))"
    by (auto intro: post_mono [OF single])
  have fwd: "caps_inv ms (s + 1)" if "s < length (ms_src ms)"
    using that by (intro caps_inv_mono [OF assms(2)]) auto
  show "post (let single = ?single in
       rbind (if s < length (ms_src ms) then single (uchar (ms_src ms ! s)) else Ok False) (\<lambda>m.
       rbind (rd pt ep) (\<lambda>x.
         if x = CHR ''?'' then
           (if m
            then rbind (k ms (s + 1) (ep + 1)) (\<lambda>(ms1, res). case res of Some e \<Rightarrow> Ok (ms1, Some e) | None \<Rightarrow> k ms1 s (ep + 1))
            else k ms s (ep + 1))
         else if x = CHR ''*'' then max_expand (\<lambda>ms s. k ms s (ep + 1)) ms s single
         else if x = CHR ''+'' then (if m then max_expand (\<lambda>ms s. k ms s (ep + 1)) ms (s + 1) single else Ok (ms, None))
         else if x = CHR ''-'' then min_expand (\<lambda>ms s. k ms s (ep + 1)) (ms_src ms) ms s single
         else if \<not> m then Ok (ms, None) else k ms (s + 1) ep))) (match_post ms s)"
    unfolding Let_def
  proof (rule post_bind [OF m], rule bind_rd [OF ep(2)], goal_cases)
    case (1 m x)
    note m = 1(2)
    have k: "cont_safe (ms_src ms) (\<lambda>ms s. k ms s q)" if "ep \<le> q" "q \<le> length pt" for q
      using assms(1) that ep by (simp add: conts_safe_def)
    have k1: "cont_safe (ms_src ms) (\<lambda>ms s. k ms s (ep + 1))" if "x \<noteq> NUL" using k [of "ep + 1"] that 1(4) by auto
    consider (q) "x = CHR ''?''" | (st) "x = CHR ''*''" | (pl) "x = CHR ''+''" | (mi) "x = CHR ''-''"
      | (d) "x \<noteq> CHR ''?''" "x \<noteq> CHR ''*''" "x \<noteq> CHR ''+''" "x \<noteq> CHR ''-''" by blast
    then show ?case
    proof cases
      case q
      then have k1: "cont_safe (ms_src ms) (\<lambda>ms s. k ms s (ep + 1))" using k1 by simp
      show ?thesis
      proof (cases m)
        case True
        have "post (rbind (k ms (s + 1) (ep + 1)) (\<lambda>(ms1, res). case res of Some e \<Rightarrow> Ok (ms1, Some e) | None \<Rightarrow> k ms1 s (ep + 1))) (match_post ms s)"
        proof (rule bind_try [OF k1], goal_cases)
          case (3 ms1)
          show ?case
            using k1 caps_inv_same [OF assms(2) 3] 3 cont_safeD [of ms1 "\<lambda>ms s. k ms s (ep + 1)" s]
            by (simp add: caps_same_def)
        qed (use m True fwd in auto)
        then show ?thesis unfolding if_P [OF q] if_P [OF True] .
      next
        case False
        then show ?thesis using q cont_safeD [OF k1 assms(2)] by simp
      qed
    next
      case st
      then show ?thesis using max_expand_safe [OF k1 assms(2) single] by simp
    next
      case pl
      show ?thesis
      proof (cases m)
        case True
        have "post (max_expand (\<lambda>ms s. k ms s (ep + 1)) ms (s + 1) ?single) (match_post ms (s + 1))"
          using pl m True by (intro max_expand_safe k1 fwd single) simp_all
        then have "post (max_expand (\<lambda>ms s. k ms s (ep + 1)) ms (s + 1) ?single) (match_post ms s)"
          by (rule post_mono) (erule match_post_mono, simp)
        then show ?thesis using pl True by simp
      qed (use pl in simp)
    next
      case mi
      then show ?thesis using min_expand_safe [OF single k1 refl assms(2)] by simp
    next
      case d
      show ?thesis
      proof (cases m)
        case True
        have "post (k ms (s + 1) ep) (match_post ms (s + 1))"
          using cont_safeD [OF k [OF order_refl ep(2)] fwd] m True by simp
        then have "post (k ms (s + 1) ep) (match_post ms s)"
          by (rule post_mono) (erule match_post_mono, simp)
        then show ?thesis using d True by simp
      qed (use d in simp)
    qed
  qed
qed

lemma match_frontier_safe:
  assumes "conts_safe (ms_src ms) pt p k" "caps_inv ms s" "p \<le> length pt"
  shows "post (match_frontier k pt ms s p) (match_post ms s)"
  unfolding match_frontier_def
proof (rule bind_rd [OF assms(3)], goal_cases)
  case (1 x)
  have s: "s \<le> length (ms_src ms)" using assms(2) by (simp add: caps_inv_def)
  show ?case
  proof (cases "x = CHR ''[''")
    case True
    then have p: "p < length pt" using 1(2) by auto
    have "post (rbind (classend pt p) (\<lambda>ep.
         rbind (if s = 0 then Ok NUL else rd (ms_src ms) (s - 1)) (\<lambda>previous.
         rbind (matchbracketclass (uchar previous) pt p (ep - 1)) (\<lambda>b1.
           if b1 then Ok (ms, None)
           else rbind (rd (ms_src ms) s) (\<lambda>y. rbind (matchbracketclass (uchar y) pt p (ep - 1)) (\<lambda>b2.
             if \<not> b2 then Ok (ms, None) else k ms s ep)))))) (match_post ms s)"
    proof (rule post_bind [OF classend_safe [OF p]], elim conjE, goal_cases)
      case (1 ep)
      have m: "\<And>c. post (matchbracketclass c pt p (ep - 1)) (\<lambda>_. True)"
        using 1(3) by (intro matchbracketclass_safe p) simp
      have prev: "post (if s = 0 then Ok NUL else rd (ms_src ms) (s - 1)) (\<lambda>_. True)"
        using s by (auto simp: rd_def)
      show ?case
      proof (rule post_bind [OF prev], rule post_bind [OF m], goal_cases)
        case (1 previous b1)
        show ?case
        proof (cases b1)
          case False
          show ?thesis unfolding if_not_P [OF False]
            by (rule bind_rd [OF s], rule post_bind [OF m])
              (use conts_safeD [OF assms(1) \<open>p < ep\<close> \<open>ep \<le> length pt\<close> assms(2)] in simp)
        qed simp
      qed
    qed
    then show ?thesis using True by simp
  qed simp
qed

lemma match_post_safe:
  "caps_inv ms s \<Longrightarrow> p \<le> length pt \<Longrightarrow> post (match pt ms s p) (match_post ms s)"
proof (induction "length pt - p" arbitrary: ms s p rule: less_induct)
  case less
  have k: "conts_safe (ms_src ms) pt p (\<lambda>ms s p'. match pt ms s p')"
    using less.hyps by (auto simp: conts_safe_def cont_safe_def)
  have at: "cont_safe (ms_src ms) (\<lambda>ms s. match pt ms s q)" if "p < q" "q \<le> length pt" for q
    using k that by (simp add: conts_safe_def)
  have inv: "caps_inv ms s" and s: "s \<le> length (ms_src ms)" using less.prems by (auto simp: caps_inv_def)
  show ?case
    unfolding match.simps [of pt ms s p]
  proof (rule bind_rd [OF less.prems(2)], goal_cases)
    case c: (1 c)
    show ?case
    proof (cases "c = NUL")
      case False
      then have p: "p < length pt" and p1: "p + 1 \<le> length pt" using c(2) by auto
      have item: "post (match_item (\<lambda>ms s p'. match pt ms s p') pt ms s p) (match_post ms s)"
        by (rule match_item_safe [OF k inv p])
      consider (op) "c = CHR ''(''" | (cl) "c = CHR '')''" | (esc) "c = L_ESC" | (d) "c = CHR ''$''"
        | (it) "c \<noteq> CHR ''(''" "c \<noteq> CHR '')''" "c \<noteq> L_ESC" "c \<noteq> CHR ''$''" by blast
      then show ?thesis
      proof cases
        case op
        have "post (rbind (rd pt (p + 1)) (\<lambda>c1.
           if c1 = CHR '')'' then start_capture (\<lambda>ms s. match pt ms s (p + 2)) ms s CAP_POSITION
           else start_capture (\<lambda>ms s. match pt ms s (p + 1)) ms s CAP_UNFINISHED)) (match_post ms s)"
        proof (rule bind_rd [OF p1], goal_cases)
          case (1 c1)
          show ?case
            using start_capture_safe [OF at [of "p + 1"] inv] start_capture_safe [OF at [of "p + 2"] inv] 1(2) p1
            by auto
        qed
        then show ?thesis using op by simp
      next
        case cl
        then show ?thesis using end_capture_safe [OF at inv, of "p + 1"] p1 by simp
      next
        case esc
        have "post (rbind (rd pt (p + 1)) (\<lambda>c1.
           if c1 = CHR ''b'' then
             rbind (matchbalance (ms_src ms) pt s (p + 2)) (\<lambda>r.
               case r of None \<Rightarrow> Ok (ms, None) | Some s1 \<Rightarrow> match pt ms s1 (p + 4))
           else if c1 = CHR ''f'' then match_frontier (\<lambda>ms s p'. match pt ms s p') pt ms s (p + 2)
           else if isdigit_c (uchar c1) then
             rbind (match_capture ms s (uchar c1)) (\<lambda>r.
               case r of None \<Rightarrow> Ok (ms, None) | Some s1 \<Rightarrow> match pt ms s1 (p + 2))
           else match_item (\<lambda>ms s p'. match pt ms s p') pt ms s p)) (match_post ms s)"
        proof (rule bind_rd [OF p1], goal_cases)
          case c1: (1 c1)
          have to: "post (case r of None \<Rightarrow> Ok (ms, None) | Some s1 \<Rightarrow> match pt ms s1 q) (match_post ms s)"
            if "\<forall>s1. r = Some s1 \<longrightarrow> s \<le> s1 \<and> s1 \<le> length (ms_src ms)" "p < q" "q \<le> length pt" for r q
          proof (cases r)
            case (Some s1)
            then have "post (match pt ms s1 q) (match_post ms s1)"
              using that cont_safeD [OF at [OF that(2, 3)] caps_inv_mono [OF inv, of s1]] by simp
            then have "post (match pt ms s1 q) (match_post ms s)"
              by (rule post_mono) (use that Some in \<open>auto elim: match_post_mono\<close>)
            then show ?thesis using Some by simp
          qed simp
          consider (b) "c1 = CHR ''b''" | (f) "c1 = CHR ''f''" | (g) "c1 \<noteq> CHR ''b''" "c1 \<noteq> CHR ''f''" "isdigit_c (uchar c1)"
            | (i) "c1 \<noteq> CHR ''b''" "c1 \<noteq> CHR ''f''" "\<not> isdigit_c (uchar c1)" by blast
          then show ?case
          proof cases
            case b
            then have p2: "p + 2 \<le> length pt" using c1(2) by auto
            show ?thesis unfolding if_P [OF b]
              by (rule post_bind [OF matchbalance_safe [OF s p2]], rule to) auto
          next
            case f
            then have p2: "p + 2 \<le> length pt" using c1(2) by auto
            have "conts_safe (ms_src ms) pt (p + 2) (\<lambda>ms s p'. match pt ms s p')"
              using k by (simp add: conts_safe_def)
            then show ?thesis using f match_frontier_safe [OF _ inv p2] by simp
          next
            case g
            then have p2: "p + 2 \<le> length pt" using c1(2) by (auto simp: isdigit_c_def uchar_def)
            show ?thesis unfolding if_not_P [OF g(1)] if_not_P [OF g(2)] if_P [OF g(3)]
              by (rule post_bind [OF match_capture_safe [OF inv]], rule to) (use p2 in auto)
          next
            case i
            show ?thesis unfolding if_not_P [OF i(1)] if_not_P [OF i(2)] if_not_P [OF i(3)] by (rule item)
          qed
        qed
        then show ?thesis using esc by simp
      next
        case d
        have "post (rbind (rd pt (p + 1)) (\<lambda>c1.
           if c1 = NUL then Ok (ms, if s = length (ms_src ms) then Some s else None)
           else match_item (\<lambda>ms s p'. match pt ms s p') pt ms s p)) (match_post ms s)"
          by (rule bind_rd [OF p1]) (use item inv in \<open>auto simp: match_post_def\<close>)
        then show ?thesis using d by simp
      next
        case it
        then show ?thesis using False item by simp
      qed
    qed (use inv in simp)
  qed
qed

end
