(* ===== verification/LuaPatternSpec.thy ===== *)
theory LuaPatternSpec
  imports LuaPatternProps
begin

text \<open>
  What a pattern means, without backtracking: \<open>patm src pt caps s p caps' e\<close> says that the pattern
  from \<open>p\<close> on can match the subject from \<open>s\<close> to \<open>e\<close>, when \<open>caps\<close> are the captures so far and \<open>caps'\<close> those
  at the end. The captures are a list that grows, where the code has one array that
  it overwrites and restores. The matcher of the code finds a match whenever there is one,
  and reports no other. Plain search finds the first occurrence.
\<close>

section \<open>The meaning of patterns\<close>

definition single_at :: "string \<Rightarrow> string \<Rightarrow> nat \<Rightarrow> nat \<Rightarrow> nat \<Rightarrow> bool" where
  "single_at src pt p ep s \<longleftrightarrow> s < length src \<and> singlematch (uchar (src ! s)) pt p ep = Ok True"

text \<open>The places where the pattern has a single character item.\<close>

definition is_item :: "string \<Rightarrow> nat \<Rightarrow> bool" where
  "is_item pt p \<longleftrightarrow>
     (case rd pt p of
        Inl _ \<Rightarrow> False
      | Inr c \<Rightarrow>
          c \<noteq> NUL \<and> c \<noteq> CHR ''('' \<and> c \<noteq> CHR '')'' \<and>
          (c = L_ESC \<longrightarrow> (\<exists>c1. rd pt (p + 1) = Ok c1 \<and> c1 \<noteq> CHR ''b'' \<and> c1 \<noteq> CHR ''f'' \<and> \<not> isdigit_c (uchar c1))) \<and>
          (c = CHR ''$'' \<longrightarrow> rd pt (p + 1) \<noteq> Ok NUL))"

definition is_suffix :: "char \<Rightarrow> bool" where
  "is_suffix x \<longleftrightarrow> x = CHR ''?'' \<or> x = CHR ''*'' \<or> x = CHR ''+'' \<or> x = CHR ''-''"

text \<open>The numbers of repetitions that a suffix allows.\<close>

definition reps :: "char \<Rightarrow> nat \<Rightarrow> bool" where
  "reps x n \<longleftrightarrow>
     (if x = CHR ''?'' then n \<le> 1 else if x = CHR ''*'' \<or> x = CHR ''-'' then True
      else if x = CHR ''+'' then 1 \<le> n else n = 1)"

definition frontier_at :: "string \<Rightarrow> string \<Rightarrow> nat \<Rightarrow> nat \<Rightarrow> nat \<Rightarrow> bool" where
  "frontier_at src pt s p ep \<longleftrightarrow>
     s \<le> length src \<and> rd pt p = Ok (CHR ''['') \<and> classend pt p = Ok ep \<and>
     matchbracketclass (uchar (if s = 0 then NUL else src ! (s - 1))) pt p (ep - 1) = Ok False \<and>
     matchbracketclass (uchar (if s = length src then NUL else src ! s)) pt p (ep - 1) = Ok True"

inductive patm :: "string \<Rightarrow> string \<Rightarrow> (nat \<times> int) list \<Rightarrow> nat \<Rightarrow> nat \<Rightarrow> (nat \<times> int) list \<Rightarrow> nat \<Rightarrow> bool" for src pt where
  patm_end: "rd pt p = Ok NUL \<Longrightarrow> patm src pt caps s p caps s"
| patm_position: "rd pt p = Ok (CHR ''('') \<Longrightarrow> rd pt (p + 1) = Ok (CHR '')'') \<Longrightarrow> length caps < LUA_MAXCAPTURES \<Longrightarrow>
    patm src pt (caps @ [(s, CAP_POSITION)]) s (p + 2) caps' e \<Longrightarrow> patm src pt caps s p caps' e"
| patm_open: "rd pt p = Ok (CHR ''('') \<Longrightarrow> rd pt (p + 1) \<noteq> Ok (CHR '')'') \<Longrightarrow> length caps < LUA_MAXCAPTURES \<Longrightarrow>
    patm src pt (caps @ [(s, CAP_UNFINISHED)]) s (p + 1) caps' e \<Longrightarrow> patm src pt caps s p caps' e"
| patm_close: "rd pt p = Ok (CHR '')'') \<Longrightarrow> to_close caps (length caps) = Ok l \<Longrightarrow>
    patm src pt (caps[l := (fst (caps ! l), int s - int (fst (caps ! l)))]) s (p + 1) caps' e \<Longrightarrow> patm src pt caps s p caps' e"
| patm_balance: "rd pt p = Ok L_ESC \<Longrightarrow> rd pt (p + 1) = Ok (CHR ''b'') \<Longrightarrow> matchbalance src pt s (p + 2) = Ok (Some s1) \<Longrightarrow>
    patm src pt caps s1 (p + 4) caps' e \<Longrightarrow> patm src pt caps s p caps' e"
| patm_frontier: "rd pt p = Ok L_ESC \<Longrightarrow> rd pt (p + 1) = Ok (CHR ''f'') \<Longrightarrow> frontier_at src pt s (p + 2) ep \<Longrightarrow>
    patm src pt caps s ep caps' e \<Longrightarrow> patm src pt caps s p caps' e"
| patm_back: "rd pt p = Ok L_ESC \<Longrightarrow> rd pt (p + 1) = Ok d \<Longrightarrow> isdigit_c (uchar d) \<Longrightarrow>
    match_capture \<lparr>ms_src = src, ms_level = length caps, ms_capture = caps\<rparr> s (uchar d) = Ok (Some s1) \<Longrightarrow>
    patm src pt caps s1 (p + 2) caps' e \<Longrightarrow> patm src pt caps s p caps' e"
| patm_anchor: "rd pt p = Ok (CHR ''$'') \<Longrightarrow> rd pt (p + 1) = Ok NUL \<Longrightarrow> s = length src \<Longrightarrow> patm src pt caps s p caps s"
| patm_item: "is_item pt p \<Longrightarrow> classend pt p = Ok ep \<Longrightarrow> rd pt ep = Ok x \<Longrightarrow> reps x n \<Longrightarrow>
    (\<forall>i < n. single_at src pt p ep (s + i)) \<Longrightarrow>
    patm src pt caps (s + n) (if is_suffix x then ep + 1 else ep) caps' e \<Longrightarrow> patm src pt caps s p caps' e"

lemma isdigit_c_not: "isdigit_c (uchar c) \<Longrightarrow> c \<noteq> CHR ''b'' \<and> c \<noteq> CHR ''f''"
  by (auto simp: isdigit_c_def uchar_def)

lemma patm_end_iff: "rd pt p = Ok NUL \<Longrightarrow> patm src pt caps s p v e \<longleftrightarrow> v = caps \<and> e = s"
  by (subst patm.simps) (auto simp: is_item_def)

lemma patm_position_iff:
  "rd pt p = Ok (CHR ''('') \<Longrightarrow> rd pt (p + 1) = Ok (CHR '')'') \<Longrightarrow> length caps < LUA_MAXCAPTURES \<Longrightarrow>
   patm src pt caps s p v e \<longleftrightarrow> patm src pt (caps @ [(s, CAP_POSITION)]) s (p + 2) v e"
  by (subst patm.simps) (auto simp: is_item_def)

lemma patm_open_iff:
  "rd pt p = Ok (CHR ''('') \<Longrightarrow> rd pt (p + 1) = Ok c1 \<Longrightarrow> c1 \<noteq> CHR '')'' \<Longrightarrow> length caps < LUA_MAXCAPTURES \<Longrightarrow>
   patm src pt caps s p v e \<longleftrightarrow> patm src pt (caps @ [(s, CAP_UNFINISHED)]) s (p + 1) v e"
  by (subst patm.simps) (auto simp: is_item_def)

lemma patm_close_iff:
  "rd pt p = Ok (CHR '')'') \<Longrightarrow> to_close caps (length caps) = Ok l \<Longrightarrow>
   patm src pt caps s p v e \<longleftrightarrow> patm src pt (caps[l := (fst (caps ! l), int s - int (fst (caps ! l)))]) s (p + 1) v e"
  by (subst patm.simps) (auto simp: is_item_def)

lemma patm_balance_iff:
  "rd pt p = Ok L_ESC \<Longrightarrow> rd pt (p + 1) = Ok (CHR ''b'') \<Longrightarrow> matchbalance src pt s (p + 2) = Ok r \<Longrightarrow>
   patm src pt caps s p v e \<longleftrightarrow> (\<exists>s1. r = Some s1 \<and> patm src pt caps s1 (p + 4) v e)"
  by (subst patm.simps) (auto simp: is_item_def isdigit_c_def uchar_def)

lemma patm_frontier_iff:
  "rd pt p = Ok L_ESC \<Longrightarrow> rd pt (p + 1) = Ok (CHR ''f'') \<Longrightarrow>
   patm src pt caps s p v e \<longleftrightarrow> (\<exists>ep. frontier_at src pt s (p + 2) ep \<and> patm src pt caps s ep v e)"
  by (subst patm.simps) (auto simp: is_item_def isdigit_c_def uchar_def)

lemma patm_back_iff:
  "rd pt p = Ok L_ESC \<Longrightarrow> rd pt (p + 1) = Ok d \<Longrightarrow> isdigit_c (uchar d) \<Longrightarrow>
   match_capture \<lparr>ms_src = src, ms_level = length caps, ms_capture = caps\<rparr> s (uchar d) = Ok r \<Longrightarrow>
   patm src pt caps s p v e \<longleftrightarrow> (\<exists>s1. r = Some s1 \<and> patm src pt caps s1 (p + 2) v e)"
  by (subst patm.simps) (auto simp: is_item_def dest: isdigit_c_not)

lemma patm_anchor_iff:
  "rd pt p = Ok (CHR ''$'') \<Longrightarrow> rd pt (p + 1) = Ok NUL \<Longrightarrow>
   patm src pt caps s p v e \<longleftrightarrow> s = length src \<and> v = caps \<and> e = s"
  by (subst patm.simps) (auto simp: is_item_def)

lemma is_item_not:
  "is_item pt p \<Longrightarrow> rd pt p \<noteq> Ok NUL \<and> rd pt p \<noteq> Ok (CHR ''('') \<and> rd pt p \<noteq> Ok (CHR '')'')"
  "is_item pt p \<Longrightarrow> rd pt p = Ok L_ESC \<Longrightarrow>
     rd pt (p + 1) \<noteq> Ok (CHR ''b'') \<and> rd pt (p + 1) \<noteq> Ok (CHR ''f'') \<and> (rd pt (p + 1) = Ok d \<longrightarrow> \<not> isdigit_c (uchar d))"
  "is_item pt p \<Longrightarrow> rd pt p = Ok (CHR ''$'') \<Longrightarrow> rd pt (p + 1) \<noteq> Ok NUL"
  by (auto simp: is_item_def)

lemma patm_item_iff:
  assumes "is_item pt p" "classend pt p = Ok ep" "rd pt ep = Ok x"
  shows "patm src pt caps s p v e \<longleftrightarrow>
     (\<exists>n. reps x n \<and> (\<forall>i < n. single_at src pt p ep (s + i)) \<and> patm src pt caps (s + n) (if is_suffix x then ep + 1 else ep) v e)"
proof
  assume "patm src pt caps s p v e"
  then show "\<exists>n. reps x n \<and> (\<forall>i < n. single_at src pt p ep (s + i)) \<and> patm src pt caps (s + n) (if is_suffix x then ep + 1 else ep) v e"
  proof cases
    case (patm_item ep' x' n)
    then have "ep' = ep" "x' = x" using assms by simp_all
    then show ?thesis using patm_item by blast
  qed (use is_item_not [OF assms(1)] in blast)+
next
  assume "\<exists>n. reps x n \<and> (\<forall>i < n. single_at src pt p ep (s + i)) \<and> patm src pt caps (s + n) (if is_suffix x then ep + 1 else ep) v e"
  then show "patm src pt caps s p v e" using assms by (blast intro: patm.patm_item)
qed

section \<open>Deciding\<close>

definition view :: "MatchState \<Rightarrow> (nat \<times> int) list" where
  "view ms = take (ms_level ms) (ms_capture ms)"

text \<open>The result of a match finds a member of \<open>Q\<close>, or \<open>Q\<close> is empty.\<close>

definition decides :: "match_result \<Rightarrow> ((nat \<times> int) list \<Rightarrow> nat \<Rightarrow> bool) \<Rightarrow> bool" where
  "decides r Q \<longleftrightarrow>
     (case r of
        Inl _ \<Rightarrow> True
      | Inr (ms1, None) \<Rightarrow> \<forall>v e. \<not> Q v e
      | Inr (ms1, Some e) \<Rightarrow> Q (view ms1) e)"

lemma decides_simps [simp]:
  "decides (Fail x) Q"
  "decides (Ok (ms1, None)) Q \<longleftrightarrow> (\<forall>v e. \<not> Q v e)"
  "decides (Ok (ms1, Some e)) Q \<longleftrightarrow> Q (view ms1) e"
  by (simp_all add: decides_def)

lemma decides_bind: "(\<And>x. r = Ok x \<Longrightarrow> decides (f x) Q) \<Longrightarrow> decides (rbind r f) Q"
  by (cases r) simp_all

lemma decides_cong: "decides r Q \<Longrightarrow> (\<And>v e. Q v e \<longleftrightarrow> Q' v e) \<Longrightarrow> decides r Q'"
  by (auto simp: decides_def split: sum.splits option.splits)

lemma view_same: "caps_same ms ms1 \<Longrightarrow> view ms1 = view ms"
  by (simp add: caps_same_def view_def)

definition cont_dec :: "string \<Rightarrow> (MatchState \<Rightarrow> nat \<Rightarrow> match_result) \<Rightarrow> ((nat \<times> int) list \<Rightarrow> nat \<Rightarrow> (nat \<times> int) list \<Rightarrow> nat \<Rightarrow> bool) \<Rightarrow> bool" where
  "cont_dec src k P \<longleftrightarrow> cont_safe src k \<and> (\<forall>ms s. ms_src ms = src \<longrightarrow> caps_inv ms s \<longrightarrow> decides (k ms s) (P (view ms) s))"

lemma cont_decD: "cont_dec (ms_src ms) k P \<Longrightarrow> caps_inv ms s \<Longrightarrow> decides (k ms s) (P (view ms) s)"
  by (simp add: cont_dec_def)

lemma cont_dec_safe: "cont_dec src k P \<Longrightarrow> cont_safe src k"
  by (simp add: cont_dec_def)

lemma decides_try:
  assumes "cont_dec (ms_src ms) k P" "caps_inv ms s'"
    and "\<And>ms1. caps_same ms ms1 \<Longrightarrow> decides (g ms1) R"
  shows "decides (rbind (k ms s') (\<lambda>(ms1, res). case res of Some e \<Rightarrow> Ok (ms1, Some e) | None \<Rightarrow> g ms1))
    (\<lambda>v e. P (view ms) s' v e \<or> R v e)"
proof (rule decides_bind)
  fix r assume r: "k ms s' = Ok r"
  have dec: "decides (Ok r) (P (view ms) s')" using cont_decD [OF assms(1, 2)] r by simp
  have post: "match_post ms s' r" using cont_safeD [OF cont_dec_safe [OF assms(1)] assms(2)] r by simp
  show "decides (case r of (ms1, res) \<Rightarrow> (case res of Some e \<Rightarrow> Ok (ms1, Some e) | None \<Rightarrow> g ms1)) (\<lambda>v e. P (view ms) s' v e \<or> R v e)"
  proof (cases r)
    case (Pair ms1 res)
    show ?thesis
    proof (cases res)
      case None
      then have "\<not> P (view ms) s' v e" for v e using dec Pair by simp
      moreover have "decides (g ms1) R" using post Pair None by (intro assms(3)) simp
      ultimately show ?thesis using Pair None by simp
    next
      case (Some e)
      then show ?thesis using dec Pair by simp
    qed
  qed
qed

lemma max_try_dec:
  "cont_dec (ms_src ms) k P \<Longrightarrow> caps_inv ms s \<Longrightarrow> s + i \<le> length (ms_src ms) \<Longrightarrow>
   decides (max_try k ms s i) (\<lambda>v e. \<exists>n \<le> i. P (view ms) (s + n) v e)"
proof (induction i arbitrary: ms)
  case (Suc i)
  have "caps_inv ms (s + Suc i)" using Suc.prems(2, 3) by (intro caps_inv_mono [OF Suc.prems(2)]) auto
  then have "decides (max_try k ms s (Suc i)) (\<lambda>v e. P (view ms) (s + Suc i) v e \<or> (\<exists>n \<le> i. P (view ms) (s + n) v e))"
    unfolding max_try.simps
  proof (rule decides_try [OF Suc.prems(1)])
    fix ms1 assume same: "caps_same ms ms1"
    then have "ms_src ms1 = ms_src ms" by (simp add: caps_same_def)
    then show "decides (max_try k ms1 s i) (\<lambda>v e. \<exists>n \<le> i. P (view ms) (s + n) v e)"
      using Suc.IH [OF _ caps_inv_same [OF Suc.prems(2) same]] Suc.prems view_same [OF same] by simp
  qed
  then show ?case by (rule decides_cong) (auto simp: le_Suc_eq)
qed (simp add: cont_decD)

lemma expand_count_spec:
  "expand_count src single s = Ok i \<Longrightarrow>
   (\<forall>j < i. s + j < length src \<and> single (uchar (src ! (s + j))) = Ok True) \<and>
   \<not> (s + i < length src \<and> single (uchar (src ! (s + i))) = Ok True)"
proof (induction src single s arbitrary: i rule: expand_count.induct)
  case (1 src single s)
  show ?case
  proof (cases "s < length src")
    case True
    note e = 1(2) [unfolded expand_count.simps [of src single s] if_P [OF True]]
    obtain m where m: "single (uchar (src ! s)) = Ok m" using e by (elim rbind_OkE)
    show ?thesis
    proof (cases m)
      case mt: True
      obtain i' where i': "expand_count src single (s + 1) = Ok i'" "i = i' + 1"
        using e m mt by (auto elim: rbind_OkE)
      note IH = 1(1) [OF True m mt i'(1)]
      have "s + j < length src \<and> single (uchar (src ! (s + j))) = Ok True" if "j < i" for j
        using IH that i'(2) m mt True by (cases j) auto
      then show ?thesis using IH i'(2) by simp
    next
      case False
      then show ?thesis using e m by simp
    qed
  next
    case False
    then show ?thesis using 1(2) by (simp add: expand_count.simps [of src single s])
  qed
qed

lemma max_expand_dec:
  assumes "cont_dec (ms_src ms) k P" "caps_inv ms s" "\<And>c. post (single c) (\<lambda>_. True)"
  shows "decides (max_expand k ms s single)
    (\<lambda>v e. \<exists>n. (\<forall>j < n. s + j < length (ms_src ms) \<and> single (uchar (ms_src ms ! (s + j))) = Ok True) \<and> P (view ms) (s + n) v e)"
  unfolding max_expand_def
proof (rule decides_bind)
  fix i assume i: "expand_count (ms_src ms) single s = Ok i"
  note spec = expand_count_spec [OF i]
  have "s \<le> length (ms_src ms)" using assms(2) by (simp add: caps_inv_def)
  then have "s + i \<le> length (ms_src ms)" using expand_count_safe [of single s "ms_src ms", OF assms(3)] i by simp
  then have "decides (max_try k ms s i) (\<lambda>v e. \<exists>n \<le> i. P (view ms) (s + n) v e)"
    by (rule max_try_dec [OF assms(1, 2)])
  moreover have "(\<forall>j < n. s + j < length (ms_src ms) \<and> single (uchar (ms_src ms ! (s + j))) = Ok True) \<longleftrightarrow> n \<le> i" for n
  proof
    assume "\<forall>j < n. s + j < length (ms_src ms) \<and> single (uchar (ms_src ms ! (s + j))) = Ok True"
    then show "n \<le> i" using spec by (meson not_less)
  qed (use spec in auto)
  ultimately show "decides (max_try k ms s i)
    (\<lambda>v e. \<exists>n. (\<forall>j < n. s + j < length (ms_src ms) \<and> single (uchar (ms_src ms ! (s + j))) = Ok True) \<and> P (view ms) (s + n) v e)"
    by simp
qed

lemma ex_Suc: "(\<exists>n. (\<forall>j < n. A (s + j)) \<and> B (s + n)) \<longleftrightarrow> B s \<or> A s \<and> (\<exists>n. (\<forall>j < n. A (s + 1 + j)) \<and> B (s + 1 + n))" for s :: nat
proof
  assume "\<exists>n. (\<forall>j < n. A (s + j)) \<and> B (s + n)"
  then obtain n where n: "\<forall>j < n. A (s + j)" "B (s + n)" by blast
  show "B s \<or> A s \<and> (\<exists>n. (\<forall>j < n. A (s + 1 + j)) \<and> B (s + 1 + n))"
  proof (cases n)
    case (Suc m)
    then have "A s" "\<forall>j < m. A (s + 1 + j)" "B (s + 1 + m)" using n by force+
    then show ?thesis by blast
  qed (use n in simp)
next
  assume "B s \<or> A s \<and> (\<exists>n. (\<forall>j < n. A (s + 1 + j)) \<and> B (s + 1 + n))"
  then show "\<exists>n. (\<forall>j < n. A (s + j)) \<and> B (s + n)"
  proof (elim disjE conjE exE)
    fix n assume "A s" "\<forall>j < n. A (s + 1 + j)" "B (s + 1 + n)"
    then have "\<forall>j < Suc n. A (s + j)" "B (s + Suc n)" by (auto simp: less_Suc_eq_0_disj)
    then show ?thesis by blast
  qed (auto intro: exI [of _ 0])
qed

lemma ex_ge1: "(\<exists>n. 1 \<le> n \<and> (\<forall>j < n. A (s + j)) \<and> B n) \<longleftrightarrow> A s \<and> (\<exists>n. (\<forall>j < n. A (s + 1 + j)) \<and> B (n + 1))" for s :: nat
proof
  assume "\<exists>n. 1 \<le> n \<and> (\<forall>j < n. A (s + j)) \<and> B n"
  then obtain m where "\<forall>j < Suc m. A (s + j)" "B (Suc m)" by (metis Suc_le_D One_nat_def)
  then have "A s" "\<forall>j < m. A (s + 1 + j)" "B (m + 1)" by (simp_all add: All_less_Suc2)
  then show "A s \<and> (\<exists>n. (\<forall>j < n. A (s + 1 + j)) \<and> B (n + 1))" by blast
next
  assume "A s \<and> (\<exists>n. (\<forall>j < n. A (s + 1 + j)) \<and> B (n + 1))"
  then obtain n where "A s" "\<forall>j < n. A (s + 1 + j)" "B (n + 1)" by blast
  then have "1 \<le> n + 1" "\<forall>j < n + 1. A (s + j)" "B (n + 1)" by (simp_all add: All_less_Suc2)
  then show "\<exists>n. 1 \<le> n \<and> (\<forall>j < n. A (s + j)) \<and> B n" by blast
qed

lemma min_expand_dec:
  assumes "\<And>c. post (single c) (\<lambda>_. True)"
  shows "cont_dec src k P \<Longrightarrow> ms_src ms = src \<Longrightarrow> caps_inv ms s \<Longrightarrow>
    decides (min_expand k src ms s single)
      (\<lambda>v e. \<exists>n. (\<forall>j < n. s + j < length src \<and> single (uchar (src ! (s + j))) = Ok True) \<and> P (view ms) (s + n) v e)"
proof (induction "length src - s" arbitrary: ms s rule: less_induct)
  case 1: (less s)
  have k: "cont_dec (ms_src ms) k P" using 1(2, 3) by simp
  let ?A = "\<lambda>s. s < length src \<and> single (uchar (src ! s)) = Ok True"
  let ?R = "\<lambda>v e. ?A s \<and> (\<exists>n. (\<forall>j < n. ?A (s + 1 + j)) \<and> P (view ms) (s + 1 + n) v e)"
  have "decides (min_expand k src ms s single) (\<lambda>v e. P (view ms) s v e \<or> ?R v e)"
    unfolding min_expand.simps [of k src ms s single]
  proof (rule decides_try [OF k 1(4)])
    fix ms1 assume same: "caps_same ms ms1"
    then have src: "ms_src ms1 = src" using 1(3) by (simp add: caps_same_def)
    show "decides (if s < length src
           then rbind (single (uchar (src ! s))) (\<lambda>m. if m then min_expand k src ms1 (s + 1) single else Ok (ms1, None))
           else Ok (ms1, None)) ?R"
    proof (cases "s < length src")
      case True
      show ?thesis unfolding if_P [OF True]
      proof (rule decides_bind)
        fix m assume m: "single (uchar (src ! s)) = Ok m"
        show "decides (if m then min_expand k src ms1 (s + 1) single else Ok (ms1, None)) ?R"
        proof (cases m)
          case mt: True
          have inv: "caps_inv ms1 (s + 1)"
            using caps_inv_mono [OF caps_inv_same [OF 1(4) same], of "s + 1"] True src by simp
          have "decides (min_expand k src ms1 (s + 1) single) (\<lambda>v e. \<exists>n. (\<forall>j < n. ?A (s + 1 + j)) \<and> P (view ms1) (s + 1 + n) v e)"
            using True by (intro 1(1) [OF _ 1(2) src inv]) simp
          then have "decides (min_expand k src ms1 (s + 1) single) ?R"
            by (rule decides_cong) (use True m mt in \<open>simp add: view_same [OF same]\<close>)
          then show ?thesis using mt by simp
        qed (use m in simp)
      qed
    qed simp
  qed
  then show ?case by (rule decides_cong) (rule ex_Suc [of ?A s "\<lambda>n. P (view ms) n _ _", symmetric])
qed

lemma length_view: "caps_inv ms s \<Longrightarrow> length (view ms) = ms_level ms"
  by (simp add: caps_inv_def view_def)

lemma view_nth: "l < ms_level ms \<Longrightarrow> view ms ! l = ms_capture ms ! l"
  by (simp add: view_def)

lemma start_capture_dec:
  assumes "cont_dec (ms_src ms) k P" "caps_inv ms s" "what = CAP_UNFINISHED \<or> what = CAP_POSITION" "ms_level ms < LUA_MAXCAPTURES"
  shows "decides (start_capture k ms s what) (P (view ms @ [(s, what)]) s)"
proof -
  let ?l = "ms_level ms"
  let ?ms = "ms\<lparr>ms_capture := (ms_capture ms)[?l := (s, what)], ms_level := ?l + 1\<rparr>"
  have len: "?l < length (ms_capture ms)" using assms(2, 4) by (simp add: caps_inv_def)
  have inv: "caps_inv ?ms s"
    using assms(2, 3, 4) by (auto simp: caps_inv_def nth_list_update less_Suc_eq cap_in_def)
  have view: "view ?ms = view ms @ [(s, what)]" using len by (simp add: view_def take_Suc_conv_app_nth)
  have k: "decides (k ?ms s) (P (view ms @ [(s, what)]) s)" using cont_decD [of ?ms k P s] assms(1) inv view by simp
  show ?thesis
    unfolding start_capture_def Let_def if_not_P [OF assms(4) [unfolded not_le [symmetric]]] aset_in [OF len] rbind_simps
  proof (rule decides_bind)
    fix r assume r: "k ?ms s = Ok r"
    then show "decides (case r of (ms1, res) \<Rightarrow> Ok (if res = None then ms1\<lparr>ms_level := ms_level ms1 - 1\<rparr> else ms1, res)) (P (view ms @ [(s, what)]) s)"
      using k by (cases r; cases "snd r") simp_all
  qed
qed

lemma to_close_take: "n \<le> m \<Longrightarrow> m \<le> length caps \<Longrightarrow> to_close (take m caps) n = to_close caps n"
  by (induction n) simp_all

lemma capture_to_close_view: "caps_inv ms s \<Longrightarrow> capture_to_close ms = to_close (view ms) (length (view ms))"
  by (simp add: capture_to_close_def length_view to_close_take view_def caps_inv_def)

lemma end_capture_dec:
  assumes "cont_dec (ms_src ms) k P" "caps_inv ms s"
    and "capture_to_close ms = Ok l"
  shows "decides (end_capture k ms s) (P ((view ms)[l := (fst (view ms ! l), int s - int (fst (view ms ! l)))]) s)"
proof -
  have l: "l < ms_level ms" "l < length (ms_capture ms)"
    using capture_to_close_safe [OF assms(2)] assms(3) by simp_all
  let ?c = "ms_capture ms ! l"
  let ?ms = "ms\<lparr>ms_capture := (ms_capture ms)[l := (fst ?c, int s - int (fst ?c))]\<rparr>"
  have le: "fst ?c \<le> s" using assms(2) l(1) by (simp add: caps_inv_def cap_in_def)
  have inv: "caps_inv ?ms s"
    using assms(2) le l(2) by (auto simp: caps_inv_def nth_list_update cap_in_def)
  have view: "view ?ms = (view ms)[l := (fst (view ms ! l), int s - int (fst (view ms ! l)))]"
    using l by (simp add: view_def take_update_swap)
  have k: "decides (k ?ms s) (P (view ?ms) s)" using cont_decD [of ?ms k P s] assms(1) inv by simp
  show ?thesis
    unfolding end_capture_def assms(3) aget_in [OF l(2)] aset_in [OF l(2)] rbind_simps view [symmetric]
  proof (rule decides_bind, goal_cases)
    case (1 r)
    show ?case
    proof (cases r)
      case (Pair ms1 res)
      then show ?thesis using k 1 by (cases res) (auto intro!: decides_bind)
    qed
  qed
qed

lemma match_capture_view:
  assumes "caps_inv ms s"
  shows "match_capture \<lparr>ms_src = ms_src ms, ms_level = length (view ms), ms_capture = view ms\<rparr> s d = match_capture ms s d"
proof -
  have get: "aget (view ms) l = aget (ms_capture ms) l" if "l < ms_level ms" for l
    using that assms by (auto simp: aget_def view_nth length_view [OF assms] caps_inv_def)
  have check: "check_capture \<lparr>ms_src = ms_src ms, ms_level = length (view ms), ms_capture = view ms\<rparr> d = check_capture ms d"
  proof (cases "int d - 49 < 0 \<or> int (ms_level ms) \<le> int d - 49")
    case False
    then have "nat (int d - 49) < ms_level ms" by linarith
    then show ?thesis using get [of "nat (int d - 49)"] by (simp add: check_capture_def Let_def length_view [OF assms])
  qed (auto simp: check_capture_def Let_def length_view [OF assms])
  show ?thesis
    unfolding match_capture_def check
  proof (rule rbind_cong [OF refl])
    fix l assume "check_capture ms d = Ok l"
    then have l: "l < ms_level ms"
      by (auto simp: check_capture_def Let_def rbind_Ok_iff split: if_splits)
    show "rbind (aget (ms_capture \<lparr>ms_src = ms_src ms, ms_level = length (view ms), ms_capture = view ms\<rparr>) l)
        (\<lambda>c. let len = unat (word_of_int (snd c) :: u32) in
          if len \<le> length (ms_src \<lparr>ms_src = ms_src ms, ms_level = length (view ms), ms_capture = view ms\<rparr>) - s
          then (if take len (drop (fst c) (ms_src \<lparr>ms_src = ms_src ms, ms_level = length (view ms), ms_capture = view ms\<rparr>))
                 = take len (drop s (ms_src \<lparr>ms_src = ms_src ms, ms_level = length (view ms), ms_capture = view ms\<rparr>))
               then Ok (Some (s + len)) else Ok None)
          else Ok None) =
      rbind (aget (ms_capture ms) l)
        (\<lambda>c. let len = unat (word_of_int (snd c) :: u32) in
          if len \<le> length (ms_src ms) - s
          then (if take len (drop (fst c) (ms_src ms)) = take len (drop s (ms_src ms)) then Ok (Some (s + len)) else Ok None)
          else Ok None)"
      unfolding MatchState.simps get [OF l] ..
  qed
qed

section \<open>The matcher decides the relation\<close>

definition conts_dec :: "string \<Rightarrow> string \<Rightarrow> nat \<Rightarrow> (MatchState \<Rightarrow> nat \<Rightarrow> nat \<Rightarrow> match_result) \<Rightarrow> bool" where
  "conts_dec src pt p k \<longleftrightarrow>
     (\<forall>q. p < q \<longrightarrow> q \<le> length pt \<longrightarrow> cont_dec src (\<lambda>ms s. k ms s q) (\<lambda>caps s. patm src pt caps s q))"

lemma conts_decD:
  "conts_dec src pt p k \<Longrightarrow> p < q \<Longrightarrow> q \<le> length pt \<Longrightarrow> cont_dec src (\<lambda>ms s. k ms s q) (\<lambda>caps s. patm src pt caps s q)"
  by (simp add: conts_dec_def)

lemma reps_le1: "(\<exists>n. reps (CHR ''?'') n \<and> A n) \<longleftrightarrow> A 1 \<or> A 0"
  by (auto simp: reps_def le_Suc_eq)

lemma match_item_dec:
  assumes "conts_dec (ms_src ms) pt p k" "caps_inv ms s" "p < length pt" "is_item pt p"
  shows "decides (match_item k pt ms s p) (patm (ms_src ms) pt (view ms) s p)"
  unfolding match_item_def
proof (rule decides_bind)
  fix ep assume cl: "classend pt p = Ok ep"
  then have ep: "p < ep" "ep \<le> length pt" using classend_gt classend_le assms(3) by blast+
  let ?single = "\<lambda>c. singlematch c pt p ep"
  have single: "\<And>c. post (?single c) (\<lambda>_. True)" by (rule singlematch_safe [OF assms(3) ep(2)])
  have fwd: "caps_inv ms (s + 1)" if "s < length (ms_src ms)"
    using that by (intro caps_inv_mono [OF assms(2)]) auto
  have k: "cont_dec (ms_src ms) (\<lambda>ms s. k ms s q) (\<lambda>caps s. patm (ms_src ms) pt caps s q)" if "ep \<le> q" "q \<le> length pt" for q
    using assms(1) that ep by (simp add: conts_dec_def)
  let ?at = "single_at (ms_src ms) pt p ep"
  let ?p = "\<lambda>caps s q. patm (ms_src ms) pt caps s q"
  show "decides (let single = ?single in
       rbind (if s < length (ms_src ms) then single (uchar (ms_src ms ! s)) else Ok False) (\<lambda>m.
       rbind (rd pt ep) (\<lambda>x.
         if x = CHR ''?'' then
           (if m
            then rbind (k ms (s + 1) (ep + 1)) (\<lambda>(ms1, res). case res of Some e \<Rightarrow> Ok (ms1, Some e) | None \<Rightarrow> k ms1 s (ep + 1))
            else k ms s (ep + 1))
         else if x = CHR ''*'' then max_expand (\<lambda>ms s. k ms s (ep + 1)) ms s single
         else if x = CHR ''+'' then (if m then max_expand (\<lambda>ms s. k ms s (ep + 1)) ms (s + 1) single else Ok (ms, None))
         else if x = CHR ''-'' then min_expand (\<lambda>ms s. k ms s (ep + 1)) (ms_src ms) ms s single
         else if \<not> m then Ok (ms, None) else k ms (s + 1) ep))) (?p (view ms) s p)"
    unfolding Let_def
  proof (rule decides_bind, rule decides_bind, goal_cases)
    case (1 m x)
    have m: "m \<longleftrightarrow> ?at s" using 1(1) by (auto simp: single_at_def split: if_splits)
    have k1: "cont_dec (ms_src ms) (\<lambda>ms s. k ms s (ep + 1)) (\<lambda>caps s. ?p caps s (ep + 1))" if "x \<noteq> NUL"
      using k [of "ep + 1"] that rd_Ok [OF 1(2)] by simp
    note iff = patm_item_iff [OF assms(4) cl 1(2), of "ms_src ms" "view ms" s]
    consider (q) "x = CHR ''?''" | (st) "x = CHR ''*''" | (pl) "x = CHR ''+''" | (mi) "x = CHR ''-''"
      | (d) "x \<noteq> CHR ''?''" "x \<noteq> CHR ''*''" "x \<noteq> CHR ''+''" "x \<noteq> CHR ''-''" by blast
    then show ?case
    proof cases
      case q
      then have k1: "cont_dec (ms_src ms) (\<lambda>ms s. k ms s (ep + 1)) (\<lambda>caps s. ?p caps s (ep + 1))" using k1 by simp
      have iff: "?p (view ms) s p v e \<longleftrightarrow> ?at s \<and> ?p (view ms) (s + 1) (ep + 1) v e \<or> ?p (view ms) s (ep + 1) v e" for v e
        unfolding iff q reps_le1 by (auto simp: is_suffix_def)
      show ?thesis
      proof (cases m)
        case True
        have "decides (rbind (k ms (s + 1) (ep + 1)) (\<lambda>(ms1, res). case res of Some e \<Rightarrow> Ok (ms1, Some e) | None \<Rightarrow> k ms1 s (ep + 1)))
            (\<lambda>v e. ?p (view ms) (s + 1) (ep + 1) v e \<or> ?p (view ms) s (ep + 1) v e)"
        proof (rule decides_try [OF k1], goal_cases)
          case (2 ms1)
          show ?case
            using k1 caps_inv_same [OF assms(2) 2] view_same [OF 2] 2 cont_decD [of ms1 "\<lambda>ms s. k ms s (ep + 1)" "\<lambda>caps s. ?p caps s (ep + 1)" s]
            by (simp add: caps_same_def)
        qed (use m True fwd in \<open>simp add: single_at_def\<close>)
        then show ?thesis unfolding if_P [OF q] if_P [OF True] by (rule decides_cong) (use m True iff in simp)
      next
        case False
        have "decides (k ms s (ep + 1)) (?p (view ms) s (ep + 1))" by (rule cont_decD [OF k1 assms(2)])
        then have "decides (k ms s (ep + 1)) (?p (view ms) s p)" by (rule decides_cong) (use m False iff in simp)
        then show ?thesis using q False by simp
      qed
    next
      case st
      have "decides (max_expand (\<lambda>ms s. k ms s (ep + 1)) ms s ?single) (?p (view ms) s p)"
        by (rule decides_cong [OF max_expand_dec [OF k1 assms(2) single]])
          (use st iff in \<open>simp_all add: single_at_def reps_def is_suffix_def\<close>)
      then show ?thesis using st by simp
    next
      case pl
      have iff: "?p (view ms) s p v e \<longleftrightarrow> ?at s \<and> (\<exists>n. (\<forall>j < n. ?at (s + 1 + j)) \<and> ?p (view ms) (s + 1 + n) (ep + 1) v e)" for v e
      proof -
        from ex_ge1 [of ?at s "\<lambda>n. ?p (view ms) (s + n) (ep + 1) v e"] show ?thesis
          unfolding iff pl by (simp add: reps_def is_suffix_def add.assoc)
      qed
      show ?thesis
      proof (cases m)
        case True
        have "decides (max_expand (\<lambda>ms s. k ms s (ep + 1)) ms (s + 1) ?single) (?p (view ms) s p)"
          by (rule decides_cong [OF max_expand_dec [OF k1 fwd single]])
            (use pl m True iff in \<open>simp_all add: single_at_def\<close>)
        then show ?thesis using pl True by simp
      next
        case False
        then show ?thesis using pl m iff by simp
      qed
    next
      case mi
      have "decides (min_expand (\<lambda>ms s. k ms s (ep + 1)) (ms_src ms) ms s ?single) (?p (view ms) s p)"
        by (rule decides_cong [OF min_expand_dec [OF single k1 refl assms(2)]])
          (use mi iff in \<open>simp_all add: single_at_def reps_def is_suffix_def\<close>)
      then show ?thesis using mi by simp
    next
      case d
      have iff: "?p (view ms) s p v e \<longleftrightarrow> ?at s \<and> ?p (view ms) (s + 1) ep v e" for v e
        unfolding iff using d by (simp add: reps_def is_suffix_def)
      show ?thesis
      proof (cases m)
        case True
        have "decides (k ms (s + 1) ep) (?p (view ms) (s + 1) ep)"
          using cont_decD [OF k [OF order_refl ep(2)] fwd] m True by (simp add: single_at_def)
        then have "decides (k ms (s + 1) ep) (?p (view ms) s p)" by (rule decides_cong) (use iff m True in simp)
        then show ?thesis using d True by simp
      next
        case False
        then show ?thesis using d m iff by simp
      qed
    qed
  qed
qed

lemma match_frontier_dec:
  assumes "conts_dec (ms_src ms) pt p k" "caps_inv ms s" "p \<le> length pt"
  shows "decides (match_frontier k pt ms s p)
    (\<lambda>v e. \<exists>ep. frontier_at (ms_src ms) pt s p ep \<and> patm (ms_src ms) pt (view ms) s ep v e)"
  unfolding match_frontier_def
proof (rule decides_bind)
  fix x assume x: "rd pt p = Ok x"
  have s: "s \<le> length (ms_src ms)" using assms(2) by (simp add: caps_inv_def)
  let ?Q = "\<lambda>v e. \<exists>ep. frontier_at (ms_src ms) pt s p ep \<and> patm (ms_src ms) pt (view ms) s ep v e"
  show "decides (if x \<noteq> CHR ''['' then Fail (LuaError ''missing '[' after '%f' in pattern'')
     else rbind (classend pt p) (\<lambda>ep.
         rbind (if s = 0 then Ok NUL else rd (ms_src ms) (s - 1)) (\<lambda>previous.
         rbind (matchbracketclass (uchar previous) pt p (ep - 1)) (\<lambda>b1.
           if b1 then Ok (ms, None)
           else rbind (rd (ms_src ms) s) (\<lambda>y. rbind (matchbracketclass (uchar y) pt p (ep - 1)) (\<lambda>b2.
             if \<not> b2 then Ok (ms, None) else k ms s ep)))))) ?Q"
  proof (cases "x = CHR ''[''")
    case True
    then have p: "p < length pt" using rd_Ok [OF x] by simp
    have n: "\<not> x \<noteq> CHR ''[''" using True by simp
    show ?thesis unfolding if_not_P [OF n]
    proof (rule decides_bind, rule decides_bind, rule decides_bind, goal_cases)
      case (1 ep previous b1)
      have ep: "p < ep" "ep \<le> length pt" using classend_gt [OF 1(1)] classend_le [OF 1(1) p] by auto
      have prev: "previous = (if s = 0 then NUL else ms_src ms ! (s - 1))"
        using 1(2) s by (auto simp: rd_def split: if_splits)
      have front: "frontier_at (ms_src ms) pt s p q \<longleftrightarrow> q = ep \<and> \<not> b1 \<and>
          matchbracketclass (uchar (if s = length (ms_src ms) then NUL else ms_src ms ! s)) pt p (ep - 1) = Ok True" for q
        using 1(1, 3) x True s prev by (auto simp: frontier_at_def)
      show ?case
      proof (cases b1)
        case False
        show ?thesis unfolding if_not_P [OF False]
        proof (rule decides_bind, rule decides_bind, goal_cases)
          case (1 y b2)
          have y: "y = (if s = length (ms_src ms) then NUL else ms_src ms ! s)"
            using 1(1) s by (auto simp: rd_def split: if_splits)
          have "decides (k ms s ep) (patm (ms_src ms) pt (view ms) s ep)"
            using cont_decD [OF conts_decD [OF assms(1) ep] assms(2)] .
          then show ?case using 1(2) front False y by (cases b2) simp_all
        qed
      qed (simp add: front)
    qed
  qed simp
qed

lemma match_decides: "caps_inv ms s \<Longrightarrow> p \<le> length pt \<Longrightarrow> decides (match pt ms s p) (patm (ms_src ms) pt (view ms) s p)"
proof (induction "length pt - p" arbitrary: ms s p rule: less_induct)
  case less
  have k: "conts_dec (ms_src ms) pt p (\<lambda>ms s p'. match pt ms s p')"
    unfolding conts_dec_def cont_dec_def cont_safe_def
  proof (intro allI impI conjI)
    fix q ms' s' assume q: "p < q" "q \<le> length pt" and ms': "ms_src ms' = ms_src ms" "caps_inv ms' s'"
    show "post (match pt ms' s' q) (match_post ms' s')" by (rule match_post_safe [OF ms'(2) q(2)])
    show "decides (match pt ms' s' q) (patm (ms_src ms) pt (view ms') s' q)"
      using less.hyps [OF _ ms'(2) q(2)] q ms'(1) by simp
  qed
  note at = conts_decD [OF k]
  have inv: "caps_inv ms s" and s: "s \<le> length (ms_src ms)" using less.prems by (auto simp: caps_inv_def)
  let ?Q = "patm (ms_src ms) pt (view ms) s p"
  have to: "decides (case r of None \<Rightarrow> Ok (ms, None) | Some s1 \<Rightarrow> match pt ms s1 q) ?Q"
    if "\<And>v e. ?Q v e \<longleftrightarrow> (\<exists>s1. r = Some s1 \<and> patm (ms_src ms) pt (view ms) s1 q v e)"
      "\<forall>s1. r = Some s1 \<longrightarrow> s \<le> s1 \<and> s1 \<le> length (ms_src ms)" "p < q" "q \<le> length pt" for r q
  proof (cases r)
    case (Some s1)
    then have "caps_inv ms s1" using that(2) by (intro caps_inv_mono [OF inv]) auto
    then have "decides (match pt ms s1 q) (patm (ms_src ms) pt (view ms) s1 q)" by (rule cont_decD [OF at [OF that(3, 4)]])
    then have "decides (match pt ms s1 q) ?Q" by (rule decides_cong) (simp add: that(1) Some)
    then show ?thesis using Some by simp
  qed (simp add: that(1))
  show ?case
    unfolding match.simps [of pt ms s p]
  proof (rule decides_bind)
    fix c assume c: "rd pt p = Ok c"
    have item: "decides (match_item (\<lambda>ms s p'. match pt ms s p') pt ms s p) ?Q" if "is_item pt p" "c \<noteq> NUL"
      using rd_Ok [OF c] that by (intro match_item_dec [OF k inv]) auto
    have p: "p < length pt" if "c \<noteq> NUL" using rd_Ok [OF c] that by simp
    consider (nul) "c = NUL" | (op) "c = CHR ''(''" | (cl) "c = CHR '')''" | (esc) "c = L_ESC" | (d) "c = CHR ''$''"
      | (it) "c \<noteq> NUL" "c \<noteq> CHR ''(''" "c \<noteq> CHR '')''" "c \<noteq> L_ESC" "c \<noteq> CHR ''$''" by blast
    then show "decides (if c = NUL then Ok (ms, Some s)
       else if c = CHR ''('' then
         rbind (rd pt (p + 1)) (\<lambda>c1.
           if c1 = CHR '')'' then start_capture (\<lambda>ms s. match pt ms s (p + 2)) ms s CAP_POSITION
           else start_capture (\<lambda>ms s. match pt ms s (p + 1)) ms s CAP_UNFINISHED)
       else if c = CHR '')'' then end_capture (\<lambda>ms s. match pt ms s (p + 1)) ms s
       else if c = L_ESC then
         rbind (rd pt (p + 1)) (\<lambda>c1.
           if c1 = CHR ''b'' then
             rbind (matchbalance (ms_src ms) pt s (p + 2)) (\<lambda>r.
               case r of None \<Rightarrow> Ok (ms, None) | Some s1 \<Rightarrow> match pt ms s1 (p + 4))
           else if c1 = CHR ''f'' then match_frontier (\<lambda>ms s p'. match pt ms s p') pt ms s (p + 2)
           else if isdigit_c (uchar c1) then
             rbind (match_capture ms s (uchar c1)) (\<lambda>r.
               case r of None \<Rightarrow> Ok (ms, None) | Some s1 \<Rightarrow> match pt ms s1 (p + 2))
           else match_item (\<lambda>ms s p'. match pt ms s p') pt ms s p)
       else if c = CHR ''$'' then
         rbind (rd pt (p + 1)) (\<lambda>c1.
           if c1 = NUL then Ok (ms, if s = length (ms_src ms) then Some s else None)
           else match_item (\<lambda>ms s p'. match pt ms s p') pt ms s p)
       else match_item (\<lambda>ms s p'. match pt ms s p') pt ms s p) ?Q"
    proof cases
      case nul
      then show ?thesis using c by (simp add: patm_end_iff)
    next
      case op
      note p = p [unfolded op, simplified]
      show ?thesis
      proof (cases "ms_level ms < LUA_MAXCAPTURES")
        case True
        then have len: "length (view ms) < LUA_MAXCAPTURES" by (simp add: length_view [OF inv])
        have "decides (rbind (rd pt (p + 1)) (\<lambda>c1.
           if c1 = CHR '')'' then start_capture (\<lambda>ms s. match pt ms s (p + 2)) ms s CAP_POSITION
           else start_capture (\<lambda>ms s. match pt ms s (p + 1)) ms s CAP_UNFINISHED)) ?Q"
        proof (rule decides_bind)
          fix c1 assume c1: "rd pt (p + 1) = Ok c1"
          show "decides (if c1 = CHR '')'' then start_capture (\<lambda>ms s. match pt ms s (p + 2)) ms s CAP_POSITION
              else start_capture (\<lambda>ms s. match pt ms s (p + 1)) ms s CAP_UNFINISHED) ?Q"
          proof (cases "c1 = CHR '')''")
            case cp: True
            then have q: "p + 2 \<le> length pt" using rd_Ok [OF c1] by simp
            have "decides (start_capture (\<lambda>ms s. match pt ms s (p + 2)) ms s CAP_POSITION) ?Q"
              by (rule decides_cong [OF start_capture_dec [OF at [OF _ q] inv _ True]])
                (use patm_position_iff [OF c [unfolded op] c1 [unfolded cp] len] in auto)
            then show ?thesis using cp by simp
          next
            case False
            have q: "p + 1 \<le> length pt" using p by simp
            have "decides (start_capture (\<lambda>ms s. match pt ms s (p + 1)) ms s CAP_UNFINISHED) ?Q"
              by (rule decides_cong [OF start_capture_dec [OF at [OF _ q] inv _ True]])
                (use patm_open_iff [OF c [unfolded op] c1 False len] in auto)
            then show ?thesis using False by simp
          qed
        qed
        then show ?thesis using op by simp
      qed (auto simp: op start_capture_def intro!: decides_bind)
    next
      case cl
      note p = p [unfolded cl, simplified]
      show ?thesis
      proof (cases "capture_to_close ms")
        case (Inr l)
        have q: "p + 1 \<le> length pt" using p by simp
        have "decides (end_capture (\<lambda>ms s. match pt ms s (p + 1)) ms s) ?Q"
          by (rule decides_cong [OF end_capture_dec [OF at [OF _ q] inv Inr]])
            (use patm_close_iff [OF c [unfolded cl] Inr [unfolded capture_to_close_view [OF inv]]] in auto)
        then show ?thesis using cl by simp
      next
        case (Inl x)
        then show ?thesis using cl by (simp add: end_capture_def)
      qed
    next
      case esc
      note p = p [unfolded esc, simplified] and ce = c [unfolded esc]
      have "decides (rbind (rd pt (p + 1)) (\<lambda>c1.
           if c1 = CHR ''b'' then
             rbind (matchbalance (ms_src ms) pt s (p + 2)) (\<lambda>r.
               case r of None \<Rightarrow> Ok (ms, None) | Some s1 \<Rightarrow> match pt ms s1 (p + 4))
           else if c1 = CHR ''f'' then match_frontier (\<lambda>ms s p'. match pt ms s p') pt ms s (p + 2)
           else if isdigit_c (uchar c1) then
             rbind (match_capture ms s (uchar c1)) (\<lambda>r.
               case r of None \<Rightarrow> Ok (ms, None) | Some s1 \<Rightarrow> match pt ms s1 (p + 2))
           else match_item (\<lambda>ms s p'. match pt ms s p') pt ms s p)) ?Q"
      proof (rule decides_bind)
        fix c1 assume c1: "rd pt (p + 1) = Ok c1"
        consider (b) "c1 = CHR ''b''" | (f) "c1 = CHR ''f''" | (g) "c1 \<noteq> CHR ''b''" "c1 \<noteq> CHR ''f''" "isdigit_c (uchar c1)"
          | (i) "c1 \<noteq> CHR ''b''" "c1 \<noteq> CHR ''f''" "\<not> isdigit_c (uchar c1)" by blast
        then show "decides (if c1 = CHR ''b'' then
             rbind (matchbalance (ms_src ms) pt s (p + 2)) (\<lambda>r.
               case r of None \<Rightarrow> Ok (ms, None) | Some s1 \<Rightarrow> match pt ms s1 (p + 4))
           else if c1 = CHR ''f'' then match_frontier (\<lambda>ms s p'. match pt ms s p') pt ms s (p + 2)
           else if isdigit_c (uchar c1) then
             rbind (match_capture ms s (uchar c1)) (\<lambda>r.
               case r of None \<Rightarrow> Ok (ms, None) | Some s1 \<Rightarrow> match pt ms s1 (p + 2))
           else match_item (\<lambda>ms s p'. match pt ms s p') pt ms s p) ?Q"
        proof cases
          case b
          have p2: "p + 2 \<le> length pt" using rd_Ok [OF c1] b by simp
          show ?thesis unfolding if_P [OF b]
          proof (rule decides_bind)
            fix r assume r: "matchbalance (ms_src ms) pt s (p + 2) = Ok r"
            show "decides (case r of None \<Rightarrow> Ok (ms, None) | Some s1 \<Rightarrow> match pt ms s1 (p + 4)) ?Q"
              using matchbalance_safe [OF s p2] r
              by (intro to patm_balance_iff [OF ce c1 [unfolded b] r]) auto
          qed
        next
          case f
          have p2: "p + 2 \<le> length pt" using rd_Ok [OF c1] f by simp
          have "conts_dec (ms_src ms) pt (p + 2) (\<lambda>ms s p'. match pt ms s p')"
            using k by (simp add: conts_dec_def)
          from match_frontier_dec [OF this inv p2] have "decides (match_frontier (\<lambda>ms s p'. match pt ms s p') pt ms s (p + 2)) ?Q"
            by (rule decides_cong) (simp add: patm_frontier_iff [OF ce c1 [unfolded f]])
          then show ?thesis using f by simp
        next
          case g
          have p2: "p + 2 \<le> length pt" using rd_Ok [OF c1] g(3) by (auto simp: isdigit_c_def uchar_def)
          show ?thesis unfolding if_not_P [OF g(1)] if_not_P [OF g(2)] if_P [OF g(3)]
          proof (rule decides_bind)
            fix r assume r: "match_capture ms s (uchar c1) = Ok r"
            show "decides (case r of None \<Rightarrow> Ok (ms, None) | Some s1 \<Rightarrow> match pt ms s1 (p + 2)) ?Q"
              using match_capture_safe [OF inv, of "uchar c1"] r p2
              by (intro to patm_back_iff [OF ce c1 g(3)]) (auto simp: match_capture_view [OF inv])
          qed
        next
          case i
          then have "is_item pt p" using c c1 esc by (simp add: is_item_def)
          then show ?thesis using i item esc by simp
        qed
      qed
      then show ?thesis using esc by simp
    next
      case d
      note p = p [unfolded d, simplified] and cd = c [unfolded d]
      have "decides (rbind (rd pt (p + 1)) (\<lambda>c1.
           if c1 = NUL then Ok (ms, if s = length (ms_src ms) then Some s else None)
           else match_item (\<lambda>ms s p'. match pt ms s p') pt ms s p)) ?Q"
      proof (rule decides_bind)
        fix c1 assume c1: "rd pt (p + 1) = Ok c1"
        show "decides (if c1 = NUL then Ok (ms, if s = length (ms_src ms) then Some s else None)
           else match_item (\<lambda>ms s p'. match pt ms s p') pt ms s p) ?Q"
        proof (cases "c1 = NUL")
          case True
          then show ?thesis using patm_anchor_iff [OF cd] c1 by simp
        next
          case False
          then have "is_item pt p" using c c1 d by (simp add: is_item_def)
          then show ?thesis using False item d by simp
        qed
      qed
      then show ?thesis using d by simp
    next
      case it
      then have "is_item pt p" using c by (simp add: is_item_def)
      then show ?thesis using it item by simp
    qed
  qed
qed

section \<open>Plain search\<close>

definition occurs_at :: "string \<Rightarrow> string \<Rightarrow> nat \<Rightarrow> bool" where
  "occurs_at s x j \<longleftrightarrow> take (length x) (drop j s) = x"

definition head_at :: "string \<Rightarrow> string \<Rightarrow> nat \<Rightarrow> nat \<Rightarrow> bool" where
  "head_at s s2 l2 j \<longleftrightarrow> s ! j = s2 ! 0 \<and> take l2 (drop (j + 1) s) = take l2 (drop 1 s2)"

lemma lmemfind_loop_spec:
  "case lmemfind_loop s s1 l1 s2 l2 of
     None \<Rightarrow> \<forall>k. s1 \<le> k \<longrightarrow> k < s1 + l1 \<longrightarrow> \<not> head_at s s2 l2 k
   | Some j \<Rightarrow> s1 \<le> j \<and> j < s1 + l1 \<and> head_at s s2 l2 j \<and> (\<forall>k. s1 \<le> k \<longrightarrow> k < j \<longrightarrow> \<not> head_at s s2 l2 k)"
proof (induction s s1 l1 s2 l2 rule: lmemfind_loop.induct)
  case (1 s s1 l1 s2 l2)
  show ?case
  proof (cases "0 < l1")
    case l1: True
    show ?thesis
    proof (cases "memchr s s1 (s2 ! 0) l1")
      case None
      then show ?thesis using memchr_None [OF None] l1
        by (auto simp: lmemfind_loop.simps [of s s1 l1 s2 l2] head_at_def)
    next
      case (Some j)
      note j = memchr_Some [OF Some]
      have before: "\<not> head_at s s2 l2 k" if "s1 \<le> k" "k < j" for k
        using j that by (simp add: head_at_def)
      show ?thesis
      proof (cases "take l2 (drop (j + 1) s) = take l2 (drop 1 s2)")
        case True
        then have "lmemfind_loop s s1 l1 s2 l2 = Some j"
          using Some l1 by (simp add: lmemfind_loop.simps [of s s1 l1 s2 l2])
        then show ?thesis using True j before by (simp add: head_at_def)
      next
        case False
        then have e: "lmemfind_loop s s1 l1 s2 l2 = lmemfind_loop s (j + 1) (l1 - (j + 1 - s1)) s2 l2"
          using Some l1 by (simp add: lmemfind_loop.simps [of s s1 l1 s2 l2])
        have here: "\<not> head_at s s2 l2 j" using False by (simp add: head_at_def)
        have upto: "\<not> head_at s s2 l2 k" if "s1 \<le> k" "k < j + 1" for k
          using that before here by (cases "k = j") auto
        have len: "j + 1 + (l1 - (j + 1 - s1)) = s1 + l1" using j by linarith
        note IH = "1" [OF l1 Some refl False, unfolded len]
        show ?thesis
        proof (cases "lmemfind_loop s (j + 1) (l1 - (j + 1 - s1)) s2 l2")
          case n: None
          have "\<not> head_at s s2 l2 k" if "s1 \<le> k" "k < s1 + l1" for k
            using IH [unfolded n option.case] upto that by (cases "k < j + 1") auto
          then show ?thesis unfolding e n option.case by blast
        next
          case i: (Some i)
          note IH = IH [unfolded i option.case]
          have "\<not> head_at s s2 l2 k" if "s1 \<le> k" "k < i" for k
            using IH upto that by (cases "k < j + 1") auto
          then show ?thesis using IH j unfolding e i option.case by auto
        qed
      qed
    qed
  next
    case False
    then have "lmemfind_loop s s1 l1 s2 l2 = None" unfolding lmemfind_loop.simps [of s s1 l1 s2 l2] by simp
    then show ?thesis using False by simp
  qed
qed

lemma head_at_occurs:
  assumes "x \<noteq> []" "j < length s"
  shows "head_at s x (length x - 1) j \<longleftrightarrow> occurs_at s x j"
proof -
  obtain c x' where x: "x = c # x'" using assms(1) by (cases x) auto
  have "drop j s = s ! j # drop (j + 1) s" using assms(2) by (simp add: Cons_nth_drop_Suc)
  then show ?thesis by (auto simp: x head_at_def occurs_at_def)
qed

lemma lmemfind_first:
  assumes "s1 + l1 \<le> length s"
  shows "case lmemfind s s1 l1 x (length x) of
      None \<Rightarrow> \<forall>k. s1 \<le> k \<longrightarrow> k + length x \<le> s1 + l1 \<longrightarrow> \<not> occurs_at s x k
    | Some j \<Rightarrow> s1 \<le> j \<and> j + length x \<le> s1 + l1 \<and> occurs_at s x j \<and> (\<forall>k. s1 \<le> k \<longrightarrow> k < j \<longrightarrow> \<not> occurs_at s x k)"
proof (cases "x = [] \<or> l1 < length x")
  case True
  then show ?thesis by (auto simp: lmemfind_def occurs_at_def)
next
  case False
  then have x: "x \<noteq> []" "length x \<le> l1" by simp_all
  let ?l = "l1 - (length x - 1)"
  have e: "lmemfind s s1 l1 x (length x) = lmemfind_loop s s1 ?l x (length x - 1)"
    using False by (simp add: lmemfind_def)
  have pos: "0 < length x" using x(1) by simp
  have head: "head_at s x (length x - 1) k \<longleftrightarrow> occurs_at s x k" if "k + length x \<le> s1 + l1" for k
    using that pos assms by (intro head_at_occurs x(1)) linarith
  have lt: "k < s1 + ?l \<longleftrightarrow> k + length x \<le> s1 + l1" for k using pos x(2) by linarith
  note loop = lmemfind_loop_spec [where s = s and ?s1.0 = s1 and ?l1.0 = ?l and ?s2.0 = x and ?l2.0 = "length x - 1", unfolded lt]
  show ?thesis
  proof (cases "lmemfind_loop s s1 ?l x (length x - 1)")
    case None
    then show ?thesis using loop [unfolded None option.case] head unfolding e None option.case by blast
  next
    case (Some j)
    note loop = loop [unfolded Some option.case]
    have "\<not> occurs_at s x k" if "s1 \<le> k" "k < j" for k
      using loop head [of k] that by auto
    then show ?thesis using loop head [of j] unfolding e Some option.case by auto
  qed
qed

end
