(* ===== verification/LuaStrLib.thy ===== *)
theory LuaStrLib
  imports LuaBuffer LuaPatternSpec
begin

text \<open>
  The string library lstrlib.c over the matcher of \<open>LuaPattern\<close> and the buffers of \<open>LuaBuffer\<close>. A C function takes the
  state with its arguments as frame and returns the state and the number of results on the top. \<open>string.dump\<close>
  and the opening of the library are not modelled.
\<close>

type_synonym cfun = "libc \<Rightarrow> world \<Rightarrow> lua_State \<Rightarrow> (lua_State \<times> nat) res"

section \<open>Arguments and results\<close>

definition push_int :: "lua_State \<Rightarrow> u32 \<Rightarrow> lua_State" where
  "push_int S n = api_push S (VNum (cast_num (sint n)))"

definition read_slice :: "string \<Rightarrow> nat \<Rightarrow> nat \<Rightarrow> string res" where
  "read_slice s a n = (if a + n \<le> length s then Ok (take n (drop a s)) else Fail (Undefined ''read behind the string''))"

definition with_buffer :: "libc \<Rightarrow> world \<Rightarrow> lua_State \<Rightarrow> (bstate \<Rightarrow> bstate res) \<Rightarrow> (lua_State \<times> nat) res" where
  "with_buffer C W S f =
     rbind (f (S, luaL_buffinit)) (\<lambda>X. rbind (luaL_pushresult C W X) (\<lambda>(S1, B). Ok (S1, 1)))"

section \<open>Basic functions\<close>

definition str_len :: cfun where
  "str_len C W S = rbind (luaL_checklstring C S 1) (\<lambda>(S1, s). Ok (push_int S1 (of_nat (length s)), 1))"

definition posrelat :: "u32 \<Rightarrow> nat \<Rightarrow> int" where
  "posrelat pos len =
     (let pos = (if sint pos < 0 then pos + (of_nat len + 1) else pos) in if 0 \<le> sint pos then sint pos else 0)"

definition str_sub :: cfun where
  "str_sub C W S =
     rbind (luaL_checklstring C S 1) (\<lambda>(S1, s).
     rbind (luaL_checkinteger (L_stack S1) 2) (\<lambda>i. rbind (luaL_optinteger S1 3 (- 1)) (\<lambda>j.
       let start = posrelat i (length s); e = posrelat j (length s);
           start = (if start < 1 then 1 else start); e = (if int (length s) < e then int (length s) else e) in
       if start \<le> e then rbind (read_slice s (nat (start - 1)) (nat (e - start + 1))) (\<lambda>t. Ok (api_push S1 (VStr t), 1))
       else Ok (api_push S1 (VStr ''''), 1))))"

definition str_reverse :: cfun where
  "str_reverse C W S =
     rbind (luaL_checklstring C S 1) (\<lambda>(S1, s).
       with_buffer C W S1 (\<lambda>X. foldM (\<lambda>c X. luaL_addchar C W X c) (rev s) X))"

definition str_lower :: cfun where
  "str_lower C W S =
     rbind (luaL_checklstring C S 1) (\<lambda>(S1, s).
       with_buffer C W S1 (\<lambda>X. foldM (\<lambda>c X. luaL_addchar C W X (char_of (tolower (uchar c)))) s X))"

definition str_upper :: cfun where
  "str_upper C W S =
     rbind (luaL_checklstring C S 1) (\<lambda>(S1, s).
       with_buffer C W S1 (\<lambda>X. foldM (\<lambda>c X. luaL_addchar C W X (char_of (toupper (uchar c)))) s X))"

primrec rep_loop :: "libc \<Rightarrow> world \<Rightarrow> string \<Rightarrow> nat \<Rightarrow> bstate \<Rightarrow> bstate res" where
  "rep_loop C W s 0 X = Ok X"
| "rep_loop C W s (Suc n) X = rbind (luaL_addlstring C W X s) (rep_loop C W s n)"

definition str_rep :: cfun where
  "str_rep C W S =
     rbind (luaL_checklstring C S 1) (\<lambda>(S1, s). rbind (luaL_checkinteger (L_stack S1) 2) (\<lambda>n.
       with_buffer C W S1 (rep_loop C W s (nat (sint n)))))"

definition str_byte :: cfun where
  "str_byte C W S =
     rbind (luaL_checklstring C S 1) (\<lambda>(S1, s).
     rbind (luaL_optinteger S1 2 1) (\<lambda>i. let posi = posrelat i (length s) in
     rbind (luaL_optinteger S1 3 (word_of_int posi)) (\<lambda>j. let pose = posrelat j (length s);
       posi = (if posi \<le> 0 then 1 else posi); pose = (if int (length s) < pose then int (length s) else pose) in
       if pose < posi then Ok (S1, 0)
       else
         (let n = nat (pose - posi + 1) in
          if posi + int n \<le> pose then Fail (LuaError ''string slice too long'')
          else rbind (luaL_checkstack S1 n ''string slice too long'') (\<lambda>_.
            rbind (read_slice s (nat (posi - 1)) n) (\<lambda>t.
              Ok (foldl (\<lambda>S c. push_int S (of_nat (uchar c))) S1 t, n)))))))"

primrec char_loop :: "libc \<Rightarrow> world \<Rightarrow> nat \<Rightarrow> nat \<Rightarrow> bstate \<Rightarrow> bstate res" where
  "char_loop C W i 0 X = Ok X"
| "char_loop C W i (Suc k) X =
     rbind (luaL_checkinteger (L_stack (fst X)) (int i)) (\<lambda>c.
     rbind (luaL_argcheck (0 \<le> sint c \<and> sint c < 256) (int i) ''invalid value'') (\<lambda>_.
     rbind (luaL_addchar C W X (char_of (nat (sint c)))) (char_loop C W (i + 1) k)))"

definition str_char :: cfun where
  "str_char C W S = with_buffer C W S (char_loop C W 1 (length (L_stack S)))"

section \<open>Captures as results\<close>

text \<open>\<open>se\<close> are the ends of the whole match, \<open>None\<close> for the code's \<open>NULL\<close>.\<close>

definition push_onecapture :: "MatchState \<Rightarrow> nat \<Rightarrow> (nat \<times> nat) option \<Rightarrow> lua_State \<Rightarrow> lua_State res" where
  "push_onecapture ms i se S =
     (if ms_level ms \<le> i then
        (if i = 0 then
           (case se of
              None \<Rightarrow> Fail (Undefined ''no whole match'')
            | Some (s, e) \<Rightarrow> rbind (read_slice (ms_src ms) s (e - s)) (\<lambda>t. Ok (api_push S (VStr t))))
         else Fail (LuaError ''invalid capture index''))
      else
        rbind (aget (ms_capture ms) i) (\<lambda>(init, l).
          if l = CAP_UNFINISHED then Fail (LuaError ''unfinished capture'')
          else if l = CAP_POSITION then Ok (push_int S (of_nat (init + 1)))
          else rbind (read_slice (ms_src ms) init (nat l)) (\<lambda>t. Ok (api_push S (VStr t)))))"

definition push_captures :: "MatchState \<Rightarrow> (nat \<times> nat) option \<Rightarrow> lua_State \<Rightarrow> (lua_State \<times> nat) res" where
  "push_captures ms se S =
     (let nlevels = (if ms_level ms = 0 \<and> se \<noteq> None then 1 else ms_level ms) in
      rbind (luaL_checkstack S nlevels ''too many captures'') (\<lambda>_.
      rbind (foldM (\<lambda>i S. push_onecapture ms i se S) [0..<nlevels] S) (\<lambda>S1. Ok (S1, nlevels))))"

text \<open>The captures of a new \<open>MatchState\<close> are not initialised; \<open>level\<close> says that none is valid.\<close>

definition new_ms :: "string \<Rightarrow> MatchState" where
  "new_ms s = \<lparr>ms_src = s, ms_level = 0, ms_capture = replicate LUA_MAXCAPTURES (0, 0)\<rparr>"

section \<open>Search\<close>

definition strpbrk :: "string \<Rightarrow> string \<Rightarrow> bool" where
  "strpbrk s accept \<longleftrightarrow> (\<exists>c \<in> set (cstr s). c \<in> set accept)"

text \<open>The loop over the places where a match may start: the place and the end of the first match.\<close>

function find_loop :: "string \<Rightarrow> nat \<Rightarrow> bool \<Rightarrow> MatchState \<Rightarrow> nat \<Rightarrow> (MatchState \<times> (nat \<times> nat) option) res" where
  "find_loop pt p anchor ms s1 =
     rbind (match pt (ms\<lparr>ms_level := 0\<rparr>) s1 p) (\<lambda>(ms1, res).
       case res of
         Some e \<Rightarrow> Ok (ms1, Some (s1, e))
       | None \<Rightarrow> if s1 < length (ms_src ms) \<and> \<not> anchor then find_loop pt p anchor (ms1\<lparr>ms_src := ms_src ms\<rparr>) (s1 + 1) else Ok (ms1, None))"
  by pat_completeness auto
termination
  by (relation "measure (\<lambda>(pt, p, anchor, ms, s1). length (ms_src ms) - s1)") auto

declare find_loop.simps [simp del]

definition str_find_aux :: "bool \<Rightarrow> cfun" where
  "str_find_aux fnd C W S =
     rbind (luaL_checklstring C S 1) (\<lambda>(S1, s). rbind (luaL_checklstring C S1 2) (\<lambda>(S2, p).
     rbind (luaL_optinteger S2 3 1) (\<lambda>i. rbind (lua_toboolean (L_stack S2) 4) (\<lambda>plain.
       let init = posrelat i (length s) - 1; init = (if init < 0 then 0 else if int (length s) < init then length s else nat init) in
       if fnd \<and> (plain \<or> \<not> strpbrk p SPECIALS) then
         (case lmemfind s init (length s - init) p (length p) of
            Some j \<Rightarrow> Ok (push_int (push_int S2 (of_nat (j + 1))) (of_nat (j + length p)), 2)
          | None \<Rightarrow> Ok (api_push S2 VNil, 1))
       else
         rbind (rd p 0) (\<lambda>c. let anchor = (c = CHR ''^'') in
         rbind (find_loop p (if anchor then 1 else 0) anchor (new_ms s) init) (\<lambda>(ms, r).
           case r of
             Some (s1, e) \<Rightarrow>
               if fnd then
                 rbind (push_captures ms None (push_int (push_int S2 (of_nat (s1 + 1))) (of_nat e))) (\<lambda>(S3, n). Ok (S3, n + 2))
               else push_captures ms (Some (s1, e)) S2
           | None \<Rightarrow> Ok (api_push S2 VNil, 1)))))))"

definition str_find :: cfun where "str_find = str_find_aux True"
definition str_match :: cfun where "str_match = str_find_aux False"

section \<open>Iteration over matches\<close>

abbreviation lua_upvalueindex :: "int \<Rightarrow> int" where
  "lua_upvalueindex i \<equiv> LUA_GLOBALSINDEX - i"

definition api_tointeger :: "lua_State \<Rightarrow> int \<Rightarrow> u32 res" where
  "api_tointeger S idx =
     rbind (api_value S idx) (\<lambda>v. Ok (case luaV_tonumber v of Some n \<Rightarrow> lua_number2integer n | None \<Rightarrow> 0))"

function gmatch_loop :: "string \<Rightarrow> MatchState \<Rightarrow> nat \<Rightarrow> (MatchState \<times> (nat \<times> nat) option) res" where
  "gmatch_loop p ms src =
     (if src \<le> length (ms_src ms) then
        rbind (match p (ms\<lparr>ms_level := 0\<rparr>) src 0) (\<lambda>(ms1, res).
          case res of Some e \<Rightarrow> Ok (ms1, Some (src, e)) | None \<Rightarrow> gmatch_loop p (ms1\<lparr>ms_src := ms_src ms\<rparr>) (src + 1))
      else Ok (ms, None))"
  by pat_completeness auto
termination
  by (relation "measure (\<lambda>(p, ms, src). length (ms_src ms) + 1 - src)") auto

declare gmatch_loop.simps [simp del]

definition gmatch_aux :: cfun where
  "gmatch_aux C W S =
     rbind (lua_tolstring C S (lua_upvalueindex 1)) (\<lambda>(S1, s). rbind (lua_tolstring C S1 (lua_upvalueindex 2)) (\<lambda>(S2, p).
       case (s, p) of
         (Some s, Some p) \<Rightarrow>
           rbind (api_tointeger S2 (lua_upvalueindex 3)) (\<lambda>i.
           rbind (gmatch_loop p (new_ms s) (unat i)) (\<lambda>(ms, r).
             case r of
               Some (src, e) \<Rightarrow>
                 rbind (lua_replace (push_int S2 (of_nat (if e = src then e + 1 else e))) (lua_upvalueindex 3)) (\<lambda>S3.
                   push_captures ms (Some (src, e)) S3)
             | None \<Rightarrow> Ok (S2, 0)))
       | _ \<Rightarrow> Fail (Undefined ''null string'')))"

definition gmatch :: cfun where
  "gmatch C W S =
     rbind (luaL_checklstring C S 1) (\<lambda>(S1, _). rbind (luaL_checklstring C S1 2) (\<lambda>(S2, _).
     rbind (lua_settop (L_stack S2) 2) (\<lambda>st.
       let ups = st @ [VNum (cast_num 0)] in
       Ok (api_push (S2\<lparr>L_stack := []\<rparr>) (VFun (w_newfun W (S2\<lparr>L_stack := ups\<rparr>) ''gmatch_aux'' ups)), 1))))"

definition gfind_nodef :: cfun where
  "gfind_nodef C W S = Fail (LuaError (CHR 0x27 # ''string.gfind'' @ CHR 0x27 # '' was renamed to '' @ CHR 0x27 # ''string.gmatch'' @ [CHR 0x27]))"

section \<open>Substitution\<close>

text \<open>The loop of \<open>add_s\<close> over the replacement string from place \<open>i\<close> on; \<open>k\<close> characters are left.\<close>

function add_s_loop :: "libc \<Rightarrow> world \<Rightarrow> MatchState \<Rightarrow> string \<Rightarrow> nat \<Rightarrow> nat \<Rightarrow> nat \<Rightarrow> bstate \<Rightarrow> bstate res" where
  "add_s_loop C W ms news s e i X =
     (if i < length news then
        (if news ! i \<noteq> L_ESC then rbind (luaL_addchar C W X (news ! i)) (add_s_loop C W ms news s e (i + 1))
         else
           rbind (rd news (i + 1)) (\<lambda>c.
           rbind (if \<not> isdigit_c (uchar c) then luaL_addchar C W X c
                  else if c = CHR ''0'' then rbind (read_slice (ms_src ms) s (e - s)) (luaL_addlstring C W X)
                  else rbind (push_onecapture ms (uchar c - 49) (Some (s, e)) (fst X)) (\<lambda>S1. luaL_addvalue C W (S1, snd X)))
             (add_s_loop C W ms news s e (i + 2))))
      else Ok X)"
  by pat_completeness auto
termination
  by (relation "measure (\<lambda>(C, W, ms, news, s, e, i, X). length news - i)") auto

declare add_s_loop.simps [simp del]

definition add_s :: "libc \<Rightarrow> world \<Rightarrow> MatchState \<Rightarrow> nat \<Rightarrow> nat \<Rightarrow> bstate \<Rightarrow> bstate res" where
  "add_s C W ms s e X =
     rbind (lua_tolstring C (fst X) 3) (\<lambda>(S1, news).
       case news of None \<Rightarrow> Fail (Undefined ''null string'') | Some news \<Rightarrow> add_s_loop C W ms news s e 0 (S1, snd X))"

definition add_value :: "libc \<Rightarrow> world \<Rightarrow> MatchState \<Rightarrow> nat \<Rightarrow> nat \<Rightarrow> bstate \<Rightarrow> bstate res" where
  "add_value C W ms s e X =
     (let S = fst X; B = snd X in
      rbind (api_type S 3) (\<lambda>t.
        if t = 3 \<or> t = 4 then add_s C W ms s e X
        else
          rbind (if t = 6 then
                   rbind (lua_pushvalue S 3) (\<lambda>S1. rbind (push_captures ms (Some (s, e)) S1) (\<lambda>(S2, n). lua_call W S2 n 1))
                 else if t = 5 then rbind (push_onecapture ms 0 (Some (s, e)) S) (\<lambda>S1. lua_gettable W S1 3)
                 else Ok S) (\<lambda>S3.
          rbind (api_top S3 1) (\<lambda>v.
          rbind (if l_isfalse v then rbind (api_pop S3 1) (\<lambda>S4. rbind (read_slice (ms_src ms) s (e - s)) (\<lambda>t. Ok (api_push S4 (VStr t))))
                 else if ttype v = 4 \<or> ttype v = 3 then Ok S3
                 else Fail (LuaError (''invalid replacement value (a '' @ lua_typename (ttype v) @ '')''))) (\<lambda>S5.
            luaL_addvalue C W (S5, B))))))"

text \<open>The loop of \<open>str_gsub\<close>: every round but the last goes on by at least one character. A pointer
behind the end of the subject has no meaning.\<close>

function gsub_loop :: "libc \<Rightarrow> world \<Rightarrow> string \<Rightarrow> nat \<Rightarrow> bool \<Rightarrow> int \<Rightarrow> MatchState \<Rightarrow> nat \<Rightarrow> int \<Rightarrow> bstate \<Rightarrow> (nat \<times> int \<times> bstate) res" where
  "gsub_loop C W pt p anchor max_s ms src n X =
     (if length (ms_src ms) < src then Fail (Undefined ''behind the subject'')
      else if n < max_s then
        rbind (match pt (ms\<lparr>ms_level := 0\<rparr>) src p) (\<lambda>(ms1, res).
        rbind (case res of None \<Rightarrow> Ok (n, X) | Some e \<Rightarrow> rbind (add_value C W ms1 src e X) (\<lambda>X1. Ok (n + 1, X1))) (\<lambda>(n1, X1).
          let skip =
            (if src < length (ms_src ms) then
               rbind (luaL_addchar C W X1 (ms_src ms ! src)) (\<lambda>X2.
                 if anchor then Ok (src + 1, n1, X2)
                 else gsub_loop C W pt p anchor max_s (ms1\<lparr>ms_src := ms_src ms\<rparr>) (src + 1) n1 X2)
             else Ok (src, n1, X1)) in
          case res of
            Some e \<Rightarrow>
              if src < e then
                (if anchor then Ok (e, n1, X1)
                 else gsub_loop C W pt p anchor max_s (ms1\<lparr>ms_src := ms_src ms\<rparr>) e n1 X1)
              else skip
          | None \<Rightarrow> skip))
      else Ok (src, n, X))"
  by pat_completeness auto
termination
  by (relation "measure (\<lambda>(C, W, pt, p, anchor, max_s, ms, src, n, X). length (ms_src ms) + 1 - src)") auto

declare gsub_loop.simps [simp del]

definition str_gsub :: cfun where
  "str_gsub C W S =
     rbind (luaL_checklstring C S 1) (\<lambda>(S1, src). rbind (luaL_checklstring C S1 2) (\<lambda>(S2, p).
     rbind (api_type S2 3) (\<lambda>tr. rbind (luaL_optinteger S2 4 (of_nat (length src + 1))) (\<lambda>max_s.
     rbind (rd p 0) (\<lambda>c. let anchor = (c = CHR ''^'') in
     rbind (luaL_argcheck (tr = 3 \<or> tr = 4 \<or> tr = 6 \<or> tr = 5) 3 ''string/function/table expected'') (\<lambda>_.
     rbind (gsub_loop C W p (if anchor then 1 else 0) anchor (sint max_s) (new_ms src) 0 0 (S2, luaL_buffinit)) (\<lambda>(pos, n, X).
     rbind (read_slice src pos (length src - pos)) (\<lambda>t.
     rbind (luaL_addlstring C W X t) (\<lambda>X1.
     rbind (luaL_pushresult C W X1) (\<lambda>(S3, B). Ok (push_int S3 (word_of_int n), 2)))))))))))"

section \<open>Formatting\<close>

definition MAX_ITEM :: nat where "MAX_ITEM = 512"
definition FLAGS :: string where "FLAGS = ''-+ #0''"
definition LUA_INTFRMLEN :: string where "LUA_INTFRMLEN = ''l''"
definition MAX_FORMAT :: nat where "MAX_FORMAT = (length FLAGS + 1) + (length LUA_INTFRMLEN + 1) + 10"

definition quote_char :: "char \<Rightarrow> string" where
  "quote_char c =
     (if c = CHR 0x22 \<or> c = CHR 0x5C \<or> c = CHR 0x0A then [CHR 0x5C, c]
      else if c = CHR 0x0D then [CHR 0x5C, CHR ''r'']
      else if c = NUL then [CHR 0x5C, CHR ''0'', CHR ''0'', CHR ''0'']
      else [c])"

definition addquoted :: "libc \<Rightarrow> world \<Rightarrow> int \<Rightarrow> bstate \<Rightarrow> bstate res" where
  "addquoted C W arg X =
     rbind (luaL_checklstring C (fst X) arg) (\<lambda>(S1, s).
     rbind (luaL_addchar C W (S1, snd X) (CHR 0x22)) (\<lambda>X1.
     rbind (foldM (\<lambda>c X. luaL_addlstring C W X (quote_char c)) s X1) (\<lambda>X2.
       luaL_addchar C W X2 (CHR 0x22))))"

text \<open>The first place from \<open>i\<close> on without a flag.\<close>

function skip_flags :: "string \<Rightarrow> nat \<Rightarrow> nat res" where
  "skip_flags s i =
     rbind (rd s i) (\<lambda>c. if c \<noteq> NUL \<and> c \<in> set FLAGS then skip_flags s (i + 1) else Ok i)"
  by pat_completeness auto
termination
  by (relation "measure (\<lambda>(s, i). length s - i)") (auto dest: rd_Ok)

declare skip_flags.simps [simp del]

definition skip_digit :: "string \<Rightarrow> nat \<Rightarrow> nat res" where
  "skip_digit s i = rbind (rd s i) (\<lambda>c. Ok (if isdigit_c (uchar c) then i + 1 else i))"

text \<open>A string written to \<open>form\<close>, in \<open>n\<close> bytes.\<close>

definition in_form :: "nat \<Rightarrow> string \<Rightarrow> string res" where
  "in_form n form = (if n \<le> MAX_FORMAT then Ok form else Fail (Undefined ''form too small''))"

text \<open>The place of the conversion character and the format of the item, which starts behind the percent sign at \<open>i\<close>.\<close>

definition scanformat :: "string \<Rightarrow> nat \<Rightarrow> (nat \<times> string) res" where
  "scanformat s i =
     rbind (skip_flags s i) (\<lambda>p1.
       if length FLAGS + 1 \<le> p1 - i then Fail (LuaError ''invalid format (repeated flags)'')
       else rbind (skip_digit s p1) (\<lambda>p2. rbind (skip_digit s p2) (\<lambda>p3. rbind (rd s p3) (\<lambda>c.
            rbind (if c = CHR ''.'' then rbind (skip_digit s (p3 + 1)) (skip_digit s) else Ok p3) (\<lambda>p.
            rbind (rd s p) (\<lambda>c.
              if isdigit_c (uchar c) then Fail (LuaError ''invalid format (width or precision too long)'')
              else rbind (in_form (p - i + 3) (CHR ''%'' # cstr (take (p - i + 1) (drop i (s @ [NUL]))))) (\<lambda>form. Ok (p, form))))))))"

definition addintlen :: "string \<Rightarrow> string res" where
  "addintlen form =
     (if form = [] then Fail (Undefined ''empty form'')
      else in_form (length form + length LUA_INTFRMLEN + 1) (butlast form @ LUA_INTFRMLEN @ [last form]))"

text \<open>The conversions of a double to \<open>int\<close> (or \<open>long\<close>) and to \<open>unsigned long\<close>, which C defines in range only.\<close>

definition cast_long :: "lua_Number \<Rightarrow> int res" where
  "cast_long d =
     (if \<not> dbl_isnan d \<and> \<not> dbl_isinf d \<and> - (2 ^ 31) \<le> dbl_trunc d \<and> dbl_trunc d < 2 ^ 31 then Ok (dbl_trunc d)
      else Fail (Undefined ''double out of the range of long''))"

definition cast_ulong :: "lua_Number \<Rightarrow> nat res" where
  "cast_ulong d =
     (if \<not> dbl_isnan d \<and> \<not> dbl_isinf d \<and> 0 \<le> dbl_trunc d \<and> dbl_trunc d < 2 ^ 32 then Ok (nat (dbl_trunc d))
      else Fail (Undefined ''double out of the range of unsigned long''))"

text \<open>The text that \<open>sprintf\<close> leaves in the buffer \<open>buff\<close>, up to its first zero.\<close>

definition in_buff :: "string \<Rightarrow> string res" where
  "in_buff t = (if length t + 1 \<le> MAX_ITEM then Ok (cstr t) else Fail (Undefined ''buff too small''))"

definition format_item :: "libc \<Rightarrow> world \<Rightarrow> int \<Rightarrow> string \<Rightarrow> char \<Rightarrow> bstate \<Rightarrow> bstate res" where
  "format_item C W arg form conv X =
     (let fr = L_stack (fst X) in
      if conv = CHR ''c'' then
        rbind (luaL_checknumber fr arg) (\<lambda>x. rbind (cast_long x) (\<lambda>n. rbind (in_buff (c_print_int C form n)) (luaL_addlstring C W X)))
      else if conv \<in> set ''di'' then
        rbind (addintlen form) (\<lambda>form. rbind (luaL_checknumber fr arg) (\<lambda>x. rbind (cast_long x) (\<lambda>n.
          rbind (in_buff (c_print_int C form n)) (luaL_addlstring C W X))))
      else if conv \<in> set ''ouxX'' then
        rbind (addintlen form) (\<lambda>form. rbind (luaL_checknumber fr arg) (\<lambda>x. rbind (cast_ulong x) (\<lambda>n.
          rbind (in_buff (c_print_unsigned C form n)) (luaL_addlstring C W X))))
      else if conv \<in> set ''eEfgG'' then
        rbind (luaL_checknumber fr arg) (\<lambda>x. rbind (in_buff (c_print_num C form x)) (luaL_addlstring C W X))
      else if conv = CHR ''q'' then addquoted C W arg X
      else if conv = CHR ''s'' then
        rbind (luaL_checklstring C (fst X) arg) (\<lambda>(S1, s).
          if CHR ''.'' \<notin> set form \<and> 100 \<le> length s then
            rbind (lua_pushvalue S1 arg) (\<lambda>S2. luaL_addvalue C W (S2, snd X))
          else rbind (in_buff (c_print_str C form (cstr s))) (luaL_addlstring C W (S1, snd X)))
      else Fail (LuaError (''invalid option '' @ CHR 0x27 # CHR ''%'' # conv # CHR 0x27 # '' to '' @ CHR 0x27 # ''format'' @ [CHR 0x27])))"

lemma skip_flags_ge: "skip_flags s i = Ok p \<Longrightarrow> i \<le> p"
proof (induction s i rule: skip_flags.induct)
  case (1 s i)
  obtain c where c: "rd s i = Ok c" using 1(2) by (subst (asm) skip_flags.simps) (elim rbind_OkE)
  show ?case
  proof (cases "c \<noteq> NUL \<and> c \<in> set FLAGS")
    case True
    then have "skip_flags s (i + 1) = Ok p" using 1(2) c by (simp add: skip_flags.simps [of s i])
    then show ?thesis using 1(1) [OF c True] by simp
  next
    case False
    then show ?thesis using 1(2) c by (auto simp: skip_flags.simps [of s i])
  qed
qed

lemma skip_digit_Ok: "skip_digit s i = Ok p \<Longrightarrow> i \<le> p \<and> p \<le> i + 1"
  by (auto simp: skip_digit_def rbind_Ok_iff split: if_splits)

lemma scanformat_Ok:
  assumes "scanformat s i = Ok (p, form)"
  shows "i \<le> p \<and> p \<le> i + 10"
proof -
  note e = assms [unfolded scanformat_def]
  obtain p1 where p1: "skip_flags s i = Ok p1" using e by (elim rbind_OkE)
  note e = e [unfolded p1 rbind_simps]
  have few: "\<not> length FLAGS + 1 \<le> p1 - i" using e by auto
  note e = e [unfolded if_not_P [OF few]]
  obtain p2 where p2: "skip_digit s p1 = Ok p2" using e by (elim rbind_OkE)
  note e = e [unfolded p2 rbind_simps]
  obtain p3 where p3: "skip_digit s p2 = Ok p3" using e by (elim rbind_OkE)
  note e = e [unfolded p3 rbind_simps]
  obtain c where c: "rd s p3 = Ok c" using e by (elim rbind_OkE)
  note e = e [unfolded c rbind_simps]
  obtain p4 where p4: "(if c = CHR ''.'' then rbind (skip_digit s (p3 + 1)) (skip_digit s) else Ok p3) = Ok p4"
    using e by (elim rbind_OkE)
  note e = e [unfolded p4 rbind_simps]
  have "p4 = p" using e by (auto simp: rbind_Ok_iff split: if_splits)
  moreover have "p3 \<le> p4 \<and> p4 \<le> p3 + 3"
    using p4 by (auto simp: rbind_Ok_iff split: if_splits dest!: skip_digit_Ok)
  ultimately show ?thesis
    using skip_flags_ge [OF p1] skip_digit_Ok [OF p2] skip_digit_Ok [OF p3] few by (auto simp: FLAGS_def)
qed

function format_loop :: "libc \<Rightarrow> world \<Rightarrow> string \<Rightarrow> nat \<Rightarrow> int \<Rightarrow> bstate \<Rightarrow> bstate res" where
  "format_loop C W s i arg X =
     (if i < length s then
        (if s ! i \<noteq> L_ESC then rbind (luaL_addchar C W X (s ! i)) (format_loop C W s (i + 1) arg)
         else
           rbind (rd s (i + 1)) (\<lambda>c.
             if c = L_ESC then rbind (luaL_addchar C W X c) (format_loop C W s (i + 2) arg)
             else
               rbind (scanformat s (i + 1)) (\<lambda>(p, form). rbind (rd s p) (\<lambda>conv.
                 rbind (format_item C W (arg + 1) form conv X) (format_loop C W s (p + 1) (arg + 1))))))
      else Ok X)"
  by pat_completeness auto
termination
  by (relation "measure (\<lambda>(C, W, s, i, arg, X). length s - i)") (auto dest!: scanformat_Ok)

declare format_loop.simps [simp del]

definition str_format :: cfun where
  "str_format C W S =
     rbind (luaL_checklstring C S 1) (\<lambda>(S1, s). with_buffer C W S1 (format_loop C W s 0 1))"

section \<open>The library\<close>

definition strlib :: "(string \<times> cfun) list" where
  "strlib =
     [(''byte'', str_byte), (''char'', str_char), (''find'', str_find), (''format'', str_format), (''gfind'', gfind_nodef),
      (''gmatch'', gmatch), (''gsub'', str_gsub), (''len'', str_len), (''lower'', str_lower), (''match'', str_match),
      (''rep'', str_rep), (''reverse'', str_reverse), (''sub'', str_sub), (''upper'', str_upper)]"

end
