(* ===== verification/LuaStrLibProps.thy ===== *)
theory LuaStrLibProps
  imports LuaStrLib
begin

text \<open>
  The string library against specifications: \<open>string.find\<close> and \<open>string.match\<close> find the leftmost place where the pattern
  can match, in the sense of \<open>LuaPatternSpec\<close>, and plain searches the first occurrence; \<open>string.gsub\<close> that puts every match
  back gives the subject back; \<open>string.char\<close> undoes \<open>string.byte\<close>; \<open>string.sub\<close> cuts what the manual says; the
  scanner of formats stays inside its buffer.
\<close>

section \<open>Arguments\<close>

lemma arg_str [api_simps]:
  assumes "1 \<le> i" "i \<le> length (L_stack S)" "L_stack S ! (i - 1) = VStr s"
  shows "luaL_checklstring C S (int i) = Ok (S, s)"
  using assms by (simp add: luaL_checklstring_def lua_tolstring_def index_value_def index2adr_def)

lemma api_type_pos: "0 < i \<Longrightarrow> api_type S i = Ok (if nat i \<le> length (L_stack S) then ttype (L_stack S ! (nat i - 1)) else - 1)"
  by (simp add: api_type_def index_value_def index2adr_def)

lemma optinteger_none: "length (L_stack S) < nat i \<Longrightarrow> luaL_optinteger S i d = Ok d"
  by (simp add: luaL_optinteger_def lua_isnoneornil_def api_type_pos)

lemma optinteger_num:
  "0 < i \<Longrightarrow> nat i \<le> length (L_stack S) \<Longrightarrow> L_stack S ! (nat i - 1) = VNum x \<Longrightarrow> luaL_optinteger S i d = Ok (lua_number2integer x)"
  by (simp add: luaL_optinteger_def lua_isnoneornil_def api_type_pos luaL_checkinteger_num)

section \<open>Search\<close>

text \<open>There is a match of the pattern from \<open>p\<close> on that starts at \<open>k\<close>.\<close>

definition matches_at :: "string \<Rightarrow> string \<Rightarrow> nat \<Rightarrow> nat \<Rightarrow> bool" where
  "matches_at src pt p k \<longleftrightarrow> (\<exists>v e. patm src pt [] k p v e)"

text \<open>The specification of a search from \<open>init\<close>.\<close>

definition leftmost :: "string \<Rightarrow> string \<Rightarrow> nat \<Rightarrow> bool \<Rightarrow> nat \<Rightarrow> MatchState \<Rightarrow> (nat \<times> nat) option \<Rightarrow> bool" where
  "leftmost src pt p anchor init ms r \<longleftrightarrow>
     (case r of
        Some (k, e) \<Rightarrow>
          init \<le> k \<and> k \<le> e \<and> e \<le> length src \<and> (anchor \<longrightarrow> k = init) \<and> patm src pt [] k p (view ms) e \<and>
          caps_inv ms e \<and> ms_src ms = src \<and> (\<forall>j. init \<le> j \<longrightarrow> j < k \<longrightarrow> \<not> matches_at src pt p j)
      | None \<Rightarrow> \<forall>j. init \<le> j \<longrightarrow> j \<le> (if anchor then init else length src) \<longrightarrow> \<not> matches_at src pt p j)"

lemma caps_inv_reset: "length (ms_capture ms) = LUA_MAXCAPTURES \<Longrightarrow> s \<le> length (ms_src ms) \<Longrightarrow> caps_inv (ms\<lparr>ms_level := 0\<rparr>) s"
  by (simp add: caps_inv_def)

lemma match_start:
  assumes "length (ms_capture ms) = LUA_MAXCAPTURES" "s \<le> length (ms_src ms)" "p \<le> length pt"
  shows "post (match pt (ms\<lparr>ms_level := 0\<rparr>) s p) (\<lambda>(ms1, res).
    ms_src ms1 = ms_src ms \<and> length (ms_capture ms1) = LUA_MAXCAPTURES \<and>
    (case res of
       Some e \<Rightarrow> s \<le> e \<and> e \<le> length (ms_src ms) \<and> caps_inv ms1 e \<and> patm (ms_src ms) pt [] s p (view ms1) e
     | None \<Rightarrow> \<not> matches_at (ms_src ms) pt p s))"
proof -
  let ?ms = "ms\<lparr>ms_level := 0\<rparr>"
  have inv: "caps_inv ?ms s" by (rule caps_inv_reset [OF assms(1, 2)])
  have v: "view ?ms = []" by (simp add: view_def)
  have p: "post (match pt ?ms s p) (match_post ?ms s)" by (rule match_post_safe [OF inv assms(3)])
  have d: "decides (match pt ?ms s p) (patm (ms_src ms) pt [] s p)" using match_decides [OF inv assms(3)] v by simp
  show ?thesis
  proof (cases "match pt ?ms s p")
    case (Inr r)
    obtain ms1 res where [simp]: "r = (ms1, res)" by (cases r)
    show ?thesis
    proof (cases res)
      case None
      then show ?thesis using p d Inr assms(1) by (simp add: caps_same_def matches_at_def)
    next
      case (Some e)
      then show ?thesis using p d Inr by (auto simp: caps_inv_def)
    qed
  next
    case (Inl x)
    then show ?thesis using p by (cases x) (simp_all add: post_def)
  qed
qed

lemma find_loop_spec:
  "length (ms_capture ms) = LUA_MAXCAPTURES \<Longrightarrow> init \<le> length (ms_src ms) \<Longrightarrow> p \<le> length pt \<Longrightarrow>
   post (find_loop pt p anchor ms init) (\<lambda>(ms', r). leftmost (ms_src ms) pt p anchor init ms' r)"
proof (induction "length (ms_src ms) - init" arbitrary: ms init rule: less_induct)
  case less
  show ?case
    unfolding find_loop.simps [of pt p anchor ms init]
  proof (rule post_bind [OF match_start [OF less.prems]])
    fix x assume x: "case x of (ms1, res) \<Rightarrow> ms_src ms1 = ms_src ms \<and> length (ms_capture ms1) = LUA_MAXCAPTURES \<and>
      (case res of Some e \<Rightarrow> init \<le> e \<and> e \<le> length (ms_src ms) \<and> caps_inv ms1 e \<and> patm (ms_src ms) pt [] init p (view ms1) e
       | None \<Rightarrow> \<not> matches_at (ms_src ms) pt p init)"
    obtain ms1 res where [simp]: "x = (ms1, res)" by (cases x)
    have src: "ms_src ms1 = ms_src ms" and len: "length (ms_capture ms1) = LUA_MAXCAPTURES" using x by simp_all
    show "post (case x of (ms1, res) \<Rightarrow> case res of Some e \<Rightarrow> Ok (ms1, Some (init, e))
        | None \<Rightarrow> if init < length (ms_src ms) \<and> \<not> anchor then find_loop pt p anchor (ms1\<lparr>ms_src := ms_src ms\<rparr>) (init + 1) else Ok (ms1, None))
      (\<lambda>(ms', r). leftmost (ms_src ms) pt p anchor init ms' r)"
    proof (cases res)
      case (Some e)
      then show ?thesis using x by (simp add: leftmost_def)
    next
      case None
      then have no: "\<not> matches_at (ms_src ms) pt p init" using x by simp
      show ?thesis
      proof (cases "init < length (ms_src ms) \<and> \<not> anchor")
        case True
        have ms: "ms1\<lparr>ms_src := ms_src ms\<rparr> = ms1" using src by simp
        have "post (find_loop pt p anchor ms1 (init + 1)) (\<lambda>(ms', r). leftmost (ms_src ms1) pt p anchor (init + 1) ms' r)"
          by (rule less.hyps) (use True src len less.prems(3) in auto)
        then have "post (find_loop pt p anchor ms1 (init + 1)) (\<lambda>(ms', r). leftmost (ms_src ms) pt p anchor init ms' r)"
        proof (rule post_mono, clarify)
          fix ms' r assume l: "leftmost (ms_src ms1) pt p anchor (init + 1) ms' r"
          have all: "\<not> matches_at (ms_src ms) pt p j" if "\<forall>j. init + 1 \<le> j \<longrightarrow> j < k \<longrightarrow> \<not> matches_at (ms_src ms) pt p j" "init \<le> j" "j < k" for j k
            using that no by (cases "j = init") auto
          show "leftmost (ms_src ms) pt p anchor init ms' r"
          proof (cases r)
            case (Some ke)
            then show ?thesis using l True all [of "fst ke"] unfolding leftmost_def src by (cases ke) auto
          next
            case None
            then show ?thesis using l True all [of "length (ms_src ms) + 1"] unfolding leftmost_def src by (auto simp: less_Suc_eq_le)
          qed
        qed
        then show ?thesis using True None ms by simp
      next
        case False
        then show ?thesis using None no less.prems(2) by (auto simp: leftmost_def)
      qed
    qed
  qed
qed

lemma read_slice_safe: "a + n \<le> length s \<Longrightarrow> read_slice s a n = Ok (take n (drop a s))"
  by (simp add: read_slice_def)

lemma push_onecapture_safe:
  assumes "caps_inv ms e0" "i < ms_level ms \<or> i = 0 \<and> (\<exists>s e. se = Some (s, e) \<and> s \<le> e \<and> e \<le> length (ms_src ms))"
  shows "post (push_onecapture ms i se S) (\<lambda>S'. length (L_stack S') = length (L_stack S) + 1)"
proof (cases "i < ms_level ms")
  case True
  then have i: "i < length (ms_capture ms)" "cap_in e0 (ms_capture ms ! i)" and e0: "e0 \<le> length (ms_src ms)"
    using assms(1) by (auto simp: caps_inv_def)
  obtain init l where c: "ms_capture ms ! i = (init, l)" by (cases "ms_capture ms ! i")
  show ?thesis
  proof (cases "l = CAP_UNFINISHED \<or> l = CAP_POSITION")
    case False
    then have "init + nat l \<le> length (ms_src ms)" using i(2) e0 c by (auto simp: cap_in_def)
    then show ?thesis using True False i c by (simp add: push_onecapture_def read_slice_safe)
  qed (use True i c in \<open>auto simp: push_onecapture_def push_int_def\<close>)
next
  case False
  then show ?thesis using assms(2) by (auto simp: push_onecapture_def read_slice_safe)
qed

lemma foldM_push_safe:
  fixes S :: lua_State and f :: "nat \<Rightarrow> lua_State \<Rightarrow> lua_State res"
  assumes "\<And>i S. i \<in> set is \<Longrightarrow> post (f i S) (\<lambda>S'. length (L_stack S') = length (L_stack S) + 1)"
  shows "post (foldM f is S) (\<lambda>S'. length (L_stack S') = length (L_stack S) + length is)"
  using assms
proof (induction "is" arbitrary: S)
  case (Cons i "is")
  show ?case unfolding foldM.simps
  proof (rule post_bind [OF Cons.prems [of i S]])
    fix S1 :: lua_State assume "length (L_stack S1) = length (L_stack S) + 1"
    then show "post (foldM f is S1) (\<lambda>S'. length (L_stack S') = length (L_stack S) + length (i # is))"
      using Cons.IH [of S1] Cons.prems by (auto elim: post_mono)
  qed simp
qed simp

lemma push_captures_safe:
  assumes "caps_inv ms e0" "\<And>s e. se = Some (s, e) \<Longrightarrow> s \<le> e \<and> e \<le> length (ms_src ms)"
  shows "post (push_captures ms se S)
    (\<lambda>(S', n). n = (if ms_level ms = 0 \<and> se \<noteq> None then 1 else ms_level ms) \<and> length (L_stack S') = length (L_stack S) + n)"
proof -
  let ?n = "if ms_level ms = 0 \<and> se \<noteq> None then 1 else ms_level ms"
  have "post (foldM (\<lambda>i S. push_onecapture ms i se S) [0..<?n] S) (\<lambda>S'. length (L_stack S') = length (L_stack S) + length [0..<?n])"
  proof (rule foldM_push_safe, rule push_onecapture_safe [OF assms(1)])
    fix i assume "i \<in> set [0..<?n]"
    then show "i < ms_level ms \<or> i = 0 \<and> (\<exists>s e. se = Some (s, e) \<and> s \<le> e \<and> e \<le> length (ms_src ms))"
      using assms(2) by (cases se) (auto split: if_splits)
  qed
  then have "post (rbind (foldM (\<lambda>i S. push_onecapture ms i se S) [0..<?n] S) (\<lambda>S1. Ok (S1, ?n)))
      (\<lambda>(S', n). n = ?n \<and> length (L_stack S') = length (L_stack S) + n)"
    by (rule post_bind) simp
  then show ?thesis
    unfolding push_captures_def Let_def luaL_checkstack_def
    by (cases "lua_checkstack S ?n") (simp_all only: if_True if_False rbind_simps post_simps)
qed

lemma new_ms_simps [simp]: "ms_src (new_ms s) = s" "length (ms_capture (new_ms s)) = LUA_MAXCAPTURES"
  by (simp_all add: new_ms_def)

lemma posrelat_1: "length s < 2 ^ 31 \<Longrightarrow> posrelat 1 (length s) = 1"
  by (simp add: posrelat_def)

lemma rd_0: "\<exists>c. rd p 0 = Ok c \<and> (c = CHR ''^'' \<longrightarrow> 1 \<le> length p)"
  by (cases p) (auto simp: rd_def)

lemma toboolean_none: "0 < i \<Longrightarrow> length st < nat i \<Longrightarrow> lua_toboolean st i = Ok False"
  by (simp add: lua_toboolean_def index2adr_def)

text \<open>C9: a call \<open>string.find(s, p)\<close> with a pattern that has special characters reports the leftmost match of the
pattern (behind its anchor, which allows the first place only), by its first position, counted from 1, and its last, and pushes
the captures behind them; or nil, when the pattern matches nowhere; or it raises a Lua error. No step of it is undefined.\<close>

theorem string_find_leftmost:
  assumes "L_stack S = [VStr s, VStr p]" and "length s < 2 ^ 31" and "strpbrk p SPECIALS"
  shows "case str_find C W S of
      Inl e \<Rightarrow> \<exists>m. e = LuaError m
    | Inr (S', n) \<Rightarrow> \<exists>ms r. leftmost s p (if hd p = CHR ''^'' then 1 else 0) (hd p = CHR ''^'') 0 ms r \<and>
        (case r of
           None \<Rightarrow> n = 1 \<and> S' = api_push S VNil
         | Some (k, e) \<Rightarrow> n = ms_level ms + 2 \<and>
             push_captures ms None (push_int (push_int S (of_nat (k + 1))) (of_nat e)) = Ok (S', ms_level ms))"
proof -
  have p: "p \<noteq> []" using assms(3) by (auto simp: strpbrk_def cstr_def)
  have a: "luaL_checklstring C S 1 = Ok (S, s)" "luaL_checklstring C S 2 = Ok (S, p)"
    using arg_str [of 1 S s C] arg_str [of 2 S p C] assms(1) by simp_all
  have o: "luaL_optinteger S 3 1 = Ok 1" "lua_toboolean (L_stack S) 4 = Ok False"
    using assms(1) by (simp_all add: optinteger_none toboolean_none)
  let ?a = "hd p = CHR ''^''" and ?p = "if hd p = CHR ''^'' then 1 else 0 :: nat"
  have c: "rd p 0 = Ok (hd p)" using p by (cases p) (simp_all add: rd_def)
  have loop: "post (find_loop p ?p ?a (new_ms s) 0) (\<lambda>(ms, r). leftmost s p ?p ?a 0 ms r)"
    using find_loop_spec [of "new_ms s" 0 ?p p ?a] p by (cases p) auto
  have e: "str_find C W S =
      rbind (find_loop p ?p ?a (new_ms s) 0) (\<lambda>(ms, r).
        case r of
          Some (s1, e) \<Rightarrow> rbind (push_captures ms None (push_int (push_int S (of_nat (s1 + 1))) (of_nat e))) (\<lambda>(S3, n). Ok (S3, n + 2))
        | None \<Rightarrow> Ok (api_push S VNil, 1))"
    unfolding str_find_def str_find_aux_def a o rbind_simps prod.case Let_def posrelat_1 [OF assms(2)] c
    by (simp only: assms(3) simp_thms if_True if_False diff_self less_irrefl of_nat_less_0_iff nat_0)
  show ?thesis
  proof (cases "find_loop p ?p ?a (new_ms s) 0")
    case (Inl x)
    then show ?thesis using loop e by (cases x) (simp_all add: post_def)
  next
    case (Inr y)
    obtain ms r where y: "y = (ms, r)" by (cases y) auto
    have l: "leftmost s p ?p ?a 0 ms r" using loop Inr y by simp
    show ?thesis
    proof (cases r)
      case None
      have e: "str_find C W S = Ok (api_push S VNil, 1)" unfolding e Inr y None by simp
      show ?thesis unfolding e sum.case prod.case
        by (intro exI [of _ ms] exI [of _ r] conjI l) (simp add: None)
    next
      case (Some ke)
      obtain k x where ke: "ke = (k, x)" by (cases ke)
      have caps: "caps_inv ms x" "ms_src ms = s" using l Some ke by (simp_all add: leftmost_def)
      let ?T = "push_int (push_int S (of_nat (k + 1))) (of_nat x)"
      have pc: "post (push_captures ms None ?T) (\<lambda>(S3, n). n = ms_level ms)"
        by (rule post_mono [OF push_captures_safe [OF caps(1)]]) auto
      have e: "str_find C W S = rbind (push_captures ms None ?T) (\<lambda>(S3, n). Ok (S3, n + 2))"
        unfolding e Inr y Some ke by simp
      show ?thesis
      proof (cases "push_captures ms None ?T")
        case (Inl z)
        then show ?thesis using pc e by (cases z) (simp_all add: post_def)
      next
        case (Inr z)
        obtain S3 n where z: "z = (S3, n)" by (cases z)
        then have "n = ms_level ms" using pc Inr by simp
        then have pcz: "push_captures ms None ?T = Ok (S3, ms_level ms)" using Inr z by simp
        have e: "str_find C W S = Ok (S3, ms_level ms + 2)" unfolding e pcz by simp
        have l: "leftmost s p ?p ?a 0 ms (Some (k, x))" using l unfolding Some ke .
        show ?thesis unfolding e sum.case prod.case
          by (intro exI [of _ ms] exI [of _ "Some (k, x)"] conjI l) (simp only: option.case prod.case pcz simp_thms)
      qed
    qed
  qed
qed

theorem string_find_leftmost_witness:
  "\<forall>C W. case str_find C W (call_state [VStr ''hello'', VStr ''l+'']) of
      Inl e \<Rightarrow> \<exists>m. e = LuaError m
    | Inr (S', n) \<Rightarrow> \<exists>ms r. leftmost ''hello'' ''l+'' 0 False 0 ms r \<and>
        (case r of
           None \<Rightarrow> n = 1 \<and> S' = api_push (call_state [VStr ''hello'', VStr ''l+'']) VNil
         | Some (k, e) \<Rightarrow> n = ms_level ms + 2 \<and>
             push_captures ms None (push_int (push_int (call_state [VStr ''hello'', VStr ''l+'']) (of_nat (k + 1))) (of_nat e)) = Ok (S', ms_level ms))"
proof (intro allI)
  fix C W
  have h: "(hd ''l+'' = CHR ''^'') = False" and len: "length ''hello'' < 2 ^ 31" by simp_all
  have s: "strpbrk ''l+'' SPECIALS" by (simp add: strpbrk_def cstr_def SPECIALS_def)
  show "case str_find C W (call_state [VStr ''hello'', VStr ''l+'']) of
      Inl e \<Rightarrow> \<exists>m. e = LuaError m
    | Inr (S', n) \<Rightarrow> \<exists>ms r. leftmost ''hello'' ''l+'' 0 False 0 ms r \<and>
        (case r of
           None \<Rightarrow> n = 1 \<and> S' = api_push (call_state [VStr ''hello'', VStr ''l+'']) VNil
         | Some (k, e) \<Rightarrow> n = ms_level ms + 2 \<and>
             push_captures ms None (push_int (push_int (call_state [VStr ''hello'', VStr ''l+'']) (of_nat (k + 1))) (of_nat e)) = Ok (S', ms_level ms))"
    using string_find_leftmost [where C = C and W = W, OF call_state_stack len s] by (simp only: h if_False)
qed

section \<open>Substitution\<close>

lemma add_s_whole:
  assumes "holds_str S (S1, B) t" "s \<le> e" "e \<le> length (ms_src ms)" "length t + (e - s) < MAX_SIZET"
    and "3 \<le> length (L_stack S)" "L_stack S ! 2 = VStr ''%0''"
  shows "\<exists>X'. add_s C W ms s e (S1, B) = Ok X' \<and> holds_str S X' (t @ take (e - s) (drop s (ms_src ms)))"
proof -
  let ?w = "take (e - s) (drop s (ms_src ms))"
  have st: "L_stack S1 ! 2 = VStr ''%0''" "3 \<le> length (L_stack S1)" using assms(1, 5, 6) by (auto simp: holds_str_def nth_append)
  have n: "lua_tolstring C S1 3 = Ok (S1, Some ''%0'')"
    using st by (simp add: lua_tolstring_def index_value_def index2adr_def numeral_2_eq_2)
  have w: "read_slice (ms_src ms) s (e - s) = Ok ?w" using assms(2, 3) by (simp add: read_slice_def)
  obtain X1 where X1: "luaL_addlstring C W (S1, B) ?w = Ok X1" "holds_str S X1 (t @ ?w)"
  proof -
    have "length t + length ?w < MAX_SIZET" using assms(4) by simp
    then show thesis using addlstring_ok [OF assms(1), of ?w C W] that by blast
  qed
  have "add_s_loop C W ms ''%0'' s e 0 (S1, B) = Ok X1"
    using w X1(1) by (simp add: add_s_loop.simps [of C W ms _ s e 0] add_s_loop.simps [of C W ms _ s e "Suc (Suc 0)"]
      rd_def isdigit_c_def uchar_def numeral_2_eq_2)
  then show ?thesis using n X1(2) by (simp add: add_s_def)
qed

lemma add_value_whole:
  assumes "holds_str S X t" "s \<le> e" "e \<le> length (ms_src ms)" "length t + (e - s) < MAX_SIZET"
    and "3 \<le> length (L_stack S)" "L_stack S ! 2 = VStr ''%0''"
  shows "\<exists>X'. add_value C W ms s e X = Ok X' \<and> holds_str S X' (t @ take (e - s) (drop s (ms_src ms)))"
proof -
  obtain S1 B where X: "X = (S1, B)" by (cases X)
  have st: "L_stack S1 ! 2 = VStr ''%0''" "3 \<le> length (L_stack S1)"
    using assms(1, 5, 6) by (auto simp: X holds_str_def nth_append)
  then have "api_type S1 3 = Ok 4" by (simp add: api_type_pos numeral_2_eq_2)
  then show ?thesis using add_s_whole [OF assms(1) [unfolded X] assms(2-6), of C W] by (simp add: add_value_def X)
qed

lemma take_add_slice: "s \<le> e \<Longrightarrow> take s xs @ take (e - s) (drop s xs) = take e xs"
  by (metis take_add le_add_diff_inverse)

lemma gsub_loop_whole:
  assumes "3 \<le> length (L_stack S)" "L_stack S ! 2 = VStr ''%0''" "p \<le> length pt"
  shows "length (ms_capture ms) = LUA_MAXCAPTURES \<Longrightarrow> src \<le> length (ms_src ms) \<Longrightarrow> length (ms_src ms) < MAX_SIZET \<Longrightarrow>
    holds_str S X (take src (ms_src ms)) \<Longrightarrow>
    post (gsub_loop C W pt p anchor max_s ms src n X) (\<lambda>(pos, n', X'). pos \<le> length (ms_src ms) \<and> holds_str S X' (take pos (ms_src ms)))"
proof (induction "length (ms_src ms) - src" arbitrary: ms src n X rule: less_induct)
  case less
  note cap = less.prems(1) and le = less.prems(2) and max = less.prems(3) and holds = less.prems(4)
  let ?s = "ms_src ms"
  let ?Q = "\<lambda>(pos, n', X'). pos \<le> length ?s \<and> holds_str S X' (take pos ?s)"
  show ?case
  proof (cases "n < max_s")
    case False
    then show ?thesis using le holds by (simp add: gsub_loop.simps [of C W pt p anchor max_s ms src n X])
  next
    case n: True
    have nb: "\<not> length ?s < src" using le by simp
    show ?thesis
      unfolding gsub_loop.simps [of C W pt p anchor max_s ms src n X] if_not_P [OF nb] if_P [OF n]
    proof (rule post_bind [OF match_start [OF cap le assms(3)]], goal_cases)
      case (1 x)
      obtain ms1 res where x: "x = (ms1, res)" by (cases x)
      have src: "ms_src ms1 = ?s" and len: "length (ms_capture ms1) = LUA_MAXCAPTURES" using 1(2) by (simp_all add: x)
      have ms1: "ms1\<lparr>ms_src := ?s\<rparr> = ms1" using src by simp
      have rec: "post (gsub_loop C W pt p anchor max_s ms1 k n1 X1) ?Q"
        if "src < k" "k \<le> length ?s" "holds_str S X1 (take k ?s)" for k n1 X1
        using less.hyps [of ms1 k X1 n1] that src len max le by simp
      have skip: "post (if src < length ?s then
            rbind (luaL_addchar C W X1 (?s ! src)) (\<lambda>X2.
              if anchor then Ok (src + 1, n1, X2) else gsub_loop C W pt p anchor max_s ms1 (src + 1) n1 X2)
          else Ok (src, n1, X1)) ?Q" if h1: "holds_str S X1 (take src ?s)" for n1 X1
      proof (cases "src < length ?s")
        case True
        have "length (take src ?s) + 1 < MAX_SIZET" using True max by simp
        then obtain X2 where X2: "luaL_addchar C W X1 (?s ! src) = Ok X2" "holds_str S X2 (take src ?s @ [?s ! src])"
          using addchar_ok [OF h1, of C W "?s ! src"] by blast
        then show ?thesis using True rec [of "src + 1" X2 n1] by (cases anchor) (simp_all add: take_Suc_conv_app_nth)
      qed (use h1 le in simp)
      show ?case
      proof (cases res)
        case None
        then show ?thesis using skip [OF holds, of n] by (simp only: x prod.case option.case rbind_simps Let_def ms1)
      next
        case (Some e)
        then have e: "src \<le> e" "e \<le> length ?s" using 1(2) by (simp_all add: x)
        obtain X1 where X1: "add_value C W ms1 src e X = Ok X1" "holds_str S X1 (take e ?s)"
        proof -
          have "length (take src ?s) + (e - src) < MAX_SIZET" using e max by simp
          then show thesis
            using add_value_whole [OF holds e(1), of ms1 C W] e(2) src assms(1, 2) take_add_slice [OF e(1), of ?s] that by auto
        qed
        show ?thesis
        proof (cases "src < e")
          case True
          then show ?thesis using rec [OF True e(2) X1(2), of "n + 1"] X1 e
            by (cases anchor) (simp_all only: x Some prod.case option.case rbind_simps Let_def ms1 if_True if_False post_simps simp_thms)
        next
          case False
          then have "e = src" using e by simp
          then show ?thesis using skip [of X1 "n + 1"] X1 False
            by (simp only: x Some prod.case option.case rbind_simps Let_def ms1 if_False)
        qed
      qed
    qed
  qed
qed

text \<open>C18: \<open>string.gsub(s, p, "%0")\<close> puts every match back as it was: whatever the pattern, the result is the subject,
with the number of replacements, or the call raises a Lua error; the loop ends and no step is undefined.\<close>

theorem gsub_identity:
  assumes "L_stack S = [VStr s, VStr p, VStr ''%0'']" and "length s < MAX_SIZET"
  shows "case str_gsub C W S of Inl e \<Rightarrow> \<exists>m. e = LuaError m | Inr (S', k) \<Rightarrow> k = 2 \<and> (\<exists>n. S' = push_int (api_push S (VStr s)) n)"
proof -
  have a: "luaL_checklstring C S 1 = Ok (S, s)" "luaL_checklstring C S 2 = Ok (S, p)" "api_type S 3 = Ok 4"
    "luaL_optinteger S 4 (of_nat (length s + 1)) = Ok (of_nat (length s + 1))"
    using arg_str [of 1 S s C] arg_str [of 2 S p C] assms(1) by (simp_all add: api_type_pos optinteger_none)
  obtain c where c: "rd p 0 = Ok c" "c = CHR ''^'' \<longrightarrow> 1 \<le> length p" using rd_0 by blast
  let ?a = "c = CHR ''^''" and ?p = "if c = CHR ''^'' then 1 else 0 :: nat"
  let ?m = "sint (of_nat (length s + 1) :: u32)"
  have loop: "post (gsub_loop C W p ?p ?a ?m (new_ms s) 0 0 (S, luaL_buffinit))
      (\<lambda>(pos, n', X'). pos \<le> length s \<and> holds_str S X' (take pos s))"
    using gsub_loop_whole [of S ?p p "new_ms s" 0 "(S, luaL_buffinit)" C W ?a ?m 0] assms c(2) buffinit_holds [of S] by simp
  have e: "str_gsub C W S = rbind (gsub_loop C W p ?p ?a ?m (new_ms s) 0 0 (S, luaL_buffinit)) (\<lambda>(pos, n, X).
     rbind (read_slice s pos (length s - pos)) (\<lambda>t. rbind (luaL_addlstring C W X t) (\<lambda>X1.
     rbind (luaL_pushresult C W X1) (\<lambda>(S3, B). Ok (push_int S3 (word_of_int n), 2)))))"
    unfolding str_gsub_def a rbind_simps prod.case c Let_def luaL_argcheck_def by simp
  show ?thesis
  proof (cases "gsub_loop C W p ?p ?a ?m (new_ms s) 0 0 (S, luaL_buffinit)")
    case (Inl x)
    then show ?thesis using loop e by (cases x) (simp_all add: post_def)
  next
    case (Inr y)
    obtain pos n X where y: "y = (pos, n, X)" by (cases y)
    have h: "pos \<le> length s" "holds_str S X (take pos s)" using loop unfolding Inr y by simp_all
    have sl: "read_slice s pos (length s - pos) = Ok (drop pos s)" using h(1) by (simp add: read_slice_def)
    obtain X1 where X1: "luaL_addlstring C W X (drop pos s) = Ok X1" "holds_str S X1 s"
      using addlstring_ok [OF h(2), of "drop pos s" C W] h(1) assms(2) by auto
    obtain B where "luaL_pushresult C W X1 = Ok (api_push S (VStr s), B)" using pushresult_ok [OF X1(2)] by blast
    then show ?thesis unfolding e Inr y using sl X1(1) by auto
  qed
qed

theorem gsub_identity_witness:
  "\<forall>C W. case str_gsub C W (call_state [VStr ''hello'', VStr ''l*'', VStr ''%0'']) of Inl e \<Rightarrow> \<exists>m. e = LuaError m
    | Inr (S', k) \<Rightarrow> k = 2 \<and> (\<exists>n. S' = push_int (api_push (call_state [VStr ''hello'', VStr ''l*'', VStr ''%0'']) (VStr ''hello'')) n)"
proof (intro allI)
  fix C W
  have "length ''hello'' < MAX_SIZET" by (simp add: MAX_SIZET_def)
  from gsub_identity [OF call_state_stack this, where C = C and W = W]
  show "case str_gsub C W (call_state [VStr ''hello'', VStr ''l*'', VStr ''%0'']) of Inl e \<Rightarrow> \<exists>m. e = LuaError m
    | Inr (S', k) \<Rightarrow> k = 2 \<and> (\<exists>n. S' = push_int (api_push (call_state [VStr ''hello'', VStr ''l*'', VStr ''%0'']) (VStr ''hello'')) n)" .
qed

section \<open>Substrings\<close>

lemma number2int_small: "- (2 ^ 31) \<le> i \<and> i < 2 ^ 31 \<Longrightarrow> lua_number2integer (cast_num i) = word_of_int i"
  by (rule lua_number2int_cast_num) auto

lemma posrelat_spec:
  assumes "length s < 2 ^ 31" "- (2 ^ 31) \<le> i" "i < 2 ^ 31"
  shows "posrelat (word_of_int i) (length s) = (if i < 0 then max 0 (i + int (length s) + 1) else i)"
proof (cases "i < 0")
  case True
  have "word_of_int i + (of_nat (length s) + 1) = (word_of_int (i + int (length s) + 1) :: u32)" by simp
  moreover have "sint (word_of_int (i + int (length s) + 1) :: u32) = i + int (length s) + 1"
    by (rule sint_word_of_int_id) (use assms True in simp_all)
  ultimately show ?thesis using True assms by (simp add: posrelat_def sint_word_of_int_id del: of_int_add)
qed (use assms in \<open>simp add: posrelat_def sint_word_of_int_id\<close>)

lemma upto_slice:
  assumes "1 \<le> a" "b \<le> int (length s)" "a \<le> b"
  shows "take (nat (b - a + 1)) (drop (nat (a - 1)) s) = map (\<lambda>k. s ! nat (k - 1)) [a..b]"
proof (rule nth_equalityI)
  show "length (take (nat (b - a + 1)) (drop (nat (a - 1)) s)) = length (map (\<lambda>k. s ! nat (k - 1)) [a..b])"
    using assms by (simp add: nat_le_iff)
  fix i assume "i < length (take (nat (b - a + 1)) (drop (nat (a - 1)) s))"
  then have i: "i < nat (b - a + 1)" by simp
  then have "nat (a + int i - 1) = nat (a - 1) + i" using assms by linarith
  then show "take (nat (b - a + 1)) (drop (nat (a - 1)) s) ! i = map (\<lambda>k. s ! nat (k - 1)) [a..b] ! i"
    using i assms by simp
qed

text \<open>\<open>string.sub(s, i, j)\<close> gives the characters at the places from \<open>i\<close> to \<open>j\<close> that the string has, where places count from 1 and
negative ones from the end; it never reads outside the string.\<close>

theorem string_sub_spec:
  assumes "L_stack S = [VStr s, VNum (cast_num i), VNum (cast_num j)]" and "length s < 2 ^ 31"
    and "- (2 ^ 31) \<le> i \<and> i < 2 ^ 31" and "- (2 ^ 31) \<le> j \<and> j < 2 ^ 31"
  shows "str_sub C W S = Ok (api_push S (VStr
    (map (\<lambda>k. s ! nat (k - 1))
      [max 1 (if i < 0 then i + int (length s) + 1 else i) .. min (int (length s)) (if j < 0 then j + int (length s) + 1 else j)])), 1)"
proof -
  let ?n = "int (length s)"
  let ?a = "max 1 (if i < 0 then i + ?n + 1 else i)" and ?b = "min ?n (if j < 0 then j + ?n + 1 else j)"
  have a: "luaL_checklstring C S 1 = Ok (S, s)" using arg_str [of 1 S s C] assms(1) by simp
  have i: "luaL_checkinteger (L_stack S) 2 = Ok (word_of_int i)"
    using assms(1) number2int_small [OF assms(3)] by (simp add: luaL_checkinteger_num)
  have j: "luaL_optinteger S 3 (- 1) = Ok (word_of_int j)"
    using assms(1) number2int_small [OF assms(4)] by (simp add: optinteger_num)
  have start: "(if posrelat (word_of_int i) (length s) < 1 then 1 else posrelat (word_of_int i) (length s)) = ?a"
    using posrelat_spec [OF assms(2)] assms(3) by auto
  have fin: "(if ?n < posrelat (word_of_int j) (length s) then ?n else posrelat (word_of_int j) (length s)) = max 0 ?b"
    using posrelat_spec [OF assms(2)] assms(4) by auto
  have e: "str_sub C W S = (if ?a \<le> max 0 ?b then rbind (read_slice s (nat (?a - 1)) (nat (max 0 ?b - ?a + 1))) (\<lambda>t. Ok (api_push S (VStr t), 1))
      else Ok (api_push S (VStr ''''), 1))"
    unfolding str_sub_def a i j rbind_simps prod.case Let_def start fin ..
  show ?thesis
  proof (cases "?a \<le> ?b")
    case True
    then have b: "max 0 ?b = ?b" "?a \<le> max 0 ?b" by auto
    have "nat (?a - 1) + nat (?b - ?a + 1) \<le> length s" using True by linarith
    then have "read_slice s (nat (?a - 1)) (nat (?b - ?a + 1)) = Ok (take (nat (?b - ?a + 1)) (drop (nat (?a - 1)) s))"
      by (simp only: read_slice_def if_True)
    also have "take (nat (?b - ?a + 1)) (drop (nat (?a - 1)) s) = map (\<lambda>k. s ! nat (k - 1)) [?a .. ?b]"
      by (rule upto_slice) (use True in auto)
    finally show ?thesis unfolding e if_P [OF b(2)] b(1) by (simp only: rbind_simps True if_True)
  next
    case False
    then have "\<not> ?a \<le> max 0 ?b" by auto
    moreover have "[?a .. ?b] = []" using False by (intro upto_empty) (simp only: not_le)
    ultimately show ?thesis unfolding e by (simp only: if_False list.map)
  qed
qed

theorem string_sub_spec_witness:
  "\<forall>C W. str_sub C W (call_state [VStr ''hello'', VNum (cast_num 2), VNum (cast_num (- 2))]) =
     Ok (api_push (call_state [VStr ''hello'', VNum (cast_num 2), VNum (cast_num (- 2))]) (VStr ''ell''), 1)"
proof (intro allI)
  fix C W
  have m: "map (\<lambda>k. ''hello'' ! nat (k - 1)) [max 1 (if (2 :: int) < 0 then 2 + int (length ''hello'') + 1 else 2) ..
      min (int (length ''hello'')) (if - 2 < (0 :: int) then - 2 + int (length ''hello'') + 1 else - 2)] = ''ell''"
    by (simp add: upto.simps)
  show "str_sub C W (call_state [VStr ''hello'', VNum (cast_num 2), VNum (cast_num (- 2))]) =
     Ok (api_push (call_state [VStr ''hello'', VNum (cast_num 2), VNum (cast_num (- 2))]) (VStr ''ell''), 1)"
    using string_sub_spec [OF call_state_stack, of "''hello''" 2 "- 2" C W] unfolding m by simp
qed

section \<open>Characters and their codes\<close>

lemma foldl_push: "foldl (\<lambda>S c. push_int S (of_nat (uchar c))) S t = S\<lparr>L_stack := L_stack S @ map (\<lambda>c. VNum (cast_num (int (uchar c)))) t\<rparr>"
proof (induction t arbitrary: S)
  case (Cons c t)
  have "uchar c < 256" by (simp add: uchar_def)
  then have "push_int S (of_nat (uchar c)) = S\<lparr>L_stack := L_stack S @ [VNum (cast_num (int (uchar c)))]\<rparr>"
    using sint_word_of_int_id [of "int (uchar c)"] by (simp add: push_int_def api_push_def)
  then show ?case using Cons.IH [of "push_int S (of_nat (uchar c))"] by simp
qed simp

lemma char_loop_ok:
  assumes "holds_str S X t" "L_stack S = pre @ map (\<lambda>c. VNum (cast_num (int (uchar c)))) u" "i = length pre + 1" "length t + length u < MAX_SIZET"
  shows "\<exists>X'. char_loop C W i (length u) X = Ok X' \<and> holds_str S X' (t @ u)"
  using assms
proof (induction u arbitrary: X t pre i)
  case (Cons c u)
  have st: "L_stack (fst X) ! (i - 1) = VNum (cast_num (int (uchar c)))" "i \<le> length (L_stack (fst X))" "0 < i"
    using Cons.prems(1, 2, 3) by (auto simp: holds_str_def nth_append)
  have u: "uchar c < 256" "char_of (uchar c) = c" by (simp_all add: uchar_def)
  have n: "luaL_checkinteger (L_stack (fst X)) (int i) = Ok (word_of_int (int (uchar c)))"
    using st u(1) by (subst luaL_checkinteger_num) (auto simp: lua_number2int_cast_num)
  have s: "sint (word_of_int (int (uchar c)) :: u32) = int (uchar c)" by (rule sint_word_of_int_id) (use u(1) in simp_all)
  have "length t + 1 < MAX_SIZET" using Cons.prems(4) by simp
  then obtain X1 where X1: "luaL_addchar C W X c = Ok X1" "holds_str S X1 (t @ [c])" using addchar_ok [OF Cons.prems(1)] by blast
  obtain X' where "char_loop C W (i + 1) (length u) X1 = Ok X'" "holds_str S X' ((t @ [c]) @ u)"
    using Cons.IH [OF X1(2), of "pre @ [VNum (cast_num (int (uchar c)))]" "i + 1"] Cons.prems by auto
  moreover have "char_loop C W i (length (c # u)) X = char_loop C W (i + 1) (length u) X1"
    using n s u X1(1) by (simp add: luaL_argcheck_def)
  ultimately show ?case by simp
qed simp

text \<open>C31: \<open>string.char\<close> applied to the results of \<open>string.byte(s, 1, -1)\<close> gives \<open>s\<close> back, whatever bytes it has, if its bytes fit on the
stack of a C function.\<close>

theorem char_byte_roundtrip:
  assumes "s \<noteq> ''''" and "length s + 3 \<le> LUAI_MAXCSTACK"
  shows "\<exists>S1 S2 args. str_byte C W (call_state [VStr s, VNum (cast_num 1), VNum (cast_num (- 1))]) = Ok (S1, length s) \<and>
    args = drop 3 (L_stack S1) \<and> length args = length s \<and> str_char C W (call_state args) = Ok (S2, 1) \<and> last (L_stack S2) = VStr s"
proof -
  let ?S = "call_state [VStr s, VNum (cast_num 1), VNum (cast_num (- 1))]"
  let ?n = "length s"
  let ?args = "map (\<lambda>c. VNum (cast_num (int (uchar c)))) s"
  have len: "?n < 2 ^ 31" "0 < ?n" using assms by (auto simp: LUAI_MAXCSTACK_def)
  have a: "luaL_checklstring C ?S 1 = Ok (?S, s)" using arg_str [of 1 ?S s C] by simp
  have p: "posrelat 1 ?n = 1" "posrelat (word_of_int (- 1)) ?n = int ?n"
    using posrelat_spec [OF len(1), of 1] posrelat_spec [OF len(1), of "- 1"] len by simp_all
  have i: "luaL_optinteger ?S 2 1 = Ok 1" "luaL_optinteger ?S 3 d = Ok (word_of_int (- 1))" for d
    by (simp_all add: optinteger_num lua_number2int_cast_num)
  have k: "luaL_checkstack ?S ?n msg = Ok ()" for msg
    using assms(2) by (simp add: luaL_checkstack_def lua_checkstack_def)
  have sl: "read_slice s (nat (1 - 1)) ?n = Ok s" by (simp add: read_slice_def)
  let ?S1 = "?S\<lparr>L_stack := L_stack ?S @ ?args\<rparr>"
  have "nat (int ?n - 1 + 1) = ?n" "\<not> int ?n < 1" "\<not> int ?n < int ?n" "\<not> 1 + int ?n \<le> int ?n" using len(2) by simp_all
  then have byte: "str_byte C W ?S = Ok (?S1, ?n)"
    unfolding str_byte_def a i rbind_simps prod.case Let_def p
    using k sl foldl_push [of ?S s] by simp
  let ?T = "call_state ?args"
  have "?n < MAX_SIZET" using len(1) by (simp add: MAX_SIZET_def)
  then obtain X where X: "char_loop C W 1 ?n (?T, luaL_buffinit) = Ok X" "holds_str ?T X s"
    using char_loop_ok [OF buffinit_holds [of ?T], of "[]" s 1 C W] by auto
  obtain B where B: "luaL_pushresult C W X = Ok (api_push ?T (VStr s), B)" using pushresult_ok [OF X(2)] by blast
  have "str_char C W ?T = Ok (api_push ?T (VStr s), 1)" using X(1) B by (simp add: str_char_def with_buffer_def)
  then show ?thesis using byte by (intro exI [of _ ?S1] exI [of _ "api_push ?T (VStr s)"] exI [of _ ?args]) simp
qed

theorem char_byte_roundtrip_witness:
  "\<forall>C W. \<exists>S1 S2 args. str_byte C W (call_state [VStr [NUL, CHR 0xFF], VNum (cast_num 1), VNum (cast_num (- 1))]) = Ok (S1, 2) \<and>
    args = drop 3 (L_stack S1) \<and> length args = 2 \<and> str_char C W (call_state args) = Ok (S2, 1) \<and> last (L_stack S2) = VStr [NUL, CHR 0xFF]"
proof (intro allI)
  fix C W
  show "\<exists>S1 S2 args. str_byte C W (call_state [VStr [NUL, CHR 0xFF], VNum (cast_num 1), VNum (cast_num (- 1))]) = Ok (S1, 2) \<and>
    args = drop 3 (L_stack S1) \<and> length args = 2 \<and> str_char C W (call_state args) = Ok (S2, 1) \<and> last (L_stack S2) = VStr [NUL, CHR 0xFF]"
    using char_byte_roundtrip [of "[NUL, CHR 0xFF]" C W] by (simp add: LUAI_MAXCSTACK_def numeral_2_eq_2)
qed

section \<open>Formats\<close>

lemma length_cstr_take: "length (cstr (take n s)) \<le> n"
  unfolding cstr_def by (rule le_trans [OF length_takeWhile_le]) simp

lemma skip_flags_safe: "i \<le> length s \<Longrightarrow> post (skip_flags s i) (\<lambda>p. i \<le> p \<and> p \<le> length s)"
proof (induction s i rule: skip_flags.induct)
  case (1 s i)
  show ?case unfolding skip_flags.simps [of s i]
  proof (rule bind_rd [OF 1(2)], goal_cases)
    case c: (1 c)
    show ?case
    proof (cases "c \<noteq> NUL \<and> c \<in> set FLAGS")
      case True
      then have "i + 1 \<le> length s" using c(2) by auto
      then have "post (skip_flags s (i + 1)) (\<lambda>p. i + 1 \<le> p \<and> p \<le> length s)" by (rule 1(1) [OF c(1) True])
      then show ?thesis unfolding if_P [OF True] by (rule post_mono) simp
    qed (use 1(2) in auto)
  qed
qed

lemma skip_digit_safe: "i \<le> length s \<Longrightarrow> post (skip_digit s i) (\<lambda>p. i \<le> p \<and> p \<le> i + 1 \<and> p \<le> length s)"
  unfolding skip_digit_def by (rule bind_rd) (auto simp: isdigit_c_def uchar_def)

text \<open>C32: the scanner of a format item stays inside the format string and inside its buffer: it writes at most \<open>MAX_FORMAT\<close> bytes,
whatever flags, width and precision the format has, and the length modifier that \<open>addintlen\<close> puts in
still fits. A format that is too long raises a Lua error.\<close>

theorem scanformat_fits:
  assumes "i \<le> length s"
  shows "case scanformat s i of
      Inl e \<Rightarrow> \<exists>m. e = LuaError m
    | Inr (p, form) \<Rightarrow> i \<le> p \<and> p \<le> length s \<and> length form + 1 \<le> MAX_FORMAT \<and> (\<exists>form'. addintlen form = Ok form')"
proof -
  have max: "MAX_FORMAT = 18" by (simp add: MAX_FORMAT_def FLAGS_def LUA_INTFRMLEN_def)
  have "post (scanformat s i) (\<lambda>(p, form). i \<le> p \<and> p \<le> length s \<and> length form + 1 \<le> MAX_FORMAT \<and> (\<exists>form'. addintlen form = Ok form'))"
    unfolding scanformat_def
  proof (rule post_bind [OF skip_flags_safe [OF assms]], goal_cases)
    case p1: (1 p1)
    show ?case
    proof (cases "length FLAGS + 1 \<le> p1 - i")
      case few: False
      show ?thesis unfolding if_not_P [OF few]
      proof (rule post_bind [OF skip_digit_safe], goal_cases)
        case p2: (2 p2)
        show ?case
        proof (rule post_bind [OF skip_digit_safe], goal_cases)
          case p3: (2 p3)
          show ?case
          proof (rule bind_rd, goal_cases)
            case c: (2 c)
            have "post (if c = CHR ''.'' then rbind (skip_digit s (p3 + 1)) (skip_digit s) else Ok p3) (\<lambda>p. p3 \<le> p \<and> p \<le> p3 + 3 \<and> p \<le> length s)"
            proof (cases "c = CHR ''.''")
              case True
              then have "p3 + 1 \<le> length s" using c(2) by auto
              from skip_digit_safe [OF this]
              have "post (rbind (skip_digit s (p3 + 1)) (skip_digit s)) (\<lambda>p. p3 \<le> p \<and> p \<le> p3 + 3 \<and> p \<le> length s)"
              proof (rule post_bind)
                fix q assume "p3 + 1 \<le> q \<and> q \<le> p3 + 1 + 1 \<and> q \<le> length s"
                then show "post (skip_digit s q) (\<lambda>p. p3 \<le> p \<and> p \<le> p3 + 3 \<and> p \<le> length s)"
                  by (intro post_mono [OF skip_digit_safe]) auto
              qed
              then show ?thesis using True by simp
            qed (use p3 in simp)
            then show ?case
            proof (rule post_bind, elim conjE)
              fix p assume p: "p3 \<le> p" "p \<le> p3 + 3" "p \<le> length s"
              have ip: "i \<le> p" "p \<le> i + 10" using p p1(2) p2(2) p3(2) few by (auto simp: FLAGS_def)
              let ?form = "CHR ''%'' # cstr (take (p - i + 1) (drop i (s @ [NUL])))"
              have len: "length ?form \<le> p - i + 2"
                using length_cstr_take [of "p - i + 1" "drop i (s @ [NUL])"] by simp
              have w: "p - i + 3 \<le> MAX_FORMAT" using ip max by simp
              have "length ?form + length LUA_INTFRMLEN + 1 \<le> MAX_FORMAT" using len ip max by (simp add: LUA_INTFRMLEN_def)
              then have add: "\<exists>form'. addintlen ?form = Ok form'" by (simp add: addintlen_def in_form_def)
              show "post (rbind (rd s p) (\<lambda>c. if isdigit_c (uchar c) then Fail (LuaError ''invalid format (width or precision too long)'')
                  else rbind (in_form (p - i + 3) ?form) (\<lambda>form. Ok (p, form))))
                (\<lambda>(p, form). i \<le> p \<and> p \<le> length s \<and> length form + 1 \<le> MAX_FORMAT \<and> (\<exists>form'. addintlen form = Ok form'))"
              proof (rule bind_rd [OF p(3)])
                fix d
                show "post (if isdigit_c (uchar d) then Fail (LuaError ''invalid format (width or precision too long)'')
                  else rbind (in_form (p - i + 3) ?form) (\<lambda>form. Ok (p, form)))
                  (\<lambda>(p, form). i \<le> p \<and> p \<le> length s \<and> length form + 1 \<le> MAX_FORMAT \<and> (\<exists>form'. addintlen form = Ok form'))"
                proof (cases "isdigit_c (uchar d)")
                  case False
                  have "in_form (p - i + 3) ?form = Ok ?form" using w by (simp add: in_form_def)
                  then show ?thesis unfolding if_not_P [OF False] using ip(1) p(3) add len w by (simp del: length_Cons)
                qed simp
              qed
            qed
          qed (use p3 in simp)
        qed (use p2 in simp)
      qed (use p1 in simp)
    qed simp
  qed
  then show ?thesis by (cases "scanformat s i") (auto simp: post_def split: error.splits)
qed

theorem scanformat_fits_witness:
  "case scanformat ''%-+ #010.10d'' 1 of
      Inl e \<Rightarrow> \<exists>m. e = LuaError m
    | Inr (p, form) \<Rightarrow> 1 \<le> p \<and> p \<le> length ''%-+ #010.10d'' \<and> length form + 1 \<le> MAX_FORMAT \<and> (\<exists>form'. addintlen form = Ok form')"
  by (rule scanformat_fits) simp

section \<open>Plain search\<close>

text \<open>without special characters in the pattern, or when asked to, \<open>string.find\<close> reports the first occurrence of the pattern
as a string, by its first and last place, or nil if there is none.\<close>

theorem string_find_plain:
  assumes "L_stack S = [VStr s, VStr p]" and "length s < 2 ^ 31" and "\<not> strpbrk p SPECIALS"
  shows "(\<exists>j. str_find C W S = Ok (push_int (push_int S (of_nat (j + 1))) (of_nat (j + length p)), 2) \<and>
      occurs_at s p j \<and> j + length p \<le> length s \<and> (\<forall>k < j. \<not> occurs_at s p k)) \<or>
    str_find C W S = Ok (api_push S VNil, 1) \<and> (\<forall>k. k + length p \<le> length s \<longrightarrow> \<not> occurs_at s p k)"
proof -
  have a: "luaL_checklstring C S 1 = Ok (S, s)" "luaL_checklstring C S 2 = Ok (S, p)"
    using arg_str [of 1 S s C] arg_str [of 2 S p C] assms(1) by simp_all
  have o: "luaL_optinteger S 3 1 = Ok 1" "lua_toboolean (L_stack S) 4 = Ok False"
    using assms(1) by (simp_all add: optinteger_none toboolean_none)
  have e: "str_find C W S =
     (case lmemfind s 0 (length s - 0) p (length p) of
        Some j \<Rightarrow> Ok (push_int (push_int S (of_nat (j + 1))) (of_nat (j + length p)), 2)
      | None \<Rightarrow> Ok (api_push S VNil, 1))"
    unfolding str_find_def str_find_aux_def a o rbind_simps prod.case Let_def posrelat_1 [OF assms(2)]
    by (simp only: assms(3) simp_thms if_True if_False diff_self less_irrefl of_nat_less_0_iff nat_0)
  show ?thesis
  proof (cases "lmemfind s 0 (length s) p (length p)")
    case None
    then show ?thesis using e lmemfind_first [of 0 "length s" s p] by simp
  next
    case (Some j)
    then show ?thesis using e lmemfind_first [of 0 "length s" s p] by auto
  qed
qed

theorem string_find_plain_witness:
  "\<forall>C W. (\<exists>j. str_find C W (call_state [VStr ''hello'', VStr ''l'']) =
        Ok (push_int (push_int (call_state [VStr ''hello'', VStr ''l'']) (of_nat (j + 1))) (of_nat (j + 1)), 2) \<and>
      occurs_at ''hello'' ''l'' j \<and> (\<forall>k < j. \<not> occurs_at ''hello'' ''l'' k)) \<or>
    str_find C W (call_state [VStr ''hello'', VStr ''l'']) = Ok (api_push (call_state [VStr ''hello'', VStr ''l'']) VNil, 1)"
proof (intro allI)
  fix C W
  have s: "\<not> strpbrk ''l'' SPECIALS" by (simp add: strpbrk_def cstr_def SPECIALS_def)
  have l: "length ''hello'' < 2 ^ 31" by simp
  show "(\<exists>j. str_find C W (call_state [VStr ''hello'', VStr ''l'']) =
        Ok (push_int (push_int (call_state [VStr ''hello'', VStr ''l'']) (of_nat (j + 1))) (of_nat (j + 1)), 2) \<and>
      occurs_at ''hello'' ''l'' j \<and> (\<forall>k < j. \<not> occurs_at ''hello'' ''l'' k)) \<or>
    str_find C W (call_state [VStr ''hello'', VStr ''l'']) = Ok (api_push (call_state [VStr ''hello'', VStr ''l'']) VNil, 1)"
    using string_find_plain [where C = C and W = W, OF call_state_stack l s] by (auto simp del: of_nat_add of_nat_Suc)
qed

end
