(* ===== verification/LuaLexProps.thy ===== *)
theory LuaLexProps
  imports LuaLex LuaStrLibProps "HOL-Library.Sublist"
begin

text \<open>
  The lexical analyser on an input that ends: it never reads behind the end or outside its buffer, it ends, and every token takes at
  least one character. A string that \<open>string.format\<close> has written with \<open>%q\<close> is read back as it was.
\<close>

section \<open>The input\<close>

text \<open>The stream gives the characters, in blocks of any size, and then its end.\<close>

inductive input :: "'d ZIO \<Rightarrow> string \<Rightarrow> bool" where
  input_end: "z_p z = [] \<Longrightarrow> z_reader z (z_data z) = (b, d) \<Longrightarrow> b = None \<or> b = Some [] \<Longrightarrow> input z []"
| input_block: "z_p z = c # p \<Longrightarrow> input (z\<lparr>z_p := p\<rparr>) s \<Longrightarrow> input z (char_of (unat c) # s)"
| input_more: "z_p z = [] \<Longrightarrow> z_reader z (z_data z) = (Some (c # p), d) \<Longrightarrow> input (z\<lparr>z_data := d, z_p := p\<rparr>) s \<Longrightarrow>
    input z (char_of (unat c) # s)"

inductive_cases input_NilE: "input z []"
inductive_cases input_ConsE: "input z (c # s)"

lemma ch_char_of [simp]: "ch (char_of (unat (c :: u8))) = char2int c"
proof -
  have "unat c < 256" by (rule unat_u8)
  then show ?thesis by (simp add: uchar_def char2int_def)
qed

lemma zgetc_Nil: "input z [] \<Longrightarrow> \<exists>z'. zgetc z = (EOZ, z')"
  by (erule input_NilE) (auto simp: zgetc_def luaZ_fill_def)

lemma zgetc_Cons: "input z (c # s) \<Longrightarrow> \<exists>z'. zgetc z = (ch c, z') \<and> input z' s"
  by (erule input_ConsE) (auto simp: zgetc_def luaZ_fill_def)

text \<open>The analyser is at the text \<open>s\<close>: its first character is the current one.\<close>

definition at_text :: "string \<Rightarrow> 'd LexState \<Rightarrow> bool" where
  "at_text s ls \<longleftrightarrow> (case s of [] \<Rightarrow> ls_current ls = EOZ | c # r \<Rightarrow> ls_current ls = ch c \<and> input (ls_z ls) r)"

lemma ch_EOZ [simp]: "ch c \<noteq> EOZ"
  by (simp add: EOZ_def)

lemma at_text_Nil: "at_text [] ls \<longleftrightarrow> ls_current ls = EOZ"
  by (simp add: at_text_def)

lemma at_text_Cons: "at_text (c # s) ls \<longleftrightarrow> ls_current ls = ch c \<and> input (ls_z ls) s"
  by (simp add: at_text_def)

lemma at_text_fields [simp]:
  "at_text s (ls\<lparr>ls_buff := b\<rparr>) = at_text s ls" "at_text s (ls\<lparr>ls_buffsize := m\<rparr>) = at_text s ls"
  "at_text s (ls\<lparr>ls_linenumber := n\<rparr>) = at_text s ls" "at_text s (ls\<lparr>ls_h := h\<rparr>) = at_text s ls"
  "at_text s (ls\<lparr>ls_lastline := n\<rparr>) = at_text s ls" "at_text s (ls\<lparr>ls_t := t\<rparr>) = at_text s ls"
  "at_text s (ls\<lparr>ls_lookahead := t\<rparr>) = at_text s ls"
  by (auto simp: at_text_def split: list.split)

text \<open>The state \<open>ls\<close>, which goes on from \<open>ls0\<close>, at the text \<open>s\<close>, with \<open>b\<close> in the buffer, in line \<open>n\<close>.\<close>

definition lexst :: "'d LexState \<Rightarrow> int \<Rightarrow> string \<Rightarrow> string \<Rightarrow> 'd LexState \<Rightarrow> bool" where
  "lexst ls0 n s b ls \<longleftrightarrow> at_text s ls \<and> ls_buff ls = b \<and> 0 < ls_buffsize ls \<and> length b \<le> ls_buffsize ls \<and> ls_linenumber ls = n \<and>
     ls_h ls = ls_h ls0 \<and> ls_t ls = ls_t ls0 \<and> ls_lookahead ls = ls_lookahead ls0 \<and> ls_source ls = ls_source ls0 \<and> ls_lastline ls = ls_lastline ls0"

lemma lexst_current: "lexst ls0 n (c # s) b ls \<Longrightarrow> ls_current ls = ch c" "lexst ls0 n [] b ls \<Longrightarrow> ls_current ls = EOZ"
  by (simp_all add: lexst_def at_text_def)

lemma next_ok: "lexst ls0 n (c # s) b ls \<Longrightarrow> yields (next_char ls) (lexst ls0 n s b)"
proof -
  assume a: "lexst ls0 n (c # s) b ls"
  then have cur: "ls_current ls = ch c" and i: "input (ls_z ls) s" by (simp_all add: lexst_def at_text_Cons)
  obtain c' z' where z: "zgetc (ls_z ls) = (c', z')" "at_text s (ls\<lparr>ls_current := c', ls_z := z'\<rparr>)"
    using i zgetc_Nil zgetc_Cons by (cases s) (force simp: at_text_def)+
  have "next_char ls = Ok (ls\<lparr>ls_current := c', ls_z := z'\<rparr>)" by (simp add: next_char_def cur z(1))
  then show ?thesis using a z(2) by (simp add: lexst_def)
qed

definition byte_char :: "int \<Rightarrow> char" where
  "byte_char c = char_of (nat (c mod 256))"

lemma byte_char_ch [simp]: "byte_char (ch c) = c"
proof -
  have "of_char c < (256 :: nat)" using nat_of_char_less_256 [of c] by simp
  then show ?thesis by (simp add: byte_char_def uchar_def nat_mod_distrib)
qed

lemma save_cases:
  assumes "lexst ls0 n s b ls"
  shows "save C ls c = Fail (LuaError (lex_msg C ls ''lexical element too long'')) \<and> 2 ^ 31 - 2 \<le> length b \<or>
    (\<exists>ls'. save C ls c = Ok ls' \<and> lexst ls0 n s (b @ [byte_char c]) ls')"
proof -
  have b: "ls_buff ls = b" "0 < ls_buffsize ls" "length b \<le> ls_buffsize ls" using assms by (simp_all add: lexst_def)
  consider (room) "length b + 1 \<le> ls_buffsize ls" | (full) "ls_buffsize ls = length b" "MAX_SIZET div 2 \<le> length b"
    | (grow) "ls_buffsize ls = length b" "\<not> MAX_SIZET div 2 \<le> length b" using b(3) by linarith
  then show ?thesis
  proof cases
    case room
    then have "save C ls c = Ok (ls\<lparr>ls_buff := b @ [byte_char c]\<rparr>)" using b by (simp add: save_def byte_char_def)
    then show ?thesis using assms room by (simp add: lexst_def)
  next
    case full
    then show ?thesis using b by (simp add: save_def MAX_SIZET_def)
  next
    case grow
    then have "save C ls c = Ok (ls\<lparr>ls_buffsize := ls_buffsize ls * 2, ls_buff := b @ [byte_char c]\<rparr>)"
      using b by (simp add: save_def byte_char_def)
    then show ?thesis using assms grow b(2) by (cases b) (simp_all add: lexst_def)
  qed
qed

lemma save_ok: "lexst ls0 n s b ls \<Longrightarrow> length b < 2 ^ 31 - 2 \<Longrightarrow> yields (save C ls c) (lexst ls0 n s (b @ [byte_char c]))"
  using save_cases [of ls0 n s b ls C c] by (auto simp: yields_def)

lemma save_and_next_ok:
  "lexst ls0 n (c # s) b ls \<Longrightarrow> length b < 2 ^ 31 - 2 \<Longrightarrow> yields (save_and_next C ls) (lexst ls0 n s (b @ [c]))"
  unfolding save_and_next_def
  by (rule yields_bind, rule save_ok) (auto simp: lexst_current dest: next_ok)

section \<open>Quoted strings are read back\<close>

lemma ch_inject: "ch c = ch d \<longleftrightarrow> c = d"
  by (simp add: uchar_def)

lemma ch_num:
  "ch c = 10 \<longleftrightarrow> c = CHR 0x0A" "ch c = 13 \<longleftrightarrow> c = CHR 0x0D" "ch c = 34 \<longleftrightarrow> c = CHR 0x22" "ch c = 92 \<longleftrightarrow> c = CHR 0x5C"
proof -
  have "ch (CHR 0x0A) = 10" "ch (CHR 0x0D) = 13" "ch (CHR 0x22) = 34" "ch (CHR 0x5C) = 92" by (simp_all add: uchar_def)
  then show "ch c = 10 \<longleftrightarrow> c = CHR 0x0A" "ch c = 13 \<longleftrightarrow> c = CHR 0x0D" "ch c = 34 \<longleftrightarrow> c = CHR 0x22" "ch c = 92 \<longleftrightarrow> c = CHR 0x5C"
    using ch_inject by metis+
qed

lemma uchar_num:
  "uchar c = 34 \<longleftrightarrow> c = CHR 0x22" "uchar c = 92 \<longleftrightarrow> c = CHR 0x5C"
  using ch_num(3,4) [of c] by simp_all

lemma newline_ch [simp]: "newline (ch c) \<longleftrightarrow> c = CHR 0x0A \<or> c = CHR 0x0D"
  unfolding newline_def ch_num ..

lemma newline_EOZ [simp]: "\<not> newline EOZ"
  by (simp add: newline_def EOZ_def)

text \<open>What \<open>%q\<close> writes for a string.\<close>

definition quoted :: "string \<Rightarrow> string" where
  "quoted s = CHR 0x22 # concat (map quote_char s) @ [CHR 0x22]"

definition no_wrap :: "string \<Rightarrow> int \<Rightarrow> bool" where
  "no_wrap s n \<longleftrightarrow> n + int (length s) < int MAX_INT"

text \<open>A new line that is no pair.\<close>

lemma inclinenumber_ok:
  assumes "lexst ls0 n (c # s) b ls" "c = CHR 0x0A \<or> c = CHR 0x0D" "s = [] \<or> hd s \<noteq> CHR 0x0A \<and> hd s \<noteq> CHR 0x0D" "n + 1 < int MAX_INT"
  shows "yields (inclinenumber C ls) (lexst ls0 (n + 1) s b)"
  unfolding inclinenumber_def Let_def
proof (rule yields_bind, rule next_ok [OF assms(1)])
  fix ls1 assume 1: "lexst ls0 n s b ls1"
  have "\<not> currIsNewline ls1"
    using 1 assms(3) by (cases s) (auto simp: currIsNewline_def lexst_current)
  then show "yields (rbind (if currIsNewline ls1 \<and> ls_current ls1 \<noteq> ls_current ls then next_char ls1 else Ok ls1) (\<lambda>ls2.
      if int MAX_INT \<le> ls_linenumber (ls2\<lparr>ls_linenumber := ls_linenumber ls2 + 1\<rparr>) then
        luaX_syntaxerror C (ls2\<lparr>ls_linenumber := ls_linenumber ls2 + 1\<rparr>) ''chunk has too many lines''
      else Ok (ls2\<lparr>ls_linenumber := ls_linenumber ls2 + 1\<rparr>))) (lexst ls0 (n + 1) s b)"
    using 1 assms(4) by (simp add: lexst_def)
qed

lemma quoted_head: "concat (map quote_char s) @ CHR 0x22 # rest = c # t \<Longrightarrow> c \<noteq> CHR 0x0A \<and> c \<noteq> CHR 0x0D"
  by (cases s) (auto simp: quote_char_def split: if_splits)

lemma quoted_not_Nil: "concat (map quote_char s) @ CHR 0x22 # rest \<noteq> []"
  by simp

lemma byte_char_num: "byte_char 10 = CHR 0x0A" "byte_char 13 = CHR 0x0D" "byte_char 0 = CHR 0x00"
  using byte_char_ch [of "CHR 0x0A"] byte_char_ch [of "CHR 0x0D"] byte_char_ch [of "CHR 0x00"] by (simp_all add: uchar_def)

lemma escape_letter_cases:
  "escape_letter 34 = None" "escape_letter 92 = None" "escape_letter 10 = None" "escape_letter (ch (CHR ''r'')) = Some 13"
  "escape_letter (ch (CHR ''0'')) = None"
  by (simp_all add: escape_letter_def uchar_def)

text \<open>Behind the backslash of a quoted character.\<close>

lemma read_escape_self:
  assumes "lexst ls0 n (c # s) b ls" "c = CHR 0x22 \<or> c = CHR 0x5C" "length b < 2 ^ 31 - 2"
  shows "yields (read_escape C ls) (lexst ls0 n s (b @ [c]))"
proof -
  have cur: "ls_current ls = ch c" by (rule lexst_current(1) [OF assms(1)])
  have "escape_letter (ch c) = None" "\<not> currIsNewline ls" "\<not> cls isdigit_c (ch c)"
    using assms(2) escape_letter_cases cur by (auto simp: uchar_def currIsNewline_def cls_def isdigit_c_def newline_def)
  then have "read_escape C ls = save_and_next C ls" by (simp add: read_escape_def cur)
  then show ?thesis using save_and_next_ok [OF assms(1,3)] by simp
qed

lemma read_escape_newline:
  assumes "lexst ls0 n (CHR 0x0A # s) b ls" "length b < 2 ^ 31 - 2" "n + 1 < int MAX_INT" "s = [] \<or> hd s \<noteq> CHR 0x0A \<and> hd s \<noteq> CHR 0x0D"
  shows "yields (read_escape C ls) (lexst ls0 (n + 1) s (b @ [CHR 0x0A]))"
proof -
  have cur: "ls_current ls = 10" using lexst_current(1) [OF assms(1)] by (simp add: uchar_def)
  have "read_escape C ls = rbind (save C ls 10) (inclinenumber C)"
    by (simp add: read_escape_def cur escape_letter_cases currIsNewline_def newline_def)
  moreover have "yields (rbind (save C ls 10) (inclinenumber C)) (lexst ls0 (n + 1) s (b @ [CHR 0x0A]))"
  proof (rule yields_bind, rule save_ok [OF assms(1,2)])
    fix ls1 assume "lexst ls0 n (CHR 0x0A # s) (b @ [byte_char 10]) ls1"
    then have "lexst ls0 n (CHR 0x0A # s) (b @ [CHR 0x0A]) ls1" by (simp only: byte_char_num)
    then show "yields (inclinenumber C ls1) (lexst ls0 (n + 1) s (b @ [CHR 0x0A]))"
      by (rule inclinenumber_ok) (use assms(3,4) in simp_all)
  qed
  ultimately show ?thesis by simp
qed

lemma read_escape_r:
  assumes "lexst ls0 n (CHR ''r'' # s) b ls" "length b < 2 ^ 31 - 2"
  shows "yields (read_escape C ls) (lexst ls0 n s (b @ [CHR 0x0D]))"
proof -
  have "read_escape C ls = rbind (save C ls 13) next_char"
    by (simp add: read_escape_def lexst_current(1) [OF assms(1)] escape_letter_cases del: of_nat_eq_iff)
  moreover have "yields (rbind (save C ls 13) next_char) (lexst ls0 n s (b @ [CHR 0x0D]))"
    by (rule yields_bind, rule save_ok [OF assms]) (auto simp: byte_char_num dest: next_ok)
  ultimately show ?thesis by simp
qed

lemma escape_digits_000:
  assumes "lexst ls0 n (''000'' @ s) b ls"
  shows "yields (escape_digits 3 0 ls) (\<lambda>(ls1, c). c = 0 \<and> lexst ls0 n s b ls1)"
proof -
  have step: "yields (escape_digits (Suc k) 0 l) (\<lambda>(ls1, c). c = 0 \<and> lexst ls0 n s b ls1)"
    if "lexst ls0 n (CHR ''0'' # t) b l" "\<And>l'. lexst ls0 n t b l' \<Longrightarrow> yields (escape_digits k 0 l') (\<lambda>(ls1, c). c = 0 \<and> lexst ls0 n s b ls1)"
    for k t and l :: "'a LexState"
  proof -
    have cur: "ls_current l = 48" using lexst_current(1) [OF that(1)] by (simp add: uchar_def)
    have "escape_digits (Suc k) 0 l = rbind (next_char l) (escape_digits k 0)"
      by (simp add: cur cls_def isdigit_c_def)
    then show ?thesis using yields_bind [OF next_ok [OF that(1)] that(2)] by simp
  qed
  show ?thesis
    unfolding numeral_3_eq_3 by (intro step) (use assms in auto)
qed

lemma read_escape_nul:
  assumes "lexst ls0 n (''000'' @ s) b ls" "length b < 2 ^ 31 - 2"
  shows "yields (read_escape C ls) (lexst ls0 n s (b @ [CHR 0x00]))"
proof -
  have cur: "ls_current ls = 48" using lexst_current(1) [of ls0 n "CHR ''0''" "''00'' @ s" b ls] assms(1) by (simp add: uchar_def)
  have "escape_letter 48 = None" by (simp add: escape_letter_def uchar_def)
  then have "read_escape C ls = rbind (escape_digits 3 0 ls) (\<lambda>(ls1, c).
            if 255 < c then luaX_lexerror C ls1 ''escape sequence too large'' TK_STRING else save C ls1 c)"
    by (simp add: read_escape_def cur currIsNewline_def newline_def EOZ_def cls_def isdigit_c_def)
  moreover have "yields (rbind (escape_digits 3 0 ls) (\<lambda>(ls1, c).
            if 255 < c then luaX_lexerror C ls1 ''escape sequence too large'' TK_STRING else save C ls1 c)) (lexst ls0 n s (b @ [CHR 0x00]))"
    by (rule yields_bind, rule escape_digits_000 [OF assms(1)]) (use save_ok [OF _ assms(2), of ls0 n s _ C 0] in \<open>auto simp: byte_char_num\<close>)
  ultimately show ?thesis by simp
qed

lemma read_escape_quoted:
  assumes u: "quote_char c = CHR 0x5C # u" and st: "lexst ls0 n (u @ t) b ls" and b: "length b < 2 ^ 31 - 2" "n + 1 < int MAX_INT"
    and t: "hd t \<noteq> CHR 0x0A \<and> hd t \<noteq> CHR 0x0D"
  shows "yields (read_escape C ls) (\<lambda>l. \<exists>k. k \<le> n + 1 \<and> lexst ls0 k t (b @ [c]) l)"
proof -
  have weak: "yields (read_escape C ls) (\<lambda>l. \<exists>k. k \<le> n + 1 \<and> lexst ls0 k t (b @ [c]) l)"
    if "yields (read_escape C ls) (lexst ls0 k t (b @ [c]))" "k \<le> n + 1" for k
    by (rule yields_mono [OF that(1)]) (use that(2) in blast)
  have "(c = CHR 0x22 \<or> c = CHR 0x5C) \<and> u = [c] \<or> c = CHR 0x0A \<and> u = [c] \<or> c = CHR 0x0D \<and> u = ''r'' \<or> c = NUL \<and> u = ''000''"
    using u unfolding quote_char_def by (auto split: if_splits)
  then consider "c = CHR 0x22 \<or> c = CHR 0x5C" "u = [c]" | "c = CHR 0x0A" "u = [c]" | "c = CHR 0x0D" "u = ''r''" | "c = NUL" "u = ''000''"
    by blast
  then show ?thesis
  proof cases
    case 1
    have "yields (read_escape C ls) (lexst ls0 n t (b @ [c]))" by (rule read_escape_self) (use st 1 b in simp_all)
    then show ?thesis using weak [of n] by simp
  next
    case 2
    have "yields (read_escape C ls) (lexst ls0 (n + 1) t (b @ [CHR 0x0A]))" by (rule read_escape_newline) (use st 2 b t in simp_all)
    then show ?thesis using weak 2(1) by blast
  next
    case 3
    have "yields (read_escape C ls) (lexst ls0 n t (b @ [CHR 0x0D]))" by (rule read_escape_r) (use st 3 b in simp_all)
    then show ?thesis using weak [of n] 3(1) by simp
  next
    case 4
    have "yields (read_escape C ls) (lexst ls0 n t (b @ [CHR 0x00]))" by (rule read_escape_nul) (use st 4 b in simp_all)
    then show ?thesis using weak [of n] 4(1) by simp
  qed
qed

lemma string_loop_quoted:
  assumes "lexst ls0 n (concat (map quote_char s) @ CHR 0x22 # rest) b ls" "length b + length s < 2 ^ 31 - 2"
    "n + int (length s) < int MAX_INT" "length s < f"
  shows "yields (string_loop C 34 f ls) (\<lambda>ls'. \<exists>m. m \<le> n + int (length s) \<and> lexst ls0 m (CHR 0x22 # rest) (b @ s) ls')"
  using assms
proof (induction s arbitrary: f ls b n)
  case Nil
  then have n: "lexst ls0 n (CHR 0x22 # rest) b ls" by simp
  then have "ls_current ls = 34" using lexst_current(1) [OF n] by (simp add: uchar_def)
  then show ?case using n Nil.prems(4) by (cases f) auto
next
  case (Cons c s f ls b n)
  let ?t = "concat (map quote_char s) @ CHR 0x22 # rest"
  let ?P = "\<lambda>ls'. \<exists>m. m \<le> n + int (length (c # s)) \<and> lexst ls0 m (CHR 0x22 # rest) (b @ c # s) ls'"
  obtain g where f: "f = Suc g" "length s < g" using Cons.prems(4) by (cases f) auto
  have go: "yields (string_loop C 34 g l) ?P" if "lexst ls0 k ?t (b @ [c]) l" "k \<le> n + 1" for l k
  proof (rule yields_mono [OF Cons.IH [OF that(1)]])
    fix x assume "\<exists>m. m \<le> k + int (length s) \<and> lexst ls0 m (CHR 0x22 # rest) ((b @ [c]) @ s) x"
    then obtain m where "m \<le> k + int (length s)" "lexst ls0 m (CHR 0x22 # rest) ((b @ [c]) @ s) x" by blast
    then show "?P x" using that(2) by (intro exI [of _ m]) simp
  qed (use Cons.prems(2,3) that(2) f(2) in auto)
  have st: "lexst ls0 n (quote_char c @ ?t) b ls" using Cons.prems(1) by simp
  have lb: "length b < 2 ^ 31 - 2" using Cons.prems(2) by simp
  show ?case
  proof (cases "c = CHR 0x22 \<or> c = CHR 0x5C \<or> c = CHR 0x0A \<or> c = CHR 0x0D \<or> c = NUL")
    case False
    then have q: "lexst ls0 n (c # ?t) b ls" using st by (simp add: quote_char_def)
    have cur: "ls_current ls = ch c" by (rule lexst_current(1) [OF q])
    then have "string_loop C 34 f ls = rbind (save_and_next C ls) (string_loop C 34 g)"
      using False by (simp add: f(1) uchar_num currIsNewline_def)
    then show ?thesis using yields_bind [OF save_and_next_ok [OF q lb]] go [of n] by auto
  next
    case True
    then obtain u where u: "quote_char c = CHR 0x5C # u" by (auto simp: quote_char_def)
    have q: "lexst ls0 n (CHR 0x5C # u @ ?t) b ls" using st u by simp
    have "ls_current ls = 92" using lexst_current(1) [OF q] by (simp add: uchar_def)
    then have eq: "string_loop C 34 f ls = rbind (next_char ls) (\<lambda>ls1. rbind (read_escape C ls1) (string_loop C 34 g))"
      by (simp add: f(1) currIsNewline_def newline_def EOZ_def)
    have "yields (rbind (next_char ls) (\<lambda>ls1. rbind (read_escape C ls1) (string_loop C 34 g))) ?P"
    proof (rule yields_bind, rule next_ok [OF q])
      fix ls1 assume 1: "lexst ls0 n (u @ ?t) b ls1"
      have h: "hd ?t \<noteq> CHR 0x0A \<and> hd ?t \<noteq> CHR 0x0D" using quoted_head [of s rest] by (metis list.collapse quoted_not_Nil)
      have "yields (read_escape C ls1) (\<lambda>l. \<exists>k. k \<le> n + 1 \<and> lexst ls0 k ?t (b @ [c]) l)"
        by (rule read_escape_quoted [OF u 1 lb _ h]) (use Cons.prems(3) in simp)
      then show "yields (rbind (read_escape C ls1) (string_loop C 34 g)) ?P"
        by (rule yields_bind) (use go in blast)
    qed
    then show ?thesis by (simp only: eq)
  qed
qed

lemma read_string_quoted:
  assumes "lexst ls0 n (quoted s @ rest) [] ls" "n + int (length s) < int MAX_INT" "length s < 2 ^ 29" "length s < f"
    and h: "luaH_setstr (ls_h ls0) s = Ok (h, o1)"
  shows "yields (read_string C f 34 ls) (\<lambda>(ls', si). si = StrInfo s \<and> at_text rest ls' \<and> 0 < ls_buffsize ls')"
proof -
  have q: "lexst ls0 n (CHR 0x22 # concat (map quote_char s) @ CHR 0x22 # rest) [] ls" using assms(1) by (simp add: quoted_def)
  show ?thesis
    unfolding read_string_def
  proof (rule yields_bind, rule save_and_next_ok [OF q])
    fix ls1 assume 1: "lexst ls0 n (concat (map quote_char s) @ CHR 0x22 # rest) ([] @ [CHR 0x22]) ls1"
    have "yields (string_loop C 34 f ls1) (\<lambda>ls'. \<exists>m. m \<le> n + int (length s) \<and> lexst ls0 m (CHR 0x22 # rest) (([] @ [CHR 0x22]) @ s) ls')"
      by (rule string_loop_quoted [OF 1]) (use assms(2-4) in simp_all)
    then show "yields (rbind (string_loop C 34 f ls1) (\<lambda>ls2. rbind (save_and_next C ls2) (\<lambda>ls3.
        rbind (inner_buff ls3 1) (\<lambda>s. rbind (luaX_newstring ls3 s) (\<lambda>(ls4, s). Ok (ls4, StrInfo s))))))
        (\<lambda>(ls', si). si = StrInfo s \<and> at_text rest ls' \<and> 0 < ls_buffsize ls')"
    proof (rule yields_bind, elim exE conjE)
      fix ls2 m assume 2: "lexst ls0 m (CHR 0x22 # rest) (([] @ [CHR 0x22]) @ s) ls2"
      show "yields (rbind (save_and_next C ls2) (\<lambda>ls3. rbind (inner_buff ls3 1) (\<lambda>s. rbind (luaX_newstring ls3 s) (\<lambda>(ls4, s). Ok (ls4, StrInfo s)))))
          (\<lambda>(ls', si). si = StrInfo s \<and> at_text rest ls' \<and> 0 < ls_buffsize ls')"
      proof (rule yields_bind, rule save_and_next_ok [OF 2])
        fix ls3 assume 3: "lexst ls0 m rest ((([] @ [CHR 0x22]) @ s) @ [CHR 0x22]) ls3"
        then have "inner_buff ls3 1 = Ok s" by (simp add: inner_buff_def lexst_def)
        then show "yields (rbind (inner_buff ls3 1) (\<lambda>s. rbind (luaX_newstring ls3 s) (\<lambda>(ls4, s). Ok (ls4, StrInfo s))))
            (\<lambda>(ls', si). si = StrInfo s \<and> at_text rest ls' \<and> 0 < ls_buffsize ls')"
          using 3 h by (simp add: luaX_newstring_def lexst_def)
      qed (use assms(3) in simp)
    qed
  qed simp
qed

definition lexer_at :: "string \<Rightarrow> 'd LexState \<Rightarrow> bool" where
  "lexer_at s ls \<longleftrightarrow> at_text s ls \<and> 0 < ls_buffsize ls"

lemma lexer_at_start: "lexer_at s ls \<Longrightarrow> lexst ls (ls_linenumber ls) s [] (luaZ_resetbuffer ls)"
  by (simp add: lexer_at_def lexst_def luaZ_resetbuffer_def)

lemma llex_quoted:
  assumes "lexer_at (quoted s @ rest) ls" "ls_linenumber ls + int (length s) < int MAX_INT" "length s < 2 ^ 29" "length s + 1 < f"
    and "luaH_setstr (ls_h ls) s = Ok (h, o1)"
  shows "\<exists>ls'. llex C f ls = Ok (ls', TK_STRING, StrInfo s) \<and> lexer_at rest ls'"
proof -
  obtain g where f: "f = Suc g" "length s < g" using assms(4) by (cases f) auto
  note st = lexer_at_start [OF assms(1)]
  have "ls_current (luaZ_resetbuffer ls) = 34"
    using lexst_current(1) [of ls _ "CHR 0x22" "concat (map quote_char s) @ CHR 0x22 # rest" "[]"] st by (simp add: quoted_def uchar_def)
  then have "llex C f ls = rbind (read_string C g 34 (luaZ_resetbuffer ls)) (\<lambda>(ls1, si). Ok (ls1, TK_STRING, si))"
    by (simp add: llex_def f(1) Let_def newline_def uchar_def)
  moreover obtain ls' where "read_string C g 34 (luaZ_resetbuffer ls) = Ok (ls', StrInfo s)" "lexer_at rest ls'"
    using read_string_quoted [OF st assms(2,3) f(2) assms(5)] by (auto simp: yields_def lexer_at_def)
  ultimately show ?thesis by simp
qed

section \<open>What \<open>%q\<close> writes\<close>

lemma add_quote_chars:
  "holds_str S0 X t \<Longrightarrow> length t + length (concat (map quote_char s)) < MAX_SIZET \<Longrightarrow>
   \<exists>X'. foldM (\<lambda>c X. luaL_addlstring C W X (quote_char c)) s X = Ok X' \<and> holds_str S0 X' (t @ concat (map quote_char s))"
proof (induction s arbitrary: X t)
  case (Cons c s)
  have "length t + length (quote_char c) < MAX_SIZET" using Cons.prems(2) by simp
  then obtain X1 where X1: "luaL_addlstring C W X (quote_char c) = Ok X1" "holds_str S0 X1 (t @ quote_char c)"
    using addlstring_ok [OF Cons.prems(1)] by blast
  then obtain X' where "foldM (\<lambda>c X. luaL_addlstring C W X (quote_char c)) s X1 = Ok X'" "holds_str S0 X' ((t @ quote_char c) @ concat (map quote_char s))"
    using Cons.IH [OF X1(2)] Cons.prems(2) by auto
  then show ?case using X1(1) by simp
qed auto

lemma length_quoted: "length (quoted s) \<le> 4 * length s + 2"
proof -
  have "length (concat (map quote_char s)) \<le> 4 * length s" by (induction s) (auto simp: quote_char_def)
  then show ?thesis by (simp add: quoted_def)
qed

lemma format_quoted:
  assumes "L_stack S = [VStr ''%q'', VStr s]" "length s < 2 ^ 29"
  shows "str_format C W S = Ok (api_push S (VStr (quoted s)), 1)"
proof -
  have len: "length (quoted s) < MAX_SIZET" using length_quoted [of s] assms(2) by (simp add: MAX_SIZET_def)
  have a: "luaL_checklstring C S 1 = Ok (S, ''%q'')" using arg_str [of 1 S "''%q''" C] assms(1) by simp
  have b: "luaL_checklstring C S 2 = Ok (S, s)" using arg_str [of 2 S s C] assms(1) by simp
  have "length ([] :: string) + 1 < MAX_SIZET" by (simp add: MAX_SIZET_def)
  then obtain X1 where X1: "luaL_addchar C W (S, luaL_buffinit) (CHR 0x22) = Ok X1" "holds_str S X1 ([] @ [CHR 0x22])"
    using addchar_ok [OF buffinit_holds] by blast
  obtain X2 where X2: "foldM (\<lambda>c X. luaL_addlstring C W X (quote_char c)) s X1 = Ok X2" "holds_str S X2 (([] @ [CHR 0x22]) @ concat (map quote_char s))"
    using add_quote_chars [OF X1(2), of s C W] len by (auto simp: quoted_def)
  obtain X3 where X3: "luaL_addchar C W X2 (CHR 0x22) = Ok X3" "holds_str S X3 ((([] @ [CHR 0x22]) @ concat (map quote_char s)) @ [CHR 0x22])"
    using addchar_ok [OF X2(2)] len by (fastforce simp: quoted_def)
  obtain B where B: "luaL_pushresult C W X3 = Ok (api_push S (VStr (quoted s)), B)"
    using pushresult_ok [OF X3(2)] by (auto simp: quoted_def)
  have q: "addquoted C W 2 (S, luaL_buffinit) = Ok X3" by (simp add: addquoted_def b X1(1) X2(1) X3(1))
  have sf: "scanformat ''%q'' 1 = Ok (1, ''%q'')"
    by (simp add: scanformat_def skip_flags.simps [of "''%q''"] rd_def skip_digit_def isdigit_c_def uchar_def FLAGS_def in_form_def MAX_FORMAT_def LUA_INTFRMLEN_def cstr_def)
  have "format_loop C W ''%q'' 0 1 (S, luaL_buffinit) = Ok X3"
    by (simp add: format_loop.simps [of C W "''%q''"] rd_def sf [simplified] format_item_def q)
  then show ?thesis by (simp add: str_format_def a with_buffer_def B)
qed

section \<open>Safety and progress\<close>

text \<open>At the text \<open>s\<close>, with at least \<open>k\<close> characters in the buffer.\<close>

definition lx :: "nat \<Rightarrow> string \<Rightarrow> 'd LexState \<Rightarrow> bool" where
  "lx k s ls \<longleftrightarrow> at_text s ls \<and> 0 < ls_buffsize ls \<and> length (ls_buff ls) \<le> ls_buffsize ls \<and> k \<le> length (ls_buff ls) \<and> table_inv (ls_h ls)"

text \<open>At a later place of the text \<open>s\<close>.\<close>

definition aft :: "nat \<Rightarrow> string \<Rightarrow> 'd LexState \<Rightarrow> bool" where
  "aft k s ls \<longleftrightarrow> (\<exists>t. suffix t s \<and> lx k t ls)"

lemma lx_lexst: "lx k s ls \<Longrightarrow> lexst ls (ls_linenumber ls) s (ls_buff ls) ls"
  by (simp add: lx_def lexst_def)

lemma lexst_lx: "lexst ls0 n s b ls \<Longrightarrow> table_inv (ls_h ls0) \<Longrightarrow> k \<le> length b \<Longrightarrow> lx k s ls"
  by (auto simp: lx_def lexst_def)

lemma lx_mono: "lx k s ls \<Longrightarrow> j \<le> k \<Longrightarrow> lx j s ls"
  by (simp add: lx_def)

lemma lx_current: "lx k s ls \<Longrightarrow> ls_current ls = (case s of [] \<Rightarrow> EOZ | c # r \<Rightarrow> ch c)"
  by (auto simp: lx_def at_text_def split: list.splits)

lemma lx_Cons: "lx k s ls \<Longrightarrow> ls_current ls = ch c \<Longrightarrow> \<exists>t. s = c # t"
  using lx_current [of k s ls] by (cases s) (auto simp: ch_inject ch_EOZ [symmetric] simp del: of_nat_eq_iff)

lemma lx_not_end: "lx k s ls \<Longrightarrow> ls_current ls \<noteq> EOZ \<Longrightarrow> \<exists>c t. s = c # t"
  using lx_current [of k s ls] by (cases s) auto

lemma aft_lx: "lx k s ls \<Longrightarrow> aft k s ls"
  by (auto simp: aft_def)

lemma aft_suffix: "aft k t ls \<Longrightarrow> suffix t s \<Longrightarrow> aft k s ls"
  unfolding aft_def using suffix_order.trans by blast

lemma aft_mono: "aft k s ls \<Longrightarrow> j \<le> k \<Longrightarrow> aft j s ls"
  unfolding aft_def using lx_mono by blast

lemma yields_post: "yields r P \<Longrightarrow> post r P"
  by (auto simp: yields_def)

lemma post_aft: "post r (aft k s) \<Longrightarrow> (\<And>t ls. suffix t s \<Longrightarrow> lx k t ls \<Longrightarrow> post (f ls) Q) \<Longrightarrow> post (rbind r f) Q"
  by (erule post_bind) (auto simp: aft_def)

lemma lexst_keep: "lexst ls n s b ls' \<Longrightarrow> lx k t ls \<Longrightarrow> k \<le> length b \<Longrightarrow> lx k s ls'"
  by (rule lexst_lx, assumption) (simp_all add: lx_def)

lemma next_safe:
  assumes "lx k (c # s) ls"
  shows "post (next_char ls) (lx k s)"
  by (rule post_mono [OF yields_post [OF next_ok [OF lx_lexst [OF assms]]]], rule lexst_keep [OF _ assms], assumption) (use assms in \<open>simp add: lx_def\<close>)

lemma save_safe:
  assumes "lx k s ls"
  shows "post (save C ls c) (lx (k + 1) s)"
proof -
  have "k + 1 \<le> length (ls_buff ls @ [byte_char c])" "table_inv (ls_h ls)" using assms by (simp_all add: lx_def)
  then show ?thesis
    using save_cases [OF lx_lexst [OF assms], of C c] lexst_lx by (auto simp del: length_append)
qed

lemma save_next_safe: "lx k (c # s) ls \<Longrightarrow> post (save_and_next C ls) (lx (k + 1) s)"
  unfolding save_and_next_def by (rule post_bind, erule save_safe) (erule next_safe)

lemma error_safe:
  assumes "lx k s ls"
  shows "post (luaX_lexerror C ls msg tk) Q"
proof -
  have "post (txtToken C ls tk) (\<lambda>t. True)"
    unfolding txtToken_def using assms by (auto intro: post_bind save_safe)
  then show ?thesis unfolding luaX_lexerror_def by (auto intro: post_bind)
qed

lemma inclinenumber_safe:
  assumes "lx k (c # s) ls"
  shows "post (inclinenumber C ls) (aft k s)"
  unfolding inclinenumber_def Let_def
proof (rule post_bind, rule next_safe [OF assms])
  fix ls1 assume 1: "lx k s ls1"
  have "post (if currIsNewline ls1 \<and> ls_current ls1 \<noteq> ls_current ls then next_char ls1 else Ok ls1) (aft k s)"
  proof (cases "currIsNewline ls1 \<and> ls_current ls1 \<noteq> ls_current ls")
    case True
    then obtain d t where t: "s = d # t" using lx_not_end [OF 1] by (auto simp: currIsNewline_def newline_def EOZ_def)
    then have "post (next_char ls1) (lx k t)" using next_safe 1 by simp
    then show ?thesis using True t by (auto elim!: post_mono intro: aft_suffix [OF aft_lx] simp: suffix_def)
  qed (use 1 aft_lx in auto)
  then show "post (rbind (if currIsNewline ls1 \<and> ls_current ls1 \<noteq> ls_current ls then next_char ls1 else Ok ls1) (\<lambda>ls2.
      if int MAX_INT \<le> ls_linenumber (ls2\<lparr>ls_linenumber := ls_linenumber ls2 + 1\<rparr>) then
        luaX_syntaxerror C (ls2\<lparr>ls_linenumber := ls_linenumber ls2 + 1\<rparr>) ''chunk has too many lines''
      else Ok (ls2\<lparr>ls_linenumber := ls_linenumber ls2 + 1\<rparr>))) (aft k s)"
  proof (rule post_aft)
    fix t ls2 assume "suffix t s" "lx k t ls2"
    moreover have "lx k t (ls2\<lparr>ls_linenumber := ls_linenumber ls2 + 1\<rparr>)" using \<open>lx k t ls2\<close> by (simp add: lx_def)
    ultimately show "post (if int MAX_INT \<le> ls_linenumber (ls2\<lparr>ls_linenumber := ls_linenumber ls2 + 1\<rparr>) then
        luaX_syntaxerror C (ls2\<lparr>ls_linenumber := ls_linenumber ls2 + 1\<rparr>) ''chunk has too many lines''
      else Ok (ls2\<lparr>ls_linenumber := ls_linenumber ls2 + 1\<rparr>)) (aft k s)"
      unfolding luaX_syntaxerror_def using error_safe by (auto simp: aft_def)
  qed
qed

lemma newstring_safe:
  assumes "lx k s ls"
  shows "post (luaX_newstring ls str) (\<lambda>(ls', str'). str' = str \<and> lx k s ls')"
proof (cases "luaH_setstr (ls_h ls) str")
  case (Inl e)
  then show ?thesis using luaH_setstr_ok [of "ls_h ls" str] assms by (auto simp: luaX_newstring_def lx_def)
next
  case (Inr r)
  obtain h o1 where r: "r = (h, o1)" by (cases r)
  then have s: "set_ok (ls_h ls) (VStr str) h o1"
    using luaH_setstr_ok [of "ls_h ls" str] assms Inr by (auto simp: lx_def)
  then have "table_inv (if slot_val h o1 = VNil then slot_set h o1 (VBool True) else h)"
    using slot_set_core [of h "VStr str" o1] by (simp add: set_ok_def table_inv_def)
  then show ?thesis using Inr r assms by (simp add: luaX_newstring_def lx_def)
qed

lemma post_aft2:
  "post r (\<lambda>(ls', b). aft k s ls') \<Longrightarrow> (\<And>t ls b. suffix t s \<Longrightarrow> lx k t ls \<Longrightarrow> post (f (ls, b)) Q) \<Longrightarrow> post (rbind r f) Q"
  by (erule post_bind) (auto simp: aft_def)

lemma post_aft_trans: "post r (aft j t) \<Longrightarrow> suffix t s \<Longrightarrow> k \<le> j \<Longrightarrow> post r (aft k s)"
  by (erule post_mono) (blast intro: aft_suffix aft_mono)

lemma post_aft2_trans: "post r (\<lambda>(ls', b). aft j t ls') \<Longrightarrow> suffix t s \<Longrightarrow> k \<le> j \<Longrightarrow> post r (\<lambda>(ls', b). aft k s ls')"
  by (erule post_mono) (auto intro: aft_suffix aft_mono)

text \<open>Loops that save characters.\<close>

lemma save_while_safe:
  assumes "lx k s ls" "\<not> p EOZ" "length s < f"
  shows "post (save_while C p f ls) (aft k s)"
  using assms
proof (induction f arbitrary: s ls k)
  case (Suc f)
  show ?case
  proof (cases "p (ls_current ls)")
    case True
    then obtain c t where s: "s = c # t" using lx_not_end [OF Suc.prems(1)] Suc.prems(2) by metis
    have "post (rbind (save_and_next C ls) (save_while C p f)) (aft k s)"
    proof (rule post_bind [OF save_next_safe [OF Suc.prems(1) [unfolded s]]], goal_cases)
      case (1 ls1)
      have "post (save_while C p f ls1) (aft (k + 1) t)" using Suc.IH [OF 1(2) Suc.prems(2)] Suc.prems(3) s by simp
      then show ?case by (rule post_aft_trans) (simp_all add: s suffix_ConsI)
    qed
    then show ?thesis using True by simp
  qed (use Suc.prems aft_lx in auto)
qed simp

lemma check_next_safe:
  assumes "lx k s ls" "CHR 0xFF \<notin> set set1"
  shows "post (check_next C ls set1) (\<lambda>(ls', b). aft k s ls')"
proof (cases "char_of (nat (ls_current ls mod 256)) \<in> set (set1 @ [NUL])")
  case True
  have "ls_current ls \<noteq> EOZ"
  proof
    assume "ls_current ls = EOZ"
    moreover have "char_of (255 :: nat) = CHR 0xFF"
      using byte_char_ch [of "CHR 0xFF"] by (simp add: byte_char_def uchar_def)
    ultimately show False using True assms(2) by (simp add: EOZ_def)
  qed
  then obtain c t where s: "s = c # t" using lx_not_end [OF assms(1)] by blast
  have "post (rbind (save_and_next C ls) (\<lambda>ls1. Ok (ls1, True))) (\<lambda>(ls', b). aft k s ls')"
  proof (rule post_bind [OF save_next_safe [OF assms(1) [unfolded s]]], goal_cases)
    case (1 ls1)
    then have "aft k (c # t) ls1" using aft_lx aft_mono aft_suffix suffix_ConsI [of t t c] by fastforce
    then show ?case by (simp add: s)
  qed
  then show ?thesis using True by (simp add: check_next_def)
qed (use assms aft_lx in \<open>auto simp: check_next_def\<close>)

lemma lx_buffreplace [simp]: "lx k s (buffreplace ls c d) = lx k s ls"
  by (simp add: lx_def buffreplace_def)

lemma lx_fields [simp]: "lx k s (ls\<lparr>ls_decpoint := d\<rparr>) = lx k s ls" "lx k s (ls\<lparr>ls_lastline := n\<rparr>) = lx k s ls"
  by (auto simp: lx_def at_text_def split: list.split)

lemma trydecpoint_safe:
  assumes "lx k s ls"
  shows "post (trydecpoint C ls) (\<lambda>(ls', si). lx k s ls')"
proof -
  let ?ls = "buffreplace (ls\<lparr>ls_decpoint := CHR ''.''\<rparr>) (ls_decpoint ls) (CHR ''.'')"
  have "lx k s ?ls" "lx k s (buffreplace ?ls (ls_decpoint ?ls) (CHR ''.''))" using assms by simp_all
  then show ?thesis
    unfolding trydecpoint_def Let_def by (cases "luaO_str2d (ls_buff ?ls)") (simp_all add: error_safe)
qed

lemma read_numeral_safe:
  assumes "lx k (c # s) ls" "length s < f"
  shows "post (read_numeral C f ls) (\<lambda>(ls', si). aft 0 s ls')"
  unfolding read_numeral_def
proof (rule post_bind [OF save_next_safe [OF assms(1)]], goal_cases)
  case (1 ls1)
  have 1: "lx 0 s ls1" using 1(2) by (rule lx_mono) simp
  show ?case
  proof (rule post_aft [OF save_while_safe [OF 1]], goal_cases)
    case (3 t2 ls2)
    show ?case
    proof (rule post_aft2 [OF check_next_safe [OF 3(2)]], simp, unfold prod.case, goal_cases)
      case (1 t3 ls3 e)
      have "post (if e then check_next C ls3 ''+-'' else Ok (ls3, False)) (\<lambda>(ls', b). aft 0 t3 ls')"
        using check_next_safe [OF 1(2), of "''+-''"] 1(2) aft_lx by auto
      then show ?case
      proof (rule post_aft2, unfold prod.case, goal_cases)
        case (1 t4 ls4 b)
        have t4: "suffix t4 s" using 1(1) \<open>suffix t3 t2\<close> 3(1) by (blast intro: suffix_order.trans)
        show ?case
        proof (rule post_aft [OF save_while_safe [OF 1(2)]], goal_cases)
          case (3 t5 ls5)
          show ?case
          proof (rule post_bind [OF save_safe [OF 3(2)]], goal_cases)
            case (1 ls6)
            have "lx 0 t5 ls6" using 1(2) by (rule lx_mono) simp
            moreover have "suffix t5 s" using 3(1) t4 by (rule suffix_order.trans)
            ultimately show ?case
              using trydecpoint_safe [of 0 t5 "buffreplace ls6 (CHR ''.'') (ls_decpoint ls6)" C]
              by (auto simp: Let_def aft_def split: option.split elim!: post_mono)
          qed
        qed (use assms(2) suffix_length_le [OF t4] in \<open>simp_all add: cls_def EOZ_def\<close>)
      qed
    qed
  qed (use assms(2) in \<open>simp_all add: cls_def EOZ_def\<close>)
qed

text \<open>Long brackets.\<close>

lemma count_sep_safe:
  assumes "lx k s ls" "length s < f"
  shows "post (count_sep C f n ls) (\<lambda>(ls', m). n \<le> m \<and> aft (k + nat (m - n)) s ls')"
  using assms
proof (induction f arbitrary: s ls k n)
  case (Suc f)
  show ?case
  proof (cases "ls_current ls = ch (CHR ''='')")
    case True
    then obtain t where s: "s = CHR ''='' # t" using lx_Cons [OF Suc.prems(1)] by blast
    have "post (rbind (save_and_next C ls) (count_sep C f (n + 1))) (\<lambda>(ls', m). n \<le> m \<and> aft (k + nat (m - n)) s ls')"
    proof (rule post_bind [OF save_next_safe [OF Suc.prems(1) [unfolded s]]], goal_cases)
      case (1 ls1)
      have "post (count_sep C f (n + 1) ls1) (\<lambda>(ls', m). n + 1 \<le> m \<and> aft (k + 1 + nat (m - (n + 1))) t ls')"
        using Suc.IH [OF 1(2)] Suc.prems(2) s by simp
      then show ?case
      proof (rule post_mono, clarify, goal_cases)
        case (1 ls' m)
        then have e: "k + 1 + nat (m - (n + 1)) = k + nat (m - n)" by simp
        have "aft (k + nat (m - n)) (CHR ''='' # t) ls'" by (rule aft_suffix [OF 1(3) [unfolded e] suffix_ConsI]) simp
        then show ?case using 1 by (simp add: s)
      qed
    qed
    then show ?thesis using True by simp
  qed (use Suc.prems aft_lx in auto)
qed simp

definition sep_len :: "int \<Rightarrow> nat" where
  "sep_len n = nat (if 0 \<le> n then n else - n - 1)"

lemma skip_sep_safe:
  assumes "lx k (c # s) ls" "length s < f"
  shows "post (skip_sep C f ls) (\<lambda>(ls', n). \<exists>t. suffix t s \<and> lx (k + 1 + sep_len n) t ls' \<and> (0 \<le> n \<longrightarrow> (\<exists>u. t = c # u)))"
  unfolding skip_sep_def Let_def
proof (rule post_bind [OF save_next_safe [OF assms(1)]], goal_cases)
  case (1 ls1)
  show ?case
  proof (rule post_bind [OF count_sep_safe [OF 1(2) assms(2), of C 0]], clarify, goal_cases)
    case (1 ls2 n)
    obtain t where t: "suffix t s" "lx (k + 1 + nat n) t ls2" using 1(3) by (auto simp: aft_def)
    have "\<exists>u. t = c # u" if "ls_current ls2 = ls_current ls"
      using lx_Cons [OF t(2)] that lx_current [OF assms(1)] by simp
    moreover have "sep_len (if ls_current ls2 = ls_current ls then n else - n - 1) = nat n" using 1(2) by (simp add: sep_len_def)
    ultimately show ?case using t 1(2) by (intro post_simps(1) [THEN iffD2]) (auto intro: exI [of _ t])
  qed
qed

text \<open>In a comment (\<open>str\<close> is false) the buffer is emptied on the way.\<close>

lemma lx_reset: "lx k s ls \<Longrightarrow> lx 0 s (luaZ_resetbuffer ls)"
  by (simp add: lx_def luaZ_resetbuffer_def)

lemma long_loop_other:
  assumes "ls_current ls = ch c" "c \<noteq> CHR ''[''" "c \<noteq> CHR '']''"
  shows "long_loop C str sep (Suc f) ls =
    (if currIsNewline ls then
       rbind (save C ls 10) (\<lambda>ls1. rbind (inclinenumber C ls1) (\<lambda>ls2. long_loop C str sep f (if str then ls2 else luaZ_resetbuffer ls2)))
     else rbind (if str then save_and_next C ls else next_char ls) (long_loop C str sep f))"
proof -
  have "ch c \<noteq> EOZ" "ch c \<noteq> ch (CHR ''['')" "ch c \<noteq> ch (CHR '']'')" using assms(2,3) by (simp_all only: ch_EOZ ch_inject not_False_eq_True)
  then show ?thesis unfolding long_loop.simps(2) assms(1) by (simp only: if_False)
qed

lemma post_skip_sep:
  assumes "lx k (c # t) ls" "length t < f" "0 \<le> sep"
    and "\<And>ls1 n u. suffix u t \<Longrightarrow> lx (k + 1 + sep_len n) u ls1 \<Longrightarrow> post (g ls1) Q"
    and "\<And>ls1 v. suffix v t \<Longrightarrow> lx (k + 1 + nat sep) (c # v) ls1 \<Longrightarrow> post (h ls1) Q"
  shows "post (rbind (skip_sep C f ls) (\<lambda>(ls1, n). if n = sep then h ls1 else g ls1)) Q"
proof (rule post_bind [OF skip_sep_safe [OF assms(1,2)]], clarify, goal_cases)
  case (1 ls1 n u)
  show ?case
  proof (cases "n = sep")
    case True
    then obtain v where v: "u = c # v" using 1(4) assms(3) by blast
    have "suffix v t" using 1(2) v by (blast intro: suffix_ConsD suffix_order.trans)
    then show ?thesis using assms(5) 1(3) v True assms(3) by (simp add: sep_len_def)
  qed (use 1 assms(4) in auto)
qed

lemma long_loop_safe:
  assumes "lx k s ls" "length s < f" "0 \<le> sep"
  shows "post (long_loop C str sep f ls) (aft (if str then k + 2 + nat sep else 0) s)"
  using assms
proof (induction f arbitrary: s ls k)
  case (Suc f)
  let ?A = "aft (if str then k + 2 + nat sep else 0) s"
  have go: "post (long_loop C str sep f l) ?A" if "lx j t l" "suffix t s" "length t < length s" "str \<longrightarrow> k \<le> j" for j t and l :: "'a LexState"
    by (rule post_aft_trans [OF Suc.IH [OF that(1)]]) (use that Suc.prems in auto)
  show ?case
  proof (cases s)
    case Nil
    then have "ls_current ls = EOZ" using lx_current [OF Suc.prems(1)] by simp
    then show ?thesis by (auto intro: error_safe [OF Suc.prems(1)])
  next
    case (Cons c t)
    note st = Suc.prems(1) [unfolded Cons]
    have cur: "ls_current ls = ch c" using lx_current [OF st] by simp
    have suf: "suffix u s" "length u < length s" if "suffix u t" for u
      using that suffix_length_le [OF that] by (simp_all add: Cons suffix_ConsI)
    have tf: "length t < f" using Suc.prems(2) Cons by simp
    consider "c = CHR ''[''" | "c = CHR '']''" | "c \<noteq> CHR ''[''" "c \<noteq> CHR '']''" "currIsNewline ls" | "c \<noteq> CHR ''[''" "c \<noteq> CHR '']''" "\<not> currIsNewline ls" by blast
    then show ?thesis
    proof cases
      case 1
      have "post (rbind (skip_sep C f ls) (\<lambda>(ls1, n). if n = sep then rbind (save_and_next C ls1) (\<lambda>ls2.
            if sep = 0 then luaX_lexerror C ls2 ''nesting of [[...]] is deprecated'' (ch (CHR ''['')) else long_loop C str sep f ls2)
          else long_loop C str sep f ls1)) ?A"
        by (rule post_skip_sep [OF st tf Suc.prems(3)]) (use go suf in \<open>auto intro!: post_bind [OF save_next_safe] intro: error_safe\<close>)
      then show ?thesis using cur 1 by (simp add: uchar_def EOZ_def)
    next
      case 2
      have end_ok: "post (save_and_next C ls1) ?A" if "suffix v t" "lx (k + 1 + nat sep) (c # v) ls1" for v and ls1 :: "'a LexState"
        by (rule post_mono [OF save_next_safe [OF that(2)]]) (use suf [OF that(1)] in \<open>auto intro: aft_suffix aft_lx lx_mono\<close>)
      have "post (rbind (skip_sep C f ls) (\<lambda>(ls1, n). if n = sep then save_and_next C ls1 else long_loop C str sep f ls1)) ?A"
        by (rule post_skip_sep [OF st tf Suc.prems(3)]) (use go suf end_ok in auto)
      then show ?thesis using cur 2 by (simp add: uchar_def EOZ_def)
    next
      case 3
      have "post (long_loop C str sep f (if str then l else luaZ_resetbuffer l)) ?A" if "suffix u t" "lx (k + 1) u l" for u and l :: "'a LexState"
        using go [of _ u "if str then l else luaZ_resetbuffer l"] suf [OF that(1)] that(2) lx_reset by (cases str) auto
      then have "post (rbind (save C ls 10) (\<lambda>ls1. rbind (inclinenumber C ls1) (\<lambda>ls2. long_loop C str sep f (if str then ls2 else luaZ_resetbuffer ls2)))) ?A"
        by (intro post_bind [OF save_safe [OF st]] post_aft [OF inclinenumber_safe])
      then show ?thesis unfolding long_loop_other [OF cur 3(1,2)] if_P [OF 3(3)] .
    next
      case 4
      have "post (rbind (if str then save_and_next C ls else next_char ls) (long_loop C str sep f)) ?A"
        using go suf [of t] by (cases str) (auto intro!: post_bind [OF save_next_safe [OF st]] post_bind [OF next_safe [OF st]])
      then show ?thesis unfolding long_loop_other [OF cur 4(1,2)] if_not_P [OF 4(3)] .
    qed
  qed
qed simp

lemma inner_buff_ok: "lx k s ls \<Longrightarrow> 2 * j \<le> k \<Longrightarrow> \<exists>str. inner_buff ls j = Ok str"
  by (simp add: inner_buff_def lx_def)

text \<open>The end of a string: it is cut out of the buffer and anchored.\<close>

lemma post_string:
  assumes "lx k s ls" "2 * j \<le> k"
  shows "post (rbind (inner_buff ls j) (\<lambda>s. rbind (luaX_newstring ls s) (\<lambda>(ls4, s). Ok (ls4, StrInfo s)))) (\<lambda>(ls', si). aft 0 s ls')"
proof -
  obtain str where str: "inner_buff ls j = Ok str" using inner_buff_ok [OF assms] by blast
  have "post (rbind (luaX_newstring ls str) (\<lambda>(ls4, s). Ok (ls4, StrInfo s))) (\<lambda>(ls', si). aft 0 s ls')"
    by (rule post_bind [OF newstring_safe [OF assms(1)]]) (auto intro: aft_mono [OF aft_lx])
  then show ?thesis by (simp add: str)
qed

lemma read_long_string_safe:
  assumes "lx k (c # s) ls" "length s < f" "0 \<le> sep" "str \<longrightarrow> 1 + nat sep \<le> k"
  shows "post (read_long_string C f str sep ls) (\<lambda>(ls', si). aft 0 s ls')"
  unfolding read_long_string_def
proof (rule post_bind [OF save_next_safe [OF assms(1)]], goal_cases)
  case (1 ls1)
  have "post (if currIsNewline ls1 then inclinenumber C ls1 else Ok ls1) (aft (k + 1) s)"
  proof (cases "currIsNewline ls1")
    case True
    then obtain d t where "s = d # t" using lx_not_end [OF 1(2)] by (force simp: currIsNewline_def newline_def EOZ_def)
    then have "post (inclinenumber C ls1) (aft (k + 1) s)"
      using post_aft_trans [OF inclinenumber_safe, of "k + 1" d t ls1 s "k + 1" C] 1(2) by (simp add: suffix_ConsI)
    then show ?thesis using True by simp
  qed (use 1(2) aft_lx in auto)
  then show ?case
  proof (rule post_aft, goal_cases)
    case (1 t ls2)
    have lt: "length t < f" using suffix_length_le [OF 1(1)] assms(2) by simp
    show ?case
    proof (rule post_aft [OF long_loop_safe [OF 1(2) lt assms(3)]], goal_cases)
      case (1 u ls3)
      have us: "suffix u s" using 1(1) \<open>suffix t s\<close> by (rule suffix_order.trans)
      show ?case
      proof (cases str)
        case True
        then have u: "lx (k + 1 + 2 + nat sep) u ls3" using 1(2) by simp
        have "2 * nat (2 + sep) \<le> k + 1 + 2 + nat sep" using assms(3,4) True by simp
        then have "post (rbind (inner_buff ls3 (nat (2 + sep))) (\<lambda>s. rbind (luaX_newstring ls3 s) (\<lambda>(ls4, s). Ok (ls4, StrInfo s)))) (\<lambda>(ls', si). aft 0 s ls')"
          by (intro post_aft2_trans [OF post_string [OF u] us]) simp_all
        then show ?thesis using True by simp
      next
        case False
        then have "aft 0 s ls3" using 1(2) us by (auto simp: aft_def)
        then show ?thesis using False by simp
      qed
    qed
  qed
qed

text \<open>Quoted strings.\<close>

lemma escape_digits_safe:
  assumes "lx k s ls" "0 \<le> n"
  shows "post (escape_digits j n ls) (\<lambda>(ls', m). aft k s ls' \<and> 0 \<le> m)"
  using assms
proof (induction j arbitrary: s ls n)
  case (Suc j)
  show ?case
  proof (cases "cls isdigit_c (ls_current ls)")
    case True
    then obtain c t where s: "s = c # t" using lx_not_end [OF Suc.prems(1)] by (auto simp: cls_def EOZ_def)
    have n: "0 \<le> 10 * n + (ls_current ls - 48)" using True Suc.prems(2) by (auto simp: cls_def isdigit_c_def)
    have "post (rbind (next_char ls) (escape_digits j (10 * n + (ls_current ls - 48)))) (\<lambda>(ls', m). aft k s ls' \<and> 0 \<le> m)"
    proof (rule post_bind [OF next_safe [OF Suc.prems(1) [unfolded s]]], goal_cases)
      case (1 ls1)
      show ?case
        by (rule post_mono [OF Suc.IH [OF 1(2) n]]) (auto simp: s intro: aft_suffix suffix_ConsI)
    qed
    then show ?thesis using True by simp
  qed (use Suc.prems aft_lx in auto)
qed (use aft_lx in auto)

lemma read_escape_safe:
  assumes "lx k s ls"
  shows "post (read_escape C ls) (aft k s)"
proof -
  have step: "aft k (c # t) l" if "lx (k + 1) t l" for c t and l :: "'a LexState"
    using that by (auto intro: aft_suffix [OF aft_lx [OF lx_mono]] simp: suffix_def)
  show ?thesis
  proof (cases s)
    case Nil
    then have "ls_current ls = EOZ" using lx_current [OF assms] by simp
    moreover have "escape_letter EOZ = None" by (simp add: escape_letter_def EOZ_def)
    ultimately show ?thesis using assms aft_lx by (auto simp: read_escape_def currIsNewline_def)
  next
    case (Cons c t)
    note st = assms [unfolded Cons]
    have letter: "post (rbind (save C ls d) next_char) (aft k s)" for d
      unfolding Cons by (rule post_bind [OF save_safe [OF st]], rule post_mono [OF next_safe]) (auto intro: step)
    have line: "post (rbind (save C ls 10) (inclinenumber C)) (aft k s)"
      unfolding Cons by (rule post_bind [OF save_safe [OF st]], rule post_aft_trans [OF inclinenumber_safe]) (auto simp: suffix_def)
    have char: "post (save_and_next C ls) (aft k s)"
      unfolding Cons by (rule post_mono [OF save_next_safe [OF st]]) (rule step)
    have digits: "post (rbind (escape_digits 3 0 ls) (\<lambda>(ls1, c).
        if 255 < c then luaX_lexerror C ls1 ''escape sequence too large'' TK_STRING else save C ls1 c)) (aft k s)"
    proof (rule post_bind [OF escape_digits_safe [OF assms, of 0]], simp, clarify, goal_cases)
      case (1 ls1 c)
      then obtain u where u: "suffix u s" "lx k u ls1" by (auto simp: aft_def)
      have "post (save C ls1 c) (aft k s)" by (rule post_mono [OF save_safe [OF u(2)]]) (use u(1) lx_mono in \<open>fastforce simp: aft_def\<close>)
      then show ?case by (auto intro: error_safe [OF u(2)])
    qed
    show ?thesis
      unfolding read_escape_def using letter line char digits assms aft_lx by (auto split: option.split)
  qed
qed

lemma string_loop_safe:
  assumes "lx k s ls" "length s < f" "del \<noteq> EOZ"
  shows "post (string_loop C del f ls) (\<lambda>ls'. aft k s ls' \<and> ls_current ls' = del)"
  using assms
proof (induction f arbitrary: s ls k)
  case (Suc f)
  show ?case
  proof (cases s)
    case Nil
    then have "ls_current ls = EOZ" using lx_current [OF Suc.prems(1)] by simp
    then show ?thesis using Suc.prems(3) by (auto intro: error_safe [OF Suc.prems(1)])
  next
    case (Cons c t)
    note st = Suc.prems(1) [unfolded Cons]
    have go: "post (string_loop C del f l) (\<lambda>ls'. aft k s ls' \<and> ls_current ls' = del)" if "lx j u l" "suffix u t" "k \<le> j" for j u and l :: "'a LexState"
    proof (rule post_mono [OF Suc.IH [OF that(1) _ Suc.prems(3)]])
      show "length u < f" using suffix_length_le [OF that(2)] Suc.prems(2) Cons by simp
      have "suffix u s" using that(2) by (simp add: Cons suffix_ConsI)
      then show "aft j u x \<and> ls_current x = del \<Longrightarrow> aft k s x \<and> ls_current x = del" for x
        using that(3) by (blast intro: aft_suffix aft_mono)
    qed
    have esc: "post (rbind (next_char ls) (\<lambda>ls1. rbind (read_escape C ls1) (string_loop C del f))) (\<lambda>ls'. aft k s ls' \<and> ls_current ls' = del)"
      by (rule post_bind [OF next_safe [OF st]], rule post_aft [OF read_escape_safe]) (use go in auto)
    have plain: "post (rbind (save_and_next C ls) (string_loop C del f)) (\<lambda>ls'. aft k s ls' \<and> ls_current ls' = del)"
      by (rule post_bind [OF save_next_safe [OF st]]) (use go in auto)
    show ?thesis using esc plain Suc.prems(1) aft_lx by (auto intro: error_safe [OF Suc.prems(1)])
  qed
qed simp

lemma read_string_safe:
  assumes "lx k (c # s) ls" "length s < f" "del = ch c"
  shows "post (read_string C f del ls) (\<lambda>(ls', si). aft 0 s ls')"
  unfolding read_string_def
proof (rule post_bind [OF save_next_safe [OF assms(1)]], goal_cases)
  case (1 ls1)
  show ?case
  proof (rule post_bind [OF string_loop_safe [OF 1(2) assms(2)]], simp add: assms(3), elim conjE, goal_cases)
    case (1 ls2)
    then obtain t where t: "suffix t s" "lx (k + 1) t ls2" by (auto simp: aft_def)
    then obtain u where u: "t = c # u" using lx_Cons [OF t(2)] 1(3) assms(3) by blast
    have us: "suffix u s" using t(1) u by (blast intro: suffix_ConsD)
    show ?case
    proof (rule post_bind [OF save_next_safe [OF t(2) [unfolded u]]], goal_cases)
      case (1 ls3)
      show ?case by (rule post_aft2_trans [OF post_string [OF 1(2)] us]) simp_all
    qed
  qed
qed

text \<open>What a token of a branch of the analyser satisfies: it is not the end, and the text is shorter.\<close>

definition token_ok :: "string \<Rightarrow> 'd LexState \<times> int \<times> SemInfo \<Rightarrow> bool" where
  "token_ok s = (\<lambda>(ls', tk, si). \<exists>t. suffix t s \<and> lx 0 t ls' \<and> (if tk = TK_EOS then t = [] else length t < length s))"

lemma token_okI:
  assumes "aft k t ls'" "suffix t s" "length t < length s" "tk \<noteq> TK_EOS"
  shows "token_ok s (ls', tk, si)"
proof -
  obtain u where u: "suffix u t" "lx k u ls'" using assms(1) by (auto simp: aft_def)
  then have "suffix u s" "lx 0 u ls'" "length u < length s"
    using assms(2,3) suffix_length_le [OF u(1)] by (blast intro: suffix_order.trans lx_mono | simp)+
  then show ?thesis using assms(4) by (auto simp: token_ok_def)
qed

lemma token_ok_suffix:
  assumes "token_ok t x" "suffix t s"
  shows "token_ok s x"
proof -
  obtain ls' tk si where x: "x = (ls', tk, si)" by (cases x)
  obtain u where u: "suffix u t" "lx 0 u ls'" "if tk = TK_EOS then u = [] else length u < length t"
    using assms(1) by (auto simp: token_ok_def x)
  then show ?thesis
    using suffix_order.trans [OF u(1) assms(2)] suffix_length_le [OF assms(2)] by (auto simp: token_ok_def x)
qed

lemma char_token: "ch c \<noteq> TK_EOS" "ch (CHR ''-'') \<noteq> TK_EOS" "TK_STRING \<noteq> TK_EOS" "TK_NUMBER \<noteq> TK_EOS" "TK_NAME \<noteq> TK_EOS"
  "TK_DOTS \<noteq> TK_EOS" "TK_CONCAT \<noteq> TK_EOS" "TK_EQ \<noteq> TK_EOS" "TK_LE \<noteq> TK_EOS" "TK_GE \<noteq> TK_EOS" "TK_NE \<noteq> TK_EOS"
proof -
  have "uchar c < 256" "uchar (CHR ''-'') < 256" by (simp_all add: uchar_def)
  then show "ch c \<noteq> TK_EOS" "ch (CHR ''-'') \<noteq> TK_EOS" unfolding TK_EOS_def by linarith+
qed (simp_all add: token_defs)

lemma with_eq_safe:
  assumes "lx k (c # s) ls" "tk \<noteq> TK_EOS"
  shows "post (with_eq ls tk) (token_ok (c # s))"
  unfolding with_eq_def Let_def
proof (rule post_bind [OF next_safe [OF assms(1)]], goal_cases)
  case (1 ls1)
  have cur: "ls_current ls = ch c" using lx_current [OF assms(1)] by simp
  show ?case
  proof (cases "ls_current ls1 = ch (CHR ''='')")
    case True
    then obtain t where s: "s = CHR ''='' # t" using lx_Cons [OF 1(2)] by blast
    have "post (rbind (next_char ls1) (\<lambda>ls2. Ok (ls2, tk, NoInfo))) (token_ok (c # s))"
      by (rule post_bind [OF next_safe [OF 1(2) [unfolded s]]]) (use assms(2) in \<open>auto simp: s suffix_def intro!: token_okI aft_lx\<close>)
    then show ?thesis using True by simp
  next
    case False
    then show ?thesis using 1(2) char_token(1) by (auto simp: cur suffix_def simp del: of_nat_eq_iff intro!: token_okI aft_lx)
  qed
qed

lemma skip_line_safe: "lx k s ls \<Longrightarrow> length s < f \<Longrightarrow> post (skip_line f ls) (aft k s)"
proof (induction f arbitrary: s ls)
  case (Suc f)
  show ?case
  proof (cases s)
    case (Cons c t)
    have "post (rbind (next_char ls) (skip_line f)) (aft k s)"
    proof (rule post_bind [OF next_safe [OF Suc.prems(1) [unfolded Cons]]], goal_cases)
      case (1 ls1)
      show ?case by (rule post_aft_trans [OF Suc.IH [OF 1(2)]]) (use Suc.prems(2) Cons in \<open>simp_all add: suffix_ConsI\<close>)
    qed
    then show ?thesis using Suc.prems(1) aft_lx by auto
  qed (use Suc.prems lx_current [OF Suc.prems(1)] aft_lx in auto)
qed simp

lemma skip_comment_safe:
  assumes "lx k s ls" "length s < f"
  shows "post (skip_comment C f ls) (aft 0 s)"
proof (cases "ls_current ls = ch (CHR ''['')")
  case True
  then obtain t where s: "s = CHR ''['' # t" using lx_Cons [OF assms(1)] by blast
  have tf: "length t < f" using assms(2) s by simp
  have "post (rbind (skip_sep C f ls) (\<lambda>(ls1, sep).
          if 0 \<le> sep then rbind (read_long_string C f False sep (luaZ_resetbuffer ls1)) (\<lambda>(ls2, si). Ok (luaZ_resetbuffer ls2))
          else skip_line f (luaZ_resetbuffer ls1))) (aft 0 s)"
  proof (rule post_bind [OF skip_sep_safe [OF assms(1) [unfolded s] tf]], clarify, goal_cases)
    case (1 ls1 sep u)
    have us: "suffix u s" using 1(2) by (simp add: s suffix_ConsI)
    note r = lx_reset [OF 1(3)]
    show ?case
    proof (cases "0 \<le> sep")
      case True
      then obtain v where v: "u = CHR ''['' # v" using 1(4) by blast
      have vs: "suffix v s" "length v < f" using us v suffix_length_le [OF 1(2)] tf by (auto dest: suffix_ConsD)
      have "post (rbind (read_long_string C f False sep (luaZ_resetbuffer ls1)) (\<lambda>(ls2, si). Ok (luaZ_resetbuffer ls2))) (aft 0 s)"
        by (rule post_aft2 [OF read_long_string_safe [OF r [unfolded v] vs(2) True]]) (use vs(1) lx_reset in \<open>auto simp: aft_def intro: suffix_order.trans\<close>)
      then show ?thesis using True by simp
    next
      case False
      have "post (skip_line f (luaZ_resetbuffer ls1)) (aft 0 s)"
        by (rule post_aft_trans [OF skip_line_safe [OF r]]) (use us suffix_length_le [OF 1(2)] tf in auto)
      then show ?thesis using False by simp
    qed
  qed
  then show ?thesis using True by (simp add: skip_comment_def)
next
  case False
  have "post (skip_line f ls) (aft 0 s)" by (rule post_aft_trans [OF skip_line_safe [OF assms]]) simp_all
  then show ?thesis using False by (simp add: skip_comment_def)
qed

lemma read_dots_safe:
  assumes "lx k (c # s) ls" "length s < f" "c = CHR ''.''"
  shows "post (read_dots C f ls) (token_ok (c # s))"
  unfolding read_dots_def
proof (rule post_bind [OF save_next_safe [OF assms(1)]], goal_cases)
  case (1 ls1)
  have fin: "token_ok (c # s) (l, tk, si)" if "aft j t l" "suffix t s" "tk \<noteq> TK_EOS" for j t l tk si
    using that suffix_length_le [OF that(2)] by (intro token_okI [OF that(1)]) (auto simp: suffix_ConsI)
  show ?case
  proof (rule post_aft2 [OF check_next_safe [OF 1(2)]], simp, unfold prod.case, goal_cases)
    case (1 t ls2 two)
    have "post (rbind (check_next C ls2 ''.'') (\<lambda>(ls3, three). Ok (ls3, if three then TK_DOTS else TK_CONCAT, NoInfo))) (token_ok (c # s))"
      by (rule post_bind [OF check_next_safe [OF 1(2)]]) (use fin 1(1) char_token in auto)
    moreover have "post (rbind (read_numeral C f ls2) (\<lambda>(ls3, si). Ok (ls3, TK_NUMBER, si))) (token_ok (c # s))" if "cls isdigit_c (ls_current ls2)"
    proof -
      have "ls_current ls2 \<noteq> EOZ" using that by (auto simp: cls_def EOZ_def)
      then obtain d u where t: "t = d # u" using lx_not_end [OF 1(2)] by blast
      have u: "suffix u s" "length u < f" using 1(1) t suffix_length_le [OF 1(1)] assms(2) by (auto dest: suffix_ConsD)
      show ?thesis
        by (rule post_bind [OF read_numeral_safe [OF 1(2) [unfolded t] u(2)]]) (use fin u(1) char_token in auto)
    qed
    ultimately show ?case using fin [OF aft_lx [OF 1(2)] 1(1) char_token(1)] by auto
  qed
qed

lemma reserved_le: "reserved s \<le> 21"
  by (simp add: reserved_def Let_def NUM_RESERVED_def)

lemma read_name_safe:
  assumes "lx k (c # s) ls" "length s < f"
  shows "post (read_name C f ls) (token_ok (c # s))"
  unfolding read_name_def
proof (rule post_bind [OF save_next_safe [OF assms(1)]], goal_cases)
  case (1 ls1)
  show ?case
  proof (rule post_aft [OF save_while_safe [OF 1(2) _ assms(2)]], goal_cases)
    case (2 t ls2)
    have "int (reserved s') - 1 + FIRST_RESERVED \<noteq> TK_EOS" for s' using reserved_le [of s'] by (simp add: FIRST_RESERVED_def TK_EOS_def)
    then show ?case
      by (intro post_bind [OF newstring_safe [OF 2(2)]])
        (use 2(1) suffix_length_le [OF 2(1)] char_token in \<open>auto simp: suffix_ConsI intro!: token_okI aft_lx\<close>)
  qed (simp add: cls_def EOZ_def)
qed

lemma if_P_post: "(b \<Longrightarrow> post x Q) \<Longrightarrow> (\<not> b \<Longrightarrow> post y Q) \<Longrightarrow> post (if b then x else y) Q"
  by simp

text \<open>The branches that go on with the loop.\<close>

lemma post_again:
  assumes "post r (aft 0 t)" "\<And>u ls. lx 0 u ls \<Longrightarrow> length u < f \<Longrightarrow> post (g ls) (token_ok u)" "suffix t s" "length t < f"
  shows "post (rbind r g) (token_ok s)"
proof (rule post_aft [OF assms(1)], goal_cases)
  case (1 u ls)
  then have "length u < f" "suffix u s" using suffix_length_le [OF 1(1)] assms(3,4) by (auto intro: suffix_order.trans)
  then show ?case using assms(2) [OF 1(2)] token_ok_suffix [of u _ s] by (blast intro: post_mono)
qed

lemma llex_dash_safe:
  fixes ls :: "'d LexState"
  assumes "lx k (c # t) ls" "length t < f" "\<And>u (ls :: 'd LexState). lx 0 u ls \<Longrightarrow> length u < f \<Longrightarrow> post (llex_loop C f ls) (token_ok u)"
  shows "post (rbind (next_char ls) (\<lambda>ls1. if ls_current ls1 \<noteq> ch (CHR ''-'') then Ok (ls1, ch (CHR ''-''), NoInfo)
          else rbind (next_char ls1) (\<lambda>ls2. rbind (skip_comment C f ls2) (llex_loop C f)))) (token_ok (c # t))"
proof (rule post_bind [OF next_safe [OF assms(1)]], goal_cases)
  case (1 ls1)
  show ?case
  proof (cases "ls_current ls1 = ch (CHR ''-'')")
    case True
    then obtain u where u: "t = CHR ''-'' # u" using lx_Cons [OF 1(2)] by blast
    have us: "suffix u (c # t)" "length u < f" using assms(2) u by (auto simp: suffix_ConsI)
    have "post (rbind (next_char ls1) (\<lambda>ls2. rbind (skip_comment C f ls2) (llex_loop C f))) (token_ok (c # t))"
      by (rule post_bind [OF next_safe [OF 1(2) [unfolded u]]], rule post_again [OF skip_comment_safe assms(3) us]) (use us in auto)
    then show ?thesis using True by simp
  qed (use 1(2) char_token(2) in \<open>auto simp: suffix_ConsI simp del: of_nat_eq_iff intro!: token_okI aft_lx\<close>)
qed

lemma llex_bracket_safe:
  assumes "lx k (c # t) ls" "length t < f"
  shows "post (rbind (skip_sep C f ls) (\<lambda>(ls1, sep).
          if 0 \<le> sep then rbind (read_long_string C f True sep ls1) (\<lambda>(ls2, si). Ok (ls2, TK_STRING, si))
          else if sep = - 1 then Ok (ls1, ch (CHR ''[''), NoInfo)
          else luaX_lexerror C ls1 ''invalid long string delimiter'' TK_STRING)) (token_ok (c # t))"
proof (rule post_bind [OF skip_sep_safe [OF assms]], clarify, goal_cases)
  case (1 ls1 sep u)
  have us: "suffix u (c # t)" "length u < length (c # t)" using 1(2) suffix_length_le [OF 1(2)] by (auto simp: suffix_ConsI)
  show ?case
  proof (cases "0 \<le> sep")
    case True
    then obtain v where v: "u = c # v" using 1(4) by blast
    have vs: "suffix v (c # t)" "length v < length (c # t)" "length v < f" using us v assms(2) by (auto dest: suffix_ConsD)
    have "post (rbind (read_long_string C f True sep ls1) (\<lambda>(ls2, si). Ok (ls2, TK_STRING, si))) (token_ok (c # t))"
      by (rule post_bind [OF read_long_string_safe [OF 1(3) [unfolded v] vs(3) True]])
        (use True vs char_token in \<open>auto simp: sep_len_def intro!: token_okI\<close>)
    then show ?thesis using True by simp
  next
    case False
    then show ?thesis
      using us char_token(1) 1(3) by (auto simp del: of_nat_eq_iff intro!: token_okI aft_lx intro: error_safe)
  qed
qed

lemma llex_loop_safe:
  assumes "lx k s ls" "length s < f"
  shows "post (llex_loop C f ls) (token_ok s)"
  using assms
proof (induction f arbitrary: s ls k)
  case (Suc f)
  show ?case
  proof (cases s)
    case Nil
    then have c: "ls_current ls = EOZ" using lx_current [OF Suc.prems(1)] by simp
    then have "llex_loop C (Suc f) ls = Ok (ls, TK_EOS, NoInfo)" by (simp add: Let_def EOZ_def newline_def)
    then show ?thesis using Suc.prems(1) Nil by (auto simp: token_ok_def intro: lx_mono)
  next
    case (Cons c t)
    note st = Suc.prems(1) [unfolded Cons]
    have cur: "ls_current ls = ch c" using lx_current [OF st] by simp
    have tf: "length t < f" "suffix t s" using Suc.prems(2) Cons by (simp_all add: suffix_ConsI)
    have again: "post (rbind r (llex_loop C f)) (token_ok s)" if "post r (aft 0 t)" for r :: "'a lex"
      by (rule post_again [OF that Suc.IH tf(2,1)])
    have line: "post (rbind (inclinenumber C ls) (llex_loop C f)) (token_ok s)"
      by (rule again, rule post_aft_trans [OF inclinenumber_safe [OF st]]) simp_all
    have space: "post (rbind (next_char ls) (llex_loop C f)) (token_ok s)"
      by (rule again, rule post_mono [OF next_safe [OF st]]) (blast intro: aft_mono [OF aft_lx])
    have one: "post (rbind (next_char ls) (\<lambda>ls1. Ok (ls1, ls_current ls, NoInfo))) (token_ok s)"
      by (rule post_bind [OF next_safe [OF st]]) (use tf char_token(1) cur in \<open>auto simp: Cons simp del: of_nat_eq_iff intro!: token_okI aft_lx\<close>)
    have str: "post (rbind (read_string C f (ls_current ls) ls) (\<lambda>(ls1, si). Ok (ls1, TK_STRING, si))) (token_ok s)"
      by (rule post_bind [OF read_string_safe [OF st tf(1) cur]]) (use tf char_token in \<open>auto simp: Cons intro!: token_okI\<close>)
    have num: "post (rbind (read_numeral C f ls) (\<lambda>(ls1, si). Ok (ls1, TK_NUMBER, si))) (token_ok s)"
      by (rule post_bind [OF read_numeral_safe [OF st tf(1)]]) (use tf char_token in \<open>auto simp: Cons intro!: token_okI\<close>)
    have dots: "c = CHR ''.'' \<Longrightarrow> post (read_dots C f ls) (token_ok s)" unfolding Cons by (rule read_dots_safe [OF st tf(1)])
    note parts = line space one llex_dash_safe [OF st tf(1) Suc.IH, folded Cons] llex_bracket_safe [OF st tf(1), folded Cons] str num dots with_eq_safe [OF st, folded Cons] read_name_safe [OF st tf(1), folded Cons]
    show ?thesis
      unfolding llex_loop.simps(2) Let_def
      by (intro if_P_post parts char_token) (use cur in \<open>simp_all add: ch_inject del: of_nat_eq_iff\<close>)
  qed
qed simp

text \<open>C13: on an input that ends, however the reader cuts it, the analyser ends, never reads behind the end of the input or
outside its buffer, and raises errors of Lua only; a token takes at least one character, unless it is the end of the input.
So many turns as there are characters are enough.\<close>

theorem llex_progress:
  assumes "lexer_at s ls" and "table_inv (ls_h ls)" and "length s < f"
  shows "case llex C f ls of
      Inl e \<Rightarrow> \<exists>m. e = LuaError m
    | Inr (ls', tk, si) \<Rightarrow> \<exists>t. suffix t s \<and> lexer_at t ls' \<and> table_inv (ls_h ls') \<and> (if tk = TK_EOS then t = [] else length t < length s)"
proof -
  have "lx 0 s (luaZ_resetbuffer ls)"
    using lexer_at_start [OF assms(1)] assms(2) by (auto simp: lexst_def lx_def luaZ_resetbuffer_def)
  then have "post (llex C f ls) (token_ok s)" unfolding llex_def by (rule llex_loop_safe [OF _ assms(3)])
  then show ?thesis
    by (auto simp: post_def token_ok_def lx_def lexer_at_def split: sum.splits error.splits)
qed

text \<open>C12: a string that \<open>string.format\<close> writes with \<open>%q\<close> is read back by the analyser as the same string, whatever its bytes, and
the analyser stands right behind it.\<close>

theorem format_q_reads_back:
  assumes "L_stack S = [VStr ''%q'', VStr s]" and "length s < 2 ^ 29"
  shows "\<exists>q. str_format C W S = Ok (api_push S (VStr q), 1) \<and>
    (\<forall>ls rest f h o1. lexer_at (q @ rest) ls \<longrightarrow> ls_linenumber ls + int (length s) < int MAX_INT \<longrightarrow> length s + 1 < f \<longrightarrow>
       luaH_setstr (ls_h ls) s = Ok (h, o1) \<longrightarrow> (\<exists>ls'. llex C f ls = Ok (ls', TK_STRING, StrInfo s) \<and> lexer_at rest ls'))"
  using format_quoted [OF assms, of C W] llex_quoted [OF _ _ assms(2)] by blast

section \<open>An analyser on a given text\<close>

definition block_reader :: "bytes lua_Reader" where
  "block_reader d = (if d = [] then None else Some d, [])"

definition text_bytes :: "string \<Rightarrow> bytes" where
  "text_bytes s = map (\<lambda>c. of_nat (uchar c)) s"

definition lexer_on :: "Table \<Rightarrow> string \<Rightarrow> bytes LexState" where
  "lexer_on h s =
     luaX_setinput \<lparr>ls_current = 0, ls_linenumber = 0, ls_lastline = 0, ls_t = \<lparr>tk_token = 0, tk_info = NoInfo\<rparr>,
         ls_lookahead = \<lparr>tk_token = 0, tk_info = NoInfo\<rparr>, ls_h = h, ls_z = luaZ_init block_reader [], ls_buff = [],
         ls_buffsize = 0, ls_source = [], ls_decpoint = CHR ''.''\<rparr>
       (luaZ_init block_reader (text_bytes s)) ''=text''"

lemma char_of_text_byte: "char_of (unat (of_nat (uchar c) :: u8)) = c"
proof -
  have "unat (of_nat (uchar c) :: u8) = uchar c" by (simp add: uchar_def unat_of_nat)
  then show ?thesis by (simp add: uchar_def)
qed

lemma input_text: "input \<lparr>z_p = text_bytes s, z_reader = block_reader, z_data = []\<rparr> s"
proof (induction s)
  case Nil
  then show ?case by (rule input_end [where b = None and d = "[]"]) (simp_all add: text_bytes_def block_reader_def)
next
  case (Cons c s)
  have "input \<lparr>z_p = text_bytes (c # s), z_reader = block_reader, z_data = []\<rparr> (char_of (unat (of_nat (uchar c) :: u8)) # s)"
    by (rule input_block [where p = "text_bytes s"]) (use Cons in \<open>simp_all add: text_bytes_def\<close>)
  then show ?case by (simp only: char_of_text_byte)
qed

lemma lexer_on_at: "lexer_at s (lexer_on h s)"
proof (cases s)
  case Nil
  then show ?thesis
    by (simp add: lexer_on_def luaX_setinput_def luaZ_init_def zgetc_def luaZ_fill_def text_bytes_def block_reader_def lexer_at_def at_text_def LUA_MINBUFFER_def)
next
  case (Cons c t)
  have "char2int (of_nat (uchar c)) = ch c" using ch_char_of [of "of_nat (uchar c)"] by (simp only: char_of_text_byte)
  moreover have "text_bytes s = of_nat (uchar c) # text_bytes t" by (simp add: Cons text_bytes_def)
  ultimately show ?thesis
    using input_text [of t] Cons
    by (simp add: lexer_on_def luaX_setinput_def luaZ_init_def zgetc_def luaZ_fill_def block_reader_def lexer_at_def at_text_def LUA_MINBUFFER_def)
qed

lemma lexer_on_fields: "ls_h (lexer_on h s) = h" "ls_linenumber (lexer_on h s) = 1"
  by (simp_all add: lexer_on_def luaX_setinput_def split: prod.split)

lemma setstr_room:
  assumes t: "table_inv t" and room: "\<not> t_isdummy t" "\<exists>i<length (t_node t). i_key (t_node t ! i) = VNil"
  shows "\<exists>h o1. luaH_setstr t s = Ok (h, o1)"
proof -
  have c: "table_core t" using t by (simp add: table_inv_def)
  obtain p where p: "luaH_getstr t s = Ok p" "case p of Some q \<Rightarrow> slot_ok t (VStr s) q | None \<Rightarrow> \<forall>q. \<not> slot_ok t (VStr s) q"
    using getstr_spec [OF c] by (auto simp: get_spec_def)
  show ?thesis
  proof (cases p)
    case None
    then have "\<exists>t' s'. newkey_body (newkey 1) t (VStr s) = Ok (t', s')"
      using newkey_free [OF c, of "VStr s" "newkey 1"] p(2) room by (auto simp: proper_def no_nan_def)
    then show ?thesis using p(1) None by (simp add: luaH_setstr_def luaH_setstr_body_def numeral_2_eq_2)
  qed (use p(1) in \<open>simp add: luaH_setstr_def luaH_setstr_body_def\<close>)
qed

lemma room_table: "\<exists>h. table_inv h \<and> \<not> t_isdummy h \<and> (\<exists>i<length (t_node h). i_key (t_node h ! i) = VNil)"
proof -
  obtain t where t: "table_inv t" "t_isdummy t = ((4::nat) = 0)" "t_node t = replicate (2 ^ log2_size 4) empty_node"
    using new_table_ex [of 0 4] by auto
  have "\<exists>i<length (t_node t). i_key (t_node t ! i) = VNil"
    unfolding t(3) by (intro exI [of _ 0]) (simp add: empty_node_def)
  then show ?thesis using t(1,2) by (intro exI [of _ t]) simp
qed

theorem llex_progress_witness:
  "\<forall>C. \<exists>h. case llex C 9 (lexer_on h ''x = yes'') of
      Inl e \<Rightarrow> \<exists>m. e = LuaError m
    | Inr (ls', tk, si) \<Rightarrow> \<exists>t. suffix t ''x = yes'' \<and> lexer_at t ls' \<and> table_inv (ls_h ls') \<and>
        (if tk = TK_EOS then t = [] else length t < length ''x = yes'')"
proof
  fix C
  obtain h where h: "table_inv h" using room_table by blast
  show "\<exists>h. case llex C 9 (lexer_on h ''x = yes'') of
      Inl e \<Rightarrow> \<exists>m. e = LuaError m
    | Inr (ls', tk, si) \<Rightarrow> \<exists>t. suffix t ''x = yes'' \<and> lexer_at t ls' \<and> table_inv (ls_h ls') \<and>
        (if tk = TK_EOS then t = [] else length t < length ''x = yes'')"
    by (rule exI [of _ h], rule llex_progress [OF lexer_on_at]) (use h in \<open>simp_all add: lexer_on_fields\<close>)
qed

theorem format_q_reads_back_witness:
  "\<forall>C W. \<exists>q h ls'. str_format C W (call_state [VStr ''%q'', VStr [CHR ''a'', CHR 0x22, NUL]]) =
       Ok (api_push (call_state [VStr ''%q'', VStr [CHR ''a'', CHR 0x22, NUL]]) (VStr q), 1) \<and>
     llex C 5 (lexer_on h (q @ ''..x'')) = Ok (ls', TK_STRING, StrInfo [CHR ''a'', CHR 0x22, NUL]) \<and> lexer_at ''..x'' ls'"
proof (intro allI)
  fix C W
  let ?s = "[CHR ''a'', CHR 0x22, NUL]"
  obtain h where h: "table_inv h" "\<not> t_isdummy h" "\<exists>i<length (t_node h). i_key (t_node h ! i) = VNil" using room_table by blast
  obtain h' o1 where s: "luaH_setstr h ?s = Ok (h', o1)" using setstr_room [OF h] by blast
  obtain q where q: "str_format C W (call_state [VStr ''%q'', VStr ?s]) = Ok (api_push (call_state [VStr ''%q'', VStr ?s]) (VStr q), 1)"
    "\<forall>ls rest f h o1. lexer_at (q @ rest) (ls :: bytes LexState) \<longrightarrow> ls_linenumber ls + int (length ?s) < int MAX_INT \<longrightarrow> length ?s + 1 < f \<longrightarrow>
       luaH_setstr (ls_h ls) ?s = Ok (h, o1) \<longrightarrow> (\<exists>ls'. llex C f ls = Ok (ls', TK_STRING, StrInfo ?s) \<and> lexer_at rest ls')"
    using format_q_reads_back [OF call_state_stack, of ?s C W] by auto
  have "\<exists>ls'. llex C 5 (lexer_on h (q @ ''..x'')) = Ok (ls', TK_STRING, StrInfo ?s) \<and> lexer_at ''..x'' ls'"
    using q(2) [rule_format, OF lexer_on_at, of h "''..x''" 5 h' o1] s by (simp add: lexer_on_fields MAX_INT_def)
  then show "\<exists>q h ls'. str_format C W (call_state [VStr ''%q'', VStr ?s]) = Ok (api_push (call_state [VStr ''%q'', VStr ?s]) (VStr q), 1) \<and>
     llex C 5 (lexer_on h (q @ ''..x'')) = Ok (ls', TK_STRING, StrInfo ?s) \<and> lexer_at ''..x'' ls'"
    using q(1) by blast
qed

end
