(* ===== verification/LuaTabLib.thy ===== *)
theory LuaTabLib
  imports LuaBuffer
begin

text \<open>
  The table library ltablib.c: insertion, removal, concatenation, iteration, and the quicksort with its comparison through
  Lua. The arguments stay in the frame, and the functions push behind them. Loops over a C \<open>int\<close> are modelled on integers.
  The sort takes a bound on its nesting: with an order function that is not consistent its loop need not end.
\<close>

type_synonym tab_fun = "libc \<Rightarrow> world \<Rightarrow> lua_State \<Rightarrow> (lua_State \<times> nat) res"

definition aux_getn :: "libc \<Rightarrow> lua_State \<Rightarrow> int \<Rightarrow> (lua_State \<times> int) res" where
  "aux_getn C S n = rbind (luaL_checktype S n 5) (\<lambda>_. rbind (lua_objlen C S n) (\<lambda>(S1, len). Ok (S1, int len)))"

section \<open>Iteration\<close>

text \<open>\<open>k\<close> elements are left, the next is \<open>i\<close>.\<close>

primrec foreachi_loop :: "world \<Rightarrow> nat \<Rightarrow> int \<Rightarrow> lua_State \<Rightarrow> (lua_State \<times> nat) res" where
  "foreachi_loop W 0 i S = Ok (S, 0)"
| "foreachi_loop W (Suc k) i S =
     rbind (lua_pushvalue S 2) (\<lambda>S1. rbind (lua_rawgeti (api_push S1 (VNum (cast_num i))) 1 i) (\<lambda>S2. rbind (lua_call W S2 2 1) (\<lambda>S3.
     rbind (api_type S3 (- 1)) (\<lambda>t.
       if t \<noteq> 0 then Ok (S3, 1) else rbind (api_pop S3 1) (foreachi_loop W k (i + 1))))))"

definition foreachi :: tab_fun where
  "foreachi C W S =
     rbind (aux_getn C S 1) (\<lambda>(S1, n). rbind (luaL_checktype S1 2 6) (\<lambda>_. foreachi_loop W (nat n) 1 S1))"

text \<open>A traversal with \<open>lua_next\<close> has no bound when the body changes the table: the fuel \<open>f\<close> counts its steps.\<close>

primrec foreach_loop :: "world \<Rightarrow> nat \<Rightarrow> lua_State \<Rightarrow> (lua_State \<times> nat) res" where
  "foreach_loop W 0 S = Fail NoFuel"
| "foreach_loop W (Suc f) S =
     rbind (lua_next S 1) (\<lambda>(S1, more).
       if \<not> more then Ok (S1, 0)
       else rbind (lua_pushvalue S1 2) (\<lambda>S2. rbind (lua_pushvalue S2 (- 3)) (\<lambda>S3. rbind (lua_pushvalue S3 (- 3)) (\<lambda>S4.
            rbind (lua_call W S4 2 1) (\<lambda>S5. rbind (api_type S5 (- 1)) (\<lambda>t.
              if t \<noteq> 0 then Ok (S5, 1) else rbind (api_pop S5 2) (foreach_loop W f)))))))"

definition foreach :: "nat \<Rightarrow> tab_fun" where
  "foreach f C W S =
     rbind (luaL_checktype S 1 5) (\<lambda>_. rbind (luaL_checktype S 2 6) (\<lambda>_. foreach_loop W f (api_push S VNil)))"

primrec maxn_loop :: "nat \<Rightarrow> lua_Number \<Rightarrow> lua_State \<Rightarrow> (lua_State \<times> lua_Number) res" where
  "maxn_loop 0 m S = Fail NoFuel"
| "maxn_loop (Suc f) m S =
     rbind (lua_next S 1) (\<lambda>(S1, more).
       if \<not> more then Ok (S1, m)
       else rbind (api_pop S1 1) (\<lambda>S2. rbind (api_top S2 1) (\<lambda>k.
            case k of VNum v \<Rightarrow> maxn_loop f (if luai_numlt m v then v else m) S2 | _ \<Rightarrow> maxn_loop f m S2)))"

text \<open>A table has at most \<open>2^26\<close> array slots and \<open>2^26\<close> nodes.\<close>

definition maxn :: tab_fun where
  "maxn C W S =
     rbind (luaL_checktype S 1 5) (\<lambda>_.
     rbind (table_at S 1) (\<lambda>(p, h).
     rbind (maxn_loop (t_sizearray h + length (t_node h) + 1) (cast_num 0) (api_push S VNil)) (\<lambda>(S1, m).
       Ok (api_push S1 (VNum m), 1))))"

definition getn :: tab_fun where
  "getn C W S = rbind (aux_getn C S 1) (\<lambda>(S1, n). Ok (api_push S1 (VNum (cast_num n)), 1))"

definition setn :: tab_fun where
  "setn C W S = rbind (luaL_checktype S 1 5) (\<lambda>_. Fail (LuaError (CHR 0x27 # ''setn'' @ CHR 0x27 # '' is obsolete'')))"

section \<open>Insertion and removal\<close>

text \<open>Move up the elements from \<open>i\<close> down to \<open>pos\<close>; \<open>k\<close> steps.\<close>

primrec move_up :: "nat \<Rightarrow> int \<Rightarrow> lua_State \<Rightarrow> lua_State res" where
  "move_up 0 i S = Ok S"
| "move_up (Suc k) i S =
     rbind (lua_rawgeti S 1 (i - 1)) (\<lambda>S1. rbind (lua_rawseti S1 1 i) (move_up k (i - 1)))"

definition tinsert :: tab_fun where
  "tinsert C W S =
     rbind (aux_getn C S 1) (\<lambda>(S1, n). let e = n + 1 in
       if length (L_stack S1) = 2 then rbind (lua_rawseti S1 1 e) (\<lambda>S2. Ok (S2, 0))
       else if length (L_stack S1) = 3 then
         rbind (luaL_checkinteger (L_stack S1) 2) (\<lambda>w. let pos = sint w; e = (if e < pos then pos else e) in
           rbind (move_up (nat (e - pos)) e S1) (\<lambda>S2. rbind (lua_rawseti S2 1 pos) (\<lambda>S3. Ok (S3, 0))))
       else Fail (LuaError (''wrong number of arguments to '' @ CHR 0x27 # ''insert'' @ [CHR 0x27])))"

text \<open>Move down the elements behind \<open>pos\<close>; \<open>k\<close> steps.\<close>

primrec move_down :: "nat \<Rightarrow> int \<Rightarrow> lua_State \<Rightarrow> lua_State res" where
  "move_down 0 pos S = Ok S"
| "move_down (Suc k) pos S =
     rbind (lua_rawgeti S 1 (pos + 1)) (\<lambda>S1. rbind (lua_rawseti S1 1 pos) (move_down k (pos + 1)))"

definition tremove :: tab_fun where
  "tremove C W S =
     rbind (aux_getn C S 1) (\<lambda>(S1, e). rbind (luaL_optinteger S1 2 (word_of_int e)) (\<lambda>w. let pos = sint w in
       if \<not> (1 \<le> pos \<and> pos \<le> e) then Ok (S1, 0)
       else rbind (lua_rawgeti S1 1 pos) (\<lambda>S2. rbind (move_down (nat (e - pos)) pos S2) (\<lambda>S3.
            rbind (lua_rawseti (api_push S3 VNil) 1 e) (\<lambda>S4. Ok (S4, 1))))))"

section \<open>Concatenation\<close>

definition addfield :: "libc \<Rightarrow> world \<Rightarrow> int \<Rightarrow> bstate \<Rightarrow> bstate res" where
  "addfield C W i X =
     rbind (lua_rawgeti (fst X) 1 i) (\<lambda>S1. rbind (api_type S1 (- 1)) (\<lambda>t.
       if t \<noteq> 4 \<and> t \<noteq> 3 then
         Fail (LuaError (''invalid value ('' @ lua_typename t @ '') at index '' @ c_num2str C (cast_num i) @ '' in table for '' @ CHR 0x27 # ''concat'' @ [CHR 0x27]))
       else luaL_addvalue C W (S1, snd X)))"

text \<open>The fields from \<open>i\<close> on, with the separator behind each; \<open>k\<close> of them.\<close>

primrec tconcat_loop :: "libc \<Rightarrow> world \<Rightarrow> string \<Rightarrow> nat \<Rightarrow> int \<Rightarrow> bstate \<Rightarrow> bstate res" where
  "tconcat_loop C W sep 0 i X = Ok X"
| "tconcat_loop C W sep (Suc k) i X =
     rbind (addfield C W i X) (\<lambda>X1. rbind (luaL_addlstring C W X1 sep) (tconcat_loop C W sep k (i + 1)))"

definition tconcat :: tab_fun where
  "tconcat C W S =
     rbind (luaL_optlstring C S 2 (Some '''')) (\<lambda>(S1, sep). rbind (luaL_checktype S1 1 5) (\<lambda>_.
     rbind (luaL_optinteger S1 3 1) (\<lambda>w. let i = sint w in
     rbind (lua_isnoneornil S1 4) (\<lambda>b.
     rbind (if b then rbind (lua_objlen C S1 1) (\<lambda>(S2, n). Ok (S2, int n))
            else rbind (luaL_checkinteger (L_stack S1) 4) (\<lambda>w. Ok (S1, sint w))) (\<lambda>(S2, last_i).
     rbind (tconcat_loop C W (the sep) (nat (last_i - i)) i (S2, luaL_buffinit)) (\<lambda>X.
     rbind (if i \<le> last_i then addfield C W last_i X else Ok X) (\<lambda>X1.
     rbind (luaL_pushresult C W X1) (\<lambda>(S3, B). Ok (S3, 1)))))))))"

section \<open>Sorting\<close>

definition set2 :: "lua_State \<Rightarrow> int \<Rightarrow> int \<Rightarrow> lua_State res" where
  "set2 S i j = rbind (lua_rawseti S 1 i) (\<lambda>S1. lua_rawseti S1 1 j)"

definition sort_comp :: "world \<Rightarrow> lua_State \<Rightarrow> int \<Rightarrow> int \<Rightarrow> (lua_State \<times> bool) res" where
  "sort_comp W S a b =
     rbind (api_type S 2) (\<lambda>t.
       if t \<noteq> 0 then
         rbind (lua_pushvalue S 2) (\<lambda>S1. rbind (lua_pushvalue S1 (a - 1)) (\<lambda>S2. rbind (lua_pushvalue S2 (b - 2)) (\<lambda>S3.
         rbind (lua_call W S3 2 1) (\<lambda>S4. rbind (lua_toboolean (L_stack S4) (- 1)) (\<lambda>r. rbind (api_pop S4 1) (\<lambda>S5. Ok (S5, r)))))))
       else lua_lessthan W S a b)"

text \<open>Put \<open>a[l]\<close> and \<open>a[u]\<close> in order.\<close>

definition sort_ends :: "world \<Rightarrow> lua_State \<Rightarrow> int \<Rightarrow> int \<Rightarrow> lua_State res" where
  "sort_ends W S l u =
     rbind (lua_rawgeti S 1 l) (\<lambda>S1. rbind (lua_rawgeti S1 1 u) (\<lambda>S2. rbind (sort_comp W S2 (- 1) (- 2)) (\<lambda>(S3, lt).
       if lt then set2 S3 l u else api_pop S3 2)))"

text \<open>Put the middle element between them.\<close>

definition sort_middle :: "world \<Rightarrow> lua_State \<Rightarrow> int \<Rightarrow> int \<Rightarrow> int \<Rightarrow> lua_State res" where
  "sort_middle W S l i u =
     rbind (lua_rawgeti S 1 i) (\<lambda>S1. rbind (lua_rawgeti S1 1 l) (\<lambda>S2. rbind (sort_comp W S2 (- 2) (- 1)) (\<lambda>(S3, lt).
       if lt then set2 S3 i l
       else rbind (api_pop S3 1) (\<lambda>S4. rbind (lua_rawgeti S4 1 u) (\<lambda>S5. rbind (sort_comp W S5 (- 1) (- 2)) (\<lambda>(S6, lt).
            if lt then set2 S6 i u else api_pop S6 2))))))"

text \<open>Leave the pivot on the stack and swap it with \<open>a[u - 1]\<close>.\<close>

definition sort_pivot :: "lua_State \<Rightarrow> int \<Rightarrow> int \<Rightarrow> lua_State res" where
  "sort_pivot S i u =
     rbind (lua_rawgeti S 1 i) (\<lambda>S1. rbind (lua_pushvalue S1 (- 1)) (\<lambda>S2. rbind (lua_rawgeti S2 1 (u - 1)) (\<lambda>S3. set2 S3 i (u - 1))))"

text \<open>The two inner loops; they leave \<open>a[i]\<close> and \<open>a[j]\<close> on the stack.\<close>

function scan_up :: "world \<Rightarrow> int \<Rightarrow> int \<Rightarrow> lua_State \<Rightarrow> (lua_State \<times> int) res" where
  "scan_up W u i S =
     (let i = i + 1 in
      rbind (lua_rawgeti S 1 i) (\<lambda>S1. rbind (sort_comp W S1 (- 1) (- 2)) (\<lambda>(S2, lt).
        if lt then
          (if u < i then Fail (LuaError ''invalid order function for sorting'')
           else rbind (api_pop S2 1) (scan_up W u i))
        else Ok (S2, i))))"
  by pat_completeness auto
termination
  by (relation "measure (\<lambda>(W, u, i, S). nat (u + 1 - i))") auto

function scan_down :: "world \<Rightarrow> int \<Rightarrow> int \<Rightarrow> lua_State \<Rightarrow> (lua_State \<times> int) res" where
  "scan_down W l j S =
     (let j = j - 1 in
      rbind (lua_rawgeti S 1 j) (\<lambda>S1. rbind (sort_comp W S1 (- 3) (- 1)) (\<lambda>(S2, lt).
        if lt then
          (if j < l then Fail (LuaError ''invalid order function for sorting'')
           else rbind (api_pop S2 1) (scan_down W l j))
        else Ok (S2, j))))"
  by pat_completeness auto
termination
  by (relation "measure (\<lambda>(W, l, j, S). nat (j + 1 - l))") auto

declare scan_up.simps [simp del] scan_down.simps [simp del]

lemma scan_up_gt: "scan_up W u i S = Ok (S', k) \<Longrightarrow> i < k"
proof (induction W u i S rule: scan_up.induct)
  case (1 W u i S)
  note e = 1(2) [unfolded scan_up.simps [of W u i S] Let_def]
  obtain S1 where S1: "lua_rawgeti S 1 (i + 1) = Ok S1" using e by (elim rbind_OkE)
  note e = e [unfolded S1 rbind_simps]
  obtain S2 lt where S2: "sort_comp W S1 (- 1) (- 2) = Ok (S2, lt)" using e by (elim rbind_OkE) auto
  note e = e [unfolded S2 rbind_simps prod.case]
  show ?case
  proof (cases lt)
    case True
    then have u: "\<not> u < i + 1" and "rbind (api_pop S2 1) (scan_up W u (i + 1)) = Ok (S', k)" using e by (auto split: if_splits)
    then obtain S3 where S3: "api_pop S2 1 = Ok S3" "scan_up W u (i + 1) S3 = Ok (S', k)" by (elim rbind_OkE)
    then show ?thesis using 1(1) [OF refl S1 S2 refl True u] S3 by auto
  qed (use e in auto)
qed

lemma scan_down_less: "scan_down W l j S = Ok (S', k) \<Longrightarrow> k < j"
proof (induction W l j S rule: scan_down.induct)
  case (1 W l j S)
  note e = 1(2) [unfolded scan_down.simps [of W l j S] Let_def]
  obtain S1 where S1: "lua_rawgeti S 1 (j - 1) = Ok S1" using e by (elim rbind_OkE)
  note e = e [unfolded S1 rbind_simps]
  obtain S2 lt where S2: "sort_comp W S1 (- 3) (- 1) = Ok (S2, lt)" using e by (elim rbind_OkE) auto
  note e = e [unfolded S2 rbind_simps prod.case]
  show ?case
  proof (cases lt)
    case True
    then have u: "\<not> j - 1 < l" and "rbind (api_pop S2 1) (scan_down W l (j - 1)) = Ok (S', k)" using e by (auto split: if_splits)
    then obtain S3 where S3: "api_pop S2 1 = Ok S3" "scan_down W l (j - 1) S3 = Ok (S', k)" by (elim rbind_OkE)
    then show ?thesis using 1(1) [OF refl S1 S2 refl True u] S3 by auto
  qed (use e in auto)
qed

text \<open>The loop that divides: the pivot is on the top. The result is the place where the indices crossed.\<close>

function partition_loop :: "world \<Rightarrow> int \<Rightarrow> int \<Rightarrow> int \<Rightarrow> int \<Rightarrow> lua_State \<Rightarrow> (lua_State \<times> int) res" where
  "partition_loop W l u i j S =
     rbind (scan_up W u i S) (\<lambda>(S1, i1). rbind (scan_down W l j S1) (\<lambda>(S2, j1).
       if j1 < i1 then rbind (api_pop S2 3) (\<lambda>S3. Ok (S3, i1))
       else rbind (set2 S2 i1 j1) (partition_loop W l u i1 j1)))"
  by pat_completeness auto
termination
proof (relation "measure (\<lambda>(W, l, u, i, j, S). nat (j - i))", goal_cases)
  case (2 W l u i j S x S1 i1 y S2 j1 S3)
  have "i < i1" "j1 < j" using scan_up_gt scan_down_less 2(1-4) by blast+
  then show ?case using 2(5) by simp
qed simp

declare partition_loop.simps [simp del]

text \<open>Put the pivot, which waits at \<open>u - 1\<close>, to its place.\<close>

definition sort_swap :: "lua_State \<Rightarrow> int \<Rightarrow> int \<Rightarrow> lua_State res" where
  "sort_swap S i u =
     rbind (lua_rawgeti S 1 (u - 1)) (\<lambda>S1. rbind (lua_rawgeti S1 1 i) (\<lambda>S2. set2 S2 (u - 1) i))"

text \<open>The two intervals that are left: the smaller one, for the recursive call, and the one the loop goes on with.\<close>

definition sort_halves :: "int \<Rightarrow> int \<Rightarrow> int \<Rightarrow> (int \<times> int) \<times> (int \<times> int)" where
  "sort_halves l i u = (if i - l < u - i then ((l, i - 1), (i + 1, u)) else ((i + 1, u), (l, i - 1)))"

text \<open>The fuel bounds the turns of the loop and the nesting of the calls together. An order function that
contradicts itself can make the loop go on for ever.\<close>

primrec auxsort :: "nat \<Rightarrow> world \<Rightarrow> int \<Rightarrow> int \<Rightarrow> lua_State \<Rightarrow> lua_State res" where
  "auxsort 0 W l u S = Fail NoFuel"
| "auxsort (Suc f) W l u S =
     (if \<not> l < u then Ok S
      else rbind (sort_ends W S l u) (\<lambda>S1.
        if u - l = 1 then Ok S1
        else let m = (l + u) div 2 in
          rbind (sort_middle W S1 l m u) (\<lambda>S2.
            if u - l = 2 then Ok S2
            else rbind (sort_pivot S2 m u) (\<lambda>S3. rbind (partition_loop W l u l (u - 1) S3) (\<lambda>(S4, i).
                 rbind (sort_swap S4 i u) (\<lambda>S5.
                 let ((j, k), (l', u')) = sort_halves l i u in
                   rbind (auxsort f W j k S5) (auxsort f W l' u')))))))"

definition sort_table :: "nat \<Rightarrow> tab_fun" where
  "sort_table f C W S =
     rbind (aux_getn C S 1) (\<lambda>(S1, n).
     rbind (luaL_checkstack S1 40 '''') (\<lambda>_.
     rbind (lua_isnoneornil S1 2) (\<lambda>b. rbind (if b then Ok () else luaL_checktype S1 2 6) (\<lambda>_.
     rbind (lua_settop (L_stack S1) 2) (\<lambda>st. rbind (auxsort f W 1 n (S1\<lparr>L_stack := st\<rparr>)) (\<lambda>S3. Ok (S3, 0)))))))"

text \<open>The names of the library; \<open>foreach\<close> and \<open>sort\<close> have a fuel.\<close>

definition tab_funcs :: "nat \<Rightarrow> (string \<times> tab_fun) list" where
  "tab_funcs f =
     [(''concat'', tconcat), (''foreach'', foreach f), (''foreachi'', foreachi), (''getn'', getn), (''maxn'', maxn),
      (''insert'', tinsert), (''remove'', tremove), (''setn'', setn), (''sort'', sort_table f)]"

end
