(* ===== verification/LuaTabLibProps.thy ===== *)
theory LuaTabLibProps
  imports LuaTabLib LuaTableProps
begin

text \<open>
  The quicksort of ltablib.c sorts: for an order that does not contradict itself it ends, raises no error, and leaves the same
  values in ascending order. The contract of the comparison is a locale with two
  interpretations: the operator \<open><\<close> on numbers or strings, and a function given by the program. The first part shows
  that a table is an array under its integer keys; insertion and removal are shown on that view.
\<close>

section \<open>A table as an array\<close>

definition int_at :: "Table \<Rightarrow> int \<Rightarrow> TValue" where
  "int_at h i = table_val h (VNum (cast_num i))"

abbreviation is_int :: "int \<Rightarrow> bool" where
  "is_int i \<equiv> - (2 ^ 31) \<le> i \<and> i < 2 ^ 31"

lemma valid_key_int: "is_int i \<Longrightarrow> valid_key (VNum (cast_num i))"
  using cast_num_finite [of i] by (auto simp: valid_key_def proper_def no_nan_def luai_numisnan_def luai_numeq_def)

lemma getnum_at:
  assumes t: "table_inv h" and i: "is_int i"
  obtains q where "luaH_getnum h i = Ok q" "(case q of None \<Rightarrow> VNil | Some s \<Rightarrow> slot_val h s) = int_at h i"
    "\<And>s. q = Some s \<Longrightarrow> slot_ok h (VNum (cast_num i)) s"
proof -
  have c: "table_core h" using t by (simp add: table_inv_def)
  obtain q where q: "luaH_getnum h i = Ok q"
    "case q of Some s \<Rightarrow> slot_ok h (VNum (cast_num i)) s | None \<Rightarrow> \<forall>s. \<not> slot_ok h (VNum (cast_num i)) s"
    using getnum_spec [OF c] i by (auto simp: get_spec_def)
  have "int_at h i = (case q of None \<Rightarrow> VNil | Some s \<Rightarrow> slot_val h s)"
  proof (cases "case q of None \<Rightarrow> VNil | Some s \<Rightarrow> slot_val h s")
    case VNil
    then have "\<not> holds h (VNum (cast_num i)) w" for w
      using q(2) slot_ok_unique [OF c] by (auto simp: holds_def split: option.splits)
    then show ?thesis unfolding int_at_def VNil using table_val_nil [OF t] num_key_proper by metis
  qed (use q table_val_iff [OF t] num_key_proper in \<open>auto simp: int_at_def holds_def split: option.splits\<close>)
  then show thesis using that q by (auto split: option.splits)
qed

lemma setnum_at:
  assumes t: "table_inv h" and i: "is_int i"
  shows "luaH_setnum h i = Fail (LuaError ''table overflow'') \<or>
    (\<exists>h1 s. luaH_setnum h i = Ok (h1, s) \<and> table_inv (slot_set h1 s v) \<and> t_metatable (slot_set h1 s v) = t_metatable h \<and>
       (\<forall>k. valid_key k \<longrightarrow> table_val (slot_set h1 s v) k = (if luaO_rawequalObj (VNum (cast_num i)) k then v else table_val h k)))"
proof (cases "luaH_setnum h i = Fail (LuaError ''table overflow'')")
  case False
  then obtain h1 s where s: "luaH_setnum h i = Ok (h1, s)" "set_ok h (VNum (cast_num i)) h1 s"
    using luaH_setnum_ok [OF t, of i] i by auto
  then have c: "table_core h1" "slot_ok h1 (VNum (cast_num i)) s" by (auto simp: set_ok_def table_inv_def)
  have inv: "table_inv (slot_set h1 s v)" using slot_set_core [OF c] s by (simp add: table_inv_def set_ok_def)
  have "table_val (slot_set h1 s v) k = (if luaO_rawequalObj (VNum (cast_num i)) k then v else table_val h k)" if "valid_key k" for k
  proof -
    have p: "proper k \<or> k = VNil" using that by (simp add: valid_key_def)
    show ?thesis
      using table_val_iff [OF inv p] table_val_iff [OF t p] slot_set_holds [OF c refl, of v k] s(2)
      unfolding set_ok_def by (metis (full_types))
  qed
  then show ?thesis using s inv by (simp add: set_ok_def)
qed simp

lemma setnum_present:
  assumes t: "table_inv h" and i: "is_int i" and p: "int_at h i \<noteq> VNil"
  shows "\<exists>h1 s. luaH_setnum h i = Ok (h1, s) \<and> table_inv (slot_set h1 s v) \<and> t_metatable (slot_set h1 s v) = t_metatable h \<and>
       (\<forall>k. valid_key k \<longrightarrow> table_val (slot_set h1 s v) k = (if luaO_rawequalObj (VNum (cast_num i)) k then v else table_val h k))"
proof -
  obtain q where q: "luaH_getnum h i = Ok q" "(case q of None \<Rightarrow> VNil | Some s \<Rightarrow> slot_val h s) = int_at h i"
    using getnum_at [OF t i] by blast
  then obtain s where "q = Some s" using p by (cases q) auto
  then have "luaH_setnum h i = Ok (h, s)" using q(1) by (simp add: luaH_setnum_def luaH_setnum_body_def)
  then show ?thesis using setnum_at [OF t i, of v] by simp
qed

lemma int_key_eq: "is_int i \<Longrightarrow> is_int j \<Longrightarrow> luaO_rawequalObj (VNum (cast_num i)) (VNum (cast_num j)) \<longleftrightarrow> i = j"
  using cast_num_eq_iff [of i j] by (simp add: abs_if)

section \<open>Rearranging an array\<close>

definition swap_at :: "(int \<Rightarrow> 'a) \<Rightarrow> int \<Rightarrow> int \<Rightarrow> int \<Rightarrow> 'a" where
  "swap_at a i j = a(i := a j, j := a i)"

lemma swap_at_apply: "swap_at a i j k = (if k = j then a i else if k = i then a j else a k)"
  by (simp add: swap_at_def)

definition rearranged :: "int \<Rightarrow> int \<Rightarrow> (int \<Rightarrow> 'a) \<Rightarrow> (int \<Rightarrow> 'a) \<Rightarrow> bool" where
  "rearranged l u a b \<longleftrightarrow> image_mset b (mset_set {l..u}) = image_mset a (mset_set {l..u}) \<and> (\<forall>k. k \<notin> {l..u} \<longrightarrow> b k = a k)"

lemma rearranged_refl [simp]: "rearranged l u a a"
  by (simp add: rearranged_def)

lemma rearranged_trans: "rearranged l u a b \<Longrightarrow> rearranged l u b c \<Longrightarrow> rearranged l u a c"
  by (simp add: rearranged_def)

lemma rearranged_swap: "i \<in> {l..u} \<Longrightarrow> j \<in> {l..u} \<Longrightarrow> rearranged l u a (swap_at a i j)"
proof (cases "i = j")
  case True
  then show ?thesis by (simp add: swap_at_def)
next
  case False
  assume i: "i \<in> {l..u}" "j \<in> {l..u}"
  have "finite ({l..u} - {i, j})" by simp
  moreover have "{l..u} = insert i (insert j ({l..u} - {i, j}))" using i by blast
  ultimately have m: "mset_set {l..u} = {#i, j#} + mset_set ({l..u} - {i, j})"
    using False by (metis (no_types, lifting) DiffD2 add_mset_add_single finite_insert insertCI insert_iff mset_set.insert
        union_commute union_mset_add_mset_left)
  have "image_mset (swap_at a i j) (mset_set ({l..u} - {i, j})) = image_mset a (mset_set ({l..u} - {i, j}))"
    by (rule image_mset_cong) (auto simp: swap_at_def)
  then show ?thesis using i False unfolding rearranged_def m by (auto simp: swap_at_def)
qed

lemma rearranged_mono:
  assumes "rearranged l u a b" "l' \<le> l" "u \<le> u'"
  shows "rearranged l' u' a b"
proof -
  have "mset_set {l'..u'} = mset_set ({l..u} \<inter> {l'..u'}) + mset_set ({l'..u'} - {l..u})"
    by (subst mset_set_Union [symmetric]) (auto intro: arg_cong [of _ _ mset_set])
  moreover have "{l..u} \<inter> {l'..u'} = {l..u}" using assms(2,3) by auto
  moreover have "image_mset b (mset_set ({l'..u'} - {l..u})) = image_mset a (mset_set ({l'..u'} - {l..u}))"
    by (rule image_mset_cong) (use assms(1) in \<open>auto simp: rearranged_def\<close>)
  ultimately show ?thesis using assms unfolding rearranged_def by auto
qed

lemma rearranged_ball:
  assumes "rearranged l u a b" "\<And>k. l \<le> k \<Longrightarrow> k \<le> u \<Longrightarrow> Q (a k)" "l \<le> k" "k \<le> u"
  shows "Q (b k)"
proof -
  have "b k \<in># image_mset b (mset_set {l..u})" using assms(3,4) by simp
  then have "b k \<in># image_mset a (mset_set {l..u})" using assms(1) unfolding rearranged_def by metis
  then show ?thesis using assms(2) by auto
qed

lemma rearranged_out: "rearranged l u a b \<Longrightarrow> k < l \<or> u < k \<Longrightarrow> b k = a k"
  by (auto simp: rearranged_def)


section \<open>The contract of the order\<close>

text \<open>The operand at a negative index.\<close>

definition opnd :: "TValue list \<Rightarrow> int \<Rightarrow> TValue" where
  "opnd st a = st ! (length st - nat (- a))"

text \<open>On the states \<open>I\<close> and the values \<open>D\<close> the comparison of the sort decides \<open>lt\<close>, which is a strict weak order, and leaves the frame
and the table alone.\<close>

locale sort_order =
  fixes W :: world and p :: u32 and fn :: TValue and I :: "lua_State \<Rightarrow> bool" and D :: "TValue set" and lt :: "TValue \<Rightarrow> TValue \<Rightarrow> bool"
  assumes compare: "I S \<Longrightarrow> L_stack S = VTable p # fn # st \<Longrightarrow> a \<in> {- 3.. - 1} \<Longrightarrow> b \<in> {- 3.. - 1} \<Longrightarrow> - int (length st) \<le> a \<Longrightarrow>
      - int (length st) \<le> b \<Longrightarrow> opnd st a \<in> D \<Longrightarrow> opnd st b \<in> D \<Longrightarrow>
      \<exists>S'. sort_comp W S a b = Ok (S', lt (opnd st a) (opnd st b)) \<and> I S' \<and> L_stack S' = L_stack S \<and> L_heap S' p = L_heap S p"
    and frame: "I S \<Longrightarrow> I (S\<lparr>L_stack := st\<rparr>)"
    and heap: "I S \<Longrightarrow> I (put_table S p h)"
    and no_nil: "VNil \<notin> D"
    and asym: "x \<in> D \<Longrightarrow> y \<in> D \<Longrightarrow> lt x y \<Longrightarrow> \<not> lt y x"
    and trans: "x \<in> D \<Longrightarrow> y \<in> D \<Longrightarrow> z \<in> D \<Longrightarrow> \<not> lt y x \<Longrightarrow> \<not> lt z y \<Longrightarrow> \<not> lt z x"
begin

text \<open>The state in the sort: the table has the values \<open>a\<close> at 1 to \<open>n\<close>, and as before everywhere else; \<open>st\<close> is on the stack.\<close>

definition arr :: "Table \<Rightarrow> int \<Rightarrow> (int \<Rightarrow> TValue) \<Rightarrow> TValue list \<Rightarrow> lua_State \<Rightarrow> bool" where
  "arr h0 n a st S \<longleftrightarrow> I S \<and> L_stack S = VTable p # fn # st \<and> n < 2 ^ 31 \<and> (\<forall>i\<in>{1..n}. a i \<in> D) \<and>
     (\<exists>h. L_heap S p = Some h \<and> table_inv h \<and> t_metatable h = t_metatable h0 \<and> (\<forall>i\<in>{1..n}. int_at h i = a i) \<and>
        (\<forall>k. valid_key k \<longrightarrow> (\<forall>i\<in>{1..n}. \<not> luaO_rawequalObj (VNum (cast_num i)) k) \<longrightarrow> table_val h k = table_val h0 k))"

lemma arr_D: "arr h0 n a st S \<Longrightarrow> 1 \<le> i \<Longrightarrow> i \<le> n \<Longrightarrow> a i \<in> D"
  by (simp add: arr_def)

lemma arr_stack: "arr h0 n a st S \<Longrightarrow> arr h0 n a st' (S\<lparr>L_stack := VTable p # fn # st'\<rparr>)"
  using frame by (auto simp: arr_def)

lemma get_ok:
  assumes "arr h0 n a st S" "1 \<le> i" "i \<le> n"
  shows "yields (lua_rawgeti S 1 i) (arr h0 n a (st @ [a i]))"
proof -
  obtain h where h: "L_stack S = VTable p # fn # st" "L_heap S p = Some h" "table_inv h" "int_at h i = a i" "is_int i"
    using assms by (auto simp: arr_def)
  obtain q where q: "luaH_getnum h i = Ok q" "(case q of None \<Rightarrow> VNil | Some s \<Rightarrow> slot_val h s) = int_at h i"
    using getnum_at [OF h(3,5)] by blast
  have "table_at S 1 = Ok (p, h)"
    using h(1,2) by (simp add: table_at_def api_value_def index_value_def index2adr_def get_table_def)
  then have "lua_rawgeti S 1 i = Ok (api_push S (a i))" using q h(4) by (simp add: lua_rawgeti_def)
  moreover have "api_push S (a i) = S\<lparr>L_stack := VTable p # fn # st @ [a i]\<rparr>" by (simp add: api_push_def h(1))
  ultimately show ?thesis using arr_stack [OF assms(1)] by simp
qed

lemma pop_ok:
  assumes "arr h0 n a (st @ ys) S" "k = length ys"
  shows "yields (api_pop S k) (arr h0 n a st)"
proof -
  have "L_stack S = VTable p # fn # st @ ys" using assms by (simp add: arr_def)
  then have "api_pop S k = Ok (S\<lparr>L_stack := VTable p # fn # st\<rparr>)"
    using assms(2) by (simp add: api_pop_def lua_pop_append)
  then show ?thesis using arr_stack [OF assms(1)] by simp
qed

lemma comp_ok:
  assumes "arr h0 n a st S" "i \<in> {- 3.. - 1}" "j \<in> {- 3.. - 1}" "- int (length st) \<le> i" "- int (length st) \<le> j"
    "opnd st i = x" "opnd st j = y" "x \<in> D" "y \<in> D"
  shows "yields (sort_comp W S i j) (\<lambda>(S', r). r = lt x y \<and> arr h0 n a st S')"
proof -
  have "I S" "L_stack S = VTable p # fn # st" using assms by (simp_all add: arr_def)
  then obtain S' where "sort_comp W S i j = Ok (S', lt x y)" "I S'" "L_stack S' = L_stack S" "L_heap S' p = L_heap S p"
    using compare assms(2-) by metis
  then show ?thesis using assms(1) by (simp add: arr_def)
qed

lemma rawset_ok:
  assumes "arr h0 n a (st @ [x]) S" "1 \<le> i" "i \<le> n" "x \<in> D"
  shows "yields (lua_rawseti S 1 i) (arr h0 n (a(i := x)) st)"
proof -
  obtain h where S: "I S" "L_stack S = VTable p # fn # st @ [x]" "n < 2 ^ 31" "\<forall>i\<in>{1..n}. a i \<in> D"
    and h: "L_heap S p = Some h" "table_inv h" "t_metatable h = t_metatable h0" "\<forall>i\<in>{1..n}. int_at h i = a i"
      "\<forall>k. valid_key k \<longrightarrow> (\<forall>i\<in>{1..n}. \<not> luaO_rawequalObj (VNum (cast_num i)) k) \<longrightarrow> table_val h k = table_val h0 k"
    using assms by (auto simp: arr_def)
  have ii: "is_int i" using assms(2,3) S(3) by simp
  have "int_at h i = a i" "a i \<in> D" using h(4) S(4) assms(2,3) by simp_all
  then have "int_at h i \<noteq> VNil" using no_nil by metis
  then obtain h1 s where s: "luaH_setnum h i = Ok (h1, s)"
      "table_inv (slot_set h1 s x)" "t_metatable (slot_set h1 s x) = t_metatable h"
      "\<forall>k. valid_key k \<longrightarrow> table_val (slot_set h1 s x) k = (if luaO_rawequalObj (VNum (cast_num i)) k then x else table_val h k)"
    using setnum_present [OF h(2) ii] by blast
  let ?S = "(put_table S p (slot_set h1 s x))\<lparr>L_stack := VTable p # fn # st\<rparr>"
  have "table_at S 1 = Ok (p, h)"
    using S(2) h(1) by (simp add: table_at_def api_value_def index_value_def index2adr_def get_table_def)
  then have "lua_rawseti S 1 i = Ok ?S"
    using S(2) s(1) by (simp add: lua_rawseti_def api_top_def index2adr_def api_pop_def lua_pop_append put_table_def)
  moreover have "arr h0 n (a(i := x)) st ?S"
  proof -
    have at: "int_at (slot_set h1 s x) j = (a(i := x)) j" if "j \<in> {1..n}" for j
    proof -
      have "is_int j" using that S(3) by simp
      then show ?thesis using s(4) valid_key_int [of j] int_key_eq [OF ii] h(4) that by (auto simp: int_at_def)
    qed
    have other: "table_val (slot_set h1 s x) k = table_val h0 k"
      if "valid_key k" "\<forall>i\<in>{1..n}. \<not> luaO_rawequalObj (VNum (cast_num i)) k" for k
      using that s(4) h(5) assms(2,3) by auto
    show ?thesis
      unfolding arr_def using S h s(2,3) frame [OF heap [OF S(1)]] assms(4) at other by (auto simp: put_table_def)
  qed
  ultimately show ?thesis by simp
qed

lemma set2_ok:
  assumes "arr h0 n a (st @ [x, y]) S" "1 \<le> i" "i \<le> n" "1 \<le> j" "j \<le> n" "x \<in> D" "y \<in> D"
  shows "yields (set2 S i j) (arr h0 n (a(i := y, j := x)) st)"
  unfolding set2_def
proof (rule yields_bind)
  show "yields (lua_rawseti S 1 i) (arr h0 n (a(i := y)) (st @ [x]))" using rawset_ok assms by simp
qed (use rawset_ok assms in simp)

lemma swap_ok:
  assumes "arr h0 n a (st @ [x, y]) S" "x = a i" "y = a j" "1 \<le> i" "i \<le> n" "1 \<le> j" "j \<le> n"
  shows "yields (set2 S i j) (arr h0 n (swap_at a i j) st)"
  using set2_ok [OF assms(1,4-7)] arr_D [OF assms(1)] assms by (simp add: swap_at_def)

end

section \<open>The steps of the sort\<close>

context sort_order
begin

definition le :: "TValue \<Rightarrow> TValue \<Rightarrow> bool" where
  "le x y \<longleftrightarrow> \<not> lt y x"

lemma le_refl: "x \<in> D \<Longrightarrow> le x x"
  using asym by (auto simp: le_def)

lemma le_lt: "x \<in> D \<Longrightarrow> y \<in> D \<Longrightarrow> lt x y \<Longrightarrow> le x y"
  using asym by (auto simp: le_def)

lemma le_trans: "x \<in> D \<Longrightarrow> y \<in> D \<Longrightarrow> z \<in> D \<Longrightarrow> le x y \<Longrightarrow> le y z \<Longrightarrow> le x z"
  unfolding le_def by (rule trans)

definition ascending :: "int \<Rightarrow> int \<Rightarrow> (int \<Rightarrow> TValue) \<Rightarrow> bool" where
  "ascending l u a \<longleftrightarrow> (\<forall>i j. l \<le> i \<longrightarrow> i \<le> j \<longrightarrow> j \<le> u \<longrightarrow> le (a i) (a j))"

definition reach :: "Table \<Rightarrow> int \<Rightarrow> (int \<Rightarrow> TValue) \<Rightarrow> TValue list \<Rightarrow> int \<Rightarrow> int \<Rightarrow> ((int \<Rightarrow> TValue) \<Rightarrow> bool) \<Rightarrow> lua_State \<Rightarrow> bool" where
  "reach h0 n a st l u P S \<longleftrightarrow> (\<exists>b. arr h0 n b st S \<and> rearranged l u a b \<and> P b)"

lemma reachI: "arr h0 n b st S \<Longrightarrow> rearranged l u a b \<Longrightarrow> P b \<Longrightarrow> reach h0 n a st l u P S"
  by (auto simp: reach_def)

lemma then_get:
  assumes "arr h0 n a st S" "1 \<le> i" "i \<le> n" "\<And>S'. arr h0 n a (st @ [a i]) S' \<Longrightarrow> yields (f S') Q"
  shows "yields (rbind (lua_rawgeti S 1 i) f) Q"
  using get_ok [OF assms(1-3)] assms(4) by (rule yields_bind)

lemma then_comp:
  assumes "arr h0 n a st S" "i \<in> {- 3.. - 1}" "j \<in> {- 3.. - 1}" "- int (length st) \<le> i" "- int (length st) \<le> j"
    "opnd st i \<in> D" "opnd st j \<in> D"
    "\<And>S'. arr h0 n a st S' \<Longrightarrow> yields (f (S', lt (opnd st i) (opnd st j))) Q"
  shows "yields (rbind (sort_comp W S i j) f) Q"
  using comp_ok [OF assms(1-5) refl refl assms(6,7)] by (rule yields_bind) (use assms(8) in auto)

lemma swap_reach:
  assumes "arr h0 n b (st @ [b i, b j]) S" "rearranged l u a b" "1 \<le> l" "u \<le> n" "i \<in> {l..u}" "j \<in> {l..u}" "P (swap_at b i j)"
  shows "yields (set2 S i j) (reach h0 n a st l u P)"
proof (rule yields_mono)
  show "yields (set2 S i j) (arr h0 n (swap_at b i j) st)"
    by (rule swap_ok [OF assms(1) refl refl]) (use assms in auto)
  show "arr h0 n (swap_at b i j) st x \<Longrightarrow> reach h0 n a st l u P x" for x
    using assms rearranged_swap [of i l u j b] rearranged_trans by (blast intro: reachI)
qed

lemma pop_reach:
  assumes "arr h0 n b (st @ ys) S" "k = length ys" "rearranged l u a b" "P b"
  shows "yields (api_pop S k) (reach h0 n a st l u P)"
  using pop_ok [OF assms(1,2)] by (rule yields_mono) (use assms in \<open>blast intro: reachI\<close>)

lemma opnd_last [simp]:
  "opnd (st @ [x]) (- 1) = x" "opnd (st @ [x, y]) (- 1) = y" "opnd (st @ [x, y]) (- 2) = x"
  "opnd (st @ [x, y, z]) (- 1) = z" "opnd (st @ [x, y, z]) (- 3) = x"
  "opnd [x, y] (- 1) = y" "opnd [x, y] (- 2) = x" "opnd [x, y, z] (- 1) = z" "opnd [x, y, z] (- 3) = x"
  by (simp_all add: opnd_def nth_append)

lemma sort_ends_ok:
  assumes "arr h0 n a [] S" "1 \<le> l" "l < u" "u \<le> n"
  shows "yields (sort_ends W S l u) (reach h0 n a [] l u (\<lambda>b. le (b l) (b u)))"
  unfolding sort_ends_def
proof (rule then_get [OF assms(1)], goal_cases)
  case (3 S1)
  have D: "a l \<in> D" "a u \<in> D" using arr_D [OF assms(1)] assms by simp_all
  show ?case
  proof (rule then_get [OF 3], goal_cases)
    case (3 S2)
    then have 2: "arr h0 n a ([] @ [a l, a u]) S2" by simp
    show ?case
    proof (rule then_comp [OF 2], goal_cases)
      case (7 S3)
      show ?case
      proof (cases "lt (a u) (a l)")
        case True
        then have "yields (set2 S3 l u) (reach h0 n a [] l u (\<lambda>b. le (b l) (b u)))"
          using assms D by (intro swap_reach [OF 7]) (simp_all add: swap_at_apply le_lt)
        then show ?thesis using True by simp
      next
        case False
        then have "yields (api_pop S3 2) (reach h0 n a [] l u (\<lambda>b. le (b l) (b u)))"
          by (intro pop_reach [OF 7]) (simp_all add: le_def)
        then show ?thesis using False by simp
      qed
    qed (use D in simp_all)
  qed (use assms in simp_all)
qed (use assms in simp_all)


lemma sort_middle_ok:
  assumes "arr h0 n a [] S" "1 \<le> l" "l < i" "i < u" "u \<le> n" "le (a l) (a u)"
  shows "yields (sort_middle W S l i u) (reach h0 n a [] l u (\<lambda>b. le (b l) (b i) \<and> le (b i) (b u)))"
  unfolding sort_middle_def
proof (rule then_get [OF assms(1)], goal_cases)
  case (3 S1)
  have D: "a l \<in> D" "a i \<in> D" "a u \<in> D" using arr_D [OF assms(1)] assms by simp_all
  show ?case
  proof (rule then_get [OF 3], goal_cases)
    case (3 S2)
    then have 2: "arr h0 n a ([] @ [a i, a l]) S2" by simp
    show ?case
    proof (rule then_comp [OF 2], goal_cases)
      case (7 S3)
      show ?case
      proof (cases "lt (a i) (a l)")
        case True
        then have "le (a i) (a u)" using le_trans [OF D(2,1,3)] assms(6) le_lt D by blast
        then have "yields (set2 S3 i l) (reach h0 n a [] l u (\<lambda>b. le (b l) (b i) \<and> le (b i) (b u)))"
          using assms D True by (intro swap_reach [OF 7]) (simp_all add: swap_at_apply le_lt)
        then show ?thesis using True by simp
      next
        case False
        then have li: "le (a l) (a i)" by (simp add: le_def)
        have "yields (rbind (api_pop S3 1) (\<lambda>S4. rbind (lua_rawgeti S4 1 u) (\<lambda>S5.
            rbind (sort_comp W S5 (- 1) (- 2)) (\<lambda>(S6, lt). if lt then set2 S6 i u else api_pop S6 2))))
          (reach h0 n a [] l u (\<lambda>b. le (b l) (b i) \<and> le (b i) (b u)))"
        proof (rule yields_bind)
          show "yields (api_pop S3 1) (arr h0 n a [a i])" using pop_ok [of h0 n a "[a i]" "[a l]" S3 1] 7 by simp
          fix S4 assume 4: "arr h0 n a [a i] S4"
          show "yields (rbind (lua_rawgeti S4 1 u) (\<lambda>S5.
            rbind (sort_comp W S5 (- 1) (- 2)) (\<lambda>(S6, lt). if lt then set2 S6 i u else api_pop S6 2)))
            (reach h0 n a [] l u (\<lambda>b. le (b l) (b i) \<and> le (b i) (b u)))"
          proof (rule then_get [OF 4], goal_cases)
            case (3 S5)
            then have 5: "arr h0 n a ([] @ [a i, a u]) S5" by simp
            show ?case
            proof (rule then_comp [OF 5], goal_cases)
              case (7 S6)
              show ?case
              proof (cases "lt (a u) (a i)")
                case True
                then have "yields (set2 S6 i u) (reach h0 n a [] l u (\<lambda>b. le (b l) (b i) \<and> le (b i) (b u)))"
                  using assms D li by (intro swap_reach [OF 7]) (simp_all add: swap_at_apply le_lt)
                then show ?thesis using True by simp
              next
                case False
                then have "yields (api_pop S6 2) (reach h0 n a [] l u (\<lambda>b. le (b l) (b i) \<and> le (b i) (b u)))"
                  using li by (intro pop_reach [OF 7]) (simp_all add: le_def)
                then show ?thesis using False by simp
              qed
            qed (use D in simp_all)
          qed (use assms in simp_all)
        qed
        then show ?thesis using False by simp
      qed
    qed (use D in simp_all)
  qed (use assms in simp_all)
qed (use assms in simp_all)

lemma sort_pivot_ok:
  assumes "arr h0 n a [] S" "1 \<le> l" "l \<le> i" "i < u" "u \<le> n" "l < u"
  shows "yields (sort_pivot S i u) (reach h0 n a [a i] l u (\<lambda>b. b = swap_at a i (u - 1)))"
  unfolding sort_pivot_def
proof (rule then_get [OF assms(1)], goal_cases)
  case (3 S1)
  then have st: "L_stack S1 = VTable p # fn # [a i]" by (simp add: arr_def)
  then have "lua_pushvalue S1 (- 1) = Ok (S1\<lparr>L_stack := VTable p # fn # [a i, a i]\<rparr>)"
    by (simp add: lua_pushvalue_def api_value_def index_value_def index2adr_def api_push_def)
  then have "yields (lua_pushvalue S1 (- 1)) (arr h0 n a [a i, a i])" using arr_stack [OF 3] by simp
  then show ?case
  proof (rule yields_bind)
    fix S2 assume 2: "arr h0 n a [a i, a i] S2"
    show "yields (rbind (lua_rawgeti S2 1 (u - 1)) (\<lambda>S3. set2 S3 i (u - 1))) (reach h0 n a [a i] l u (\<lambda>b. b = swap_at a i (u - 1)))"
    proof (rule then_get [OF 2], goal_cases)
      case (3 S3)
      then have "arr h0 n a ([a i] @ [a i, a (u - 1)]) S3" by simp
      then show ?case by (rule swap_reach) (use assms in simp_all)
    qed (use assms in simp_all)
  qed
qed (use assms in simp_all)

text \<open>The scans stop at the first element that is not on the right side, at the latest at \<open>m\<close>.\<close>

lemma above_step: "\<forall>x. i + 1 < x \<longrightarrow> x < j \<longrightarrow> Q x \<Longrightarrow> Q (i + 1) \<Longrightarrow> i < x \<Longrightarrow> x < j \<Longrightarrow> Q (x :: int)"
  by (cases "x = i + 1") auto

lemma below_step: "\<forall>x. j < x \<longrightarrow> x < i - 1 \<longrightarrow> Q x \<Longrightarrow> Q (i - 1) \<Longrightarrow> j < x \<Longrightarrow> x < i \<Longrightarrow> Q (x :: int)"
  by (cases "x = i - 1") auto

lemma scan_up_ok:
  assumes "arr h0 n a [P] S" "P \<in> D" "i + int (Suc k) = m" "m \<le> u" "u \<le> n" "0 \<le> i" "le P (a m)"
  shows "yields (scan_up W u i S) (\<lambda>(S', j). i < j \<and> j \<le> m \<and> arr h0 n a [P, a j] S' \<and> le P (a j) \<and> (\<forall>x. i < x \<longrightarrow> x < j \<longrightarrow> lt (a x) P))"
  using assms
proof (induction k arbitrary: i S)
  case (0 i S)
  have D: "a (i + 1) \<in> D" and m: "m = i + 1" using arr_D [OF 0(1)] 0 by simp_all
  show ?case
    unfolding scan_up.simps [of W u i S] Let_def
  proof (rule then_get [OF 0(1)], goal_cases)
    case (3 S1)
    then have 1: "arr h0 n a [P, a (i + 1)] S1" by simp
    show ?case
      by (rule then_comp [OF 1]) (use D 0 m in \<open>auto simp: le_def\<close>)
  qed (use 0 in simp_all)
next
  case (Suc k i S)
  have D: "a (i + 1) \<in> D" using arr_D [OF Suc(2)] Suc(4-) by simp
  show ?case
    unfolding scan_up.simps [of W u i S] Let_def
  proof (rule then_get [OF Suc(2)], goal_cases)
    case (3 S1)
    then have 1: "arr h0 n a [P, a (i + 1)] S1" by simp
    show ?case
    proof (rule then_comp [OF 1], goal_cases)
      case (7 S2)
      show ?case
      proof (cases "lt (a (i + 1)) P")
        case True
        have u: "\<not> u < i + 1" using Suc(4,5) by simp
        have "yields (rbind (api_pop S2 1) (scan_up W u (i + 1)))
          (\<lambda>(S', j). i < j \<and> j \<le> m \<and> arr h0 n a [P, a j] S' \<and> le P (a j) \<and> (\<forall>x. i < x \<longrightarrow> x < j \<longrightarrow> lt (a x) P))"
        proof (rule yields_bind)
          show "yields (api_pop S2 1) (arr h0 n a [P])" using pop_ok [of h0 n a "[P]" "[a (i + 1)]" S2 1] 7 by simp
          fix S3 assume 3: "arr h0 n a [P] S3"
          have "yields (scan_up W u (i + 1) S3) (\<lambda>(S', j). i + 1 < j \<and> j \<le> m \<and> arr h0 n a [P, a j] S' \<and> le P (a j) \<and>
              (\<forall>x. i + 1 < x \<longrightarrow> x < j \<longrightarrow> lt (a x) P))"
            by (rule Suc.IH [OF 3 Suc(3)]) (use Suc(4-) in simp_all)
          then show "yields (scan_up W u (i + 1) S3) (\<lambda>(S', j). i < j \<and> j \<le> m \<and> arr h0 n a [P, a j] S' \<and> le P (a j) \<and>
              (\<forall>x. i < x \<longrightarrow> x < j \<longrightarrow> lt (a x) P))"
            by (rule yields_mono; clarsimp) (erule above_step [where Q = "\<lambda>x. lt (a x) P"], simp_all add: True)
        qed
        then show ?thesis using True u by simp
      qed (use 7 Suc(4-) in \<open>auto simp: le_def\<close>)
    qed (use D Suc(3) in simp_all)
  qed (use Suc in simp_all)
qed

lemma opnd_three [simp]:
  "opnd [x, y, z] (- 1) = z" "opnd [x, y, z] (- 3) = x" "opnd [x, y] (- 1) = y"
  by (simp_all add: opnd_def)

lemma scan_down_ok:
  assumes "arr h0 n a [P, q] S" "P \<in> D" "i - int (Suc k) = m" "l \<le> m" "1 \<le> l" "i - 1 \<le> n" "le (a m) P"
  shows "yields (scan_down W l i S) (\<lambda>(S', j). m \<le> j \<and> j < i \<and> arr h0 n a [P, q, a j] S' \<and> le (a j) P \<and> (\<forall>x. j < x \<longrightarrow> x < i \<longrightarrow> lt P (a x)))"
  using assms
proof (induction k arbitrary: i S)
  case (0 i S)
  have D: "a (i - 1) \<in> D" and m: "m = i - 1" using arr_D [OF 0(1)] 0 by simp_all
  show ?case
    unfolding scan_down.simps [of W l i S] Let_def
  proof (rule then_get [OF 0(1)], goal_cases)
    case (3 S1)
    then have 1: "arr h0 n a [P, q, a (i - 1)] S1" by simp
    show ?case
      by (rule then_comp [OF 1]) (use D 0 m in \<open>auto simp: le_def\<close>)
  qed (use 0 in simp_all)
next
  case (Suc k i S)
  have D: "a (i - 1) \<in> D" using arr_D [OF Suc(2)] Suc(4-) by simp
  show ?case
    unfolding scan_down.simps [of W l i S] Let_def
  proof (rule then_get [OF Suc(2)], goal_cases)
    case (3 S1)
    then have 1: "arr h0 n a [P, q, a (i - 1)] S1" by simp
    show ?case
    proof (rule then_comp [OF 1], goal_cases)
      case (7 S2)
      show ?case
      proof (cases "lt P (a (i - 1))")
        case True
        have u: "\<not> i - 1 < l" using Suc(4,5) by simp
        have "yields (rbind (api_pop S2 1) (scan_down W l (i - 1)))
          (\<lambda>(S', j). m \<le> j \<and> j < i \<and> arr h0 n a [P, q, a j] S' \<and> le (a j) P \<and> (\<forall>x. j < x \<longrightarrow> x < i \<longrightarrow> lt P (a x)))"
        proof (rule yields_bind)
          show "yields (api_pop S2 1) (arr h0 n a [P, q])" using pop_ok [of h0 n a "[P, q]" "[a (i - 1)]" S2 1] 7 by simp
          fix S3 assume 3: "arr h0 n a [P, q] S3"
          have "yields (scan_down W l (i - 1) S3) (\<lambda>(S', j). m \<le> j \<and> j < i - 1 \<and> arr h0 n a [P, q, a j] S' \<and> le (a j) P \<and>
              (\<forall>x. j < x \<longrightarrow> x < i - 1 \<longrightarrow> lt P (a x)))"
            by (rule Suc.IH [OF 3 Suc(3)]) (use Suc(4-) in simp_all)
          then show "yields (scan_down W l (i - 1) S3) (\<lambda>(S', j). m \<le> j \<and> j < i \<and> arr h0 n a [P, q, a j] S' \<and> le (a j) P \<and>
              (\<forall>x. j < x \<longrightarrow> x < i \<longrightarrow> lt P (a x)))"
            by (rule yields_mono; clarsimp) (erule below_step [where Q = "\<lambda>x. lt P (a x)"], simp_all add: True)
        qed
        then show ?thesis using True u by simp
      qed (use 7 Suc(4-) in \<open>auto simp: le_def\<close>)
    qed (use D Suc(3) in simp_all)
  qed (use Suc in simp_all)
qed

text \<open>What the division has reached with the indices at \<open>i\<close> and \<open>j\<close>.\<close>

definition dividing :: "int \<Rightarrow> int \<Rightarrow> TValue \<Rightarrow> int \<Rightarrow> int \<Rightarrow> (int \<Rightarrow> TValue) \<Rightarrow> bool" where
  "dividing l u P i j a \<longleftrightarrow> l \<le> i \<and> i \<le> j \<and> j < u \<and> (i = j \<longrightarrow> l < i \<and> j < u - 1) \<and> a (u - 1) = P \<and>
     (\<forall>k. l \<le> k \<longrightarrow> k \<le> i \<longrightarrow> le (a k) P) \<and> (\<forall>k. j \<le> k \<longrightarrow> k \<le> u \<longrightarrow> le P (a k))"

definition divided :: "int \<Rightarrow> int \<Rightarrow> TValue \<Rightarrow> int \<Rightarrow> (int \<Rightarrow> TValue) \<Rightarrow> bool" where
  "divided l u P i a \<longleftrightarrow> l < i \<and> i < u \<and> a (u - 1) = P \<and>
     (\<forall>k. l \<le> k \<longrightarrow> k < i \<longrightarrow> le (a k) P) \<and> (\<forall>k. i \<le> k \<longrightarrow> k \<le> u \<longrightarrow> le P (a k))"

lemma dividing_up:
  assumes "dividing l u P i j a"
  obtains k m where "i + int (Suc k) = m" "m \<le> u" "le P (a m)" "i < j \<Longrightarrow> m = j" "i = j \<Longrightarrow> m = j + 1"
proof (cases "i < j")
  case True
  then show ?thesis using that [of "nat (j - i) - 1" j] assms by (auto simp: dividing_def)
next
  case False
  then show ?thesis using that [of 0 "j + 1"] assms by (auto simp: dividing_def)
qed

lemma dividing_down:
  assumes "dividing l u P i j a"
  obtains k m where "j - int (Suc k) = m" "l \<le> m" "le (a m) P" "i < j \<Longrightarrow> m = i" "i = j \<Longrightarrow> m = i - 1"
proof (cases "i < j")
  case True
  then show ?thesis using that [of "nat (j - i) - 1" i] assms by (auto simp: dividing_def)
next
  case False
  then show ?thesis using that [of 0 "i - 1"] assms by (auto simp: dividing_def)
qed

text \<open>Where the scans have stopped: the indices have crossed, or the division goes on behind the swap.\<close>

lemma divide_step:
  assumes d: "dividing l u P i j a" and D: "P \<in> D" "\<forall>x. l \<le> x \<longrightarrow> x \<le> u \<longrightarrow> a x \<in> D"
    and up: "i < i1" "i < j \<Longrightarrow> i1 \<le> j" "i = j \<Longrightarrow> i1 \<le> j + 1" "le P (a i1)" "\<forall>x. i < x \<longrightarrow> x < i1 \<longrightarrow> lt (a x) P"
    and down: "j1 < j" "i < j \<Longrightarrow> i \<le> j1" "i = j \<Longrightarrow> i - 1 \<le> j1" "le (a j1) P" "\<forall>x. j1 < x \<longrightarrow> x < j \<longrightarrow> lt P (a x)"
  shows "j1 < i1 \<Longrightarrow> divided l u P i1 a" "\<not> j1 < i1 \<Longrightarrow> dividing l u P i1 j1 (swap_at a i1 j1)"
proof -
  have b: "l \<le> i" "i \<le> j" "j < u" "i = j \<Longrightarrow> l < i \<and> j < u - 1" "a (u - 1) = P"
    "\<And>k. l \<le> k \<Longrightarrow> k \<le> i \<Longrightarrow> le (a k) P" "\<And>k. j \<le> k \<Longrightarrow> k \<le> u \<Longrightarrow> le P (a k)"
    using d by (auto simp: dividing_def)
  have i1: "i1 < u" using b up by (cases "i = j") auto
  have low: "le (a k) P" if "l \<le> k" "k < i1" for k
    using that b(6) [of k] up(5) le_lt [of "a k" P] D i1 by (cases "k \<le> i") auto
  have high: "le P (a k)" if "j1 < k" "k \<le> u" "l \<le> k" for k
    using that b(7) [of k] down(5) le_lt [of P "a k"] D by (cases "j \<le> k") auto
  show "divided l u P i1 a" if "j1 < i1"
    unfolding divided_def using low high i1 b(1,5) up(1) that by auto
  assume n: "\<not> j1 < i1"
  show "dividing l u P i1 j1 (swap_at a i1 j1)"
    unfolding dividing_def using n low high up(1,4) down(1,4) b(1-3,5) by (auto simp: swap_at_apply)
qed

lemma partition_loop_ok:
  assumes "arr h0 n a [P] S" "P \<in> D" "1 \<le> l" "u \<le> n" "dividing l u P i j a"
  shows "yields (partition_loop W l u i j S) (\<lambda>(S', k). reach h0 n a [] l u (divided l u P k) S')"
  using assms
proof (induction "nat (j - i)" arbitrary: i j a S rule: less_induct)
  case less
  note d = less.prems(5)
  have b: "l \<le> i" "i \<le> j" "j < u" using d by (auto simp: dividing_def)
  have D: "\<forall>x. l \<le> x \<longrightarrow> x \<le> u \<longrightarrow> a x \<in> D" using arr_D [OF less.prems(1)] less.prems(3,4) by auto
  obtain k m where m: "i + int (Suc k) = m" "m \<le> u" "le P (a m)" "i < j \<Longrightarrow> m = j" "i = j \<Longrightarrow> m = j + 1"
    using d by (rule dividing_up) blast
  have up: "yields (scan_up W u i S) (\<lambda>(S', k). i < k \<and> k \<le> m \<and> arr h0 n a [P, a k] S' \<and> le P (a k) \<and> (\<forall>x. i < x \<longrightarrow> x < k \<longrightarrow> lt (a x) P))"
    by (rule scan_up_ok [OF less.prems(1,2) m(1,2) less.prems(4)]) (use b less.prems(3) m(3) in auto)
  show ?case
    unfolding partition_loop.simps [of W l u i j S]
  proof (rule yields_bind [OF up], clarify)
    fix S1 i1 assume i1: "i < i1" "i1 \<le> m" "arr h0 n a [P, a i1] S1" "le P (a i1)" "\<forall>x. i < x \<longrightarrow> x < i1 \<longrightarrow> lt (a x) P"
    obtain k' m' where m': "j - int (Suc k') = m'" "l \<le> m'" "le (a m') P" "i < j \<Longrightarrow> m' = i" "i = j \<Longrightarrow> m' = i - 1"
      using d by (rule dividing_down) blast
    have down: "yields (scan_down W l j S1)
        (\<lambda>(S', k). m' \<le> k \<and> k < j \<and> arr h0 n a [P, a i1, a k] S' \<and> le (a k) P \<and> (\<forall>x. k < x \<longrightarrow> x < j \<longrightarrow> lt P (a x)))"
      by (rule scan_down_ok [OF i1(3) less.prems(2) m'(1,2) less.prems(3)]) (use b less.prems(4) m'(3) in auto)
    show "yields (rbind (scan_down W l j S1) (\<lambda>(S2, j1). if j1 < i1 then rbind (api_pop S2 3) (\<lambda>S3. Ok (S3, i1))
        else rbind (set2 S2 i1 j1) (partition_loop W l u i1 j1))) (\<lambda>(S', k). reach h0 n a [] l u (divided l u P k) S')"
    proof (rule yields_bind [OF down], clarify)
      fix S2 j1 assume j1: "m' \<le> j1" "j1 < j" "arr h0 n a [P, a i1, a j1] S2" "le (a j1) P" "\<forall>x. j1 < x \<longrightarrow> x < j \<longrightarrow> lt P (a x)"
      note step = divide_step [OF d less.prems(2) D i1(1) _ _ i1(4,5) j1(2) _ _ j1(4,5)]
      show "yields (if j1 < i1 then rbind (api_pop S2 3) (\<lambda>S3. Ok (S3, i1)) else rbind (set2 S2 i1 j1) (partition_loop W l u i1 j1))
         (\<lambda>(S', k). reach h0 n a [] l u (divided l u P k) S')"
      proof (cases "j1 < i1")
        case True
        have "divided l u P i1 a" by (rule step(1)) (use True m m' i1 j1 in auto)
        then have "yields (api_pop S2 3) (reach h0 n a [] l u (divided l u P i1))"
          by (intro pop_reach [of h0 n a "[]" "[P, a i1, a j1]"]) (use j1(3) in simp_all)
        then show ?thesis using True by (auto intro: yields_bind)
      next
        case False
        have dv: "dividing l u P i1 j1 (swap_at a i1 j1)" by (rule step(2)) (use False m m' i1 j1 in auto)
        then have r: "i1 \<in> {l..u}" "j1 \<in> {l..u}" by (auto simp: dividing_def)
        have "yields (set2 S2 i1 j1) (arr h0 n (swap_at a i1 j1) [P])"
          by (rule swap_ok) (use j1(3) r less.prems(3,4) in auto)
        then have "yields (rbind (set2 S2 i1 j1) (partition_loop W l u i1 j1)) (\<lambda>(S', k). reach h0 n a [] l u (divided l u P k) S')"
        proof (rule yields_bind)
          fix S3 assume 3: "arr h0 n (swap_at a i1 j1) [P] S3"
          have "yields (partition_loop W l u i1 j1 S3) (\<lambda>(S', k). reach h0 n (swap_at a i1 j1) [] l u (divided l u P k) S')"
            by (rule less.hyps [OF _ 3 less.prems(2-4) dv]) (use False i1 j1 in auto)
          then show "yields (partition_loop W l u i1 j1 S3) (\<lambda>(S', k). reach h0 n a [] l u (divided l u P k) S')"
            by (rule yields_mono) (use rearranged_trans [OF rearranged_swap [OF r]] in \<open>auto simp: reach_def\<close>)
        qed
        then show ?thesis using False by simp
      qed
    qed
  qed
qed

lemma sort_swap_ok:
  assumes "arr h0 n a [] S" "1 \<le> l" "u \<le> n" "divided l u P i a" "P \<in> D"
  shows "yields (sort_swap S i u) (reach h0 n a [] l u (\<lambda>b. b i = P \<and> (\<forall>k. l \<le> k \<longrightarrow> k < i \<longrightarrow> le (b k) P) \<and> (\<forall>k. i < k \<longrightarrow> k \<le> u \<longrightarrow> le P (b k))))"
proof -
  have d: "l < i" "i < u" "a (u - 1) = P" "\<forall>k. l \<le> k \<longrightarrow> k < i \<longrightarrow> le (a k) P" "\<forall>k. i \<le> k \<longrightarrow> k \<le> u \<longrightarrow> le P (a k)"
    using assms(4) by (auto simp: divided_def)
  show ?thesis
    unfolding sort_swap_def
  proof (rule then_get [OF assms(1)], goal_cases)
    case (3 S1)
    show ?case
    proof (rule then_get [OF 3], goal_cases)
      case (3 S2)
      then have "arr h0 n a ([] @ [a (u - 1), a i]) S2" by simp
      then show ?case
        by (rule swap_reach) (use assms d in \<open>auto simp: swap_at_apply\<close>)
    qed (use assms d in simp_all)
  qed (use assms d in simp_all)
qed

text \<open>Two sorted parts around the pivot.\<close>

lemma ascending_join:
  assumes "ascending l (i - 1) b" "ascending (i + 1) u b" "b i = P" "P \<in> D"
    "\<And>k. l \<le> k \<Longrightarrow> k < i \<Longrightarrow> le (b k) P \<and> b k \<in> D" "\<And>k. i < k \<Longrightarrow> k \<le> u \<Longrightarrow> le P (b k) \<and> b k \<in> D"
  shows "ascending l u b"
  unfolding ascending_def
proof (intro allI impI)
  fix x y assume xy: "l \<le> x" "x \<le> y" "y \<le> u"
  consider "y < i" | "i < x" | "x = i" "y = i" | "x = i" "i < y" | "x < i" "y = i" | "x < i" "i < y" using xy by linarith
  then show "le (b x) (b y)"
  proof cases
    case 1
    then show ?thesis using assms(1) xy by (simp add: ascending_def)
  next
    case 2
    then show ?thesis using assms(2) xy by (simp add: ascending_def)
  next
    case 6
    then show ?thesis using le_trans [of "b x" P "b y"] assms(4) assms(5) [of x] assms(6) [of y] xy by simp
  qed (use assms(3,4) assms(5) [of x] assms(6) [of y] xy le_refl in auto)
qed

definition sorts :: "(lua_State \<Rightarrow> lua_State res) \<Rightarrow> Table \<Rightarrow> int \<Rightarrow> int \<Rightarrow> int \<Rightarrow> bool" where
  "sorts r h0 n l u \<longleftrightarrow> (\<forall>a S. arr h0 n a [] S \<longrightarrow> yields (r S) (reach h0 n a [] l u (ascending l u)))"

lemma sortsD: "sorts r h0 n l u \<Longrightarrow> arr h0 n a [] S \<Longrightarrow> yields (r S) (reach h0 n a [] l u (ascending l u))"
  by (simp add: sorts_def)

text \<open>Both halves, in either order.\<close>

definition keeps :: "int \<Rightarrow> int \<Rightarrow> (int \<Rightarrow> TValue) \<Rightarrow> (int \<Rightarrow> TValue) \<Rightarrow> bool" where
  "keeps l u a b \<longleftrightarrow> (\<forall>Q. (\<forall>k. l \<le> k \<longrightarrow> k \<le> u \<longrightarrow> Q (a k)) \<longrightarrow> (\<forall>k. l \<le> k \<longrightarrow> k \<le> u \<longrightarrow> Q (b k)))"

lemma keepsD: "keeps l u a b \<Longrightarrow> (\<And>k. l \<le> k \<Longrightarrow> k \<le> u \<Longrightarrow> Q (a k)) \<Longrightarrow> l \<le> k \<Longrightarrow> k \<le> u \<Longrightarrow> Q (b k)"
  unfolding keeps_def by blast

lemma rearranged_keeps: "rearranged l u a c \<Longrightarrow> (\<And>k. l \<le> k \<Longrightarrow> k \<le> u \<Longrightarrow> b k = c k) \<Longrightarrow> keeps l u a b"
  unfolding keeps_def using rearranged_ball [of l u a c] by metis

lemma sort_both:
  assumes "arr h0 n a [] S" "sorts r1 h0 n l1 u1" "sorts r2 h0 n l2 u2"
    "u1 < l2 \<or> u2 < l1" "l \<le> l1" "u1 \<le> u" "l \<le> l2" "u2 \<le> u"
  shows "yields (rbind (r1 S) r2) (reach h0 n a [] l u (\<lambda>b. ascending l1 u1 b \<and> ascending l2 u2 b \<and>
    keeps l1 u1 a b \<and> keeps l2 u2 a b \<and> (\<forall>k. (k < l1 \<or> u1 < k) \<and> (k < l2 \<or> u2 < k) \<longrightarrow> b k = a k)))"
proof (rule yields_bind [OF sortsD [OF assms(2,1)]])
  fix S1 assume "reach h0 n a [] l1 u1 (ascending l1 u1) S1"
  then obtain c where c: "arr h0 n c [] S1" "rearranged l1 u1 a c" "ascending l1 u1 c" by (auto simp: reach_def)
  show "yields (r2 S1) (reach h0 n a [] l u (\<lambda>b. ascending l1 u1 b \<and> ascending l2 u2 b \<and>
    keeps l1 u1 a b \<and> keeps l2 u2 a b \<and> (\<forall>k. (k < l1 \<or> u1 < k) \<and> (k < l2 \<or> u2 < k) \<longrightarrow> b k = a k)))"
  proof (rule yields_mono [OF sortsD [OF assms(3) c(1)]])
    fix S2 assume "reach h0 n c [] l2 u2 (ascending l2 u2) S2"
    then obtain b where b: "arr h0 n b [] S2" "rearranged l2 u2 c b" "ascending l2 u2 b" by (auto simp: reach_def)
    have bc: "b k = c k" if "l1 \<le> k" "k \<le> u1" for k using rearranged_out [OF b(2), of k] that assms(4) by auto
    have ca: "c k = a k" if "l2 \<le> k" "k \<le> u2" for k using rearranged_out [OF c(2), of k] that assms(4) by auto
    have "ascending l1 u1 b" using c(3) bc by (simp add: ascending_def)
    moreover have "rearranged l u a b"
      using rearranged_mono [OF c(2), of l u] rearranged_mono [OF b(2), of l u] assms(5-8) rearranged_trans by blast
    moreover have "keeps l1 u1 a b" using c(2) bc by (rule rearranged_keeps)
    moreover have "keeps l2 u2 c b" using b(2) by (rule rearranged_keeps) simp
    then have "keeps l2 u2 a b" using ca by (simp add: keeps_def)
    moreover have "b k = a k" if "k < l1 \<or> u1 < k" "k < l2 \<or> u2 < k" for k
      using rearranged_out [OF c(2) that(1)] rearranged_out [OF b(2) that(2)] by simp
    ultimately show "reach h0 n a [] l u (\<lambda>b. ascending l1 u1 b \<and> ascending l2 u2 b \<and>
        keeps l1 u1 a b \<and> keeps l2 u2 a b \<and> (\<forall>k. (k < l1 \<or> u1 < k) \<and> (k < l2 \<or> u2 < k) \<longrightarrow> b k = a k)) S2"
      using b(1,3) by (intro reachI [OF b(1)]) auto
  qed
qed

lemma sort_halves_ok:
  assumes a: "arr h0 n a [] S" and i: "l < i" "i < u" "1 \<le> l" "u \<le> n" and P: "a i = P" "P \<in> D"
    and low: "\<forall>k. l \<le> k \<longrightarrow> k < i \<longrightarrow> le (a k) P" and high: "\<forall>k. i < k \<longrightarrow> k \<le> u \<longrightarrow> le P (a k)"
    and r: "sorts r1 h0 n l (i - 1)" "sorts r2 h0 n (i + 1) u"
  shows "yields (rbind (r1 S) r2) (reach h0 n a [] l u (ascending l u))" "yields (rbind (r2 S) r1) (reach h0 n a [] l u (ascending l u))"
proof -
  have D: "a k \<in> D" if "l \<le> k" "k \<le> u" for k using arr_D [OF a] that i by simp
  have join: "ascending l u b" if b: "ascending l (i - 1) b" "ascending (i + 1) u b" "keeps l (i - 1) a b" "keeps (i + 1) u a b" "b i = a i" for b
    using keepsD [OF b(3), where Q = "\<lambda>x. le x P \<and> x \<in> D"] keepsD [OF b(4), where Q = "\<lambda>x. le P x \<and> x \<in> D"] low high D i P b(5)
    by (intro ascending_join [OF b(1,2), of P]) auto
  show "yields (rbind (r1 S) r2) (reach h0 n a [] l u (ascending l u))"
    by (rule yields_mono [OF sort_both [OF a r, of l u]]) (use i join in \<open>auto simp: reach_def\<close>)
  show "yields (rbind (r2 S) r1) (reach h0 n a [] l u (ascending l u))"
    by (rule yields_mono [OF sort_both [OF a r(2,1), of l u]]) (use i join in \<open>auto simp: reach_def\<close>)
qed

lemma reach_trans:
  assumes "yields r (reach h0 n a [] l u P)"
    "\<And>b S'. arr h0 n b [] S' \<Longrightarrow> P b \<Longrightarrow> yields (f S') (reach h0 n b st l u Q)"
  shows "yields (rbind r f) (reach h0 n a st l u Q)"
  using assms(1)
proof (rule yields_bind)
  fix S' assume "reach h0 n a [] l u P S'"
  then obtain b where b: "arr h0 n b [] S'" "rearranged l u a b" "P b" by (auto simp: reach_def)
  show "yields (f S') (reach h0 n a st l u Q)"
    by (rule yields_mono [OF assms(2) [OF b(1,3)]]) (use b(2) in \<open>unfold reach_def, blast intro: rearranged_trans\<close>)
qed

lemma ascending_two: "arr h0 n b [] S \<Longrightarrow> 1 \<le> l \<Longrightarrow> l + 1 \<le> n \<Longrightarrow> le (b l) (b (l + 1)) \<Longrightarrow> ascending l (l + 1) b"
  unfolding ascending_def
proof (intro allI impI, goal_cases)
  case (1 i j)
  consider "i = j" "i = l" | "i = j" "i = l + 1" | "i = l" "j = l + 1" using 1(5-7) by linarith
  then show ?case using 1 le_refl arr_D [OF 1(1), of l] arr_D [OF 1(1), of "l + 1"] by cases auto
qed

lemma ascending_three:
  assumes "arr h0 n b [] S" "1 \<le> l" "l + 2 \<le> n" "le (b l) (b (l + 1))" "le (b (l + 1)) (b (l + 2))"
  shows "ascending l (l + 2) b"
proof (rule ascending_join [where i = "l + 1" and P = "b (l + 1)"])
  note D = arr_D [OF assms(1)]
  show "ascending l (l + 1 - 1) b" "ascending (l + 1 + 1) (l + 2) b"
    using D [of l] D [of "l + 2"] assms(2,3) le_refl by (auto simp: ascending_def dest!: antisym)
  show "l \<le> k \<Longrightarrow> k < l + 1 \<Longrightarrow> le (b k) (b (l + 1)) \<and> b k \<in> D" for k
    using D [of l] assms by (cases "k = l") auto
  show "l + 1 < k \<Longrightarrow> k \<le> l + 2 \<Longrightarrow> le (b (l + 1)) (b k) \<and> b k \<in> D" for k
    using D [of "l + 2"] assms by (cases "k = l + 2") auto
qed (use arr_D [OF assms(1), of "l + 1"] assms in auto)

lemma auxsort_ok: "1 \<le> l \<Longrightarrow> u \<le> n \<Longrightarrow> nat (u - l + 1) < f \<Longrightarrow> sorts (auxsort f W l u) h0 n l u"
proof (induction f arbitrary: l u)
  case (Suc f l u)
  show ?case
    unfolding sorts_def
  proof (intro allI impI)
    fix a S assume a: "arr h0 n a [] S"
    show "yields (auxsort (Suc f) W l u S) (reach h0 n a [] l u (ascending l u))"
    proof (cases "l < u")
      case False
      moreover have "le (a l) (a l)" if "l = u" using arr_D [OF a, of l] Suc.prems(1,2) that le_refl by simp
      ultimately have "ascending l u a" by (auto simp: ascending_def dest!: antisym)
      then show ?thesis using a False by (auto simp: reach_def)
    next
      case lu: True
      let ?m = "(l + u) div 2"
      let ?rest2 = "\<lambda>S5 i. let ((j, k), (l', u')) = sort_halves l i u in rbind (auxsort f W j k S5) (auxsort f W l' u')"
      let ?rest = "\<lambda>S2. rbind (sort_pivot S2 ?m u) (\<lambda>S3. rbind (partition_loop W l u l (u - 1) S3) (\<lambda>(S4, i).
                 rbind (sort_swap S4 i u) (\<lambda>S5. ?rest2 S5 i)))"
      have rest2: "yields (?rest2 S5 i) (reach h0 n b [] l u (ascending l u))"
        if "arr h0 n b [] S5" "P \<in> D" "divided l u P i c"
          "b i = P \<and> (\<forall>k. l \<le> k \<longrightarrow> k < i \<longrightarrow> le (b k) P) \<and> (\<forall>k. i < k \<longrightarrow> k \<le> u \<longrightarrow> le P (b k))" for S5 i b P c
      proof -
        have i: "l < i" "i < u" using that(3) by (auto simp: divided_def)
        have "sorts (auxsort f W l (i - 1)) h0 n l (i - 1)" "sorts (auxsort f W (i + 1) u) h0 n (i + 1) u"
          by (rule Suc.IH; use i Suc.prems in simp)+
        note h = sort_halves_ok [OF that(1) i Suc.prems(1,2) _ that(2) _ _ this, simplified that(4), OF refl]
        show ?thesis using h that(4) by (simp add: sort_halves_def)
      qed
      have rest: "yields (?rest S2) (reach h0 n b [] l u (ascending l u))"
        if b: "arr h0 n b [] S2" "le (b l) (b ?m) \<and> le (b ?m) (b u)" "l + 2 < u" for b S2
      proof -
        have m: "l < ?m" "?m < u - 1" using b(3) by auto
        let ?P = "b ?m"
        have D: "?P \<in> D" using arr_D [OF b(1)] m Suc.prems(1,2) by simp
        have "yields (sort_pivot S2 ?m u) (reach h0 n b [?P] l u (\<lambda>c. c = swap_at b ?m (u - 1)))"
          by (rule sort_pivot_ok [OF b(1)]) (use m lu Suc.prems in auto)
        then show ?thesis
        proof (rule yields_bind)
          fix S3 assume "reach h0 n b [?P] l u (\<lambda>c. c = swap_at b ?m (u - 1)) S3"
          then have c: "arr h0 n (swap_at b ?m (u - 1)) [?P] S3" "rearranged l u b (swap_at b ?m (u - 1))" by (auto simp: reach_def)
          have "swap_at b ?m (u - 1) l = b l" "swap_at b ?m (u - 1) u = b u" "swap_at b ?m (u - 1) (u - 1) = ?P"
            using m by (auto simp: swap_at_apply)
          then have dv: "dividing l u ?P l (u - 1) (swap_at b ?m (u - 1))"
            unfolding dividing_def using b(2,3) le_refl [OF D]
            by (auto simp: le_less_Suc_eq dest!: antisym)
          show "yields (rbind (partition_loop W l u l (u - 1) S3) (\<lambda>(S4, i). rbind (sort_swap S4 i u) (\<lambda>S5. ?rest2 S5 i)))
              (reach h0 n b [] l u (ascending l u))"
          proof (rule yields_bind [OF partition_loop_ok [OF c(1) D Suc.prems(1,2) dv]], clarify)
            fix S4 i assume "reach h0 n (swap_at b ?m (u - 1)) [] l u (divided l u ?P i) S4"
            then obtain d where d: "arr h0 n d [] S4" "rearranged l u (swap_at b ?m (u - 1)) d" "divided l u ?P i d" by (auto simp: reach_def)
            have "yields (rbind (sort_swap S4 i u) (\<lambda>S5. ?rest2 S5 i)) (reach h0 n d [] l u (ascending l u))"
              by (rule reach_trans [OF sort_swap_ok [OF d(1) Suc.prems(1,2) d(3) D]]) (rule rest2 [OF _ D d(3)])
            then show "yields (rbind (sort_swap S4 i u) (\<lambda>S5. ?rest2 S5 i)) (reach h0 n b [] l u (ascending l u))"
              by (rule yields_mono) (use rearranged_trans [OF c(2)] rearranged_trans [OF d(2)] in \<open>auto simp: reach_def\<close>)
          qed
        qed
      qed
      have "yields (auxsort (Suc f) W l u S) (reach h0 n a [] l u (ascending l u)) =
          yields (rbind (sort_ends W S l u) (\<lambda>S1. if u - l = 1 then Ok S1 else rbind (sort_middle W S1 l ?m u) (\<lambda>S2.
            if u - l = 2 then Ok S2 else ?rest S2))) (reach h0 n a [] l u (ascending l u))"
        unfolding auxsort.simps Let_def using lu by (simp only: simp_thms if_False)
      also have "\<dots>"
      proof (rule reach_trans [OF sort_ends_ok [OF a Suc.prems(1) lu Suc.prems(2)]])
        fix b S1 assume b: "arr h0 n b [] S1" "le (b l) (b u)"
        show "yields (if u - l = 1 then Ok S1 else rbind (sort_middle W S1 l ?m u) (\<lambda>S2. if u - l = 2 then Ok S2 else ?rest S2))
            (reach h0 n b [] l u (ascending l u))"
        proof (cases "u - l = 1")
          case True
          then have "ascending l u b" using ascending_two [OF b(1), of l] b(2) Suc.prems by (simp add: algebra_simps)
          then show ?thesis using True b by (auto simp: reach_def)
        next
          case False
          then have m: "l < ?m" "?m < u" using lu by auto
          have "yields (rbind (sort_middle W S1 l ?m u) (\<lambda>S2. if u - l = 2 then Ok S2 else ?rest S2)) (reach h0 n b [] l u (ascending l u))"
          proof (rule reach_trans [OF sort_middle_ok [OF b(1) Suc.prems(1) m Suc.prems(2) b(2)]])
            fix c S2 assume c: "arr h0 n c [] S2" "le (c l) (c ?m) \<and> le (c ?m) (c u)"
            show "yields (if u - l = 2 then Ok S2 else ?rest S2) (reach h0 n c [] l u (ascending l u))"
            proof (cases "u - l = 2")
              case True
              then have "u = l + 2" "?m = l + 1" by auto
              then have "ascending l u c" using ascending_three [OF c(1), of l] c(2) Suc.prems by simp
              then show ?thesis using True c by (auto simp: reach_def)
            next
              case 3: False
              have "l + 2 < u" using 3 False lu by linarith
              then show ?thesis using rest [OF c] 3 by (simp only: if_False)
            qed
          qed
          then show ?thesis using False by (simp only: if_False)
        qed
      qed
      finally show ?thesis .
    qed
  qed
qed simp

text \<open>The whole function, on a table and an order function or nil.\<close>

lemma sort_table_ok:
  assumes S: "I S" "L_stack S = VTable p # args" "args = [fn] \<or> args = [] \<and> fn = VNil" "fn = VNil \<or> ttype fn = 6"
    and h: "L_heap S p = Some h" "table_inv h" "luaH_getn h = Ok n" "n < 2 ^ 31" "\<forall>i\<in>{1..int n}. int_at h i \<in> D" and f: "n < f"
  shows "yields (sort_table f C W S) (\<lambda>(S', r). r = 0 \<and> reach h (int n) (int_at h) [] 1 (int n) (ascending 1 (int n)) S')"
proof -
  let ?S = "S\<lparr>L_stack := VTable p # fn # []\<rparr>"
  have 1: "aux_getn C S 1 = Ok (S, int n)"
    using S(2) h(1,3)
    by (simp add: aux_getn_def luaL_checktype_def api_type_def index_value_def index2adr_def lua_objlen_def get_table_def)
  have 2: "luaL_checkstack S 40 '''' = Ok ()"
    using S(2,3) by (auto simp: luaL_checkstack_def lua_checkstack_def LUAI_MAXCSTACK_def)
  obtain b where 3: "lua_isnoneornil S 2 = Ok b" "(if b then Ok () else luaL_checktype S 2 6) = Ok ()"
    using S(2-4) by (auto simp: lua_isnoneornil_def luaL_checktype_def api_type_def index_value_def index2adr_def)
  have 4: "lua_settop (L_stack S) 2 = Ok (VTable p # fn # [])"
    using S(2,3) by (auto simp: lua_settop_def numeral_2_eq_2)
  have "arr h (int n) (int_at h) [] ?S"
    using frame [OF S(1)] h by (auto simp: arr_def)
  then have "yields (auxsort f W 1 (int n) ?S) (reach h (int n) (int_at h) [] 1 (int n) (ascending 1 (int n)))"
    using auxsort_ok [of 1 "int n" "int n" f] f by (simp add: sorts_def)
  then have "yields (rbind (auxsort f W 1 (int n) ?S) (\<lambda>S3. Ok (S3, 0)))
    (\<lambda>(S', r). r = (0 :: nat) \<and> reach h (int n) (int_at h) [] 1 (int n) (ascending 1 (int n)) S')"
    by (rule yields_bind) simp
  then show ?thesis by (simp add: sort_table_def 1 2 3 4)
qed

text \<open>The same with nothing of the proof left in it.\<close>

lemma sort_table_sorts:
  assumes "I S" "L_stack S = VTable p # args" "args = [fn] \<or> args = [] \<and> fn = VNil" "fn = VNil \<or> ttype fn = 6"
    "L_heap S p = Some h" "table_inv h" "luaH_getn h = Ok n" "n < 2 ^ 31" "\<forall>i\<in>{1..int n}. int_at h i \<in> D" "n < f"
  shows "\<exists>S' h'. sort_table f C W S = Ok (S', 0) \<and> L_heap S' p = Some h' \<and> table_inv h' \<and> t_metatable h' = t_metatable h \<and>
    image_mset (int_at h') (mset_set {1..int n}) = image_mset (int_at h) (mset_set {1..int n}) \<and>
    (\<forall>i j. 1 \<le> i \<longrightarrow> i \<le> j \<longrightarrow> j \<le> int n \<longrightarrow> \<not> lt (int_at h' j) (int_at h' i)) \<and>
    (\<forall>k. valid_key k \<longrightarrow> (\<forall>i\<in>{1..int n}. \<not> luaO_rawequalObj (VNum (cast_num i)) k) \<longrightarrow> table_val h' k = table_val h k)"
proof -
  obtain S' b where S': "sort_table f C W S = Ok (S', 0)" "arr h (int n) b [] S'" "rearranged 1 (int n) (int_at h) b" "ascending 1 (int n) b"
    using sort_table_ok [OF assms, of C] by (auto simp: yields_def reach_def)
  obtain h' where h': "L_heap S' p = Some h'" "table_inv h'" "t_metatable h' = t_metatable h" "\<forall>i\<in>{1..int n}. int_at h' i = b i"
      "\<forall>k. valid_key k \<longrightarrow> (\<forall>i\<in>{1..int n}. \<not> luaO_rawequalObj (VNum (cast_num i)) k) \<longrightarrow> table_val h' k = table_val h k"
    using S'(2) by (auto simp: arr_def)
  have "image_mset (int_at h') (mset_set {1..int n}) = image_mset b (mset_set {1..int n})"
    by (rule image_mset_cong) (use h'(4) in auto)
  then have "image_mset (int_at h') (mset_set {1..int n}) = image_mset (int_at h) (mset_set {1..int n})"
    using S'(3) by (simp add: rearranged_def)
  moreover have "\<not> lt (int_at h' j) (int_at h' i)" if "1 \<le> i" "i \<le> j" "j \<le> int n" for i j
    using S'(4) h'(4) that by (simp add: ascending_def le_def)
  ultimately show ?thesis using S'(1) h' by blast
qed

end

section \<open>The operator \<open><\<close> and functions as orders\<close>

definition lt_basic :: "TValue \<Rightarrow> TValue \<Rightarrow> bool" where
  "lt_basic x y = (case (x, y) of (VNum a, VNum b) \<Rightarrow> luai_numlt a b | (VStr s, VStr t) \<Rightarrow> s < t | _ \<Rightarrow> False)"

definition real_nums :: "TValue set" where
  "real_nums = {v. \<exists>x. v = VNum x \<and> \<not> dbl_isnan x}"

lemma index_opnd:
  assumes "L_stack S = t # f # st" "a \<in> {- 3.. - 1}" "- int (length st) \<le> a"
  shows "index_value S a = Ok (Some (opnd st a))"
proof -
  have "Suc (Suc (length st)) - nat (- a) = Suc (Suc (length st - nat (- a)))" using assms(2,3) by auto
  then show ?thesis using assms by (auto simp: index_value_def index2adr_def opnd_def)
qed

lemma compare_basic:
  assumes "L_stack S = VTable p # VNil # st" "a \<in> {- 3.. - 1}" "b \<in> {- 3.. - 1}" "- int (length st) \<le> a" "- int (length st) \<le> b"
    and D: "opnd st a \<in> real_nums \<and> opnd st b \<in> real_nums \<or> opnd st a \<in> range VStr \<and> opnd st b \<in> range VStr"
  shows "sort_comp W S a b = Ok (S, lt_basic (opnd st a) (opnd st b))"
proof -
  have "api_type S 2 = Ok 0" using assms(1) by (simp add: api_type_def index_value_def index2adr_def)
  moreover have "luaV_lessthan W S (opnd st a) (opnd st b) = Ok (S, lt_basic (opnd st a) (opnd st b))"
    using D by (auto simp: luaV_lessthan_def lt_basic_def real_nums_def l_strcmp_lex)
  ultimately show ?thesis
    using index_opnd [OF assms(1,2,4)] index_opnd [OF assms(1,3,5)] by (simp add: sort_comp_def lua_lessthan_def)
qed

interpretation nums: sort_order W p VNil "\<lambda>S. True" real_nums lt_basic for W p
proof unfold_locales
  show "\<exists>S'. sort_comp W S a b = Ok (S', lt_basic (opnd st a) (opnd st b)) \<and> True \<and> L_stack S' = L_stack S \<and> L_heap S' p = L_heap S p"
    if "L_stack S = VTable p # VNil # st" "a \<in> {- 3.. - 1}" "b \<in> {- 3.. - 1}" "- int (length st) \<le> a" "- int (length st) \<le> b"
      "opnd st a \<in> real_nums" "opnd st b \<in> real_nums" for S st a b
    using compare_basic [OF that(1-5)] that(6,7) by blast
qed (auto simp: real_nums_def lt_basic_def luai_numlt_def)

interpretation strs: sort_order W p VNil "\<lambda>S. True" "range VStr" lt_basic for W p
proof unfold_locales
  show "\<exists>S'. sort_comp W S a b = Ok (S', lt_basic (opnd st a) (opnd st b)) \<and> True \<and> L_stack S' = L_stack S \<and> L_heap S' p = L_heap S p"
    if "L_stack S = VTable p # VNil # st" "a \<in> {- 3.. - 1}" "b \<in> {- 3.. - 1}" "- int (length st) \<le> a" "- int (length st) \<le> b"
      "opnd st a \<in> range VStr" "opnd st b \<in> range VStr" for S st a b
    using compare_basic [OF that(1-5)] that(6,7) by blast
qed (auto simp: lt_basic_def)

text \<open>A call of the order function \<open>fn\<close> decides \<open>lt\<close> and leaves the frame and the table as they are.\<close>

definition call_decides :: "world \<Rightarrow> u32 \<Rightarrow> TValue \<Rightarrow> (lua_State \<Rightarrow> bool) \<Rightarrow> TValue set \<Rightarrow> (TValue \<Rightarrow> TValue \<Rightarrow> bool) \<Rightarrow> bool" where
  "call_decides W p fn I D lt \<longleftrightarrow>
     (\<forall>S st. I S \<longrightarrow> I (S\<lparr>L_stack := st\<rparr>)) \<and> (\<forall>S h. I S \<longrightarrow> I (put_table S p h)) \<and>
     (\<forall>S. \<forall>x\<in>D. \<forall>y\<in>D. I S \<longrightarrow> (\<exists>S' v rs. w_call W S fn [x, y] = Ok (S', v # rs) \<and> lt x y = (\<not> l_isfalse v) \<and>
        I S' \<and> L_stack S' = L_stack S \<and> L_heap S' p = L_heap S p))"

definition strict_weak_order :: "TValue set \<Rightarrow> (TValue \<Rightarrow> TValue \<Rightarrow> bool) \<Rightarrow> bool" where
  "strict_weak_order D lt \<longleftrightarrow> VNil \<notin> D \<and> (\<forall>x\<in>D. \<forall>y\<in>D. lt x y \<longrightarrow> \<not> lt y x) \<and>
     (\<forall>x\<in>D. \<forall>y\<in>D. \<forall>z\<in>D. \<not> lt y x \<longrightarrow> \<not> lt z y \<longrightarrow> \<not> lt z x)"

lemma opnd_shift:
  "a \<in> {- 3.. - 1} \<Longrightarrow> - int (length st) \<le> a \<Longrightarrow> opnd (st @ [x]) (a - 1) = opnd st a"
  "a \<in> {- 3.. - 1} \<Longrightarrow> - int (length st) \<le> a \<Longrightarrow> opnd (st @ [x, y]) (a - 2) = opnd st a"
proof -
  assume a: "a \<in> {- 3.. - 1}" "- int (length st) \<le> a"
  have "length st + 1 - nat (1 - a) = length st - nat (- a)" "length st + 2 - nat (2 - a) = length st - nat (- a)"
    "length st - nat (- a) < length st" using a by auto
  then show "opnd (st @ [x]) (a - 1) = opnd st a" "opnd (st @ [x, y]) (a - 2) = opnd st a"
    by (simp_all add: opnd_def nth_append)
qed

lemma index_low:
  assumes "L_stack S = st" "a < 0" "- 10000 < a" "- int (length st) \<le> a"
  shows "index_value S a = Ok (Some (opnd st a))"
  using assms by (auto simp: index_value_def index2adr_def opnd_def)

lemma compare_call:
  assumes c: "call_decides W p fn I D lt" "ttype fn = 6" and S: "I S" "L_stack S = VTable p # fn # st"
    and ab: "a \<in> {- 3.. - 1}" "b \<in> {- 3.. - 1}" "- int (length st) \<le> a" "- int (length st) \<le> b"
    and D: "opnd st a \<in> D" "opnd st b \<in> D"
  shows "\<exists>S'. sort_comp W S a b = Ok (S', lt (opnd st a) (opnd st b)) \<and> I S' \<and> L_stack S' = L_stack S \<and> L_heap S' p = L_heap S p"
proof -
  let ?st = "VTable p # fn # st" and ?x = "opnd st a" and ?y = "opnd st b"
  have t: "api_type S 2 = Ok 6" using S(2) c(2) by (simp add: api_type_def index_value_def index2adr_def)
  have 1: "lua_pushvalue S 2 = Ok (api_push S fn)"
    using S(2) by (simp add: lua_pushvalue_def api_value_def index_value_def index2adr_def)
  have o1: "opnd ?st a = ?x" "opnd ?st b = ?y"
    using index_opnd [OF S(2) ab(1,3)] index_opnd [OF S(2) ab(2,4)] ab index_low [OF S(2), of a] index_low [OF S(2), of b] by auto
  have 2: "lua_pushvalue (api_push S fn) (a - 1) = Ok (api_push (api_push S fn) ?x)"
    using index_low [of "api_push S fn" "?st @ [fn]" "a - 1"] S(2) ab opnd_shift(1) [of a ?st fn] o1
    by (simp add: lua_pushvalue_def api_value_def)
  have 3: "lua_pushvalue (api_push (api_push S fn) ?x) (b - 2) = Ok (api_push (api_push (api_push S fn) ?x) ?y)"
    using index_low [of "api_push (api_push S fn) ?x" "?st @ [fn, ?x]" "b - 2"] S(2) ab opnd_shift(2) [of b ?st fn ?x] o1
    by (simp add: lua_pushvalue_def api_value_def)
  obtain S1 v rs where w: "w_call W S fn [?x, ?y] = Ok (S1, v # rs)" "lt ?x ?y = (\<not> l_isfalse v)" "I S1" "L_stack S1 = L_stack S"
      "L_heap S1 p = L_heap S p"
    using c(1) S(1) D unfolding call_decides_def by metis
  let ?S4 = "S1\<lparr>L_stack := ?st @ [v]\<rparr>"
  have e: "S\<lparr>L_stack := ?st\<rparr> = S" using S(2) [symmetric] by simp
  have w': "w_call W (S\<lparr>L_stack := ?st\<rparr>) fn [?x, ?y] = Ok (S1, v # rs)" by (simp only: e w(1))
  have 4: "lua_call W (api_push (api_push (api_push S fn) ?x) ?y) 2 1 = Ok ?S4"
    using S(2) w(1,4) by (simp add: lua_call_def luaD_call_def adjust_results_def api_push_def nth_append Let_def w')
  have 5: "lua_toboolean (L_stack ?S4) (- 1) = Ok (lt ?x ?y)" using w(2) by (simp add: lua_toboolean_def index2adr_def)
  have 6: "api_pop ?S4 1 = Ok (S1\<lparr>L_stack := ?st\<rparr>)" by (simp add: api_pop_def lua_pop_append)
  have "sort_comp W S a b = Ok (S1\<lparr>L_stack := ?st\<rparr>, lt ?x ?y)"
    unfolding sort_comp_def t rbind_simps 1 2 3 4 5 6 by simp
  then show ?thesis using w(3,5) S(2) c(1) by (auto simp: call_decides_def)
qed

lemma call_sort_order:
  assumes "call_decides W p fn I D lt" "ttype fn = 6" "strict_weak_order D lt"
  shows "sort_order W p fn I D lt"
proof unfold_locales
  show "\<exists>S'. sort_comp W S a b = Ok (S', lt (opnd st a) (opnd st b)) \<and> I S' \<and> L_stack S' = L_stack S \<and> L_heap S' p = L_heap S p"
    if "I S" "L_stack S = VTable p # fn # st" "a \<in> {- 3.. - 1}" "b \<in> {- 3.. - 1}" "- int (length st) \<le> a" "- int (length st) \<le> b"
      "opnd st a \<in> D" "opnd st b \<in> D" for S st a b
    by (rule compare_call [OF assms(1,2) that])
qed (use assms(1,3) in \<open>unfold call_decides_def strict_weak_order_def, blast\<close>)+

section \<open>The sort\<close>

text \<open>What \<open>table.sort\<close> has done to the table \<open>h\<close>: the values at 1 to \<open>n\<close> are the same as before, in ascending order; the rest of the
table is as it was.\<close>

definition sorted_table :: "(TValue \<Rightarrow> TValue \<Rightarrow> bool) \<Rightarrow> nat \<Rightarrow> Table \<Rightarrow> Table \<Rightarrow> bool" where
  "sorted_table lt n h h' \<longleftrightarrow> table_inv h' \<and> t_metatable h' = t_metatable h \<and>
    image_mset (int_at h') (mset_set {1..int n}) = image_mset (int_at h) (mset_set {1..int n}) \<and>
    (\<forall>i j. 1 \<le> i \<longrightarrow> i \<le> j \<longrightarrow> j \<le> int n \<longrightarrow> \<not> lt (int_at h' j) (int_at h' i)) \<and>
    (\<forall>k. valid_key k \<longrightarrow> (\<forall>i\<in>{1..int n}. \<not> luaO_rawequalObj (VNum (cast_num i)) k) \<longrightarrow> table_val h' k = table_val h k)"

text \<open>C10: \<open>table.sort\<close> with the operator \<open><\<close> sorts a table of numbers that are no NaNs, or a table of strings: it ends within as many
turns as there are elements, raises no error, and the table has the same values in ascending order.\<close>

theorem sort_sorts:
  assumes "L_stack S = [VTable p]" "L_heap S p = Some h" "table_inv h" "luaH_getn h = Ok n" "n < 2 ^ 31"
    and "(\<forall>i\<in>{1..int n}. int_at h i \<in> real_nums) \<or> (\<forall>i\<in>{1..int n}. int_at h i \<in> range VStr)" and "n < f"
  shows "\<exists>S' h'. sort_table f C W S = Ok (S', 0) \<and> L_heap S' p = Some h' \<and> sorted_table lt_basic n h h'"
  using assms(6)
proof
  assume "\<forall>i\<in>{1..int n}. int_at h i \<in> real_nums"
  then show ?thesis
    using nums.sort_table_sorts [OF TrueI assms(1) _ _ assms(2-5), of f C W] assms(7) by (simp add: sorted_table_def)
next
  assume "\<forall>i\<in>{1..int n}. int_at h i \<in> range VStr"
  then show ?thesis
    using strs.sort_table_sorts [OF TrueI assms(1) _ _ assms(2-5), of f C W] assms(7) by (simp add: sorted_table_def)
qed

text \<open>C19: \<open>table.sort\<close> with an order function sorts by that function, if its calls decide a strict weak order on the values and leave the
table and the frame as they are.\<close>

theorem sort_by_function:
  assumes "L_stack S = [VTable p, fn]" "ttype fn = 6" "call_decides W p fn I D lt" "strict_weak_order D lt" "I S"
    and "L_heap S p = Some h" "table_inv h" "luaH_getn h = Ok n" "n < 2 ^ 31" "\<forall>i\<in>{1..int n}. int_at h i \<in> D" "n < f"
  shows "\<exists>S' h'. sort_table f C W S = Ok (S', 0) \<and> L_heap S' p = Some h' \<and> sorted_table lt n h h'"
  using sort_order.sort_table_sorts [OF call_sort_order [OF assms(3,2,4)] assms(5,1) _ _ assms(6-11), of C] assms(2)
  by (simp add: sorted_table_def)

text \<open>A table with given values.\<close>

lemma list_table:
  assumes "vs \<noteq> []" "last vs \<noteq> VNil" "length vs < 2 ^ 26"
  obtains h where "table_inv h" "luaH_getn h = Ok (length vs)" "\<And>i. i \<in> {1..int (length vs)} \<Longrightarrow> int_at h i = vs ! (nat i - 1)"
proof -
  let ?n = "length vs"
  have "?n \<le> MAXASIZE" "?n < 2 ^ 30" using assms(3) by (simp_all add: MAXASIZE_def MAXBITS_def)
  from array_table_ex [OF this] obtain h where h: "table_inv h" "\<forall>i<?n. int_val h (Suc i) = vs ! i" "t_sizearray h = ?n" "t_isdummy h"
    by (elim exE conjE) (rule that)
  have n: "0 < ?n" using assms(1) by simp
  have at: "int_val h i = vs ! (i - 1)" if "1 \<le> i" "i \<le> ?n" for i
    using h(2) [rule_format, of "i - 1"] that by simp
  have "t_array h ! (?n - 1) \<noteq> VNil"
    using int_val_array [OF h(1), of ?n] at [of ?n] n h(3) assms(2) last_conv_nth [OF assms(1)] by simp
  then have "luaH_getn h = Ok ?n" using h(3,4) unfolding luaH_getn_def Let_def by auto
  moreover have "int_at h i = vs ! (nat i - 1)" if "i \<in> {1..int ?n}" for i
    proof -
      have "1 \<le> nat i" "nat i \<le> ?n" "int (nat i) = i" using that by auto
      then show ?thesis using at [of "nat i"] by (simp add: int_at_def)
    qed
  ultimately show thesis using that [OF h(1)] by blast
qed

definition example_state :: "u32 \<Rightarrow> Table \<Rightarrow> TValue list \<Rightarrow> lua_State" where
  "example_state p h st = \<lparr>L_stack = st, L_heap = (\<lambda>_. None)(p \<mapsto> h), L_gt = VNil, L_registry = VNil, L_env = VNil, L_upvals = [],
     L_mt = (\<lambda>_. 0), L_umt = (\<lambda>_. 0), L_ulen = (\<lambda>_. 0), L_vm = stack_init\<rparr>"

theorem sort_sorts_witness:
  "\<forall>C W. \<exists>h S' h'. sort_table 4 C W (example_state 1 h [VTable 1]) = Ok (S', 0) \<and> L_heap S' 1 = Some h' \<and>
     int_at h 1 = VStr ''b'' \<and> int_at h 3 = VStr ''a'' \<and> sorted_table lt_basic 3 h h'"
proof (intro allI)
  fix C W
  let ?vs = "[VStr ''b'', VStr ''c'', VStr ''a'']"
  obtain h where h: "table_inv h" "luaH_getn h = Ok (length ?vs)" "\<And>i. i \<in> {1..int (length ?vs)} \<Longrightarrow> int_at h i = ?vs ! (nat i - 1)"
    by (rule list_table [of ?vs]) simp_all
  have "{1..3} = {1, 2, 3 :: int}" by auto
  then have "\<forall>i\<in>{1..int 3}. int_at h i \<in> range VStr" using h(3) by simp
  then show "\<exists>h S' h'. sort_table 4 C W (example_state 1 h [VTable 1]) = Ok (S', 0) \<and> L_heap S' 1 = Some h' \<and>
      int_at h 1 = VStr ''b'' \<and> int_at h 3 = VStr ''a'' \<and> sorted_table lt_basic 3 h h'"
    using sort_sorts [of "example_state 1 h [VTable 1]" 1 h 3 4 C W] h(1,2) h(3) [of 1] h(3) [of 3] by (auto simp: example_state_def)
qed

text \<open>A world in which a call compares two strings, the greater first.\<close>

definition greater_world :: "world \<Rightarrow> world" where
  "greater_world W = W\<lparr>w_call := \<lambda>S f args. case args of [VStr a, VStr b] \<Rightarrow> Ok (S, [VBool (b < a)]) | _ \<Rightarrow> Ok (S, [VBool False])\<rparr>"

theorem sort_by_function_witness:
  "\<forall>C W. \<exists>h S' h'. sort_table 4 C (greater_world W) (example_state 1 h [VTable 1, VFun 5]) = Ok (S', 0) \<and> L_heap S' 1 = Some h' \<and>
     int_at h 1 = VStr ''b'' \<and> int_at h 3 = VStr ''a'' \<and> sorted_table (\<lambda>x y. lt_basic y x) 3 h h'"
proof (intro allI)
  fix C W
  let ?vs = "[VStr ''b'', VStr ''c'', VStr ''a'']"
  obtain h where h: "table_inv h" "luaH_getn h = Ok (length ?vs)" "\<And>i. i \<in> {1..int (length ?vs)} \<Longrightarrow> int_at h i = ?vs ! (nat i - 1)"
    by (rule list_table [of ?vs]) simp_all
  have "{1..3} = {1, 2, 3 :: int}" by auto
  then have D: "\<forall>i\<in>{1..int 3}. int_at h i \<in> range VStr" using h(3) by simp
  have "call_decides (greater_world W) 1 (VFun 5) (\<lambda>S. True) (range VStr) (\<lambda>x y. lt_basic y x)"
    by (auto simp: call_decides_def greater_world_def lt_basic_def l_isfalse_def)
  moreover have "strict_weak_order (range VStr) (\<lambda>x y. lt_basic y x)"
    by (auto simp: strict_weak_order_def lt_basic_def)
  ultimately show "\<exists>h S' h'. sort_table 4 C (greater_world W) (example_state 1 h [VTable 1, VFun 5]) = Ok (S', 0) \<and> L_heap S' 1 = Some h' \<and>
      int_at h 1 = VStr ''b'' \<and> int_at h 3 = VStr ''a'' \<and> sorted_table (\<lambda>x y. lt_basic y x) 3 h h'"
    using sort_by_function [of "example_state 1 h [VTable 1, VFun 5]" 1 "VFun 5" "greater_world W" "\<lambda>S. True" "range VStr" "\<lambda>x y. lt_basic y x" h 3 4 C]
      h(1,2) h(3) [of 1] h(3) [of 3] D by (auto simp: example_state_def)
qed

end
