(* ===== verification/LuaDo.thy ===== *)
theory LuaDo
  imports LuaVm LuaCheck
begin

text \<open>
  Upvalues (lfunc.c) and the call and return of functions (ldo.c). A frame \<open>L_stack\<close> of a C function ends at
  the top of the stack. A frame of a Lua function reaches up to the top that its record of the call (\<open>ci_top\<close>)
  gives, and \<open>vm_top\<close> is the top. The cells above the top are written before compiled code reads them; what is in
  them after a call is the parameter \<open>m_stale\<close>. The parameters also give the C functions by name and the addresses
  of new objects. The size of the array of the stack has no bound but the memory and is left out, as are hooks; coroutines
  only end here, with the answer \<open>PCRYIELD\<close>.
\<close>

record machine =
  m_C :: libc
  m_cfun :: "string \<Rightarrow> world \<Rightarrow> lua_State \<Rightarrow> (lua_State \<times> int) res"
  m_stale :: "lua_State \<Rightarrow> nat \<Rightarrow> TValue"
  m_newclosure :: "lua_State \<Rightarrow> u32"
  m_newupval :: "lua_State \<Rightarrow> u32"

section \<open>The cells of the stack\<close>

definition base_of :: "lua_State \<Rightarrow> nat" where "base_of S = length (vm_below (L_vm S))"
definition cells :: "lua_State \<Rightarrow> TValue list" where "cells S = vm_below (L_vm S) @ L_stack S"

definition cell_get :: "lua_State \<Rightarrow> nat \<Rightarrow> TValue res" where
  "cell_get S i = aget (cells S) i"

text \<open>The frame begins at \<open>b\<close>.\<close>

definition with_cells :: "lua_State \<Rightarrow> nat \<Rightarrow> TValue list \<Rightarrow> lua_State" where
  "with_cells S b cs = S\<lparr>L_stack := drop b cs, L_vm := (L_vm S)\<lparr>vm_below := take b cs\<rparr>\<rparr>"

definition cell_set :: "lua_State \<Rightarrow> nat \<Rightarrow> TValue \<Rightarrow> lua_State res" where
  "cell_set S i v = rbind (aset (cells S) i v) (\<lambda>cs. Ok (with_cells S (base_of S) cs))"

section \<open>Upvalues\<close>

definition upval_level :: "(u32 \<Rightarrow> UpVal option) \<Rightarrow> u32 \<Rightarrow> nat res" where
  "upval_level U p = (case U p of Some (UpOpen l) \<Rightarrow> Ok l | _ \<Rightarrow> Fail (Undefined ''not an open upvalue''))"

definition get_upval :: "lua_State \<Rightarrow> u32 \<Rightarrow> TValue res" where
  "get_upval S p =
     (case vm_upval (L_vm S) p of
        Some (UpOpen l) \<Rightarrow> cell_get S l
      | Some (UpClosed v) \<Rightarrow> Ok v
      | None \<Rightarrow> Fail (Undefined ''dangling upvalue''))"

definition set_upval :: "lua_State \<Rightarrow> u32 \<Rightarrow> TValue \<Rightarrow> lua_State res" where
  "set_upval S p v =
     (case vm_upval (L_vm S) p of
        Some (UpOpen l) \<Rightarrow> cell_set S l v
      | Some (UpClosed _) \<Rightarrow> Ok (S\<lparr>L_vm := (L_vm S)\<lparr>vm_upval := (vm_upval (L_vm S))(p \<mapsto> UpClosed v)\<rparr>\<rparr>)
      | None \<Rightarrow> Fail (Undefined ''dangling upvalue''))"

text \<open>The search in the list of open upvalues, where the levels fall: the upvalue that is found, or the list with the
new one \<open>q\<close> in its place.\<close>

primrec findupval_loop :: "(u32 \<Rightarrow> UpVal option) \<Rightarrow> nat \<Rightarrow> u32 \<Rightarrow> u32 list \<Rightarrow> (u32 option \<times> u32 list) res" where
  "findupval_loop U level q [] = Ok (None, [q])"
| "findupval_loop U level q (p # ps) =
     rbind (upval_level U p) (\<lambda>l.
       if level \<le> l then
         (if l = level then Ok (Some p, p # ps)
          else rbind (findupval_loop U level q ps) (\<lambda>(r, qs). Ok (r, p # qs)))
       else Ok (None, q # p # ps))"

definition luaF_findupval :: "machine \<Rightarrow> lua_State \<Rightarrow> nat \<Rightarrow> (lua_State \<times> u32) res" where
  "luaF_findupval M S level =
     (let q = m_newupval M S; V = L_vm S in
      rbind (findupval_loop (vm_upval V) level q (vm_openupval V)) (\<lambda>(r, ps).
        case r of
          Some p \<Rightarrow> Ok (S, p)
        | None \<Rightarrow> Ok (S\<lparr>L_vm := V\<lparr>vm_upval := (vm_upval V)(q \<mapsto> UpOpen level), vm_openupval := ps\<rparr>\<rparr>, q)))"

primrec close_loop :: "nat \<Rightarrow> u32 list \<Rightarrow> lua_State \<Rightarrow> lua_State res" where
  "close_loop level [] S = Ok (S\<lparr>L_vm := (L_vm S)\<lparr>vm_openupval := []\<rparr>\<rparr>)"
| "close_loop level (p # ps) S =
     rbind (upval_level (vm_upval (L_vm S)) p) (\<lambda>l.
       if level \<le> l then
         rbind (cell_get S l) (\<lambda>v.
           close_loop level ps (S\<lparr>L_vm := (L_vm S)\<lparr>vm_upval := (vm_upval (L_vm S))(p \<mapsto> UpClosed v)\<rparr>\<rparr>))
       else Ok (S\<lparr>L_vm := (L_vm S)\<lparr>vm_openupval := p # ps\<rparr>\<rparr>))"

definition luaF_close :: "lua_State \<Rightarrow> nat \<Rightarrow> lua_State res" where
  "luaF_close S level = close_loop level (vm_openupval (L_vm S)) S"

section \<open>Closures\<close>

definition closure_at :: "lua_State \<Rightarrow> u32 \<Rightarrow> Closure res" where
  "closure_at S p = (case vm_closure (L_vm S) p of None \<Rightarrow> Fail (Undefined ''dangling closure'') | Some c \<Rightarrow> Ok c)"

definition put_closure :: "lua_State \<Rightarrow> u32 \<Rightarrow> Closure \<Rightarrow> lua_State" where
  "put_closure S p c = S\<lparr>L_vm := (L_vm S)\<lparr>vm_closure := (vm_closure (L_vm S))(p \<mapsto> c)\<rparr>\<rparr>"

definition clvalue :: "TValue \<Rightarrow> u32 res" where
  "clvalue v = (case v of VFun p \<Rightarrow> Ok p | _ \<Rightarrow> Fail (Undefined ''not a function''))"

definition current_ci :: "lua_State \<Rightarrow> CallInfo res" where
  "current_ci S = (case vm_ci (L_vm S) of [] \<Rightarrow> Fail (Undefined ''no call'') | ci # _ \<Rightarrow> Ok ci)"

text \<open>\<open>curr_func\<close>.\<close>

definition curr_func :: "lua_State \<Rightarrow> u32 res" where
  "curr_func S = rbind (current_ci S) (\<lambda>ci. rbind (cell_get S (ci_func ci)) clvalue)"

text \<open>While a C function runs, its environment and its upvalues are the fields \<open>L_env\<close> and \<open>L_upvals\<close> of the state;
they go back to the closure before something else runs, and come from there after it.\<close>

definition save_cclosure :: "lua_State \<Rightarrow> lua_State" where
  "save_cclosure S =
     (case curr_func S of
        Inl _ \<Rightarrow> S
      | Inr p \<Rightarrow>
          (case vm_closure (L_vm S) p of
             Some (CClosure f e u) \<Rightarrow> put_closure S p (CClosure f (L_env S) (L_upvals S))
           | _ \<Rightarrow> S))"

definition load_cclosure :: "lua_State \<Rightarrow> lua_State" where
  "load_cclosure S =
     (case curr_func S of
        Inl _ \<Rightarrow> S
      | Inr p \<Rightarrow>
          (case vm_closure (L_vm S) p of
             Some (CClosure f e u) \<Rightarrow> S\<lparr>L_env := e, L_upvals := u\<rparr>
           | _ \<Rightarrow> S))"

section \<open>The records of the calls\<close>

definition growCI :: "lua_State \<Rightarrow> lua_State res" where
  "growCI S =
     (let V = L_vm S in
      if LUAI_MAXCALLS < vm_size_ci V then Fail (LuaError ''error in error handling'')
      else if LUAI_MAXCALLS < 2 * vm_size_ci V then Fail (LuaError ''stack overflow'')
      else Ok (S\<lparr>L_vm := V\<lparr>vm_size_ci := 2 * vm_size_ci V\<rparr>\<rparr>))"

text \<open>\<open>inc_ci\<close> and the new record.\<close>

definition push_ci :: "lua_State \<Rightarrow> CallInfo \<Rightarrow> lua_State res" where
  "push_ci S ci =
     rbind (if length (vm_ci (L_vm S)) = vm_size_ci (L_vm S) then growCI S else Ok S) (\<lambda>S1.
       Ok (S1\<lparr>L_vm := (L_vm S1)\<lparr>vm_ci := ci # vm_ci (L_vm S1)\<rparr>\<rparr>))"

text \<open>\<open>L->ci->savedpc = L->savedpc\<close>.\<close>

definition save_pc :: "lua_State \<Rightarrow> lua_State" where
  "save_pc S =
     (let V = L_vm S in
      case vm_ci V of [] \<Rightarrow> S | ci # rest \<Rightarrow> S\<lparr>L_vm := V\<lparr>vm_ci := ci\<lparr>ci_savedpc := vm_savedpc V\<rparr> # rest\<rparr>\<rparr>)"

section \<open>Calls\<close>

text \<open>The place \<open>k\<close> of the function counts from the base of the frame, which ends at the top.\<close>

definition tryfuncTM :: "lua_State \<Rightarrow> nat \<Rightarrow> lua_State res" where
  "tryfuncTM S k =
     rbind (st_get S k) (\<lambda>f. rbind (luaT_gettmbyobj S f TM_CALL) (\<lambda>tm.
       if \<not> is_function tm then luaG_typeerror f ''call''
       else Ok (S\<lparr>L_stack := take k (L_stack S) @ tm # drop k (L_stack S)\<rparr>)))"

text \<open>The \<open>arg\<close> table of an old-style vararg function: the extra arguments and their number.\<close>

definition arg_table :: "TValue list \<Rightarrow> Table res" where
  "arg_table xs =
     rbind (luaH_new (length xs) 1) (\<lambda>h.
     rbind (foldM (\<lambda>i h. rbind (luaH_setnum h (int i + 1)) (\<lambda>(h1, s). Ok (slot_set h1 s (xs ! i)))) [0..<length xs] h) (\<lambda>h1.
     rbind (luaH_setstr h1 ''n'') (\<lambda>(h2, s). Ok (slot_set h2 s (VNum (cast_num (int (length xs))))))))"

text \<open>The arguments where they were, with the fixed ones cleared, and the cells at the new base.\<close>

definition adjust_varargs :: "world \<Rightarrow> lua_State \<Rightarrow> Proto \<Rightarrow> TValue list \<Rightarrow> (lua_State \<times> TValue list \<times> TValue list) res" where
  "adjust_varargs W S p args =
     (let nfix = unat (p_numparams p);
          args = args @ replicate (nfix - length args) VNil;
          old = replicate nfix VNil @ drop nfix args in
      if p_is_vararg p AND VARARG_NEEDSARG \<noteq> 0 then
        rbind (arg_table (drop nfix args)) (\<lambda>h.
          let q = w_newtable W S in Ok (put_table S q h, old, take nfix args @ [VTable q]))
      else Ok (S, old, take nfix args))"

datatype pcr = PCRLUA | PCRC | PCRYIELD

definition luaD_poscall :: "lua_State \<Rightarrow> nat \<Rightarrow> (lua_State \<times> bool) res" where
  "luaD_poscall S first =
     (case vm_ci (L_vm S) of
        ci # prev # rest \<Rightarrow>
          (let cs = take (ci_func ci) (cells S) @ adjust_results (ci_nresults ci) (drop first (L_stack S));
               S1 = with_cells S (ci_base prev) cs
           in Ok (S1\<lparr>L_vm := (L_vm S1)\<lparr>vm_ci := prev # rest, vm_savedpc := ci_savedpc prev, vm_top := length cs\<rparr>\<rparr>,
                  ci_nresults ci \<noteq> LUA_MULTRET))
      | _ \<Rightarrow> Fail (Undefined ''no caller''))"

text \<open>A Lua function: the frame holds the parameters and is filled with nil.\<close>

definition precall_lua :: "world \<Rightarrow> lua_State \<Rightarrow> nat \<Rightarrow> Proto \<Rightarrow> int \<Rightarrow> lua_State res" where
  "precall_lua W S k p nresults =
     (let args = drop (k + 1) (L_stack S) in
      rbind (if p_is_vararg p = 0 then Ok (S, [], take (unat (p_numparams p)) args) else adjust_varargs W S p args) (\<lambda>(S1, old, params).
        let below = vm_below (L_vm S) @ take (k + 1) (L_stack S) @ old;
            n = unat (p_maxstacksize p)
        in rbind (push_ci S1 \<lparr>ci_func = base_of S + k, ci_base = length below, ci_top = length below + n,
                    ci_nresults = nresults, ci_savedpc = 0, ci_tailcalls = 0\<rparr>) (\<lambda>S2.
             Ok (S2\<lparr>L_stack := take n (params @ replicate n VNil),
                    L_vm := (L_vm S2)\<lparr>vm_below := below, vm_savedpc := 0, vm_top := length below + n\<rparr>\<rparr>))))"

definition precall_c :: "machine \<Rightarrow> world \<Rightarrow> lua_State \<Rightarrow> nat \<Rightarrow> string \<Rightarrow> TValue \<Rightarrow> TValue list \<Rightarrow> int \<Rightarrow> (lua_State \<times> pcr) res" where
  "precall_c M W S k f env ups nresults =
     (let tp = base_of S + length (L_stack S) in
      rbind (push_ci S \<lparr>ci_func = base_of S + k, ci_base = base_of S + k + 1, ci_top = tp + LUA_MINSTACK,
               ci_nresults = nresults, ci_savedpc = 0, ci_tailcalls = 0\<rparr>) (\<lambda>S1.
      rbind (m_cfun M f W ((with_cells S1 (base_of S + k + 1) (cells S))\<lparr>L_env := env, L_upvals := ups\<rparr>)) (\<lambda>(S2, n).
        if n < 0 then Ok (S2, PCRYIELD)
        else if length (L_stack S2) < nat n then Fail (Undefined ''more results than values'')
        else rbind (luaD_poscall (save_cclosure S2) (length (L_stack S2) - nat n)) (\<lambda>(S3, _). Ok (S3, PCRC)))))"

definition luaD_precall :: "machine \<Rightarrow> world \<Rightarrow> lua_State \<Rightarrow> nat \<Rightarrow> int \<Rightarrow> (lua_State \<times> pcr) res" where
  "luaD_precall M W S k nresults =
     rbind (st_get S k) (\<lambda>f.
     rbind (if is_function f then Ok S else tryfuncTM S k) (\<lambda>S1.
     rbind (st_get S1 k) (\<lambda>f. rbind (clvalue f) (\<lambda>q. rbind (closure_at S1 q) (\<lambda>cl.
       case cl of
         LClosure p env ups \<Rightarrow> rbind (precall_lua W (save_pc S1) k p nresults) (\<lambda>S2. Ok (S2, PCRLUA))
       | CClosure f env ups \<Rightarrow> precall_c M W (save_pc S1) k f env ups nresults)))))"

text \<open>The frame of a Lua function after a call: up to the top of its record, which is the top again unless
the number of results is open.\<close>

definition resume_frame :: "machine \<Rightarrow> bool \<Rightarrow> lua_State \<Rightarrow> lua_State res" where
  "resume_frame M fixed S =
     rbind (current_ci S) (\<lambda>ci.
       let n = ci_top ci - base_of S;
           st = L_stack S @ map (m_stale M S) [length (L_stack S)..<n]
       in Ok (if fixed then S\<lparr>L_stack := take n st, L_vm := (L_vm S)\<lparr>vm_top := ci_top ci\<rparr>\<rparr> else S\<lparr>L_stack := st\<rparr>))"

end
