(* ===== verification/LuaExec.thy ===== *)
theory LuaExec
  imports LuaDo
begin

text \<open>
  The interpreter: \<open>luaV_execute\<close> (lvm.c) and \<open>luaD_call\<close> (ldo.c). Each opcode has its own definition over the
  state, in which \<open>vm_savedpc\<close> is the index of the next instruction. The registers of the running function are the cells of
  its frame. The loop has a bound on the number of instructions, because a Lua program may go on for ever, and
  \<open>luaD_call\<close> one on the depth of nested calls from C, which the code itself bounds. Metamethods and iterators are called
  through \<open>w_call\<close>; at the end of the theory \<open>luaD_call\<close> itself takes that place.
\<close>

section \<open>Operands\<close>

definition reg :: "int \<Rightarrow> nat" where "reg x = nat x"

text \<open>\<open>RKB\<close> and \<open>RKC\<close>.\<close>

definition rk :: "lua_State \<Rightarrow> Proto \<Rightarrow> int \<Rightarrow> TValue res" where
  "rk S p x = (if ISK x then k_at p (INDEXK x) else st_get S (reg x))"

text \<open>What comes next: an instruction of this function, the function that was called, the one that a tail call has put in the
place of this one, the caller (with the top to restore or not), or nothing, because the function yielded.\<close>

datatype flow = Continue nat | Called | Tailed | Returned bool | Yielded

definition dojump :: "int \<Rightarrow> int \<Rightarrow> nat res" where
  "dojump pc d = (if pc + d < 0 then Fail (Undefined ''jump before the code'') else Ok (nat (pc + d)))"

text \<open>The registers from \<open>a\<close>; the frame grows when they reach behind its end.\<close>

definition set_range :: "lua_State \<Rightarrow> nat \<Rightarrow> TValue list \<Rightarrow> lua_State res" where
  "set_range S a vs =
     (let st = L_stack S in
      if length st < a then Fail (Undefined ''register out of range'')
      else Ok (S\<lparr>L_stack := take a st @ vs @ drop (a + length vs) st\<rparr>))"

section \<open>Moves, constants and upvalues\<close>

text \<open>The loop of \<open>OP_LOADNIL\<close> goes down and runs once at least.\<close>

function loadnil_loop :: "lua_State \<Rightarrow> nat \<Rightarrow> nat \<Rightarrow> lua_State res" where
  "loadnil_loop S ra rb =
     rbind (st_set S rb VNil) (\<lambda>S1. if 0 < rb \<and> ra \<le> rb - 1 then loadnil_loop S1 ra (rb - 1) else Ok S1)"
  by pat_completeness auto
termination
  by (relation "measure (\<lambda>(S, ra, rb). rb)") auto

declare loadnil_loop.simps [simp del]

definition exec_move :: "lua_State \<Rightarrow> int \<Rightarrow> int \<Rightarrow> lua_State res" where
  "exec_move S a b = rbind (st_get S (reg b)) (st_set S (reg a))"

definition exec_loadk :: "lua_State \<Rightarrow> Proto \<Rightarrow> int \<Rightarrow> int \<Rightarrow> lua_State res" where
  "exec_loadk S p a bx = rbind (k_at p bx) (st_set S (reg a))"

definition exec_getupval :: "lua_State \<Rightarrow> u32 list \<Rightarrow> int \<Rightarrow> int \<Rightarrow> lua_State res" where
  "exec_getupval S ups a b = rbind (aget ups (nat b)) (\<lambda>u. rbind (get_upval S u) (st_set S (reg a)))"

definition exec_setupval :: "lua_State \<Rightarrow> u32 list \<Rightarrow> int \<Rightarrow> int \<Rightarrow> lua_State res" where
  "exec_setupval S ups a b = rbind (aget ups (nat b)) (\<lambda>u. rbind (st_get S (reg a)) (set_upval S u))"

section \<open>Tables\<close>

definition exec_getglobal :: "world \<Rightarrow> lua_State \<Rightarrow> Proto \<Rightarrow> TValue \<Rightarrow> int \<Rightarrow> int \<Rightarrow> lua_State res" where
  "exec_getglobal W S p env a bx =
     rbind (k_at p bx) (\<lambda>k. rbind (luaV_gettable W S env k) (\<lambda>(S1, v). st_set S1 (reg a) v))"

definition exec_setglobal :: "world \<Rightarrow> lua_State \<Rightarrow> Proto \<Rightarrow> TValue \<Rightarrow> int \<Rightarrow> int \<Rightarrow> lua_State res" where
  "exec_setglobal W S p env a bx =
     rbind (k_at p bx) (\<lambda>k. rbind (st_get S (reg a)) (\<lambda>v. luaV_settable W S env k v))"

definition exec_gettable :: "world \<Rightarrow> lua_State \<Rightarrow> Proto \<Rightarrow> int \<Rightarrow> int \<Rightarrow> int \<Rightarrow> lua_State res" where
  "exec_gettable W S p a b c =
     rbind (st_get S (reg b)) (\<lambda>t. rbind (rk S p c) (\<lambda>k. rbind (luaV_gettable W S t k) (\<lambda>(S1, v). st_set S1 (reg a) v)))"

definition exec_settable :: "world \<Rightarrow> lua_State \<Rightarrow> Proto \<Rightarrow> int \<Rightarrow> int \<Rightarrow> int \<Rightarrow> lua_State res" where
  "exec_settable W S p a b c =
     rbind (st_get S (reg a)) (\<lambda>t. rbind (rk S p b) (\<lambda>k. rbind (rk S p c) (\<lambda>v. luaV_settable W S t k v)))"

definition exec_newtable :: "world \<Rightarrow> lua_State \<Rightarrow> int \<Rightarrow> int \<Rightarrow> int \<Rightarrow> lua_State res" where
  "exec_newtable W S a b c =
     rbind (luaH_new (luaO_fb2int (nat b)) (luaO_fb2int (nat c))) (\<lambda>h.
       let q = w_newtable W S in st_set (put_table S q h) (reg a) (VTable q))"

definition exec_self :: "world \<Rightarrow> lua_State \<Rightarrow> Proto \<Rightarrow> int \<Rightarrow> int \<Rightarrow> int \<Rightarrow> lua_State res" where
  "exec_self W S p a b c =
     rbind (st_get S (reg b)) (\<lambda>t. rbind (st_set S (reg a + 1) t) (\<lambda>S1.
     rbind (st_get S1 (reg b)) (\<lambda>t. rbind (rk S1 p c) (\<lambda>k.
       rbind (luaV_gettable W S1 t k) (\<lambda>(S2, v). st_set S2 (reg a) v)))))"

section \<open>Arithmetic\<close>

definition exec_arith :: "libc \<Rightarrow> world \<Rightarrow> lua_State \<Rightarrow> Proto \<Rightarrow> TMS \<Rightarrow> int \<Rightarrow> int \<Rightarrow> int \<Rightarrow> lua_State res" where
  "exec_arith C W S p tm a b c =
     rbind (rk S p b) (\<lambda>rb. rbind (rk S p c) (\<lambda>rc.
       case (rb, rc) of
         (VNum nb, VNum nc) \<Rightarrow> rbind (arith_op C tm nb nc) (\<lambda>n. st_set S (reg a) (VNum n))
       | _ \<Rightarrow> rbind (Arith C W S rb rc tm) (\<lambda>(S1, v). st_set S1 (reg a) v)))"

definition exec_unm :: "libc \<Rightarrow> world \<Rightarrow> lua_State \<Rightarrow> int \<Rightarrow> int \<Rightarrow> lua_State res" where
  "exec_unm C W S a b =
     rbind (st_get S (reg b)) (\<lambda>rb.
       case rb of
         VNum nb \<Rightarrow> st_set S (reg a) (VNum (luai_numunm nb))
       | _ \<Rightarrow> rbind (Arith C W S rb rb TM_UNM) (\<lambda>(S1, v). st_set S1 (reg a) v))"

definition exec_not :: "lua_State \<Rightarrow> int \<Rightarrow> int \<Rightarrow> lua_State res" where
  "exec_not S a b = rbind (st_get S (reg b)) (\<lambda>v. st_set S (reg a) (VBool (l_isfalse v)))"

definition exec_len :: "world \<Rightarrow> lua_State \<Rightarrow> int \<Rightarrow> int \<Rightarrow> lua_State res" where
  "exec_len W S a b =
     rbind (st_get S (reg b)) (\<lambda>rb.
       case rb of
         VTable q \<Rightarrow> rbind (get_table S q) (\<lambda>h. rbind (luaH_getn h) (\<lambda>n. st_set S (reg a) (VNum (cast_num (int n)))))
       | VStr s \<Rightarrow> st_set S (reg a) (VNum (cast_num (int (length s))))
       | _ \<Rightarrow> rbind (call_binTM W S rb VNil TM_LEN) (\<lambda>(S1, r).
           case r of Some v \<Rightarrow> st_set S1 (reg a) v | None \<Rightarrow> luaG_typeerror rb ''get length of''))"

definition exec_concat :: "libc \<Rightarrow> world \<Rightarrow> lua_State \<Rightarrow> int \<Rightarrow> int \<Rightarrow> int \<Rightarrow> lua_State res" where
  "exec_concat C W S a b c =
     rbind (luaV_concat C W S (nat (c - b + 1)) (nat c)) (\<lambda>S1. rbind (st_get S1 (reg b)) (st_set S1 (reg a)))"

section \<open>Jumps\<close>

text \<open>A test: the jump that follows is taken or skipped.\<close>

definition branch :: "Proto \<Rightarrow> nat \<Rightarrow> bool \<Rightarrow> nat res" where
  "branch p pc c =
     (if c then rbind (code_at p (int pc)) (\<lambda>j. rbind (dojump (int pc) (GETARG_sBx j)) (\<lambda>n. Ok (n + 1))) else Ok (pc + 1))"

definition exec_compare :: "(lua_State \<Rightarrow> TValue \<Rightarrow> TValue \<Rightarrow> (lua_State \<times> bool) res) \<Rightarrow> lua_State \<Rightarrow> Proto \<Rightarrow> int \<Rightarrow> int \<Rightarrow> int \<Rightarrow> nat
    \<Rightarrow> (lua_State \<times> nat) res" where
  "exec_compare cmp S p a b c pc =
     rbind (rk S p b) (\<lambda>rb. rbind (rk S p c) (\<lambda>rc. rbind (cmp S rb rc) (\<lambda>(S1, r).
       rbind (branch p pc ((if r then 1 else 0) = a)) (\<lambda>n. Ok (S1, n)))))"

definition exec_test :: "lua_State \<Rightarrow> Proto \<Rightarrow> int \<Rightarrow> int \<Rightarrow> nat \<Rightarrow> (lua_State \<times> nat) res" where
  "exec_test S p a c pc =
     rbind (st_get S (reg a)) (\<lambda>v. rbind (branch p pc ((if l_isfalse v then 1 else 0) \<noteq> c)) (\<lambda>n. Ok (S, n)))"

definition exec_testset :: "lua_State \<Rightarrow> Proto \<Rightarrow> int \<Rightarrow> int \<Rightarrow> int \<Rightarrow> nat \<Rightarrow> (lua_State \<times> nat) res" where
  "exec_testset S p a b c pc =
     rbind (st_get S (reg b)) (\<lambda>v.
       let go = ((if l_isfalse v then 1 else 0) \<noteq> c) in
       rbind (if go then st_set S (reg a) v else Ok S) (\<lambda>S1. rbind (branch p pc go) (\<lambda>n. Ok (S1, n))))"

section \<open>Calls and returns\<close>

text \<open>A call overwrites the registers from the function on. Compiled code closes the upvalues there before; a call while one is
open (which would let a callee change the place of a running function) is outside of this model.\<close>

definition none_open :: "lua_State \<Rightarrow> nat \<Rightarrow> unit res" where
  "none_open S k =
     (if list_all (\<lambda>p. case vm_upval (L_vm S) p of Some (UpOpen l) \<Rightarrow> l < base_of S + k | _ \<Rightarrow> True) (vm_openupval (L_vm S)) then Ok ()
      else Fail (Undefined ''call below an open upvalue''))"

text \<open>The frame cut at the top that the instruction sets, or at the one that the instruction before it has set.\<close>

definition cut_frame :: "lua_State \<Rightarrow> nat \<Rightarrow> int \<Rightarrow> int \<Rightarrow> lua_State res" where
  "cut_frame S a b n =
     (let tp = (if b \<noteq> 0 then nat n else vm_top (L_vm S) - base_of S) in
      if tp < a \<or> length (L_stack S) < tp then Fail (Undefined ''top out of range'')
      else Ok (S\<lparr>L_stack := take tp (L_stack S)\<rparr>))"

definition exec_call :: "machine \<Rightarrow> world \<Rightarrow> lua_State \<Rightarrow> int \<Rightarrow> int \<Rightarrow> int \<Rightarrow> nat \<Rightarrow> (lua_State \<times> flow) res" where
  "exec_call M W S a b c pc =
     rbind (none_open S (reg a)) (\<lambda>_.
     rbind (cut_frame S (reg a + 1) b (a + b)) (\<lambda>S1. rbind (luaD_precall M W S1 (reg a) (c - 1)) (\<lambda>(S2, r).
       case r of
         PCRLUA \<Rightarrow> Ok (S2, Called)
       | PCRC \<Rightarrow> rbind (resume_frame M (0 \<le> c - 1) S2) (\<lambda>S3. Ok (S3, Continue pc))
       | PCRYIELD \<Rightarrow> Ok (S2, Yielded))))"

text \<open>The new frame moves down to the place of the function that it replaces.\<close>

definition replace_frame :: "lua_State \<Rightarrow> lua_State res" where
  "replace_frame S =
     (case vm_ci (L_vm S) of
        new # ci # rest \<Rightarrow>
          rbind (if vm_openupval (L_vm S) \<noteq> [] then luaF_close S (ci_base ci) else Ok S) (\<lambda>S1.
            let cs = take (ci_func ci) (cells S1) @ drop (ci_func new) (cells S1);
                b = ci_func ci + (ci_base new - ci_func new);
                S2 = with_cells S1 b cs;
                ci' = ci\<lparr>ci_base := b, ci_top := length cs, ci_savedpc := vm_savedpc (L_vm S1), ci_tailcalls := ci_tailcalls ci + 1\<rparr>
            in Ok (S2\<lparr>L_vm := (L_vm S2)\<lparr>vm_ci := ci' # rest, vm_top := length cs\<rparr>\<rparr>))
      | _ \<Rightarrow> Fail (Undefined ''no caller''))"

definition exec_tailcall :: "machine \<Rightarrow> world \<Rightarrow> lua_State \<Rightarrow> int \<Rightarrow> int \<Rightarrow> nat \<Rightarrow> (lua_State \<times> flow) res" where
  "exec_tailcall M W S a b pc =
     rbind (none_open S (reg a)) (\<lambda>_.
     rbind (cut_frame S (reg a + 1) b (a + b)) (\<lambda>S1. rbind (luaD_precall M W S1 (reg a) LUA_MULTRET) (\<lambda>(S2, r).
       case r of
         PCRLUA \<Rightarrow> rbind (replace_frame S2) (\<lambda>S3. Ok (S3, Tailed))
       | PCRC \<Rightarrow> rbind (resume_frame M False S2) (\<lambda>S3. Ok (S3, Continue pc))
       | PCRYIELD \<Rightarrow> Ok (S2, Yielded))))"

definition exec_return :: "lua_State \<Rightarrow> int \<Rightarrow> int \<Rightarrow> (lua_State \<times> flow) res" where
  "exec_return S a b =
     rbind (cut_frame S 0 b (a + b - 1)) (\<lambda>S1.
     rbind (if vm_openupval (L_vm S) \<noteq> [] then luaF_close S (base_of S) else Ok S) (\<lambda>S2.
     rbind (luaD_poscall (S2\<lparr>L_stack := L_stack S1\<rparr>) (reg a)) (\<lambda>(S3, fixed). Ok (S3, Returned fixed))))"

section \<open>Loops\<close>

definition nvalue :: "TValue \<Rightarrow> lua_Number res" where
  "nvalue v = (case v of VNum n \<Rightarrow> Ok n | _ \<Rightarrow> Fail (Undefined ''not a number''))"

definition exec_forloop :: "lua_State \<Rightarrow> int \<Rightarrow> int \<Rightarrow> nat \<Rightarrow> (lua_State \<times> nat) res" where
  "exec_forloop S a sbx pc =
     rbind (rbind (st_get S (reg a + 2)) nvalue) (\<lambda>step.
     rbind (rbind (st_get S (reg a)) nvalue) (\<lambda>init.
     rbind (rbind (st_get S (reg a + 1)) nvalue) (\<lambda>limit.
       let idx = luai_numadd init step in
       if (if luai_numlt 0 step then luai_numle idx limit else luai_numle limit idx) then
         rbind (dojump (int pc) sbx) (\<lambda>n.
         rbind (st_set S (reg a) (VNum idx)) (\<lambda>S1. rbind (st_set S1 (reg a + 3) (VNum idx)) (\<lambda>S2. Ok (S2, n))))
       else Ok (S, pc))))"

text \<open>The macro \<open>tonumber\<close>, which converts a string in place.\<close>

definition for_number :: "lua_State \<Rightarrow> nat \<Rightarrow> string \<Rightarrow> (lua_State \<times> lua_Number) res" where
  "for_number S r what =
     rbind (st_get S r) (\<lambda>v.
       case luaV_tonumber v of
         None \<Rightarrow> Fail (LuaError ([CHR 0x27] @ ''for'' @ [CHR 0x27] @ '' '' @ what @ '' must be a number''))
       | Some n \<Rightarrow> rbind (st_set S r (VNum n)) (\<lambda>S1. Ok (S1, n)))"

definition exec_forprep :: "lua_State \<Rightarrow> int \<Rightarrow> int \<Rightarrow> nat \<Rightarrow> (lua_State \<times> nat) res" where
  "exec_forprep S a sbx pc =
     rbind (for_number S (reg a) ''initial value'') (\<lambda>(S1, init).
     rbind (for_number S1 (reg a + 1) ''limit'') (\<lambda>(S2, limit).
     rbind (for_number S2 (reg a + 2) ''step'') (\<lambda>(S3, step).
     rbind (st_set S3 (reg a) (VNum (luai_numsub init step))) (\<lambda>S4.
     rbind (dojump (int pc) sbx) (\<lambda>n. Ok (S4, n))))))"

text \<open>The iterator is called with the state and the control variable; the call is at register \<open>a + 3\<close>.\<close>

definition exec_tforloop :: "machine \<Rightarrow> world \<Rightarrow> lua_State \<Rightarrow> Proto \<Rightarrow> int \<Rightarrow> int \<Rightarrow> nat \<Rightarrow> (lua_State \<times> nat) res" where
  "exec_tforloop M W S p a c pc =
     (let cb = reg a + 3 in
      rbind (st_get S (reg a)) (\<lambda>f. rbind (st_get S (reg a + 1)) (\<lambda>s. rbind (st_get S (reg a + 2)) (\<lambda>v.
      rbind (none_open S cb) (\<lambda>_.
      rbind (luaD_call W (S\<lparr>L_stack := take cb (L_stack S)\<rparr>) f [s, v] c) (\<lambda>(S1, rs).
      rbind (resume_frame M True (S1\<lparr>L_stack := L_stack S1 @ rs\<rparr>)) (\<lambda>S2.
      rbind (st_get S2 cb) (\<lambda>w.
      rbind (if w \<noteq> VNil then st_set S2 (cb - 1) w else Ok S2) (\<lambda>S3.
      rbind (branch p pc (w \<noteq> VNil)) (\<lambda>n. Ok (S3, n)))))))))))"

section \<open>Tables, closures and extra arguments\<close>

text \<open>The elements are stored from the last to the first. A list of more than \<open>MAXASIZE\<close> elements (1 GB of values) is outside
of this model: the code would make an array larger than the rest of ltable.c allows.\<close>

primrec setlist_loop :: "nat \<Rightarrow> int \<Rightarrow> lua_State \<Rightarrow> nat \<Rightarrow> Table \<Rightarrow> Table res" where
  "setlist_loop 0 lst S ra h = Ok h"
| "setlist_loop (Suc n) lst S ra h =
     rbind (st_get S (ra + Suc n)) (\<lambda>v. rbind (luaH_setnum h lst) (\<lambda>(h1, s).
       setlist_loop n (lst - 1) S ra (slot_set h1 s v)))"

definition exec_setlist :: "lua_State \<Rightarrow> Proto \<Rightarrow> int \<Rightarrow> int \<Rightarrow> int \<Rightarrow> nat \<Rightarrow> (lua_State \<times> nat) res" where
  "exec_setlist S p a b c pc =
     rbind (current_ci S) (\<lambda>ci.
     let open_n = int (vm_top (L_vm S) - base_of S) - a - 1;
         S1 = (if b = 0 then S\<lparr>L_vm := (L_vm S)\<lparr>vm_top := ci_top ci\<rparr>\<rparr> else S);
         n = (if b = 0 then open_n else b) in
     rbind (if c = 0 then rbind (code_at p (int pc)) (\<lambda>w. Ok (sint w, pc + 1)) else Ok (c, pc)) (\<lambda>(c, pc).
     rbind (st_get S1 (reg a)) (\<lambda>t.
       case t of
         VTable q \<Rightarrow>
           (let lst = (c - 1) * LFIELDS_PER_FLUSH + n in
            if (c - 1) * LFIELDS_PER_FLUSH < - (2 ^ 31) \<or> int MAXASIZE < lst then Fail (Undefined ''list too long'')
            else
              rbind (get_table S1 q) (\<lambda>h.
              rbind (if int (length (t_array h)) < lst then luaH_resizearray h (nat lst) else Ok h) (\<lambda>h1.
              rbind (setlist_loop (nat n) lst S1 (reg a) h1) (\<lambda>h2.
                Ok ((put_table S1 q h2)\<lparr>L_stack := take (ci_top ci - base_of S) (L_stack S1)\<rparr>, pc)))))
       | _ \<Rightarrow> Fail (Undefined ''not a table''))))"

text \<open>The words after \<open>OP_CLOSURE\<close> name the upvalues of the new closure.\<close>

primrec bind_upvals :: "machine \<Rightarrow> Proto \<Rightarrow> u32 list \<Rightarrow> nat \<Rightarrow> nat \<Rightarrow> lua_State \<Rightarrow> (lua_State \<times> u32 list) res" where
  "bind_upvals M p ups 0 pc S = Ok (S, [])"
| "bind_upvals M p ups (Suc n) pc S =
     rbind (code_at p (int pc)) (\<lambda>i.
     rbind (if op_is i OP_GETUPVAL then rbind (aget ups (nat (GETARG_B i))) (\<lambda>u. Ok (S, u))
            else luaF_findupval M S (base_of S + reg (GETARG_B i))) (\<lambda>(S1, u).
     rbind (bind_upvals M p ups n (pc + 1) S1) (\<lambda>(S2, us). Ok (S2, u # us))))"

definition exec_closure :: "machine \<Rightarrow> lua_State \<Rightarrow> Proto \<Rightarrow> TValue \<Rightarrow> u32 list \<Rightarrow> int \<Rightarrow> int \<Rightarrow> nat \<Rightarrow> (lua_State \<times> nat) res" where
  "exec_closure M S p env ups a bx pc =
     rbind (proto_at p bx) (\<lambda>p1.
       let nup = unat (p_nups p1); q = m_newclosure M S in
       rbind (bind_upvals M p ups nup pc S) (\<lambda>(S1, us).
       rbind (st_set (put_closure S1 q (LClosure p1 env us)) (reg a) (VFun q)) (\<lambda>S2. Ok (S2, pc + nup))))"

text \<open>The extra arguments lie below the base, behind the fixed ones.\<close>

definition exec_vararg :: "lua_State \<Rightarrow> Proto \<Rightarrow> int \<Rightarrow> int \<Rightarrow> lua_State res" where
  "exec_vararg S p a b =
     rbind (current_ci S) (\<lambda>ci.
       let below = vm_below (L_vm S);
           n = int (ci_base ci) - int (ci_func ci) - uint (p_numparams p) - 1;
           arg = (\<lambda>j. if int j < n then below ! (length below - nat n + j) else VNil) in
       if b - 1 = LUA_MULTRET then
         (if n < 0 then Fail (Undefined ''top out of range'')
          else rbind (set_range S (reg a) (map arg [0..<nat n])) (\<lambda>S1.
            Ok (S1\<lparr>L_vm := (L_vm S1)\<lparr>vm_top := base_of S + reg a + nat n\<rparr>\<rparr>)))
       else if length (L_stack S) < reg a + nat (b - 1) then Fail (Undefined ''register out of range'')
       else set_range S (reg a) (map arg [0..<nat (b - 1)]))"

section \<open>The loop\<close>

abbreviation goes_on :: "nat \<Rightarrow> lua_State res \<Rightarrow> (lua_State \<times> flow) res" where
  "goes_on pc r \<equiv> rbind r (\<lambda>S. Ok (S, Continue pc))"

abbreviation goes_to :: "(lua_State \<times> nat) res \<Rightarrow> (lua_State \<times> flow) res" where
  "goes_to r \<equiv> rbind r (\<lambda>(S, n). Ok (S, Continue n))"

definition exec_op :: "machine \<Rightarrow> world \<Rightarrow> lua_State \<Rightarrow> Proto \<Rightarrow> TValue \<Rightarrow> u32 list \<Rightarrow> OpCode \<Rightarrow> Instruction \<Rightarrow> nat \<Rightarrow> (lua_State \<times> flow) res" where
  "exec_op M W S p env ups op i pc =
     (let a = GETARG_A i; b = GETARG_B i; c = GETARG_C i; bx = GETARG_Bx i; sbx = GETARG_sBx i; C = m_C M in
      case op of
        OP_MOVE \<Rightarrow> goes_on pc (exec_move S a b)
      | OP_LOADK \<Rightarrow> goes_on pc (exec_loadk S p a bx)
      | OP_LOADBOOL \<Rightarrow> goes_on (if c \<noteq> 0 then pc + 1 else pc) (st_set S (reg a) (VBool (b \<noteq> 0)))
      | OP_LOADNIL \<Rightarrow> goes_on pc (loadnil_loop S (reg a) (reg b))
      | OP_GETUPVAL \<Rightarrow> goes_on pc (exec_getupval S ups a b)
      | OP_GETGLOBAL \<Rightarrow> goes_on pc (exec_getglobal W S p env a bx)
      | OP_GETTABLE \<Rightarrow> goes_on pc (exec_gettable W S p a b c)
      | OP_SETGLOBAL \<Rightarrow> goes_on pc (exec_setglobal W S p env a bx)
      | OP_SETUPVAL \<Rightarrow> goes_on pc (exec_setupval S ups a b)
      | OP_SETTABLE \<Rightarrow> goes_on pc (exec_settable W S p a b c)
      | OP_NEWTABLE \<Rightarrow> goes_on pc (exec_newtable W S a b c)
      | OP_SELF \<Rightarrow> goes_on pc (exec_self W S p a b c)
      | OP_ADD \<Rightarrow> goes_on pc (exec_arith C W S p TM_ADD a b c)
      | OP_SUB \<Rightarrow> goes_on pc (exec_arith C W S p TM_SUB a b c)
      | OP_MUL \<Rightarrow> goes_on pc (exec_arith C W S p TM_MUL a b c)
      | OP_DIV \<Rightarrow> goes_on pc (exec_arith C W S p TM_DIV a b c)
      | OP_MOD \<Rightarrow> goes_on pc (exec_arith C W S p TM_MOD a b c)
      | OP_POW \<Rightarrow> goes_on pc (exec_arith C W S p TM_POW a b c)
      | OP_UNM \<Rightarrow> goes_on pc (exec_unm C W S a b)
      | OP_NOT \<Rightarrow> goes_on pc (exec_not S a b)
      | OP_LEN \<Rightarrow> goes_on pc (exec_len W S a b)
      | OP_CONCAT \<Rightarrow> goes_on pc (exec_concat C W S a b c)
      | OP_JMP \<Rightarrow> rbind (dojump (int pc) sbx) (\<lambda>n. Ok (S, Continue n))
      | OP_EQ \<Rightarrow> goes_to (exec_compare (equalobj W) S p a b c pc)
      | OP_LT \<Rightarrow> goes_to (exec_compare (luaV_lessthan W) S p a b c pc)
      | OP_LE \<Rightarrow> goes_to (exec_compare (lessequal W) S p a b c pc)
      | OP_TEST \<Rightarrow> goes_to (exec_test S p a c pc)
      | OP_TESTSET \<Rightarrow> goes_to (exec_testset S p a b c pc)
      | OP_CALL \<Rightarrow> exec_call M W S a b c pc
      | OP_TAILCALL \<Rightarrow> exec_tailcall M W S a b pc
      | OP_RETURN \<Rightarrow> exec_return S a b
      | OP_FORLOOP \<Rightarrow> goes_to (exec_forloop S a sbx pc)
      | OP_FORPREP \<Rightarrow> goes_to (exec_forprep S a sbx pc)
      | OP_TFORLOOP \<Rightarrow> goes_to (exec_tforloop M W S p a c pc)
      | OP_SETLIST \<Rightarrow> goes_to (exec_setlist S p a b c pc)
      | OP_CLOSE \<Rightarrow> goes_on pc (luaF_close S (base_of S + reg a))
      | OP_CLOSURE \<Rightarrow> goes_to (exec_closure M S p env ups a bx pc)
      | OP_VARARG \<Rightarrow> goes_on pc (exec_vararg S p a b))"

definition set_pc :: "lua_State \<Rightarrow> nat \<Rightarrow> lua_State" where
  "set_pc S pc = S\<lparr>L_vm := (L_vm S)\<lparr>vm_savedpc := pc\<rparr>\<rparr>"

text \<open>One turn of the loop in the closure at \<open>q\<close>.\<close>

definition vm_step :: "machine \<Rightarrow> world \<Rightarrow> u32 \<Rightarrow> lua_State \<Rightarrow> (lua_State \<times> flow) res" where
  "vm_step M W q S =
     rbind (closure_at S q) (\<lambda>cl.
       case cl of
         CClosure f e u \<Rightarrow> Fail (Undefined ''not a Lua function'')
       | LClosure p env ups \<Rightarrow>
           (let pc = vm_savedpc (L_vm S) in
            rbind (code_at p (int pc)) (\<lambda>i.
              case opcode_of (GET_OPCODE i) of
                None \<Rightarrow> Fail (Undefined ''invalid opcode'')
              | Some op \<Rightarrow> exec_op M W (set_pc S (pc + 1)) p env ups op i (pc + 1))))"

text \<open>\<open>n\<close> is \<open>nexeccalls\<close>.\<close>

primrec luaV_execute :: "machine \<Rightarrow> world \<Rightarrow> nat \<Rightarrow> nat \<Rightarrow> u32 \<Rightarrow> lua_State \<Rightarrow> lua_State res" where
  "luaV_execute M W 0 n q S = Fail NoFuel"
| "luaV_execute M W (Suc k) n q S =
     rbind (vm_step M W q S) (\<lambda>(S1, fl).
       case fl of
         Continue pc \<Rightarrow> luaV_execute M W k n q (set_pc S1 pc)
       | Called \<Rightarrow> rbind (curr_func S1) (\<lambda>q1. luaV_execute M W k (n + 1) q1 S1)
       | Tailed \<Rightarrow> rbind (curr_func S1) (\<lambda>q1. luaV_execute M W k n q1 S1)
       | Returned fixed \<Rightarrow>
           if n \<le> 1 then Ok S1
           else rbind (resume_frame M fixed S1) (\<lambda>S2. rbind (curr_func S2) (\<lambda>q1. luaV_execute M W k (n - 1) q1 S2))
       | Yielded \<Rightarrow> Ok S1)"

section \<open>Calls from C\<close>

definition count_Ccall :: "lua_State \<Rightarrow> lua_State res" where
  "count_Ccall S =
     (let n = vm_nCcalls (L_vm S) + 1 in
      if n = LUAI_MAXCCALLS then Fail (LuaError ''C stack overflow'')
      else if LUAI_MAXCCALLS + LUAI_MAXCCALLS div 8 \<le> n then Fail (LuaError ''error in error handling'')
      else Ok (S\<lparr>L_vm := (L_vm S)\<lparr>vm_nCcalls := n\<rparr>\<rparr>))"

text \<open>The function and its arguments go on the stack; all the results come back. \<open>d\<close> bounds the depth of nested calls and
\<open>k\<close> the instructions of one run of the interpreter.\<close>

primrec luaD_call_rec :: "machine \<Rightarrow> world \<Rightarrow> nat \<Rightarrow> nat \<Rightarrow> lua_State \<Rightarrow> TValue \<Rightarrow> TValue list \<Rightarrow> (lua_State \<times> TValue list) res" where
  "luaD_call_rec M W k 0 S f args = Fail NoFuel"
| "luaD_call_rec M W k (Suc d) S f args =
     (let V = W\<lparr>w_call := luaD_call_rec M W k d\<rparr>; i = length (L_stack S) in
      rbind (count_Ccall (save_cclosure S)) (\<lambda>S1.
      rbind (luaD_precall M V (S1\<lparr>L_stack := L_stack S1 @ f # args\<rparr>) i LUA_MULTRET) (\<lambda>(S2, r).
      rbind (if r = PCRLUA then rbind (curr_func S2) (\<lambda>q. luaV_execute M V k 1 q S2) else Ok S2) (\<lambda>S3.
        if length (vm_ci (L_vm S3)) \<noteq> length (vm_ci (L_vm S)) then Fail (Undefined ''yield across a C call'')
        else Ok (load_cclosure (S3\<lparr>L_stack := take i (L_stack S3), L_vm := (L_vm S3)\<lparr>vm_nCcalls := vm_nCcalls (L_vm S3) - 1\<rparr>\<rparr>),
            drop i (L_stack S3))))))"

text \<open>The world in which calls are run by the interpreter.\<close>

definition vm_world :: "machine \<Rightarrow> world \<Rightarrow> nat \<Rightarrow> world" where
  "vm_world M W k = W\<lparr>w_call := luaD_call_rec M W k (LUAI_MAXCCALLS + LUAI_MAXCCALLS div 8)\<rparr>"

end
