(* ===== verification/LuaExecProps.thy ===== *)
theory LuaExecProps
  imports LuaExec
begin

text \<open>
  What closures and calls promise. An upvalue is a variable: closures that capture the same register share it, and
  closing it, when its function ends, changes no value that can be read through it. A call puts the arguments into the
  first registers of the function, and its return puts the results where the function was and leaves the rest of the
  caller as it was.
\<close>

section \<open>The open upvalues\<close>

fun falling :: "nat list \<Rightarrow> bool" where
  "falling (x # y # xs) \<longleftrightarrow> y < x \<and> falling (y # xs)"
| "falling _ \<longleftrightarrow> True"

definition levels :: "lua_State \<Rightarrow> nat list" where
  "levels S = map (\<lambda>p. case vm_upval (L_vm S) p of Some (UpOpen l) \<Rightarrow> l | _ \<Rightarrow> 0) (vm_openupval (L_vm S))"

text \<open>The list holds the open upvalues, with falling levels, and each refers to a cell of the stack.\<close>

definition upvals_ok :: "lua_State \<Rightarrow> bool" where
  "upvals_ok S \<longleftrightarrow> distinct (vm_openupval (L_vm S)) \<and> falling (levels S) \<and>
     (\<forall>p. p \<in> set (vm_openupval (L_vm S)) \<longleftrightarrow> (\<exists>l. vm_upval (L_vm S) p = Some (UpOpen l))) \<and>
     (\<forall>p l. vm_upval (L_vm S) p = Some (UpOpen l) \<longrightarrow> l < length (cells S))"

lemma falling_Cons: "falling (x # xs) \<longleftrightarrow> falling xs \<and> (\<forall>y \<in> set xs. y < x)"
  by (induction xs arbitrary: x) auto

lemma upvals_okD:
  assumes "upvals_ok S"
  shows "distinct (vm_openupval (L_vm S))" "falling (levels S)"
    "p \<in> set (vm_openupval (L_vm S)) \<longleftrightarrow> (\<exists>l. vm_upval (L_vm S) p = Some (UpOpen l))"
    "vm_upval (L_vm S) p = Some (UpOpen l) \<Longrightarrow> l < length (cells S)"
  using assms by (auto simp: upvals_ok_def)

lemma upval_level_Ok: "upval_level U p = Ok l \<longleftrightarrow> U p = Some (UpOpen l)"
  by (simp add: upval_level_def split: option.split UpVal.split)

text \<open>The search finds the upvalue of the level, or puts the new one in its place.\<close>

lemma findupval_loop_spec:
  assumes "\<forall>p \<in> set ps. \<exists>l. U p = Some (UpOpen l)" "falling (map lev ps)" "\<forall>p l. U p = Some (UpOpen l) \<longrightarrow> lev p = l"
  shows "\<exists>r qs. findupval_loop U level q ps = Ok (r, qs) \<and>
    (case r of Some p \<Rightarrow> p \<in> set ps \<and> U p = Some (UpOpen level)
     | None \<Rightarrow> level \<notin> lev ` set ps \<and> set qs = insert q (set ps) \<and> (q \<notin> set ps \<longrightarrow> distinct ps \<longrightarrow> distinct qs) \<and>
         (q \<notin> set ps \<longrightarrow> falling (map (lev(q := level)) qs)))"
  using assms
proof (induction ps)
  case (Cons p ps)
  then obtain l where l: "U p = Some (UpOpen l)" "lev p = l" by auto
  then have ul: "upval_level U p = Ok l" by (simp add: upval_level_Ok)
  have low: "falling (map lev ps)" "\<forall>y \<in> set ps. lev y < l" using Cons.prems(2) l by (auto simp: falling_Cons)
  consider (above) "l < level" | (here) "l = level" | (below) "level < l" by linarith
  then show ?case
  proof cases
    case above
    have "falling (map (lev(q := level)) (q # p # ps))" if "q \<notin> set (p # ps)"
    proof -
      have "map (lev(q := level)) (p # ps) = map lev (p # ps)" using that by auto
      then have m: "map (lev(q := level)) (q # p # ps) = level # map lev (p # ps)" using that by simp
      show ?thesis unfolding m falling_Cons using above l Cons.prems(2) low(2) by (auto simp: falling_Cons)
    qed
    moreover have "level \<notin> lev ` set (p # ps)" using above l low(2) by auto
    ultimately show ?thesis using above ul by auto
  next
    case here
    then show ?thesis using ul l by auto
  next
    case below
    obtain r qs where r: "findupval_loop U level q ps = Ok (r, qs)"
      "case r of Some p \<Rightarrow> p \<in> set ps \<and> U p = Some (UpOpen level)
       | None \<Rightarrow> level \<notin> lev ` set ps \<and> set qs = insert q (set ps) \<and> (q \<notin> set ps \<longrightarrow> distinct ps \<longrightarrow> distinct qs) \<and>
           (q \<notin> set ps \<longrightarrow> falling (map (lev(q := level)) qs))"
      using Cons low(1) by auto
    show ?thesis
    proof (cases r)
      case None
      have "falling (map (lev(q := level)) (p # qs))" if "q \<notin> set (p # ps)"
        using r(2) None that low(2) below l by (auto simp: falling_Cons)
      then show ?thesis using r None ul below l by auto
    qed (use r ul below in auto)
  qed
qed simp

definition lev_of :: "(u32 \<Rightarrow> UpVal option) \<Rightarrow> u32 \<Rightarrow> nat" where
  "lev_of U p = (case U p of Some (UpOpen l) \<Rightarrow> l | _ \<Rightarrow> 0)"

lemma levels_lev: "levels S = map (lev_of (vm_upval (L_vm S))) (vm_openupval (L_vm S))"
  by (simp add: levels_def lev_of_def fun_eq_iff)

lemma set_open [simp]:
  "cells (S\<lparr>L_vm := (L_vm S)\<lparr>vm_openupval := ps\<rparr>\<rparr>) = cells S" "base_of (S\<lparr>L_vm := (L_vm S)\<lparr>vm_openupval := ps\<rparr>\<rparr>) = base_of S"
  "cells (S\<lparr>L_vm := (L_vm S)\<lparr>vm_upval := U\<rparr>\<rparr>) = cells S" "base_of (S\<lparr>L_vm := (L_vm S)\<lparr>vm_upval := U\<rparr>\<rparr>) = base_of S"
  "cells (S\<lparr>L_vm := (L_vm S)\<lparr>vm_upval := U, vm_openupval := ps\<rparr>\<rparr>) = cells S"
  by (simp_all add: cells_def base_of_def)

lemma falling_inj: "falling (map g ps) \<Longrightarrow> inj_on g (set ps)"
proof (induction ps)
  case (Cons p ps)
  then have "inj_on g (set ps)" "g p \<notin> g ` set ps" by (auto simp: falling_Cons)
  then show ?case by (auto simp: inj_on_insert)
qed simp

lemma open_inj:
  assumes "upvals_ok S" "vm_upval (L_vm S) p = Some (UpOpen l)" "vm_upval (L_vm S) q = Some (UpOpen l)"
  shows "p = q"
proof -
  have "p \<in> set (vm_openupval (L_vm S))" "q \<in> set (vm_openupval (L_vm S))" using upvals_okD(3) [OF assms(1)] assms(2,3) by blast+
  moreover have "lev_of (vm_upval (L_vm S)) p = lev_of (vm_upval (L_vm S)) q" using assms(2,3) by (simp add: lev_of_def)
  ultimately show ?thesis
    using falling_inj upvals_okD(2) [OF assms(1)] unfolding levels_lev by (meson inj_onD)
qed

text \<open>C15: capturing a register gives the one open upvalue of that cell: the one that another closure has made before, or a new
one; nothing else changes and the open upvalues stay in order.\<close>

theorem findupval_shares:
  assumes "upvals_ok S" and "level < length (cells S)" and "vm_upval (L_vm S) (m_newupval M S) = None"
  shows "\<exists>S' p. luaF_findupval M S level = Ok (S', p) \<and> upvals_ok S' \<and> cells S' = cells S \<and>
    (\<forall>q. vm_upval (L_vm S') q = Some (UpOpen level) \<longleftrightarrow> q = p) \<and>
    (\<forall>q. vm_upval (L_vm S) q \<noteq> None \<longrightarrow> vm_upval (L_vm S') q = vm_upval (L_vm S) q) \<and>
    (\<forall>q. vm_upval (L_vm S) q = Some (UpOpen level) \<longrightarrow> S' = S)"
proof -
  let ?U = "vm_upval (L_vm S)" and ?o = "vm_openupval (L_vm S)" and ?q = "m_newupval M S"
  note ok = upvals_okD [OF assms(1)]
  have new: "?q \<notin> set ?o" using ok(3) assms(3) by auto
  have inj: "p = p'" if "?U p = Some (UpOpen l)" "?U p' = Some (UpOpen l)" for p p' l
    by (rule open_inj [OF assms(1) that])
  obtain r qs where f: "findupval_loop ?U level ?q ?o = Ok (r, qs)" and
    r: "case r of Some p \<Rightarrow> p \<in> set ?o \<and> ?U p = Some (UpOpen level)
     | None \<Rightarrow> level \<notin> lev_of ?U ` set ?o \<and> set qs = insert ?q (set ?o) \<and> (?q \<notin> set ?o \<longrightarrow> distinct ?o \<longrightarrow> distinct qs) \<and>
         (?q \<notin> set ?o \<longrightarrow> falling (map ((lev_of ?U)(?q := level)) qs))"
    using findupval_loop_spec [of ?o ?U "lev_of ?U" level ?q] ok(2,3) unfolding levels_lev by (auto simp: lev_of_def)
  show ?thesis
  proof (cases r)
    case (Some p)
    then have "luaF_findupval M S level = Ok (S, p)" using f by (simp add: luaF_findupval_def)
    moreover have "?U p = Some (UpOpen level)" using r Some by simp
    ultimately show ?thesis using assms(1) inj by blast
  next
    case None
    let ?S = "S\<lparr>L_vm := (L_vm S)\<lparr>vm_upval := ?U(?q \<mapsto> UpOpen level), vm_openupval := qs\<rparr>\<rparr>"
    have e: "luaF_findupval M S level = Ok (?S, ?q)" using f None by (simp add: luaF_findupval_def Let_def)
    have no: "?U p \<noteq> Some (UpOpen level)" for p
    proof
      assume u: "?U p = Some (UpOpen level)"
      then have "p \<in> set ?o" "lev_of ?U p = level" using ok(3) by (blast, simp add: lev_of_def)
      then show False using r None by auto
    qed
    have "lev_of (?U(?q \<mapsto> UpOpen level)) = (lev_of ?U)(?q := level)" by (auto simp: lev_of_def fun_eq_iff)
    then have "falling (levels ?S)" using r None new by (simp add: levels_lev)
    moreover have "distinct qs" "set qs = insert ?q (set ?o)" using r None new ok(1) by simp_all
    ultimately have k: "upvals_ok ?S"
      using ok(3,4) assms(2) unfolding upvals_ok_def by (simp add: cells_def)
    show ?thesis
      by (rule exI [of _ ?S], rule exI [of _ ?q]) (use e no assms(3) k in simp)
  qed
qed

section \<open>Closing\<close>

text \<open>The upvalues \<open>us\<close> of \<open>S0\<close> are closed in \<open>S\<close>, and the others are as they were.\<close>

definition closed_in :: "lua_State \<Rightarrow> nat \<Rightarrow> u32 list \<Rightarrow> lua_State \<Rightarrow> bool" where
  "closed_in S0 level us S \<longleftrightarrow> cells S = cells S0 \<and> base_of S = base_of S0 \<and>
     (\<forall>p. p \<notin> set us \<longrightarrow> vm_upval (L_vm S) p = vm_upval (L_vm S0) p) \<and>
     (\<forall>p \<in> set us. \<exists>l v. level \<le> l \<and> vm_upval (L_vm S0) p = Some (UpOpen l) \<and> cell_get S0 l = Ok v \<and>
        vm_upval (L_vm S) p = Some (UpClosed v))"

lemma falling_append: "falling (xs @ ys) \<Longrightarrow> falling ys"
  by (induction xs) (auto simp: falling_Cons)

lemma closed_in_open: "closed_in S0 level us (S\<lparr>L_vm := (L_vm S)\<lparr>vm_openupval := ps\<rparr>\<rparr>) = closed_in S0 level us S"
  by (simp add: closed_in_def)

lemma closed_in_step:
  assumes "closed_in S0 level us S" "p \<notin> set us" "vm_upval (L_vm S0) p = Some (UpOpen l)" "level \<le> l" "cell_get S0 l = Ok v"
  shows "closed_in S0 level (us @ [p]) (S\<lparr>L_vm := (L_vm S)\<lparr>vm_upval := (vm_upval (L_vm S))(p \<mapsto> UpClosed v)\<rparr>\<rparr>)"
  using assms by (auto simp: closed_in_def)

lemma close_loop_spec:
  assumes "vm_openupval (L_vm S0) = us @ ps" "closed_in S0 level us S" "upvals_ok S0"
  shows "\<exists>S' us' vs. close_loop level ps S = Ok S' \<and> closed_in S0 level us' S' \<and>
    vm_openupval (L_vm S0) = us' @ vs \<and> vm_openupval (L_vm S') = vs \<and>
    (\<forall>p l. p \<in> set vs \<longrightarrow> vm_upval (L_vm S0) p = Some (UpOpen l) \<longrightarrow> l < level)"
  using assms(1,2)
proof (induction ps arbitrary: us S)
  case Nil
  then show ?case by (simp add: closed_in_open)
next
  case (Cons p ps)
  note ok = upvals_okD [OF assms(3)]
  have d: "p \<notin> set us" using ok(1) Cons.prems(1) by simp
  have "p \<in> set (vm_openupval (L_vm S0))" using Cons.prems(1) by simp
  then obtain l where l: "vm_upval (L_vm S0) p = Some (UpOpen l)" "l < length (cells S0)" using ok(3,4) by blast
  then have ul: "upval_level (vm_upval (L_vm S)) p = Ok l" using Cons.prems(2) d by (simp add: upval_level_Ok closed_in_def)
  show ?case
  proof (cases "level \<le> l")
    case False
    have "falling (map (lev_of (vm_upval (L_vm S0))) (p # ps))"
      using ok(2) Cons.prems(1) falling_append by (auto simp: levels_lev)
    then have "l' < level" if "q \<in> set (p # ps)" "vm_upval (L_vm S0) q = Some (UpOpen l')" for q l'
      using that l False by (auto simp: falling_Cons lev_of_def)
    then show ?thesis
      using ul False Cons.prems closed_in_open by (intro exI [of _ "S\<lparr>L_vm := (L_vm S)\<lparr>vm_openupval := p # ps\<rparr>\<rparr>"] exI [of _ us] exI [of _ "p # ps"]) auto
  next
    case True
    have g: "cell_get S0 l = Ok (cells S0 ! l)" "cell_get S l = Ok (cells S0 ! l)"
      using l Cons.prems(2) by (simp_all add: cell_get_def aget_def closed_in_def)
    have "vm_openupval (L_vm S0) = (us @ [p]) @ ps" using Cons.prems(1) by simp
    from Cons.IH [OF this closed_in_step [OF Cons.prems(2) d l(1) True g(1)]]
    show ?thesis using ul True g(2) by simp
  qed
qed

text \<open>C14: when a function ends or a block is left, its captured variables move out of the stack, and nobody can tell: no upvalue reads
differently, those at or above the level do not refer to the stack any more, and the others stay open and in order.\<close>

theorem luaF_close_keeps_values:
  assumes "upvals_ok S"
  shows "\<exists>S'. luaF_close S level = Ok S' \<and> upvals_ok S' \<and> cells S' = cells S \<and> base_of S' = base_of S \<and>
    (\<forall>p. get_upval S' p = get_upval S p) \<and>
    (\<forall>p l. vm_upval (L_vm S') p = Some (UpOpen l) \<longleftrightarrow> vm_upval (L_vm S) p = Some (UpOpen l) \<and> l < level)"
proof -
  note ok = upvals_okD [OF assms]
  have "closed_in S level [] S" by (simp add: closed_in_def)
  then obtain S' us vs where r: "close_loop level (vm_openupval (L_vm S)) S = Ok S'" "closed_in S level us S'"
    and o1: "vm_openupval (L_vm S) = us @ vs" "vm_openupval (L_vm S') = vs"
    and low: "\<forall>p l. p \<in> set vs \<longrightarrow> vm_upval (L_vm S) p = Some (UpOpen l) \<longrightarrow> l < level"
    using close_loop_spec [of S "[]" "vm_openupval (L_vm S)" level S] assms by auto
  have c: "cells S' = cells S" "base_of S' = base_of S" using r(2) by (simp_all add: closed_in_def)
  have same: "\<forall>p. p \<notin> set us \<longrightarrow> vm_upval (L_vm S') p = vm_upval (L_vm S) p"
    and cl: "\<forall>p \<in> set us. \<exists>l v. level \<le> l \<and> vm_upval (L_vm S) p = Some (UpOpen l) \<and> cell_get S l = Ok v \<and> vm_upval (L_vm S') p = Some (UpClosed v)"
    using r(2) unfolding closed_in_def by blast+
  have d: "set us \<inter> set vs = {}" using ok(1) o1(1) by auto
  have o: "vm_upval (L_vm S') p = Some (UpOpen l) \<longleftrightarrow> vm_upval (L_vm S) p = Some (UpOpen l) \<and> l < level" for p l
  proof (cases "p \<in> set us")
    case False
    then show ?thesis using same low ok(3) [of p] o1(1) by auto
  qed (use cl in fastforce)
  have "get_upval S' p = get_upval S p" for p
  proof (cases "p \<in> set us")
    case True
    then show ?thesis using cl by (force simp: get_upval_def)
  next
    case False
    have g: "cell_get S' = cell_get S" by (simp add: cell_get_def c(1) fun_eq_iff)
    show ?thesis unfolding get_upval_def g using same False by simp
  qed
  moreover have "upvals_ok S'"
  proof -
    have "map (lev_of (vm_upval (L_vm S'))) vs = map (lev_of (vm_upval (L_vm S))) vs" using same d by (auto simp: lev_of_def)
    moreover have "falling (map (lev_of (vm_upval (L_vm S))) vs)"
      using falling_append ok(2) o1(1) unfolding levels_lev by (metis map_append)
    ultimately have f: "falling (levels S')" using o1(2) unfolding levels_lev by metis
    have "p \<in> set vs \<longleftrightarrow> (\<exists>l. vm_upval (L_vm S') p = Some (UpOpen l))" for p
    proof (cases "p \<in> set us")
      case True
      then show ?thesis using cl d by fastforce
    next
      case False
      then show ?thesis using same ok(3) [of p] o1(1) by simp
    qed
    then show ?thesis using ok(1,4) o f o1 c(1) unfolding upvals_ok_def by auto
  qed
  ultimately show ?thesis using c o r(1) by (auto simp: luaF_close_def)
qed

section \<open>Arguments\<close>

lemma adjust_varargs_new:
  "p_is_vararg p AND VARARG_NEEDSARG = 0 \<Longrightarrow>
   adjust_varargs W S p args =
     (let n = unat (p_numparams p); xs = args @ replicate (n - length args) VNil
      in Ok (S, replicate n VNil @ drop n xs, take n xs))"
  by (simp add: adjust_varargs_def Let_def)

lemma push_ci_Ok:
  assumes "push_ci S ci = Ok S1"
  shows "\<exists>n. S1 = S\<lparr>L_vm := (L_vm S)\<lparr>vm_size_ci := n, vm_ci := ci # vm_ci (L_vm S)\<rparr>\<rparr>"
proof (cases "length (vm_ci (L_vm S)) = vm_size_ci (L_vm S)")
  case True
  then show ?thesis using assms by (auto simp: push_ci_def growCI_def rbind_Ok_iff Let_def split: if_splits)
next
  case False
  then show ?thesis using assms by (intro exI [of _ "vm_size_ci (L_vm S)"]) (simp add: push_ci_def)
qed

lemma save_pc_fields [simp]:
  "L_stack (save_pc S) = L_stack S" "vm_below (L_vm (save_pc S)) = vm_below (L_vm S)" "base_of (save_pc S) = base_of S"
  "vm_closure (L_vm (save_pc S)) = vm_closure (L_vm S)"
  by (simp_all add: save_pc_def base_of_def Let_def split: list.split)

lemma fill_params:
  assumes "n \<le> m"
  shows "take m (take n xs @ replicate m v) = take n (xs @ replicate n v) @ replicate (m - n) v"
    and "take m (take n (xs @ replicate (n - length xs) v) @ replicate m v) = take n (xs @ replicate n v) @ replicate (m - n) v"
proof -
  have "replicate (m - length xs) v = replicate (n - length xs) v @ replicate (m - n) v" if "length xs < n"
    using that assms by (simp flip: replicate_add)
  then show "take m (take n xs @ replicate m v) = take n (xs @ replicate n v) @ replicate (m - n) v"
    using assms by (cases "length xs < n") (auto simp: min_def)
  show "take m (take n (xs @ replicate (n - length xs) v) @ replicate m v) = take n (xs @ replicate n v) @ replicate (m - n) v"
    using assms by (cases "length xs < n") (auto simp: min_def)
qed

lemma precall_lua_Ok:
  assumes "precall_lua W S k p nres = Ok S1"
  shows "\<exists>S' old params n. (if p_is_vararg p = 0 then Ok (S, [], take (unat (p_numparams p)) (drop (k + 1) (L_stack S)))
      else adjust_varargs W S p (drop (k + 1) (L_stack S))) = Ok (S', old, params) \<and>
    (let below = vm_below (L_vm S) @ take (k + 1) (L_stack S) @ old; m = unat (p_maxstacksize p) in
     S1 = S'\<lparr>L_stack := take m (params @ replicate m VNil),
       L_vm := (L_vm S')\<lparr>vm_size_ci := n,
         vm_ci := \<lparr>ci_func = base_of S + k, ci_base = length below, ci_top = length below + m, ci_nresults = nres, ci_savedpc = 0,
           ci_tailcalls = 0\<rparr> # vm_ci (L_vm S'),
         vm_below := below, vm_savedpc := 0, vm_top := length below + m\<rparr>\<rparr>)"
proof -
  note e = assms [unfolded precall_lua_def Let_def]
  obtain S' old params where a: "(if p_is_vararg p = 0 then Ok (S, [], take (unat (p_numparams p)) (drop (k + 1) (L_stack S)))
      else adjust_varargs W S p (drop (k + 1) (L_stack S))) = Ok (S', old, params)"
    using e by (elim rbind_OkE) auto
  note e = e [unfolded a rbind_simps prod.case]
  from e obtain S2 where p: "push_ci S' \<lparr>ci_func = base_of S + k, ci_base = length (vm_below (L_vm S) @ take (k + 1) (L_stack S) @ old),
      ci_top = length (vm_below (L_vm S) @ take (k + 1) (L_stack S) @ old) + unat (p_maxstacksize p), ci_nresults = nres, ci_savedpc = 0,
      ci_tailcalls = 0\<rparr> = Ok S2"
    by (elim rbind_OkE) blast
  note e = e [unfolded p rbind_simps]
  show ?thesis using a e push_ci_Ok [OF p] by (auto simp: Let_def)
qed

text \<open>What the frame of a Lua function is, with the cells \<open>old\<close> between the function and the base.\<close>

lemma precall_lua_frame:
  assumes st: "L_stack S = pre @ VFun q # args" and np: "p_numparams p \<le> p_maxstacksize p"
    and va: "p_is_vararg p AND VARARG_NEEDSARG = 0" and pc: "precall_lua W (save_pc S) (length pre) p nres = Ok S1"
  defines "n \<equiv> unat (p_numparams p)" and "m \<equiv> unat (p_maxstacksize p)"
  shows "\<exists>ci old rest. vm_ci (L_vm S1) = ci # rest \<and> ci_func ci = base_of S + length pre \<and> ci_base ci = ci_func ci + 1 + length old \<and>
    vm_below (L_vm S1) = vm_below (L_vm S) @ pre @ VFun q # old \<and> vm_savedpc (L_vm S1) = 0 \<and>
    L_stack S1 = take n (args @ replicate n VNil) @ replicate (m - n) VNil \<and>
    vm_closure (L_vm S1) = vm_closure (L_vm S) \<and>
    (p_is_vararg p \<noteq> 0 \<longrightarrow> old = replicate n VNil @ drop n args)"
proof -
  have le: "n \<le> m" using np by (simp add: n_def m_def word_le_nat_alt)
  have v: "(if p_is_vararg p = 0 then Ok (save_pc S, [], take n args) else adjust_varargs W (save_pc S) p args) =
      Ok (save_pc S, if p_is_vararg p = 0 then [] else replicate n VNil @ drop n args,
        if p_is_vararg p = 0 then take n args else take n (args @ replicate (n - length args) VNil))"
    using adjust_varargs_new [OF va, of W "save_pc S" args] unfolding Let_def n_def [symmetric] by (cases "p_is_vararg p = 0") simp_all
  have d: "drop (length pre + 1) (L_stack (save_pc S)) = args" "take (length pre + 1) (L_stack (save_pc S)) = pre @ [VFun q]"
    by (simp_all add: st)
  obtain S' old params k where e: "(if p_is_vararg p = 0 then Ok (save_pc S, [], take n args) else adjust_varargs W (save_pc S) p args) = Ok (S', old, params)"
    and s: "S1 = S'\<lparr>L_stack := take m (params @ replicate m VNil),
       L_vm := (L_vm S')\<lparr>vm_size_ci := k,
         vm_ci := \<lparr>ci_func = base_of S + length pre, ci_base = base_of S + length pre + 1 + length old,
           ci_top = base_of S + length pre + 1 + length old + m, ci_nresults = nres, ci_savedpc = 0, ci_tailcalls = 0\<rparr> # vm_ci (L_vm S'),
         vm_below := vm_below (L_vm S) @ pre @ VFun q # old, vm_savedpc := 0, vm_top := base_of S + length pre + 1 + length old + m\<rparr>\<rparr>"
    using precall_lua_Ok [OF pc, unfolded d] unfolding n_def m_def by (auto simp: base_of_def Let_def add.assoc)
  have p: "take m (params @ replicate m VNil) = take n (args @ replicate n VNil) @ replicate (m - n) VNil"
    using e unfolding v using fill_params [OF le, of args VNil] by auto
  show ?thesis unfolding s p using e unfolding v by auto
qed

text \<open>C16: when a Lua function that does not need the old table \<open>arg\<close> (its flag \<open>VARARG_NEEDSARG\<close> is not set) is entered, its
first registers are the parameters with the arguments in order, nil where one is missing, all its other registers are nil, and
\<open>...\<close> stands for exactly the arguments behind the parameters: the instruction \<open>VARARG\<close> copies all of them, or a fixed
number of them, filled with nil, and leaves the other registers alone.\<close>

theorem lua_arguments:
  assumes "L_stack S = pre @ VFun q # args" and "closure_at S q = Ok (LClosure p env ups)"
    and "p_numparams p \<le> p_maxstacksize p" and "p_is_vararg p AND VARARG_NEEDSARG = 0"
    and "luaD_precall M W S (length pre) nres = Ok (S1, r)"
  shows "r = PCRLUA \<and> curr_func S1 = Ok q \<and> vm_savedpc (L_vm S1) = 0 \<and>
    L_stack S1 = (let n = unat (p_numparams p) in
      take n (args @ replicate n VNil) @ replicate (unat (p_maxstacksize p) - n) VNil) \<and>
    (p_is_vararg p \<noteq> 0 \<longrightarrow> (\<forall>a \<le> unat (p_maxstacksize p). \<exists>S2. exec_vararg S1 p (int a) 0 = Ok S2 \<and>
       vm_top (L_vm S2) = base_of S2 + a + (length args - unat (p_numparams p)) \<and>
       take (a + (length args - unat (p_numparams p))) (L_stack S2) = take a (L_stack S1) @ drop (unat (p_numparams p)) args) \<and>
     (\<forall>a k. a + k \<le> unat (p_maxstacksize p) \<longrightarrow> exec_vararg S1 p (int a) (int (Suc k)) =
       Ok (S1\<lparr>L_stack := take a (L_stack S1) @ take k (drop (unat (p_numparams p)) args @ replicate k VNil) @
         drop (a + k) (L_stack S1)\<rparr>)))"
proof -
  let ?n = "unat (p_numparams p)" and ?m = "unat (p_maxstacksize p)"
  have f: "st_get S (length pre) = Ok (VFun q)" by (simp add: st_get_Ok assms(1))
  then have r: "r = PCRLUA" and pl: "precall_lua W (save_pc S) (length pre) p nres = Ok S1"
    using assms(5) unfolding luaD_precall_def f rbind_simps by (simp_all add: is_function_def clvalue_def rbind_Ok_iff f assms(2))
  obtain ci old rest where ci: "vm_ci (L_vm S1) = ci # rest" "ci_func ci = base_of S + length pre" "ci_base ci = ci_func ci + 1 + length old"
    and b: "vm_below (L_vm S1) = vm_below (L_vm S) @ pre @ VFun q # old" "vm_savedpc (L_vm S1) = 0"
    and st: "L_stack S1 = take ?n (args @ replicate ?n VNil) @ replicate (?m - ?n) VNil"
    and va: "p_is_vararg p \<noteq> 0 \<longrightarrow> old = replicate ?n VNil @ drop ?n args"
    using precall_lua_frame [OF assms(1,3,4) pl] by (elim exE conjE) (rule that; assumption)
  have "curr_func S1 = Ok q"
    unfolding curr_func_def current_ci_def cell_get_def cells_def ci(1) b(1) by (simp add: ci(2) clvalue_def aget_def base_of_def nth_append)
  moreover have "(\<exists>S2. exec_vararg S1 p (int a) 0 = Ok S2 \<and> vm_top (L_vm S2) = base_of S2 + a + (length args - ?n) \<and>
       take (a + (length args - ?n)) (L_stack S2) = take a (L_stack S1) @ drop ?n args) \<and>
     (a + k \<le> ?m \<longrightarrow> exec_vararg S1 p (int a) (int (Suc k)) =
       Ok (S1\<lparr>L_stack := take a (L_stack S1) @ take k (drop ?n args @ replicate k VNil) @ drop (a + k) (L_stack S1)\<rparr>))"
    if v: "p_is_vararg p \<noteq> 0" and a: "a \<le> ?m" for a k
  proof -
    have u: "uint (p_numparams p) = int ?n" by simp
    have l: "length old = ?n + (length args - ?n)" using va v by simp
    have n: "int (ci_base ci) - int (ci_func ci) - uint (p_numparams p) - 1 = int (length args - ?n)"
      unfolding u ci(3) l by linarith
    have len: "length (L_stack S1) = ?m" using st assms(3) by (simp add: word_le_nat_alt)
    let ?arg = "\<lambda>j. if int j < int (length args - ?n) then vm_below (L_vm S1) ! (length (vm_below (L_vm S1)) - (length args - ?n) + j) else VNil"
    have arg: "map ?arg [0..<k] = take k (drop ?n args @ replicate k VNil)" for k
      using va v by (intro nth_equalityI) (auto simp del: of_nat_diff simp: b(1) nth_append)
    have mk: "min (length args - ?n) k + (k - (length args - ?n)) = k" by simp
    have all: "map ?arg [0..<length args - ?n] = drop ?n args" unfolding arg by simp
    have "set_range S1 a (drop ?n args) = Ok (S1\<lparr>L_stack := take a (L_stack S1) @ drop ?n args @ drop (a + (length args - ?n)) (L_stack S1)\<rparr>)"
      using a len by (simp add: set_range_def Let_def)
    moreover have "set_range S1 a (take k (drop ?n args @ replicate k VNil)) =
        Ok (S1\<lparr>L_stack := take a (L_stack S1) @ take k (drop ?n args @ replicate k VNil) @ drop (a + k) (L_stack S1)\<rparr>)"
      using a len by (simp add: set_range_def Let_def mk)
    ultimately show ?thesis
      using a len all arg [of k]
      unfolding exec_vararg_def current_ci_def ci(1) list.case rbind_simps Let_def n nat_int by (simp add: reg_def LUA_MULTRET_def base_of_def)
  qed
  ultimately show ?thesis using r b(2) st by (auto simp: Let_def)
qed

section \<open>Counting loops\<close>













definition for_regs :: "lua_State \<Rightarrow> nat \<Rightarrow> int \<Rightarrow> int \<Rightarrow> int \<Rightarrow> bool" where
  "for_regs S a i n s \<longleftrightarrow> a + 3 < length (L_stack S) \<and> L_stack S ! a = VNum (cast_num i) \<and>
     L_stack S ! (a + 1) = VNum (cast_num n) \<and> L_stack S ! (a + 2) = VNum (cast_num s)"

section \<open>Turns of the interpreter\<close>









lemma set_pc_simps [simp]:
  "L_stack (set_pc S k) = L_stack S" "vm_savedpc (L_vm (set_pc S k)) = k" "closure_at (set_pc S k) q = closure_at S q"
  "for_regs (set_pc S k) a i n s = for_regs S a i n s" "st_get (set_pc S k) j = st_get S j"
  "closure_at (S\<lparr>L_stack := st\<rparr>) q = closure_at S q"
  by (simp_all add: set_pc_def closure_at_def for_regs_def st_get_def)

lemma for_regs_pc: "for_regs (set_pc S k\<lparr>L_stack := st\<rparr>) a i n s \<longleftrightarrow> for_regs (S\<lparr>L_stack := st\<rparr>) a i n s"
  by (simp add: for_regs_def)





section \<open>Examples\<close>

definition example_machine :: "libc \<Rightarrow> machine" where
  "example_machine C = \<lparr>m_C = C, m_cfun = (\<lambda>f W S. Ok (S, 0)), m_stale = (\<lambda>S i. VNil), m_newclosure = (\<lambda>S. 64), m_newupval = (\<lambda>S. 128)\<rparr>"

lemma call_state_vm [simp]: "L_vm (call_state args) = stack_init"
  by (simp add: call_state_def)

lemma call_state_upvals: "upvals_ok (call_state args)"
  by (simp add: upvals_ok_def levels_def stack_init_def)

theorem findupval_shares_witness:
  "\<forall>C. \<exists>S' p. luaF_findupval (example_machine C) (call_state [VNum 0]) 1 = Ok (S', p) \<and> upvals_ok S' \<and>
     (\<forall>q. vm_upval (L_vm S') q = Some (UpOpen 1) \<longleftrightarrow> q = p)"
proof
  fix C
  have "1 < length (cells (call_state [VNum 0]))" "vm_upval (L_vm (call_state [VNum 0])) (m_newupval (example_machine C) (call_state [VNum 0])) = None"
    by (simp_all add: cells_def stack_init_def)
  from findupval_shares [OF call_state_upvals this]
  show "\<exists>S' p. luaF_findupval (example_machine C) (call_state [VNum 0]) 1 = Ok (S', p) \<and> upvals_ok S' \<and>
     (\<forall>q. vm_upval (L_vm S') q = Some (UpOpen 1) \<longleftrightarrow> q = p)" by blast
qed

theorem luaF_close_keeps_values_witness:
  "\<exists>S S'. upvals_ok S \<and> vm_upval (L_vm S) 128 = Some (UpOpen 1) \<and> luaF_close S 1 = Ok S' \<and> get_upval S' 128 = get_upval S 128"
proof -
  let ?S = "(call_state [VNum 0])\<lparr>L_vm := stack_init\<lparr>vm_upval := [128 \<mapsto> UpOpen 1], vm_openupval := [128]\<rparr>\<rparr>"
  have "upvals_ok ?S" by (auto simp: upvals_ok_def levels_def cells_def stack_init_def)
  moreover have "vm_upval (L_vm ?S) 128 = Some (UpOpen 1)" by simp
  ultimately show ?thesis using luaF_close_keeps_values [of ?S 1] by blast
qed

text \<open>A function with one parameter and \<open>...\<close>.\<close>

definition example_vararg :: Proto where
  "example_vararg = Proto [] [CREATE_ABC (op_num OP_RETURN) 0 1 0] [] [] [] [] None 0 0 0 1 2 3"

lemma precall_lua_enters:
  assumes "p_is_vararg p AND VARARG_NEEDSARG = 0" "length (vm_ci (L_vm S)) < vm_size_ci (L_vm S)"
  shows "\<exists>S1. precall_lua W S k p nres = Ok S1"
proof -
  obtain old params where a: "(if p_is_vararg p = 0 then Ok (S, [], take (unat (p_numparams p)) (drop (k + 1) (L_stack S)))
      else adjust_varargs W S p (drop (k + 1) (L_stack S))) = Ok (S, old, params)"
    using adjust_varargs_new [OF assms(1)] by (cases "p_is_vararg p = 0") (auto simp: Let_def)
  show ?thesis unfolding precall_lua_def Let_def a rbind_simps push_ci_def using assms(2) by simp
qed

lemma save_pc_ci [simp]:
  "length (vm_ci (L_vm (save_pc S))) = length (vm_ci (L_vm S))" "vm_size_ci (L_vm (save_pc S)) = vm_size_ci (L_vm S)"
  by (simp_all add: save_pc_def Let_def split: list.split)

theorem lua_arguments_witness:
  "\<forall>C W. \<exists>S1 S2. luaD_precall (example_machine C) W ((call_state [VFun 64, VNum 1, VNum 2, VNum 3])
       \<lparr>L_vm := stack_init\<lparr>vm_closure := [64 \<mapsto> LClosure example_vararg VNil []]\<rparr>\<rparr>) 0 1 = Ok (S1, PCRLUA) \<and>
     L_stack S1 = [VNum 1, VNil, VNil] \<and> exec_vararg S1 example_vararg 1 0 = Ok S2 \<and> take 3 (L_stack S2) = [VNum 1, VNum 2, VNum 3]"
proof (intro allI)
  fix C W
  let ?S = "(call_state [VFun 64, VNum 1, VNum 2, VNum 3])\<lparr>L_vm := stack_init\<lparr>vm_closure := [64 \<mapsto> LClosure example_vararg VNil []]\<rparr>\<rparr>"
  have p: "p_is_vararg example_vararg = 2" "p_numparams example_vararg = 1" "p_maxstacksize example_vararg = 3"
    by (simp_all add: example_vararg_def)
  have c: "closure_at ?S 64 = Ok (LClosure example_vararg VNil [])" by (simp add: closure_at_def)
  have v: "(2 :: u8) AND VARARG_NEEDSARG = 0" by (simp add: VARARG_NEEDSARG_def)
  have "length (vm_ci (L_vm (save_pc ?S))) < vm_size_ci (L_vm (save_pc ?S))" by (simp add: stack_init_def BASIC_CI_SIZE_def)
  then obtain S1 where "precall_lua W (save_pc ?S) 0 example_vararg 1 = Ok S1"
    using precall_lua_enters [of example_vararg "save_pc ?S" W 0 1] v p(1) by auto
  then obtain r where r: "luaD_precall (example_machine C) W ?S 0 1 = Ok (S1, r)"
    by (simp add: luaD_precall_def st_get_def aget_def is_function_def clvalue_def c)
  have l: "luaD_precall (example_machine C) W ?S (length []) 1 = Ok (S1, r)" using r by simp
  have st: "L_stack ?S = [] @ VFun 64 # [VNum 1, VNum 2, VNum 3]" by simp
  have le: "p_numparams example_vararg \<le> p_maxstacksize example_vararg" by (simp add: p)
  have va: "p_is_vararg example_vararg AND VARARG_NEEDSARG = 0" by (simp only: p v)
  have u: "unat (p_maxstacksize example_vararg) = 3" "unat (p_numparams example_vararg) = 1" by (simp_all add: p)
  note a = lua_arguments [OF st c le va l, unfolded u Let_def]
  then have s: "r = PCRLUA" "L_stack S1 = [VNum 1, VNil, VNil]" by (simp_all add: numeral_2_eq_2)
  have "p_is_vararg example_vararg \<noteq> 0" "(1 :: nat) \<le> 3" by (simp_all add: p)
  then obtain S2 where "exec_vararg S1 example_vararg (int 1) 0 = Ok S2"
    "take (1 + (length [VNum 1, VNum 2, VNum 3] - 1)) (L_stack S2) = take 1 (L_stack S1) @ drop 1 [VNum 1, VNum 2, VNum 3]"
    using a by blast
  then show "\<exists>S1 S2. luaD_precall (example_machine C) W ?S 0 1 = Ok (S1, PCRLUA) \<and>
     L_stack S1 = [VNum 1, VNil, VNil] \<and> exec_vararg S1 example_vararg 1 0 = Ok S2 \<and> take 3 (L_stack S2) = [VNum 1, VNum 2, VNum 3]"
    using r s by (auto simp: numeral_3_eq_3)
qed



end
