(* ===== verification/LuaExecCheck.thy ===== *)
theory LuaExecCheck
  imports LuaExecProps LuaCheckProps
begin

text \<open>
  What the verifier of precompiled code gives to the interpreter: in a function that it accepts every
  step of the interpreter starts at a valid instruction and goes on at one. The first part finds, for
  each instruction, where the definitions of LuaExec go on.
\<close>

section \<open>Where a step goes on\<close>

lemma dojump_OkD: "dojump pc d = Ok n \<Longrightarrow> int n = pc + d"
  by (auto simp: dojump_def split: if_splits)

lemma branch_OkD: "branch p (pc + 1) c = Ok n \<Longrightarrow>
    int n = int pc + 2 \<or> int n = int pc + 2 + GETARG_sBx (instr_at p (int pc + 1))"
  by (auto simp: branch_def rbind_Ok_iff add.commute instr_at_def code_at_def aget_Ok_iff nat_add_distrib
    dest!: dojump_OkD split: if_splits)

lemma goes_to_Ok: "goes_to r = Ok (S', fl) \<longleftrightarrow> (\<exists>n. r = Ok (S', n) \<and> fl = Continue n)"
  by (auto simp: rbind_Ok_iff)

lemma goes_on_Ok: "goes_on pc r = Ok (S', fl) \<longleftrightarrow> r = Ok S' \<and> fl = Continue pc"
  by (auto simp: rbind_Ok_iff)

lemma exec_tests:
  "exec_compare cmp S p a b c (pc + 1) = Ok (S', n) \<Longrightarrow> \<exists>d. branch p (pc + 1) d = Ok n"
  "exec_test S p a c (pc + 1) = Ok (S', n) \<Longrightarrow> \<exists>d. branch p (pc + 1) d = Ok n"
  "exec_testset S p a b c (pc + 1) = Ok (S', n) \<Longrightarrow> \<exists>d. branch p (pc + 1) d = Ok n"
  "exec_tforloop M W S p a c (pc + 1) = Ok (S', n) \<Longrightarrow> \<exists>d. branch p (pc + 1) d = Ok n"
     apply (auto simp: exec_compare_def rbind_Ok_iff)[1]
    apply (auto simp: exec_test_def rbind_Ok_iff)[1]
   apply (auto simp: exec_testset_def Let_def rbind_Ok_iff)[1]
  apply (unfold exec_tforloop_def Let_def)
  apply (elim rbind_OkE)
  apply (auto simp: rbind_Ok_iff)
  done

lemma exec_loops:
  "exec_forloop S a sbx (pc + 1) = Ok (S', n) \<Longrightarrow> int n = int pc + 1 \<or> int n = int pc + 1 + sbx"
  "exec_forprep S a sbx (pc + 1) = Ok (S', n) \<Longrightarrow> int n = int pc + 1 + sbx"
proof -
  show "exec_forloop S a sbx (pc + 1) = Ok (S', n) \<Longrightarrow> int n = int pc + 1 \<or> int n = int pc + 1 + sbx"
    unfolding exec_forloop_def Let_def by (elim rbind_OkE) (auto simp: rbind_Ok_iff dest!: dojump_OkD split: if_splits)
  show "exec_forprep S a sbx (pc + 1) = Ok (S', n) \<Longrightarrow> int n = int pc + 1 + sbx"
    unfolding exec_forprep_def by (auto simp: rbind_Ok_iff dest!: dojump_OkD)
qed

lemma setlist_tail:
  assumes "(case t of VTable q \<Rightarrow> (if P then Fail e else rbind (f q) (\<lambda>h. rbind (g q h) (\<lambda>h1. rbind (k q h1) (\<lambda>h2. Ok (r q h2, pc)))))
    | _ \<Rightarrow> Fail e') = Ok (S', n)"
  shows "n = pc"
  using assms by (cases t) (auto simp: rbind_Ok_iff split: if_splits)

lemma exec_setlist_next:
  assumes "exec_setlist S p a b c pc = Ok (S', n)"
  shows "n = (if c = 0 then pc + 1 else pc)"
proof -
  from assms [unfolded exec_setlist_def Let_def] obtain x
    where x: "(if c = 0 then rbind (code_at p (int pc)) (\<lambda>w. Ok (sint w, pc + 1)) else Ok (c, pc)) = Ok x"
    and r: "n = snd x"
    apply (elim rbind_OkE)
    apply (unfold split_def)
    apply (elim rbind_OkE)
    apply (drule setlist_tail)
    apply simp
    done
  show ?thesis using x r by (auto simp: rbind_Ok_iff split: if_splits)
qed

lemma exec_closure_next:
  "exec_closure M S p env ups a bx (pc + 1) = Ok (S', n) \<Longrightarrow> int n = int pc + 1 + uint (p_nups (p_p p ! nat bx))"
  unfolding exec_closure_def Let_def proto_at_def
  by (auto simp: rbind_Ok_iff aget_Ok_iff split: if_splits)

lemma exec_calls:
  "exec_call M W S a b c pc = Ok (S', Continue n) \<Longrightarrow> n = pc"
  "exec_tailcall M W S a b pc = Ok (S', Continue n) \<Longrightarrow> n = pc"
  "exec_return S a b \<noteq> Ok (S', Continue n)"
proof -
  show "exec_call M W S a b c pc = Ok (S', Continue n) \<Longrightarrow> n = pc"
    unfolding exec_call_def by (elim rbind_OkE) (auto simp: rbind_Ok_iff split: pcr.split_asm)
  show "exec_tailcall M W S a b pc = Ok (S', Continue n) \<Longrightarrow> n = pc"
    unfolding exec_tailcall_def by (elim rbind_OkE) (auto simp: rbind_Ok_iff split: pcr.split_asm)
qed (auto simp: exec_return_def rbind_Ok_iff)

lemma tests_iff: "testTMode (op_num op) \<longleftrightarrow> op \<in> {OP_EQ, OP_LT, OP_LE, OP_TEST, OP_TESTSET, OP_TFORLOOP}"
  by (rule all_opcodes [where P = "\<lambda>op. testTMode (op_num op) \<longleftrightarrow> op \<in> {OP_EQ, OP_LT, OP_LE, OP_TEST, OP_TESTSET, OP_TFORLOOP}"]) code_simp

abbreviation jumping :: "OpCode set" where
  "jumping \<equiv> {OP_EQ, OP_LT, OP_LE, OP_TEST, OP_TESTSET, OP_TFORLOOP, OP_LOADBOOL, OP_JMP, OP_RETURN, OP_FORLOOP, OP_FORPREP,
     OP_SETLIST, OP_CLOSURE, OP_CALL, OP_TAILCALL}"

lemma exec_op_plain: "op \<notin> jumping \<Longrightarrow> \<exists>r. exec_op M W S p env ups op i pc = goes_on pc r"
  apply (cases op)
  apply (simp_all only: insert_iff simp_thms)
  apply (unfold exec_op_def Let_def OpCode.case)
  apply (rule exI, rule refl)+
  done

lemma vm_next_plain: "op \<notin> jumping \<Longrightarrow> opcode_of (GET_OPCODE (instr_at p pc)) = Some op \<Longrightarrow> vm_next p pc = [pc + 1]"
  by (cases op) (simp_all add: vm_next_def tests_iff)

lemma exec_op_test:
  assumes "testTMode (op_num op)" and "exec_op M W S p env ups op i (pc + 1) = Ok (S', Continue n)"
  shows "\<exists>d. branch p (pc + 1) d = Ok n"
proof -
  note s = exec_op_def Let_def OpCode.case goes_to_Ok flow.inject
  consider "op = OP_EQ" | "op = OP_LT" | "op = OP_LE" | "op = OP_TEST" | "op = OP_TESTSET" | "op = OP_TFORLOOP"
    using assms(1) unfolding tests_iff by blast
  then show ?thesis
  proof cases
    case 1 show ?thesis using assms(2) exec_tests(1) unfolding 1 s by blast
  next
    case 2 show ?thesis using assms(2) exec_tests(1) unfolding 2 s by blast
  next
    case 3 show ?thesis using assms(2) exec_tests(1) unfolding 3 s by blast
  next
    case 4 show ?thesis using assms(2) exec_tests(2) unfolding 4 s by blast
  next
    case 5 show ?thesis using assms(2) exec_tests(3) unfolding 5 s by blast
  next
    case 6 show ?thesis using assms(2) exec_tests(4) unfolding 6 s by blast
  qed
qed

text \<open>Where the interpreter goes on is one of the successors.\<close>

lemma exec_op_next:
  assumes i: "i = instr_at p (int pc)" and op: "opcode_of (GET_OPCODE i) = Some op"
    and e: "exec_op M W S p env ups op i (pc + 1) = Ok (S', Continue n)"
  shows "int n \<in> set (vm_next p (int pc))"
proof -
  note s = exec_op_def Let_def OpCode.case goes_to_Ok goes_on_Ok flow.inject
  note op' = op [unfolded i]
  consider "testTMode (op_num op)" | "op \<notin> jumping" | "op = OP_LOADBOOL" | "op = OP_JMP" | "op = OP_RETURN" | "op = OP_FORLOOP"
    | "op = OP_FORPREP" | "op = OP_SETLIST" | "op = OP_CLOSURE" | "op = OP_CALL" | "op = OP_TAILCALL"
    unfolding tests_iff by blast
  then show ?thesis
  proof cases
    case 1
    then show ?thesis using exec_op_test [OF 1 e] op' branch_OkD by (auto simp: vm_next_def)
  next
    case 2
    obtain r where "exec_op M W S p env ups op i (pc + 1) = goes_on (pc + 1) r" using exec_op_plain [OF 2] by blast
    then have "n = pc + 1" using e by (auto simp: rbind_Ok_iff)
    then show ?thesis using vm_next_plain [OF 2 op'] by simp
  next
    case 3
    then show ?thesis using e [unfolded 3 s] op' by (auto simp: vm_next_def tests_iff i)
  next
    case 4
    have "rbind (dojump (int (pc + 1)) (GETARG_sBx i)) (\<lambda>n. Ok (S, Continue n)) = Ok (S', Continue n)" using e [unfolded 4 s] .
    then show ?thesis using op' 4 by (auto simp: vm_next_def tests_iff i rbind_Ok_iff dest!: dojump_OkD)
  next
    case 5
    then show ?thesis using e [unfolded 5 s] exec_calls(3) by blast
  next
    case 6
    then show ?thesis using e [unfolded 6 s] op' exec_loops(1) by (auto simp: vm_next_def tests_iff i)
  next
    case 7
    then show ?thesis using e [unfolded 7 s] op' exec_loops(2) by (auto simp: vm_next_def tests_iff i)
  next
    case 8
    then show ?thesis using e [unfolded 8 s] op' exec_setlist_next by (fastforce simp: vm_next_def tests_iff i)
  next
    case 9
    then show ?thesis using e [unfolded 9 s] op' exec_closure_next by (fastforce simp: vm_next_def tests_iff i)
  next
    case 10
    then show ?thesis using exec_calls(1) [OF e [unfolded 10 s]] op' by (auto simp: vm_next_def tests_iff)
  next
    case 11
    then show ?thesis using exec_calls(2) [OF e [unfolded 11 s]] op' by (auto simp: vm_next_def tests_iff)
  qed
qed

lemma precall_saves:
  assumes "luaD_precall M W S k nres = Ok (S', PCRLUA)" and "vm_ci (L_vm S) \<noteq> []"
  shows "\<exists>new ci rest. vm_ci (L_vm S') = new # ci # rest \<and> ci_savedpc ci = vm_savedpc (L_vm S)"
proof -
  from assms(1) obtain f S1 f1 q cl where 1: "(if is_function f then Ok S else tryfuncTM S k) = Ok S1"
    and 2: "(case cl of LClosure p env ups \<Rightarrow> rbind (precall_lua W (save_pc S1) k p nres) (\<lambda>S2. Ok (S2, PCRLUA))
       | CClosure f env ups \<Rightarrow> precall_c M W (save_pc S1) k f env ups nres) = Ok (S', PCRLUA)"
    unfolding luaD_precall_def by (elim rbind_OkE)
  have v: "L_vm S1 = L_vm S" using 1 by (auto simp: tryfuncTM_def luaG_typeerror_def rbind_Ok_iff split: if_splits)
  have c: "precall_c M W (save_pc S1) k f env ups nres \<noteq> Ok (S', PCRLUA)" for f env ups
    unfolding precall_c_def Let_def by (auto simp: rbind_Ok_iff split: if_splits)
  obtain p where p: "precall_lua W (save_pc S1) k p nres = Ok S'" using 2 c by (auto simp: rbind_Ok_iff split: Closure.splits)
  obtain S2 old params n where a: "(if p_is_vararg p = 0 then Ok (save_pc S1, [], take (unat (p_numparams p)) (drop (k + 1) (L_stack (save_pc S1))))
      else adjust_varargs W (save_pc S1) p (drop (k + 1) (L_stack (save_pc S1)))) = Ok (S2, old, params)"
    and s: "\<exists>new. vm_ci (L_vm S') = new # vm_ci (L_vm S2)"
    using precall_lua_Ok [OF p] unfolding Let_def by auto
  have "L_vm S2 = L_vm (save_pc S1)"
    using a by (auto simp: adjust_varargs_def Let_def rbind_Ok_iff put_table_def split: if_splits)
  then show ?thesis using s assms(2) v by (auto simp: save_pc_def Let_def split: list.splits)
qed

lemma exec_call_saves:
  assumes "exec_call M W S a b c pc = Ok (S', Called)" and "vm_ci (L_vm S) \<noteq> []"
  shows "\<exists>new ci rest. vm_ci (L_vm S') = new # ci # rest \<and> ci_savedpc ci = vm_savedpc (L_vm S)"
proof -
  from assms(1) obtain S1 S2 where 1: "cut_frame S (reg a + 1) b (a + b) = Ok S1" "luaD_precall M W S1 (reg a) (c - 1) = Ok (S2, PCRLUA)" "S2 = S'"
    unfolding exec_call_def by (elim rbind_OkE) (auto simp: rbind_Ok_iff split: pcr.split_asm)
  have "L_vm S1 = L_vm S" using 1(1) by (auto simp: cut_frame_def Let_def split: if_splits)
  then show ?thesis using precall_saves [OF 1(2)] 1(3) assms(2) by simp
qed

lemma exec_op_called: "exec_op M W S p env ups op i pc = Ok (S', Called) \<Longrightarrow> op = OP_CALL"
proof (rule ccontr)
  assume e: "exec_op M W S p env ups op i pc = Ok (S', Called)" and n: "op \<noteq> OP_CALL"
  note s = exec_op_def Let_def OpCode.case goes_to_Ok goes_on_Ok flow.distinct rbind_Ok_iff
  have r: "exec_return S a b \<noteq> Ok (S', Called)" for a b by (auto simp: exec_return_def rbind_Ok_iff)
  have t: "exec_tailcall M W S a b pc \<noteq> Ok (S', Called)" for a b
    unfolding exec_tailcall_def by (auto simp: rbind_Ok_iff split: pcr.split_asm)
  have o: "goes_on pc r \<noteq> Ok (S', Called)" "goes_to r' \<noteq> Ok (S', Called)" for r r' by (auto simp: rbind_Ok_iff)
  have j: "rbind r (\<lambda>n. Ok (S, Continue n)) \<noteq> Ok (S', Called)" for r by (auto simp: rbind_Ok_iff)
  note k = e [unfolded exec_op_def Let_def]
  consider "op \<notin> jumping" | "op \<in> jumping - {OP_LOADBOOL, OP_JMP, OP_RETURN, OP_CALL, OP_TAILCALL}" | "op = OP_LOADBOOL" | "op = OP_JMP" | "op = OP_RETURN" | "op = OP_TAILCALL"
    using n by blast
  then show False
  proof cases
    case 1
    then show ?thesis using exec_op_plain [OF 1] e o(1) by metis
  next
    case 2
    then show ?thesis using k o(2) by (elim DiffE insertE emptyE) (simp_all only: OpCode.case, (blast+)?)
  next
    case 3
    then show ?thesis using k by (auto simp: goes_on_Ok)
  next
    case 4
    then show ?thesis using k j by simp
  next
    case 5
    then show ?thesis using k r by simp
  next
    case 6
    then show ?thesis using k t by simp
  qed
qed

section \<open>Verified code is closed\<close>

text \<open>C5: code that the verifier accepts is closed under the interpreter. When a step of the interpreter starts at an instruction
of an accepted function, the opcode is valid, all operands are in range (registers below the stack size of the function, constants,
nested functions and upvalues that exist, names of globals that are strings), and where the step goes on there is an instruction of
the same function (and not one of the words that only hold a count or name an upvalue); when the step is a call of a Lua function,
there is one at the place where the caller goes on after it. The verifier does not see to this for a \<open>LOADBOOL\<close> whose C is
neither 0 nor 1, which is excluded.\<close>

theorem checked_code_closed:
  assumes "luaG_checkcode p = Ok True" and "closure_at S q = Ok (LClosure p env ups)" and "curr_func S = Ok q"
    and "vm_savedpc (L_vm S) = pc" and "instr_start p (int pc)" and "int pc < sizecode p"
    and "op_is (instr_at p (int pc)) OP_LOADBOOL \<Longrightarrow> GETARG_C (instr_at p (int pc)) \<le> 1"
  shows "(\<exists>op. opcode_of (GET_OPCODE (instr_at p (int pc))) = Some op \<and> operands_ok p op (instr_at p (int pc))) \<and>
    (\<forall>S' n. vm_step M W q S = Ok (S', Continue n) \<longrightarrow> instr_start p (int n) \<and> int n < sizecode p) \<and>
    (\<forall>S'. vm_step M W q S = Ok (S', Called) \<longrightarrow>
      (\<exists>new ci rest. vm_ci (L_vm S') = new # ci # rest \<and> instr_start p (int (ci_savedpc ci)) \<and> int (ci_savedpc ci) < sizecode p))"
proof -
  let ?i = "instr_at p (int pc)"
  from verified_next [OF assms(1,5,6,7)] obtain op where op: "opcode_of (GET_OPCODE ?i) = Some op" "operands_ok p op ?i"
    and nx: "\<forall>s \<in> set (vm_next p (int pc)). instr_start p s \<and> s < sizecode p" by blast
  have code: "code_at p (int pc) = Ok ?i" using assms(6) by (simp add: code_at_def instr_at_def aget_def sizecode_def)
  have step: "vm_step M W q S = exec_op M W (set_pc S (pc + 1)) p env ups op ?i (pc + 1)"
    by (simp add: vm_step_def assms(2,4) code op(1))
  have go: "instr_start p (int n) \<and> int n < sizecode p" if "vm_step M W q S = Ok (S', Continue n)" for S' n
    using exec_op_next [OF refl op(1)] that nx unfolding step by blast
  have call: "\<exists>new ci rest. vm_ci (L_vm S') = new # ci # rest \<and> instr_start p (int (ci_savedpc ci)) \<and> int (ci_savedpc ci) < sizecode p"
    if s: "vm_step M W q S = Ok (S', Called)" for S'
  proof -
    have c: "op = OP_CALL" using exec_op_called s unfolding step by blast
    have e: "exec_call M W (set_pc S (pc + 1)) (GETARG_A ?i) (GETARG_B ?i) (GETARG_C ?i) (pc + 1) = Ok (S', Called)"
      using s unfolding step c exec_op_def Let_def OpCode.case .
    have ne: "vm_ci (L_vm (set_pc S (pc + 1))) \<noteq> []"
      using assms(3) by (auto simp: curr_func_def current_ci_def set_pc_def)
    have "vm_next p (int pc) = [int pc + 1]" using op(1) c by (simp add: vm_next_def tests_iff)
    then show ?thesis using exec_call_saves [OF e ne] nx by (auto simp: set_pc_def add.commute)
  qed
  show ?thesis using op go call by blast
qed

theorem checked_code_closed_witness:
  "\<forall>C W. \<exists>p S S' n. luaG_checkcode p = Ok True \<and> vm_step (example_machine C) W 64 S = Ok (S', Continue n) \<and>
    instr_start p (int n) \<and> int n < sizecode p"
proof (intro allI)
  fix C W
  let ?p = "demo_code [CREATE_ABC (op_num OP_LOADBOOL) 0 1 1, CREATE_ABC (op_num OP_LOADBOOL) 0 0 0, CREATE_ABC (op_num OP_RETURN) 0 2 0]"
  let ?S = "(call_state [VNil, VNil])\<lparr>L_vm := stack_init\<lparr>vm_closure := [64 \<mapsto> LClosure ?p VNil []], vm_below := [VFun 64]\<rparr>\<rparr>"
  have c: "closure_at ?S 64 = Ok (LClosure ?p VNil [])" by (simp add: closure_at_def)
  have f: "curr_func ?S = Ok 64"
    by (simp add: curr_func_def current_ci_def stack_init_def cell_get_def cells_def clvalue_def aget_def)
  have z: "vm_savedpc stack_init = 0" by (simp add: stack_init_def)
  then have pc: "vm_savedpc (L_vm ?S) = 0" by simp
  have b: "GETARG_C (instr_at ?p (int 0)) \<le> 1" by code_simp
  have l: "int 0 < sizecode ?p" by (simp add: sizecode_def demo_code_def)
  have st: "instr_start ?p (int 0)" by (simp add: from_here)
  have i: "code_at ?p 0 = Ok (CREATE_ABC (op_num OP_LOADBOOL) 0 1 1)" by (simp add: code_at_def demo_code_def aget_def)
  have o: "opcode_of (GET_OPCODE (CREATE_ABC (op_num OP_LOADBOOL) 0 1 1)) = Some OP_LOADBOOL" "GETARG_A (CREATE_ABC (op_num OP_LOADBOOL) 0 1 1) = 0"
    by code_simp+
  have "\<exists>S' n. vm_step (example_machine C) W 64 ?S = Ok (S', Continue n)"
    by (simp add: vm_step_def c z i o exec_op_def Let_def set_pc_def st_set_def aset_def reg_def)
  then obtain S' n where s: "vm_step (example_machine C) W 64 ?S = Ok (S', Continue n)" by blast
  from checked_code_closed [OF demo_checked c f pc st l b, of "example_machine C" W] s
  show "\<exists>p S S' n. luaG_checkcode p = Ok True \<and> vm_step (example_machine C) W 64 S = Ok (S', Continue n) \<and>
    instr_start p (int n) \<and> int n < sizecode p" using demo_checked by blast
qed

text \<open>The condition on \<open>LOADBOOL\<close> is needed: the verifier accepts a function in which the interpreter goes on behind the last
instruction.\<close>

theorem checkcode_misses_skip:
  "\<exists>p. luaG_checkcode p = Ok True \<and> sizecode p = 2 \<and>
    (\<forall>M W q S S' fl env ups. closure_at S q = Ok (LClosure p env ups) \<and> vm_savedpc (L_vm S) = 0 \<and>
      vm_step M W q S = Ok (S', fl) \<longrightarrow> fl = Continue 2)"
proof (intro exI conjI allI impI)
  let ?p = "demo_code [CREATE_ABC (op_num OP_LOADBOOL) 0 0 2, CREATE_ABC (op_num OP_RETURN) 0 1 0]"
  show "luaG_checkcode ?p = Ok True" by code_simp
  show "sizecode ?p = 2" by (simp add: sizecode_def demo_code_def)
  have i: "code_at ?p 0 = Ok (CREATE_ABC (op_num OP_LOADBOOL) 0 0 2)" by (simp add: code_at_def demo_code_def aget_def)
  have o: "opcode_of (GET_OPCODE (CREATE_ABC (op_num OP_LOADBOOL) 0 0 2)) = Some OP_LOADBOOL"
    "GETARG_C (CREATE_ABC (op_num OP_LOADBOOL) 0 0 2) = 2" by code_simp+
  fix M W q S S' fl env ups
  assume "closure_at S q = Ok (LClosure ?p env ups) \<and> vm_savedpc (L_vm S) = 0 \<and> vm_step M W q S = Ok (S', fl)"
  then show "fl = Continue 2" by (auto simp: vm_step_def i o exec_op_def Let_def goes_on_Ok)
qed

end
