(* ===== verification/LuaCode.thy ===== *)
theory LuaCode
  imports LuaLex LuaCheck "HOL-Library.Signed_Division"
begin

text \<open>
  The code generator lcode.c. A step of the compiler is a function of the whole state of the compiler, the record
  \<open>PS\<close>, with a result and the new state; \<open>gbind\<close> composes steps. The function that is compiled is
  kept in \<open>FuncState\<close> with the parts of its prototype; an array that grows is a list of the elements in use, so
  its length is the counter of the code (\<open>pc\<close>, \<open>nk\<close>, \<open>np\<close>, \<open>nlocvars\<close>, \<open>nups\<close>). Memory does not run out. The table of constants \<open>fs->h\<close> of
  the current function is the field \<open>ls_h\<close> of the lexical state. An expression descriptor is passed and returned. The
  loops over a list of jumps get one turn more than the function has instructions.
\<close>

section \<open>The state of the compiler\<close>

datatype expkind =
    VVOID | VNIL | VTRUE | VFALSE | VK | VKNUM | VLOCAL | VUPVAL | VGLOBAL | VINDEXED | VJMP | VRELOCABLE | VNONRELOC | VCALL | VVARARG

text \<open>The union of the number and the two fields is read by the kind that wrote it.\<close>

record expdesc =
  e_k :: expkind
  e_info :: int
  e_aux :: int
  e_nval :: lua_Number
  e_t :: int
  e_f :: int

record BlockCnt =
  bl_breaklist :: int
  bl_nactvar :: int
  bl_upval :: bool
  bl_isbreakable :: bool

record upvaldesc =
  uv_k :: expkind
  uv_info :: int

text \<open>\<open>fs_actvar\<close> is an array that starts without values; \<open>fs_hp\<close> is the address of the table of constants.\<close>

record FuncState =
  f_k :: "TValue list"
  f_code :: "Instruction list"
  f_p :: "Proto list"
  f_lineinfo :: "int list"
  f_locvars :: "LocVar list"
  f_upvalues :: "string list"
  f_source :: string
  f_linedefined :: int
  f_lastlinedefined :: int
  f_numparams :: u8
  f_is_vararg :: u8
  f_maxstacksize :: int
  fs_hp :: u32
  fs_bl :: "BlockCnt list"
  fs_lasttarget :: int
  fs_jpc :: int
  fs_freereg :: int
  fs_nactvar :: int
  fs_upvalues :: "upvaldesc list"
  fs_actvar :: "nat option list"

text \<open>\<open>ps_prev\<close> has the enclosing functions, each with its table of constants.\<close>

record 'd PS =
  ps_ls :: "'d LexState"
  ps_fs :: FuncState
  ps_prev :: "(FuncState \<times> Table) list"
  ps_nCcalls :: nat

type_synonym ('d, 'a) gen = "'d PS \<Rightarrow> ('a \<times> 'd PS) res"

definition gret :: "'a \<Rightarrow> ('d, 'a) gen" where
  "gret x = (\<lambda>s. Ok (x, s))"

definition gbind :: "('d, 'a) gen \<Rightarrow> ('a \<Rightarrow> ('d, 'b) gen) \<Rightarrow> ('d, 'b) gen" where
  "gbind m f = (\<lambda>s. rbind (m s) (\<lambda>(x, s1). f x s1))"

definition gseq :: "('d, 'a) gen \<Rightarrow> ('d, 'b) gen \<Rightarrow> ('d, 'b) gen" where
  "gseq m n = gbind m (\<lambda>_. n)"

definition gread :: "('d PS \<Rightarrow> 'a) \<Rightarrow> ('d, 'a) gen" where
  "gread f = (\<lambda>s. Ok (f s, s))"

definition glift :: "'a res \<Rightarrow> ('d, 'a) gen" where
  "glift r = (\<lambda>s. rbind r (\<lambda>x. Ok (x, s)))"

definition gwhen :: "bool \<Rightarrow> ('d, unit) gen \<Rightarrow> ('d, unit) gen" where
  "gwhen b m = (if b then m else gret ())"

text \<open>Read and change the function that is compiled.\<close>

definition fs_read :: "(FuncState \<Rightarrow> 'a) \<Rightarrow> ('d, 'a) gen" where
  "fs_read f = gread (\<lambda>s. f (ps_fs s))"

definition fs_upd :: "(FuncState \<Rightarrow> FuncState) \<Rightarrow> ('d, unit) gen" where
  "fs_upd f = (\<lambda>s. Ok ((), s\<lparr>ps_fs := f (ps_fs s)\<rparr>))"

definition fs_pc :: "FuncState \<Rightarrow> int" where
  "fs_pc fs = int (length (f_code fs))"

definition syntax_error :: "libc \<Rightarrow> string \<Rightarrow> ('d, 'a) gen" where
  "syntax_error C msg = (\<lambda>s. luaX_syntaxerror C (ps_ls s) msg)"

text \<open>The error of \<open>luaM_growvector\<close> when the limit of the array is reached.\<close>

definition growvector :: "nat \<Rightarrow> nat \<Rightarrow> string \<Rightarrow> ('d, unit) gen" where
  "growvector n limit msg = glift (if n < limit then Ok () else Fail (LuaError msg))"

text \<open>An instruction of the function.\<close>

definition code_get :: "int \<Rightarrow> ('d, Instruction) gen" where
  "code_get pc = (\<lambda>s. if pc < 0 then Fail (Undefined ''read out of bounds'')
                      else rbind (aget (f_code (ps_fs s)) (nat pc)) (\<lambda>i. Ok (i, s)))"

definition code_set :: "int \<Rightarrow> Instruction \<Rightarrow> ('d, unit) gen" where
  "code_set pc i = (\<lambda>s. if pc < 0 then Fail (Undefined ''write out of bounds'')
                        else rbind (aset (f_code (ps_fs s)) (nat pc) i) (\<lambda>c. Ok ((), s\<lparr>ps_fs := (ps_fs s)\<lparr>f_code := c\<rparr>\<rparr>)))"

definition code_upd :: "int \<Rightarrow> (Instruction \<Rightarrow> Instruction) \<Rightarrow> ('d, unit) gen" where
  "code_upd pc f = gbind (code_get pc) (\<lambda>i. code_set pc (f i))"

text \<open>The macro \<open>getcode\<close>.\<close>

definition getcode :: "expdesc \<Rightarrow> ('d, Instruction) gen" where
  "getcode e = code_get (e_info e)"

definition NO_JUMP :: int where "NO_JUMP = - 1"

definition hasjumps :: "expdesc \<Rightarrow> bool" where
  "hasjumps e \<longleftrightarrow> e_t e \<noteq> e_f e"

definition isnumeral :: "expdesc \<Rightarrow> bool" where
  "isnumeral e \<longleftrightarrow> e_k e = VKNUM \<and> e_t e = NO_JUMP \<and> e_f e = NO_JUMP"

section \<open>Lists of jumps\<close>

definition fixjump :: "libc \<Rightarrow> int \<Rightarrow> int \<Rightarrow> ('d, unit) gen" where
  "fixjump C pc dest =
     (let offset = dest - (pc + 1) in
      if MAXARG_sBx < \<bar>offset\<bar> then syntax_error C ''control structure too long''
      else code_upd pc (\<lambda>i. SETARG_sBx i offset))"

definition luaK_getlabel :: "('d, int) gen" where
  "luaK_getlabel = gseq (fs_upd (\<lambda>fs. fs\<lparr>fs_lasttarget := fs_pc fs\<rparr>)) (fs_read fs_pc)"

definition getjump :: "int \<Rightarrow> ('d, int) gen" where
  "getjump pc =
     gbind (code_get pc) (\<lambda>i.
       let offset = GETARG_sBx i in gret (if offset = NO_JUMP then NO_JUMP else pc + 1 + offset))"

text \<open>The place of the instruction that controls the jump.\<close>

definition getjumpcontrol :: "int \<Rightarrow> ('d, int) gen" where
  "getjumpcontrol pc =
     (if 1 \<le> pc then gbind (code_get (pc - 1)) (\<lambda>i. gret (if testTMode (GET_OPCODE i) then pc - 1 else pc)) else gret pc)"

text \<open>The bound on the turns of a loop over a list of jumps.\<close>

definition jump_bound :: "('d, nat) gen" where
  "jump_bound = fs_read (\<lambda>fs. Suc (length (f_code fs)))"

primrec need_value_loop :: "nat \<Rightarrow> int \<Rightarrow> ('d, bool) gen" where
  "need_value_loop 0 list = glift (Fail NoFuel)"
| "need_value_loop (Suc n) list =
     (if list = NO_JUMP then gret False
      else gbind (getjumpcontrol list) (\<lambda>pi. gbind (code_get pi) (\<lambda>i.
        if \<not> op_is i OP_TESTSET then gret True
        else gbind (getjump list) (need_value_loop n))))"

definition need_value :: "int \<Rightarrow> ('d, bool) gen" where
  "need_value list = gbind jump_bound (\<lambda>n. need_value_loop n list)"

definition patchtestreg :: "int \<Rightarrow> int \<Rightarrow> ('d, bool) gen" where
  "patchtestreg node reg =
     gbind (getjumpcontrol node) (\<lambda>pi. gbind (code_get pi) (\<lambda>i.
       if \<not> op_is i OP_TESTSET then gret False
       else gseq (code_set pi (if reg \<noteq> NO_REG \<and> reg \<noteq> GETARG_B i then SETARG_A i reg
                               else CREATE_ABC (op_num OP_TEST) (GETARG_B i) 0 (GETARG_C i)))
         (gret True)))"

primrec removevalues_loop :: "nat \<Rightarrow> int \<Rightarrow> ('d, unit) gen" where
  "removevalues_loop 0 list = glift (Fail NoFuel)"
| "removevalues_loop (Suc n) list =
     (if list = NO_JUMP then gret ()
      else gseq (patchtestreg list NO_REG) (gbind (getjump list) (removevalues_loop n)))"

definition removevalues :: "int \<Rightarrow> ('d, unit) gen" where
  "removevalues list = gbind jump_bound (\<lambda>n. removevalues_loop n list)"

primrec patchlist_loop :: "libc \<Rightarrow> nat \<Rightarrow> int \<Rightarrow> int \<Rightarrow> int \<Rightarrow> int \<Rightarrow> ('d, unit) gen" where
  "patchlist_loop C 0 list vtarget reg dtarget = glift (Fail NoFuel)"
| "patchlist_loop C (Suc n) list vtarget reg dtarget =
     (if list = NO_JUMP then gret ()
      else gbind (getjump list) (\<lambda>nxt.
        gbind (patchtestreg list reg) (\<lambda>b.
        gseq (fixjump C list (if b then vtarget else dtarget)) (patchlist_loop C n nxt vtarget reg dtarget))))"

definition patchlistaux :: "libc \<Rightarrow> int \<Rightarrow> int \<Rightarrow> int \<Rightarrow> int \<Rightarrow> ('d, unit) gen" where
  "patchlistaux C list vtarget reg dtarget = gbind jump_bound (\<lambda>n. patchlist_loop C n list vtarget reg dtarget)"

definition dischargejpc :: "libc \<Rightarrow> ('d, unit) gen" where
  "dischargejpc C =
     gbind (fs_read (\<lambda>fs. (fs_jpc fs, fs_pc fs))) (\<lambda>(jpc, pc).
     gseq (patchlistaux C jpc pc NO_REG pc) (fs_upd (\<lambda>fs. fs\<lparr>fs_jpc := NO_JUMP\<rparr>)))"

text \<open>The last jump of a list that is not empty.\<close>

primrec last_jump :: "nat \<Rightarrow> int \<Rightarrow> ('d, int) gen" where
  "last_jump 0 list = glift (Fail NoFuel)"
| "last_jump (Suc n) list = gbind (getjump list) (\<lambda>nxt. if nxt = NO_JUMP then gret list else last_jump n nxt)"

text \<open>The new value of the first list is the result.\<close>

definition luaK_concat :: "libc \<Rightarrow> int \<Rightarrow> int \<Rightarrow> ('d, int) gen" where
  "luaK_concat C l1 l2 =
     (if l2 = NO_JUMP then gret l1
      else if l1 = NO_JUMP then gret l2
      else gbind jump_bound (\<lambda>n. gbind (last_jump n l1) (\<lambda>list. gseq (fixjump C list l2) (gret l1))))"

definition luaK_patchtohere :: "libc \<Rightarrow> int \<Rightarrow> ('d, unit) gen" where
  "luaK_patchtohere C list =
     gseq luaK_getlabel (gbind (fs_read fs_jpc) (\<lambda>jpc. gbind (luaK_concat C jpc list) (\<lambda>l. fs_upd (\<lambda>fs. fs\<lparr>fs_jpc := l\<rparr>))))"

definition luaK_patchlist :: "libc \<Rightarrow> int \<Rightarrow> int \<Rightarrow> ('d, unit) gen" where
  "luaK_patchlist C list target =
     gbind (fs_read fs_pc) (\<lambda>pc.
       if target = pc then luaK_patchtohere C list else patchlistaux C list target NO_REG target)"

section \<open>Emitting instructions\<close>

definition luaK_fixline :: "int \<Rightarrow> ('d, unit) gen" where
  "luaK_fixline line = (\<lambda>s.
     rbind (if f_code (ps_fs s) = [] then Fail (Undefined ''write out of bounds'')
            else aset (f_lineinfo (ps_fs s)) (length (f_code (ps_fs s)) - 1) line) (\<lambda>l.
       Ok ((), s\<lparr>ps_fs := (ps_fs s)\<lparr>f_lineinfo := l\<rparr>\<rparr>)))"

definition luaK_code :: "libc \<Rightarrow> Instruction \<Rightarrow> int \<Rightarrow> ('d, int) gen" where
  "luaK_code C i line =
     gseq (dischargejpc C)
       (gbind (fs_read (\<lambda>fs. length (f_code fs))) (\<lambda>pc.
        gseq (growvector pc MAX_INT ''code size overflow'')
          (gseq (fs_upd (\<lambda>fs. fs\<lparr>f_code := f_code fs @ [i], f_lineinfo := f_lineinfo fs @ [line]\<rparr>))
            (gret (int pc)))))"

definition luaK_codeABC :: "libc \<Rightarrow> OpCode \<Rightarrow> int \<Rightarrow> int \<Rightarrow> int \<Rightarrow> ('d, int) gen" where
  "luaK_codeABC C op a b c = gbind (gread (\<lambda>s. ls_lastline (ps_ls s))) (luaK_code C (CREATE_ABC (op_num op) a b c))"

definition luaK_codeABx :: "libc \<Rightarrow> OpCode \<Rightarrow> int \<Rightarrow> int \<Rightarrow> ('d, int) gen" where
  "luaK_codeABx C op a bc = gbind (gread (\<lambda>s. ls_lastline (ps_ls s))) (luaK_code C (CREATE_ABx (op_num op) a bc))"

definition luaK_codeAsBx :: "libc \<Rightarrow> OpCode \<Rightarrow> int \<Rightarrow> int \<Rightarrow> ('d, int) gen" where
  "luaK_codeAsBx C op a sbx = luaK_codeABx C op a (sbx + MAXARG_sBx)"

definition luaK_nil :: "libc \<Rightarrow> int \<Rightarrow> int \<Rightarrow> ('d, unit) gen" where
  "luaK_nil C from n =
     gbind (fs_read id) (\<lambda>fs.
       let emit = gseq (luaK_codeABC C OP_LOADNIL from (from + n - 1) 0) (gret ()) in
       if fs_lasttarget fs < fs_pc fs then
         (if fs_pc fs = 0 then gwhen (from < fs_nactvar fs) emit
          else gbind (code_get (fs_pc fs - 1)) (\<lambda>i.
            if op_is i OP_LOADNIL \<and> GETARG_A i \<le> from \<and> from \<le> GETARG_B i + 1 then
              gwhen (GETARG_B i < from + n - 1) (code_set (fs_pc fs - 1) (SETARG_B i (from + n - 1)))
            else emit))
       else emit)"

definition luaK_jump :: "libc \<Rightarrow> ('d, int) gen" where
  "luaK_jump C =
     gbind (fs_read fs_jpc) (\<lambda>jpc.
     gseq (fs_upd (\<lambda>fs. fs\<lparr>fs_jpc := NO_JUMP\<rparr>))
       (gbind (luaK_codeAsBx C OP_JMP 0 NO_JUMP) (\<lambda>j. luaK_concat C j jpc)))"

definition luaK_ret :: "libc \<Rightarrow> int \<Rightarrow> int \<Rightarrow> ('d, unit) gen" where
  "luaK_ret C first nret = gseq (luaK_codeABC C OP_RETURN first (nret + 1) 0) (gret ())"

definition condjump :: "libc \<Rightarrow> OpCode \<Rightarrow> int \<Rightarrow> int \<Rightarrow> int \<Rightarrow> ('d, int) gen" where
  "condjump C op a b c = gseq (luaK_codeABC C op a b c) (luaK_jump C)"

section \<open>Registers\<close>

definition luaK_checkstack :: "libc \<Rightarrow> int \<Rightarrow> ('d, unit) gen" where
  "luaK_checkstack C n =
     gbind (fs_read id) (\<lambda>fs.
       let newstack = fs_freereg fs + n in
       gwhen (f_maxstacksize fs < newstack)
         (if MAXSTACK \<le> newstack then syntax_error C ''function or expression too complex''
          else fs_upd (\<lambda>fs. fs\<lparr>f_maxstacksize := newstack mod 256\<rparr>)))"

definition luaK_reserveregs :: "libc \<Rightarrow> int \<Rightarrow> ('d, unit) gen" where
  "luaK_reserveregs C n = gseq (luaK_checkstack C n) (fs_upd (\<lambda>fs. fs\<lparr>fs_freereg := fs_freereg fs + n\<rparr>))"

definition freereg :: "int \<Rightarrow> ('d, unit) gen" where
  "freereg r = fs_upd (\<lambda>fs. if \<not> ISK r \<and> fs_nactvar fs \<le> r then fs\<lparr>fs_freereg := fs_freereg fs - 1\<rparr> else fs)"

definition freeexp :: "expdesc \<Rightarrow> ('d, unit) gen" where
  "freeexp e = gwhen (e_k e = VNONRELOC) (freereg (e_info e))"

section \<open>Constants\<close>

text \<open>The entry of the key in the table of constants is the place of the constant.\<close>

definition addk :: "TValue \<Rightarrow> TValue \<Rightarrow> ('d, int) gen" where
  "addk k v = (\<lambda>s.
     rbind (luaH_set (ls_h (ps_ls s)) k) (\<lambda>(h, idx).
       case slot_val h idx of
         VNum n \<Rightarrow> Ok (dbl_trunc n, s\<lparr>ps_ls := (ps_ls s)\<lparr>ls_h := h\<rparr>\<rparr>)
       | _ \<Rightarrow>
           (let nk = length (f_k (ps_fs s)) in
            gseq (growvector nk (nat MAXARG_Bx) ''constant table overflow'')
              (gseq (fs_upd (\<lambda>fs. fs\<lparr>f_k := f_k fs @ [v]\<rparr>)) (gret (int nk)))
              (s\<lparr>ps_ls := (ps_ls s)\<lparr>ls_h := slot_set h idx (VNum (cast_num (int nk)))\<rparr>\<rparr>))))"

definition luaK_stringK :: "string \<Rightarrow> ('d, int) gen" where "luaK_stringK str = addk (VStr str) (VStr str)"
definition luaK_numberK :: "lua_Number \<Rightarrow> ('d, int) gen" where "luaK_numberK r = addk (VNum r) (VNum r)"
definition boolK :: "bool \<Rightarrow> ('d, int) gen" where "boolK b = addk (VBool b) (VBool b)"
definition nilK :: "('d, int) gen" where "nilK = gbind (fs_read fs_hp) (\<lambda>p. addk (VTable p) VNil)"

section \<open>Expressions\<close>

definition luaK_setreturns :: "libc \<Rightarrow> expdesc \<Rightarrow> int \<Rightarrow> ('d, unit) gen" where
  "luaK_setreturns C e nresults =
     (if e_k e = VCALL then code_upd (e_info e) (\<lambda>i. SETARG_C i (nresults + 1))
      else if e_k e = VVARARG then
        gseq (code_upd (e_info e) (\<lambda>i. SETARG_B i (nresults + 1)))
          (gbind (fs_read fs_freereg) (\<lambda>r. gseq (code_upd (e_info e) (\<lambda>i. SETARG_A i r)) (luaK_reserveregs C 1)))
      else gret ())"

definition luaK_setmultret :: "libc \<Rightarrow> expdesc \<Rightarrow> ('d, unit) gen" where
  "luaK_setmultret C e = luaK_setreturns C e LUA_MULTRET"

definition luaK_setoneret :: "expdesc \<Rightarrow> ('d, expdesc) gen" where
  "luaK_setoneret e =
     (if e_k e = VCALL then gbind (getcode e) (\<lambda>i. gret (e\<lparr>e_k := VNONRELOC, e_info := GETARG_A i\<rparr>))
      else if e_k e = VVARARG then gseq (code_upd (e_info e) (\<lambda>i. SETARG_B i 2)) (gret (e\<lparr>e_k := VRELOCABLE\<rparr>))
      else gret e)"

definition luaK_dischargevars :: "libc \<Rightarrow> expdesc \<Rightarrow> ('d, expdesc) gen" where
  "luaK_dischargevars C e =
     (case e_k e of
        VLOCAL \<Rightarrow> gret (e\<lparr>e_k := VNONRELOC\<rparr>)
      | VUPVAL \<Rightarrow> gbind (luaK_codeABC C OP_GETUPVAL 0 (e_info e) 0) (\<lambda>pc. gret (e\<lparr>e_info := pc, e_k := VRELOCABLE\<rparr>))
      | VGLOBAL \<Rightarrow> gbind (luaK_codeABx C OP_GETGLOBAL 0 (e_info e)) (\<lambda>pc. gret (e\<lparr>e_info := pc, e_k := VRELOCABLE\<rparr>))
      | VINDEXED \<Rightarrow>
          gseq (freereg (e_aux e)) (gseq (freereg (e_info e))
            (gbind (luaK_codeABC C OP_GETTABLE 0 (e_info e) (e_aux e)) (\<lambda>pc. gret (e\<lparr>e_info := pc, e_k := VRELOCABLE\<rparr>))))
      | VVARARG \<Rightarrow> luaK_setoneret e
      | VCALL \<Rightarrow> luaK_setoneret e
      | _ \<Rightarrow> gret e)"

definition code_label :: "libc \<Rightarrow> int \<Rightarrow> int \<Rightarrow> int \<Rightarrow> ('d, int) gen" where
  "code_label C a b jump = gseq luaK_getlabel (luaK_codeABC C OP_LOADBOOL a b jump)"

definition discharge2reg :: "libc \<Rightarrow> expdesc \<Rightarrow> int \<Rightarrow> ('d, expdesc) gen" where
  "discharge2reg C e0 reg =
     gbind (luaK_dischargevars C e0) (\<lambda>e.
       let done = gret (e\<lparr>e_info := reg, e_k := VNONRELOC\<rparr>) in
       case e_k e of
         VNIL \<Rightarrow> gseq (luaK_nil C reg 1) done
       | VFALSE \<Rightarrow> gseq (luaK_codeABC C OP_LOADBOOL reg 0 0) done
       | VTRUE \<Rightarrow> gseq (luaK_codeABC C OP_LOADBOOL reg 1 0) done
       | VK \<Rightarrow> gseq (luaK_codeABx C OP_LOADK reg (e_info e)) done
       | VKNUM \<Rightarrow> gbind (luaK_numberK (e_nval e)) (\<lambda>k. gseq (luaK_codeABx C OP_LOADK reg k) done)
       | VRELOCABLE \<Rightarrow> gseq (code_upd (e_info e) (\<lambda>i. SETARG_A i reg)) done
       | VNONRELOC \<Rightarrow> if reg \<noteq> e_info e then gseq (luaK_codeABC C OP_MOVE reg (e_info e) 0) done else done
       | _ \<Rightarrow> gret e)"

definition discharge2anyreg :: "libc \<Rightarrow> expdesc \<Rightarrow> ('d, expdesc) gen" where
  "discharge2anyreg C e =
     (if e_k e \<noteq> VNONRELOC then
        gseq (luaK_reserveregs C 1) (gbind (fs_read fs_freereg) (\<lambda>r. discharge2reg C e (r - 1)))
      else gret e)"

text \<open>The instructions that load false and true for the jumps that bring no value.\<close>

definition load_labels :: "libc \<Rightarrow> expdesc \<Rightarrow> int \<Rightarrow> ('d, int \<times> int) gen" where
  "load_labels C e reg =
     gbind (need_value (e_t e)) (\<lambda>nt. gbind (if nt then gret True else need_value (e_f e)) (\<lambda>need.
       if need then
         gbind (if e_k e = VJMP then gret NO_JUMP else luaK_jump C) (\<lambda>fj.
         gbind (code_label C reg 0 1) (\<lambda>p_f. gbind (code_label C reg 1 0) (\<lambda>p_t.
         gseq (luaK_patchtohere C fj) (gret (p_f, p_t)))))
       else gret (NO_JUMP, NO_JUMP)))"

definition exp2reg :: "libc \<Rightarrow> expdesc \<Rightarrow> int \<Rightarrow> ('d, expdesc) gen" where
  "exp2reg C e0 reg =
     gbind (discharge2reg C e0 reg) (\<lambda>e1.
     gbind (if e_k e1 = VJMP then gbind (luaK_concat C (e_t e1) (e_info e1)) (\<lambda>t. gret (e1\<lparr>e_t := t\<rparr>)) else gret e1) (\<lambda>e.
     gseq (gwhen (hasjumps e)
       (gbind (load_labels C e reg) (\<lambda>(p_f, p_t).
        gbind luaK_getlabel (\<lambda>final.
        gseq (patchlistaux C (e_f e) final reg p_f) (patchlistaux C (e_t e) final reg p_t)))))
       (gret (e\<lparr>e_f := NO_JUMP, e_t := NO_JUMP, e_info := reg, e_k := VNONRELOC\<rparr>))))"

definition luaK_exp2nextreg :: "libc \<Rightarrow> expdesc \<Rightarrow> ('d, expdesc) gen" where
  "luaK_exp2nextreg C e0 =
     gbind (luaK_dischargevars C e0) (\<lambda>e.
     gseq (freeexp e) (gseq (luaK_reserveregs C 1) (gbind (fs_read fs_freereg) (\<lambda>r. exp2reg C e (r - 1)))))"

definition luaK_exp2anyreg :: "libc \<Rightarrow> expdesc \<Rightarrow> ('d, expdesc) gen" where
  "luaK_exp2anyreg C e0 =
     gbind (luaK_dischargevars C e0) (\<lambda>e.
     gbind (fs_read fs_nactvar) (\<lambda>nact.
       if e_k e = VNONRELOC \<and> \<not> hasjumps e then gret e
       else if e_k e = VNONRELOC \<and> nact \<le> e_info e then exp2reg C e (e_info e)
       else luaK_exp2nextreg C e))"

definition luaK_exp2val :: "libc \<Rightarrow> expdesc \<Rightarrow> ('d, expdesc) gen" where
  "luaK_exp2val C e = (if hasjumps e then luaK_exp2anyreg C e else luaK_dischargevars C e)"

text \<open>The operand of an instruction, a register or a constant, and the descriptor.\<close>

definition luaK_exp2RK :: "libc \<Rightarrow> expdesc \<Rightarrow> ('d, int \<times> expdesc) gen" where
  "luaK_exp2RK C e0 =
     gbind (luaK_exp2val C e0) (\<lambda>e.
     let to_reg = gbind (luaK_exp2anyreg C e) (\<lambda>e1. gret (e_info e1, e1));
         const = (\<lambda>m. gbind (fs_read (\<lambda>fs. int (length (f_k fs)))) (\<lambda>nk.
                   if nk \<le> MAXINDEXRK then gbind m (\<lambda>k. gret (RKASK k, e\<lparr>e_info := k, e_k := VK\<rparr>)) else to_reg))
     in case e_k e of
          VKNUM \<Rightarrow> const (luaK_numberK (e_nval e))
        | VTRUE \<Rightarrow> const (boolK True)
        | VFALSE \<Rightarrow> const (boolK False)
        | VNIL \<Rightarrow> const nilK
        | VK \<Rightarrow> if e_info e \<le> MAXINDEXRK then gret (RKASK (e_info e), e) else to_reg
        | _ \<Rightarrow> to_reg)"

definition luaK_storevar :: "libc \<Rightarrow> expdesc \<Rightarrow> expdesc \<Rightarrow> ('d, unit) gen" where
  "luaK_storevar C var ex =
     (case e_k var of
        VLOCAL \<Rightarrow> gseq (freeexp ex) (gseq (exp2reg C ex (e_info var)) (gret ()))
      | VUPVAL \<Rightarrow>
          gbind (luaK_exp2anyreg C ex) (\<lambda>e. gseq (luaK_codeABC C OP_SETUPVAL (e_info e) (e_info var) 0) (freeexp e))
      | VGLOBAL \<Rightarrow>
          gbind (luaK_exp2anyreg C ex) (\<lambda>e. gseq (luaK_codeABx C OP_SETGLOBAL (e_info e) (e_info var)) (freeexp e))
      | VINDEXED \<Rightarrow>
          gbind (luaK_exp2RK C ex) (\<lambda>(r, e). gseq (luaK_codeABC C OP_SETTABLE (e_info var) (e_aux var) r) (freeexp e))
      | _ \<Rightarrow> freeexp ex)"

definition luaK_self :: "libc \<Rightarrow> expdesc \<Rightarrow> expdesc \<Rightarrow> ('d, expdesc) gen" where
  "luaK_self C e0 key0 =
     gbind (luaK_exp2anyreg C e0) (\<lambda>e.
     gseq (freeexp e)
       (gbind (fs_read fs_freereg) (\<lambda>func.
        gseq (luaK_reserveregs C 2)
          (gbind (luaK_exp2RK C key0) (\<lambda>(r, key).
           gseq (luaK_codeABC C OP_SELF func (e_info e) r)
             (gseq (freeexp key) (gret (e\<lparr>e_info := func, e_k := VNONRELOC\<rparr>))))))))"

section \<open>Conditions\<close>

definition invertjump :: "expdesc \<Rightarrow> ('d, unit) gen" where
  "invertjump e = gbind (getjumpcontrol (e_info e)) (\<lambda>pc. code_upd pc (\<lambda>i. SETARG_A i (if GETARG_A i = 0 then 1 else 0)))"

text \<open>A test of a negation takes back the instruction that negates. The descriptor that the code leaves behind is the result, too.\<close>

definition jumponcond :: "libc \<Rightarrow> expdesc \<Rightarrow> bool \<Rightarrow> ('d, int \<times> expdesc) gen" where
  "jumponcond C e0 cond =
     (let go = gbind (discharge2anyreg C e0) (\<lambda>e. gseq (freeexp e)
                 (gbind (condjump C OP_TESTSET NO_REG (e_info e) (of_bool cond)) (\<lambda>pc. gret (pc, e))))
      in if e_k e0 = VRELOCABLE then
           gbind (getcode e0) (\<lambda>ie.
             if op_is ie OP_NOT then
               gseq (fs_upd (\<lambda>fs. fs\<lparr>f_code := butlast (f_code fs), f_lineinfo := butlast (f_lineinfo fs)\<rparr>))
                 (gbind (condjump C OP_TEST (GETARG_B ie) 0 (of_bool (\<not> cond))) (\<lambda>pc. gret (pc, e0)))
             else go)
         else go)"

definition luaK_goiftrue :: "libc \<Rightarrow> expdesc \<Rightarrow> ('d, expdesc) gen" where
  "luaK_goiftrue C e0 =
     gbind (luaK_dischargevars C e0) (\<lambda>e.
     gbind (case e_k e of
              VK \<Rightarrow> gret (NO_JUMP, e)
            | VKNUM \<Rightarrow> gret (NO_JUMP, e)
            | VTRUE \<Rightarrow> gret (NO_JUMP, e)
            | VFALSE \<Rightarrow> gbind (luaK_jump C) (\<lambda>pc. gret (pc, e))
            | VJMP \<Rightarrow> gseq (invertjump e) (gret (e_info e, e))
            | _ \<Rightarrow> jumponcond C e False) (\<lambda>(pc, e1).
     gbind (luaK_concat C (e_f e1) pc) (\<lambda>f.
     gseq (luaK_patchtohere C (e_t e1)) (gret (e1\<lparr>e_f := f, e_t := NO_JUMP\<rparr>)))))"

definition luaK_goiffalse :: "libc \<Rightarrow> expdesc \<Rightarrow> ('d, expdesc) gen" where
  "luaK_goiffalse C e0 =
     gbind (luaK_dischargevars C e0) (\<lambda>e.
     gbind (case e_k e of
              VNIL \<Rightarrow> gret (NO_JUMP, e)
            | VFALSE \<Rightarrow> gret (NO_JUMP, e)
            | VTRUE \<Rightarrow> gbind (luaK_jump C) (\<lambda>pc. gret (pc, e))
            | VJMP \<Rightarrow> gret (e_info e, e)
            | _ \<Rightarrow> jumponcond C e True) (\<lambda>(pc, e1).
     gbind (luaK_concat C (e_t e1) pc) (\<lambda>t.
     gseq (luaK_patchtohere C (e_f e1)) (gret (e1\<lparr>e_t := t, e_f := NO_JUMP\<rparr>)))))"

definition codenot :: "libc \<Rightarrow> expdesc \<Rightarrow> ('d, expdesc) gen" where
  "codenot C e0 =
     gbind (luaK_dischargevars C e0) (\<lambda>e.
     gbind (case e_k e of
              VNIL \<Rightarrow> gret (e\<lparr>e_k := VTRUE\<rparr>)
            | VFALSE \<Rightarrow> gret (e\<lparr>e_k := VTRUE\<rparr>)
            | VK \<Rightarrow> gret (e\<lparr>e_k := VFALSE\<rparr>)
            | VKNUM \<Rightarrow> gret (e\<lparr>e_k := VFALSE\<rparr>)
            | VTRUE \<Rightarrow> gret (e\<lparr>e_k := VFALSE\<rparr>)
            | VJMP \<Rightarrow> gseq (invertjump e) (gret e)
            | VRELOCABLE \<Rightarrow> gbind (discharge2anyreg C e) (\<lambda>e1. gseq (freeexp e1)
                (gbind (luaK_codeABC C OP_NOT 0 (e_info e1) 0) (\<lambda>pc. gret (e1\<lparr>e_info := pc, e_k := VRELOCABLE\<rparr>))))
            | VNONRELOC \<Rightarrow> gbind (discharge2anyreg C e) (\<lambda>e1. gseq (freeexp e1)
                (gbind (luaK_codeABC C OP_NOT 0 (e_info e1) 0) (\<lambda>pc. gret (e1\<lparr>e_info := pc, e_k := VRELOCABLE\<rparr>))))
            | _ \<Rightarrow> gret e) (\<lambda>e1.
     let e2 = e1\<lparr>e_f := e_t e1, e_t := e_f e1\<rparr> in
     gseq (removevalues (e_f e2)) (gseq (removevalues (e_t e2)) (gret e2))))"

definition luaK_indexed :: "libc \<Rightarrow> expdesc \<Rightarrow> expdesc \<Rightarrow> ('d, expdesc) gen" where
  "luaK_indexed C t k = gbind (luaK_exp2RK C k) (\<lambda>(r, _). gret (t\<lparr>e_aux := r, e_k := VINDEXED\<rparr>))"

section \<open>Operators\<close>

datatype BinOpr =
    OPR_ADD | OPR_SUB | OPR_MUL | OPR_DIV | OPR_MOD | OPR_POW | OPR_CONCAT | OPR_NE | OPR_EQ
  | OPR_LT | OPR_LE | OPR_GT | OPR_GE | OPR_AND | OPR_OR | OPR_NOBINOPR

datatype UnOpr = OPR_MINUS | OPR_NOT | OPR_LEN | OPR_NOUNOPR

text \<open>The result of an operation on constants, if it is computed now.\<close>

definition constfolding :: "libc \<Rightarrow> OpCode \<Rightarrow> expdesc \<Rightarrow> expdesc \<Rightarrow> expdesc option" where
  "constfolding C op e1 e2 =
     (if \<not> isnumeral e1 \<or> \<not> isnumeral e2 then None
      else
        (let v1 = e_nval e1; v2 = e_nval e2;
             fold = (\<lambda>r. if luai_numisnan r then None else Some (e1\<lparr>e_nval := r\<rparr>))
         in case op of
              OP_ADD \<Rightarrow> fold (luai_numadd v1 v2)
            | OP_SUB \<Rightarrow> fold (luai_numsub v1 v2)
            | OP_MUL \<Rightarrow> fold (luai_nummul v1 v2)
            | OP_DIV \<Rightarrow> if luai_numeq v2 0 then None else fold (luai_numdiv v1 v2)
            | OP_MOD \<Rightarrow> if luai_numeq v2 0 then None else fold (luai_nummod v1 v2)
            | OP_POW \<Rightarrow> fold (c_pow C v1 v2)
            | OP_UNM \<Rightarrow> fold (luai_numunm v1)
            | OP_LEN \<Rightarrow> None
            | _ \<Rightarrow> fold 0))"

definition codearith :: "libc \<Rightarrow> OpCode \<Rightarrow> expdesc \<Rightarrow> expdesc \<Rightarrow> ('d, expdesc) gen" where
  "codearith C op e1 e2 =
     (case constfolding C op e1 e2 of
        Some e \<Rightarrow> gret e
      | None \<Rightarrow>
          gbind (if op \<noteq> OP_UNM \<and> op \<noteq> OP_LEN then luaK_exp2RK C e2 else gret (0, e2)) (\<lambda>(o2, e2).
          gbind (luaK_exp2RK C e1) (\<lambda>(o1, e1).
          gseq (if o2 < o1 then gseq (freeexp e1) (freeexp e2) else gseq (freeexp e2) (freeexp e1))
            (gbind (luaK_codeABC C op 0 o1 o2) (\<lambda>pc. gret (e1\<lparr>e_info := pc, e_k := VRELOCABLE\<rparr>))))))"

definition codecomp :: "libc \<Rightarrow> OpCode \<Rightarrow> bool \<Rightarrow> expdesc \<Rightarrow> expdesc \<Rightarrow> ('d, expdesc) gen" where
  "codecomp C op cond e1 e2 =
     gbind (luaK_exp2RK C e1) (\<lambda>(o1, e1).
     gbind (luaK_exp2RK C e2) (\<lambda>(o2, e2).
     gseq (freeexp e2) (gseq (freeexp e1)
       (gbind (if \<not> cond \<and> op \<noteq> OP_EQ then condjump C op 1 o2 o1 else condjump C op (of_bool cond) o1 o2) (\<lambda>pc.
        gret (e1\<lparr>e_info := pc, e_k := VJMP\<rparr>))))))"

definition luaK_prefix :: "libc \<Rightarrow> UnOpr \<Rightarrow> expdesc \<Rightarrow> ('d, expdesc) gen" where
  "luaK_prefix C op e =
     (let e2 = \<lparr>e_k = VKNUM, e_info = 0, e_aux = 0, e_nval = 0, e_t = NO_JUMP, e_f = NO_JUMP\<rparr> in
      case op of
        OPR_MINUS \<Rightarrow> gbind (if isnumeral e then gret e else luaK_exp2anyreg C e) (\<lambda>e. codearith C OP_UNM e e2)
      | OPR_NOT \<Rightarrow> codenot C e
      | OPR_LEN \<Rightarrow> gbind (luaK_exp2anyreg C e) (\<lambda>e. codearith C OP_LEN e e2)
      | OPR_NOUNOPR \<Rightarrow> gret e)"

definition arith_opr :: "BinOpr \<Rightarrow> OpCode option" where
  "arith_opr op =
     (case op of
        OPR_ADD \<Rightarrow> Some OP_ADD | OPR_SUB \<Rightarrow> Some OP_SUB | OPR_MUL \<Rightarrow> Some OP_MUL | OPR_DIV \<Rightarrow> Some OP_DIV
      | OPR_MOD \<Rightarrow> Some OP_MOD | OPR_POW \<Rightarrow> Some OP_POW | _ \<Rightarrow> None)"

definition luaK_infix :: "libc \<Rightarrow> BinOpr \<Rightarrow> expdesc \<Rightarrow> ('d, expdesc) gen" where
  "luaK_infix C op v =
     (if op = OPR_AND then luaK_goiftrue C v
      else if op = OPR_OR then luaK_goiffalse C v
      else if op = OPR_CONCAT then luaK_exp2nextreg C v
      else if arith_opr op \<noteq> None \<and> isnumeral v then gret v
      else gbind (luaK_exp2RK C v) (\<lambda>(r, e). gret e))"

definition luaK_posfix :: "libc \<Rightarrow> BinOpr \<Rightarrow> expdesc \<Rightarrow> expdesc \<Rightarrow> ('d, expdesc) gen" where
  "luaK_posfix C op e1 e2 =
     (case op of
        OPR_AND \<Rightarrow> gbind (luaK_dischargevars C e2) (\<lambda>e. gbind (luaK_concat C (e_f e) (e_f e1)) (\<lambda>f. gret (e\<lparr>e_f := f\<rparr>)))
      | OPR_OR \<Rightarrow> gbind (luaK_dischargevars C e2) (\<lambda>e. gbind (luaK_concat C (e_t e) (e_t e1)) (\<lambda>t. gret (e\<lparr>e_t := t\<rparr>)))
      | OPR_CONCAT \<Rightarrow>
          gbind (luaK_exp2val C e2) (\<lambda>e.
          gbind (if e_k e = VRELOCABLE then gbind (getcode e) (\<lambda>i. gret (op_is i OP_CONCAT)) else gret False) (\<lambda>joins.
            if joins then
              gseq (freeexp e1) (gseq (code_upd (e_info e) (\<lambda>i. SETARG_B i (e_info e1)))
                (gret (e1\<lparr>e_k := VRELOCABLE, e_info := e_info e\<rparr>)))
            else gbind (luaK_exp2nextreg C e) (\<lambda>e3. codearith C OP_CONCAT e1 e3)))
      | OPR_EQ \<Rightarrow> codecomp C OP_EQ True e1 e2
      | OPR_NE \<Rightarrow> codecomp C OP_EQ False e1 e2
      | OPR_LT \<Rightarrow> codecomp C OP_LT True e1 e2
      | OPR_LE \<Rightarrow> codecomp C OP_LE True e1 e2
      | OPR_GT \<Rightarrow> codecomp C OP_LT False e1 e2
      | OPR_GE \<Rightarrow> codecomp C OP_LE False e1 e2
      | _ \<Rightarrow> (case arith_opr op of Some oc \<Rightarrow> codearith C oc e1 e2 | None \<Rightarrow> gret e1))"

definition luaK_setlist :: "libc \<Rightarrow> int \<Rightarrow> int \<Rightarrow> int \<Rightarrow> ('d, unit) gen" where
  "luaK_setlist C base nelems tostore =
     (let c = (nelems - 1) sdiv LFIELDS_PER_FLUSH + 1; b = (if tostore = LUA_MULTRET then 0 else tostore) in
      gseq (if c \<le> MAXARG_C then luaK_codeABC C OP_SETLIST base b c
            else gseq (luaK_codeABC C OP_SETLIST base b 0) (gbind (gread (\<lambda>s. ls_lastline (ps_ls s))) (luaK_code C (word_of_int c))))
        (fs_upd (\<lambda>fs. fs\<lparr>fs_freereg := base + 1\<rparr>)))"

end
