(* ===== verification/LuaParser.thy ===== *)
theory LuaParser
  imports LuaCode
begin

text \<open>
  The parser lparser.c: one pass over the tokens that generates code through \<open>LuaCode\<close>. A grammar rule is a step of the
  compiler. The rules for expressions and for chunks call each other without end only through \<open>subexpr\<close> and \<open>chunk\<close>, which
  count the nesting in \<open>nCcalls\<close>: the other rules get these two as arguments, and \<open>grammar\<close> ties the knot, with one level more than the
  limit \<open>LUAI_MAXCCALLS\<close> permits. The loops in a rule and the lexical analyser get \<open>f\<close> turns; each turn reads a token. The block that a
  statement opens is the innermost one when the statement closes it, so \<open>BlockCnt\<close> records live in a list.
\<close>

section \<open>Tokens\<close>

definition TK_AND :: int where "TK_AND = 257"
definition TK_BREAK :: int where "TK_BREAK = 258"
definition TK_DO :: int where "TK_DO = 259"
definition TK_ELSE :: int where "TK_ELSE = 260"
definition TK_ELSEIF :: int where "TK_ELSEIF = 261"
definition TK_END :: int where "TK_END = 262"
definition TK_FALSE :: int where "TK_FALSE = 263"
definition TK_FOR :: int where "TK_FOR = 264"
definition TK_FUNCTION :: int where "TK_FUNCTION = 265"
definition TK_IF :: int where "TK_IF = 266"
definition TK_IN :: int where "TK_IN = 267"
definition TK_LOCAL :: int where "TK_LOCAL = 268"
definition TK_NIL :: int where "TK_NIL = 269"
definition TK_NOT :: int where "TK_NOT = 270"
definition TK_OR :: int where "TK_OR = 271"
definition TK_REPEAT :: int where "TK_REPEAT = 272"
definition TK_RETURN :: int where "TK_RETURN = 273"
definition TK_THEN :: int where "TK_THEN = 274"
definition TK_TRUE :: int where "TK_TRUE = 275"
definition TK_UNTIL :: int where "TK_UNTIL = 276"
definition TK_WHILE :: int where "TK_WHILE = 277"

lemmas keyword_defs = TK_AND_def TK_BREAK_def TK_DO_def TK_ELSE_def TK_ELSEIF_def TK_END_def TK_FALSE_def TK_FOR_def TK_FUNCTION_def
  TK_IF_def TK_IN_def TK_LOCAL_def TK_NIL_def TK_NOT_def TK_OR_def TK_REPEAT_def TK_RETURN_def TK_THEN_def TK_TRUE_def TK_UNTIL_def
  TK_WHILE_def

definition token :: "('d, int) gen" where "token = gread (\<lambda>s. tk_token (ls_t (ps_ls s)))"
definition linenumber :: "('d, int) gen" where "linenumber = gread (\<lambda>s. ls_linenumber (ps_ls s))"

definition luaX_next_step :: "libc \<Rightarrow> nat \<Rightarrow> ('d, unit) gen" where
  "luaX_next_step C f = (\<lambda>s. rbind (luaX_next C f (ps_ls s)) (\<lambda>ls. Ok ((), s\<lparr>ps_ls := ls\<rparr>)))"

definition LUA_QS :: "string \<Rightarrow> string" where
  "LUA_QS str = CHR 0x27 # str @ [CHR 0x27]"

definition number_text :: "libc \<Rightarrow> int \<Rightarrow> string" where
  "number_text C n = c_num2str C (cast_num n)"

section \<open>Checks\<close>

definition error_expected :: "libc \<Rightarrow> int \<Rightarrow> ('d, 'a) gen" where
  "error_expected C tk = syntax_error C (LUA_QS (luaX_token2str C tk) @ '' expected'')"

definition limit_message :: "libc \<Rightarrow> FuncState \<Rightarrow> int \<Rightarrow> string \<Rightarrow> string" where
  "limit_message C fs limit what =
     (if f_linedefined fs = 0 then ''main function has more than '' @ number_text C limit @ '' '' @ what
      else ''function at line '' @ number_text C (f_linedefined fs) @ '' has more than '' @ number_text C limit @ '' '' @ what)"

definition errorlimit :: "libc \<Rightarrow> int \<Rightarrow> string \<Rightarrow> ('d, 'a) gen" where
  "errorlimit C limit what = gbind (fs_read (\<lambda>fs. limit_message C fs limit what)) (\<lambda>msg s. luaX_lexerror C (ps_ls s) msg 0)"

definition luaY_checklimit :: "libc \<Rightarrow> int \<Rightarrow> int \<Rightarrow> string \<Rightarrow> ('d, unit) gen" where
  "luaY_checklimit C v l m = gwhen (l < v) (errorlimit C l m)"

definition testnext :: "libc \<Rightarrow> nat \<Rightarrow> int \<Rightarrow> ('d, bool) gen" where
  "testnext C f c = gbind token (\<lambda>t. if t = c then gseq (luaX_next_step C f) (gret True) else gret False)"

definition check_token :: "libc \<Rightarrow> int \<Rightarrow> ('d, unit) gen" where
  "check_token C c = gbind token (\<lambda>t. gwhen (t \<noteq> c) (error_expected C c))"

definition checknext :: "libc \<Rightarrow> nat \<Rightarrow> int \<Rightarrow> ('d, unit) gen" where
  "checknext C f c = gseq (check_token C c) (luaX_next_step C f)"

definition check_condition :: "libc \<Rightarrow> bool \<Rightarrow> string \<Rightarrow> ('d, unit) gen" where
  "check_condition C c msg = gwhen (\<not> c) (syntax_error C msg)"

definition check_match :: "libc \<Rightarrow> nat \<Rightarrow> int \<Rightarrow> int \<Rightarrow> int \<Rightarrow> ('d, unit) gen" where
  "check_match C f what who wher =
     gbind (testnext C f what) (\<lambda>b. gbind linenumber (\<lambda>l.
       if b then gret ()
       else if wher = l then error_expected C what
       else syntax_error C (LUA_QS (luaX_token2str C what) @ '' expected (to close '' @ LUA_QS (luaX_token2str C who) @ '' at line '' @
              number_text C wher @ '')'')))"

definition token_string :: "('d, string) gen" where
  "token_string = (\<lambda>s. case tk_info (ls_t (ps_ls s)) of
     StrInfo str \<Rightarrow> Ok (str, s) | _ \<Rightarrow> Fail (Undefined ''token is not a string''))"

definition str_checkname :: "libc \<Rightarrow> nat \<Rightarrow> ('d, string) gen" where
  "str_checkname C f = gseq (check_token C TK_NAME) (gbind token_string (\<lambda>str. gseq (luaX_next_step C f) (gret str)))"

definition init_exp :: "expkind \<Rightarrow> int \<Rightarrow> expdesc" where
  "init_exp k i = \<lparr>e_k = k, e_info = i, e_aux = 0, e_nval = 0, e_t = NO_JUMP, e_f = NO_JUMP\<rparr>"

definition codestring :: "string \<Rightarrow> ('d, expdesc) gen" where
  "codestring str = gbind (luaK_stringK str) (\<lambda>k. gret (init_exp VK k))"

definition checkname :: "libc \<Rightarrow> nat \<Rightarrow> ('d, expdesc) gen" where
  "checkname C f = gbind (str_checkname C f) codestring"

text \<open>Strings are anchored in the table of constants.\<close>

definition newstring :: "string \<Rightarrow> ('d, string) gen" where
  "newstring str = (\<lambda>s. rbind (luaX_newstring (ps_ls s) str) (\<lambda>(ls, t). Ok (t, s\<lparr>ps_ls := ls\<rparr>)))"

definition anchor_token :: "('d, unit) gen" where
  "anchor_token =
     gbind token (\<lambda>t. gwhen (t = TK_NAME \<or> t = TK_STRING) (gbind token_string (\<lambda>str. gseq (newstring str) (gret ()))))"

section \<open>Variables\<close>

definition SHRT_MAX :: nat where "SHRT_MAX = 32767"
definition LUAI_MAXVARS :: nat where "LUAI_MAXVARS = 200"
definition LUAI_MAXUPVALUES :: int where "LUAI_MAXUPVALUES = 60"

definition registerlocalvar :: "string \<Rightarrow> ('d, nat) gen" where
  "registerlocalvar name =
     gbind (fs_read (\<lambda>fs. length (f_locvars fs))) (\<lambda>n.
     gseq (growvector n SHRT_MAX ''too many local variables'')
       (gseq (fs_upd (\<lambda>fs. fs\<lparr>f_locvars := f_locvars fs @ [\<lparr>varname = Some name, startpc = 0, endpc = 0\<rparr>]\<rparr>)) (gret n)))"

definition set_actvar :: "int \<Rightarrow> nat \<Rightarrow> ('d, unit) gen" where
  "set_actvar i n = (\<lambda>s. if i < 0 then Fail (Undefined ''write out of bounds'')
     else rbind (aset (fs_actvar (ps_fs s)) (nat i) (Some n)) (\<lambda>a. Ok ((), s\<lparr>ps_fs := (ps_fs s)\<lparr>fs_actvar := a\<rparr>\<rparr>)))"

definition new_localvar :: "libc \<Rightarrow> string \<Rightarrow> int \<Rightarrow> ('d, unit) gen" where
  "new_localvar C name n =
     gbind (fs_read fs_nactvar) (\<lambda>nact.
     gseq (luaY_checklimit C (nact + n + 1) (int LUAI_MAXVARS) ''local variables'')
       (gbind (registerlocalvar name) (\<lambda>r. set_actvar (nact + n) (r mod 2 ^ 16))))"

definition new_localvarliteral :: "libc \<Rightarrow> string \<Rightarrow> int \<Rightarrow> ('d, unit) gen" where
  "new_localvarliteral C v n = gbind (newstring v) (\<lambda>name. new_localvar C name n)"

text \<open>The place in \<open>locvars\<close> of an active variable (\<open>getlocvar\<close>).\<close>

definition locvar_index :: "FuncState \<Rightarrow> int \<Rightarrow> nat res" where
  "locvar_index fs i =
     (if i < 0 then Fail (Undefined ''read out of bounds'')
      else rbind (aget (fs_actvar fs) (nat i)) (\<lambda>a.
        case a of
          None \<Rightarrow> Fail (Undefined ''uninitialized variable'')
        | Some k \<Rightarrow> if k < length (f_locvars fs) then Ok k else Fail (Undefined ''read out of bounds'')))"

definition locvar_upd :: "int \<Rightarrow> (LocVar \<Rightarrow> LocVar) \<Rightarrow> ('d, unit) gen" where
  "locvar_upd i g =
     gbind (fs_read id) (\<lambda>fs. gbind (glift (locvar_index fs i)) (\<lambda>k.
       fs_upd (\<lambda>fs. fs\<lparr>f_locvars := (f_locvars fs)[k := g (f_locvars fs ! k)]\<rparr>)))"

primrec adjust_loop :: "nat \<Rightarrow> ('d, unit) gen" where
  "adjust_loop 0 = gret ()"
| "adjust_loop (Suc n) =
     gbind (fs_read id) (\<lambda>fs. gseq (locvar_upd (fs_nactvar fs - int (Suc n)) (\<lambda>v. v\<lparr>startpc := fs_pc fs\<rparr>)) (adjust_loop n))"

definition adjustlocalvars :: "nat \<Rightarrow> ('d, unit) gen" where
  "adjustlocalvars nvars =
     gseq (fs_upd (\<lambda>fs. fs\<lparr>fs_nactvar := (fs_nactvar fs + int nvars) mod 256\<rparr>)) (adjust_loop nvars)"

primrec removevars_loop :: "nat \<Rightarrow> ('d, unit) gen" where
  "removevars_loop 0 = gret ()"
| "removevars_loop (Suc n) =
     gseq (fs_upd (\<lambda>fs. fs\<lparr>fs_nactvar := fs_nactvar fs - 1\<rparr>))
       (gbind (fs_read id) (\<lambda>fs. gseq (locvar_upd (fs_nactvar fs) (\<lambda>v. v\<lparr>endpc := fs_pc fs\<rparr>)) (removevars_loop n)))"

definition removevars :: "int \<Rightarrow> ('d, unit) gen" where
  "removevars tolevel = gbind (fs_read fs_nactvar) (\<lambda>n. removevars_loop (nat (n - tolevel)))"

section \<open>Names\<close>

text \<open>These work on one function, which need not be the innermost.\<close>

primrec indexupvalue_loop :: "upvaldesc list \<Rightarrow> nat \<Rightarrow> expkind \<Rightarrow> int \<Rightarrow> nat option" where
  "indexupvalue_loop [] i k info = None"
| "indexupvalue_loop (u # us) i k info =
     (if uv_k u = k \<and> uv_info u = info then Some i else indexupvalue_loop us (Suc i) k info)"

definition indexupvalue :: "libc \<Rightarrow> 'd LexState \<Rightarrow> FuncState \<Rightarrow> string \<Rightarrow> expdesc \<Rightarrow> (FuncState \<times> nat) res" where
  "indexupvalue C ls fs name v =
     (case indexupvalue_loop (fs_upvalues fs) 0 (e_k v) (e_info v) of
        Some i \<Rightarrow> Ok (fs, i)
      | None \<Rightarrow>
          let n = length (f_upvalues fs) in
          if LUAI_MAXUPVALUES < int n + 1 then luaX_lexerror C ls (limit_message C fs LUAI_MAXUPVALUES ''upvalues'') 0
          else Ok (fs\<lparr>f_upvalues := f_upvalues fs @ [name],
                      fs_upvalues := fs_upvalues fs @ [\<lparr>uv_k = e_k v, uv_info = e_info v mod 256\<rparr>]\<rparr>, n))"

text \<open>The search goes down from \<open>i - 1\<close>.\<close>

primrec searchvar_loop :: "FuncState \<Rightarrow> string \<Rightarrow> nat \<Rightarrow> int res" where
  "searchvar_loop fs n 0 = Ok (- 1)"
| "searchvar_loop fs n (Suc i) =
     rbind (locvar_index fs (int i)) (\<lambda>k.
       if varname (f_locvars fs ! k) = Some n then Ok (int i) else searchvar_loop fs n i)"

definition searchvar :: "FuncState \<Rightarrow> string \<Rightarrow> int res" where
  "searchvar fs n = searchvar_loop fs n (nat (fs_nactvar fs))"

primrec markupval_loop :: "BlockCnt list \<Rightarrow> int \<Rightarrow> BlockCnt list" where
  "markupval_loop [] level = []"
| "markupval_loop (b # bs) level =
     (if level < bl_nactvar b then b # markupval_loop bs level else b\<lparr>bl_upval := True\<rparr> # bs)"

definition markupval :: "FuncState \<Rightarrow> int \<Rightarrow> FuncState" where
  "markupval fs level = fs\<lparr>fs_bl := markupval_loop (fs_bl fs) level\<rparr>"

text \<open>The functions from the innermost out.\<close>

primrec singlevaraux :: "libc \<Rightarrow> 'd LexState \<Rightarrow> FuncState list \<Rightarrow> string \<Rightarrow> bool \<Rightarrow> (FuncState list \<times> expdesc) res" where
  "singlevaraux C ls [] n base = Ok ([], init_exp VGLOBAL NO_REG)"
| "singlevaraux C ls (fs # fss) n base =
     rbind (searchvar fs n) (\<lambda>v.
       if 0 \<le> v then Ok ((if base then fs else markupval fs v) # fss, init_exp VLOCAL v)
       else rbind (singlevaraux C ls fss n False) (\<lambda>(fss1, var).
         if e_k var = VGLOBAL then Ok (fs # fss1, var)
         else rbind (indexupvalue C ls fs n var) (\<lambda>(fs1, i). Ok (fs1 # fss1, var\<lparr>e_info := int i, e_k := VUPVAL\<rparr>))))"

definition singlevar :: "libc \<Rightarrow> nat \<Rightarrow> ('d, expdesc) gen" where
  "singlevar C f =
     gbind (str_checkname C f) (\<lambda>name.
     gbind (\<lambda>s. rbind (singlevaraux C (ps_ls s) (ps_fs s # map fst (ps_prev s)) name True) (\<lambda>(fss, var).
       Ok (var, s\<lparr>ps_fs := hd fss, ps_prev := zip (tl fss) (map snd (ps_prev s))\<rparr>))) (\<lambda>var.
       if e_k var = VGLOBAL then gbind (luaK_stringK name) (\<lambda>k. gret (var\<lparr>e_info := k\<rparr>)) else gret var))"

definition hasmultret :: "expkind \<Rightarrow> bool" where
  "hasmultret k \<longleftrightarrow> k = VCALL \<or> k = VVARARG"

definition adjust_assign :: "libc \<Rightarrow> int \<Rightarrow> int \<Rightarrow> expdesc \<Rightarrow> ('d, unit) gen" where
  "adjust_assign C nvars nexps e =
     (let extra = nvars - nexps in
      if hasmultret (e_k e) then
        (let extra = (if extra + 1 < 0 then 0 else extra + 1) in
         gseq (luaK_setreturns C e extra) (gwhen (1 < extra) (luaK_reserveregs C (extra - 1))))
      else
        gseq (if e_k e \<noteq> VVOID then gseq (luaK_exp2nextreg C e) (gret ()) else gret ())
          (gwhen (0 < extra)
            (gbind (fs_read fs_freereg) (\<lambda>reg. gseq (luaK_reserveregs C extra) (luaK_nil C reg extra)))))"

section \<open>Blocks and functions\<close>

definition enterlevel :: "libc \<Rightarrow> ('d, unit) gen" where
  "enterlevel C = (\<lambda>s.
     let s1 = s\<lparr>ps_nCcalls := ps_nCcalls s + 1\<rparr> in
     if LUAI_MAXCCALLS < ps_nCcalls s1 then luaX_lexerror C (ps_ls s1) ''chunk has too many syntax levels'' 0 else Ok ((), s1))"

definition leavelevel :: "('d, unit) gen" where
  "leavelevel = (\<lambda>s. Ok ((), s\<lparr>ps_nCcalls := ps_nCcalls s - 1\<rparr>))"

definition enterblock :: "bool \<Rightarrow> ('d, unit) gen" where
  "enterblock isbreakable =
     fs_upd (\<lambda>fs. fs\<lparr>fs_bl := \<lparr>bl_breaklist = NO_JUMP, bl_nactvar = fs_nactvar fs, bl_upval = False, bl_isbreakable = isbreakable\<rparr> # fs_bl fs\<rparr>)"

definition current_block :: "('d, BlockCnt) gen" where
  "current_block = gbind (fs_read fs_bl) (\<lambda>bs. glift (case bs of [] \<Rightarrow> Fail (Undefined ''no block'') | b # _ \<Rightarrow> Ok b))"

definition leaveblock :: "libc \<Rightarrow> ('d, unit) gen" where
  "leaveblock C =
     gbind current_block (\<lambda>bl.
     gseq (fs_upd (\<lambda>fs. fs\<lparr>fs_bl := tl (fs_bl fs)\<rparr>))
       (gseq (removevars (bl_nactvar bl))
         (gseq (gwhen (bl_upval bl) (gseq (luaK_codeABC C OP_CLOSE (bl_nactvar bl) 0 0) (gret ())))
           (gseq (fs_upd (\<lambda>fs. fs\<lparr>fs_freereg := fs_nactvar fs\<rparr>)) (luaK_patchtohere C (bl_breaklist bl))))))"

text \<open>The prototype of a function that is complete.\<close>

definition proto_of :: "FuncState \<Rightarrow> Proto" where
  "proto_of fs =
     Proto (f_k fs) (f_code fs) (f_p fs) (f_lineinfo fs) (f_locvars fs) (map Some (f_upvalues fs)) (Some (f_source fs))
       (f_linedefined fs) (f_lastlinedefined fs) (of_nat (length (f_upvalues fs))) (f_numparams fs) (f_is_vararg fs)
       (word_of_int (f_maxstacksize fs))"

primrec closure_words :: "libc \<Rightarrow> upvaldesc list \<Rightarrow> ('d, unit) gen" where
  "closure_words C [] = gret ()"
| "closure_words C (u # us) =
     gseq (luaK_codeABC C (if uv_k u = VLOCAL then OP_MOVE else OP_GETUPVAL) 0 (uv_info u) 0) (closure_words C us)"

definition pushclosure :: "libc \<Rightarrow> FuncState \<Rightarrow> ('d, expdesc) gen" where
  "pushclosure C func =
     gbind (fs_read (\<lambda>fs. length (f_p fs))) (\<lambda>np.
     gseq (growvector np (nat MAXARG_Bx) ''constant table overflow'')
       (gseq (fs_upd (\<lambda>fs. fs\<lparr>f_p := f_p fs @ [proto_of func]\<rparr>))
         (gbind (luaK_codeABx C OP_CLOSURE 0 (int np)) (\<lambda>pc.
          gseq (closure_words C (fs_upvalues func)) (gret (init_exp VRELOCABLE pc))))))"

text \<open>A new function, with the address of its table of constants.\<close>

definition new_FuncState :: "u32 \<Rightarrow> string \<Rightarrow> FuncState" where
  "new_FuncState hp src =
     \<lparr>f_k = [], f_code = [], f_p = [], f_lineinfo = [], f_locvars = [], f_upvalues = [], f_source = src, f_linedefined = 0,
      f_lastlinedefined = 0, f_numparams = 0, f_is_vararg = 0, f_maxstacksize = 2, fs_hp = hp, fs_bl = [], fs_lasttarget = - 1,
      fs_jpc = NO_JUMP, fs_freereg = 0, fs_nactvar = 0, fs_upvalues = [], fs_actvar = replicate LUAI_MAXVARS None\<rparr>"

text \<open>The address of a new table is a parameter: the number of enclosing functions gives it.\<close>

definition open_func :: "(nat \<Rightarrow> u32) \<Rightarrow> ('d, unit) gen" where
  "open_func A = (\<lambda>s.
     rbind (luaH_new 0 0) (\<lambda>h.
       Ok ((), s\<lparr>ps_prev := (ps_fs s, ls_h (ps_ls s)) # ps_prev s,
                 ps_fs := new_FuncState (A (length (ps_prev s) + 1)) (ls_source (ps_ls s)),
                 ps_ls := (ps_ls s)\<lparr>ls_h := h\<rparr>\<rparr>)))"

text \<open>The end of a function: its final state, while the enclosing function, if there is one, is current again and anchors the
last token.\<close>

definition close_func :: "libc \<Rightarrow> ('d, FuncState) gen" where
  "close_func C =
     gseq (removevars 0) (gseq (luaK_ret C 0 0)
       (gbind (fs_read id) (\<lambda>fs.
        gseq (\<lambda>s. case ps_prev s of
                [] \<Rightarrow> Ok ((), s)
              | (fs1, h1) # rest \<Rightarrow> Ok ((), s\<lparr>ps_fs := fs1, ps_ls := (ps_ls s)\<lparr>ls_h := h1\<rparr>, ps_prev := rest\<rparr>))
          (gseq anchor_token (gret fs)))))"

section \<open>The rules for expressions\<close>

text \<open>\<open>E\<close> is \<open>subexpr\<close>, which also gives the first operator that it does not treat; \<open>K\<close> is \<open>chunk\<close>.\<close>

type_synonym 'd subexpr_rule = "nat \<Rightarrow> ('d, expdesc \<times> BinOpr) gen"

definition expr :: "'d subexpr_rule \<Rightarrow> ('d, expdesc) gen" where
  "expr E = gbind (E 0) (\<lambda>(v, _). gret v)"

definition field :: "libc \<Rightarrow> nat \<Rightarrow> expdesc \<Rightarrow> ('d, expdesc) gen" where
  "field C f v0 =
     gbind (luaK_exp2anyreg C v0) (\<lambda>v.
     gseq (luaX_next_step C f) (gbind (checkname C f) (luaK_indexed C v)))"

definition yindex :: "libc \<Rightarrow> nat \<Rightarrow> 'd subexpr_rule \<Rightarrow> ('d, expdesc) gen" where
  "yindex C f E =
     gseq (luaX_next_step C f)
       (gbind (expr E) (\<lambda>v0. gbind (luaK_exp2val C v0) (\<lambda>v. gseq (checknext C f (ch (CHR '']''))) (gret v))))"

record ConsControl =
  cc_v :: expdesc
  cc_t :: expdesc
  cc_nh :: int
  cc_na :: int
  cc_tostore :: int

definition recfield :: "libc \<Rightarrow> nat \<Rightarrow> 'd subexpr_rule \<Rightarrow> ConsControl \<Rightarrow> ('d, ConsControl) gen" where
  "recfield C f E cc =
     gbind (fs_read fs_freereg) (\<lambda>reg. gbind token (\<lambda>t.
     gbind (if t = TK_NAME then gseq (luaY_checklimit C (cc_nh cc) (int MAX_INT) ''items in a constructor'') (checkname C f)
            else yindex C f E) (\<lambda>key0.
     gseq (checknext C f (ch (CHR ''='')))
       (gbind (luaK_exp2RK C key0) (\<lambda>(rkkey, key).
        gbind (expr E) (\<lambda>val0. gbind (luaK_exp2RK C val0) (\<lambda>(rkval, val).
        gseq (luaK_codeABC C OP_SETTABLE (e_info (cc_t cc)) rkkey rkval)
          (gseq (fs_upd (\<lambda>fs. fs\<lparr>fs_freereg := reg\<rparr>)) (gret (cc\<lparr>cc_nh := cc_nh cc + 1\<rparr>)))))))))) "

definition closelistfield :: "libc \<Rightarrow> ConsControl \<Rightarrow> ('d, ConsControl) gen" where
  "closelistfield C cc =
     (if e_k (cc_v cc) = VVOID then gret cc
      else gbind (luaK_exp2nextreg C (cc_v cc)) (\<lambda>v.
        let cc1 = cc\<lparr>cc_v := v\<lparr>e_k := VVOID\<rparr>\<rparr> in
        if cc_tostore cc1 = LFIELDS_PER_FLUSH then
          gseq (luaK_setlist C (e_info (cc_t cc1)) (cc_na cc1) (cc_tostore cc1)) (gret (cc1\<lparr>cc_tostore := 0\<rparr>))
        else gret cc1))"

definition lastlistfield :: "libc \<Rightarrow> ConsControl \<Rightarrow> ('d, ConsControl) gen" where
  "lastlistfield C cc =
     (if cc_tostore cc = 0 then gret cc
      else if hasmultret (e_k (cc_v cc)) then
        gseq (luaK_setmultret C (cc_v cc))
          (gseq (luaK_setlist C (e_info (cc_t cc)) (cc_na cc) LUA_MULTRET) (gret (cc\<lparr>cc_na := cc_na cc - 1\<rparr>)))
      else
        gseq (if e_k (cc_v cc) \<noteq> VVOID then gseq (luaK_exp2nextreg C (cc_v cc)) (gret ()) else gret ())
          (gseq (luaK_setlist C (e_info (cc_t cc)) (cc_na cc) (cc_tostore cc)) (gret cc)))"

definition listfield :: "libc \<Rightarrow> 'd subexpr_rule \<Rightarrow> ConsControl \<Rightarrow> ('d, ConsControl) gen" where
  "listfield C E cc =
     gbind (expr E) (\<lambda>v.
     gseq (luaY_checklimit C (cc_na cc) (int MAX_INT) ''items in a constructor'')
       (gret (cc\<lparr>cc_v := v, cc_na := cc_na cc + 1, cc_tostore := cc_tostore cc + 1\<rparr>)))"

text \<open>A name may be the key of a field or begin an expression.\<close>

definition constructor_item :: "libc \<Rightarrow> nat \<Rightarrow> 'd subexpr_rule \<Rightarrow> ConsControl \<Rightarrow> ('d, ConsControl) gen" where
  "constructor_item C f E cc =
     gbind token (\<lambda>t.
       if t = TK_NAME then
         gseq (\<lambda>s. rbind (luaX_lookahead C f (ps_ls s)) (\<lambda>ls. Ok ((), s\<lparr>ps_ls := ls\<rparr>)))
           (gbind (gread (\<lambda>s. tk_token (ls_lookahead (ps_ls s)))) (\<lambda>la.
              if la \<noteq> ch (CHR ''='') then listfield C E cc else recfield C f E cc))
       else if t = ch (CHR ''['') then recfield C f E cc
       else listfield C E cc)"

primrec constructor_loop :: "libc \<Rightarrow> nat \<Rightarrow> 'd subexpr_rule \<Rightarrow> nat \<Rightarrow> ConsControl \<Rightarrow> ('d, ConsControl) gen" where
  "constructor_loop C f E 0 cc = glift (Fail NoFuel)"
| "constructor_loop C f E (Suc n) cc =
     gbind token (\<lambda>t.
       if t = ch (CHR ''}'') then gret cc
       else gbind (closelistfield C cc) (\<lambda>cc1. gbind (constructor_item C f E cc1) (\<lambda>cc2.
         gbind (testnext C f (ch (CHR '',''))) (\<lambda>b. gbind (if b then gret True else testnext C f (ch (CHR '';''))) (\<lambda>b.
           if b then constructor_loop C f E n cc2 else gret cc2)))))"

definition constructor :: "libc \<Rightarrow> nat \<Rightarrow> 'd subexpr_rule \<Rightarrow> ('d, expdesc) gen" where
  "constructor C f E =
     gbind linenumber (\<lambda>line.
     gbind (luaK_codeABC C OP_NEWTABLE 0 0 0) (\<lambda>pc.
     gbind (luaK_exp2nextreg C (init_exp VRELOCABLE pc)) (\<lambda>t.
     gseq (checknext C f (ch (CHR ''{'')))
       (gbind (constructor_loop C f E f \<lparr>cc_v = init_exp VVOID 0, cc_t = t, cc_nh = 0, cc_na = 0, cc_tostore = 0\<rparr>) (\<lambda>cc1.
        gseq (check_match C f (ch (CHR ''}'')) (ch (CHR ''{'')) line)
          (gbind (lastlistfield C cc1) (\<lambda>cc.
           gseq (code_upd pc (\<lambda>i. SETARG_B i (int (luaO_int2fb (nat (cc_na cc))))))
             (gseq (code_upd pc (\<lambda>i. SETARG_C i (int (luaO_int2fb (nat (cc_nh cc)))))) (gret t)))))))))"

text \<open>The parameters; the number of them is the result.\<close>

primrec parlist_loop :: "libc \<Rightarrow> nat \<Rightarrow> nat \<Rightarrow> nat \<Rightarrow> ('d, nat) gen" where
  "parlist_loop C f 0 nparams = glift (Fail NoFuel)"
| "parlist_loop C f (Suc n) nparams =
     gbind token (\<lambda>t.
     gseq (if t = TK_NAME then gbind (str_checkname C f) (\<lambda>name. new_localvar C name (int nparams))
           else if t = TK_DOTS then
             gseq (luaX_next_step C f)
               (gseq (new_localvarliteral C ''arg'' (int nparams))
                 (fs_upd (\<lambda>fs. fs\<lparr>f_is_vararg := VARARG_HASARG OR VARARG_NEEDSARG OR VARARG_ISVARARG\<rparr>)))
           else syntax_error C (''<name> or '' @ LUA_QS ''...'' @ '' expected''))
       (gbind (fs_read f_is_vararg) (\<lambda>va.
        if va = 0 then
          gbind (testnext C f (ch (CHR '',''))) (\<lambda>b. if b then parlist_loop C f n (nparams + 1) else gret (nparams + 1))
        else gret (nparams + 1))))"

definition parlist :: "libc \<Rightarrow> nat \<Rightarrow> ('d, unit) gen" where
  "parlist C f =
     gseq (fs_upd (\<lambda>fs. fs\<lparr>f_is_vararg := 0\<rparr>))
       (gbind token (\<lambda>t.
        gbind (if t \<noteq> ch (CHR '')'') then parlist_loop C f f 0 else gret 0) (\<lambda>nparams.
        gseq (adjustlocalvars nparams)
          (gseq (fs_upd (\<lambda>fs. fs\<lparr>f_numparams := word_of_int (fs_nactvar fs - uint (f_is_vararg fs AND VARARG_HASARG))\<rparr>))
            (gbind (fs_read fs_nactvar) (luaK_reserveregs C))))))"

definition body :: "libc \<Rightarrow> (nat \<Rightarrow> u32) \<Rightarrow> nat \<Rightarrow> ('d, unit) gen \<Rightarrow> bool \<Rightarrow> int \<Rightarrow> ('d, expdesc) gen" where
  "body C A f K needself line =
     gseq (open_func A)
       (gseq (fs_upd (\<lambda>fs. fs\<lparr>f_linedefined := line\<rparr>))
         (gseq (checknext C f (ch (CHR ''('')))
           (gseq (gwhen needself (gseq (new_localvarliteral C ''self'' 0) (adjustlocalvars 1)))
             (gseq (parlist C f)
               (gseq (checknext C f (ch (CHR '')'')))
                 (gseq K
                   (gbind linenumber (\<lambda>l.
                    gseq (fs_upd (\<lambda>fs. fs\<lparr>f_lastlinedefined := l\<rparr>))
                      (gseq (check_match C f TK_END TK_FUNCTION line) (gbind (close_func C) (pushclosure C)))))))))))"

primrec explist_loop :: "libc \<Rightarrow> nat \<Rightarrow> 'd subexpr_rule \<Rightarrow> nat \<Rightarrow> int \<Rightarrow> expdesc \<Rightarrow> ('d, int \<times> expdesc) gen" where
  "explist_loop C f E 0 k v = glift (Fail NoFuel)"
| "explist_loop C f E (Suc n) k v =
     gbind (testnext C f (ch (CHR '',''))) (\<lambda>b.
       if b then gseq (luaK_exp2nextreg C v) (gbind (expr E) (explist_loop C f E n (k + 1))) else gret (k, v))"

definition explist1 :: "libc \<Rightarrow> nat \<Rightarrow> 'd subexpr_rule \<Rightarrow> ('d, int \<times> expdesc) gen" where
  "explist1 C f E = gbind (expr E) (explist_loop C f E f 1)"

text \<open>The arguments as they are written.\<close>

definition call_args :: "libc \<Rightarrow> nat \<Rightarrow> 'd subexpr_rule \<Rightarrow> int \<Rightarrow> ('d, expdesc) gen" where
  "call_args C f E line =
     gbind token (\<lambda>t.
       if t = ch (CHR ''('') then
         gbind (gread (\<lambda>s. ls_lastline (ps_ls s))) (\<lambda>lastline.
         gseq (gwhen (line \<noteq> lastline) (syntax_error C ''ambiguous syntax (function call x new statement)''))
           (gseq (luaX_next_step C f)
             (gbind token (\<lambda>t.
              gbind (if t = ch (CHR '')'') then gret (init_exp VVOID 0)
                     else gbind (explist1 C f E) (\<lambda>(n, args). gseq (luaK_setmultret C args) (gret args))) (\<lambda>args.
              gseq (check_match C f (ch (CHR '')'')) (ch (CHR ''('')) line) (gret args)))))
         )
       else if t = ch (CHR ''{'') then constructor C f E
       else if t = TK_STRING then
         gbind token_string (\<lambda>str. gbind (codestring str) (\<lambda>args. gseq (luaX_next_step C f) (gret args)))
       else syntax_error C ''function arguments expected'')"

definition funcargs :: "libc \<Rightarrow> nat \<Rightarrow> 'd subexpr_rule \<Rightarrow> expdesc \<Rightarrow> ('d, expdesc) gen" where
  "funcargs C f E fn =
     gbind linenumber (\<lambda>line.
     gbind (call_args C f E line) (\<lambda>args.
     let base = e_info fn in
     gbind (if hasmultret (e_k args) then gret LUA_MULTRET
            else gseq (if e_k args \<noteq> VVOID then gseq (luaK_exp2nextreg C args) (gret ()) else gret ())
              (fs_read (\<lambda>fs. fs_freereg fs - (base + 1)))) (\<lambda>nparams.
     gbind (luaK_codeABC C OP_CALL base (nparams + 1) 2) (\<lambda>pc.
     gseq (luaK_fixline line) (gseq (fs_upd (\<lambda>fs. fs\<lparr>fs_freereg := base + 1\<rparr>)) (gret (init_exp VCALL pc)))))))"

definition prefixexp :: "libc \<Rightarrow> nat \<Rightarrow> 'd subexpr_rule \<Rightarrow> ('d, expdesc) gen" where
  "prefixexp C f E =
     gbind token (\<lambda>t.
       if t = ch (CHR ''('') then
         gbind linenumber (\<lambda>line.
         gseq (luaX_next_step C f)
           (gbind (expr E) (\<lambda>v.
            gseq (check_match C f (ch (CHR '')'')) (ch (CHR ''('')) line) (luaK_dischargevars C v))))
       else if t = TK_NAME then singlevar C f
       else syntax_error C ''unexpected symbol'')"

primrec primary_loop :: "libc \<Rightarrow> nat \<Rightarrow> 'd subexpr_rule \<Rightarrow> nat \<Rightarrow> expdesc \<Rightarrow> ('d, expdesc) gen" where
  "primary_loop C f E 0 v = glift (Fail NoFuel)"
| "primary_loop C f E (Suc n) v =
     gbind token (\<lambda>t.
       if t = ch (CHR ''.'') then gbind (field C f v) (primary_loop C f E n)
       else if t = ch (CHR ''['') then
         gbind (luaK_exp2anyreg C v) (\<lambda>v1. gbind (yindex C f E) (\<lambda>key. gbind (luaK_indexed C v1 key) (primary_loop C f E n)))
       else if t = ch (CHR '':'') then
         gseq (luaX_next_step C f)
           (gbind (checkname C f) (\<lambda>key. gbind (luaK_self C v key) (\<lambda>v1. gbind (funcargs C f E v1) (primary_loop C f E n))))
       else if t = ch (CHR ''('') \<or> t = TK_STRING \<or> t = ch (CHR ''{'') then
         gbind (luaK_exp2nextreg C v) (\<lambda>v1. gbind (funcargs C f E v1) (primary_loop C f E n))
       else gret v)"

definition primaryexp :: "libc \<Rightarrow> nat \<Rightarrow> 'd subexpr_rule \<Rightarrow> ('d, expdesc) gen" where
  "primaryexp C f E = gbind (prefixexp C f E) (primary_loop C f E f)"

definition token_number :: "('d, lua_Number) gen" where
  "token_number = (\<lambda>s. case tk_info (ls_t (ps_ls s)) of
     NumInfo r \<Rightarrow> Ok (r, s) | _ \<Rightarrow> Fail (Undefined ''token is not a number''))"

definition vararg_exp :: "libc \<Rightarrow> ('d, expdesc) gen" where
  "vararg_exp C =
     gbind (fs_read f_is_vararg) (\<lambda>va.
     gseq (check_condition C (va \<noteq> 0) (''cannot use '' @ LUA_QS ''...'' @ '' outside a vararg function''))
       (gseq (fs_upd (\<lambda>fs. fs\<lparr>f_is_vararg := f_is_vararg fs AND NOT VARARG_NEEDSARG\<rparr>))
         (gbind (luaK_codeABC C OP_VARARG 0 1 0) (\<lambda>pc. gret (init_exp VVARARG pc)))))"

definition simpleexp :: "libc \<Rightarrow> (nat \<Rightarrow> u32) \<Rightarrow> nat \<Rightarrow> 'd subexpr_rule \<Rightarrow> ('d, unit) gen \<Rightarrow> ('d, expdesc) gen" where
  "simpleexp C A f E K =
     gbind token (\<lambda>t.
     let single = (\<lambda>m. gbind m (\<lambda>v. gseq (luaX_next_step C f) (gret v))) in
       if t = TK_NUMBER then single (gbind token_number (\<lambda>r. gret ((init_exp VKNUM 0)\<lparr>e_nval := r\<rparr>)))
       else if t = TK_STRING then single (gbind token_string codestring)
       else if t = TK_NIL then single (gret (init_exp VNIL 0))
       else if t = TK_TRUE then single (gret (init_exp VTRUE 0))
       else if t = TK_FALSE then single (gret (init_exp VFALSE 0))
       else if t = TK_DOTS then single (vararg_exp C)
       else if t = ch (CHR ''{'') then constructor C f E
       else if t = TK_FUNCTION then gseq (luaX_next_step C f) (gbind linenumber (body C A f K False))
       else primaryexp C f E)"

definition getunopr :: "int \<Rightarrow> UnOpr" where
  "getunopr op =
     (if op = TK_NOT then OPR_NOT else if op = ch (CHR ''-'') then OPR_MINUS else if op = ch (CHR ''#'') then OPR_LEN else OPR_NOUNOPR)"

definition getbinopr :: "int \<Rightarrow> BinOpr" where
  "getbinopr op =
     (case map_of
        [(ch (CHR ''+''), OPR_ADD), (ch (CHR ''-''), OPR_SUB), (ch (CHR ''*''), OPR_MUL), (ch (CHR ''/''), OPR_DIV),
         (ch (CHR ''%''), OPR_MOD), (ch (CHR ''^''), OPR_POW), (TK_CONCAT, OPR_CONCAT), (TK_NE, OPR_NE), (TK_EQ, OPR_EQ),
         (ch (CHR ''<''), OPR_LT), (TK_LE, OPR_LE), (ch (CHR ''>''), OPR_GT), (TK_GE, OPR_GE), (TK_AND, OPR_AND), (TK_OR, OPR_OR)] op of
        Some b \<Rightarrow> b | None \<Rightarrow> OPR_NOBINOPR)"

text \<open>The left and the right priority of an operator.\<close>

fun priority :: "BinOpr \<Rightarrow> nat \<times> nat" where
  "priority OPR_ADD = (6, 6)" | "priority OPR_SUB = (6, 6)" | "priority OPR_MUL = (7, 7)" | "priority OPR_DIV = (7, 7)"
| "priority OPR_MOD = (7, 7)" | "priority OPR_POW = (10, 9)" | "priority OPR_CONCAT = (5, 4)" | "priority OPR_NE = (3, 3)"
| "priority OPR_EQ = (3, 3)" | "priority OPR_LT = (3, 3)" | "priority OPR_LE = (3, 3)" | "priority OPR_GT = (3, 3)"
| "priority OPR_GE = (3, 3)" | "priority OPR_AND = (2, 2)" | "priority OPR_OR = (1, 1)" | "priority OPR_NOBINOPR = (0, 0)"

definition UNARY_PRIORITY :: nat where "UNARY_PRIORITY = 8"

primrec subexpr_loop :: "libc \<Rightarrow> nat \<Rightarrow> 'd subexpr_rule \<Rightarrow> nat \<Rightarrow> nat \<Rightarrow> BinOpr \<Rightarrow> expdesc \<Rightarrow> ('d, expdesc \<times> BinOpr) gen" where
  "subexpr_loop C f E limit 0 op v = glift (Fail NoFuel)"
| "subexpr_loop C f E limit (Suc n) op v =
     (if op \<noteq> OPR_NOBINOPR \<and> limit < fst (priority op) then
        gseq (luaX_next_step C f)
          (gbind (luaK_infix C op v) (\<lambda>v1.
           gbind (E (snd (priority op))) (\<lambda>(v2, nextop).
           gbind (luaK_posfix C op v1 v2) (subexpr_loop C f E limit n nextop))))
      else gret (v, op))"

definition subexpr :: "libc \<Rightarrow> (nat \<Rightarrow> u32) \<Rightarrow> nat \<Rightarrow> 'd subexpr_rule \<Rightarrow> ('d, unit) gen \<Rightarrow> 'd subexpr_rule" where
  "subexpr C A f E K limit =
     gseq (enterlevel C)
       (gbind token (\<lambda>t. let uop = getunopr t in
        gbind (if uop \<noteq> OPR_NOUNOPR then
                 gseq (luaX_next_step C f) (gbind (E UNARY_PRIORITY) (\<lambda>(v, _). luaK_prefix C uop v))
               else simpleexp C A f E K) (\<lambda>v.
        gbind token (\<lambda>t.
        gbind (subexpr_loop C f E limit f (getbinopr t) v) (\<lambda>r. gseq leavelevel (gret r))))))"

section \<open>The rules for statements\<close>

definition block_follow :: "int \<Rightarrow> bool" where
  "block_follow tk \<longleftrightarrow> tk = TK_ELSE \<or> tk = TK_ELSEIF \<or> tk = TK_END \<or> tk = TK_UNTIL \<or> tk = TK_EOS"

definition block :: "libc \<Rightarrow> ('d, unit) gen \<Rightarrow> ('d, unit) gen" where
  "block C K = gseq (enterblock False) (gseq K (leaveblock C))"

text \<open>The left sides of an assignment, the last one first. A left side that indexes with the local variable \<open>v\<close> uses a copy.\<close>

primrec conflict_loop :: "int \<Rightarrow> int \<Rightarrow> expdesc list \<Rightarrow> expdesc list \<times> bool" where
  "conflict_loop v extra [] = ([], False)"
| "conflict_loop v extra (lh # lhs) =
     (case conflict_loop v extra lhs of (rest, conflict) \<Rightarrow>
        if e_k lh = VINDEXED then
          (let lh1 = (if e_info lh = v then lh\<lparr>e_info := extra\<rparr> else lh);
               lh2 = (if e_aux lh = v then lh1\<lparr>e_aux := extra\<rparr> else lh1)
           in (lh2 # rest, e_info lh = v \<or> e_aux lh = v \<or> conflict))
        else (lh # rest, conflict))"

definition check_conflict :: "libc \<Rightarrow> expdesc list \<Rightarrow> expdesc \<Rightarrow> ('d, expdesc list) gen" where
  "check_conflict C lhs v =
     gbind (fs_read fs_freereg) (\<lambda>extra.
       case conflict_loop (e_info v) extra lhs of (lhs1, conflict) \<Rightarrow>
         gseq (gwhen conflict (gseq (luaK_codeABC C OP_MOVE extra (e_info v) 0) (luaK_reserveregs C 1))) (gret lhs1))"

text \<open>The store of the last value that was computed.\<close>

definition store_last :: "libc \<Rightarrow> expdesc \<Rightarrow> ('d, unit) gen" where
  "store_last C lh = gbind (fs_read fs_freereg) (\<lambda>r. luaK_storevar C lh (init_exp VNONRELOC (r - 1)))"

text \<open>The values of an assignment.\<close>

definition assign_values :: "libc \<Rightarrow> nat \<Rightarrow> 'd subexpr_rule \<Rightarrow> expdesc \<Rightarrow> int \<Rightarrow> ('d, unit) gen" where
  "assign_values C f E lh nvars =
     gseq (checknext C f (ch (CHR ''='')))
       (gbind (explist1 C f E) (\<lambda>(nexps, e).
        if nexps \<noteq> nvars then
          gseq (adjust_assign C nvars nexps e)
            (gseq (gwhen (nvars < nexps) (fs_upd (\<lambda>fs. fs\<lparr>fs_freereg := fs_freereg fs - (nexps - nvars)\<rparr>)))
              (store_last C lh))
        else gbind (luaK_setoneret e) (luaK_storevar C lh)))"

text \<open>The result is the list of the left sides before the first, with the copies that they use.\<close>

primrec assignment :: "libc \<Rightarrow> nat \<Rightarrow> 'd subexpr_rule \<Rightarrow> nat \<Rightarrow> expdesc \<Rightarrow> expdesc list \<Rightarrow> int \<Rightarrow> ('d, expdesc list) gen" where
  "assignment C f E 0 lh lhs nvars = glift (Fail NoFuel)"
| "assignment C f E (Suc n) lh lhs nvars =
     gseq (check_condition C (e_k lh \<in> {VLOCAL, VUPVAL, VGLOBAL, VINDEXED}) ''syntax error'')
       (gbind (testnext C f (ch (CHR '',''))) (\<lambda>b.
        if b then
          gbind (primaryexp C f E) (\<lambda>nv.
          gbind (if e_k nv = VLOCAL then check_conflict C (lh # lhs) nv else gret (lh # lhs)) (\<lambda>lhs1.
          gbind (gread (\<lambda>s. int LUAI_MAXCCALLS - int (ps_nCcalls s))) (\<lambda>m.
          gseq (luaY_checklimit C nvars m ''variables in assignment'')
            (gbind (assignment C f E n nv lhs1 (nvars + 1)) (\<lambda>lhs2.
             gseq (store_last C (hd lhs2)) (gret (tl lhs2)))))))
        else gseq (assign_values C f E lh nvars) (gret lhs)))"

definition cond :: "libc \<Rightarrow> 'd subexpr_rule \<Rightarrow> ('d, int) gen" where
  "cond C E =
     gbind (expr E) (\<lambda>v. gbind (luaK_goiftrue C (if e_k v = VNIL then v\<lparr>e_k := VFALSE\<rparr> else v)) (\<lambda>v1. gret (e_f v1)))"

text \<open>The place of the innermost loop among the blocks, and whether a block inside it has an upvalue.\<close>

primrec find_breakable :: "BlockCnt list \<Rightarrow> nat \<Rightarrow> bool \<Rightarrow> (nat \<times> bool) option" where
  "find_breakable [] i upval = None"
| "find_breakable (b # bs) i upval = (if bl_isbreakable b then Some (i, upval) else find_breakable bs (Suc i) (upval \<or> bl_upval b))"

definition breakstat :: "libc \<Rightarrow> ('d, unit) gen" where
  "breakstat C =
     gbind (fs_read fs_bl) (\<lambda>bs.
       case find_breakable bs 0 False of
         None \<Rightarrow> syntax_error C ''no loop to break''
       | Some (i, upval) \<Rightarrow>
           gseq (gwhen upval (gseq (luaK_codeABC C OP_CLOSE (bl_nactvar (bs ! i)) 0 0) (gret ())))
             (gbind (luaK_jump C) (\<lambda>j. gbind (luaK_concat C (bl_breaklist (bs ! i)) j) (\<lambda>l.
               fs_upd (\<lambda>fs. fs\<lparr>fs_bl := (fs_bl fs)[i := (fs_bl fs ! i)\<lparr>bl_breaklist := l\<rparr>]\<rparr>)))))"

definition jump_to :: "libc \<Rightarrow> int \<Rightarrow> ('d, unit) gen" where
  "jump_to C target = gbind (luaK_jump C) (\<lambda>j. luaK_patchlist C j target)"

definition whilestat :: "libc \<Rightarrow> nat \<Rightarrow> 'd subexpr_rule \<Rightarrow> ('d, unit) gen \<Rightarrow> int \<Rightarrow> ('d, unit) gen" where
  "whilestat C f E K line =
     gseq (luaX_next_step C f)
       (gbind luaK_getlabel (\<lambda>whileinit.
        gbind (cond C E) (\<lambda>condexit.
        gseq (enterblock True)
          (gseq (checknext C f TK_DO)
            (gseq (block C K)
              (gseq (jump_to C whileinit)
                (gseq (check_match C f TK_END TK_WHILE line) (gseq (leaveblock C) (luaK_patchtohere C condexit)))))))))"

definition repeatstat :: "libc \<Rightarrow> nat \<Rightarrow> 'd subexpr_rule \<Rightarrow> ('d, unit) gen \<Rightarrow> int \<Rightarrow> ('d, unit) gen" where
  "repeatstat C f E K line =
     gbind luaK_getlabel (\<lambda>repeat_init.
     gseq (enterblock True) (gseq (enterblock False) (gseq (luaX_next_step C f) (gseq K
       (gseq (check_match C f TK_UNTIL TK_REPEAT line)
         (gbind (cond C E) (\<lambda>condexit.
          gbind current_block (\<lambda>bl2.
          gseq (if \<not> bl_upval bl2 then gseq (leaveblock C) (luaK_patchlist C condexit repeat_init)
                else gseq (breakstat C) (gseq (luaK_patchtohere C condexit) (gseq (leaveblock C) (jump_to C repeat_init))))
            (leaveblock C)))))))))"

definition exp1 :: "libc \<Rightarrow> 'd subexpr_rule \<Rightarrow> ('d, expkind) gen" where
  "exp1 C E = gbind (expr E) (\<lambda>e. gseq (luaK_exp2nextreg C e) (gret (e_k e)))"

definition forbody :: "libc \<Rightarrow> nat \<Rightarrow> ('d, unit) gen \<Rightarrow> int \<Rightarrow> int \<Rightarrow> nat \<Rightarrow> bool \<Rightarrow> ('d, unit) gen" where
  "forbody C f K base line nvars isnum =
     gseq (adjustlocalvars 3) (gseq (checknext C f TK_DO)
       (gbind (if isnum then luaK_codeAsBx C OP_FORPREP base NO_JUMP else luaK_jump C) (\<lambda>prep.
        gseq (enterblock False)
          (gseq (adjustlocalvars nvars)
            (gseq (luaK_reserveregs C (int nvars))
              (gseq (block C K)
                (gseq (leaveblock C)
                  (gseq (luaK_patchtohere C prep)
                    (gbind (if isnum then luaK_codeAsBx C OP_FORLOOP base NO_JUMP
                            else luaK_codeABC C OP_TFORLOOP base 0 (int nvars)) (\<lambda>endfor.
                     gseq (luaK_fixline line)
                       (gbind (if isnum then gret endfor else luaK_jump C) (\<lambda>j. luaK_patchlist C j (prep + 1))))))))))))) "

definition fornum :: "libc \<Rightarrow> nat \<Rightarrow> 'd subexpr_rule \<Rightarrow> ('d, unit) gen \<Rightarrow> string \<Rightarrow> int \<Rightarrow> ('d, unit) gen" where
  "fornum C f E K vname line =
     gbind (fs_read fs_freereg) (\<lambda>base.
     gseq (new_localvarliteral C ''(for index)'' 0) (gseq (new_localvarliteral C ''(for limit)'' 1)
       (gseq (new_localvarliteral C ''(for step)'' 2) (gseq (new_localvar C vname 3)
         (gseq (checknext C f (ch (CHR ''='')))
           (gseq (exp1 C E)
             (gseq (checknext C f (ch (CHR '','')))
               (gseq (exp1 C E)
                 (gseq (gbind (testnext C f (ch (CHR '',''))) (\<lambda>b.
                          if b then gseq (exp1 C E) (gret ())
                          else gbind (fs_read fs_freereg) (\<lambda>r. gbind (luaK_numberK (cast_num 1)) (\<lambda>k.
                            gseq (luaK_codeABx C OP_LOADK r k) (luaK_reserveregs C 1)))))
                   (forbody C f K base line 1 True))))))))))"

primrec forlist_names :: "libc \<Rightarrow> nat \<Rightarrow> nat \<Rightarrow> nat \<Rightarrow> ('d, nat) gen" where
  "forlist_names C f 0 nvars = glift (Fail NoFuel)"
| "forlist_names C f (Suc n) nvars =
     gbind (testnext C f (ch (CHR '',''))) (\<lambda>b.
       if b then gbind (str_checkname C f) (\<lambda>name. gseq (new_localvar C name (int nvars)) (forlist_names C f n (nvars + 1)))
       else gret nvars)"

definition forlist :: "libc \<Rightarrow> nat \<Rightarrow> 'd subexpr_rule \<Rightarrow> ('d, unit) gen \<Rightarrow> string \<Rightarrow> ('d, unit) gen" where
  "forlist C f E K indexname =
     gbind (fs_read fs_freereg) (\<lambda>base.
     gseq (new_localvarliteral C ''(for generator)'' 0) (gseq (new_localvarliteral C ''(for state)'' 1)
       (gseq (new_localvarliteral C ''(for control)'' 2) (gseq (new_localvar C indexname 3)
         (gbind (forlist_names C f f 4) (\<lambda>nvars.
          gseq (checknext C f TK_IN)
            (gbind linenumber (\<lambda>line.
             gbind (explist1 C f E) (\<lambda>(n, e).
             gseq (adjust_assign C 3 n e)
               (gseq (luaK_checkstack C 3) (forbody C f K base line (nvars - 3) False)))))))))))"

definition forstat :: "libc \<Rightarrow> nat \<Rightarrow> 'd subexpr_rule \<Rightarrow> ('d, unit) gen \<Rightarrow> int \<Rightarrow> ('d, unit) gen" where
  "forstat C f E K line =
     gseq (enterblock True) (gseq (luaX_next_step C f)
       (gbind (str_checkname C f) (\<lambda>vname.
        gbind token (\<lambda>t.
        gseq (if t = ch (CHR ''='') then fornum C f E K vname line
              else if t = ch (CHR '','') \<or> t = TK_IN then forlist C f E K vname
              else syntax_error C (LUA_QS ''='' @ '' or '' @ LUA_QS ''in'' @ '' expected''))
          (gseq (check_match C f TK_END TK_FOR line) (leaveblock C))))))"

definition test_then_block :: "libc \<Rightarrow> nat \<Rightarrow> 'd subexpr_rule \<Rightarrow> ('d, unit) gen \<Rightarrow> ('d, int) gen" where
  "test_then_block C f E K =
     gseq (luaX_next_step C f)
       (gbind (cond C E) (\<lambda>condexit. gseq (checknext C f TK_THEN) (gseq (block C K) (gret condexit))))"

text \<open>The jump out of a branch, and the next condition.\<close>

primrec elseif_loop :: "libc \<Rightarrow> nat \<Rightarrow> 'd subexpr_rule \<Rightarrow> ('d, unit) gen \<Rightarrow> nat \<Rightarrow> int \<Rightarrow> int \<Rightarrow> ('d, int \<times> int) gen" where
  "elseif_loop C f E K 0 flist escapelist = glift (Fail NoFuel)"
| "elseif_loop C f E K (Suc n) flist escapelist =
     gbind token (\<lambda>t.
       if t = TK_ELSEIF then
         gbind (luaK_jump C) (\<lambda>j. gbind (luaK_concat C escapelist j) (\<lambda>esc.
         gseq (luaK_patchtohere C flist)
           (gbind (test_then_block C f E K) (\<lambda>flist1. elseif_loop C f E K n flist1 esc))))
       else gret (flist, escapelist))"

definition ifstat :: "libc \<Rightarrow> nat \<Rightarrow> 'd subexpr_rule \<Rightarrow> ('d, unit) gen \<Rightarrow> int \<Rightarrow> ('d, unit) gen" where
  "ifstat C f E K line =
     gbind (test_then_block C f E K) (\<lambda>flist0.
     gbind (elseif_loop C f E K f flist0 NO_JUMP) (\<lambda>(flist, escapelist).
     gbind token (\<lambda>t.
     gbind (if t = TK_ELSE then
              gbind (luaK_jump C) (\<lambda>j. gbind (luaK_concat C escapelist j) (\<lambda>esc.
              gseq (luaK_patchtohere C flist) (gseq (luaX_next_step C f) (gseq (block C K) (gret esc)))))
            else luaK_concat C escapelist flist) (\<lambda>esc.
     gseq (luaK_patchtohere C esc) (check_match C f TK_END TK_IF line)))))"

definition localfunc :: "libc \<Rightarrow> (nat \<Rightarrow> u32) \<Rightarrow> nat \<Rightarrow> ('d, unit) gen \<Rightarrow> ('d, unit) gen" where
  "localfunc C A f K =
     gbind (str_checkname C f) (\<lambda>name.
     gseq (new_localvar C name 0)
       (gbind (fs_read fs_freereg) (\<lambda>r.
        gseq (luaK_reserveregs C 1) (gseq (adjustlocalvars 1)
          (gbind linenumber (\<lambda>l. gbind (body C A f K False l) (\<lambda>b.
           gseq (luaK_storevar C (init_exp VLOCAL r) b)
             (gbind (fs_read id) (\<lambda>fs. locvar_upd (fs_nactvar fs - 1) (\<lambda>v. v\<lparr>startpc := fs_pc fs\<rparr>)))))))))) "

primrec localstat_names :: "libc \<Rightarrow> nat \<Rightarrow> nat \<Rightarrow> nat \<Rightarrow> ('d, nat) gen" where
  "localstat_names C f 0 nvars = glift (Fail NoFuel)"
| "localstat_names C f (Suc n) nvars =
     gbind (str_checkname C f) (\<lambda>name.
     gseq (new_localvar C name (int nvars))
       (gbind (testnext C f (ch (CHR '',''))) (\<lambda>b. if b then localstat_names C f n (nvars + 1) else gret (nvars + 1))))"

definition localstat :: "libc \<Rightarrow> nat \<Rightarrow> 'd subexpr_rule \<Rightarrow> ('d, unit) gen" where
  "localstat C f E =
     gbind (localstat_names C f f 0) (\<lambda>nvars.
     gbind (testnext C f (ch (CHR ''=''))) (\<lambda>b.
     gbind (if b then explist1 C f E else gret (0, init_exp VVOID 0)) (\<lambda>(nexps, e).
     gseq (adjust_assign C (int nvars) nexps e) (adjustlocalvars nvars))))"

primrec funcname_loop :: "libc \<Rightarrow> nat \<Rightarrow> nat \<Rightarrow> expdesc \<Rightarrow> ('d, expdesc) gen" where
  "funcname_loop C f 0 v = glift (Fail NoFuel)"
| "funcname_loop C f (Suc n) v =
     gbind token (\<lambda>t. if t = ch (CHR ''.'') then gbind (field C f v) (funcname_loop C f n) else gret v)"

definition funcname :: "libc \<Rightarrow> nat \<Rightarrow> ('d, bool \<times> expdesc) gen" where
  "funcname C f =
     gbind (singlevar C f) (\<lambda>v0. gbind (funcname_loop C f f v0) (\<lambda>v.
     gbind token (\<lambda>t. if t = ch (CHR '':'') then gbind (field C f v) (\<lambda>v1. gret (True, v1)) else gret (False, v))))"

definition funcstat :: "libc \<Rightarrow> (nat \<Rightarrow> u32) \<Rightarrow> nat \<Rightarrow> ('d, unit) gen \<Rightarrow> int \<Rightarrow> ('d, unit) gen" where
  "funcstat C A f K line =
     gseq (luaX_next_step C f)
       (gbind (funcname C f) (\<lambda>(needself, v).
        gbind (body C A f K needself line) (\<lambda>b. gseq (luaK_storevar C v b) (luaK_fixline line))))"

definition exprstat :: "libc \<Rightarrow> nat \<Rightarrow> 'd subexpr_rule \<Rightarrow> ('d, unit) gen" where
  "exprstat C f E =
     gbind (primaryexp C f E) (\<lambda>v.
       if e_k v = VCALL then code_upd (e_info v) (\<lambda>i. SETARG_C i 1)
       else gseq (assignment C f E f v [] 1) (gret ()))"

text \<open>The values of \<open>return\<close>: the first register and their number.\<close>

definition return_values :: "libc \<Rightarrow> nat \<Rightarrow> 'd subexpr_rule \<Rightarrow> ('d, int \<times> int) gen" where
  "return_values C f E =
     gbind (explist1 C f E) (\<lambda>(nret, e).
       if hasmultret (e_k e) then
         gseq (luaK_setmultret C e)
           (gseq (gwhen (e_k e = VCALL \<and> nret = 1) (code_upd (e_info e) (\<lambda>i. SET_OPCODE i (op_num OP_TAILCALL))))
             (fs_read (\<lambda>fs. (fs_nactvar fs, LUA_MULTRET))))
       else if nret = 1 then gbind (luaK_exp2anyreg C e) (\<lambda>e1. gret (e_info e1, 1))
       else gseq (luaK_exp2nextreg C e) (fs_read (\<lambda>fs. (fs_nactvar fs, nret))))"

definition retstat :: "libc \<Rightarrow> nat \<Rightarrow> 'd subexpr_rule \<Rightarrow> ('d, unit) gen" where
  "retstat C f E =
     gseq (luaX_next_step C f)
       (gbind token (\<lambda>t.
        gbind (if block_follow t \<or> t = ch (CHR '';'') then gret (0, 0) else return_values C f E) (\<lambda>(first, nret).
        luaK_ret C first nret)))"

text \<open>The answer tells whether the statement must be the last one.\<close>

definition statement :: "libc \<Rightarrow> (nat \<Rightarrow> u32) \<Rightarrow> nat \<Rightarrow> 'd subexpr_rule \<Rightarrow> ('d, unit) gen \<Rightarrow> ('d, bool) gen" where
  "statement C A f E K =
     gbind linenumber (\<lambda>line. gbind token (\<lambda>t.
       if t = TK_IF then gseq (ifstat C f E K line) (gret False)
       else if t = TK_WHILE then gseq (whilestat C f E K line) (gret False)
       else if t = TK_DO then
         gseq (luaX_next_step C f) (gseq (block C K) (gseq (check_match C f TK_END TK_DO line) (gret False)))
       else if t = TK_FOR then gseq (forstat C f E K line) (gret False)
       else if t = TK_REPEAT then gseq (repeatstat C f E K line) (gret False)
       else if t = TK_FUNCTION then gseq (funcstat C A f K line) (gret False)
       else if t = TK_LOCAL then
         gseq (luaX_next_step C f)
           (gbind (testnext C f TK_FUNCTION) (\<lambda>b. gseq (if b then localfunc C A f K else localstat C f E) (gret False)))
       else if t = TK_RETURN then gseq (retstat C f E) (gret True)
       else if t = TK_BREAK then gseq (luaX_next_step C f) (gseq (breakstat C) (gret True))
       else gseq (exprstat C f E) (gret False)))"

primrec chunk_loop :: "libc \<Rightarrow> (nat \<Rightarrow> u32) \<Rightarrow> nat \<Rightarrow> 'd subexpr_rule \<Rightarrow> ('d, unit) gen \<Rightarrow> nat \<Rightarrow> bool \<Rightarrow> ('d, unit) gen" where
  "chunk_loop C A f E K 0 islast = glift (Fail NoFuel)"
| "chunk_loop C A f E K (Suc n) islast =
     gbind token (\<lambda>t.
       if \<not> islast \<and> \<not> block_follow t then
         gbind (statement C A f E K) (\<lambda>b.
         gseq (testnext C f (ch (CHR '';'')))
           (gseq (fs_upd (\<lambda>fs. fs\<lparr>fs_freereg := fs_nactvar fs\<rparr>)) (chunk_loop C A f E K n b)))
       else gret ())"

definition chunk :: "libc \<Rightarrow> (nat \<Rightarrow> u32) \<Rightarrow> nat \<Rightarrow> 'd subexpr_rule \<Rightarrow> ('d, unit) gen \<Rightarrow> ('d, unit) gen" where
  "chunk C A f E K = gseq (enterlevel C) (gseq (chunk_loop C A f E K f False) leavelevel)"

section \<open>The parser\<close>

text \<open>The rules for expressions and chunks, \<open>d\<close> levels deep.\<close>

primrec grammar :: "libc \<Rightarrow> (nat \<Rightarrow> u32) \<Rightarrow> nat \<Rightarrow> nat \<Rightarrow> 'd subexpr_rule \<times> ('d, unit) gen" where
  "grammar C A f 0 = ((\<lambda>limit. glift (Fail NoFuel)), glift (Fail NoFuel))"
| "grammar C A f (Suc d) = (case grammar C A f d of (E, K) \<Rightarrow> (subexpr C A f E K, chunk C A f E K))"

definition parser_start :: "(nat \<Rightarrow> u32) \<Rightarrow> nat \<Rightarrow> 'd ZIO \<Rightarrow> string \<Rightarrow> 'd PS res" where
  "parser_start A nCcalls z name =
     rbind (luaH_new 0 0) (\<lambda>h.
       let ls0 = \<lparr>ls_current = 0, ls_linenumber = 0, ls_lastline = 0, ls_t = \<lparr>tk_token = 0, tk_info = NoInfo\<rparr>,
                  ls_lookahead = \<lparr>tk_token = 0, tk_info = NoInfo\<rparr>, ls_h = h, ls_z = z, ls_buff = [], ls_buffsize = 0,
                  ls_source = [], ls_decpoint = CHR ''.''\<rparr>
       in Ok \<lparr>ps_ls = luaX_setinput ls0 z name,
              ps_fs = (new_FuncState (A 0) name)\<lparr>f_is_vararg := VARARG_ISVARARG\<rparr>, ps_prev = [], ps_nCcalls = nCcalls\<rparr>)"

definition main_func :: "libc \<Rightarrow> (nat \<Rightarrow> u32) \<Rightarrow> nat \<Rightarrow> ('d, Proto) gen" where
  "main_func C A f =
     gseq (luaX_next_step C f)
       (gseq (snd (grammar C A f (LUAI_MAXCCALLS + 1)))
         (gseq (check_token C TK_EOS) (gbind (close_func C) (\<lambda>fs. gret (proto_of fs)))))"

definition luaY_parser :: "libc \<Rightarrow> (nat \<Rightarrow> u32) \<Rightarrow> nat \<Rightarrow> nat \<Rightarrow> 'd ZIO \<Rightarrow> string \<Rightarrow> Proto res" where
  "luaY_parser C A f nCcalls z name =
     rbind (parser_start A nCcalls z name) (\<lambda>s. rbind (main_func C A f s) (\<lambda>(p, _). Ok p))"

end
