(* ===== verification/Spec2Isabelle.thy ===== *)
theory Spec2Isabelle
  imports ProfiBit LuaTableProps ProfiLuaProps ProfiMidiProps ProfiSerial LuaChunkProps LuaLexProps LuaTabLibProps LuaExecCheck LuaParser
begin

text \<open>
  Verification library for ProfiLua.

  ProfiLua is a Windows DLL, a plug-in for the simulator ProfiLab: each block of a simulation runs a Lua script. The
  DLL contains the interpreter Lua 5.1.4 (src/src/l*.c, with one change: binary constants in lobject.c) and
  the project's own files src/src/profi*.c: the interface to the simulator, a debug console, and the libraries for MIDI, for
  serial ports and for bit operations. The model is that of the 32-bit build: \<open>int\<close>, \<open>long\<close>, \<open>size_t\<close> and pointers have 32 bits,
  \<open>char\<close> is signed, \<open>lua_Number\<close> is an IEEE double, kept as its 64-bit word.

  Conventions. Machine integers are words. A C function that may fail is a function into \<open>'a res\<close>: \<open>Inr\<close> is the result and
  \<open>Inl\<close> an error: \<open>LuaError\<close> (a message that a script can see), \<open>MemError\<close>, \<open>Undefined\<close> (what C leaves undefined: a read
  outside an array, a null pointer, a signed overflow that matters) or \<open>NoFuel\<close>. So a theorem that excludes \<open>Undefined\<close> is about memory safety, and one that
  excludes \<open>NoFuel\<close> is about termination. A heap is a map from 32-bit addresses. What is not under src/ (winmm, the
  Windows console, the serial library asSerialCollect, \<open>sprintf\<close>, \<open>pow\<close>, the driver of MIDI devices) and what a component calls but
  is modelled elsewhere or not at all (a call of a Lua value, for the C API) is a parameter: the records \<open>world\<close> and \<open>machine\<close>
  and the arguments of the definitions. Hypotheses about a parameter are hypotheses of the theorem, with a witness.

  The layers, each with its theories:

  \<^item> Vocabulary. \<open>LuaPrelude\<close>: machine types, results, the collections of hints. \<open>LuaNumber\<close> (luaconf.h, llimits.h): the
    arithmetic of doubles with correct rounding, comparisons and conversions. \<open>LuaObject\<close> (lobject.c): values, raw equality,
    the floating point byte, \<open>luaO_log2\<close>, \<open>luaO_str2d\<close>, \<open>luaO_chunkid\<close>. \<open>LuaString\<close> (lstring.c): the string table; it keeps each
    string once.
  \<^item> Tables. \<open>LuaTable\<close> is ltable.c as it is written: the array part, the node vector with Brent's variation, the free pointer,
    rehash and resize, \<open>luaH_next\<close>, \<open>luaH_getn\<close>. \<open>LuaTableInv\<close>, \<open>LuaTableResize\<close>: the invariant of the chains and that every
    operation keeps it. \<open>LuaTableProps\<close>: the locale of key-value stores and its interpretation, the optimal size
    of the array part, traversal and boundary. A walk along a chain or a search has the fuel \<open>chain_length\<close>, or \<open>ADDRESSES = 2 ^ 32\<close>;
    the theorems show that it does not run out.
  \<^item> The C API. \<open>LuaFrame\<close>, \<open>LuaState\<close>, \<open>LuaApi\<close> (lapi.c, lstate.h, lauxlib.c, the lookups of lvm.c and ltm.c): the frame of the running
    function, tables by address, metatables, calls through the parameter \<open>w_call\<close>. \<open>LuaVm\<close> (lvm.c): conversion, comparison, arithmetic and
    concatenation with their metamethods and errors. \<open>LuaAux\<close>, \<open>LuaBuffer\<close> (lauxlib.c): argument checks, references and string buffers, with
    the locale \<open>accumulator\<close>. Chains of metatables are followed \<open>MAXTAGLOOP\<close> times, as in the code.
  \<^item> Code. \<open>LuaOpcodes\<close> (lopcodes.h), \<open>LuaProto\<close> (lobject.h), \<open>LuaZio\<close> (lzio.c), \<open>LuaDump\<close>, \<open>LuaUndump\<close> (ldump.c, lundump.c), \<open>LuaCheck\<close>
    (the verifier of ldebug.c). \<open>LuaCheckProps\<close>: the verifier is safe on any input, and what it accepts has operands in range
    and successors among its own instructions. \<open>LuaChunkProps\<close>: loading gives back what was dumped, and everything loaded is verified.
  \<^item> The interpreter. \<open>LuaDo\<close> (ldo.c, lfunc.c): upvalues, the call and the return of Lua and C functions. \<open>LuaExec\<close> (lvm.c): the 38
    instructions, one definition each, the loop \<open>luaV_execute\<close> and \<open>luaD_call\<close>. \<open>LuaExecProps\<close>: upvalues are shared variables that
    survive the end of their function, arguments arrive, numeric loops count (over \<open>vm_turn\<close>, the turns of \<open>luaV_execute\<close>). \<open>LuaExecCheck\<close>: in
    verified code every step starts and goes on at a valid instruction. \<open>luaV_execute\<close> has fuel (a script need not end): the number of instructions of
    one C call. Nested C calls are limited as in the code by \<open>LUAI_MAXCCALLS\<close>, and the recursion of \<open>vm_world\<close> has 225 levels: the 199
    that the limit permits and those in which the code handles the error of the overflow.
  \<^item> Libraries. \<open>LuaPattern\<close>, \<open>LuaStrLib\<close> (lstrlib.c): the matcher of patterns and the functions of \<open>string\<close>. \<open>LuaPatternSpec\<close> says
    what a pattern means without backtracking; \<open>LuaPatternProps\<close>, \<open>LuaStrLibProps\<close> relate the two. \<open>LuaTabLib\<close> (ltablib.c) with the
    quicksort, which sorts for every order that does not contradict itself (\<open>LuaTabLibProps\<close>). \<open>LuaLex\<close> (llex.c): the lexical
    analyser; \<open>LuaLexProps\<close> shows that it ends, consumes characters with each token and reads back what \<open>%q\<close> writes. The matcher's fuel is bounded by
    the code's own C stack; the sort, \<open>gsub\<close> and the lexical analyser get more than the number of elements or characters.
  \<^item> The compiler. \<open>LuaCode\<close> (lcode.c): the state \<open>PS\<close> of the parser with the functions under construction, the operations of the code
    generator on expressions, registers, constants and jump lists. \<open>LuaParser\<close> (lparser.c): the grammar, from \<open>luaY_parser\<close> down to
    \<open>primaryexp\<close>, as mutually dependent definitions that are tied together in a record by a fuel for the nesting. The operations are functions from the state to a result with a new state,
    composed by \<open>gbind\<close>. The fuel of the nesting is \<open>LUAI_MAXCCALLS + 1\<close>, which the code's own count of nested C calls (\<open>enterlevel\<close>) does not let it
    exceed; a loop of the grammar gets more turns than the text has characters, a walk along a jump list one more than there are instructions.
  \<^item> The project's files. \<open>ProfiLua\<close> (profilua.c) with \<open>ProfiConsole\<close> (proficonsole.c): the functions that ProfiLab calls, one
    step of the simulation against its specification, and the calls of the host as a transition system. \<open>ProfiMidi\<close> (profimidi.c): the linked lists of devices and of
    received messages on the C heap, with the invariant under every interleaving of library calls and driver callbacks and the queue
    that the messages form. \<open>ProfiSerial\<close> (profiserial.c) and \<open>ProfiBit\<close> (profibit.c).

  Interfaces are locales (key-value store, queue, accumulator, comparison of the sort, codec of chunks), each interpreted
  on the definitions that model the code.

  Not modelled. \<open>luaD_protectedparser\<close> and the loaders of files: a script enters the interpreter's model as a prototype, from \<open>luaY_parser\<close>, from
  \<open>luaU_undump\<close> or as a parameter of \<open>world\<close>. The collector (lgc.c) and the allocator (lmem.c): objects are never freed and
  memory errors appear where a size limit of the code is exceeded. Coroutines, hooks, \<open>luaD_pcall\<close> (errors are values here and carry no state, so \<open>pcall\<close> is a parameter), the growth of
  the stack, and closing a state. The libraries base, math, io, os, debug and package, and the standalone programs lua.c, luac.c, print.c. The
  registrations \<open>luaopen_*\<close> only fill tables with pointers to the functions above. A callback of the MIDI driver is atomic in the model: the code has no lock.
  The calls of the interpreter keep open upvalues out of the cells above a called function; the code does not enforce this for
  precompiled code that the compiler did not make, and the model answers \<open>Undefined\<close> there, as in the places where the verifier overlooks something (a loop
  counter that is no number, SETLIST on a value that is no table).
\<close>

end
